(* ===== verification/Prelude.thy ===== *)
theory Prelude
  imports Complex_Main "HOL-Library.AList" "HOL-Library.Sublist" "HOL-Library.Multiset"
begin

text \<open>
  Shared vocabulary of the development: the error values of
  \<^verbatim>\<open>internal/billing/errors.go\<close>, Go's 64-bit integers written as \<^typ>\<open>int\<close> with the
  wrap-around spelled out, Go maps as association lists with distinct keys, and the
  generic lemmas the component theories use. Collections: \<open>range64\<close> holds the facts that
  keep an integer inside 64 bits, \<open>smap\<close> the lookup laws of maps.
\<close>

named_theorems range64 "facts about values that fit a signed 64-bit integer"
named_theorems smap "lookup laws of association-list maps"

section \<open>Errors\<close>

text \<open>
  \<^verbatim>\<open>billing.Error\<close> carries a kind and an operator-facing message; every other Go error
  (\<open>fmt.Errorf\<close>) has no kind. Messages are Chinese prose in the source. The model keeps an
  English gloss and, letter for letter, the machine-readable prefix a message may start with.
\<close>

datatype err_kind = KindInvalid | KindNotFound | KindConflict

datatype error = Typed_Error err_kind string | Plain_Error string

fun KindOf :: "error \<Rightarrow> err_kind option" where
  "KindOf (Typed_Error k m) = Some k"
| "KindOf (Plain_Error m) = None"

fun Error_msg :: "error \<Rightarrow> string" where
  "Error_msg (Typed_Error k m) = m"
| "Error_msg (Plain_Error m) = m"

definition invalidf :: "string \<Rightarrow> error" where
  "invalidf m = Typed_Error KindInvalid m"

definition notFoundf :: "string \<Rightarrow> error" where
  "notFoundf m = Typed_Error KindNotFound m"

definition conflictf :: "string \<Rightarrow> error" where
  "conflictf m = Typed_Error KindConflict m"

lemmas error_defs = invalidf_def notFoundf_def conflictf_def

text \<open>Sequencing of fallible calls: the first error is returned.\<close>

definition try_bind :: "error + 'a \<Rightarrow> ('a \<Rightarrow> error + 'b) \<Rightarrow> error + 'b" where
  "try_bind r f = (case r of Inl e \<Rightarrow> Inl e | Inr a \<Rightarrow> f a)"

lemma try_bind_simps [simp]:
  "try_bind (Inl e) f = Inl e"
  "try_bind (Inr a) f = f a"
  by (simp_all add: try_bind_def)

lemma try_bind_eq_Inr [simp]:
  "try_bind r f = Inr b \<longleftrightarrow> (\<exists>a. r = Inr a \<and> f a = Inr b)"
  by (cases r) auto

lemma Inr_eq_try_bind [simp]:
  "Inr b = try_bind r f \<longleftrightarrow> (\<exists>a. r = Inr a \<and> f a = Inr b)"
  by (cases r) auto

definition isOk :: "error + 'a \<Rightarrow> bool" where
  "isOk r = (case r of Inl e \<Rightarrow> False | Inr a \<Rightarrow> True)"

lemma isOk_simps [simp]: "\<not> isOk (Inl e)" "isOk (Inr a)"
  by (simp_all add: isOk_def)

lemma isOk_iff: "isOk r \<longleftrightarrow> (\<exists>a. r = Inr a)"
  by (cases r) auto

text \<open>A loop over a slice that stops at the first error.\<close>

fun try_map :: "('a \<Rightarrow> error + 'b) \<Rightarrow> 'a list \<Rightarrow> error + 'b list" where
  "try_map f [] = Inr []"
| "try_map f (x # xs) = try_bind (f x) (\<lambda>y. try_bind (try_map f xs) (\<lambda>ys. Inr (y # ys)))"

lemma try_map_Inr: "try_map f xs = Inr ys \<Longrightarrow> list_all2 (\<lambda>x y. f x = Inr y) xs ys"
  by (induction xs arbitrary: ys) auto

lemma try_map_set: "try_map f xs = Inr ys \<Longrightarrow> y \<in> set ys \<Longrightarrow> \<exists>x\<in>set xs. f x = Inr y"
  by (induction xs arbitrary: ys) auto

section \<open>Signed 64-bit integers\<close>

abbreviation max_int64 :: int where
  "max_int64 \<equiv> 9223372036854775807"

abbreviation min_int64 :: int where
  "min_int64 \<equiv> - 9223372036854775808"

definition in_int64 :: "int \<Rightarrow> bool" where
  "in_int64 x \<longleftrightarrow> min_int64 \<le> x \<and> x \<le> max_int64"

text \<open>The value a 64-bit two's complement register holds after an operation with exact result \<open>x\<close>.\<close>

definition wrap64 :: "int \<Rightarrow> int" where
  "wrap64 x = (x + 9223372036854775808) mod 18446744073709551616 - 9223372036854775808"

lemma wrap64_in [range64, simp]: "in_int64 (wrap64 x)"
  by (simp add: in_int64_def wrap64_def)

lemma wrap64_id [range64]: "in_int64 x \<Longrightarrow> wrap64 x = x"
  by (simp add: in_int64_def wrap64_def)

lemma wrap64_idem [simp]: "wrap64 (wrap64 x) = wrap64 x"
  by (simp add: wrap64_id)

lemma wrap64_id_bounds: "min_int64 \<le> x \<Longrightarrow> x \<le> max_int64 \<Longrightarrow> wrap64 x = x"
  by (simp add: wrap64_id in_int64_def)

lemma wrap64_0 [simp]: "wrap64 0 = 0"
  by (simp add: wrap64_def)

text \<open>Go's \<open>%\<close> truncates towards zero: the remainder has the sign of the dividend.\<close>

definition go_rem :: "int \<Rightarrow> int \<Rightarrow> int" where
  "go_rem a b = (if a < 0 then - (\<bar>a\<bar> mod \<bar>b\<bar>) else \<bar>a\<bar> mod \<bar>b\<bar>)"

definition go_quo :: "int \<Rightarrow> int \<Rightarrow> int" where
  "go_quo a b = (if (a < 0) = (b < 0) then \<bar>a\<bar> div \<bar>b\<bar> else - (\<bar>a\<bar> div \<bar>b\<bar>))"

lemma go_rem_nonneg [simp]: "0 \<le> a \<Longrightarrow> 0 < b \<Longrightarrow> go_rem a b = a mod b"
  by (simp add: go_rem_def)

lemma go_quo_nonneg [simp]: "0 \<le> a \<Longrightarrow> 0 < b \<Longrightarrow> go_quo a b = a div b"
  by (simp add: go_quo_def)

lemma go_rem_0_iff: "0 < b \<Longrightarrow> go_rem a b = 0 \<longleftrightarrow> b dvd a"
  by (simp add: go_rem_def flip: dvd_eq_mod_eq_0)

text \<open>The idiom \<open>r := a % b; if r < 0 { r += b }\<close> computes the floor remainder.\<close>

lemma go_rem_adjust:
  assumes "0 < b"
  shows "(if go_rem a b < 0 then go_rem a b + b else go_rem a b) = a mod b"
proof (cases "a < 0")
  case False
  with assms show ?thesis by (simp add: not_less pos_mod_sign)
next
  case True
  have "(- a) mod b = (if a mod b = 0 then 0 else b - a mod b)"
    by (rule zmod_zminus1_eq_if)
  then have "go_rem a b = (if a mod b = 0 then 0 else a mod b - b)"
    using True assms by (simp add: go_rem_def)
  moreover have "a mod b < b" using assms by simp
  ultimately show ?thesis by simp
qed

section \<open>Go maps\<close>

text \<open>
  A Go map with string keys is an association list without repeated keys: \<^const>\<open>map_of\<close> reads it,
  \<^const>\<open>AList.update\<close> stores, \<^const>\<open>AList.delete\<close> deletes. Ranging over a map visits the entries in
  an order Go leaves open; the list order stands for one such order, and where a result could depend
  on it a theorem shows that it does not. A nil map pointer and an empty map read alike.
\<close>

type_synonym 'v smap = "(string \<times> 'v) list"

abbreviation mkeys :: "('k \<times> 'v) list \<Rightarrow> 'k list" where
  "mkeys m \<equiv> map fst m"

definition wf_map :: "('k \<times> 'v) list \<Rightarrow> bool" where
  "wf_map m \<longleftrightarrow> distinct (mkeys m)"

definition has_key :: "('k \<times> 'v) list \<Rightarrow> 'k \<Rightarrow> bool" where
  "has_key m k \<longleftrightarrow> map_of m k \<noteq> None"

definition map_values :: "('k \<Rightarrow> 'v \<Rightarrow> 'w) \<Rightarrow> ('k \<times> 'v) list \<Rightarrow> ('k \<times> 'w) list" where
  "map_values f m = map (\<lambda>(k, v). (k, f k v)) m"

lemma wf_map_Nil [simp]: "wf_map []"
  by (simp add: wf_map_def)

lemma wf_map_update [simp, intro]: "wf_map m \<Longrightarrow> wf_map (AList.update k v m)"
  by (simp add: wf_map_def distinct_update)

lemma wf_map_delete [simp, intro]: "wf_map m \<Longrightarrow> wf_map (AList.delete k m)"
  by (simp add: wf_map_def distinct_delete)

lemma wf_map_filter [simp, intro]: "wf_map m \<Longrightarrow> wf_map (filter P m)"
  by (simp add: wf_map_def distinct_map_filter)

lemma mkeys_map_values [simp]: "mkeys (map_values f m) = mkeys m"
  by (simp add: map_values_def split_def)

lemma wf_map_values [simp]: "wf_map (map_values f m) = wf_map m"
  by (simp add: wf_map_def)

lemma map_of_update [smap, simp]: "map_of (AList.update k v m) = (map_of m)(k \<mapsto> v)"
  by (rule update_conv')

lemma map_of_delete [smap, simp]: "map_of (AList.delete k m) = (map_of m)(k := None)"
  by (rule delete_conv')

lemma map_of_map_values [smap, simp]: "map_of (map_values f m) k = map_option (f k) (map_of m k)"
  by (induction m) (auto simp: map_values_def)

lemma set_update_subset: "set (AList.update k v m) \<subseteq> insert (k, v) (set m)"
  by (induction m) auto

lemma set_delete_subset: "set (AList.delete k m) \<subseteq> set m"
  by (auto simp: AList.delete_eq)

lemma has_key_update [simp]: "has_key (AList.update k v m) k' \<longleftrightarrow> k' = k \<or> has_key m k'"
  by (simp add: has_key_def)

lemma has_key_iff: "has_key m k \<longleftrightarrow> k \<in> set (mkeys m)"
  by (simp add: has_key_def map_of_eq_None_iff)

lemma map_of_filter_key:
  "map_of (filter (\<lambda>(k, v). P k) m) k = (if P k then map_of m k else None)"
  by (induction m) auto

lemma map_of_filter_wf:
  "wf_map m \<Longrightarrow> map_of (filter (\<lambda>(k, v). P k v) m) k =
     (case map_of m k of None \<Rightarrow> None | Some v \<Rightarrow> if P k v then Some v else None)"
proof (induction m)
  case Nil
  then show ?case by simp
next
  case (Cons kv m)
  obtain k' v' where kv: "kv = (k', v')" by (cases kv)
  have IH: "map_of (filter (\<lambda>(k, v). P k v) m) k =
     (case map_of m k of None \<Rightarrow> None | Some v \<Rightarrow> if P k v then Some v else None)"
    using Cons by (simp add: wf_map_def)
  have fresh: "k = k' \<Longrightarrow> map_of m k = None"
    using Cons.prems kv by (auto simp: wf_map_def map_of_eq_None_iff)
  show ?case
    using IH fresh by (auto simp: kv)
qed

lemma wf_map_mem_iff: "wf_map m \<Longrightarrow> (k, v) \<in> set m \<longleftrightarrow> map_of m k = Some v"
  by (auto simp: wf_map_def dest: map_of_SomeD)

lemma wf_map_perm: "mset m = mset m' \<Longrightarrow> wf_map m \<Longrightarrow> wf_map m'"
  unfolding wf_map_def by (metis mset_eq_imp_distinct_iff mset_map)

lemma map_of_perm: "mset m = mset m' \<Longrightarrow> wf_map m \<Longrightarrow> map_of m = map_of m'"
  unfolding wf_map_def by (metis map_of_eqI map_of_inject_set mset_eq_imp_distinct_iff mset_eq_setD mset_map)

section \<open>Lists\<close>

lemma find_Some_prop: "find P xs = Some x \<Longrightarrow> P x \<and> x \<in> set xs"
  by (auto simp: List.find_Some_iff)

lemma find_None_all: "find P xs = None \<longleftrightarrow> (\<forall>x\<in>set xs. \<not> P x)"
  by (auto simp: find_None_iff)

lemma filter_split_unique:
  "x \<in> set xs \<Longrightarrow> distinct xs \<Longrightarrow> filter (\<lambda>y. y = x) xs = [x]"
  by (induction xs) (auto simp: filter_empty_conv)

lemma sum_list_update_one:
  fixes f :: "'a \<Rightarrow> int"
  assumes "distinct xs" "x \<in> set xs" "\<And>y. y \<noteq> x \<Longrightarrow> g y = f y"
  shows "(\<Sum>y\<leftarrow>xs. g y) = (\<Sum>y\<leftarrow>xs. f y) + (g x - f x)"
  using assms
proof (induction xs)
  case Nil
  then show ?case by simp
next
  case (Cons a xs)
  show ?case
  proof (cases "a = x")
    case True
    with Cons.prems have "(\<Sum>y\<leftarrow>xs. g y) = (\<Sum>y\<leftarrow>xs. f y)"
      by (intro arg_cong [where f = sum_list] map_cong refl) (metis distinct.simps(2))
    with True show ?thesis by simp
  next
    case False
    with Cons show ?thesis by simp
  qed
qed

end
