(* ===== verification/GoFloat.thy ===== *)
theory GoFloat
  imports Prelude "HOL-Library.Log_Nat"
begin

text \<open>
  Go's \<open>float64\<close>: IEEE 754 binary64 with round to nearest, ties to even. A finite value is the
  rational number it denotes (so the two zeros are one value: nothing the plugin computes tells them
  apart); every operation computes the exact rational result and rounds it once. The exponent range
  has gradual underflow (exponent -1074) and overflow to infinity at \<open>2 ^ 1024\<close>.
\<close>

section \<open>Rounding\<close>

definition round_even :: "rat \<Rightarrow> int" where
  "round_even y =
     (let f = \<lfloor>y\<rfloor>; d = y - of_int f
      in if d < 1 / 2 then f else if 1 / 2 < d then f + 1 else if even f then f else f + 1)"

definition ilog2 :: "rat \<Rightarrow> int" where
  "ilog2 x =
     (case quotient_of x of (p, q) \<Rightarrow>
        let k = bitlen p - bitlen q in if 2 powi k \<le> x then k else k - 1)"

definition grid_exp :: "rat \<Rightarrow> int" where
  "grid_exp x = max (- 1074) (ilog2 x - 52)"

definition round_pos :: "rat \<Rightarrow> rat" where
  "round_pos x = of_int (round_even (x / 2 powi grid_exp x)) * 2 powi grid_exp x"

definition round_rat :: "rat \<Rightarrow> rat" where
  "round_rat x = (if x = 0 then 0 else if x < 0 then - round_pos (- x) else round_pos x)"

lemma round_even_bounds: "of_int (round_even y) - 1 / 2 \<le> y \<and> y \<le> of_int (round_even y) + 1 / 2"
proof -
  define f :: rat where "f = of_int \<lfloor>y\<rfloor>"
  have "f \<le> y" "y < f + 1" unfolding f_def by linarith+
  then show ?thesis by (auto simp: round_even_def Let_def simp flip: f_def)
qed

lemma round_even_of_int [simp]: "round_even (of_int n) = n"
  by (simp add: round_even_def)

lemma round_even_floor: "\<lfloor>y\<rfloor> \<le> round_even y \<and> round_even y \<le> \<lfloor>y\<rfloor> + 1"
  by (simp add: round_even_def Let_def)

lemma round_even_mono: "x \<le> y \<Longrightarrow> round_even x \<le> round_even y"
proof -
  assume le: "x \<le> y"
  show ?thesis
  proof (cases "\<lfloor>x\<rfloor> = \<lfloor>y\<rfloor>")
    case True
    with le show ?thesis by (simp add: round_even_def Let_def)
  next
    case False
    with le have "\<lfloor>x\<rfloor> + 1 \<le> \<lfloor>y\<rfloor>" using floor_mono [OF le] by linarith
    then show ?thesis using round_even_floor [of x] round_even_floor [of y] by linarith
  qed
qed

lemma powi_diff_2: "(2 :: rat) powi (a - b) = 2 powi a / 2 powi b"
  by (simp add: power_int_diff)

lemma powi_int_2: "0 \<le> k \<Longrightarrow> (2 :: rat) powi k = of_int (2 ^ nat k)"
  by (simp add: power_int_def)

lemma powi_2_mono: "a \<le> b \<Longrightarrow> (2 :: rat) powi a \<le> 2 powi b"
  by (rule power_int_increasing) auto

lemma powi_2_strict: "(2 :: rat) powi a < 2 powi b \<longleftrightarrow> a < b"
proof
  assume "(2 :: rat) powi a < 2 powi b"
  then show "a < b" using powi_2_mono [of b a] by (meson not_less)
next
  assume "a < b"
  then show "(2 :: rat) powi a < 2 powi b" by (intro power_int_strict_increasing) auto
qed

lemma powi_2_pos [simp]: "0 < (2 :: rat) powi a"
  by (simp add: zero_less_power_int)

lemma bitlen_powi: "0 < p \<Longrightarrow> 2 powi (bitlen p - 1) \<le> (of_int p :: rat) \<and> (of_int p :: rat) < 2 powi bitlen p"
proof -
  assume p: "0 < p"
  then have b: "2 ^ nat (bitlen p - 1) \<le> p" "p < 2 ^ nat (bitlen p)" "0 < bitlen p"
    using bitlen_bounds [of p] bitlen_eq_zero_iff [of p] bitlen_nonneg [of p] by auto
  have "(of_int (2 ^ nat (bitlen p - 1)) :: rat) \<le> of_int p" "(of_int p :: rat) < of_int (2 ^ nat (bitlen p))"
    using b by (simp_all only: of_int_le_iff of_int_less_iff)
  then show ?thesis using b by (simp add: powi_int_2)
qed

lemma ilog2_bounds:
  assumes "0 < x"
  shows "2 powi ilog2 x \<le> x" "x < 2 powi (ilog2 x + 1)"
proof -
  obtain p q where pq: "quotient_of x = (p, q)" by (cases "quotient_of x")
  have q: "0 < q" using quotient_of_denom_pos [OF pq] .
  have x: "x = of_int p / of_int q" using quotient_of_div [OF pq] .
  have p: "0 < p" using assms q x by (simp add: zero_less_divide_iff)
  define k where "k = bitlen p - bitlen q"
  have "2 powi (bitlen p - 1) / 2 powi bitlen q \<le> x"
    unfolding x using bitlen_powi [OF p] bitlen_powi [OF q] q p
    by (intro frac_le) auto
  then have lo: "2 powi (k - 1) \<le> x" by (simp add: k_def flip: powi_diff_2) (simp add: algebra_simps)
  have "x < 2 powi bitlen p / 2 powi (bitlen q - 1)"
    unfolding x using bitlen_powi [OF p] bitlen_powi [OF q] p
    by (intro frac_less) auto
  then have hi: "x < 2 powi (k + 1)" by (simp add: k_def flip: powi_diff_2) (simp add: algebra_simps)
  have il: "ilog2 x = (if 2 powi k \<le> x then k else k - 1)"
    by (simp add: ilog2_def pq k_def Let_def)
  show "2 powi ilog2 x \<le> x" using lo by (simp add: il)
  show "x < 2 powi (ilog2 x + 1)" using hi by (auto simp: il)
qed

lemma ilog2_less_iff: "0 < x \<Longrightarrow> x < 2 powi k \<longleftrightarrow> ilog2 x < k"
proof
  assume "0 < x" "x < 2 powi k"
  then have "2 powi ilog2 x < (2 :: rat) powi k" using ilog2_bounds(1) order_le_less_trans by blast
  then show "ilog2 x < k" by (simp add: powi_2_strict)
next
  assume x: "0 < x" and "ilog2 x < k"
  then have "2 powi (ilog2 x + 1) \<le> (2 :: rat) powi k" by (intro powi_2_mono) simp
  then show "x < 2 powi k" using ilog2_bounds(2) [OF x] by linarith
qed

lemma ilog2_mono: "0 < x \<Longrightarrow> x \<le> y \<Longrightarrow> ilog2 x \<le> ilog2 y"
  using ilog2_less_iff [of x "ilog2 y + 1"] ilog2_bounds(2) [of y] by force

lemma round_even_grid:
  assumes "e \<le> k"
  shows "of_int (round_even (2 powi k / 2 powi e)) * 2 powi e = (2 :: rat) powi k"
proof -
  have "(2 :: rat) powi k / 2 powi e = of_int (2 ^ nat (k - e))"
    using assms by (simp add: powi_int_2 flip: powi_diff_2)
  then have "of_int (round_even (2 powi k / 2 powi e)) = (2 :: rat) powi k / 2 powi e"
    by (metis round_even_of_int)
  then show ?thesis by simp
qed

lemma round_pos_mono:
  assumes "0 < x" "x \<le> y"
  shows "round_pos x \<le> round_pos y"
proof (cases "grid_exp x = grid_exp y")
  case True
  have "x / 2 powi grid_exp x \<le> y / 2 powi grid_exp x"
    using assms by (intro divide_right_mono) (auto simp: less_imp_le)
  then show ?thesis using True
    by (auto simp: round_pos_def intro!: mult_right_mono round_even_mono simp: less_imp_le)
next
  case False
  define k where "k = ilog2 y"
  have "ilog2 x \<le> k" unfolding k_def using assms by (rule ilog2_mono)
  with False have lt: "grid_exp x < grid_exp y" by (auto simp: grid_exp_def k_def)
  then have ey: "grid_exp y = k - 52" by (auto simp: grid_exp_def k_def)
  have "ilog2 x < k" using lt ey by (auto simp: grid_exp_def)
  then have xk: "x < 2 powi k" using ilog2_less_iff assms by blast
  have ky: "2 powi k \<le> y" unfolding k_def using assms by (intro ilog2_bounds) auto
  have "round_pos x \<le> of_int (round_even (2 powi k / 2 powi grid_exp x)) * 2 powi grid_exp x"
    unfolding round_pos_def using xk
    by (intro mult_right_mono) (auto simp: less_imp_le intro!: round_even_mono divide_right_mono)
  also have "\<dots> = 2 powi k" by (rule round_even_grid) (use lt ey in linarith)
  also have "\<dots> = of_int (round_even (2 powi k / 2 powi grid_exp y)) * 2 powi grid_exp y"
    by (rule round_even_grid [symmetric]) (simp add: ey)
  also have "\<dots> \<le> round_pos y"
    unfolding round_pos_def using ky
    by (intro mult_right_mono) (auto simp: less_imp_le intro!: round_even_mono divide_right_mono)
  finally show ?thesis .
qed

lemma round_pos_nonneg: "0 < x \<Longrightarrow> 0 \<le> round_pos x"
proof -
  assume "0 < x"
  then have "0 \<le> x / 2 powi grid_exp x" by (simp add: less_imp_le)
  then have "0 \<le> round_even (x / 2 powi grid_exp x)"
    using round_even_mono [of 0] round_even_of_int [of 0] by fastforce
  then show ?thesis by (simp add: round_pos_def less_imp_le)
qed

text \<open>Numbers with a 53-bit significand on the grid are exact.\<close>

lemma round_pos_exact:
  assumes "0 < m" "m < 2 ^ 53" "- 1074 \<le> e"
  shows "round_pos (of_int m * 2 powi e) = of_int m * 2 powi e"
proof -
  define x :: rat where "x = of_int m * 2 powi e"
  have x: "0 < x" using assms by (simp add: x_def)
  have "(of_int m :: rat) < of_int (2 ^ 53)" using assms by (simp only: of_int_less_iff)
  then have "x < 2 powi 53 * 2 powi e" by (simp add: x_def)
  also have "\<dots> = 2 powi (53 + e)" by (simp add: power_int_add)
  finally have "ilog2 x < 53 + e" using x by (simp add: ilog2_less_iff)
  then have le: "grid_exp x \<le> e" using assms by (simp add: grid_exp_def)
  have "x / 2 powi grid_exp x = of_int m * 2 powi (e - grid_exp x)"
    by (simp add: x_def powi_diff_2)
  also have "\<dots> = of_int (m * 2 ^ nat (e - grid_exp x))" using le by (simp add: powi_int_2)
  finally have "of_int (round_even (x / 2 powi grid_exp x)) = x / 2 powi grid_exp x"
    by (metis round_even_of_int)
  then show ?thesis by (simp add: round_pos_def flip: x_def)
qed

lemma round_pos_power: "- 1074 \<le> e \<Longrightarrow> round_pos (2 powi e) = 2 powi e"
  using round_pos_exact [of 1 e] by simp

lemma round_pos_idem:
  assumes "0 < x"
  shows "round_pos x = 0 \<or> round_pos (round_pos x) = round_pos x"
proof -
  define n where "n = round_even (x / 2 powi grid_exp x)"
  have r: "round_pos x = of_int n * 2 powi grid_exp x" by (simp add: round_pos_def n_def)
  have e: "- 1074 \<le> grid_exp x" by (simp add: grid_exp_def)
  have "0 \<le> round_pos x" using assms by (rule round_pos_nonneg)
  then have n0: "0 \<le> n" using powi_2_pos [of "grid_exp x"] by (auto simp: r zero_le_mult_iff)
  have "ilog2 x + 1 \<le> 53 + grid_exp x" by (simp add: grid_exp_def)
  then have "x < 2 powi (53 + grid_exp x)"
    using ilog2_bounds(2) [OF assms] powi_2_mono order_less_le_trans by blast
  then have "x / 2 powi grid_exp x \<le> of_int (2 ^ 53)"
    by (simp add: power_int_add divide_simps)
  then have "n \<le> 2 ^ 53" unfolding n_def by (metis round_even_mono round_even_of_int)
  then consider "n = 0" | "0 < n" "n < 2 ^ 53" | "n = 2 ^ 53" using n0 by linarith
  then show ?thesis
  proof cases
    case 1
    then show ?thesis by (simp add: r)
  next
    case 2
    then show ?thesis using round_pos_exact [OF 2 e] by (simp add: r)
  next
    case 3
    then have "round_pos x = 2 powi (53 + grid_exp x)" by (simp add: r power_int_add)
    then show ?thesis using e by (simp add: round_pos_power)
  qed
qed

lemma round_rat_nonneg: "0 \<le> x \<Longrightarrow> 0 \<le> round_rat x"
  by (simp add: round_rat_def round_pos_nonneg)

lemma round_rat_mono: "0 \<le> x \<Longrightarrow> x \<le> y \<Longrightarrow> round_rat x \<le> round_rat y"
  by (auto simp: round_rat_def round_pos_mono intro: round_pos_nonneg)

lemma round_rat_idem: "0 \<le> x \<Longrightarrow> round_rat (round_rat x) = round_rat x"
  using round_pos_idem [of x] round_pos_nonneg [of x] by (auto simp: round_rat_def)

lemma round_rat_0 [simp]: "round_rat 0 = 0"
  by (simp add: round_rat_def)

lemma round_rat_int: "0 \<le> n \<Longrightarrow> n < 2 ^ 53 \<Longrightarrow> round_rat (of_int n) = of_int n"
  using round_pos_exact [of n 0] by (auto simp: round_rat_def)

section \<open>Values and operations\<close>

datatype f64 = F_NaN | F_Inf | F_NegInf | Fin rat

text \<open>One rounding of an exact result.\<close>

definition f64_bound :: rat where
  "f64_bound = 2 powi 1024"

definition round64 :: "rat \<Rightarrow> f64" where
  "round64 x =
     (let r = round_rat x
      in if f64_bound \<le> r then F_Inf else if r \<le> - f64_bound then F_NegInf else Fin r)"

lemma f64_bound_pos [simp]: "0 < f64_bound"
  by (simp add: f64_bound_def)

definition max_float64 :: rat where
  "max_float64 = of_int 9007199254740991 * 2 powi 971"

text \<open>The finite values a \<open>float64\<close> can hold.\<close>

fun is_f64 :: "f64 \<Rightarrow> bool" where
  "is_f64 (Fin x) = (round64 x = Fin x)"
| "is_f64 _ = True"

fun fadd :: "f64 \<Rightarrow> f64 \<Rightarrow> f64" where
  "fadd (Fin x) (Fin y) = round64 (x + y)"
| "fadd F_NaN _ = F_NaN"
| "fadd _ F_NaN = F_NaN"
| "fadd F_Inf F_NegInf = F_NaN"
| "fadd F_NegInf F_Inf = F_NaN"
| "fadd F_Inf _ = F_Inf"
| "fadd _ F_Inf = F_Inf"
| "fadd F_NegInf _ = F_NegInf"
| "fadd _ F_NegInf = F_NegInf"

fun fneg :: "f64 \<Rightarrow> f64" where
  "fneg (Fin x) = Fin (- x)"
| "fneg F_NaN = F_NaN"
| "fneg F_Inf = F_NegInf"
| "fneg F_NegInf = F_Inf"

definition fsub :: "f64 \<Rightarrow> f64 \<Rightarrow> f64" where
  "fsub x y = fadd x (fneg y)"

definition inf_of_sign :: "rat \<Rightarrow> f64" where
  "inf_of_sign s = (if s = 0 then F_NaN else if 0 < s then F_Inf else F_NegInf)"

fun fsign :: "f64 \<Rightarrow> rat" where
  "fsign (Fin x) = (if x = 0 then 0 else if 0 < x then 1 else - 1)"
| "fsign F_Inf = 1"
| "fsign F_NegInf = - 1"
| "fsign F_NaN = 0"

fun fmul :: "f64 \<Rightarrow> f64 \<Rightarrow> f64" where
  "fmul (Fin x) (Fin y) = round64 (x * y)"
| "fmul F_NaN _ = F_NaN"
| "fmul _ F_NaN = F_NaN"
| "fmul x y = inf_of_sign (fsign x * fsign y)"

text \<open>Division by a finite non-zero constant is all the plugin does with a finite dividend; a zero
  divisor gives an infinity or, for 0 / 0, not-a-number.\<close>

fun fdiv :: "f64 \<Rightarrow> f64 \<Rightarrow> f64" where
  "fdiv (Fin x) (Fin y) = (if y = 0 then inf_of_sign x else round64 (x / y))"
| "fdiv F_NaN _ = F_NaN"
| "fdiv _ F_NaN = F_NaN"
| "fdiv (Fin x) _ = Fin 0"
| "fdiv x (Fin y) = inf_of_sign (fsign x * (if y < 0 then - 1 else 1))"
| "fdiv _ _ = F_NaN"

text \<open>Comparisons: every one with not-a-number is false.\<close>

fun flt :: "f64 \<Rightarrow> f64 \<Rightarrow> bool" where
  "flt (Fin x) (Fin y) = (x < y)"
| "flt F_NaN _ = False"
| "flt _ F_NaN = False"
| "flt _ F_NegInf = False"
| "flt F_Inf _ = False"
| "flt _ _ = True"

definition feq :: "f64 \<Rightarrow> f64 \<Rightarrow> bool" where
  "feq x y \<longleftrightarrow> x \<noteq> F_NaN \<and> x = y"

definition fle :: "f64 \<Rightarrow> f64 \<Rightarrow> bool" where
  "fle x y \<longleftrightarrow> flt x y \<or> feq x y"

definition IsNaN :: "f64 \<Rightarrow> bool" where
  "IsNaN x \<longleftrightarrow> x = F_NaN"

definition IsInf :: "f64 \<Rightarrow> bool" where
  "IsInf x \<longleftrightarrow> x = F_Inf \<or> x = F_NegInf"

text \<open>\<open>math.Min\<close>, \<open>math.Max\<close> and the builtin \<open>max\<close> propagate not-a-number.\<close>

definition fmin :: "f64 \<Rightarrow> f64 \<Rightarrow> f64" where
  "fmin x y =
     (if x = F_NegInf \<or> y = F_NegInf then F_NegInf
      else if x = F_NaN \<or> y = F_NaN then F_NaN
      else if flt x y then x else y)"

definition fmax :: "f64 \<Rightarrow> f64 \<Rightarrow> f64" where
  "fmax x y =
     (if x = F_Inf \<or> y = F_Inf then F_Inf
      else if x = F_NaN \<or> y = F_NaN then F_NaN
      else if flt y x then x else y)"

definition f64_of_int :: "int \<Rightarrow> f64" where
  "f64_of_int n = round64 (of_int n)"

text \<open>\<open>math.Round\<close>: half away from zero; exact, since the result of a \<open>float64\<close> is a \<open>float64\<close>.\<close>

fun fround :: "f64 \<Rightarrow> f64" where
  "fround (Fin x) = Fin (of_int (if x < 0 then - \<lfloor>- x + 1 / 2\<rfloor> else \<lfloor>x + 1 / 2\<rfloor>))"
| "fround x = x"

section \<open>Non-negative values\<close>

fun nonneg :: "f64 \<Rightarrow> bool" where
  "nonneg (Fin x) = (0 \<le> x)"
| "nonneg F_Inf = True"
| "nonneg _ = False"

fun is_fin :: "f64 \<Rightarrow> bool" where
  "is_fin (Fin x) = True"
| "is_fin _ = False"

lemma round64_nonneg_cases:
  assumes "0 \<le> x"
  shows "(round64 x = F_Inf \<and> f64_bound \<le> round_rat x) \<or>
         (round64 x = Fin (round_rat x) \<and> 0 \<le> round_rat x \<and> round_rat x < f64_bound)"
proof -
  have "0 \<le> round_rat x" using assms by (rule round_rat_nonneg)
  moreover have "\<not> round_rat x \<le> - f64_bound"
    using calculation f64_bound_pos by linarith
  ultimately show ?thesis by (simp add: round64_def Let_def linorder_not_le)
qed

lemma nonneg_round64 [simp, intro]: "0 \<le> x \<Longrightarrow> nonneg (round64 x)"
  using round64_nonneg_cases [of x] by auto

lemma nonneg_iff: "nonneg x \<longleftrightarrow> x = F_Inf \<or> (\<exists>r. x = Fin r \<and> 0 \<le> r)"
  by (cases x) auto

lemma nonneg_fadd [simp, intro]: "nonneg x \<Longrightarrow> nonneg y \<Longrightarrow> nonneg (fadd x y)"
  by (auto simp: nonneg_iff [of x] nonneg_iff [of y])

lemma nonneg_fmul_fin [simp, intro]: "nonneg x \<Longrightarrow> 0 \<le> r \<Longrightarrow> is_fin x \<Longrightarrow> nonneg (fmul x (Fin r))"
  by (cases x) auto

lemma is_f64_round64 [simp, intro]: "0 \<le> x \<Longrightarrow> is_f64 (round64 x)"
  using round64_nonneg_cases [of x]
  by (auto simp: round64_def Let_def round_rat_idem)

lemma is_f64_iff: "0 \<le> x \<Longrightarrow> is_f64 (Fin x) \<longleftrightarrow> round_rat x = x \<and> x < f64_bound"
  using round64_nonneg_cases [of x] by auto

lemma is_f64_0 [simp]: "is_f64 (Fin 0)"
  by (simp add: round64_def linorder_not_le)

text \<open>Adding a non-negative amount to a representable non-negative value never lowers it.\<close>

lemma fadd_ge_left:
  assumes "0 \<le> x" "0 \<le> y" "is_f64 (Fin x)"
  shows "fadd (Fin x) (Fin y) = F_Inf \<or> (\<exists>z. fadd (Fin x) (Fin y) = Fin z \<and> x \<le> z \<and> is_f64 (Fin z))"
proof -
  have x: "round_rat x = x" using assms by (simp add: is_f64_iff del: is_f64.simps)
  have "x \<le> round_rat (x + y)"
    using round_rat_mono [of x "x + y"] assms x by simp
  moreover have "is_f64 (round64 (x + y))" using assms by (intro is_f64_round64) simp
  ultimately show ?thesis
    using round64_nonneg_cases [of "x + y"] assms(1,2) by (cases "round64 (x + y)") auto
qed

lemma is_f64_max_float64: "is_f64 (Fin max_float64)" and max_float64_pos [simp]: "0 < max_float64"
  and max_float64_less: "max_float64 < f64_bound"
proof -
  show p: "0 < max_float64" by (simp add: max_float64_def)
  have r: "round_rat max_float64 = max_float64"
    using round_pos_exact [of 9007199254740991 971] p by (simp add: round_rat_def max_float64_def)
  have "(of_int 9007199254740991 :: rat) * 2 powi 971 < 2 powi 53 * 2 powi 971"
    by (intro mult_strict_right_mono) auto
  also have "\<dots> = f64_bound" unfolding f64_bound_def by (subst power_int_add [symmetric]) auto
  finally show l: "max_float64 < f64_bound" by (simp add: max_float64_def)
  show "is_f64 (Fin max_float64)" using p r l by (simp add: is_f64_iff del: is_f64.simps)
qed

lemma fmin_max_float64:
  assumes "nonneg x" "is_f64 x"
  shows "\<exists>z. fmin x (Fin max_float64) = Fin z \<and> 0 \<le> z \<and> is_f64 (Fin z)"
  using assms is_f64_max_float64
  by (cases x) (auto simp: fmin_def less_imp_le simp del: is_f64.simps)

lemma fadd_comm: "fadd x y = fadd y x"
  by (cases x; cases y) (auto simp: add.commute)

lemma fle_fadd_left:
  assumes "nonneg x" "nonneg y" "is_f64 x"
  shows "fle x (fadd x y)"
proof (cases x)
  case (Fin r)
  show ?thesis
  proof (cases y)
    case (Fin q)
    have "0 \<le> r" "0 \<le> q" "is_f64 (Fin r)" using assms \<open>x = Fin r\<close> Fin by simp_all
    from fadd_ge_left [OF this] show ?thesis
      using \<open>x = Fin r\<close> Fin by (auto simp: fle_def feq_def simp del: fadd.simps)
  qed (use assms Fin in \<open>auto simp: fle_def feq_def\<close>)
qed (use assms in \<open>auto simp: fle_def feq_def nonneg_iff [of y]\<close>)

lemma fle_trans: "fle x y \<Longrightarrow> fle y z \<Longrightarrow> fle x z"
  by (cases x; cases y; cases z) (auto simp: fle_def feq_def)

lemma is_f64_fadd [intro]: "nonneg x \<Longrightarrow> nonneg y \<Longrightarrow> is_f64 (fadd x y)"
  by (auto simp: nonneg_iff simp del: is_f64.simps(1))

lemma is_f64_fmul [intro]: "nonneg x \<Longrightarrow> nonneg y \<Longrightarrow> is_f64 (fmul x y)"
  by (auto simp: nonneg_iff inf_of_sign_def simp del: is_f64.simps(1))

text \<open>No finite value exceeds \<^const>\<open>max_float64\<close>.\<close>

lemma is_f64_le_max:
  assumes "0 \<le> x" "is_f64 (Fin x)"
  shows "x \<le> max_float64"
proof (cases "x = 0")
  case False
  then have x: "0 < x" using assms by simp
  have r: "round_pos x = x" and b: "x < f64_bound"
    using assms False by (auto simp: is_f64_iff round_rat_def simp del: is_f64.simps)
  have il: "ilog2 x < 1024" using b ilog2_less_iff [OF x, of 1024] unfolding f64_bound_def by blast
  show ?thesis
  proof (cases "ilog2 x = 1023")
    case True
    define n where "n = round_even (x / 2 powi 971)"
    have xn: "x = of_int n * 2 powi 971" using r True by (simp add: round_pos_def grid_exp_def n_def)
    have "f64_bound = of_int (2 ^ 53) * 2 powi 971"
      unfolding f64_bound_def using power_int_add [of "2 :: rat" 53 971] by (simp add: powi_int_2)
    then have "of_int n * 2 powi 971 < (of_int (2 ^ 53) :: rat) * 2 powi 971" using b xn by (simp only:)
    then have "of_int n < (of_int (2 ^ 53) :: rat)" by (rule mult_right_less_imp_less) (rule less_imp_le, rule powi_2_pos)
    then have "n \<le> 9007199254740991" by (simp only: of_int_less_iff) simp
    then have "(of_int n :: rat) \<le> of_int 9007199254740991" by (simp only: of_int_le_iff)
    then show ?thesis unfolding max_float64_def xn by (intro mult_right_mono) (simp_all add: less_imp_le)
  next
    case False
    then have "ilog2 x < 1023" using il by simp
    then have "x < 2 powi 1023" by (simp only: ilog2_less_iff [OF x])
    also have "(2 :: rat) powi 1023 = of_int (2 ^ 52) * 2 powi 971"
      using power_int_add [of "2 :: rat" 52 971] by (simp add: powi_int_2)
    also have "\<dots> \<le> max_float64"
      unfolding max_float64_def by (intro mult_right_mono) (simp_all add: less_imp_le)
    finally show ?thesis by simp
  qed
qed (simp add: less_imp_le)

end
