(* ===== verification/GoStrings.thy ===== *)
theory GoStrings
  imports Prelude "HOL-Library.List_Lexorder" "HOL-Library.Char_ord"
begin

text \<open>
  The part of Go's \<open>strings\<close> and \<open>strconv\<close> packages the plugin uses, over byte strings: a
  \<^typ>\<open>char\<close> is one byte, \<open>length\<close> is \<open>len\<close>, and \<open><\<close> on strings is Go's byte-wise order.
  \<open>TrimSpace\<close> removes every Unicode white-space character (its UTF-8 bytes are listed).
  \<open>ToLower\<close> and \<open>EqualFold\<close> fold the letters A to Z only: characters outside ASCII that have
  case (none occurs in scopes, identifiers or fingerprints) are left as they are.
\<close>

section \<open>Trimming white space\<close>

definition white_space :: "string list" where
  "white_space =
     [[CHR 0x09], [CHR 0x0A], [CHR 0x0B], [CHR 0x0C], [CHR 0x0D], [CHR 0x20],
      [CHR 0xC2, CHR 0x85], [CHR 0xC2, CHR 0xA0], [CHR 0xE1, CHR 0x9A, CHR 0x80],
      [CHR 0xE2, CHR 0x80, CHR 0x80], [CHR 0xE2, CHR 0x80, CHR 0x81], [CHR 0xE2, CHR 0x80, CHR 0x82],
      [CHR 0xE2, CHR 0x80, CHR 0x83], [CHR 0xE2, CHR 0x80, CHR 0x84], [CHR 0xE2, CHR 0x80, CHR 0x85],
      [CHR 0xE2, CHR 0x80, CHR 0x86], [CHR 0xE2, CHR 0x80, CHR 0x87], [CHR 0xE2, CHR 0x80, CHR 0x88],
      [CHR 0xE2, CHR 0x80, CHR 0x89], [CHR 0xE2, CHR 0x80, CHR 0x8A], [CHR 0xE2, CHR 0x80, CHR 0xA8],
      [CHR 0xE2, CHR 0x80, CHR 0xA9], [CHR 0xE2, CHR 0x80, CHR 0xAF], [CHR 0xE2, CHR 0x81, CHR 0x9F],
      [CHR 0xE3, CHR 0x80, CHR 0x80]]"

function strip_front :: "string list \<Rightarrow> string \<Rightarrow> string" where
  "strip_front ws s =
     (case find (\<lambda>w. w \<noteq> [] \<and> prefix w s) ws of
        None \<Rightarrow> s
      | Some w \<Rightarrow> strip_front ws (drop (length w) s))"
  by pat_completeness auto
termination
  by (relation "measure (\<lambda>(ws, s). length s)") (auto simp: find_Some_iff prefix_def)

declare strip_front.simps [simp del]

definition trim_left :: "string \<Rightarrow> string" where
  "trim_left s = strip_front white_space s"

definition trim_right :: "string \<Rightarrow> string" where
  "trim_right s = rev (strip_front (map rev white_space) (rev s))"

definition TrimSpace :: "string \<Rightarrow> string" where
  "TrimSpace s = trim_right (trim_left s)"

definition front_clean :: "string list \<Rightarrow> string \<Rightarrow> bool" where
  "front_clean ws s \<longleftrightarrow> (\<forall>w\<in>set ws. w \<noteq> [] \<longrightarrow> \<not> prefix w s)"

lemma strip_front_clean [simp]: "front_clean ws (strip_front ws s)"
proof (induction ws s rule: strip_front.induct)
  case (1 ws s)
  show ?case
  proof (cases "find (\<lambda>w. w \<noteq> [] \<and> prefix w s) ws")
    case None
    then have "\<forall>w\<in>set ws. w \<noteq> [] \<longrightarrow> \<not> prefix w s" by (auto simp: find_None_all)
    with None show ?thesis by (subst strip_front.simps) (auto simp: front_clean_def)
  next
    case (Some w)
    with 1 show ?thesis by (subst strip_front.simps) simp
  qed
qed

lemma strip_front_id: "front_clean ws s \<Longrightarrow> strip_front ws s = s"
  by (subst strip_front.simps) (auto simp: front_clean_def dest: find_Some_prop split: option.split)

lemma suffix_strip_front: "suffix (strip_front ws s) s"
proof (induction ws s rule: strip_front.induct)
  case (1 ws s)
  show ?case
  proof (cases "find (\<lambda>w. w \<noteq> [] \<and> prefix w s) ws")
    case None
    then show ?thesis by (subst strip_front.simps) simp
  next
    case (Some w)
    with 1 have "suffix (strip_front ws (drop (length w) s)) (drop (length w) s)" by blast
    with Some show ?thesis
      by (subst strip_front.simps) (auto intro: suffix_order.trans suffix_drop)
  qed
qed

lemma front_clean_prefix: "front_clean ws s \<Longrightarrow> prefix t s \<Longrightarrow> front_clean ws t"
  unfolding front_clean_def by (meson prefix_order.trans)

lemma prefix_trim_right: "prefix (trim_right s) s"
  unfolding trim_right_def by (metis rev_rev_ident suffix_strip_front suffix_to_prefix)

definition trimmed :: "string \<Rightarrow> bool" where
  "trimmed s \<longleftrightarrow> front_clean white_space s \<and> front_clean (map rev white_space) (rev s)"

lemma trimmed_TrimSpace [simp]: "trimmed (TrimSpace s)"
proof -
  have "front_clean white_space (trim_left s)" by (simp add: trim_left_def)
  then have "front_clean white_space (TrimSpace s)"
    unfolding TrimSpace_def by (rule front_clean_prefix) (rule prefix_trim_right)
  moreover have "front_clean (map rev white_space) (rev (TrimSpace s))"
    by (simp add: TrimSpace_def trim_right_def)
  ultimately show ?thesis by (simp add: trimmed_def)
qed

lemma TrimSpace_id: "trimmed s \<Longrightarrow> TrimSpace s = s"
  by (simp add: trimmed_def TrimSpace_def trim_left_def trim_right_def strip_front_id)

lemma TrimSpace_idem [simp]: "TrimSpace (TrimSpace s) = TrimSpace s"
  by (simp add: TrimSpace_id)

lemma trimmed_Nil [simp]: "trimmed []"
  by (simp add: trimmed_def front_clean_def)

lemma TrimSpace_Nil [simp]: "TrimSpace [] = []"
  by (simp add: TrimSpace_id)

lemma length_TrimSpace: "length (TrimSpace s) \<le> length s"
proof -
  have "length (trim_right (trim_left s)) \<le> length (trim_left s)"
    by (rule prefix_length_le) (rule prefix_trim_right)
  also have "\<dots> \<le> length s"
    unfolding trim_left_def by (rule suffix_length_le) (rule suffix_strip_front)
  finally show ?thesis by (simp add: TrimSpace_def)
qed

lemma set_TrimSpace: "set (TrimSpace s) \<subseteq> set s"
proof -
  have "set (trim_right (trim_left s)) \<subseteq> set (trim_left s)"
    by (rule set_mono_prefix) (rule prefix_trim_right)
  also have "\<dots> \<subseteq> set s"
    unfolding trim_left_def by (rule set_mono_suffix) (rule suffix_strip_front)
  finally show ?thesis by (simp add: TrimSpace_def)
qed

text \<open>A string without any byte that starts or ends a white-space character is trimmed.\<close>

definition space_free :: "string \<Rightarrow> bool" where
  "space_free s \<longleftrightarrow> (\<forall>c\<in>set s. c \<notin> {hd w | w. w \<in> set white_space} \<union> {last w | w. w \<in> set white_space})"

lemma white_space_nonempty: "w \<in> set white_space \<Longrightarrow> w \<noteq> []"
  by (auto simp: white_space_def)

lemma space_free_trimmed:
  assumes "space_free s"
  shows "trimmed s"
proof -
  have *: "\<not> prefix w s" if w: "w \<in> set white_space" for w
  proof
    assume "prefix w s"
    with white_space_nonempty [OF w] have "hd w \<in> set s" by (auto simp: prefix_def)
    with assms w show False by (auto simp: space_free_def)
  qed
  have **: "\<not> prefix (rev w) (rev s)" if w: "w \<in> set white_space" for w
  proof
    assume "prefix (rev w) (rev s)"
    then have "suffix w s" by (simp add: suffix_to_prefix)
    with white_space_nonempty [OF w] have "last w \<in> set s" by (auto simp: suffix_def)
    with assms w show False by (auto simp: space_free_def)
  qed
  from * ** show ?thesis by (auto simp: trimmed_def front_clean_def)
qed

text \<open>Visible ASCII bytes never belong to white space.\<close>

definition visible :: "char \<Rightarrow> bool" where
  "visible c \<longleftrightarrow> (33 :: nat) \<le> of_char c \<and> of_char c \<le> (126 :: nat)"

lemma visible_ascii [simp]: "visible (CHR ''.'')" "visible (CHR ''-'')" "visible (CHR ''_'')"
  by (simp_all add: visible_def)

lemma white_not_visible: "\<forall>w\<in>set white_space. \<not> visible (hd w) \<and> \<not> visible (last w)"
  by (simp add: white_space_def visible_def)

lemma TrimSpace_visible: "list_all visible s \<Longrightarrow> TrimSpace s = s"
proof -
  assume s: "list_all visible s"
  have "space_free s"
    unfolding space_free_def using s white_not_visible by (auto simp: list_all_iff)
  then show ?thesis by (intro TrimSpace_id space_free_trimmed)
qed

section \<open>Letter case\<close>

definition is_upper :: "char \<Rightarrow> bool" where
  "is_upper c \<longleftrightarrow> CHR ''A'' \<le> c \<and> c \<le> CHR ''Z''"

definition lower_byte :: "char \<Rightarrow> char" where
  "lower_byte c = (if is_upper c then char_of (of_char c + 32 :: nat) else c)"

definition ToLower :: "string \<Rightarrow> string" where
  "ToLower s = map lower_byte s"

definition EqualFold :: "string \<Rightarrow> string \<Rightarrow> bool" where
  "EqualFold s t \<longleftrightarrow> ToLower s = ToLower t"

lemma is_upper_bounds: "is_upper c \<Longrightarrow> (65 :: nat) \<le> of_char c \<and> of_char c \<le> (90 :: nat)"
  by (simp add: is_upper_def less_eq_char_def)

lemma lower_byte_upper:
  assumes "is_upper c"
  shows "of_char (lower_byte c) = (of_char c + 32 :: nat)"
  using assms is_upper_bounds [OF assms] by (simp add: lower_byte_def)

lemma lower_byte_other: "\<not> is_upper c \<Longrightarrow> lower_byte c = c"
  by (simp add: lower_byte_def)

lemma not_is_upper_lower [simp]: "\<not> is_upper (lower_byte c)"
proof (cases "is_upper c")
  case True
  then show ?thesis
    using is_upper_bounds [of "lower_byte c"] is_upper_bounds [of c] lower_byte_upper [of c] by auto
qed (simp add: lower_byte_other)

lemma lower_byte_idem [simp]: "lower_byte (lower_byte c) = lower_byte c"
  by (simp add: lower_byte_other)

lemma ToLower_idem [simp]: "ToLower (ToLower s) = ToLower s"
  by (simp add: ToLower_def)

lemma length_ToLower [simp]: "length (ToLower s) = length s"
  by (simp add: ToLower_def)

lemma ToLower_Nil [simp]: "ToLower [] = []" "ToLower s = [] \<longleftrightarrow> s = []"
  by (simp_all add: ToLower_def)

lemma EqualFold_refl [simp]: "EqualFold s s"
  and EqualFold_sym: "EqualFold s t \<Longrightarrow> EqualFold t s"
  and EqualFold_trans: "EqualFold s t \<Longrightarrow> EqualFold t u \<Longrightarrow> EqualFold s u"
  by (simp_all add: EqualFold_def)

lemma white_not_letter:
  "c \<in> set (concat white_space) \<Longrightarrow>
     \<not> ((65 :: nat) \<le> of_char c \<and> of_char c \<le> (90 :: nat)) \<and> \<not> ((97 :: nat) \<le> of_char c \<and> of_char c \<le> (122 :: nat))"
  by (auto simp: white_space_def)

lemma lower_byte_white:
  assumes c: "c \<in> set (concat white_space)"
  shows "lower_byte d = c \<longleftrightarrow> d = c"
proof (cases "is_upper d")
  case True
  then have "of_char (lower_byte d) \<noteq> (of_char c :: nat)" "of_char d \<noteq> (of_char c :: nat)"
    using white_not_letter [OF c] is_upper_bounds [OF True] lower_byte_upper [OF True] by auto
  then show ?thesis by auto
qed (simp add: lower_byte_other)

lemma map_lower_eq_white: "set w \<subseteq> set (concat white_space) \<Longrightarrow> map lower_byte u = w \<longleftrightarrow> u = w"
proof (induction u arbitrary: w)
  case Nil
  then show ?case by auto
next
  case (Cons d u)
  show ?case
  proof (cases w)
    case Nil
    then show ?thesis by simp
  next
    case (Cons c w')
    with Cons.prems have "c \<in> set (concat white_space)" "set w' \<subseteq> set (concat white_space)" by auto
    with Cons.IH [of w'] lower_byte_white [of c d] Cons show ?thesis by simp
  qed
qed

lemma prefix_lower_white:
  assumes "set w \<subseteq> set (concat white_space)"
  shows "prefix w (map lower_byte s) \<longleftrightarrow> prefix w s"
proof -
  have "prefix w (map lower_byte s) \<longleftrightarrow> take (length w) (map lower_byte s) = w"
    by (metis append_eq_conv_conj prefix_def)
  also have "\<dots> \<longleftrightarrow> map lower_byte (take (length w) s) = w" by (simp add: take_map)
  also have "\<dots> \<longleftrightarrow> take (length w) s = w" by (rule map_lower_eq_white [OF assms])
  also have "\<dots> \<longleftrightarrow> prefix w s" by (metis append_eq_conv_conj prefix_def take_is_prefix)
  finally show ?thesis .
qed

lemma trimmed_ToLower [simp]: "trimmed (ToLower s) = trimmed s"
proof -
  have sub: "set w \<subseteq> set (concat white_space)" if "w \<in> set white_space" for w
    using that by auto
  have "front_clean white_space (ToLower s) = front_clean white_space s"
    unfolding front_clean_def ToLower_def using prefix_lower_white sub by blast
  moreover have "prefix (rev w) (rev (ToLower s)) = prefix (rev w) (rev s)" if "w \<in> set white_space" for w
    unfolding ToLower_def rev_map using prefix_lower_white [of "rev w"] sub [OF that] by simp
  ultimately show ?thesis by (auto simp: trimmed_def front_clean_def)
qed

lemma TrimSpace_ToLower: "TrimSpace s = s \<Longrightarrow> TrimSpace (ToLower s) = ToLower s"
  by (metis trimmed_TrimSpace trimmed_ToLower TrimSpace_id)

section \<open>UTF-8\<close>

text \<open>
  \<open>[]rune(s)\<close>: the code points of a byte string as Go decodes them; every byte that does not start a
  well-formed sequence counts as one replacement character.
\<close>

definition cont :: "nat \<Rightarrow> bool" where
  "cont b \<longleftrightarrow> 128 \<le> b \<and> b \<le> 191"

fun decode_runes :: "nat list \<Rightarrow> nat list" where
  "decode_runes [] = []"
| "decode_runes (a # rest) =
     (if a < 128 then a # decode_runes rest
      else case rest of
        [] \<Rightarrow> [65533]
      | b # rest2 \<Rightarrow>
          if 194 \<le> a \<and> a \<le> 223 \<and> cont b then ((a - 192) * 64 + (b - 128)) # decode_runes rest2
          else case rest2 of
            [] \<Rightarrow> 65533 # decode_runes rest
          | c # rest3 \<Rightarrow>
              if 224 \<le> a \<and> a \<le> 239 \<and> cont b \<and> cont c \<and> (a = 224 \<longrightarrow> 160 \<le> b) \<and> (a = 237 \<longrightarrow> b \<le> 159)
              then (((a - 224) * 64 + (b - 128)) * 64 + (c - 128)) # decode_runes rest3
              else case rest3 of
                [] \<Rightarrow> 65533 # decode_runes rest
              | d # rest4 \<Rightarrow>
                  if 240 \<le> a \<and> a \<le> 244 \<and> cont b \<and> cont c \<and> cont d \<and> (a = 240 \<longrightarrow> 144 \<le> b) \<and> (a = 244 \<longrightarrow> b \<le> 143)
                  then ((((a - 240) * 64 + (b - 128)) * 64 + (c - 128)) * 64 + (d - 128)) # decode_runes rest4
                  else 65533 # decode_runes rest)"

definition runes :: "string \<Rightarrow> nat list" where
  "runes s = decode_runes (map of_char s)"

definition IsControl :: "nat \<Rightarrow> bool" where
  "IsControl r \<longleftrightarrow> r < 32 \<or> (127 \<le> r \<and> r < 160)"

end
