(* ===== verification/Strconv.thy ===== *)
theory Strconv
  imports GoStrings
begin

text \<open>
  Decimal conversion (\<open>strconv.FormatInt\<close>, \<open>strconv.ParseInt(s, 10, 64)\<close>, \<open>strconv.Atoi\<close>,
  \<open>fmt.Sprintf\<close> of \<open>%d\<close> and \<open>%0Nd\<close>) and splitting at a separator byte. The round trips show
  that numerals are injective, which the identifier and ledger-key theories rely on.
\<close>

section \<open>Decimal numerals\<close>

definition digit :: "nat \<Rightarrow> char" where
  "digit d = char_of (48 + d)"

definition is_digit :: "char \<Rightarrow> bool" where
  "is_digit c \<longleftrightarrow> CHR ''0'' \<le> c \<and> c \<le> CHR ''9''"

definition digit_val :: "char \<Rightarrow> nat" where
  "digit_val c = of_char c - 48"

fun itoa :: "nat \<Rightarrow> string" where
  "itoa n = (if n < 10 then [digit n] else itoa (n div 10) @ [digit (n mod 10)])"

declare itoa.simps [simp del]

definition digits_val :: "string \<Rightarrow> nat" where
  "digits_val s = foldl (\<lambda>a c. a * 10 + digit_val c) 0 s"

lemma of_char_digit: "d < 10 \<Longrightarrow> of_char (digit d) = (48 + d :: nat)"
  by (simp add: digit_def)

lemma is_digit_digit [simp]: "d < 10 \<Longrightarrow> is_digit (digit d)"
  by (simp add: is_digit_def less_eq_char_def of_char_digit)

lemma digit_val_digit [simp]: "d < 10 \<Longrightarrow> digit_val (digit d) = d"
  by (simp add: digit_val_def of_char_digit)

lemma is_digit_bounds: "is_digit c \<Longrightarrow> (48 :: nat) \<le> of_char c \<and> of_char c \<le> (57 :: nat)"
  by (simp add: is_digit_def less_eq_char_def)

lemma visible_digit: "is_digit c \<Longrightarrow> visible c"
  using is_digit_bounds [of c] by (simp add: visible_def)

lemma digit_val_bound: "is_digit c \<Longrightarrow> digit_val c < 10"
  using is_digit_bounds [of c] unfolding digit_val_def by linarith

lemma digit_digit_val [simp]: "is_digit c \<Longrightarrow> digit (digit_val c) = c"
  using is_digit_bounds [of c] by (simp add: digit_val_def digit_def)

lemma digit_0: "digit 0 = CHR ''0''"
  using digit_digit_val [of "CHR ''0''"] by (simp add: is_digit_def less_eq_char_def digit_val_def)

lemma digits_val_Nil [simp]: "digits_val [] = 0"
  by (simp add: digits_val_def)

lemma digits_val_snoc [simp]: "digits_val (s @ [c]) = digits_val s * 10 + digit_val c"
  by (simp add: digits_val_def)

lemma digits_val_append: "digits_val (s @ t) = digits_val s * 10 ^ length t + digits_val t"
proof (induction t rule: rev_induct)
  case (snoc c t)
  have "digits_val ((s @ t) @ [c]) = digits_val (s @ t) * 10 + digit_val c" by (rule digits_val_snoc)
  then show ?case by (simp add: snoc algebra_simps)
qed simp

lemma digits_val_bound: "list_all is_digit s \<Longrightarrow> digits_val s < 10 ^ length s"
proof (induction s rule: rev_induct)
  case (snoc c s)
  then have "digits_val s < 10 ^ length s" "digit_val c < 10" by (simp_all add: digit_val_bound)
  then have "digits_val s * 10 + digit_val c < 10 ^ length s * 10" by linarith
  then show ?case by simp
qed simp

lemma itoa_small: "n < 10 \<Longrightarrow> itoa n = [digit n]"
  by (simp add: itoa.simps)

lemma itoa_digits [simp]: "list_all is_digit (itoa n)"
proof (induction n rule: itoa.induct)
  case (1 n)
  then show ?case by (cases "n < 10") (simp_all add: itoa.simps [of n])
qed

lemma itoa_nonempty [simp]: "itoa n \<noteq> []"
  by (subst itoa.simps) simp

lemma digits_val_itoa [simp]: "digits_val (itoa n) = n"
proof (induction n rule: itoa.induct)
  case (1 n)
  show ?case
  proof (cases "n < 10")
    case True
    then show ?thesis by (simp add: itoa_small digits_val_def)
  next
    case False
    with 1 have "digits_val (itoa (n div 10)) = n div 10" by simp
    with False show ?thesis by (simp add: itoa.simps [of n])
  qed
qed

lemma itoa_inject [simp]: "itoa m = itoa n \<longleftrightarrow> m = n"
  by (metis digits_val_itoa)

lemma itoa_no_leading_zero: "0 < n \<Longrightarrow> hd (itoa n) \<noteq> CHR ''0''"
proof (induction n rule: itoa.induct)
  case (1 n)
  show ?case
  proof (cases "n < 10")
    case True
    with 1 have "of_char (digit n) \<noteq> (of_char (CHR ''0'') :: nat)" by (simp add: of_char_digit)
    with True show ?thesis by (auto simp: itoa_small)
  next
    case False
    then have "hd (itoa (n div 10)) \<noteq> CHR ''0''" using 1 by simp
    with False show ?thesis by (simp add: itoa.simps [of n])
  qed
qed

text \<open>A numeral without a leading zero is the one \<^const>\<open>itoa\<close> prints.\<close>

lemma itoa_digits_val:
  "list_all is_digit s \<Longrightarrow> s \<noteq> [] \<Longrightarrow> (length s > 1 \<longrightarrow> hd s \<noteq> CHR ''0'') \<Longrightarrow> itoa (digits_val s) = s"
proof (induction s rule: rev_induct)
  case Nil
  then show ?case by simp
next
  case (snoc c s)
  have c: "is_digit c" "digit_val c < 10" using snoc.prems by (simp_all add: digit_val_bound)
  show ?case
  proof (cases "s = []")
    case True
    with c show ?thesis by (simp add: digits_val_def itoa_small)
  next
    case False
    have hd: "hd s \<noteq> CHR ''0''" using snoc.prems False by (cases s) auto
    have IH: "itoa (digits_val s) = s"
      using snoc.IH snoc.prems False hd by auto
    have "digits_val s \<noteq> 0"
    proof
      assume "digits_val s = 0"
      then have "s = [digit 0]" using IH by (simp add: itoa_small)
      with hd show False by (simp add: digit_0)
    qed
    then show ?thesis using IH c by (subst itoa.simps) simp
  qed
qed

text \<open>\<open>%0Nd\<close> for a natural number: zeros on the left up to width \<open>w\<close>.\<close>

definition pad_zero :: "nat \<Rightarrow> string \<Rightarrow> string" where
  "pad_zero w s = replicate (w - length s) (CHR ''0'') @ s"

lemma digits_val_zeros [simp]: "digits_val (replicate k (CHR ''0'') @ s) = digits_val s"
proof (induction k)
  case (Suc k)
  have "digits_val ([CHR ''0''] @ (replicate k (CHR ''0'') @ s)) = digits_val (replicate k (CHR ''0'') @ s)"
    by (subst digits_val_append) (simp add: digits_val_def digit_val_def)
  then show ?case using Suc by simp
qed simp

lemma digits_val_pad_zero [simp]: "digits_val (pad_zero w s) = digits_val s"
  by (simp add: pad_zero_def)

lemma pad_zero_digits: "list_all is_digit s \<Longrightarrow> list_all is_digit (pad_zero w s)"
  by (auto simp: pad_zero_def list_all_iff is_digit_def less_eq_char_def)

lemma length_itoa_le: "n < 10 ^ Suc k \<Longrightarrow> length (itoa n) \<le> Suc k"
proof (induction k arbitrary: n)
  case 0
  then show ?case by (simp add: itoa_small)
next
  case (Suc k)
  show ?case
  proof (cases "n < 10")
    case True
    then show ?thesis by (simp add: itoa_small)
  next
    case False
    have "n div 10 < 10 ^ Suc k" using Suc.prems by (simp add: less_mult_imp_div_less)
    then have "length (itoa (n div 10)) \<le> Suc k" by (rule Suc.IH)
    with False show ?thesis by (subst itoa.simps) simp
  qed
qed

lemma length_pad_zero: "length (pad_zero w s) = max w (length s)"
  by (simp add: pad_zero_def)

definition FormatInt :: "int \<Rightarrow> string" where
  "FormatInt n = (if n < 0 then CHR ''-'' # itoa (nat (- n)) else itoa (nat n))"

text \<open>\<open>strconv.ParseInt(s, 10, 64)\<close>: an optional sign, then digits only, in range.\<close>

definition ParseInt :: "string \<Rightarrow> int option" where
  "ParseInt s =
     (let neg = (s \<noteq> [] \<and> hd s = CHR ''-'');
          ds = (if s \<noteq> [] \<and> (hd s = CHR ''-'' \<or> hd s = CHR ''+'') then tl s else s);
          n = (if neg then - int (digits_val ds) else int (digits_val ds))
      in if ds = [] \<or> \<not> list_all is_digit ds \<or> \<not> in_int64 n then None else Some n)"

lemma digit_not_sign: "is_digit c \<Longrightarrow> c \<noteq> CHR ''-'' \<and> c \<noteq> CHR ''+''"
  by (auto simp: is_digit_def less_eq_char_def)

lemma ParseInt_digits:
  assumes "list_all is_digit s" "s \<noteq> []"
  shows "ParseInt s = (if int (digits_val s) \<le> max_int64 then Some (int (digits_val s)) else None)"
proof -
  have "is_digit (hd s)" using assms by (cases s) auto
  then show ?thesis using assms digit_not_sign [of "hd s"] by (auto simp: ParseInt_def in_int64_def)
qed

lemma ParseInt_in_int64: "ParseInt s = Some n \<Longrightarrow> in_int64 n"
  by (auto simp: ParseInt_def Let_def split: if_splits)

lemma ParseInt_FormatInt: "in_int64 n \<Longrightarrow> ParseInt (FormatInt n) = Some n"
proof (cases "n < 0")
  case True
  assume "in_int64 n"
  with True show ?thesis by (auto simp: FormatInt_def ParseInt_def)
next
  case False
  assume "in_int64 n"
  with False show ?thesis by (simp add: FormatInt_def ParseInt_digits in_int64_def)
qed

section \<open>Splitting at a separator byte\<close>

text \<open>\<open>strings.Split(s, sep)\<close> for a one-byte separator: always at least one part.\<close>

fun split_at_byte :: "char \<Rightarrow> string \<Rightarrow> string list" where
  "split_at_byte sep [] = [[]]"
| "split_at_byte sep (c # s) =
     (if c = sep then [] # split_at_byte sep s
      else case split_at_byte sep s of [] \<Rightarrow> [[c]] | p # ps \<Rightarrow> (c # p) # ps)"

lemma split_at_byte_nonempty [simp]: "split_at_byte sep s \<noteq> []"
  by (induction s) (auto split: list.splits)

lemma split_at_byte_none: "sep \<notin> set s \<Longrightarrow> split_at_byte sep s = [s]"
  by (induction s) auto

lemma split_at_byte_append:
  "sep \<notin> set s \<Longrightarrow> split_at_byte sep (s @ sep # t) = s # split_at_byte sep t"
  by (induction s) auto

lemma split_at_byte_sep: "p \<in> set (split_at_byte sep s) \<Longrightarrow> sep \<notin> set p"
  by (induction s arbitrary: p) (auto split: list.splits if_splits)

text \<open>Joining two strings with a separator that neither contains is injective.\<close>

lemma sep_join_inject:
  assumes "sep \<notin> set a" "sep \<notin> set a'"
  shows "a @ sep # b = a' @ sep # b' \<longleftrightarrow> a = a' \<and> b = b'"
proof
  assume *: "a @ sep # b = a' @ sep # b'"
  then have "takeWhile (\<lambda>c. c \<noteq> sep) (a @ sep # b) = takeWhile (\<lambda>c. c \<noteq> sep) (a' @ sep # b')"
    by simp
  moreover have "takeWhile (\<lambda>c. c \<noteq> sep) (x @ sep # y) = x" if "sep \<notin> set x" for x y
    using that by (induction x) auto
  ultimately have "a = a'" using assms by simp
  with * show "a = a' \<and> b = b'" by simp
qed simp

end
