(* ===== verification/Money.thy ===== *)
theory Money
  imports GoFloat Strconv
begin

text \<open>
  Money of \<^verbatim>\<open>internal/billing/group_types.go\<close>: a \<open>USD\<close> is an integer number of nano-dollars, read
  from and printed as a plain decimal. \<open>ParseUSD_ok\<close> characterises the accepted texts, the round
  trip shows that printing loses nothing, \<open>costUSD\<close> converts the \<open>float64\<close> cost of a request and
  \<open>addGroupCount\<close> is the checked addition every group counter uses.
\<close>

type_synonym USD = int

section \<open>Parsing and printing\<close>

definition repeat0 :: "nat \<Rightarrow> string" where
  "repeat0 n = replicate n (CHR ''0'')"

definition ParseUSD :: "string \<Rightarrow> error + USD" where
  "ParseUSD value =
     (if value = [] \<or> TrimSpace value \<noteq> value then Inl (invalidf ''amount must be a decimal string'')
      else
        let parts = split_at_byte (CHR ''.'') value
        in if length parts > 2 \<or> parts ! 0 = [] then Inl (invalidf ''malformed amount'')
           else if \<exists>p\<in>set parts. p = [] \<or> \<not> list_all is_digit p
             then Inl (invalidf ''amount must not be negative or in exponent form'')
           else if length (parts ! 0) > 1 \<and> (parts ! 0) ! 0 = CHR ''0'' then Inl (invalidf ''malformed amount'')
           else
             let frac = (if length parts = 2 then parts ! 1 else [])
             in if length frac > 9 then Inl (invalidf ''at most 9 decimals'')
                else case ParseInt (parts ! 0 @ frac @ repeat0 (9 - length frac)) of
                       None \<Rightarrow> Inl (invalidf ''amount exceeds the nano-USD range'')
                     | Some n \<Rightarrow> Inr n)"

definition trim_right_zeros :: "string \<Rightarrow> string" where
  "trim_right_zeros s = rev (dropWhile (\<lambda>c. c = CHR ''0'') (rev s))"

text \<open>\<open>%09d\<close> of a possibly negative number: the sign counts towards the width.\<close>

definition pad09 :: "int \<Rightarrow> string" where
  "pad09 n = (if n < 0 then CHR ''-'' # pad_zero 8 (itoa (nat (- n))) else pad_zero 9 (itoa (nat n)))"

definition USD_String :: "USD \<Rightarrow> string" where
  "USD_String v =
     (let whole = go_quo v 1000000000; fraction = go_rem v 1000000000
      in if fraction = 0 then FormatInt whole
         else FormatInt whole @ ''.'' @ trim_right_zeros (pad09 fraction))"

text \<open>What an amount looks like: an integer part without leading zeros and up to nine decimals.\<close>

definition usd_text :: "string \<Rightarrow> string \<Rightarrow> string" where
  "usd_text w f = (if f = [] then w else w @ CHR ''.'' # f)"

definition usd_parts :: "string \<Rightarrow> string \<Rightarrow> bool" where
  "usd_parts w f \<longleftrightarrow>
     list_all is_digit w \<and> w \<noteq> [] \<and> (length w > 1 \<longrightarrow> hd w \<noteq> CHR ''0'') \<and> list_all is_digit f \<and> length f \<le> 9"

definition usd_value :: "string \<Rightarrow> string \<Rightarrow> int" where
  "usd_value w f = int (digits_val w) * 1000000000 + int (digits_val f) * 10 ^ (9 - length f)"

lemma digits_val_repeat0: "digits_val (s @ repeat0 k) = digits_val s * 10 ^ k"
  using digits_val_zeros [of k "[]"] by (simp add: digits_val_append repeat0_def)

lemma list_all_repeat0 [simp]: "list_all is_digit (repeat0 k)"
  by (auto simp: repeat0_def list_all_iff is_digit_def less_eq_char_def)

lemma digits_val_scaled:
  assumes "length f \<le> 9"
  shows "int (digits_val (w @ f @ repeat0 (9 - length f))) = usd_value w f"
proof -
  have "digits_val (w @ f @ repeat0 (9 - length f)) = (digits_val w * 10 ^ length f + digits_val f) * 10 ^ (9 - length f)"
    using digits_val_repeat0 [of "w @ f"] by (simp add: digits_val_append)
  also have "\<dots> = digits_val w * (10 ^ length f * 10 ^ (9 - length f)) + digits_val f * 10 ^ (9 - length f)"
    by (simp add: algebra_simps)
  also have "(10 :: nat) ^ length f * 10 ^ (9 - length f) = 1000000000"
    using assms by (simp flip: power_add)
  finally show ?thesis by (simp add: usd_value_def)
qed

lemma dot_not_digit: "list_all is_digit s \<Longrightarrow> CHR ''.'' \<notin> set s"
  by (auto simp: list_all_iff is_digit_def less_eq_char_def)

lemma split_usd_text:
  "usd_parts w f \<Longrightarrow> split_at_byte (CHR ''.'') (usd_text w f) = (if f = [] then [w] else [w, f])"
  by (auto simp: usd_parts_def usd_text_def split_at_byte_none split_at_byte_append dot_not_digit)

lemma trimmed_usd_text: "usd_parts w f \<Longrightarrow> TrimSpace (usd_text w f) = usd_text w f"
  by (rule TrimSpace_visible)
    (auto simp: usd_parts_def usd_text_def list_all_iff visible_digit)

lemma usd_text_parts:
  assumes "\<forall>p\<in>set (split_at_byte (CHR ''.'') s). p \<noteq> [] \<and> list_all is_digit p"
    "length (split_at_byte (CHR ''.'') s) \<le> 2"
  shows "\<exists>w f. s = usd_text w f \<and> split_at_byte (CHR ''.'') s = (if f = [] then [w] else [w, f])
     \<and> w \<noteq> [] \<and> list_all is_digit w \<and> list_all is_digit f"
proof (cases "CHR ''.'' \<in> set s")
  case False
  then have "split_at_byte (CHR ''.'') s = [s]" by (rule split_at_byte_none)
  with assms show ?thesis by (intro exI [of _ s] exI [of _ "[]"]) (simp add: usd_text_def)
next
  case True
  then obtain w t where s: "s = w @ CHR ''.'' # t" and w: "CHR ''.'' \<notin> set w"
    by (metis split_list_first)
  have sp: "split_at_byte (CHR ''.'') s = w # split_at_byte (CHR ''.'') t"
    using w by (simp add: s split_at_byte_append)
  then obtain f where f: "split_at_byte (CHR ''.'') t = [f]"
    using assms(2) split_at_byte_nonempty [of "CHR ''.''" t]
    by (cases "split_at_byte (CHR ''.'') t") auto
  have "CHR ''.'' \<notin> set t"
  proof
    assume "CHR ''.'' \<in> set t"
    then obtain a b where "t = a @ CHR ''.'' # b" "CHR ''.'' \<notin> set a" by (metis split_list_first)
    with f show False by (simp add: split_at_byte_append)
  qed
  with f have "f = t" by (simp add: split_at_byte_none)
  with f sp s assms(1) show ?thesis by (intro exI [of _ w] exI [of _ f]) (simp add: usd_text_def)
qed

lemma ParseUSD_usd_text:
  assumes "usd_parts w f"
  shows "ParseUSD (usd_text w f) =
    (if usd_value w f \<le> max_int64 then Inr (usd_value w f) else Inl (invalidf ''amount exceeds the nano-USD range''))"
proof -
  have ne: "usd_text w f \<noteq> []" using assms by (simp add: usd_text_def usd_parts_def)
  have d: "list_all is_digit (w @ f @ repeat0 (9 - length f))" "w @ f @ repeat0 (9 - length f) \<noteq> []"
    using assms by (auto simp: usd_parts_def)
  have p: "ParseInt (w @ f @ repeat0 (9 - length f)) =
      (if usd_value w f \<le> max_int64 then Some (usd_value w f) else None)"
    using ParseInt_digits [OF d] digits_val_scaled [of f w] assms by (simp add: usd_parts_def)
  have h: "\<not> (length w > 1 \<and> w ! 0 = CHR ''0'')" using assms by (auto simp: usd_parts_def hd_conv_nth)
  have l: "length f \<le> 9" "list_all is_digit w" "w \<noteq> []" "list_all is_digit f"
    using assms by (auto simp: usd_parts_def)
  show ?thesis
    using ne p h l unfolding ParseUSD_def trimmed_usd_text [OF assms] split_usd_text [OF assms]
    by (cases "f = []") (auto simp: Let_def)
qed

lemma ParseUSD_Inr_parts:
  assumes "ParseUSD s = Inr v"
  shows "\<exists>w f. usd_parts w f \<and> s = usd_text w f"
proof -
  let ?ps = "split_at_byte (CHR ''.'') s"
  have *: "\<forall>p\<in>set ?ps. p \<noteq> [] \<and> list_all is_digit p" "length ?ps \<le> 2"
      "\<not> (length (?ps ! 0) > 1 \<and> (?ps ! 0) ! 0 = CHR ''0'')"
      "length (if length ?ps = 2 then ?ps ! 1 else []) \<le> 9"
    using assms unfolding ParseUSD_def Let_def
    by (simp_all only: split: if_splits) (simp_all add: not_less)
  obtain w f where wf: "s = usd_text w f" "?ps = (if f = [] then [w] else [w, f])" "w \<noteq> []"
      "list_all is_digit w" "list_all is_digit f"
    using usd_text_parts [OF *(1,2)] by blast
  have "length f \<le> 9" "length w > 1 \<longrightarrow> hd w \<noteq> CHR ''0''"
    using *(3,4) wf(3) unfolding wf(2) by (auto simp: hd_conv_nth split: if_splits)
  with wf have "usd_parts w f" by (simp add: usd_parts_def)
  with wf show ?thesis by blast
qed

lemma trim_right_zeros_split: "trim_right_zeros s @ repeat0 (length s - length (trim_right_zeros s)) = s"
proof -
  have *: "takeWhile (\<lambda>c. c = CHR ''0'') t = repeat0 (length t - length (dropWhile (\<lambda>c. c = CHR ''0'') t))" for t
    by (induction t) (auto simp: repeat0_def Suc_diff_le length_dropWhile_le)
  have "s = rev (dropWhile (\<lambda>c. c = CHR ''0'') (rev s)) @ rev (takeWhile (\<lambda>c. c = CHR ''0'') (rev s))"
    by (simp flip: rev_append)
  then show ?thesis using * [of "rev s"] by (simp add: trim_right_zeros_def repeat0_def)
qed

lemma USD_String_parts:
  assumes "0 \<le> v"
  shows "\<exists>w f. usd_parts w f \<and> USD_String v = usd_text w f \<and> usd_value w f = v"
proof -
  define q r where "q = nat (v div 1000000000)" and "r = nat (v mod 1000000000)"
  have "0 \<le> v div 1000000000" using assms by (simp only: pos_imp_zdiv_nonneg_iff)
  then have m: "v div 1000000000 = int q" "v mod 1000000000 = int r" by (simp_all add: q_def r_def)
  have v: "v = int q * 1000000000 + int r" using div_mult_mod_eq [of v 1000000000] by (simp add: m)
  have S: "USD_String v = (if r = 0 then itoa q else itoa q @ ''.'' @ trim_right_zeros (pad_zero 9 (itoa r)))"
    using assms by (simp add: USD_String_def FormatInt_def pad09_def m)
  have w: "list_all is_digit (itoa q)" "itoa q \<noteq> []" "length (itoa q) > 1 \<longrightarrow> hd (itoa q) \<noteq> CHR ''0''"
    using itoa_no_leading_zero [of q] by (cases "q = 0"; simp add: itoa_small)+
  show ?thesis
  proof (cases "r = 0")
    case True
    then have "USD_String v = usd_text (itoa q) []" by (simp add: S usd_text_def)
    with True w v show ?thesis
      by (intro exI [of _ "itoa q"] exI [of _ "[]"]) (simp add: usd_parts_def usd_value_def)
  next
    case False
    define d where "d = pad_zero 9 (itoa r)"
    define f where "f = trim_right_zeros d"
    have r: "r < 10 ^ Suc 8" by (simp add: r_def)
    then have ld: "length d = 9" using length_itoa_le [of r 8] by (simp add: d_def length_pad_zero)
    have sp: "f @ repeat0 (9 - length f) = d" using trim_right_zeros_split [of d] ld by (simp add: f_def)
    then have lf: "length f \<le> 9" using ld by (metis length_append le_add1)
    have "list_all is_digit d" by (simp add: d_def pad_zero_digits)
    then have df: "list_all is_digit f" using sp by (metis list_all_append)
    have "digits_val d = r" by (simp add: d_def)
    then have val: "digits_val f * 10 ^ (9 - length f) = r" using digits_val_repeat0 [of f] sp by metis
    then have "f \<noteq> []" using False by auto
    moreover have "USD_String v = usd_text (itoa q) f"
      using False calculation by (simp add: S usd_text_def f_def d_def)
    moreover have "usd_parts (itoa q) f" using w lf df by (simp add: usd_parts_def)
    moreover have "int (digits_val f) * 10 ^ (9 - length f) = int r"
      using val by (metis of_nat_mult of_nat_numeral of_nat_power)
    then have "usd_value (itoa q) f = v" by (simp add: usd_value_def v)
    ultimately show ?thesis by blast
  qed
qed

text \<open>C16: \<open>ParseUSD\<close> accepts exactly the plain decimals with at most nine decimals whose nano-dollar value
  fits a signed 64-bit integer, and returns that value.\<close>

theorem ParseUSD_ok:
  "ParseUSD s = Inr v \<longleftrightarrow>
     (\<exists>w f. usd_parts w f \<and> s = usd_text w f \<and> v = usd_value w f \<and> v \<le> max_int64)"
proof
  assume *: "ParseUSD s = Inr v"
  then obtain w f where wf: "usd_parts w f" "s = usd_text w f" using ParseUSD_Inr_parts by blast
  with * show "\<exists>w f. usd_parts w f \<and> s = usd_text w f \<and> v = usd_value w f \<and> v \<le> max_int64"
    by (intro exI [of _ w] exI [of _ f]) (simp add: ParseUSD_usd_text split: if_splits)
qed (auto simp: ParseUSD_usd_text)

text \<open>C17: every amount survives being printed and read back.\<close>

theorem ParseUSD_String: "0 \<le> v \<Longrightarrow> v \<le> max_int64 \<Longrightarrow> ParseUSD (USD_String v) = Inr v"
  using USD_String_parts [of v] by (auto simp: ParseUSD_usd_text)

theorem ParseUSD_String_witness: "ParseUSD (USD_String 1500000000) = Inr 1500000000"
  by (rule ParseUSD_String) simp_all

section \<open>Costs and counters\<close>

text \<open>The amount is the cost times a billion, rounded, as long as that is below \<open>float64(MaxInt64)\<close>,
  which is 2 to the 63rd.\<close>

definition costUSD :: "f64 \<Rightarrow> USD option" where
  "costUSD value =
     (if flt value (Fin 0) \<or> IsNaN value \<or> IsInf value then None
      else case fround (fmul value (Fin 1000000000)) of
             Fin n \<Rightarrow> if 9223372036854775808 \<le> n then None else Some \<lfloor>n\<rfloor>
           | _ \<Rightarrow> None)"

definition addGroupCount :: "int \<Rightarrow> int \<Rightarrow> int option" where
  "addGroupCount a b = (if a < 0 \<or> b < 0 \<or> a > max_int64 - b then None else Some (a + b))"

lemma addGroupCount_Some:
  "addGroupCount a b = Some c \<longleftrightarrow> 0 \<le> a \<and> 0 \<le> b \<and> c = a + b \<and> c \<le> max_int64"
  by (auto simp: addGroupCount_def)

lemma addGroupCount_None:
  "addGroupCount a b = None \<longleftrightarrow> a < 0 \<or> b < 0 \<or> max_int64 < a + b"
  by (auto simp: addGroupCount_def)

lemma costUSD_bounds: "costUSD x = Some n \<Longrightarrow> 0 \<le> n \<and> n \<le> max_int64"
proof -
  assume *: "costUSD x = Some n"
  then obtain v where x: "x = Fin v" "0 \<le> v"
    by (cases x) (auto simp: costUSD_def IsNaN_def IsInf_def split: if_splits)
  then have "nonneg (fmul x (Fin 1000000000))" by simp
  then consider "fmul x (Fin 1000000000) = F_Inf" | y where "fmul x (Fin 1000000000) = Fin y" "0 \<le> y"
    by (auto simp: nonneg_iff)
  then show ?thesis
    using * by cases (auto simp: costUSD_def simp del: fmul.simps split: if_splits)
qed

end
