(* ===== verification/Pricing.thy ===== *)
theory Pricing
  imports Money
begin

text \<open>
  Prices and costs: \<^verbatim>\<open>internal/billing/pricing.go\<close>, \<^verbatim>\<open>builtin_prices.go\<close>, the price catalogue of
  \<^verbatim>\<open>prices.go\<close> and \<^verbatim>\<open>LongContextPrice\<close> of \<^verbatim>\<open>state.go\<close>. Rates are \<open>float64\<close> values
  in dollars per million tokens; an optional rate that is absent inherits the input rate. The catalogue
  of custom prices is keyed by \<open>NormalizeModelID\<close> (\<open>prices_ok\<close>). A map update through the
  repository is modelled with the repository's answer as an argument (\<open>None\<close> when it succeeded).
\<close>

section \<open>Token accounting\<close>

datatype TokenAccountingQuality =
  TokenAccountingComplete | TokenAccountingInconsistent | TokenAccountingUnclassified
  | TokenAccountingOther string

record TokenInputBreakdown =
  tin_total :: int
  tin_uncached :: int
  tin_cache_read :: int
  tin_cache_write :: int

record TokenOutputBreakdown =
  tout_total :: int
  tout_non_reasoning :: int
  tout_reasoning :: int

record TokenBreakdown =
  tok_quality :: TokenAccountingQuality
  tok_total :: int
  tok_input :: TokenInputBreakdown
  tok_output :: TokenOutputBreakdown
  tok_unclassified :: int

definition token_quality_known :: "TokenAccountingQuality \<Rightarrow> bool" where
  "token_quality_known q \<longleftrightarrow> q \<in> {TokenAccountingComplete, TokenAccountingInconsistent, TokenAccountingUnclassified}"

definition tokens_nonneg :: "TokenBreakdown \<Rightarrow> bool" where
  "tokens_nonneg b \<longleftrightarrow>
     0 \<le> tok_total b \<and> 0 \<le> tok_unclassified b \<and>
     0 \<le> tin_total (tok_input b) \<and> 0 \<le> tin_uncached (tok_input b) \<and>
     0 \<le> tin_cache_read (tok_input b) \<and> 0 \<le> tin_cache_write (tok_input b) \<and>
     0 \<le> tout_total (tok_output b) \<and> 0 \<le> tout_non_reasoning (tok_output b) \<and> 0 \<le> tout_reasoning (tok_output b)"

text \<open>The sums are 64-bit sums and may wrap around.\<close>

definition add64 :: "int \<Rightarrow> int \<Rightarrow> int" where
  "add64 a b = wrap64 (a + b)"

definition Valid :: "TokenBreakdown \<Rightarrow> bool" where
  "Valid b \<longleftrightarrow>
     token_quality_known (tok_quality b) \<and> tokens_nonneg b \<and>
     tin_total (tok_input b) =
       add64 (add64 (tin_uncached (tok_input b)) (tin_cache_read (tok_input b))) (tin_cache_write (tok_input b)) \<and>
     tout_total (tok_output b) = add64 (tout_non_reasoning (tok_output b)) (tout_reasoning (tok_output b)) \<and>
     tok_total b = add64 (add64 (tin_total (tok_input b)) (tout_total (tok_output b))) (tok_unclassified b) \<and>
     (tok_quality b \<noteq> TokenAccountingComplete \<or> tok_unclassified b = 0)"

definition Billable :: "TokenBreakdown \<Rightarrow> bool" where
  "Billable b \<longleftrightarrow> Valid b \<and> tok_quality b = TokenAccountingComplete"

section \<open>Rates\<close>

datatype PriceSource = PriceSourceReference | PriceSourceNone | PriceSourceCustom | PriceSourceBuiltin

record LongContextPrice =
  lcp_threshold :: int
  lcp_input :: f64
  lcp_output :: f64
  lcp_cache_read :: "f64 option"
  lcp_cache_write :: "f64 option"

record PriceRates =
  rt_input :: f64
  rt_output :: f64
  rt_cache_read :: "f64 option"
  rt_cache_write :: "f64 option"
  rt_long :: "LongContextPrice option"

record ResolvedLongContextPrice =
  rlc_threshold :: int
  rlc_input :: f64
  rlc_output :: f64
  rlc_cache_read :: f64
  rlc_cache_write :: f64

record Price =
  prc_input :: f64
  prc_output :: f64
  prc_cache_read :: f64
  prc_cache_write :: f64
  prc_source :: PriceSource
  prc_long :: "ResolvedLongContextPrice option"

definition option_or :: "'a option \<Rightarrow> 'a \<Rightarrow> 'a" where
  "option_or p d = (case p of None \<Rightarrow> d | Some x \<Rightarrow> x)"

lemma option_or_simps [simp]: "option_or None d = d" "option_or (Some v) d = v"
  by (simp_all add: option_or_def)

definition rates_resolve :: "PriceRates \<Rightarrow> PriceSource \<Rightarrow> Price" where
  "rates_resolve r source =
     \<lparr>prc_input = rt_input r, prc_output = rt_output r,
      prc_cache_read = option_or (rt_cache_read r) (rt_input r),
      prc_cache_write = option_or (rt_cache_write r) (rt_input r),
      prc_source = source,
      prc_long = map_option (\<lambda>t. \<lparr>rlc_threshold = lcp_threshold t, rlc_input = lcp_input t,
        rlc_output = lcp_output t, rlc_cache_read = option_or (lcp_cache_read t) (lcp_input t),
        rlc_cache_write = option_or (lcp_cache_write t) (lcp_input t)\<rparr>) (rt_long r)\<rparr>"

definition invalidPrice :: "f64 \<Rightarrow> bool" where
  "invalidPrice v \<longleftrightarrow> flt v (Fin 0) \<or> IsNaN v \<or> IsInf v"

definition invalid_opt :: "f64 option \<Rightarrow> bool" where
  "invalid_opt p \<longleftrightarrow> (case p of None \<Rightarrow> False | Some v \<Rightarrow> invalidPrice v)"

definition rates_validate :: "PriceRates \<Rightarrow> error + unit" where
  "rates_validate r =
     (if invalidPrice (rt_input r) \<or> invalidPrice (rt_output r)
        then Inl (invalidf ''token price must be a non-negative finite number'')
      else if invalid_opt (rt_cache_read r) then Inl (invalidf ''cache read price must be a non-negative finite number'')
      else if invalid_opt (rt_cache_write r) then Inl (invalidf ''cache write price must be a non-negative finite number'')
      else case rt_long r of
             None \<Rightarrow> Inr ()
           | Some t \<Rightarrow>
               if lcp_threshold t \<le> 0 then Inl (invalidf ''long context threshold must be positive'')
               else if invalidPrice (lcp_input t) \<or> invalidPrice (lcp_output t)
                 then Inl (invalidf ''long context token price must be a non-negative finite number'')
               else if invalid_opt (lcp_cache_read t)
                 then Inl (invalidf ''long context cache read price must be a non-negative finite number'')
               else if invalid_opt (lcp_cache_write t)
                 then Inl (invalidf ''long context cache write price must be a non-negative finite number'')
               else Inr ())"

definition sameOptionalPrice :: "f64 option \<Rightarrow> f64 option \<Rightarrow> bool" where
  "sameOptionalPrice a b \<longleftrightarrow>
     (case a of None \<Rightarrow> b = None | Some x \<Rightarrow> (case b of None \<Rightarrow> False | Some y \<Rightarrow> feq x y))"

definition sameLongContextPrice :: "LongContextPrice option \<Rightarrow> LongContextPrice option \<Rightarrow> bool" where
  "sameLongContextPrice a b \<longleftrightarrow>
     (case a of None \<Rightarrow> b = None
      | Some x \<Rightarrow> (case b of None \<Rightarrow> False
         | Some y \<Rightarrow> lcp_threshold x = lcp_threshold y \<and> feq (lcp_input x) (lcp_input y) \<and>
             feq (lcp_output x) (lcp_output y) \<and> sameOptionalPrice (lcp_cache_read x) (lcp_cache_read y) \<and>
             sameOptionalPrice (lcp_cache_write x) (lcp_cache_write y)))"

definition samePriceRates :: "PriceRates \<Rightarrow> PriceRates \<Rightarrow> bool" where
  "samePriceRates a b \<longleftrightarrow>
     feq (rt_input a) (rt_input b) \<and> feq (rt_output a) (rt_output b) \<and>
     sameOptionalPrice (rt_cache_read a) (rt_cache_read b) \<and>
     sameOptionalPrice (rt_cache_write a) (rt_cache_write b) \<and>
     sameLongContextPrice (rt_long a) (rt_long b)"

lemma valid_price_iff: "\<not> invalidPrice v \<longleftrightarrow> nonneg v \<and> is_fin v"
  by (cases v) (auto simp: invalidPrice_def IsNaN_def IsInf_def)

lemma not_invalid_opt: "\<not> invalid_opt p \<longleftrightarrow> (\<forall>v. p = Some v \<longrightarrow> nonneg v \<and> is_fin v)"
  by (auto simp: invalid_opt_def valid_price_iff split: option.splits)

text \<open>On rates that pass validation \<open>samePriceRates\<close> is equality.\<close>

lemma feq_valid: "\<not> invalidPrice a \<Longrightarrow> feq a b \<longleftrightarrow> a = b"
  by (auto simp: feq_def invalidPrice_def IsNaN_def)

lemma sameOptionalPrice_valid: "\<not> invalid_opt a \<Longrightarrow> sameOptionalPrice a b \<longleftrightarrow> a = b"
  by (auto simp: sameOptionalPrice_def invalid_opt_def feq_valid split: option.splits)

lemma rates_validate_ok:
  "rates_validate r = Inr () \<longleftrightarrow>
     \<not> invalidPrice (rt_input r) \<and> \<not> invalidPrice (rt_output r) \<and>
     \<not> invalid_opt (rt_cache_read r) \<and> \<not> invalid_opt (rt_cache_write r) \<and>
     (\<forall>t. rt_long r = Some t \<longrightarrow> 0 < lcp_threshold t \<and> \<not> invalidPrice (lcp_input t) \<and>
        \<not> invalidPrice (lcp_output t) \<and> \<not> invalid_opt (lcp_cache_read t) \<and> \<not> invalid_opt (lcp_cache_write t))"
  by (auto simp: rates_validate_def split: option.splits)

lemma samePriceRates_valid: "rates_validate a = Inr () \<Longrightarrow> samePriceRates a b \<longleftrightarrow> a = b"
  by (cases a; cases b)
    (auto simp: rates_validate_ok samePriceRates_def feq_valid sameOptionalPrice_valid
      sameLongContextPrice_def split: option.splits intro!: LongContextPrice.equality)

text \<open>A resolved price with non-negative finite rates only.\<close>

definition rate_ok :: "f64 \<Rightarrow> bool" where
  "rate_ok v \<longleftrightarrow> nonneg v \<and> is_fin v"

definition price_ok :: "Price \<Rightarrow> bool" where
  "price_ok p \<longleftrightarrow>
     rate_ok (prc_input p) \<and> rate_ok (prc_output p) \<and> rate_ok (prc_cache_read p) \<and> rate_ok (prc_cache_write p) \<and>
     (case prc_long p of None \<Rightarrow> True
      | Some t \<Rightarrow> 0 < rlc_threshold t \<and> rate_ok (rlc_input t) \<and> rate_ok (rlc_output t) \<and>
          rate_ok (rlc_cache_read t) \<and> rate_ok (rlc_cache_write t))"

lemma resolve_price_ok: "rates_validate r = Inr () \<Longrightarrow> price_ok (rates_resolve r s)"
  by (auto simp: rates_validate_ok price_ok_def rates_resolve_def option_or_def rate_ok_def
      valid_price_iff not_invalid_opt split: option.splits)

section \<open>Costs\<close>

record Cost =
  cst_multiplier :: f64
  cst_total :: f64
  cst_uncached :: f64
  cst_cache_read :: f64
  cst_cache_write :: f64
  cst_output :: f64
  cst_uncached_tokens :: int
  cst_cache_read_tokens :: int
  cst_cache_write_tokens :: int
  cst_output_tokens :: int
  cst_tiered :: bool
  cst_long_context :: bool
  cst_threshold :: int
  cst_applied_input :: f64
  cst_applied_output :: f64
  cst_applied_cache_read :: f64
  cst_applied_cache_write :: f64

definition zero_cost :: Cost where
  "zero_cost = \<lparr>cst_multiplier = Fin 0, cst_total = Fin 0, cst_uncached = Fin 0, cst_cache_read = Fin 0,
     cst_cache_write = Fin 0, cst_output = Fin 0, cst_uncached_tokens = 0, cst_cache_read_tokens = 0,
     cst_cache_write_tokens = 0, cst_output_tokens = 0, cst_tiered = False, cst_long_context = False,
     cst_threshold = 0, cst_applied_input = Fin 0, cst_applied_output = Fin 0,
     cst_applied_cache_read = Fin 0, cst_applied_cache_write = Fin 0\<rparr>"

definition perMillion :: "int \<Rightarrow> f64 \<Rightarrow> f64" where
  "perMillion tokens pricePer1M =
     (if tokens \<le> 0 \<or> feq pricePer1M (Fin 0) then Fin 0
      else fmul (fdiv (f64_of_int tokens) (Fin 1000000)) pricePer1M)"

definition ComputeCost :: "Price \<Rightarrow> TokenBreakdown \<Rightarrow> Cost" where
  "ComputeCost price b =
     (if \<not> Billable b then zero_cost
      else
        let long = (case prc_long price of None \<Rightarrow> False | Some t \<Rightarrow> tin_total (tok_input b) > rlc_threshold t);
            threshold = (case prc_long price of None \<Rightarrow> 0 | Some t \<Rightarrow> rlc_threshold t);
            inputPrice = (case prc_long price of Some t \<Rightarrow> if long then rlc_input t else prc_input price
                          | None \<Rightarrow> prc_input price);
            outputPrice = (case prc_long price of Some t \<Rightarrow> if long then rlc_output t else prc_output price
                          | None \<Rightarrow> prc_output price);
            cacheReadPrice = (case prc_long price of Some t \<Rightarrow> if long then rlc_cache_read t else prc_cache_read price
                          | None \<Rightarrow> prc_cache_read price);
            cacheWritePrice = (case prc_long price of Some t \<Rightarrow> if long then rlc_cache_write t else prc_cache_write price
                          | None \<Rightarrow> prc_cache_write price);
            uncached = perMillion (tin_uncached (tok_input b)) inputPrice;
            cacheRead = perMillion (tin_cache_read (tok_input b)) cacheReadPrice;
            cacheWrite = perMillion (tin_cache_write (tok_input b)) cacheWritePrice;
            output = perMillion (tout_total (tok_output b)) outputPrice
        in \<lparr>cst_multiplier = Fin 0, cst_total = fadd (fadd (fadd uncached cacheRead) cacheWrite) output,
            cst_uncached = uncached, cst_cache_read = cacheRead,
            cst_cache_write = cacheWrite, cst_output = output,
            cst_uncached_tokens = tin_uncached (tok_input b),
            cst_cache_read_tokens = tin_cache_read (tok_input b),
            cst_cache_write_tokens = tin_cache_write (tok_input b),
            cst_output_tokens = tout_total (tok_output b),
            cst_tiered = (prc_long price \<noteq> None), cst_long_context = long, cst_threshold = threshold,
            cst_applied_input = inputPrice, cst_applied_output = outputPrice,
            cst_applied_cache_read = cacheReadPrice, cst_applied_cache_write = cacheWritePrice\<rparr>)"

lemma f64_of_int_small: "0 \<le> n \<Longrightarrow> n < 2 ^ 53 \<Longrightarrow> f64_of_int n = Fin (of_int n)"
proof -
  assume n: "0 \<le> n" "n < 2 ^ 53"
  have "(of_int n :: rat) < of_int (2 ^ 53)" using n(2) by (simp only: of_int_less_iff)
  also have "\<dots> = 2 powi 53" by (simp add: powi_int_2)
  also have "\<dots> < f64_bound" unfolding f64_bound_def by (subst powi_2_strict) simp
  finally show ?thesis
    using n round64_nonneg_cases [of "of_int n"] by (auto simp: f64_of_int_def round_rat_int)
qed

lemma nonneg_f64_of_int [simp, intro]: "0 \<le> n \<Longrightarrow> nonneg (f64_of_int n)"
  by (simp add: f64_of_int_def)

lemma nonneg_fdiv [intro]: "nonneg x \<Longrightarrow> 0 < r \<Longrightarrow> nonneg (fdiv x (Fin r))"
  by (auto simp: nonneg_iff [of x] inf_of_sign_def)

lemma rate_ok_iff: "rate_ok v \<longleftrightarrow> (\<exists>r. v = Fin r \<and> 0 \<le> r)"
  by (cases v) (auto simp: rate_ok_def)

lemma nonneg_perMillion: "rate_ok p \<Longrightarrow> nonneg (perMillion n p)"
proof (cases "n \<le> 0 \<or> feq p (Fin 0)")
  case False
  assume "rate_ok p"
  then obtain r where r: "p = Fin r" "0 \<le> r" by (auto simp: rate_ok_iff)
  with False have "0 < r" by (auto simp: feq_def)
  moreover have "nonneg (fdiv (f64_of_int n) (Fin 1000000))" using False by (intro nonneg_fdiv) auto
  ultimately show ?thesis
    using False r by (cases "fdiv (f64_of_int n) (Fin 1000000)") (auto simp: perMillion_def inf_of_sign_def)
qed (simp add: perMillion_def)

section \<open>Builtin prices\<close>

record CustomPrice =
  cp_model :: string
  cp_rates :: PriceRates

definition NormalizeModelID :: "string \<Rightarrow> string" where
  "NormalizeModelID m = ToLower (TrimSpace m)"

definition builtinPrices :: "CustomPrice smap" where
  "builtinPrices =
     [(NormalizeModelID ''codex-auto-review'',
        \<lparr>cp_model = ''codex-auto-review'',
         cp_rates = \<lparr>rt_input = Fin (5 / 2), rt_output = Fin 15, rt_cache_read = Some (Fin (1 / 4)),
           rt_cache_write = None,
           rt_long = Some \<lparr>lcp_threshold = 272000, lcp_input = Fin 5, lcp_output = Fin (45 / 2),
             lcp_cache_read = Some (Fin (1 / 2)), lcp_cache_write = None\<rparr>\<rparr>\<rparr>),
      (NormalizeModelID ''gpt-image-1.5'',
        \<lparr>cp_model = ''gpt-image-1.5'',
         cp_rates = \<lparr>rt_input = Fin 5, rt_output = Fin 32, rt_cache_read = Some (Fin (5 / 4)),
           rt_cache_write = None, rt_long = None\<rparr>\<rparr>)]"

definition resolveBuiltinRates :: "string \<Rightarrow> PriceRates option" where
  "resolveBuiltinRates modelID = map_option cp_rates (map_of builtinPrices (NormalizeModelID modelID))"

text \<open>\<open>Price{Source: PriceSourceNone}\<close>.\<close>

definition no_price :: Price where
  "no_price = \<lparr>prc_input = Fin 0, prc_output = Fin 0, prc_cache_read = Fin 0, prc_cache_write = Fin 0,
     prc_source = PriceSourceNone, prc_long = None\<rparr>"

definition ResolveBuiltinPrice :: "string \<Rightarrow> Price" where
  "ResolveBuiltinPrice modelID =
     (case resolveBuiltinRates modelID of
        Some rates \<Rightarrow> rates_resolve rates PriceSourceBuiltin
      | None \<Rightarrow> no_price)"

section \<open>The catalogue of custom prices\<close>

definition has_suffix_paren :: "string \<Rightarrow> bool" where
  "has_suffix_paren s \<longleftrightarrow> s \<noteq> [] \<and> last s = CHR '')''"

definition before_last :: "char \<Rightarrow> string \<Rightarrow> string" where
  "before_last c s = rev (tl (dropWhile (\<lambda>x. x \<noteq> c) (rev s)))"

definition ModelWithoutThinkingSuffix :: "string \<Rightarrow> string" where
  "ModelWithoutThinkingSuffix model =
     (let m = TrimSpace model
      in if CHR ''('' \<in> set m \<and> has_suffix_paren m then TrimSpace (before_last (CHR ''('') m) else m)"

definition ResolveBillingModel :: "CustomPrice smap \<Rightarrow> string \<Rightarrow> string \<Rightarrow> string" where
  "ResolveBillingModel prices upstreamModel routeModel =
     (let upstream = ModelWithoutThinkingSuffix upstreamModel;
          route = TrimSpace routeModel;
          base = ModelWithoutThinkingSuffix route
      in if route = [] then upstream
         else if EqualFold base ''auto'' then upstream
         else case map_of prices (NormalizeModelID route) of
                Some price \<Rightarrow> cp_model price
              | None \<Rightarrow>
                  (case map_of prices (NormalizeModelID base) of
                     Some price \<Rightarrow> cp_model price
                   | None \<Rightarrow> if EqualFold base upstream then upstream else base))"

definition ResolveCustomPrice :: "CustomPrice smap \<Rightarrow> string \<Rightarrow> Price" where
  "ResolveCustomPrice prices billingModel =
     (case map_of prices (NormalizeModelID billingModel) of
        Some price \<Rightarrow> rates_resolve (cp_rates price) PriceSourceCustom
      | None \<Rightarrow> no_price)"

definition CustomPrice_Validate :: "CustomPrice \<Rightarrow> error + unit" where
  "CustomPrice_Validate price =
     (let modelID = TrimSpace (cp_model price)
      in if modelID = [] then Inl (invalidf ''model id must not be empty'')
         else if length modelID > 1024 then Inl (invalidf ''model id too long'')
         else rates_validate (cp_rates price))"

definition UpsertPrice ::
  "error option \<Rightarrow> CustomPrice smap \<Rightarrow> CustomPrice \<Rightarrow> (error + CustomPrice) \<times> CustomPrice smap" where
  "UpsertPrice repo_err prices price =
     (let price = price\<lparr>cp_model := TrimSpace (cp_model price)\<rparr>
      in case CustomPrice_Validate price of
           Inl e \<Rightarrow> (Inl e, prices)
         | Inr _ \<Rightarrow>
             let key = NormalizeModelID (cp_model price);
                 price = (case map_of prices key of
                            Some existing \<Rightarrow> price\<lparr>cp_model := cp_model existing\<rparr>
                          | None \<Rightarrow> price)
             in case repo_err of
                  Some e \<Rightarrow> (Inl e, prices)
                | None \<Rightarrow> (Inr price, AList.update key price prices))"

definition DeletePrice :: "error option \<Rightarrow> CustomPrice smap \<Rightarrow> string \<Rightarrow> (error + unit) \<times> CustomPrice smap" where
  "DeletePrice repo_err prices model =
     (let key = NormalizeModelID model
      in case map_of prices key of
           None \<Rightarrow> (Inl (notFoundf ''custom price does not exist''), prices)
         | Some price \<Rightarrow>
             (case repo_err of
                Some e \<Rightarrow> (Inl e, prices)
              | None \<Rightarrow> (Inr (), AList.delete key prices)))"

text \<open>The catalogue's invariant: keyed by the normalised model, every entry valid and trimmed.\<close>

definition prices_ok :: "CustomPrice smap \<Rightarrow> bool" where
  "prices_ok prices \<longleftrightarrow>
     wf_map prices \<and>
     (\<forall>k p. map_of prices k = Some p \<longrightarrow>
        k = NormalizeModelID (cp_model p) \<and> TrimSpace (cp_model p) = cp_model p \<and> CustomPrice_Validate p = Inr ())"

lemma trimmed_ModelWithoutThinkingSuffix [simp]: "TrimSpace (ModelWithoutThinkingSuffix m) = ModelWithoutThinkingSuffix m"
  by (simp add: ModelWithoutThinkingSuffix_def Let_def)

lemma NormalizeModelID_Trim [simp]: "NormalizeModelID (TrimSpace m) = NormalizeModelID m"
  by (simp add: NormalizeModelID_def)

lemma NormalizeModelID_fold:
  "TrimSpace a = a \<Longrightarrow> TrimSpace b = b \<Longrightarrow> NormalizeModelID a = NormalizeModelID b \<longleftrightarrow> EqualFold a b"
  by (simp add: NormalizeModelID_def EqualFold_def)

lemma prices_okD:
  "prices_ok prices \<Longrightarrow> map_of prices k = Some p \<Longrightarrow>
     NormalizeModelID (cp_model p) = k \<and> TrimSpace (cp_model p) = cp_model p \<and> CustomPrice_Validate p = Inr ()"
  by (simp add: prices_ok_def)

lemma CustomPrice_Validate_rates: "CustomPrice_Validate p = Inr () \<Longrightarrow> rates_validate (cp_rates p) = Inr ()"
  by (auto simp: CustomPrice_Validate_def Let_def split: if_splits)

text \<open>The model a request is billed under, as a catalogue key, does not depend on the upstream model.\<close>

lemma billing_model_key:
  assumes ok: "prices_ok prices" and route: "TrimSpace route \<noteq> []"
    and auto: "\<not> EqualFold (ModelWithoutThinkingSuffix route) ''auto''"
  shows "NormalizeModelID (ResolveBillingModel prices upstream route) =
    (if has_key prices (NormalizeModelID route) then NormalizeModelID route
     else NormalizeModelID (ModelWithoutThinkingSuffix route))"
proof -
  have base: "ModelWithoutThinkingSuffix (TrimSpace route) = ModelWithoutThinkingSuffix route"
    by (simp add: ModelWithoutThinkingSuffix_def)
  have fold: "EqualFold (ModelWithoutThinkingSuffix route) (ModelWithoutThinkingSuffix upstream) \<Longrightarrow>
    NormalizeModelID (ModelWithoutThinkingSuffix upstream) = NormalizeModelID (ModelWithoutThinkingSuffix route)"
    by (simp add: NormalizeModelID_fold [symmetric])
  show ?thesis
  proof (cases "map_of prices (NormalizeModelID route)")
    case (Some p)
    with route auto ok show ?thesis
      by (simp add: ResolveBillingModel_def base has_key_def prices_okD)
  next
    case None
    with route auto ok fold show ?thesis
      by (auto simp: ResolveBillingModel_def base has_key_def Let_def prices_okD split: option.splits)
  qed
qed

section \<open>Properties\<close>

lemma is_f64_perMillion: "rate_ok p \<Longrightarrow> is_f64 (perMillion n p)"
proof (cases "n \<le> 0 \<or> feq p (Fin 0)")
  case False
  assume "rate_ok p"
  then have "nonneg p" by (simp add: rate_ok_def)
  moreover have "nonneg (fdiv (f64_of_int n) (Fin 1000000))" using False by (intro nonneg_fdiv) auto
  ultimately show ?thesis using False by (auto simp: perMillion_def)
next
  case True
  then have "perMillion n p = Fin 0" by (auto simp: perMillion_def)
  then show ?thesis by (simp only: is_f64_0)
qed

lemma ComputeCost_parts:
  assumes "price_ok price" "Billable b"
  shows "\<exists>pu pr pw po. rate_ok pu \<and> rate_ok pr \<and> rate_ok pw \<and> rate_ok po \<and>
     cst_uncached (ComputeCost price b) = perMillion (tin_uncached (tok_input b)) pu \<and>
     cst_cache_read (ComputeCost price b) = perMillion (tin_cache_read (tok_input b)) pr \<and>
     cst_cache_write (ComputeCost price b) = perMillion (tin_cache_write (tok_input b)) pw \<and>
     cst_output (ComputeCost price b) = perMillion (tout_total (tok_output b)) po"
proof -
  define t where "t = ComputeCost price b"
  have "rate_ok (cst_applied_input t) \<and> rate_ok (cst_applied_cache_read t) \<and>
     rate_ok (cst_applied_cache_write t) \<and> rate_ok (cst_applied_output t)"
    using assms by (auto simp: t_def ComputeCost_def Let_def price_ok_def split: option.splits)
  moreover have
    "cst_uncached t = perMillion (tin_uncached (tok_input b)) (cst_applied_input t)"
    "cst_cache_read t = perMillion (tin_cache_read (tok_input b)) (cst_applied_cache_read t)"
    "cst_cache_write t = perMillion (tin_cache_write (tok_input b)) (cst_applied_cache_write t)"
    "cst_output t = perMillion (tout_total (tok_output b)) (cst_applied_output t)"
    using assms by (simp_all add: t_def ComputeCost_def Let_def)
  ultimately show ?thesis unfolding t_def by blast
qed

lemma ComputeCost_total:
  "Billable b \<Longrightarrow> cst_total (ComputeCost price b) =
     fadd (fadd (fadd (cst_uncached (ComputeCost price b)) (cst_cache_read (ComputeCost price b)))
       (cst_cache_write (ComputeCost price b))) (cst_output (ComputeCost price b))"
  by (simp add: ComputeCost_def Let_def)

lemma fadd_four:
  assumes "nonneg a" "nonneg b" "nonneg c" "nonneg d" "is_f64 a" "is_f64 b" "is_f64 c" "is_f64 d"
  shows "nonneg (fadd (fadd (fadd a b) c) d)"
    "fle a (fadd (fadd (fadd a b) c) d)" "fle b (fadd (fadd (fadd a b) c) d)"
    "fle c (fadd (fadd (fadd a b) c) d)" "fle d (fadd (fadd (fadd a b) c) d)"
proof -
  let ?ab = "fadd a b" let ?abc = "fadd ?ab c"
  have n: "nonneg ?ab" "nonneg ?abc" using assms by auto
  have f: "is_f64 ?ab" "is_f64 ?abc" using assms n by auto
  have s: "fle ?abc (fadd ?abc d)" "fle ?ab ?abc" "fle a ?ab" using assms n f by (auto intro: fle_fadd_left)
  have r: "fle d (fadd ?abc d)" "fle c ?abc" "fle b ?ab"
    using assms n f fle_fadd_left fadd_comm by metis+
  show "nonneg (fadd ?abc d)" using n assms by auto
  show "fle a (fadd ?abc d)" "fle b (fadd ?abc d)" "fle c (fadd ?abc d)" "fle d (fadd ?abc d)"
    using s r fle_trans by blast+
qed

lemma ComputeCost_nonneg:
  assumes "price_ok price"
  shows "nonneg (cst_total (ComputeCost price b))" "nonneg (cst_uncached (ComputeCost price b))"
    "nonneg (cst_cache_read (ComputeCost price b))" "nonneg (cst_cache_write (ComputeCost price b))"
    "nonneg (cst_output (ComputeCost price b))"
proof -
  have parts: "nonneg (cst_uncached (ComputeCost price b)) \<and> nonneg (cst_cache_read (ComputeCost price b)) \<and>
      nonneg (cst_cache_write (ComputeCost price b)) \<and> nonneg (cst_output (ComputeCost price b))"
  proof (cases "Billable b")
    case True
    then show ?thesis using ComputeCost_parts [OF assms True] nonneg_perMillion by metis
  qed (simp add: ComputeCost_def zero_cost_def)
  then show "nonneg (cst_uncached (ComputeCost price b))" "nonneg (cst_cache_read (ComputeCost price b))"
    "nonneg (cst_cache_write (ComputeCost price b))" "nonneg (cst_output (ComputeCost price b))" by blast+
  show "nonneg (cst_total (ComputeCost price b))"
  proof (cases "Billable b")
    case True
    then show ?thesis using parts by (simp only: ComputeCost_total) (intro nonneg_fadd, simp_all)
  qed (simp add: ComputeCost_def zero_cost_def)
qed

text \<open>C20: with validated rates every amount of a cost is non-negative and the total is at least each of its
  parts, whatever the float64 rounding does; a usage record that is not billable costs nothing.\<close>

theorem ComputeCost_sound:
  assumes "price_ok price"
  shows "nonneg (cst_total (ComputeCost price b)) \<and>
     (\<forall>part \<in> {cst_uncached, cst_cache_read, cst_cache_write, cst_output}.
        nonneg (part (ComputeCost price b)) \<and> fle (part (ComputeCost price b)) (cst_total (ComputeCost price b))) \<and>
     (\<not> Billable b \<longrightarrow> cst_total (ComputeCost price b) = Fin 0)"
proof (cases "Billable b")
  case False
  then have "ComputeCost price b = zero_cost" by (simp add: ComputeCost_def)
  then show ?thesis by (simp add: zero_cost_def fle_def feq_def)
next
  case True
  obtain pu pr pw po where r: "rate_ok pu" "rate_ok pr" "rate_ok pw" "rate_ok po" and
     c: "cst_uncached (ComputeCost price b) = perMillion (tin_uncached (tok_input b)) pu"
     "cst_cache_read (ComputeCost price b) = perMillion (tin_cache_read (tok_input b)) pr"
     "cst_cache_write (ComputeCost price b) = perMillion (tin_cache_write (tok_input b)) pw"
     "cst_output (ComputeCost price b) = perMillion (tout_total (tok_output b)) po"
    using ComputeCost_parts [OF assms True] by blast
  show ?thesis
    using True fadd_four [OF nonneg_perMillion [OF r(1)] nonneg_perMillion [OF r(2)] nonneg_perMillion [OF r(3)]
        nonneg_perMillion [OF r(4)] is_f64_perMillion [OF r(1)] is_f64_perMillion [OF r(2)]
        is_f64_perMillion [OF r(3)] is_f64_perMillion [OF r(4)]]
    by (simp add: ComputeCost_total c nonneg_perMillion r)
qed

definition sample_rates :: PriceRates where
  "sample_rates = \<lparr>rt_input = Fin 5, rt_output = Fin 15, rt_cache_read = Some (Fin (1 / 2)),
     rt_cache_write = None, rt_long = None\<rparr>"

lemma sample_rates_valid: "rates_validate sample_rates = Inr ()"
  by (simp add: sample_rates_def rates_validate_def invalidPrice_def invalid_opt_def IsNaN_def IsInf_def)

definition sample_tokens :: TokenBreakdown where
  "sample_tokens = \<lparr>tok_quality = TokenAccountingComplete, tok_total = 3000000,
     tok_input = \<lparr>tin_total = 2000000, tin_uncached = 1000000, tin_cache_read = 1000000, tin_cache_write = 0\<rparr>,
     tok_output = \<lparr>tout_total = 1000000, tout_non_reasoning = 1000000, tout_reasoning = 0\<rparr>,
     tok_unclassified = 0\<rparr>"

theorem ComputeCost_sound_witness:
  "nonneg (cst_total (ComputeCost (rates_resolve sample_rates PriceSourceCustom) sample_tokens))"
  using ComputeCost_sound [OF resolve_price_ok [OF sample_rates_valid], of PriceSourceCustom sample_tokens] by blast

text \<open>The price of a request is chosen by the model the client asked for: whatever upstream model serves
  it, the same custom price applies (or none).\<close>

theorem billing_model_upstream_independent:
  assumes "prices_ok prices" "TrimSpace route \<noteq> []" "\<not> EqualFold (ModelWithoutThinkingSuffix route) ''auto''"
  shows "ResolveCustomPrice prices (ResolveBillingModel prices upstream route) =
    ResolveCustomPrice prices (ResolveBillingModel prices upstream' route)"
  by (simp add: ResolveCustomPrice_def billing_model_key [OF assms])

lemma TrimSpace_gpt: "TrimSpace ''gpt'' = ''gpt''" "TrimSpace ''up'' = ''up''"
  by (rule TrimSpace_visible, simp add: visible_def)+

theorem billing_model_upstream_independent_witness:
  "ResolveCustomPrice [] (ResolveBillingModel [] ''up'' ''gpt'') = ResolveCustomPrice [] (ResolveBillingModel [] ''gpt'' ''gpt'')"
  by (rule billing_model_upstream_independent)
    (simp_all add: prices_ok_def TrimSpace_gpt ModelWithoutThinkingSuffix_def EqualFold_def ToLower_def
      lower_byte_def is_upper_def less_eq_char_def)

text \<open>C18: storing a valid custom price keeps the catalogue's invariant, is what the model resolves to from then
  on, keeps the stored spelling of a known model, and changes no other model; a price that fails validation or
  that the repository refuses leaves the catalogue as it was.\<close>

theorem UpsertPrice_ok:
  assumes "prices_ok prices"
  shows "case UpsertPrice repo_err prices price of
      (Inl e, prices') \<Rightarrow> prices' = prices \<and> (CustomPrice_Validate (price\<lparr>cp_model := TrimSpace (cp_model price)\<rparr>) = Inl e \<or> repo_err = Some e)
    | (Inr stored, prices') \<Rightarrow>
        prices_ok prices' \<and> cp_rates stored = cp_rates price \<and>
        ResolveCustomPrice prices' (cp_model price) = rates_resolve (cp_rates price) PriceSourceCustom \<and>
        (\<forall>old. map_of prices (NormalizeModelID (cp_model price)) = Some old \<longrightarrow> cp_model stored = cp_model old) \<and>
        (\<forall>m. NormalizeModelID m \<noteq> NormalizeModelID (cp_model price) \<longrightarrow>
           ResolveCustomPrice prices' m = ResolveCustomPrice prices m)"
proof -
  define q where "q = price\<lparr>cp_model := TrimSpace (cp_model price)\<rparr>"
  define k where "k = NormalizeModelID (cp_model q)"
  have k: "k = NormalizeModelID (cp_model price)" by (simp add: k_def q_def)
  show ?thesis
  proof (cases "CustomPrice_Validate q")
    case (Inl e)
    then show ?thesis by (simp add: UpsertPrice_def flip: q_def)
  next
    case (Inr u)
    define st where "st = (case map_of prices k of Some old \<Rightarrow> q\<lparr>cp_model := cp_model old\<rparr> | None \<Rightarrow> q)"
    have st: "NormalizeModelID (cp_model st) = k" "TrimSpace (cp_model st) = cp_model st"
       "CustomPrice_Validate st = Inr ()" "cp_rates st = cp_rates price"
      using assms Inr
      by (auto simp: st_def k_def q_def CustomPrice_Validate_def Let_def
          dest!: prices_okD split: option.splits if_splits)
    have ok: "prices_ok (AList.update k st prices)"
      using assms st by (auto simp: prices_ok_def)
    have spelling: "\<forall>old. map_of prices k = Some old \<longrightarrow> cp_model st = cp_model old"
      by (simp add: st_def)
    have U: "UpsertPrice repo_err prices price =
        (case repo_err of Some e \<Rightarrow> (Inl e, prices) | None \<Rightarrow> (Inr st, AList.update k st prices))"
      unfolding UpsertPrice_def Let_def q_def [symmetric] Inr k_def [symmetric] st_def [symmetric] by simp
    show ?thesis
    proof (cases repo_err)
      case None
      then have upd: "UpsertPrice None prices price = (Inr st, AList.update k st prices)" using U by simp
      show ?thesis
        unfolding None by (simp add: upd ok st(4) spelling ResolveCustomPrice_def k [symmetric])
    next
      case (Some e)
      then have "UpsertPrice repo_err prices price = (Inl e, prices)" using U by simp
      then show ?thesis using Some by simp
    qed
  qed
qed

definition sample_price :: CustomPrice where
  "sample_price = \<lparr>cp_model = ''gpt'', cp_rates = sample_rates\<rparr>"

theorem UpsertPrice_ok_witness:
  "prices_ok [(NormalizeModelID ''gpt'', sample_price)]"
proof -
  have ok: "prices_ok []" by (simp add: prices_ok_def)
  have v: "CustomPrice_Validate sample_price = Inr ()"
    by (simp add: CustomPrice_Validate_def TrimSpace_gpt sample_rates_valid sample_price_def)
  have "sample_price\<lparr>cp_model := TrimSpace (cp_model sample_price)\<rparr> = sample_price"
    by (simp add: TrimSpace_gpt sample_price_def)
  then have "UpsertPrice None [] sample_price = (Inr sample_price, [(NormalizeModelID ''gpt'', sample_price)])"
    by (simp add: UpsertPrice_def v Let_def) (simp add: sample_price_def)
  with UpsertPrice_ok [OF ok, where repo_err = None and price = sample_price] show ?thesis by simp
qed

end
