(* ===== verification/GoTime.thy ===== *)
theory GoTime
  imports Strconv
begin

text \<open>
  Instants and durations of Go's \<open>time\<close> package. An instant is the number of nanoseconds since
  0001-01-01T00:00:00Z, so the zero \<open>time.Time\<close> is 0; locations matter only where the code asks for
  calendar fields. The business calendar of \<^verbatim>\<open>group_types.go\<close> is Asia/Shanghai: UTC+8 without
  daylight saving, which is the zone's rule for every instant after September 1991. The calendar is
  the proleptic Gregorian one, computed by 400, 100, 4 and 1 year cycles as \<open>time.Time\<close> does.
\<close>

type_synonym time = int
type_synonym duration = int

abbreviation second :: int where "second \<equiv> 1000000000"
abbreviation hour :: int where "hour \<equiv> 3600000000000"
abbreviation day :: int where "day \<equiv> 86400000000000"
abbreviation unix_epoch_seconds :: int where "unix_epoch_seconds \<equiv> 62135596800"

definition IsZero :: "time \<Rightarrow> bool" where
  "IsZero t \<longleftrightarrow> t = 0"

definition Unix :: "time \<Rightarrow> int" where
  "Unix t = t div second - unix_epoch_seconds"

definition Nanosecond :: "time \<Rightarrow> int" where
  "Nanosecond t = t mod second"

definition time_of_unix :: "int \<Rightarrow> time" where
  "time_of_unix s = (s + unix_epoch_seconds) * second"

text \<open>\<open>time.Duration(n) * time.Second\<close> is a 64-bit product and \<open>Sub\<close> saturates.\<close>

definition seconds :: "int \<Rightarrow> duration" where
  "seconds n = wrap64 (n * second)"

definition time_sub :: "time \<Rightarrow> time \<Rightarrow> duration" where
  "time_sub t u = max min_int64 (min max_int64 (t - u))"

abbreviation max_period_seconds :: int where
  "max_period_seconds \<equiv> 9223372036"

lemma seconds_exact: "0 \<le> n \<Longrightarrow> n \<le> max_period_seconds \<Longrightarrow> seconds n = n * second"
  by (simp add: seconds_def wrap64_id in_int64_def)

lemma Unix_time_of_unix [simp]: "Unix (time_of_unix s) = s"
  by (simp add: Unix_def time_of_unix_def)

lemma Nanosecond_time_of_unix [simp]: "Nanosecond (time_of_unix s) = 0"
  by (simp add: Nanosecond_def time_of_unix_def)

lemma time_split: "t = time_of_unix (Unix t) + Nanosecond t"
  by (simp add: time_of_unix_def Unix_def Nanosecond_def)

lemma Nanosecond_bounds: "0 \<le> Nanosecond t \<and> Nanosecond t < second"
  by (simp add: Nanosecond_def)

lemma time_of_unix_Unix_le: "time_of_unix (Unix t) \<le> t"
  using time_split [of t] Nanosecond_bounds [of t] by linarith

section \<open>Calendar dates\<close>

definition is_leap :: "int \<Rightarrow> bool" where
  "is_leap y \<longleftrightarrow> y mod 4 = 0 \<and> (y mod 100 \<noteq> 0 \<or> y mod 400 = 0)"

definition days_before_year :: "int \<Rightarrow> int" where
  "days_before_year y = 365 * (y - 1) + (y - 1) div 4 - (y - 1) div 100 + (y - 1) div 400"

definition days_before_month :: "bool \<Rightarrow> int \<Rightarrow> int" where
  "days_before_month leap m =
     (let l = (if leap then 1 else 0)
      in if m \<le> 1 then 0 else if m = 2 then 31 else if m = 3 then 59 + l else if m = 4 then 90 + l
         else if m = 5 then 120 + l else if m = 6 then 151 + l else if m = 7 then 181 + l
         else if m = 8 then 212 + l else if m = 9 then 243 + l else if m = 10 then 273 + l
         else if m = 11 then 304 + l else 334 + l)"

definition month_of_yday :: "bool \<Rightarrow> int \<Rightarrow> int" where
  "month_of_yday leap d =
     (let l = (if leap then 1 else 0)
      in if d < 31 then 1 else if d < 59 + l then 2 else if d < 90 + l then 3 else if d < 120 + l then 4
         else if d < 151 + l then 5 else if d < 181 + l then 6 else if d < 212 + l then 7
         else if d < 243 + l then 8 else if d < 273 + l then 9 else if d < 304 + l then 10
         else if d < 334 + l then 11 else 12)"

definition year_yday :: "int \<Rightarrow> int \<times> int" where
  "year_yday n =
     (let a = n div 146097; r = n mod 146097;
          b = min 3 (r div 36524); r2 = r - 36524 * b;
          c = r2 div 1461; r3 = r2 mod 1461;
          e = min 3 (r3 div 365)
      in (1 + 400 * a + 100 * b + 4 * c + e, r3 - 365 * e))"

definition civil_of_days :: "int \<Rightarrow> int \<times> int \<times> int" where
  "civil_of_days n =
     (case year_yday n of (y, yd) \<Rightarrow>
        let m = month_of_yday (is_leap y) yd
        in (y, m, yd - days_before_month (is_leap y) m + 1))"

definition days_of_civil :: "int \<Rightarrow> int \<Rightarrow> int \<Rightarrow> int" where
  "days_of_civil y m d = days_before_year y + days_before_month (is_leap y) m + d - 1"

lemma days_before_year_cycles:
  assumes "0 \<le> b" "b \<le> 3" "0 \<le> c" "c \<le> 24" "0 \<le> e" "e \<le> 3"
  shows "days_before_year (1 + 400 * a + 100 * b + 4 * c + e) = 146097 * a + 36524 * b + 1461 * c + 365 * e"
proof -
  define z where "z = 400 * a + 100 * b + 4 * c + e"
  have "z div 4 = 100 * a + 25 * b + c" using assms unfolding z_def by linarith
  moreover have "z div 100 = 4 * a + b" using assms unfolding z_def by linarith
  moreover have "z div 400 = a" using assms unfolding z_def by linarith
  ultimately have "days_before_year (1 + z) = 365 * z + (100 * a + 25 * b + c) - (4 * a + b) + a"
    by (simp add: days_before_year_def)
  then show ?thesis by (simp add: z_def add.assoc)
qed

lemma year_yday_sum: "year_yday n = (y, yd) \<Longrightarrow> days_before_year y + yd = n"
proof -
  assume *: "year_yday n = (y, yd)"
  define a r where "a = n div 146097" and "r = n mod 146097"
  define b where "b = min 3 (r div 36524)"
  define r2 where "r2 = r - 36524 * b"
  define c r3 where "c = r2 div 1461" and "r3 = r2 mod 1461"
  define e where "e = min 3 (r3 div 365)"
  note defs = a_def r_def b_def r2_def c_def r3_def e_def
  have r: "0 \<le> r" "r < 146097" by (simp_all add: r_def)
  have q: "r = 36524 * (r div 36524) + r mod 36524" "0 \<le> r mod 36524" "r mod 36524 < 36524"
    by simp_all
  then have "0 \<le> r div 36524" using r by linarith
  then have b: "0 \<le> b" "b \<le> 3" by (simp_all add: b_def)
  have b2: "0 \<le> r2" "r2 < 36525" using q r unfolding r2_def b_def by (simp_all add: min_def del: minus_mult_div_eq_mod) linarith+
  have c: "r2 = 1461 * c + r3" "0 \<le> r3" "r3 < 1461" by (simp_all add: c_def r3_def)
  then have c2: "0 \<le> c" "c \<le> 24" using b2 by linarith+
  have "0 \<le> r3 div 365" using c by (simp add: pos_imp_zdiv_nonneg_iff)
  then have e: "0 \<le> e" "e \<le> 3" by (simp_all add: e_def)
  have n: "n = 146097 * a + r" by (simp add: a_def r_def)
  from * have y: "y = 1 + 400 * a + 100 * b + 4 * c + e" and yd: "yd = r3 - 365 * e"
    unfolding defs using * [unfolded year_yday_def Let_def] by (simp_all only: prod.inject)
  have "days_before_year y = 146097 * a + 36524 * b + 1461 * c + 365 * e"
    unfolding y by (rule days_before_year_cycles) (use b c2 e in auto)
  then show ?thesis using n c(1) yd unfolding r2_def by linarith
qed

lemma year_yday_nonneg: "year_yday n = (y, yd) \<Longrightarrow> 0 \<le> yd"
proof -
  assume *: "year_yday n = (y, yd)"
  define r3 where "r3 = (n mod 146097 - 36524 * min 3 (n mod 146097 div 36524)) mod 1461"
  have "yd = r3 - 365 * min 3 (r3 div 365)"
    using * [unfolded year_yday_def Let_def, folded r3_def] by (simp only: prod.inject)
  moreover have "365 * (r3 div 365) + r3 mod 365 = r3" "0 \<le> r3 mod 365" by simp_all
  moreover have "min 3 (r3 div 365) \<le> r3 div 365" by (rule min.cobounded2)
  ultimately show ?thesis by linarith
qed

lemma year_yday_upper: "year_yday n = (y, yd) \<Longrightarrow> yd \<le> 365"
proof -
  assume *: "year_yday n = (y, yd)"
  define r3 where "r3 = (n mod 146097 - 36524 * min 3 (n mod 146097 div 36524)) mod 1461"
  have yd: "yd = r3 - 365 * min 3 (r3 div 365)"
    using * [unfolded year_yday_def Let_def, folded r3_def] by (simp only: prod.inject)
  have "365 * (r3 div 365) + r3 mod 365 = r3" "r3 mod 365 < 365" "r3 < 1461" by (simp_all add: r3_def)
  moreover have "min 3 (r3 div 365) = 3 \<or> min 3 (r3 div 365) = r3 div 365" by (simp add: min_def)
  ultimately show ?thesis unfolding yd by (elim disjE) linarith+
qed

lemma year_yday_year: "0 \<le> n \<Longrightarrow> year_yday n = (y, yd) \<Longrightarrow> 1 \<le> y"
proof -
  assume n: "0 \<le> n" and *: "year_yday n = (y, yd)"
  have "days_before_year y + yd = n" using * by (rule year_yday_sum)
  define a r where "a = n div 146097" and "r = n mod 146097"
  define b where "b = min 3 (r div 36524)"
  define r2 where "r2 = r - 36524 * b"
  define c r3 where "c = r2 div 1461" and "r3 = r2 mod 1461"
  define e where "e = min 3 (r3 div 365)"
  note defs = a_def r_def b_def r2_def c_def r3_def e_def
  have y: "y = 1 + 400 * a + 100 * b + 4 * c + e"
    unfolding defs using * [unfolded year_yday_def Let_def] by (simp only: prod.inject)
  have a: "0 \<le> a" using n by (simp add: a_def pos_imp_zdiv_nonneg_iff)
  have r: "0 \<le> r" by (simp add: r_def)
  then have d: "0 \<le> r div 36524" by (simp add: pos_imp_zdiv_nonneg_iff)
  then have b: "0 \<le> b" by (simp add: b_def)
  have "36524 * (r div 36524) \<le> r" using mult_div_mod_eq [of 36524 r] pos_mod_sign [of 36524 r] by linarith
  moreover have "b \<le> r div 36524" unfolding b_def by (rule min.cobounded2)
  ultimately have "0 \<le> r2" unfolding r2_def by linarith
  then have c: "0 \<le> c" by (simp add: c_def pos_imp_zdiv_nonneg_iff)
  have "0 \<le> r3 div 365" by (simp add: r3_def pos_imp_zdiv_nonneg_iff)
  then have "0 \<le> e" by (simp add: e_def)
  then show ?thesis using a b c unfolding y by linarith
qed

lemma month_of_yday_range: "1 \<le> month_of_yday l d \<and> month_of_yday l d \<le> 12"
  by (simp add: month_of_yday_def Let_def)

lemma month_start_le: "0 \<le> d \<Longrightarrow> days_before_month l (month_of_yday l d) \<le> d"
  by (auto simp: month_of_yday_def days_before_month_def Let_def)

text \<open>The calendar round trip: a day number survives the conversion to a date and back.\<close>

lemma days_of_civil_of_days: "civil_of_days n = (y, m, d) \<Longrightarrow> days_of_civil y m d = n"
  by (auto simp: civil_of_days_def days_of_civil_def Let_def dest: year_yday_sum split: prod.splits)

lemma civil_of_days_bounds:
  assumes "0 \<le> n" "civil_of_days n = (y, m, d)"
  shows "1 \<le> y" "1 \<le> m" "m \<le> 12" "1 \<le> d"
proof -
  obtain yd where yd: "year_yday n = (y, yd)" and m: "m = month_of_yday (is_leap y) yd"
    and d: "d = yd - days_before_month (is_leap y) m + 1"
    using assms(2) by (auto simp: civil_of_days_def Let_def split: prod.splits)
  show "1 \<le> y" using year_yday_year [OF assms(1) yd] .
  show "1 \<le> m" "m \<le> 12" using month_of_yday_range by (simp_all add: m)
  show "1 \<le> d" using month_start_le [OF year_yday_nonneg [OF yd], of "is_leap y"] by (simp add: d m)
qed

lemma days_of_civil_next: "days_of_civil y m (d + 1) = days_of_civil y m d + 1"
  by (simp add: days_of_civil_def)

text \<open>The layout \<open>2006-01-02\<close>.\<close>

definition format_date :: "int \<times> int \<times> int \<Rightarrow> string" where
  "format_date c = (case c of (y, m, d) \<Rightarrow>
     pad_zero 4 (itoa (nat y)) @ ''-'' @ pad_zero 2 (itoa (nat m)) @ ''-'' @ pad_zero 2 (itoa (nat d)))"

lemma dash_not_in_digits: "list_all is_digit s \<Longrightarrow> CHR ''-'' \<notin> set s"
  by (auto simp: list_all_iff is_digit_def less_eq_char_def)

lemma format_date_inject:
  assumes "0 \<le> y" "0 \<le> m" "0 \<le> d" "0 \<le> y'" "0 \<le> m'" "0 \<le> d'"
    and eq: "format_date (y, m, d) = format_date (y', m', d')"
  shows "y = y' \<and> m = m' \<and> d = d'"
proof -
  have dash: "CHR ''-'' \<notin> set (pad_zero w (itoa k))" for w k
    by (rule dash_not_in_digits) (simp add: pad_zero_digits)
  have "pad_zero 4 (itoa (nat y)) = pad_zero 4 (itoa (nat y'))"
    and "pad_zero 2 (itoa (nat m)) = pad_zero 2 (itoa (nat m'))"
    and "pad_zero 2 (itoa (nat d)) = pad_zero 2 (itoa (nat d'))"
    using eq by (simp_all add: format_date_def sep_join_inject dash)
  then have "nat y = nat y'" "nat m = nat m'" "nat d = nat d'"
    by (metis digits_val_pad_zero digits_val_itoa)+
  then show ?thesis using assms(1-6) by (simp add: eq_nat_nat_iff)
qed

section \<open>Business days in Shanghai\<close>

definition shanghai_day :: "time \<Rightarrow> int" where
  "shanghai_day t = (t + 8 * hour) div day"

definition shanghai_midnight :: "int \<Rightarrow> time" where
  "shanghai_midnight n = n * day - 8 * hour"

lemma shanghai_day_iff: "shanghai_day t = n \<longleftrightarrow> shanghai_midnight n \<le> t \<and> t < shanghai_midnight (n + 1)"
proof -
  define q r where "q = (t + 8 * hour) div day" and "r = (t + 8 * hour) mod day"
  have "t + 8 * hour = day * q + r" "0 \<le> r" "r < day" by (simp_all add: q_def r_def)
  then show ?thesis by (auto simp: shanghai_day_def shanghai_midnight_def simp flip: q_def)
qed

lemma shanghai_day_mono: "t \<le> u \<Longrightarrow> shanghai_day t \<le> shanghai_day u"
  by (simp add: shanghai_day_def zdiv_mono1)

end
