(* ===== verification/Host.thy ===== *)
theory Host
  imports Pricing GoTime
begin

text \<open>
  The host's side of \<^verbatim>\<open>internal/plugin/types.go\<close>: the records the proxy sends with a usage report, a
  request and a candidate of the scheduler, and \<open>metadataString\<close> of \<^verbatim>\<open>intercept.go\<close>, which reads the
  request metadata. Metadata values are JSON values; one that is neither a string nor a boolean is the text
  \<open>fmt.Sprint\<close> prints for it.
\<close>

section \<open>Substrings\<close>

fun contains_str :: "string \<Rightarrow> string \<Rightarrow> bool" where
  "contains_str [] sub \<longleftrightarrow> sub = []"
| "contains_str (c # s) sub \<longleftrightarrow> prefix sub (c # s) \<or> contains_str s sub"

lemma contains_str_iff: "contains_str s sub \<longleftrightarrow> sublist sub s"
proof (induction s)
  case (Cons c s)
  then show ?case by (simp add: sublist_Cons_right)
qed simp

section \<open>Usage reports\<close>

record UsageDetail =
  det_input :: int
  det_output :: int
  det_reasoning :: int
  det_cached :: int
  det_cache_read :: int
  det_cache_write :: int
  det_total :: int

record UsageFailure =
  uf_status :: int
  uf_body :: string

record UsageRecord =
  ur_provider :: string
  ur_executor :: string
  ur_model :: string
  ur_alias :: string
  ur_api_key :: string
  ur_auth_index :: string
  ur_auth_type :: string
  ur_source :: string
  ur_reasoning_effort :: string
  ur_service_tier :: string
  ur_generate :: bool
  ur_requested_at :: time
  ur_latency :: int
  ur_ttft :: int
  ur_failed :: bool
  ur_failure :: UsageFailure
  ur_detail :: UsageDetail

section \<open>Requests\<close>

datatype meta_value = MetaNull | MetaString string | MetaBool bool | MetaOther string

type_synonym metadata = "(string \<times> meta_value) list"

record RequestInterceptRequest =
  rq_id :: string
  rq_format :: string
  rq_model :: string
  rq_requested :: string
  rq_meta :: metadata

record RequestCompletion =
  rc_id :: string
  rc_outcome :: string
  rc_status :: int
  rc_error :: string

fun Sprint :: "meta_value \<Rightarrow> string" where
  "Sprint MetaNull = ''<nil>''"
| "Sprint (MetaString s) = s"
| "Sprint (MetaBool b) = (if b then ''true'' else ''false'')"
| "Sprint (MetaOther s) = s"

definition metadataString :: "metadata \<Rightarrow> string \<Rightarrow> string" where
  "metadataString m key =
     (case map_of m key of
        None \<Rightarrow> []
      | Some MetaNull \<Rightarrow> []
      | Some (MetaString s) \<Rightarrow> TrimSpace s
      | Some v \<Rightarrow> TrimSpace (Sprint v))"

lemma metadataString_trimmed [simp]: "trimmed (metadataString m key)"
  by (auto simp: metadataString_def split: option.splits meta_value.splits)

section \<open>Candidates of the scheduler\<close>

record SchedulerAuthCandidate =
  cand_id :: string
  cand_provider :: string
  cand_status :: string
  cand_attrs :: "(string \<times> string) list"

record SchedulerPickRequest =
  pick_model :: string
  pick_meta :: metadata
  pick_candidates :: "SchedulerAuthCandidate list"

definition cand_attribute :: "SchedulerAuthCandidate \<Rightarrow> string \<Rightarrow> string" where
  "cand_attribute c key = (case map_of (cand_attrs c) key of None \<Rightarrow> [] | Some v \<Rightarrow> v)"

end
