(* ===== verification/Sha256.thy ===== *)
theory Sha256
  imports Strconv "HOL-Library.Word"
begin

text \<open>
  SHA-256 (\<open>crypto/sha256.Sum256\<close>) and lower-case hexadecimal (\<open>encoding/hex.EncodeToString\<close>) of the
  Go standard library over byte strings: padding, message schedule and compression of FIPS 180-4 on
  \<^typ>\<open>32 word\<close>. The identifiers of keys and credentials are such digests; the lemmas fix their form.
\<close>

unbundle bit_operations_syntax

definition rotr32 :: "nat \<Rightarrow> 32 word \<Rightarrow> 32 word" where
  "rotr32 n x = drop_bit n x OR push_bit (32 - n) x"

definition sha_K :: "32 word list" where
  "sha_K =
     [1116352408, 1899447441, 3049323471, 3921009573, 961987163, 1508970993, 2453635748, 2870763221,
      3624381080, 310598401, 607225278, 1426881987, 1925078388, 2162078206, 2614888103, 3248222580,
      3835390401, 4022224774, 264347078, 604807628, 770255983, 1249150122, 1555081692, 1996064986,
      2554220882, 2821834349, 2952996808, 3210313671, 3336571891, 3584528711, 113926993, 338241895,
      666307205, 773529912, 1294757372, 1396182291, 1695183700, 1986661051, 2177026350, 2456956037,
      2730485921, 2820302411, 3259730800, 3345764771, 3516065817, 3600352804, 4094571909, 275423344,
      430227734, 506948616, 659060556, 883997877, 958139571, 1322822218, 1537002063, 1747873779,
      1955562222, 2024104815, 2227730452, 2361852424, 2428436474, 2756734187, 3204031479, 3329325298]"

definition sha_H0 :: "32 word list" where
  "sha_H0 = [1779033703, 3144134277, 1013904242, 2773480762, 1359893119, 2600822924, 528734635, 1541459225]"

definition small_sigma0 :: "32 word \<Rightarrow> 32 word" where
  "small_sigma0 x = rotr32 7 x XOR rotr32 18 x XOR drop_bit 3 x"

definition small_sigma1 :: "32 word \<Rightarrow> 32 word" where
  "small_sigma1 x = rotr32 17 x XOR rotr32 19 x XOR drop_bit 10 x"

definition big_sigma0 :: "32 word \<Rightarrow> 32 word" where
  "big_sigma0 x = rotr32 2 x XOR rotr32 13 x XOR rotr32 22 x"

definition big_sigma1 :: "32 word \<Rightarrow> 32 word" where
  "big_sigma1 x = rotr32 6 x XOR rotr32 11 x XOR rotr32 25 x"

definition sha_ch :: "32 word \<Rightarrow> 32 word \<Rightarrow> 32 word \<Rightarrow> 32 word" where
  "sha_ch x y z = (x AND y) XOR ((NOT x) AND z)"

definition sha_maj :: "32 word \<Rightarrow> 32 word \<Rightarrow> 32 word \<Rightarrow> 32 word" where
  "sha_maj x y z = (x AND y) XOR (x AND z) XOR (y AND z)"

text \<open>The message schedule, newest word first.\<close>

fun sha_schedule :: "nat \<Rightarrow> 32 word list \<Rightarrow> 32 word list" where
  "sha_schedule 0 ws = ws"
| "sha_schedule (Suc n) ws =
     sha_schedule n ((small_sigma1 (ws ! 1) + ws ! 6 + small_sigma0 (ws ! 14) + ws ! 15) # ws)"

fun sha_round :: "32 word list \<Rightarrow> 32 word \<times> 32 word \<Rightarrow> 32 word list" where
  "sha_round [a, b, c, d, e, f, g, h] (k, w) =
     (let t1 = h + big_sigma1 e + sha_ch e f g + k + w;
          t2 = big_sigma0 a + sha_maj a b c
      in [t1 + t2, a, b, c, d + t1, e, f, g])"
| "sha_round s _ = s"

definition sha_block :: "32 word list \<Rightarrow> 32 word list \<Rightarrow> 32 word list" where
  "sha_block hs block = map2 (+) hs (foldl sha_round hs (zip sha_K (rev (sha_schedule 48 (rev block)))))"

definition byte_val :: "char \<Rightarrow> nat" where
  "byte_val c = of_char c"

definition be64 :: "nat \<Rightarrow> nat list" where
  "be64 n = map (\<lambda>i. n div 256 ^ (7 - i) mod 256) [0..<8]"

definition sha_pad :: "nat list \<Rightarrow> nat list" where
  "sha_pad bs = bs @ [128] @ replicate ((119 - length bs mod 64) mod 64) 0 @ be64 (8 * length bs)"

fun sha_words :: "nat list \<Rightarrow> 32 word list" where
  "sha_words (a # b # c # d # bs) = of_nat (((a * 256 + b) * 256 + c) * 256 + d) # sha_words bs"
| "sha_words _ = []"

fun sha_blocks :: "32 word list \<Rightarrow> 32 word list \<Rightarrow> nat \<Rightarrow> 32 word list" where
  "sha_blocks hs ws 0 = hs"
| "sha_blocks hs ws (Suc n) = sha_blocks (sha_block hs (take 16 ws)) (drop 16 ws) n"

definition hex_digit :: "nat \<Rightarrow> char" where
  "hex_digit d = (if d < 10 then char_of (48 + d) else char_of (87 + d))"

definition hex_word :: "32 word \<Rightarrow> string" where
  "hex_word w = map (\<lambda>i. hex_digit (unat w div 16 ^ (7 - i) mod 16)) [0..<8]"

definition sha256_words :: "string \<Rightarrow> 32 word list" where
  "sha256_words s =
     (let ws = sha_words (sha_pad (map byte_val s)) in sha_blocks sha_H0 ws (length ws div 16))"

definition sha256_hex :: "string \<Rightarrow> string" where
  "sha256_hex s = concat (map hex_word (sha256_words s))"

section \<open>The form of a digest\<close>

lemma length8: "length s = 8 \<longleftrightarrow> (\<exists>a b c d e f g h. s = [a, b, c, d, e, f, g, h])"
  by (auto simp: length_Suc_conv eval_nat_numeral)

lemma length_sha_round: "length s = 8 \<Longrightarrow> length (sha_round s kw) = 8"
  by (cases kw) (auto simp: length8 Let_def)

lemma length_sha_rounds: "length s = 8 \<Longrightarrow> length (foldl sha_round s kws) = 8"
  by (induction kws arbitrary: s) (auto simp: length_sha_round simp del: sha_round.simps)

lemma length_sha_block: "length hs = 8 \<Longrightarrow> length (sha_block hs b) = 8"
  by (simp add: sha_block_def length_sha_rounds)

lemma length_sha_blocks: "length hs = 8 \<Longrightarrow> length (sha_blocks hs ws n) = 8"
  by (induction n arbitrary: hs ws) (simp_all add: length_sha_block)

lemma length_sha256_words: "length (sha256_words s) = 8"
  by (simp add: sha256_words_def Let_def length_sha_blocks sha_H0_def)

definition is_lower_hex :: "char \<Rightarrow> bool" where
  "is_lower_hex c \<longleftrightarrow> (CHR ''0'' \<le> c \<and> c \<le> CHR ''9'') \<or> (CHR ''a'' \<le> c \<and> c \<le> CHR ''f'')"

lemma hex_digit_lower: "d < 16 \<Longrightarrow> is_lower_hex (hex_digit d)"
  by (auto simp: hex_digit_def is_lower_hex_def less_eq_char_def)

lemma length_hex_word: "length (hex_word w) = 8"
  by (simp add: hex_word_def)

lemma hex_word_lower: "list_all is_lower_hex (hex_word w)"
  by (auto simp: hex_word_def list_all_iff hex_digit_lower)

lemma length_sha256_hex [simp]: "length (sha256_hex s) = 64"
proof -
  have "length (concat (map hex_word ws)) = 8 * length ws" for ws
    by (induction ws) (simp_all add: length_hex_word)
  then show ?thesis by (simp add: sha256_hex_def length_sha256_words)
qed

lemma sha256_hex_lower [simp]: "list_all is_lower_hex (sha256_hex s)"
  using hex_word_lower by (auto simp: sha256_hex_def list_all_iff)

lemma is_lower_hex_visible: "is_lower_hex c \<Longrightarrow> visible c"
  by (auto simp: is_lower_hex_def visible_def less_eq_char_def)

lemma TrimSpace_hex: "list_all is_lower_hex s \<Longrightarrow> TrimSpace s = s"
  by (rule TrimSpace_visible) (auto simp: list_all_iff is_lower_hex_visible)

lemma ToLower_hex: "list_all is_lower_hex s \<Longrightarrow> ToLower s = s"
proof -
  have "is_lower_hex c \<Longrightarrow> lower_byte c = c" for c
    by (rule lower_byte_other) (auto simp: is_lower_hex_def is_upper_def less_eq_char_def)
  then show "list_all is_lower_hex s \<Longrightarrow> ToLower s = s"
    by (auto simp: ToLower_def list_all_iff intro: map_idI)
qed

end
