(* ===== verification/Identity.thy ===== *)
theory Identity
  imports Sha256
begin

text \<open>
  Identifiers of \<^verbatim>\<open>internal/billing/identity.go\<close>: the caller scope of a key, its masked preview, slugs and the
  search for a free identifier. The search has no bound in the source, so \<open>free_number\<close> is a partial function;
  \<open>freeID_fresh\<close> shows that it returns whenever only finitely many identifiers are taken.
\<close>

definition callerScopeSalt :: string where
  "callerScopeSalt = ''cli-proxy-api:caller-scope:v1'' @ [CHR 0x00]"

definition UnknownKeyPreview :: string where
  "UnknownKeyPreview = ''unknown''"

definition CallerScope :: "string \<Rightarrow> string" where
  "CallerScope value =
     (let v = TrimSpace value in if v = [] then [] else sha256_hex (callerScopeSalt @ v))"

text \<open>The ellipsis is one character of three bytes.\<close>

definition PreviewKey :: "string \<Rightarrow> string" where
  "PreviewKey key =
     (let k = TrimSpace key
      in if k = [] then []
         else if length k \<le> 12 then replicate (length k) (CHR ''*'')
         else take 6 k @ [CHR 0xE2, CHR 0x80, CHR 0xA6] @ drop (length k - 4) k)"

definition is_lower_letter :: "char \<Rightarrow> bool" where
  "is_lower_letter c \<longleftrightarrow> CHR ''a'' \<le> c \<and> c \<le> CHR ''z''"

definition trim_hyphens :: "string \<Rightarrow> string" where
  "trim_hyphens s = rev (dropWhile (\<lambda>c. c = CHR ''-'') (rev (dropWhile (\<lambda>c. c = CHR ''-'') s)))"

text \<open>The loop of \<open>slugify\<close> over the bytes, with its builder and the \<open>lastHyphen\<close> flag; a character of several
  bytes gives one hyphen just as a single foreign byte does.\<close>

fun slug_loop :: "string \<Rightarrow> bool \<Rightarrow> string \<Rightarrow> string" where
  "slug_loop builder lastHyphen [] = builder"
| "slug_loop builder lastHyphen (r # rs) =
     (if is_lower_letter r \<or> is_digit r then slug_loop (builder @ [r]) False rs
      else if \<not> lastHyphen \<and> length builder > 0 then slug_loop (builder @ ''-'') True rs
      else slug_loop builder lastHyphen rs)"

definition slugify :: "string \<Rightarrow> string" where
  "slugify value =
     (let slug = trim_hyphens (slug_loop [] False (ToLower (TrimSpace value)))
      in if length slug > 48 then trim_hyphens (take 48 slug) else slug)"

definition numbered :: "string \<Rightarrow> nat \<Rightarrow> string" where
  "numbered base i = base @ ''-'' @ itoa i"

partial_function (option) free_number :: "string \<Rightarrow> (string \<Rightarrow> bool) \<Rightarrow> nat \<Rightarrow> string option" where
  "free_number pre taken i =
     (if \<not> taken (numbered pre i) then Some (numbered pre i) else free_number pre taken (Suc i))"

lemmas [code] = free_number.simps

definition freeID :: "string \<Rightarrow> string \<Rightarrow> (string \<Rightarrow> bool) \<Rightarrow> string option" where
  "freeID name pre taken =
     (let base = slugify name
      in if list_ex is_lower_letter base
         then if \<not> taken base then Some base
              else case find (\<lambda>i. \<not> taken (numbered base i)) [2..<1000] of
                     Some i \<Rightarrow> Some (numbered base i)
                   | None \<Rightarrow> free_number pre taken 1
         else free_number pre taken 1)"

lemma CallerScope_form: "CallerScope v = [] \<or> (length (CallerScope v) = 64 \<and> list_all is_lower_hex (CallerScope v))"
  by (simp add: CallerScope_def Let_def)

lemma CallerScope_trimmed [simp]: "TrimSpace (CallerScope v) = CallerScope v"
  by (simp add: CallerScope_def Let_def TrimSpace_hex)

lemma CallerScope_lower [simp]: "ToLower (CallerScope v) = CallerScope v"
  by (simp add: CallerScope_def Let_def ToLower_hex)

lemma CallerScope_trim [simp]: "CallerScope (TrimSpace v) = CallerScope v"
  by (simp add: CallerScope_def)

lemma numbered_inject [simp]: "numbered b i = numbered b j \<longleftrightarrow> i = j"
  by (simp add: numbered_def)

lemma free_number_from:
  assumes "\<not> taken (numbered p k)" "i \<le> k"
  shows "\<exists>j\<ge>i. j \<le> k \<and> free_number p taken i = Some (numbered p j) \<and> \<not> taken (numbered p j)"
  using assms(2)
proof (induction "k - i" arbitrary: i)
  case 0
  then have "i = k" by simp
  with assms(1) show ?case by (auto simp: free_number.simps [of p taken k])
next
  case (Suc n)
  show ?case
  proof (cases "taken (numbered p i)")
    case False
    with Suc.prems show ?thesis by (auto simp: free_number.simps [of p taken i])
  next
    case True
    have "n = k - Suc i" "Suc i \<le> k" using Suc.hyps(2) by linarith+
    from Suc.hyps(1) [OF this] obtain j where "Suc i \<le> j" "j \<le> k"
      "free_number p taken (Suc i) = Some (numbered p j)" "\<not> taken (numbered p j)" by auto
    with True show ?thesis by (intro exI [of _ j]) (simp add: free_number.simps [of p taken i])
  qed
qed

lemma free_number_fresh:
  assumes "finite {s. taken s}"
  shows "\<exists>j. free_number p taken i = Some (numbered p j) \<and> \<not> taken (numbered p j)"
proof -
  have "\<exists>k\<ge>i. \<not> taken (numbered p k)"
  proof (rule ccontr)
    assume "\<not> ?thesis"
    then have "numbered p ` {i..} \<subseteq> {s. taken s}" by auto
    then have "finite (numbered p ` {i..})" using assms finite_subset by blast
    then have "finite {i..}" by (rule finite_imageD) (auto intro: inj_onI)
    then show False by (simp add: infinite_Ici)
  qed
  then obtain k where "i \<le> k" "\<not> taken (numbered p k)" by blast
  with free_number_from [of taken p k i] show ?thesis by blast
qed

lemma freeID_cases:
  assumes "finite {s. taken s}"
  shows "\<exists>new. freeID name p taken = Some new \<and> \<not> taken new \<and>
    (new = slugify name \<or> (\<exists>i. new = numbered (slugify name) i) \<or> (\<exists>i. new = numbered p i)) \<and>
    (list_ex is_lower_letter (slugify name) \<and> \<not> taken (slugify name) \<longrightarrow> new = slugify name)"
proof -
  obtain j where j: "free_number p taken 1 = Some (numbered p j)" "\<not> taken (numbered p j)"
    using free_number_fresh [OF assms] by blast
  show ?thesis
  proof (cases "find (\<lambda>i. \<not> taken (numbered (slugify name) i)) [2..<1000]")
    case None
    with j show ?thesis by (auto simp: freeID_def Let_def)
  next
    case (Some i)
    then have "\<not> taken (numbered (slugify name) i)" using find_Some_prop by fast
    with Some j show ?thesis by (auto simp: freeID_def Let_def)
  qed
qed

text \<open>The shape of a slug: lower-case letters, digits and inner hyphens, at most 48 bytes.\<close>

definition slug_char :: "char \<Rightarrow> bool" where
  "slug_char c \<longleftrightarrow> is_lower_letter c \<or> is_digit c \<or> c = CHR ''-''"

lemma slug_loop_chars: "list_all slug_char b \<Longrightarrow> list_all slug_char (slug_loop b h rs)"
  by (induction b h rs rule: slug_loop.induct) (auto simp: slug_char_def)

lemma set_trim_hyphens: "set (trim_hyphens s) \<subseteq> set s"
  by (auto simp: trim_hyphens_def dest!: set_dropWhileD)

lemma length_trim_hyphens: "length (trim_hyphens s) \<le> length s"
  using length_dropWhile_le [of "\<lambda>c. c = CHR ''-''" s]
    length_dropWhile_le [of "\<lambda>c. c = CHR ''-''" "rev (dropWhile (\<lambda>c. c = CHR ''-'') s)"]
  by (simp add: trim_hyphens_def)

lemma trim_hyphens_ends: "trim_hyphens s \<noteq> [] \<Longrightarrow> last (trim_hyphens s) \<noteq> CHR ''-''"
  using hd_dropWhile [of "\<lambda>c. c = CHR ''-''"] by (auto simp: trim_hyphens_def last_rev)

lemma slugify_form:
  "length (slugify v) \<le> 48 \<and> list_all slug_char (slugify v) \<and> (slugify v \<noteq> [] \<longrightarrow> last (slugify v) \<noteq> CHR ''-'')"
proof -
  define t where "t = trim_hyphens (slug_loop [] False (ToLower (TrimSpace v)))"
  have c: "list_all slug_char t"
    using set_trim_hyphens slug_loop_chars [of "[]"] unfolding t_def list_all_iff by fastforce
  then have "list_all slug_char (trim_hyphens (take 48 t))"
    using set_trim_hyphens [of "take 48 t"] set_take_subset [of 48 t] by (auto simp: list_all_iff)
  moreover have "length (trim_hyphens (take 48 t)) \<le> 48"
    using length_trim_hyphens [of "take 48 t"] by simp
  ultimately show ?thesis
    using c trim_hyphens_ends by (auto simp: slugify_def Let_def simp flip: t_def) (auto simp: t_def)
qed

end
