(* ===== verification/HostText.thy ===== *)
theory HostText
  imports Host Identity
begin

text \<open>
  Text that reaches the logs and the credential list: \<open>cleanText\<close>, the two patterns that hide secrets and
  e-mail addresses, \<open>safeCredentialName\<close> and \<open>boundedLogValue\<close> of \<^verbatim>\<open>internal/plugin/routing_credentials.go\<close> and
  \<^verbatim>\<open>routing_logs.go\<close>. Go's \<open>regexp\<close> and \<open>strings.Map\<close> work on the code points of a string: a string is first cut
  into pieces, each a code point with the bytes it was read from (\<open>pieces\<close>). The patterns ignore case, which for
  \<open>k\<close> and \<open>s\<close> includes the Kelvin sign and the long s.
\<close>

section \<open>Code points with their bytes\<close>

type_synonym piece = "nat \<times> nat list"

fun cut_pieces :: "nat list \<Rightarrow> piece list" where
  "cut_pieces [] = []"
| "cut_pieces (a # rest) =
     (if a < 128 then (a, [a]) # cut_pieces rest
      else case rest of
        [] \<Rightarrow> [(65533, [a])]
      | b # rest2 \<Rightarrow>
          if 194 \<le> a \<and> a \<le> 223 \<and> cont b then ((a - 192) * 64 + (b - 128), [a, b]) # cut_pieces rest2
          else case rest2 of
            [] \<Rightarrow> (65533, [a]) # cut_pieces rest
          | c # rest3 \<Rightarrow>
              if 224 \<le> a \<and> a \<le> 239 \<and> cont b \<and> cont c \<and> (a = 224 \<longrightarrow> 160 \<le> b) \<and> (a = 237 \<longrightarrow> b \<le> 159)
              then (((a - 224) * 64 + (b - 128)) * 64 + (c - 128), [a, b, c]) # cut_pieces rest3
              else case rest3 of
                [] \<Rightarrow> (65533, [a]) # cut_pieces rest
              | d # rest4 \<Rightarrow>
                  if 240 \<le> a \<and> a \<le> 244 \<and> cont b \<and> cont c \<and> cont d \<and> (a = 240 \<longrightarrow> 144 \<le> b) \<and> (a = 244 \<longrightarrow> b \<le> 143)
                  then ((((a - 240) * 64 + (b - 128)) * 64 + (c - 128)) * 64 + (d - 128), [a, b, c, d]) # cut_pieces rest4
                  else (65533, [a]) # cut_pieces rest)"

definition pieces :: "string \<Rightarrow> piece list" where
  "pieces s = cut_pieces (map of_char s)"

definition glue :: "piece list \<Rightarrow> string" where
  "glue ps = map char_of (concat (map snd ps))"

lemma cut_pieces_runes: "map fst (cut_pieces bs) = decode_runes bs" (is "?P bs")
proof (induction "length bs" arbitrary: bs rule: less_induct)
  case less
  show ?case
  proof (cases bs)
    case (Cons a rest)
    have tails: "rest = b # r2 \<Longrightarrow> ?P r2" "rest = b # c # r3 \<Longrightarrow> ?P r3" "rest = b # c # d # r4 \<Longrightarrow> ?P r4" "?P rest" for b c d r2 r3 r4
      using less Cons by simp_all
    show ?thesis unfolding Cons cut_pieces.simps(2) [of a rest] decode_runes.simps(2) [of a rest]
      using tails by (auto split: list.split simp del: cut_pieces.simps decode_runes.simps)
  qed simp
qed

lemma cut_pieces_bytes: "concat (map snd (cut_pieces bs)) = bs" (is "?P bs")
proof (induction "length bs" arbitrary: bs rule: less_induct)
  case less
  show ?case
  proof (cases bs)
    case (Cons a rest)
    have tails: "rest = b # r2 \<Longrightarrow> ?P r2" "rest = b # c # r3 \<Longrightarrow> ?P r3" "rest = b # c # d # r4 \<Longrightarrow> ?P r4" "?P rest" for b c d r2 r3 r4
      using less Cons by simp_all
    show ?thesis unfolding Cons cut_pieces.simps(2) [of a rest]
      using tails by (auto split: list.split simp del: cut_pieces.simps decode_runes.simps)
  qed simp
qed

lemma pieces_runes: "map fst (pieces s) = runes s"
  by (simp add: pieces_def runes_def cut_pieces_runes)

lemma glue_pieces: "glue (pieces s) = s"
  by (simp add: glue_def pieces_def cut_pieces_bytes comp_def)

section \<open>Control characters\<close>

definition replacement_bytes :: "nat list" where
  "replacement_bytes = [239, 191, 189]"

definition cleanText :: "string \<Rightarrow> string" where
  "cleanText value =
     map char_of (concat (map (\<lambda>(r, bs). if r < 32 \<or> r = 127 then [] else if r = 65533 then replacement_bytes else bs)
                            (pieces (TrimSpace value))))"

section \<open>Secrets and e-mail addresses\<close>

definition is_letter_fold :: "nat \<Rightarrow> bool" where
  "is_letter_fold r \<longleftrightarrow> (97 \<le> r \<and> r \<le> 122) \<or> (65 \<le> r \<and> r \<le> 90) \<or> r = 383 \<or> r = 8490"

definition same_fold :: "nat \<Rightarrow> char \<Rightarrow> bool" where
  "same_fold r c \<longleftrightarrow> r = of_char c \<or> r = of_char c - 32 \<or> (c = CHR ''s'' \<and> r = 383) \<or> (c = CHR ''k'' \<and> r = 8490)"

definition is_digit_rune :: "nat \<Rightarrow> bool" where
  "is_digit_rune r \<longleftrightarrow> 48 \<le> r \<and> r \<le> 57"

definition secret_rune :: "nat \<Rightarrow> bool" where
  "secret_rune r \<longleftrightarrow> is_letter_fold r \<or> is_digit_rune r \<or> r = 95 \<or> r = 45"

fun starts_with_fold :: "string \<Rightarrow> nat list \<Rightarrow> bool" where
  "starts_with_fold [] rs \<longleftrightarrow> True"
| "starts_with_fold (c # cs) [] \<longleftrightarrow> False"
| "starts_with_fold (c # cs) (r # rs) \<longleftrightarrow> same_fold r c \<and> starts_with_fold cs rs"

text \<open>The length of the match at the front, \<open>None\<close> where the pattern does not match there.\<close>

definition prefixed_secret :: "string \<Rightarrow> nat list \<Rightarrow> nat option" where
  "prefixed_secret p rs =
     (if starts_with_fold p rs \<and> drop (length p) rs \<noteq> [] \<and> hd (drop (length p) rs) = 45
      then let n = length (takeWhile secret_rune (drop (length p + 1) rs))
           in if 4 \<le> n then Some (length p + 1 + n) else None
      else None)"

definition or_else :: "'a option \<Rightarrow> 'a option \<Rightarrow> 'a option" where
  "or_else a b = (case a of None \<Rightarrow> b | Some x \<Rightarrow> Some x)"

definition secretLikeToken :: "nat list \<Rightarrow> nat option" where
  "secretLikeToken rs =
     or_else (prefixed_secret ''sk'' rs) (or_else (prefixed_secret ''key'' rs) (or_else (prefixed_secret ''token'' rs)
       (let n = length (takeWhile secret_rune rs) in if 24 \<le> n then Some n else None)))"

definition local_rune :: "nat \<Rightarrow> bool" where
  "local_rune r \<longleftrightarrow> is_letter_fold r \<or> is_digit_rune r \<or> r \<in> {46, 95, 37, 43, 45}"

definition domain_rune :: "nat \<Rightarrow> bool" where
  "domain_rune r \<longleftrightarrow> is_letter_fold r \<or> is_digit_rune r \<or> r = 46 \<or> r = 45"

text \<open>The longest domain that leaves a dot and at least two letters behind.\<close>

definition domain_ends :: "nat list \<Rightarrow> nat list" where
  "domain_ends rs =
     filter (\<lambda>j. rs ! j = 46 \<and> 2 \<le> length (takeWhile is_letter_fold (drop (j + 1) rs)))
       [1..<length (takeWhile domain_rune rs)]"

definition emailLikeToken :: "nat list \<Rightarrow> nat option" where
  "emailLikeToken rs =
     (let n = length (takeWhile local_rune rs); rest = drop n rs
      in if n = 0 \<or> rest = [] \<or> hd rest \<noteq> 64 then None
         else let host = tl rest; js = domain_ends host
              in if js = [] then None
                 else Some (n + 1 + last js + 1 + length (takeWhile is_letter_fold (drop (last js + 1) host))))"

text \<open>\<open>ReplaceAllStringFunc\<close>: leftmost matches from left to right; a match of these patterns is never empty.\<close>

fun replace_matches :: "(nat list \<Rightarrow> nat option) \<Rightarrow> nat \<Rightarrow> piece list \<Rightarrow> string" where
  "replace_matches m 0 ps = []"
| "replace_matches m (Suc fuel) ps =
     (case ps of
        [] \<Rightarrow> []
      | p # rest \<Rightarrow>
          (case m (map fst ps) of
             None \<Rightarrow> glue [p] @ replace_matches m fuel rest
           | Some n \<Rightarrow> PreviewKey (glue (take n ps)) @ replace_matches m fuel (drop n ps)))"

definition replace_all_matches :: "(nat list \<Rightarrow> nat option) \<Rightarrow> string \<Rightarrow> string" where
  "replace_all_matches m s = (let ps = pieces s in replace_matches m (length ps + 1) ps)"

section \<open>Names and log values\<close>

fun ReplaceAll_fuel :: "nat \<Rightarrow> string \<Rightarrow> string \<Rightarrow> string \<Rightarrow> string" where
  "ReplaceAll_fuel 0 old new s = s"
| "ReplaceAll_fuel (Suc n) old new s =
     (case s of
        [] \<Rightarrow> []
      | c # rest \<Rightarrow> if prefix old s then new @ ReplaceAll_fuel n old new (drop (length old) s)
                    else c # ReplaceAll_fuel n old new rest)"

text \<open>\<open>strings.ReplaceAll\<close> of a text that is not empty.\<close>

definition ReplaceAll :: "string \<Rightarrow> string \<Rightarrow> string \<Rightarrow> string" where
  "ReplaceAll s old new = ReplaceAll_fuel (length s) old new s"

definition path_Base :: "string \<Rightarrow> string" where
  "path_Base p =
     (if p = [] then ''.''
      else let q = rev (dropWhile (\<lambda>c. c = CHR ''/'') (rev p));
               base = rev (takeWhile (\<lambda>c. c \<noteq> CHR ''/'') (rev q))
           in if base = [] then ''/'' else base)"

definition shortCredentialRef :: "string \<Rightarrow> string" where
  "shortCredentialRef ref =
     take 8 (if prefix ''sha256:'' ref then drop (length ''sha256:'') ref else ref)"

definition upstream_credential_text :: string where
  "upstream_credential_text = [CHR 0x20, CHR 0xE4, CHR 0xB8, CHR 0x8A, CHR 0xE6, CHR 0xB8, CHR 0xB8, CHR 0xE5, CHR 0x87, CHR 0xAD, CHR 0xE8, CHR 0xAF, CHR 0x81, CHR 0x20]"

definition safeCredentialName :: "string \<Rightarrow> string \<Rightarrow> string \<Rightarrow> string \<Rightarrow> string" where
  "safeCredentialName raw account0 provider ref =
     (let name1 = TrimSpace (path_Base (map (\<lambda>c. if c = CHR 0x5C then CHR ''/'' else c) raw));
          account = TrimSpace account0;
          name2 = (if account = [] then name1 else ReplaceAll name1 account (PreviewKey account));
          name3 = replace_all_matches secretLikeToken name2;
          name4 = cleanText (replace_all_matches emailLikeToken name3);
          name5 = (if name4 = [] \<or> name4 = ''.'' \<or> name4 = ''/''
                   then TrimSpace provider @ upstream_credential_text @ shortCredentialRef ref else name4)
      in take 160 name5)"

definition boundedLogValue :: "string \<Rightarrow> nat \<Rightarrow> string" where
  "boundedLogValue value limit =
     take limit (cleanText (replace_all_matches emailLikeToken (replace_all_matches secretLikeToken value)))"

text \<open>A logged value is never longer than its bound, and a cleaned text never breaks a line.\<close>

lemma boundedLogValue_length: "length (boundedLogValue value limit) \<le> limit"
  by (simp add: boundedLogValue_def)

lemma safeCredentialName_length: "length (safeCredentialName raw account provider ref) \<le> 160"
  by (simp add: safeCredentialName_def Let_def)

end
