(* ===== verification/UsageTokens.thy ===== *)
theory UsageTokens
  imports Host
begin

text \<open>
  \<^verbatim>\<open>internal/plugin/usage.go\<close>: the token breakdown a usage report is accounted with. The provider and
  executor names select how the flat counters nest (cached input inside the input or beside it, reasoning
  inside the output or beside it); a report whose counters disagree yields an inconsistent or
  unclassified breakdown, which the store never bills. Counters are Go's \<open>int64\<close>: every sum and difference
  is written with its wrap-around, and \<open>checkedTokenSum\<close> is shown to prevent it.
\<close>

section \<open>Which counters nest\<close>

datatype tokenSemantics =
  tokenSemanticsUnknown | tokenSemanticsSubset | tokenSemanticsIndependent | tokenSemanticsSeparateReasoning

definition usageHasTokens :: "UsageDetail \<Rightarrow> bool" where
  "usageHasTokens d \<longleftrightarrow> det_input d \<noteq> 0 \<or> det_output d \<noteq> 0 \<or> det_reasoning d \<noteq> 0 \<or> det_cached d \<noteq> 0 \<or>
     det_cache_read d \<noteq> 0 \<or> det_cache_write d \<noteq> 0 \<or> det_total d \<noteq> 0"

definition separate_markers :: "string list" where
  "separate_markers = [''gemini'', ''aistudio'', ''antigravity'', ''vertex'', ''interaction'']"

definition subset_markers :: "string list" where
  "subset_markers = [''openai'', ''codex'', ''xai'', ''grok'', ''kimi'', ''qwen'', ''deepseek'', ''openrouter'']"

definition usageSemantics :: "string \<Rightarrow> string \<Rightarrow> tokenSemantics" where
  "usageSemantics provider executor =
     (let p = ToLower (TrimSpace provider);
          e = ToLower (TrimSpace executor);
          value = TrimSpace (p @ '' '' @ e)
      in if value = [] \<or> value = ''unknown'' \<or> value = ''unknown unknown'' then tokenSemanticsUnknown
         else if e = ''openaicompatexecutor'' \<or> p = ''openai-compatibility'' \<or> prefix ''openai-compatible-'' p
           then tokenSemanticsSubset
         else if contains_str value ''claude'' \<or> contains_str value ''anthropic'' then tokenSemanticsIndependent
         else if \<exists>m \<in> set separate_markers. contains_str value m then tokenSemanticsSeparateReasoning
         else if \<exists>m \<in> set subset_markers. contains_str value m then tokenSemanticsSubset
         else tokenSemanticsUnknown)"

section \<open>Checked sums\<close>

definition sub64 :: "int \<Rightarrow> int \<Rightarrow> int" where
  "sub64 a b = wrap64 (a - b)"

fun checked_from :: "int \<Rightarrow> int list \<Rightarrow> int \<times> bool" where
  "checked_from tot [] = (tot, True)"
| "checked_from tot (v # vs) =
     (if v < 0 \<or> tot > sub64 max_int64 v then (0, False) else checked_from (add64 tot v) vs)"

definition checkedTokenSum :: "int list \<Rightarrow> int \<times> bool" where
  "checkedTokenSum values = checked_from 0 values"

definition unclassifiedLowerBound :: "int \<Rightarrow> int \<Rightarrow> int \<Rightarrow> int \<Rightarrow> int \<Rightarrow> int \<Rightarrow> int \<times> bool" where
  "unclassifiedLowerBound input output reasoning cacheRead cacheWrite cached =
     (let (cache, okCache) = checkedTokenSum [cacheRead, cacheWrite]
      in if \<not> okCache \<or> input < 0 \<or> output < 0 \<or> reasoning < 0 \<or> cached < 0 then (0, False)
         else let input1 = (if cache > input then cache else input);
                  input2 = (if cached > input1 then cached else input1);
                  output1 = (if reasoning > output then reasoning else output)
              in checkedTokenSum [input2, output1])"

definition resolveTotal :: "int \<Rightarrow> int \<Rightarrow> int \<times> bool" where
  "resolveTotal tot expected =
     (if tot < 0 \<or> expected < 0 then (0, False)
      else if tot = 0 then (expected, True)
      else (tot, tot = expected))"

section \<open>Breakdowns\<close>

definition zero_breakdown :: TokenBreakdown where
  "zero_breakdown =
     \<lparr>tok_quality = TokenAccountingOther [], tok_total = 0,
      tok_input = \<lparr>tin_total = 0, tin_uncached = 0, tin_cache_read = 0, tin_cache_write = 0\<rparr>,
      tok_output = \<lparr>tout_total = 0, tout_non_reasoning = 0, tout_reasoning = 0\<rparr>, tok_unclassified = 0\<rparr>"

definition completeBreakdown :: "int \<Rightarrow> int \<Rightarrow> int \<Rightarrow> int \<Rightarrow> int \<Rightarrow> int \<Rightarrow> TokenBreakdown" where
  "completeBreakdown input cacheRead cacheWrite output reasoning tot =
     \<lparr>tok_quality = TokenAccountingComplete, tok_total = tot,
      tok_input = \<lparr>tin_total = add64 (add64 input cacheRead) cacheWrite, tin_uncached = input,
                   tin_cache_read = cacheRead, tin_cache_write = cacheWrite\<rparr>,
      tok_output = \<lparr>tout_total = add64 output reasoning, tout_non_reasoning = output, tout_reasoning = reasoning\<rparr>,
      tok_unclassified = 0\<rparr>"

definition inconsistentBreakdown :: "int \<Rightarrow> int \<Rightarrow> TokenBreakdown" where
  "inconsistentBreakdown tot computed =
     (let total1 = (if tot \<le> 0 then computed else tot);
          total2 = (if total1 < 0 then 0 else total1)
      in zero_breakdown\<lparr>tok_quality := TokenAccountingInconsistent, tok_total := total2, tok_unclassified := total2\<rparr>)"

definition unclassifiedBreakdown :: "int \<Rightarrow> TokenBreakdown" where
  "unclassifiedBreakdown tot =
     (if tot < 0 then inconsistentBreakdown tot 0
      else if tot = 0 then zero_breakdown\<lparr>tok_quality := TokenAccountingComplete\<rparr>
      else zero_breakdown\<lparr>tok_quality := TokenAccountingUnclassified, tok_total := tot, tok_unclassified := tot\<rparr>)"

definition subsetBreakdown :: "int \<Rightarrow> int \<Rightarrow> int \<Rightarrow> int \<Rightarrow> int \<Rightarrow> int \<Rightarrow> TokenBreakdown" where
  "subsetBreakdown input cacheRead cacheWrite output reasoning tot =
     (let (expected, okExpected) = checkedTokenSum [input, output];
          (cache, okCache) = checkedTokenSum [cacheRead, cacheWrite]
      in if \<not> okExpected \<or> \<not> okCache \<or> cache > input \<or> reasoning < 0 \<or> reasoning > output
           then inconsistentBreakdown tot expected
         else if tot < 0 \<or> tot > 0 \<and> tot < expected then inconsistentBreakdown tot expected
         else let b = completeBreakdown (sub64 input cache) cacheRead cacheWrite (sub64 output reasoning) reasoning expected
              in if tot > expected
                 then if input > 0 \<and> output > 0 then inconsistentBreakdown tot expected
                      else b\<lparr>tok_quality := TokenAccountingUnclassified, tok_total := tot,
                             tok_unclassified := sub64 tot expected\<rparr>
                 else b)"

definition independentBreakdown :: "int \<Rightarrow> int \<Rightarrow> int \<Rightarrow> int \<Rightarrow> int \<Rightarrow> int \<Rightarrow> TokenBreakdown" where
  "independentBreakdown input cacheRead cacheWrite output reasoning tot =
     (let (inputTotal, okInput) = checkedTokenSum [input, cacheRead, cacheWrite];
          (outputTotal, okOutput) = checkedTokenSum [output, reasoning];
          (expected, okExpected) = checkedTokenSum [inputTotal, outputTotal]
      in if \<not> okInput \<or> \<not> okOutput \<or> \<not> okExpected then inconsistentBreakdown tot expected
         else let (resolved, okTotal) = resolveTotal tot expected
              in if \<not> okTotal then inconsistentBreakdown tot expected
                 else completeBreakdown input cacheRead cacheWrite output reasoning resolved)"

definition providerIndependentBreakdown :: "int \<Rightarrow> int \<Rightarrow> int \<Rightarrow> int \<Rightarrow> int \<Rightarrow> int \<Rightarrow> TokenBreakdown" where
  "providerIndependentBreakdown input cacheRead cacheWrite output reasoning tot =
     (let (inputTotal, okInput) = checkedTokenSum [input, cacheRead, cacheWrite];
          (separateTotal, okSeparate) = checkedTokenSum [inputTotal, output, reasoning]
      in if \<not> okInput \<or> \<not> okSeparate then inconsistentBreakdown tot 0
         else if tot = separateTotal then independentBreakdown input cacheRead cacheWrite output reasoning tot
         else if reasoning < 0 \<or> reasoning > output then inconsistentBreakdown tot 0
         else independentBreakdown input cacheRead cacheWrite (sub64 output reasoning) reasoning tot)"

definition separateReasoningBreakdown :: "int \<Rightarrow> int \<Rightarrow> int \<Rightarrow> int \<Rightarrow> int \<Rightarrow> int \<Rightarrow> TokenBreakdown" where
  "separateReasoningBreakdown input cacheRead cacheWrite output reasoning tot =
     (let (cache, okCache) = checkedTokenSum [cacheRead, cacheWrite]
      in if input < 0 \<or> \<not> okCache \<or> cache > input then inconsistentBreakdown tot 0
         else let (outputTotal, okOutput) = checkedTokenSum [output, reasoning];
                  (expected, okExpected) = checkedTokenSum [input, outputTotal]
              in if \<not> okOutput \<or> \<not> okExpected then inconsistentBreakdown tot expected
                 else let (resolved, okTotal) = resolveTotal tot expected
                      in if \<not> okTotal then inconsistentBreakdown tot expected
                         else completeBreakdown (sub64 input cache) cacheRead cacheWrite output reasoning resolved)"

definition default_breakdown :: "UsageDetail \<Rightarrow> TokenBreakdown" where
  "default_breakdown d =
     (let (lowerBound, ok) = unclassifiedLowerBound (det_input d) (det_output d) (det_reasoning d)
                               (det_cache_read d) (det_cache_write d) (det_cached d)
      in if \<not> ok then inconsistentBreakdown (det_total d) 0
         else unclassifiedBreakdown (if det_total d = 0 then lowerBound else det_total d))"

definition only_total :: "tokenSemantics \<Rightarrow> UsageDetail \<Rightarrow> bool" where
  "only_total sem d \<longleftrightarrow> det_total d > 0 \<and> det_input d = 0 \<and> det_output d = 0 \<and> det_reasoning d = 0 \<and>
     det_cache_read d = 0 \<and> det_cache_write d = 0 \<and> det_cached d = 0 \<and>
     (sem = tokenSemanticsSubset \<or> sem = tokenSemanticsUnknown)"

text \<open>Only child counters were reported: the answer, when they cannot be attributed.\<close>

definition only_children :: "tokenSemantics \<Rightarrow> UsageDetail \<Rightarrow> TokenBreakdown option" where
  "only_children sem d =
     (if det_total d = 0 \<and> det_input d = 0 \<and> det_output d = 0
      then let (lowerBound, ok) = unclassifiedLowerBound (det_input d) (det_output d) (det_reasoning d)
                                    (det_cache_read d) (det_cache_write d) (det_cached d)
           in if \<not> ok then Some (inconsistentBreakdown (det_total d) 0)
              else if lowerBound > 0 \<and> (sem = tokenSemanticsUnknown \<or> sem = tokenSemanticsSubset \<or>
                     (sem = tokenSemanticsSeparateReasoning \<and>
                        (det_cache_read d > 0 \<or> det_cache_write d > 0 \<or> det_cached d > 0)))
                then Some (unclassifiedBreakdown lowerBound)
              else None
      else None)"

definition drop_orphans :: "UsageDetail \<Rightarrow> UsageDetail" where
  "drop_orphans d =
     (let d1 = (if det_input d = 0 then d\<lparr>det_cache_read := 0, det_cache_write := 0\<rparr> else d)
      in if det_output d = 0 then d1\<lparr>det_reasoning := 0\<rparr> else d1)"

fun classified :: "tokenSemantics \<Rightarrow> UsageDetail \<Rightarrow> TokenBreakdown" where
  "classified tokenSemanticsSubset d =
     (let d1 = drop_orphans d in
      subsetBreakdown (det_input d1) (det_cache_read d1) (det_cache_write d1) (det_output d1) (det_reasoning d1) (det_total d1))"
| "classified tokenSemanticsIndependent d =
     providerIndependentBreakdown (det_input d) (det_cache_read d) (det_cache_write d) (det_output d) (det_reasoning d) (det_total d)"
| "classified tokenSemanticsSeparateReasoning d =
     separateReasoningBreakdown (det_input d) (det_cache_read d) (det_cache_write d) (det_output d) (det_reasoning d) (det_total d)"
| "classified tokenSemanticsUnknown d = default_breakdown d"

definition usageBreakdown :: "UsageRecord \<Rightarrow> TokenBreakdown" where
  "usageBreakdown r =
     (let d = ur_detail r; sem = usageSemantics (ur_provider r) (ur_executor r) in
      if \<not> usageHasTokens d then zero_breakdown
      else if only_total sem d then unclassifiedBreakdown (det_total d)
      else case only_children sem d of
             Some b \<Rightarrow> b
           | None \<Rightarrow> classified sem d)"

section \<open>The sums never wrap\<close>

lemma checked_from_ok:
  assumes "0 \<le> tot" "tot \<le> max_int64" "\<forall>v \<in> set vs. in_int64 v" "checked_from tot vs = (s, True)"
  shows "s = tot + sum_list vs \<and> (\<forall>v \<in> set vs. 0 \<le> v) \<and> tot \<le> s \<and> s \<le> max_int64"
  using assms
proof (induction vs arbitrary: tot)
  case (Cons v vs)
  from Cons.prems(4) have v: "0 \<le> v" "tot \<le> sub64 max_int64 v" and
    r: "checked_from (add64 tot v) vs = (s, True)" by (auto split: if_splits)
  have "sub64 max_int64 v = max_int64 - v"
    using v(1) Cons.prems(3) by (simp add: sub64_def wrap64_id_bounds in_int64_def)
  then have le: "tot + v \<le> max_int64" using v(2) by simp
  then have "add64 tot v = tot + v"
    using v(1) Cons.prems(1) by (simp add: add64_def wrap64_id_bounds)
  then show ?case using Cons.IH [of "tot + v"] r le v(1) Cons.prems(1,3) by auto
qed simp

lemma checked_from_fails: "checked_from tot vs = (s, False) \<Longrightarrow> s = 0"
  by (induction vs arbitrary: tot) (auto split: if_splits)

text \<open>A checked sum is the exact sum of counters that are all non-negative, or it fails with zero.\<close>

lemma checkedTokenSum_ok:
  assumes "\<forall>v \<in> set vs. in_int64 v" "checkedTokenSum vs = (s, ok)"
  shows "0 \<le> s \<and> s \<le> max_int64 \<and> (ok \<longrightarrow> s = sum_list vs \<and> (\<forall>v \<in> set vs. 0 \<le> v))"
  using checked_from_ok [of 0 vs s] checked_from_fails [of 0 vs s] assms by (cases ok) (simp_all add: checkedTokenSum_def)

lemma add64_exact: "0 \<le> a \<Longrightarrow> 0 \<le> b \<Longrightarrow> a + b \<le> max_int64 \<Longrightarrow> add64 a b = a + b"
  by (simp add: add64_def wrap64_id_bounds)

lemma sub64_exact: "0 \<le> b \<Longrightarrow> b \<le> a \<Longrightarrow> a \<le> max_int64 \<Longrightarrow> sub64 a b = a - b"
  by (simp add: sub64_def wrap64_id_bounds)

section \<open>Sound breakdowns\<close>

text \<open>The laws of \<open>Valid\<close> over exact sums: nothing wraps around, nothing is counted twice.\<close>

definition sound_breakdown :: "TokenBreakdown \<Rightarrow> bool" where
  "sound_breakdown b \<longleftrightarrow>
     token_quality_known (tok_quality b) \<and> tokens_nonneg b \<and>
     tin_total (tok_input b) = tin_uncached (tok_input b) + tin_cache_read (tok_input b) + tin_cache_write (tok_input b) \<and>
     tout_total (tok_output b) = tout_non_reasoning (tok_output b) + tout_reasoning (tok_output b) \<and>
     tok_total b = tin_total (tok_input b) + tout_total (tok_output b) + tok_unclassified b \<and>
     tok_total b \<le> max_int64 \<and> (tok_quality b = TokenAccountingComplete \<longrightarrow> tok_unclassified b = 0)"

lemma sound_breakdown_Valid: "sound_breakdown b \<Longrightarrow> Valid b"
  unfolding sound_breakdown_def Valid_def tokens_nonneg_def by (auto simp: add64_exact)

text \<open>What a report promises of its breakdown: it is sound, and a reported total is never changed.\<close>

definition accounts :: "int \<Rightarrow> TokenBreakdown \<Rightarrow> bool" where
  "accounts tot b \<longleftrightarrow> sound_breakdown b \<and> (0 < tot \<longrightarrow> tok_total b = tot) \<and>
     (tot < 0 \<longrightarrow> tok_quality b = TokenAccountingInconsistent)"

lemma inconsistent_accounts:
  "in_int64 tot \<Longrightarrow> in_int64 c \<Longrightarrow> accounts tot (inconsistentBreakdown tot c)"
  "tok_quality (inconsistentBreakdown tot c) = TokenAccountingInconsistent"
  by (auto simp: accounts_def sound_breakdown_def inconsistentBreakdown_def zero_breakdown_def tokens_nonneg_def
      token_quality_known_def in_int64_def)

lemma unclassified_accounts: "in_int64 tot \<Longrightarrow> accounts tot (unclassifiedBreakdown tot)"
  using inconsistent_accounts(1) [of tot 0]
  by (auto simp: accounts_def sound_breakdown_def unclassifiedBreakdown_def inconsistentBreakdown_def zero_breakdown_def
      tokens_nonneg_def token_quality_known_def in_int64_def)

lemma complete_sound:
  assumes "0 \<le> i" "0 \<le> r" "0 \<le> w" "0 \<le> out" "0 \<le> z" "t = i + r + w + (out + z)" "t \<le> max_int64"
  shows "sound_breakdown (completeBreakdown i r w out z t)"
  using assms add64_exact [of i r] add64_exact [of "i + r" w] add64_exact [of out z]
  by (simp add: sound_breakdown_def completeBreakdown_def tokens_nonneg_def token_quality_known_def)

text \<open>Each rule for nesting counters.\<close>

lemma resolveTotal_ok: "resolveTotal tot e = (t, True) \<Longrightarrow> t = e \<and> 0 \<le> tot \<and> 0 \<le> e \<and> (0 < tot \<longrightarrow> t = tot)"
  by (auto simp: resolveTotal_def split: if_splits)

lemma subset_accounts:
  assumes "in_int64 i" "in_int64 r" "in_int64 w" "in_int64 out" "in_int64 z" "in_int64 tot"
    and b: "b = subsetBreakdown i r w out z tot"
  shows "accounts tot b \<and> (tok_quality b = TokenAccountingComplete \<longrightarrow>
    tin_total (tok_input b) = i \<and> tin_cache_read (tok_input b) = r \<and> tin_cache_write (tok_input b) = w \<and>
    tout_total (tok_output b) = out \<and> tout_reasoning (tok_output b) = z)"
proof -
  obtain e oe where e: "checkedTokenSum [i, out] = (e, oe)" by fastforce
  obtain c oc where c: "checkedTokenSum [r, w] = (c, oc)" by fastforce
  have e': "in_int64 e" "oe \<Longrightarrow> e = i + out \<and> 0 \<le> i \<and> 0 \<le> out \<and> e \<le> max_int64"
    using checkedTokenSum_ok [OF _ e] assms(1-6) by (simp_all add: in_int64_def)
  have c': "oc \<Longrightarrow> c = r + w \<and> 0 \<le> r \<and> 0 \<le> w"
    using checkedTokenSum_ok [OF _ c] assms(1-6) by (simp_all add: in_int64_def)
  note inc = inconsistent_accounts(1) [OF assms(6) e'(1)]
  show ?thesis
  proof (cases "\<not> oe \<or> \<not> oc \<or> c > i \<or> z < 0 \<or> z > out \<or> tot < 0 \<or> tot > 0 \<and> tot < e \<or> tot > e \<and> i > 0 \<and> out > 0")
    case True
    then have "b = inconsistentBreakdown tot e"
      unfolding b subsetBreakdown_def e c by (auto simp: Let_def)
    then show ?thesis using inc inconsistent_accounts(2) by simp
  next
    case False
    have bounds: "0 \<le> c" "i \<le> max_int64" "out \<le> max_int64" using False e' c' by auto
    have s: "sub64 i c = i - c" "sub64 out z = out - z"
      using sub64_exact [of c i] sub64_exact [of z out] False bounds by auto
    have cs: "sound_breakdown (completeBreakdown (i - c) r w (out - z) z e)"
      by (rule complete_sound) (use False e' c' in auto)
    show ?thesis
    proof (cases "tot > e")
      case False2: False
      then have "b = completeBreakdown (i - c) r w (out - z) z e"
        unfolding b subsetBreakdown_def e c using False by (auto simp: s)
      then show ?thesis using cs False False2 e' c'
        by (auto simp: accounts_def completeBreakdown_def sound_breakdown_def)
    next
      case True
      have "sub64 tot e = tot - e" using sub64_exact [of e tot] True False e' assms(6) by (auto simp: in_int64_def)
      then have "b = (completeBreakdown (i - c) r w (out - z) z e)
          \<lparr>tok_quality := TokenAccountingUnclassified, tok_total := tot, tok_unclassified := tot - e\<rparr>"
        unfolding b subsetBreakdown_def e c using False True by (auto simp: s)
      then show ?thesis using cs True False assms(6)
        by (auto simp: accounts_def completeBreakdown_def sound_breakdown_def tokens_nonneg_def token_quality_known_def in_int64_def)
    qed
  qed
qed

lemma independent_accounts:
  assumes "in_int64 i" "in_int64 r" "in_int64 w" "in_int64 out" "in_int64 z" "in_int64 tot"
    and b: "b = independentBreakdown i r w out z tot"
  shows "accounts tot b \<and> (tok_quality b = TokenAccountingComplete \<longrightarrow>
    tin_uncached (tok_input b) = i \<and> tin_cache_read (tok_input b) = r \<and> tin_cache_write (tok_input b) = w \<and>
    tout_non_reasoning (tok_output b) = out \<and> tout_reasoning (tok_output b) = z)"
proof -
  obtain i1 oi where i1: "checkedTokenSum [i, r, w] = (i1, oi)" by fastforce
  obtain o1 oo where o1: "checkedTokenSum [out, z] = (o1, oo)" by fastforce
  obtain e oe where e: "checkedTokenSum [i1, o1] = (e, oe)" by fastforce
  have i1': "in_int64 i1" "oi \<Longrightarrow> i1 = i + r + w \<and> 0 \<le> i \<and> 0 \<le> r \<and> 0 \<le> w"
    using checkedTokenSum_ok [OF _ i1] assms(1-6) by (simp_all add: in_int64_def)
  have o1': "in_int64 o1" "oo \<Longrightarrow> o1 = out + z \<and> 0 \<le> out \<and> 0 \<le> z"
    using checkedTokenSum_ok [OF _ o1] assms(1-6) by (simp_all add: in_int64_def)
  have e': "in_int64 e" "oe \<Longrightarrow> e = i1 + o1 \<and> e \<le> max_int64"
    using checkedTokenSum_ok [OF _ e] i1'(1) o1'(1) by (simp_all add: in_int64_def)
  note inc = inconsistent_accounts(1) [OF assms(6) e'(1)]
  obtain t ot where t: "resolveTotal tot e = (t, ot)" by fastforce
  show ?thesis
  proof (cases "oi \<and> oo \<and> oe \<and> ot")
    case False
    then have "b = inconsistentBreakdown tot e"
      unfolding b independentBreakdown_def i1 o1 e using i1 o1 e t by (auto simp: Let_def)
    then show ?thesis using inc inconsistent_accounts(2) by simp
  next
    case True
    have bt: "b = completeBreakdown i r w out z t"
      unfolding b independentBreakdown_def using True i1 o1 e t by simp
    have t': "t = e" "0 \<le> tot" "0 < tot \<longrightarrow> t = tot" using resolveTotal_ok [of tot e t] t True by auto
    have "sound_breakdown b" unfolding bt by (rule complete_sound) (use True i1' o1' e' t' in auto)
    then show ?thesis using t' by (simp add: accounts_def bt completeBreakdown_def)
  qed
qed

lemma separate_accounts:
  assumes "in_int64 i" "in_int64 r" "in_int64 w" "in_int64 out" "in_int64 z" "in_int64 tot"
    and b: "b = separateReasoningBreakdown i r w out z tot"
  shows "accounts tot b \<and> (tok_quality b = TokenAccountingComplete \<longrightarrow>
    tin_total (tok_input b) = i \<and> tin_cache_read (tok_input b) = r \<and> tin_cache_write (tok_input b) = w \<and>
    tout_non_reasoning (tok_output b) = out \<and> tout_reasoning (tok_output b) = z)"
proof -
  obtain c oc where c: "checkedTokenSum [r, w] = (c, oc)" by fastforce
  obtain o1 oo where o1: "checkedTokenSum [out, z] = (o1, oo)" by fastforce
  obtain e oe where e: "checkedTokenSum [i, o1] = (e, oe)" by fastforce
  have c': "oc \<Longrightarrow> c = r + w \<and> 0 \<le> r \<and> 0 \<le> w"
    using checkedTokenSum_ok [OF _ c] assms(1-6) by (simp_all add: in_int64_def)
  have o1': "in_int64 o1" "oo \<Longrightarrow> o1 = out + z \<and> 0 \<le> out \<and> 0 \<le> z"
    using checkedTokenSum_ok [OF _ o1] assms(1-6) by (simp_all add: in_int64_def)
  have e': "in_int64 e" "oe \<Longrightarrow> e = i + o1 \<and> e \<le> max_int64"
    using checkedTokenSum_ok [OF _ e] assms(1) o1'(1) by (simp_all add: in_int64_def)
  obtain t ot where t: "resolveTotal tot e = (t, ot)" by fastforce
  have zero: "in_int64 0" by (simp add: in_int64_def)
  show ?thesis
  proof (cases "0 \<le> i \<and> oc \<and> c \<le> i \<and> oo \<and> oe \<and> ot")
    case False
    then have "b = inconsistentBreakdown tot 0 \<or> b = inconsistentBreakdown tot e"
      unfolding b separateReasoningBreakdown_def using c o1 e t by (auto simp: Let_def)
    then show ?thesis
      using inconsistent_accounts(1) [OF assms(6) zero] inconsistent_accounts(1) [OF assms(6) e'(1)] inconsistent_accounts(2) by auto
  next
    case True
    have s: "sub64 i c = i - c" by (rule sub64_exact) (use True c' assms(1) in \<open>auto simp: in_int64_def\<close>)
    have bt: "b = completeBreakdown (i - c) r w out z t"
      unfolding b separateReasoningBreakdown_def using True c o1 e t by (simp add: s)
    have t': "t = e" "0 \<le> tot" "0 < tot \<longrightarrow> t = tot" using resolveTotal_ok [of tot e t] t True by auto
    have sb: "sound_breakdown b" unfolding bt by (rule complete_sound) (use True c' o1' e' t' in auto)
    have "tin_total (tok_input b) = i"
      using sb c' True by (simp add: sound_breakdown_def bt completeBreakdown_def)
    then show ?thesis using t' sb by (simp add: accounts_def bt completeBreakdown_def)
  qed
qed

lemma lower_bound_ok:
  assumes "in_int64 i" "in_int64 out" "in_int64 z" "in_int64 r" "in_int64 w" "in_int64 c"
    "unclassifiedLowerBound i out z r w c = (lb, ok)"
  shows "0 \<le> lb \<and> lb \<le> max_int64 \<and> (ok \<and> lb = 0 \<longrightarrow> i = 0 \<and> out = 0 \<and> z = 0 \<and> r = 0 \<and> w = 0 \<and> c = 0)"
proof -
  obtain k ok1 where k: "checkedTokenSum [r, w] = (k, ok1)" by fastforce
  have k': "0 \<le> k" "k \<le> max_int64" "ok1 \<Longrightarrow> k = r + w \<and> 0 \<le> r \<and> 0 \<le> w"
    using checkedTokenSum_ok [OF _ k] assms(4,5) by simp_all
  show ?thesis
  proof (cases "\<not> ok1 \<or> i < 0 \<or> out < 0 \<or> z < 0 \<or> c < 0")
    case True
    then show ?thesis using assms(7) by (auto simp: unclassifiedLowerBound_def k)
  next
    case False
    define i1 where "i1 = (if k > i then k else i)"
    define i2 where "i2 = (if c > i1 then c else i1)"
    define o1 where "o1 = (if z > out then z else out)"
    have r: "checkedTokenSum [i2, o1] = (lb, ok)"
      unfolding i2_def i1_def o1_def using assms(7) False by (simp add: unclassifiedLowerBound_def k Let_def split del: if_split)
    have b: "in_int64 i2" "in_int64 o1" "i \<le> i2" "k \<le> i2" "c \<le> i2" "out \<le> o1" "z \<le> o1"
      using assms(1-6) k'(1,2) by (auto simp: i1_def i2_def o1_def in_int64_def)
    then show ?thesis using checkedTokenSum_ok [OF _ r] k' False by auto
  qed
qed

section \<open>The breakdown of a report\<close>

definition detail_in_range :: "UsageDetail \<Rightarrow> bool" where
  "detail_in_range d \<longleftrightarrow> in_int64 (det_input d) \<and> in_int64 (det_output d) \<and> in_int64 (det_reasoning d) \<and>
     in_int64 (det_cached d) \<and> in_int64 (det_cache_read d) \<and> in_int64 (det_cache_write d) \<and> in_int64 (det_total d)"

text \<open>The counters a complete breakdown bills are those the report gave, nested as its semantics say.\<close>

fun billed_as_reported :: "tokenSemantics \<Rightarrow> UsageDetail \<Rightarrow> TokenBreakdown \<Rightarrow> bool" where
  "billed_as_reported tokenSemanticsUnknown d b = False"
| "billed_as_reported tokenSemanticsSubset d b \<longleftrightarrow>
     tin_total (tok_input b) = det_input d \<and> tout_total (tok_output b) = det_output d"
| "billed_as_reported tokenSemanticsIndependent d b \<longleftrightarrow>
     tin_uncached (tok_input b) = det_input d \<and> tin_cache_read (tok_input b) = det_cache_read d \<and>
     tin_cache_write (tok_input b) = det_cache_write d \<and> tout_reasoning (tok_output b) = det_reasoning d \<and>
     det_output d \<in> {tout_total (tok_output b), tout_non_reasoning (tok_output b)}"
| "billed_as_reported tokenSemanticsSeparateReasoning d b \<longleftrightarrow>
     tin_total (tok_input b) = det_input d \<and> tout_non_reasoning (tok_output b) = det_output d \<and>
     tout_reasoning (tok_output b) = det_reasoning d"

lemma provider_independent_accounts:
  assumes "in_int64 i" "in_int64 r" "in_int64 w" "in_int64 out" "in_int64 z" "in_int64 tot"
    and b: "b = providerIndependentBreakdown i r w out z tot"
  shows "accounts tot b \<and> (tok_quality b = TokenAccountingComplete \<longrightarrow>
    tin_uncached (tok_input b) = i \<and> tin_cache_read (tok_input b) = r \<and> tin_cache_write (tok_input b) = w \<and>
    tout_reasoning (tok_output b) = z \<and> out \<in> {tout_total (tok_output b), tout_non_reasoning (tok_output b)})"
proof -
  have zero: "in_int64 0" by (simp add: in_int64_def)
  have sub: "in_int64 (sub64 out z)" by (simp add: sub64_def)
  consider "b = inconsistentBreakdown tot 0" | "b = independentBreakdown i r w out z tot"
    | "0 \<le> z" "z \<le> out" "b = independentBreakdown i r w (sub64 out z) z tot"
    unfolding b providerIndependentBreakdown_def by (fastforce split: prod.splits if_splits)
  then show ?thesis
  proof cases
    case 1
    then show ?thesis using inconsistent_accounts(1) [OF assms(6) zero] inconsistent_accounts(2) by simp
  next
    case 2
    then show ?thesis using independent_accounts [OF assms(1-6) 2] by auto
  next
    case 3
    have "sub64 out z = out - z" using sub64_exact 3(1,2) assms(4) by (simp add: in_int64_def)
    then show ?thesis
      using independent_accounts [OF assms(1-3) sub assms(5,6) 3(3)] by (auto simp: accounts_def sound_breakdown_def)
  qed
qed

lemma default_accounts:
  assumes "detail_in_range d" "usageHasTokens d"
  shows "accounts (det_total d) (default_breakdown d) \<and> tok_quality (default_breakdown d) \<noteq> TokenAccountingComplete"
proof -
  obtain lb ok where l: "unclassifiedLowerBound (det_input d) (det_output d) (det_reasoning d)
      (det_cache_read d) (det_cache_write d) (det_cached d) = (lb, ok)" by fastforce
  have lb: "0 \<le> lb" "lb \<le> max_int64" "ok \<Longrightarrow> lb = 0 \<Longrightarrow> det_total d \<noteq> 0"
    using lower_bound_ok [OF _ _ _ _ _ _ l] assms by (auto simp: detail_in_range_def usageHasTokens_def)
  have tot: "in_int64 (det_total d)" using assms(1) by (simp add: detail_in_range_def)
  have inc: "accounts (det_total d) (inconsistentBreakdown (det_total d) 0)"
    by (rule inconsistent_accounts(1) [OF tot]) (simp add: in_int64_def)
  have un: "accounts t (unclassifiedBreakdown t) \<and> (t \<noteq> 0 \<longrightarrow> tok_quality (unclassifiedBreakdown t) \<noteq> TokenAccountingComplete)"
    if "in_int64 t" for t
    using unclassified_accounts [OF that] by (simp add: unclassifiedBreakdown_def inconsistent_accounts(2) zero_breakdown_def)
  show ?thesis
  proof (cases "ok \<and> det_total d = 0")
    case True
    then have "default_breakdown d = unclassifiedBreakdown lb" by (simp add: default_breakdown_def l)
    moreover have "in_int64 lb" using lb by (simp add: in_int64_def)
    ultimately show ?thesis using un [of lb] lb(3) True by (auto simp: accounts_def)
  next
    case False
    then have "default_breakdown d \<in> {inconsistentBreakdown (det_total d) 0, unclassifiedBreakdown (det_total d)} \<and>
        (default_breakdown d = unclassifiedBreakdown (det_total d) \<longrightarrow>
          det_total d \<noteq> 0 \<or> default_breakdown d = inconsistentBreakdown (det_total d) 0)"
      by (auto simp: default_breakdown_def l)
    then show ?thesis using inc un [OF tot] inconsistent_accounts(2) by auto
  qed
qed

lemma classified_accounts:
  assumes "detail_in_range d" "usageHasTokens d"
  shows "accounts (det_total d) (classified sem d) \<and>
    (tok_quality (classified sem d) = TokenAccountingComplete \<longrightarrow> billed_as_reported sem d (classified sem d))"
proof (cases sem)
  case tokenSemanticsSubset
  define d1 where "d1 = drop_orphans d"
  have r: "in_int64 (det_input d1)" "in_int64 (det_cache_read d1)" "in_int64 (det_cache_write d1)" "in_int64 (det_output d1)"
      "in_int64 (det_reasoning d1)" "in_int64 (det_total d1)"
    and e: "det_input d1 = det_input d" "det_output d1 = det_output d" "det_total d1 = det_total d"
    using assms(1) by (auto simp: d1_def drop_orphans_def detail_in_range_def in_int64_def Let_def)
  show ?thesis using subset_accounts [OF r refl] tokenSemanticsSubset by (simp add: e flip: d1_def)
next
  case tokenSemanticsIndependent
  then show ?thesis using provider_independent_accounts [OF _ _ _ _ _ _ refl] assms(1) by (simp add: detail_in_range_def)
next
  case tokenSemanticsSeparateReasoning
  then show ?thesis using separate_accounts [OF _ _ _ _ _ _ refl] assms(1) by (simp add: detail_in_range_def)
next
  case tokenSemanticsUnknown
  then show ?thesis using default_accounts [OF assms] by simp
qed

lemma only_children_accounts:
  assumes "detail_in_range d" "only_children sem d = Some b"
  shows "accounts (det_total d) b \<and> tok_quality b \<noteq> TokenAccountingComplete"
proof -
  obtain lb ok where l: "unclassifiedLowerBound (det_input d) (det_output d) (det_reasoning d)
      (det_cache_read d) (det_cache_write d) (det_cached d) = (lb, ok)" by fastforce
  have lb: "in_int64 lb" using lower_bound_ok [OF _ _ _ _ _ _ l] assms(1) by (simp add: detail_in_range_def in_int64_def)
  have "det_total d = 0 \<and> (b = inconsistentBreakdown 0 0 \<or> 0 < lb \<and> b = unclassifiedBreakdown lb)"
    using assms(2) unfolding only_children_def l by (auto split: if_splits)
  moreover have "accounts 0 (inconsistentBreakdown 0 0)" by (rule inconsistent_accounts(1)) (simp_all add: in_int64_def)
  moreover have "0 < lb \<Longrightarrow> tok_quality (unclassifiedBreakdown lb) = TokenAccountingUnclassified"
    by (simp add: unclassifiedBreakdown_def)
  ultimately show ?thesis using unclassified_accounts [OF lb] by (auto simp: accounts_def inconsistent_accounts(2))
qed

lemma usageBreakdown_accounts:
  assumes "detail_in_range (ur_detail r)" "usageHasTokens (ur_detail r)"
  shows "accounts (det_total (ur_detail r)) (usageBreakdown r) \<and>
    (tok_quality (usageBreakdown r) = TokenAccountingComplete \<longrightarrow>
       billed_as_reported (usageSemantics (ur_provider r) (ur_executor r)) (ur_detail r) (usageBreakdown r))"
proof -
  define sem where "sem = usageSemantics (ur_provider r) (ur_executor r)"
  have u: "usageBreakdown r = (if only_total sem (ur_detail r) then unclassifiedBreakdown (det_total (ur_detail r))
      else case only_children sem (ur_detail r) of Some b \<Rightarrow> b | None \<Rightarrow> classified sem (ur_detail r))"
    using assms(2) unfolding usageBreakdown_def Let_def sem_def by simp
  consider "only_total sem (ur_detail r)" "usageBreakdown r = unclassifiedBreakdown (det_total (ur_detail r))"
    | b where "only_children sem (ur_detail r) = Some b" "usageBreakdown r = b"
    | "usageBreakdown r = classified sem (ur_detail r)"
    using u that by (cases "only_total sem (ur_detail r)"; cases "only_children sem (ur_detail r)") simp_all
  then have "accounts (det_total (ur_detail r)) (usageBreakdown r) \<and>
    (tok_quality (usageBreakdown r) = TokenAccountingComplete \<longrightarrow> billed_as_reported sem (ur_detail r) (usageBreakdown r))"
  proof cases
    case 1
    have "accounts (det_total (ur_detail r)) (usageBreakdown r)"
      unfolding 1(2) by (rule unclassified_accounts) (use assms(1) in \<open>simp add: detail_in_range_def\<close>)
    moreover have "0 < det_total (ur_detail r)" using 1(1) by (simp add: only_total_def)
    ultimately show ?thesis by (simp add: 1(2) unclassifiedBreakdown_def)
  next
    case 2
    then show ?thesis using only_children_accounts [OF assms(1) 2(1)] by simp
  next
    case 3
    then show ?thesis using classified_accounts [OF assms] by simp
  qed
  then show ?thesis by (simp add: sem_def)
qed

lemma zero_not_valid: "\<not> Valid zero_breakdown"
  by (simp add: Valid_def zero_breakdown_def token_quality_known_def)

text \<open>The recorded total always fits 64 bits, which is what the store asks of an event.\<close>

lemma usageBreakdown_total: "detail_in_range (ur_detail r) \<Longrightarrow> in_int64 (tok_total (usageBreakdown r))"
  using usageBreakdown_accounts [of r]
  by (cases "usageHasTokens (ur_detail r)")
    (auto simp: accounts_def sound_breakdown_def tokens_nonneg_def in_int64_def usageBreakdown_def zero_breakdown_def)


definition sample_report :: UsageRecord where
  "sample_report =
     \<lparr>ur_provider = ''Claude'', ur_executor = ''claude'', ur_model = ''m'', ur_alias = ''m'', ur_api_key = ''sk-a'',
      ur_auth_index = [], ur_auth_type = [], ur_source = [], ur_reasoning_effort = [], ur_service_tier = [],
      ur_generate = True, ur_requested_at = 0, ur_latency = 0, ur_ttft = 0, ur_failed = False,
      ur_failure = \<lparr>uf_status = 0, uf_body = []\<rparr>,
      ur_detail = \<lparr>det_input = 10, det_output = 7, det_reasoning = 2, det_cached = 5, det_cache_read = 5,
                   det_cache_write = 1, det_total = 23\<rparr>\<rparr>"


end
