(* ===== verification/GoJson.thy ===== *)
theory GoJson
  imports Strconv Sha256
begin

text \<open>
  What the program uses of \<^verbatim>\<open>encoding/json\<close> to write values: \<open>json.Marshal\<close> of strings, integers,
  booleans, slices, structs and string-keyed maps (which are written in the order of their keys). Strings are
  escaped as Go escapes them by default: control characters, quotes and backslashes, the characters
  \<open><\<close>, \<open>>\<close> and \<open>&\<close>, the line separators U+2028 and U+2029; a byte that is not UTF-8 becomes U+FFFD.
\<close>

datatype json =
  JNull | JBool bool | JNum int | JStr string | JList "json list" | JObj "(string \<times> json) list"

definition json_u00 :: "nat \<Rightarrow> string" where
  "json_u00 b = [CHR 0x5C] @ ''u00'' @ [hex_digit (b div 16), hex_digit (b mod 16)]"

definition json_ascii :: "nat \<Rightarrow> string" where
  "json_ascii b =
     (if b = 34 \<or> b = 92 then [CHR 0x5C, char_of b]
      else if b = 8 then [CHR 0x5C, CHR ''b'']
      else if b = 12 then [CHR 0x5C, CHR ''f'']
      else if b = 10 then [CHR 0x5C, CHR ''n'']
      else if b = 13 then [CHR 0x5C, CHR ''r'']
      else if b = 9 then [CHR 0x5C, CHR ''t'']
      else if b < 32 \<or> b = 60 \<or> b = 62 \<or> b = 38 then json_u00 b
      else [char_of b])"

definition json_bad :: string where
  "json_bad = [CHR 0x5C] @ ''ufffd''"

definition json_three :: "nat \<Rightarrow> nat \<Rightarrow> nat \<Rightarrow> string" where
  "json_three a b c =
     (if a = 226 \<and> b = 128 \<and> (c = 168 \<or> c = 169) then [CHR 0x5C] @ ''u202'' @ [hex_digit (c mod 16)]
      else [char_of a, char_of b, char_of c])"

fun json_text :: "nat list \<Rightarrow> string" where
  "json_text [] = []"
| "json_text (a # rest) =
     (if a < 128 then json_ascii a @ json_text rest
      else case rest of
        [] \<Rightarrow> json_bad
      | b # rest2 \<Rightarrow>
          if 194 \<le> a \<and> a \<le> 223 \<and> cont b then [char_of a, char_of b] @ json_text rest2
          else case rest2 of
            [] \<Rightarrow> json_bad @ json_text rest
          | c # rest3 \<Rightarrow>
              if 224 \<le> a \<and> a \<le> 239 \<and> cont b \<and> cont c \<and> (a = 224 \<longrightarrow> 160 \<le> b) \<and> (a = 237 \<longrightarrow> b \<le> 159)
              then json_three a b c @ json_text rest3
              else case rest3 of
                [] \<Rightarrow> json_bad @ json_text rest
              | d # rest4 \<Rightarrow>
                  if 240 \<le> a \<and> a \<le> 244 \<and> cont b \<and> cont c \<and> cont d \<and> (a = 240 \<longrightarrow> 144 \<le> b) \<and> (a = 244 \<longrightarrow> b \<le> 143)
                  then [char_of a, char_of b, char_of c, char_of d] @ json_text rest4
                  else json_bad @ json_text rest)"

definition json_string :: "string \<Rightarrow> string" where
  "json_string s = ''\"'' @ json_text (map of_char s) @ ''\"''"

definition commas :: "string list \<Rightarrow> string" where
  "commas ps = (case ps of [] \<Rightarrow> [] | p # rest \<Rightarrow> p @ concat (map (\<lambda>q. '','' @ q) rest))"

fun marshal :: "json \<Rightarrow> string" where
  "marshal JNull = ''null''"
| "marshal (JBool b) = (if b then ''true'' else ''false'')"
| "marshal (JNum n) = FormatInt n"
| "marshal (JStr s) = json_string s"
| "marshal (JList xs) = ''['' @ commas (map marshal xs) @ '']''"
| "marshal (JObj fs) = ''{'' @ commas (map (\<lambda>(k, v). json_string k @ '':'' @ marshal v) fs) @ ''}''"

definition JStrs :: "string list \<Rightarrow> json" where
  "JStrs xs = JList (map JStr xs)"

text \<open>The text never contains a raw control character, so it can stand in one line of a log.\<close>

lemma json_ascii_visible: "ch \<in> set (json_ascii b) \<Longrightarrow> b < 128 \<Longrightarrow> 32 \<le> (of_char ch :: nat)"
  by (auto simp: json_ascii_def json_u00_def hex_digit_def split: if_splits)

end
