(* ===== verification/Routing.thy ===== *)
theory Routing
  imports Identity
begin

text \<open>
  Routing rules of \<^verbatim>\<open>internal/billing/routing.go\<close>: allow and deny selections over models and
  credentials, their normalisation, and the merge of the rules bound to a key into one decision. A slice that
  is nil and an empty one are the same list. The operations that edit routes and bindings in the store are in
  \<^verbatim>\<open>RouteOps\<close>.
\<close>

section \<open>Data\<close>

datatype CredentialProviderSelector = Selector (sel_source: string) (sel_provider: string)

text \<open>The order of the merge: by source, then by provider.\<close>

instantiation CredentialProviderSelector :: linorder
begin

definition less_CredentialProviderSelector :: "CredentialProviderSelector \<Rightarrow> CredentialProviderSelector \<Rightarrow> bool" where
  "less_CredentialProviderSelector a b \<longleftrightarrow>
     (if sel_source a \<noteq> sel_source b then sel_source a < sel_source b else sel_provider a < sel_provider b)"

definition less_eq_CredentialProviderSelector :: "CredentialProviderSelector \<Rightarrow> CredentialProviderSelector \<Rightarrow> bool" where
  "less_eq_CredentialProviderSelector a b \<longleftrightarrow> a = b \<or> a < b"

instance
proof
  fix x y z :: CredentialProviderSelector
  show "(x < y) = (x \<le> y \<and> \<not> y \<le> x)"
    by (cases x; cases y) (auto simp: less_CredentialProviderSelector_def less_eq_CredentialProviderSelector_def)
  show "x \<le> x" by (simp add: less_eq_CredentialProviderSelector_def)
  show "x \<le> y \<Longrightarrow> y \<le> z \<Longrightarrow> x \<le> z"
    by (cases x; cases y; cases z)
      (auto simp: less_CredentialProviderSelector_def less_eq_CredentialProviderSelector_def split: if_splits)
  show "x \<le> y \<Longrightarrow> y \<le> x \<Longrightarrow> x = y"
    by (cases x; cases y)
      (auto simp: less_CredentialProviderSelector_def less_eq_CredentialProviderSelector_def split: if_splits)
  show "x \<le> y \<or> y \<le> x"
    by (cases x; cases y)
      (auto simp: less_CredentialProviderSelector_def less_eq_CredentialProviderSelector_def)
qed

end

record RouteRule =
  rr_models :: "string list"
  rr_credential_ids :: "string list"
  rr_credential_providers :: "CredentialProviderSelector list"
  rr_denied_models :: "string list"
  rr_denied_credential_ids :: "string list"
  rr_denied_credential_providers :: "CredentialProviderSelector list"

record RouteBindings =
  rb_route_ids :: "string list"
  rb_rule :: RouteRule

record Route =
  rte_id :: string
  rte_name :: string
  rte_rule :: RouteRule

record RoutingDecision =
  rd_rule :: RouteRule
  rd_model :: string
  rd_error :: string

definition empty_rule :: RouteRule where
  "empty_rule = \<lparr>rr_models = [], rr_credential_ids = [], rr_credential_providers = [],
     rr_denied_models = [], rr_denied_credential_ids = [], rr_denied_credential_providers = []\<rparr>"

definition no_bindings :: RouteBindings where
  "no_bindings = \<lparr>rb_route_ids = [], rb_rule = empty_rule\<rparr>"

section \<open>What a decision allows\<close>

definition containsRouteValue :: "string list \<Rightarrow> string \<Rightarrow> bool" where
  "containsRouteValue values v \<longleftrightarrow> list_ex (\<lambda>item. EqualFold item v) values"

definition RestrictsModels :: "RoutingDecision \<Rightarrow> bool" where
  "RestrictsModels d \<longleftrightarrow> rr_models (rd_rule d) \<noteq> [] \<or> rr_denied_models (rd_rule d) \<noteq> []"

definition AllowsModel :: "RoutingDecision \<Rightarrow> bool" where
  "AllowsModel d \<longleftrightarrow>
     (if rd_error d \<noteq> [] then False
      else if rd_model d = [] then True
      else \<not> containsRouteValue (rr_denied_models (rd_rule d)) (rd_model d) \<and>
           (rr_models (rd_rule d) = [] \<or> containsRouteValue (rr_models (rd_rule d)) (rd_model d)))"

definition RestrictsCredentials :: "RoutingDecision \<Rightarrow> bool" where
  "RestrictsCredentials d \<longleftrightarrow>
     rr_credential_ids (rd_rule d) \<noteq> [] \<or> rr_credential_providers (rd_rule d) \<noteq> [] \<or>
     rr_denied_credential_ids (rd_rule d) \<noteq> [] \<or> rr_denied_credential_providers (rd_rule d) \<noteq> []"

definition normalized_selector :: "string \<Rightarrow> string \<Rightarrow> CredentialProviderSelector" where
  "normalized_selector source provider = Selector (ToLower (TrimSpace source)) (ToLower (TrimSpace provider))"

definition denied_matches :: "CredentialProviderSelector \<Rightarrow> CredentialProviderSelector \<Rightarrow> bool" where
  "denied_matches selector denied \<longleftrightarrow>
     (sel_source selector = [] \<or> sel_source selector = sel_source denied) \<and>
     (sel_provider selector = [] \<or> sel_provider selector = sel_provider denied)"

definition AllowsCredential :: "RoutingDecision \<Rightarrow> string \<Rightarrow> string \<Rightarrow> string \<Rightarrow> bool" where
  "AllowsCredential d ref source provider \<longleftrightarrow>
     (let selector = normalized_selector source provider; r = rd_rule d
      in if rd_error d \<noteq> [] \<or> containsRouteValue (rr_denied_credential_ids r) ref then False
         else if list_ex (denied_matches selector) (rr_denied_credential_providers r) then False
         else (rr_credential_ids r = [] \<and> rr_credential_providers r = []) \<or>
              containsRouteValue (rr_credential_ids r) ref \<or> selector \<in> set (rr_credential_providers r))"

definition CredentialRefs :: "RouteRule \<Rightarrow> string list" where
  "CredentialRefs r = rr_credential_ids r @ rr_denied_credential_ids r"

definition CredentialFingerprint :: "string \<Rightarrow> string" where
  "CredentialFingerprint rawID = ''sha256:'' @ sha256_hex (''cpa-key-billing:credential:v1'' @ [CHR 0x00] @ rawID)"

definition is_hex :: "char \<Rightarrow> bool" where
  "is_hex c \<longleftrightarrow> is_lower_hex c \<or> (CHR ''A'' \<le> c \<and> c \<le> CHR ''F'')"

definition ValidCredentialFingerprint :: "string \<Rightarrow> bool" where
  "ValidCredentialFingerprint v \<longleftrightarrow>
     length v = 71 \<and> take 7 v = ''sha256:'' \<and> list_all is_hex (drop 7 v)"

section \<open>Normalisation\<close>

definition maxRouteNameBytes :: nat where "maxRouteNameBytes = 128"
definition maxRouteValueBytes :: nat where "maxRouteValueBytes = 512"

definition normalizeCredentialProviderSelector ::
  "CredentialProviderSelector \<Rightarrow> error + CredentialProviderSelector" where
  "normalizeCredentialProviderSelector item =
     (let item = normalized_selector (sel_source item) (sel_provider item)
      in if sel_source item \<noteq> ''auth-files'' \<and> sel_source item \<noteq> ''ai-providers''
         then Inl (invalidf ''credential source must be auth-files or ai-providers'')
         else if sel_provider item = [] \<or> length (sel_provider item) > maxRouteValueBytes \<or>
           list_ex (\<lambda>c. c \<in> {CHR ''*'', CHR ''['', CHR '']'', CHR 0x00}) (sel_provider item)
         then Inl (invalidf ''invalid provider'')
         else Inr item)"

fun normalize_providers_loop ::
  "CredentialProviderSelector list \<Rightarrow> CredentialProviderSelector list \<Rightarrow> error + CredentialProviderSelector list" where
  "normalize_providers_loop result [] = Inr result"
| "normalize_providers_loop result (item # rest) =
     (case normalizeCredentialProviderSelector item of
        Inl e \<Rightarrow> Inl e
      | Inr item \<Rightarrow>
          if item \<in> set result then normalize_providers_loop result rest
          else normalize_providers_loop (result @ [item]) rest)"

definition normalizeCredentialProviders ::
  "CredentialProviderSelector list \<Rightarrow> error + CredentialProviderSelector list" where
  "normalizeCredentialProviders values = normalize_providers_loop [] values"

fun normalize_strings_loop :: "string list \<Rightarrow> string list \<Rightarrow> string list \<Rightarrow> error + string list" where
  "normalize_strings_loop seen result [] = Inr result"
| "normalize_strings_loop seen result (v # rest) =
     (let value = TrimSpace v
      in if value = [] \<or> length value > maxRouteValueBytes then Inl (invalidf ''invalid route option'')
         else let key = ToLower value
              in if key \<in> set seen then normalize_strings_loop seen result rest
                 else normalize_strings_loop (key # seen) (result @ [value]) rest)"

definition normalizeRouteStrings :: "string list \<Rightarrow> error + string list" where
  "normalizeRouteStrings values = normalize_strings_loop [] [] values"

definition normalizeCredentialIDs :: "string list \<Rightarrow> error + string list" where
  "normalizeCredentialIDs values =
     try_bind (normalizeRouteStrings values)
       (try_map (\<lambda>value. if \<not> ValidCredentialFingerprint value then Inl (invalidf ''invalid credential reference'')
                 else Inr (ToLower value)))"

definition normalizeRouteSelection ::
  "'a list \<Rightarrow> 'a list \<Rightarrow> ('a list \<Rightarrow> error + 'a list) \<Rightarrow> ('a \<Rightarrow> 'a \<Rightarrow> bool) \<Rightarrow> error + 'a list \<times> 'a list" where
  "normalizeRouteSelection allow deny nrm eq =
     try_bind (nrm allow) (\<lambda>allow. try_bind (nrm deny) (\<lambda>deny.
       if list_ex (\<lambda>value. list_ex (\<lambda>item. eq item value) allow) deny
       then Inl (invalidf ''the same entry is both allowed and denied'')
       else Inr (allow, deny)))"

definition NormalizeRouteRule :: "RouteRule \<Rightarrow> error + RouteRule" where
  "NormalizeRouteRule rule =
     try_bind (normalizeRouteSelection (rr_models rule) (rr_denied_models rule) normalizeRouteStrings EqualFold) (\<lambda>(ms, dms).
     try_bind (normalizeRouteSelection (rr_credential_ids rule) (rr_denied_credential_ids rule) normalizeCredentialIDs EqualFold) (\<lambda>(cs, dcs).
     try_bind (normalizeRouteSelection (rr_credential_providers rule) (rr_denied_credential_providers rule) normalizeCredentialProviders (=)) (\<lambda>(ps, dps).
       Inr \<lparr>rr_models = ms, rr_credential_ids = cs, rr_credential_providers = ps,
            rr_denied_models = dms, rr_denied_credential_ids = dcs, rr_denied_credential_providers = dps\<rparr>)))"

definition NormalizeRouteBindings :: "RouteBindings \<Rightarrow> error + RouteBindings" where
  "NormalizeRouteBindings bindings =
     try_bind (normalizeRouteStrings (rb_route_ids bindings)) (\<lambda>ids.
     try_bind (NormalizeRouteRule (rb_rule bindings)) (\<lambda>rule.
       Inr \<lparr>rb_route_ids = ids, rb_rule = rule\<rparr>))"

definition NormalizeRoute :: "Route \<Rightarrow> error + Route" where
  "NormalizeRoute route =
     (let rid = TrimSpace (rte_id route)
      in if rid = [] then Inl (invalidf ''route id must not be empty'')
         else let name = TrimSpace (rte_name route)
              in if name = [] then Inl (invalidf ''route name must not be empty'')
                 else if length name > maxRouteNameBytes then Inl (invalidf ''route name too long'')
                 else try_bind (NormalizeRouteRule (rte_rule route)) (\<lambda>rule.
                        Inr \<lparr>rte_id = rid, rte_name = name, rte_rule = rule\<rparr>))"

section \<open>Resolution\<close>

definition findRouteIndex :: "Route list \<Rightarrow> string \<Rightarrow> nat option" where
  "findRouteIndex routes rid =
     (let t = TrimSpace rid in find (\<lambda>i. rte_id (routes ! i) = t) [0..<length routes])"

definition findRoute :: "Route list \<Rightarrow> string \<Rightarrow> Route option" where
  "findRoute routes rid = map_option (\<lambda>i. routes ! i) (findRouteIndex routes rid)"

definition merge_rule :: "RouteRule \<Rightarrow> RouteRule \<Rightarrow> RouteRule" where
  "merge_rule d rule =
     \<lparr>rr_models = rr_models d @ rr_models rule,
      rr_credential_ids = rr_credential_ids d @ rr_credential_ids rule,
      rr_credential_providers = rr_credential_providers d @ rr_credential_providers rule,
      rr_denied_models = rr_denied_models d @ rr_denied_models rule,
      rr_denied_credential_ids = rr_denied_credential_ids d @ rr_denied_credential_ids rule,
      rr_denied_credential_providers = rr_denied_credential_providers d @ rr_denied_credential_providers rule\<rparr>"

text \<open>\<open>slices.CompactFunc\<close> drops each element that equals its predecessor.\<close>

fun compact_from :: "('a \<Rightarrow> 'a \<Rightarrow> bool) \<Rightarrow> 'a \<Rightarrow> 'a list \<Rightarrow> 'a list" where
  "compact_from eq p [] = []"
| "compact_from eq p (x # xs) = (if eq x p then compact_from eq x xs else x # compact_from eq x xs)"

fun compact :: "('a \<Rightarrow> 'a \<Rightarrow> bool) \<Rightarrow> 'a list \<Rightarrow> 'a list" where
  "compact eq [] = []"
| "compact eq (x # xs) = x # compact_from eq x xs"

definition tidy_strings :: "string list \<Rightarrow> string list" where
  "tidy_strings values = compact EqualFold (sort_key ToLower values)"

definition tidy_selectors :: "CredentialProviderSelector list \<Rightarrow> CredentialProviderSelector list" where
  "tidy_selectors values = compact (=) (sort values)"

text \<open>The rules of the bound routes in order, up to the first route that no longer exists.\<close>

fun merge_routes :: "Route list \<Rightarrow> RouteRule \<Rightarrow> string list \<Rightarrow> string option \<times> RouteRule" where
  "merge_routes routes d [] = (None, d)"
| "merge_routes routes d (rid # ids) =
     (case findRoute routes rid of
        None \<Rightarrow> (Some rid, d)
      | Some route \<Rightarrow> merge_routes routes (merge_rule d (rte_rule route)) ids)"

text \<open>\<open>resolveRoutingState\<close> reads \<open>state.Routes\<close> and the bindings of the key, \<open>None\<close> for a nil key.\<close>

definition resolveRoutingState :: "Route list \<Rightarrow> RouteBindings option \<Rightarrow> RoutingDecision" where
  "resolveRoutingState routes key =
     (case key of
        None \<Rightarrow> \<lparr>rd_rule = empty_rule, rd_model = [], rd_error = []\<rparr>
      | Some b \<Rightarrow>
          (case merge_routes routes empty_rule (rb_route_ids b) of
             (Some rid, d) \<Rightarrow> \<lparr>rd_rule = d, rd_model = [], rd_error = ''missing route '' @ rid\<rparr>
           | (None, d) \<Rightarrow>
               let r = merge_rule d (rb_rule b)
               in \<lparr>rd_rule = \<lparr>rr_models = tidy_strings (rr_models r),
                     rr_credential_ids = tidy_strings (rr_credential_ids r),
                     rr_credential_providers = tidy_selectors (rr_credential_providers r),
                     rr_denied_models = tidy_strings (rr_denied_models r),
                     rr_denied_credential_ids = tidy_strings (rr_denied_credential_ids r),
                     rr_denied_credential_providers = tidy_selectors (rr_denied_credential_providers r)\<rparr>,
                   rd_model = [], rd_error = []\<rparr>))"

definition routingRestricted :: "Route list \<Rightarrow> RouteBindings \<Rightarrow> bool" where
  "routingRestricted routes b \<longleftrightarrow>
     (let d = resolveRoutingState routes (Some b)
      in rd_error d \<noteq> [] \<or> RestrictsModels d \<or> RestrictsCredentials d)"

section \<open>Lemmas\<close>

lemma EqualFold_sym: "EqualFold a b = EqualFold b a"
  by (auto simp: EqualFold_def)

lemma EqualFold_trans: "EqualFold a b \<Longrightarrow> EqualFold b c \<Longrightarrow> EqualFold a c"
  by (simp add: EqualFold_def)

lemma containsRouteValue_iff: "containsRouteValue vs v \<longleftrightarrow> (\<exists>x\<in>set vs. EqualFold x v)"
  by (auto simp: containsRouteValue_def list_ex_iff)

lemma compact_from_set: "set (compact_from eq p xs) \<subseteq> set xs"
  by (induction xs arbitrary: p) auto

lemma compact_from_rep:
  "x \<in> set xs \<Longrightarrow> \<exists>y \<in> insert p (set (compact_from (\<lambda>a b. f a = f b) p xs)). f y = f x"
proof (induction xs arbitrary: p)
  case Nil
  then show ?case by simp
next
  case (Cons a xs)
  show ?case
  proof (cases "x = a")
    case True
    then show ?thesis by auto
  next
    case False
    with Cons.prems have "x \<in> set xs" by simp
    from Cons.IH [OF this, of a] show ?thesis by auto
  qed
qed

text \<open>Compacting by a key keeps a representative of every value.\<close>

lemma compact_keys: "f ` set (compact (\<lambda>a b. f a = f b) xs) = f ` set xs"
proof (cases xs)
  case (Cons a ys)
  have "f x \<in> f ` insert a (set (compact_from (\<lambda>a b. f a = f b) a ys))" if "x \<in> set ys" for x
    using compact_from_rep [OF that, of a f] by (metis imageI)
  then have "f ` set ys \<subseteq> f ` insert a (set (compact_from (\<lambda>a b. f a = f b) a ys))" by blast
  with Cons compact_from_set [of "\<lambda>a b. f a = f b" a ys] show ?thesis by auto
qed simp

lemma tidy_strings_fold: "ToLower ` set (tidy_strings xs) = ToLower ` set xs"
  using compact_keys [of ToLower "sort_key ToLower xs"]
  by (simp add: tidy_strings_def EqualFold_def [abs_def])

lemma set_tidy_selectors [simp]: "set (tidy_selectors xs) = set xs"
  using compact_keys [of "\<lambda>x. x" "sort xs"] by (simp add: tidy_selectors_def)

lemma containsRouteValue_tidy [simp]: "containsRouteValue (tidy_strings xs) v = containsRouteValue xs v"
proof -
  have *: "containsRouteValue vs v \<longleftrightarrow> ToLower v \<in> ToLower ` set vs" for vs
    by (auto simp: containsRouteValue_iff EqualFold_def image_iff eq_commute)
  show ?thesis by (simp add: * tidy_strings_fold)
qed

lemma tidy_strings_Nil [simp]: "tidy_strings xs = [] \<longleftrightarrow> xs = []"
  using tidy_strings_fold [of xs] by fastforce

lemma tidy_selectors_Nil [simp]: "tidy_selectors xs = [] \<longleftrightarrow> xs = []"
  using set_tidy_selectors [of xs] by (metis set_empty)

text \<open>The rules a key is governed by: those of its routes, then its own.\<close>

definition bound_rules :: "Route list \<Rightarrow> RouteBindings \<Rightarrow> RouteRule list" where
  "bound_rules routes b =
     map (\<lambda>rid. rte_rule (the (findRoute routes rid))) (rb_route_ids b) @ [rb_rule b]"

definition all_routes_exist :: "Route list \<Rightarrow> RouteBindings \<Rightarrow> bool" where
  "all_routes_exist routes b \<longleftrightarrow> (\<forall>rid \<in> set (rb_route_ids b). findRoute routes rid \<noteq> None)"

lemma merge_routes_foldl:
  "\<forall>rid \<in> set ids. findRoute routes rid \<noteq> None \<Longrightarrow>
     merge_routes routes d ids = (None, foldl merge_rule d (map (\<lambda>rid. rte_rule (the (findRoute routes rid))) ids))"
  by (induction ids arbitrary: d) auto

lemma merge_routes_missing:
  "\<exists>rid \<in> set ids. findRoute routes rid = None \<Longrightarrow> \<exists>rid. fst (merge_routes routes d ids) = Some rid"
  by (induction ids arbitrary: d) (auto split: option.splits)

lemma foldl_merge_rule:
  "foldl merge_rule d rs =
    \<lparr>rr_models = rr_models d @ concat (map rr_models rs),
     rr_credential_ids = rr_credential_ids d @ concat (map rr_credential_ids rs),
     rr_credential_providers = rr_credential_providers d @ concat (map rr_credential_providers rs),
     rr_denied_models = rr_denied_models d @ concat (map rr_denied_models rs),
     rr_denied_credential_ids = rr_denied_credential_ids d @ concat (map rr_denied_credential_ids rs),
     rr_denied_credential_providers =
       rr_denied_credential_providers d @ concat (map rr_denied_credential_providers rs)\<rparr>"
  by (induction rs arbitrary: d) (auto simp: merge_rule_def)

lemma resolve_bound:
  assumes "all_routes_exist routes b"
  shows "rd_error (resolveRoutingState routes (Some b)) = []"
    "rd_rule (resolveRoutingState routes (Some b)) =
       \<lparr>rr_models = tidy_strings (concat (map rr_models (bound_rules routes b))),
        rr_credential_ids = tidy_strings (concat (map rr_credential_ids (bound_rules routes b))),
        rr_credential_providers = tidy_selectors (concat (map rr_credential_providers (bound_rules routes b))),
        rr_denied_models = tidy_strings (concat (map rr_denied_models (bound_rules routes b))),
        rr_denied_credential_ids = tidy_strings (concat (map rr_denied_credential_ids (bound_rules routes b))),
        rr_denied_credential_providers =
          tidy_selectors (concat (map rr_denied_credential_providers (bound_rules routes b)))\<rparr>"
  using assms
  by (simp_all add: all_routes_exist_def resolveRoutingState_def merge_routes_foldl foldl_merge_rule Let_def
      bound_rules_def merge_rule_def empty_rule_def)

lemma resolve_missing:
  "\<not> all_routes_exist routes b \<Longrightarrow> rd_error (resolveRoutingState routes (Some b)) \<noteq> []"
  using merge_routes_missing [of "rb_route_ids b" routes empty_rule]
  by (force simp: all_routes_exist_def resolveRoutingState_def split: prod.splits option.splits)

text \<open>What one rule says about a credential.\<close>

definition rule_denies :: "RouteRule \<Rightarrow> string \<Rightarrow> CredentialProviderSelector \<Rightarrow> bool" where
  "rule_denies r ref sel \<longleftrightarrow>
     containsRouteValue (rr_denied_credential_ids r) ref \<or>
     (\<exists>d \<in> set (rr_denied_credential_providers r). denied_matches sel d)"

definition rule_selects :: "RouteRule \<Rightarrow> bool" where
  "rule_selects r \<longleftrightarrow> rr_credential_ids r \<noteq> [] \<or> rr_credential_providers r \<noteq> []"

definition rule_allows :: "RouteRule \<Rightarrow> string \<Rightarrow> CredentialProviderSelector \<Rightarrow> bool" where
  "rule_allows r ref sel \<longleftrightarrow>
     containsRouteValue (rr_credential_ids r) ref \<or> sel \<in> set (rr_credential_providers r)"

lemma containsRouteValue_concat:
  "containsRouteValue (concat (map f rs)) v \<longleftrightarrow> (\<exists>r\<in>set rs. containsRouteValue (f r) v)"
  by (auto simp: containsRouteValue_iff)

lemma allows_credential_resolve:
  "AllowsCredential (resolveRoutingState routes (Some b)) ref source provider \<longleftrightarrow>
     all_routes_exist routes b \<and>
     (let sel = normalized_selector source provider; rules = set (bound_rules routes b)
      in (\<forall>r \<in> rules. \<not> rule_denies r ref sel) \<and>
         ((\<forall>r \<in> rules. \<not> rule_selects r) \<or> (\<exists>r \<in> rules. rule_allows r ref sel)))"
proof (cases "all_routes_exist routes b")
  case False
  then show ?thesis using resolve_missing [of routes b] by (simp add: AllowsCredential_def Let_def)
next
  case True
  show ?thesis
    using True
    by (auto simp: AllowsCredential_def Let_def resolve_bound containsRouteValue_concat list_ex_iff
        rule_denies_def rule_selects_def rule_allows_def)
qed

lemma allows_model_resolve:
  assumes "m \<noteq> []"
  shows "AllowsModel ((resolveRoutingState routes (Some b))\<lparr>rd_model := m\<rparr>) \<longleftrightarrow>
     all_routes_exist routes b \<and>
     (\<forall>r \<in> set (bound_rules routes b). \<not> containsRouteValue (rr_denied_models r) m) \<and>
     ((\<forall>r \<in> set (bound_rules routes b). rr_models r = []) \<or>
      (\<exists>r \<in> set (bound_rules routes b). containsRouteValue (rr_models r) m))"
proof (cases "all_routes_exist routes b")
  case False
  then show ?thesis using resolve_missing [of routes b] by (simp add: AllowsModel_def Let_def)
next
  case True
  then show ?thesis
    using assms by (auto simp: AllowsModel_def Let_def resolve_bound containsRouteValue_concat)
qed

text \<open>C21: deny beats allow across all rules bound to a key. A credential may serve it exactly when every bound
  route exists, no rule denies the credential or its class, and either no rule names any credential or some
  rule names this one.\<close>

theorem routing_allows_credential:
  "AllowsCredential (resolveRoutingState routes (Some b)) ref source provider \<longleftrightarrow>
     all_routes_exist routes b \<and>
     (let sel = normalized_selector source provider; rules = set (bound_rules routes b)
      in (\<forall>r \<in> rules. \<not> rule_denies r ref sel) \<and>
         ((\<forall>r \<in> rules. \<not> rule_selects r) \<or> (\<exists>r \<in> rules. rule_allows r ref sel)))"
  by (rule allows_credential_resolve)

definition two_refs_route :: Route where
  "two_refs_route = \<lparr>rte_id = ''r'', rte_name = ''r'', rte_rule = empty_rule\<lparr>rr_credential_ids := [''a'', ''b'']\<rparr>\<rparr>"

definition deny_one :: RouteBindings where
  "deny_one = \<lparr>rb_route_ids = [''r''], rb_rule = empty_rule\<lparr>rr_denied_credential_ids := [''a'']\<rparr>\<rparr>"

lemma trim_letter: "TrimSpace ''r'' = ''r''"
  by (rule TrimSpace_visible) (simp add: visible_def)

lemma bound_rules_example:
  "bound_rules [two_refs_route] deny_one = [rte_rule two_refs_route, rb_rule deny_one]" "all_routes_exist [two_refs_route] deny_one"
  by (simp_all add: bound_rules_def all_routes_exist_def deny_one_def two_refs_route_def findRoute_def findRouteIndex_def Let_def trim_letter)

theorem routing_allows_credential_witness:
  "\<not> AllowsCredential (resolveRoutingState [two_refs_route] (Some deny_one)) ''a'' ''cpa'' ''x'' \<and>
   AllowsCredential (resolveRoutingState [two_refs_route] (Some deny_one)) ''b'' ''cpa'' ''x'' \<and>
   \<not> AllowsCredential (resolveRoutingState [two_refs_route] (Some deny_one)) ''c'' ''cpa'' ''x''"
  by (simp only: routing_allows_credential bound_rules_example Let_def)
    (simp add: rule_denies_def rule_selects_def rule_allows_def containsRouteValue_iff
      deny_one_def two_refs_route_def empty_rule_def EqualFold_def ToLower_def lower_byte_def is_upper_def)

section \<open>Normalised rules\<close>

definition fold_distinct :: "string list \<Rightarrow> bool" where
  "fold_distinct vs \<longleftrightarrow> distinct (map ToLower vs)"

definition route_strings_ok :: "string list \<Rightarrow> bool" where
  "route_strings_ok vs \<longleftrightarrow>
     fold_distinct vs \<and> (\<forall>v \<in> set vs. TrimSpace v = v \<and> v \<noteq> [] \<and> length v \<le> maxRouteValueBytes)"

lemma normalize_strings_loop_ok:
  assumes "normalize_strings_loop seen result vs = Inr out" "set seen = set (map ToLower result)" "route_strings_ok result"
  shows "route_strings_ok out"
  using assms
proof (induction vs arbitrary: seen result)
  case (Cons v rest)
  let ?v = "TrimSpace v"
  have v: "?v \<noteq> []" "length ?v \<le> maxRouteValueBytes" using Cons.prems(1) by (auto simp: Let_def split: if_splits)
  show ?case
  proof (cases "ToLower ?v \<in> set seen")
    case True
    then have "normalize_strings_loop seen result rest = Inr out" using Cons.prems(1) v by (simp add: Let_def)
    then show ?thesis using Cons.prems(2,3) by (rule Cons.IH)
  next
    case False
    then have "normalize_strings_loop (ToLower ?v # seen) (result @ [?v]) rest = Inr out"
      using Cons.prems(1) v by (simp add: Let_def)
    moreover have "route_strings_ok (result @ [?v])"
      using Cons.prems(2,3) v False by (auto simp: route_strings_ok_def fold_distinct_def)
    ultimately show ?thesis using Cons.prems(2) by (intro Cons.IH) auto
  qed
qed simp

lemma normalizeRouteStrings_ok: "normalizeRouteStrings vs = Inr out \<Longrightarrow> route_strings_ok out"
  unfolding normalizeRouteStrings_def
  by (erule normalize_strings_loop_ok) (simp_all add: route_strings_ok_def fold_distinct_def)

lemma normalize_strings_loop_id:
  assumes "route_strings_ok (result @ vs)" "set seen = set (map ToLower result)"
  shows "normalize_strings_loop seen result vs = Inr (result @ vs)"
  using assms
proof (induction vs arbitrary: seen result)
  case (Cons v vs)
  then have v: "TrimSpace v = v" "v \<noteq> []" "length v \<le> maxRouteValueBytes" "ToLower v \<notin> set seen"
    by (auto simp: route_strings_ok_def fold_distinct_def)
  have "route_strings_ok ((result @ [v]) @ vs)" using Cons.prems by simp
  from Cons.IH [OF this, of "ToLower v # seen"] v Cons.prems show ?case by (simp add: not_less)
qed simp

lemma normalizeRouteStrings_id: "route_strings_ok vs \<Longrightarrow> normalizeRouteStrings vs = Inr vs"
  using normalize_strings_loop_id [of "[]" vs "[]"] by (simp add: normalizeRouteStrings_def)

definition selectors_ok :: "CredentialProviderSelector list \<Rightarrow> bool" where
  "selectors_ok ps \<longleftrightarrow> distinct ps \<and> (\<forall>p \<in> set ps. normalizeCredentialProviderSelector p = Inr p)"

lemma normalized_selector_idem:
  "normalized_selector (sel_source (normalized_selector a b)) (sel_provider (normalized_selector a b)) = normalized_selector a b"
  using trimmed_ToLower [of "TrimSpace a"] trimmed_ToLower [of "TrimSpace b"]
  by (simp add: normalized_selector_def TrimSpace_id)

lemma normalizeCredentialProviderSelector_idem:
  "normalizeCredentialProviderSelector p = Inr q \<Longrightarrow> normalizeCredentialProviderSelector q = Inr q"
proof -
  assume p: "normalizeCredentialProviderSelector p = Inr q"
  then have q: "q = normalized_selector (sel_source p) (sel_provider p)"
    by (simp add: normalizeCredentialProviderSelector_def Let_def split: if_splits)
  then have n: "normalized_selector (sel_source q) (sel_provider q) = q" by (simp only: normalized_selector_idem)
  from p show ?thesis
    unfolding normalizeCredentialProviderSelector_def q [symmetric] n .
qed

lemma normalize_providers_loop_ok:
  assumes "normalize_providers_loop result ps = Inr out" "selectors_ok result"
  shows "selectors_ok out"
  using assms
proof (induction ps arbitrary: result)
  case (Cons item rest)
  then obtain q where q: "normalizeCredentialProviderSelector item = Inr q" by (auto split: sum.splits)
  show ?case
  proof (cases "q \<in> set result")
    case True
    then have "normalize_providers_loop result rest = Inr out" using Cons.prems(1) q by simp
    then show ?thesis using Cons.prems(2) by (rule Cons.IH)
  next
    case False
    then have "normalize_providers_loop (result @ [q]) rest = Inr out" using Cons.prems(1) q by simp
    moreover have "selectors_ok (result @ [q])"
      using Cons.prems(2) False normalizeCredentialProviderSelector_idem [OF q] by (simp add: selectors_ok_def)
    ultimately show ?thesis by (rule Cons.IH)
  qed
qed simp

lemma normalize_providers_loop_id:
  "selectors_ok (result @ ps) \<Longrightarrow> normalize_providers_loop result ps = Inr (result @ ps)"
proof (induction ps arbitrary: result)
  case (Cons p ps)
  then have "selectors_ok ((result @ [p]) @ ps)" by simp
  from Cons.IH [OF this] Cons.prems show ?case by (simp add: selectors_ok_def)
qed simp

definition fingerprints_ok :: "string list \<Rightarrow> bool" where
  "fingerprints_ok vs \<longleftrightarrow>
     route_strings_ok vs \<and> (\<forall>v \<in> set vs. ValidCredentialFingerprint v \<and> ToLower v = v)"

lemma is_hex_lower: "is_hex c \<Longrightarrow> is_hex (lower_byte c)"
proof (cases "is_upper c")
  case True
  assume h: "is_hex c"
  then have "of_char c \<le> (70 :: nat)" "(65 :: nat) \<le> of_char c"
    using is_upper_bounds [OF True] by (auto simp: is_hex_def is_lower_hex_def less_eq_char_def)
  then show ?thesis
    using lower_byte_upper [OF True] by (simp add: is_hex_def is_lower_hex_def less_eq_char_def)
qed (simp add: lower_byte_other)

lemma ValidCredentialFingerprint_lower:
  assumes "ValidCredentialFingerprint v"
  shows "ValidCredentialFingerprint (ToLower v)"
proof -
  have t: "take 7 (ToLower v) = ''sha256:''"
    using assms by (simp add: ValidCredentialFingerprint_def ToLower_def take_map)
      (simp add: lower_byte_def is_upper_def less_eq_char_def)
  have "list_all is_hex (drop 7 (ToLower v))"
    using assms is_hex_lower by (auto simp: ValidCredentialFingerprint_def ToLower_def drop_map list_all_iff)
  then show ?thesis using assms t by (simp add: ValidCredentialFingerprint_def)
qed

lemma CredentialFingerprint_valid: "ValidCredentialFingerprint (CredentialFingerprint raw)"
  using sha256_hex_lower
  by (auto simp: ValidCredentialFingerprint_def CredentialFingerprint_def is_hex_def list_all_iff)

lemma normalizeCredentialIDs_ok:
  assumes "normalizeCredentialIDs vs = Inr out"
  shows "fingerprints_ok out"
proof -
  obtain ss where ss: "normalizeRouteStrings vs = Inr ss"
      "try_map (\<lambda>value. if \<not> ValidCredentialFingerprint value then Inl (invalidf ''invalid credential reference'')
                 else Inr (ToLower value)) ss = Inr out"
    using assms by (auto simp: normalizeCredentialIDs_def)
  have r: "list_all2 (\<lambda>x y. ValidCredentialFingerprint x \<and> y = ToLower x) ss out"
    using try_map_Inr [OF ss(2)] by (rule list_all2_mono) (auto split: if_splits)
  then have out: "out = map ToLower ss" and val: "\<forall>x\<in>set ss. ValidCredentialFingerprint x"
    by (induction ss out rule: list_all2_induct) auto
  have "route_strings_ok ss" using ss(1) by (rule normalizeRouteStrings_ok)
  then have "route_strings_ok out"
    by (auto simp: out route_strings_ok_def fold_distinct_def comp_def TrimSpace_ToLower)
  then show ?thesis using val by (auto simp: fingerprints_ok_def out ValidCredentialFingerprint_lower)
qed

lemma normalizeCredentialIDs_id: "fingerprints_ok vs \<Longrightarrow> normalizeCredentialIDs vs = Inr vs"
proof -
  assume ok: "fingerprints_ok vs"
  have "try_map (\<lambda>value. if \<not> ValidCredentialFingerprint value then Inl (invalidf ''invalid credential reference'')
                 else Inr (ToLower value)) ws = Inr ws" if "set ws \<subseteq> set vs" for ws
    using that ok by (induction ws) (auto simp: fingerprints_ok_def)
  then show ?thesis using ok by (simp add: normalizeCredentialIDs_def normalizeRouteStrings_id fingerprints_ok_def)
qed

definition fold_disjoint :: "string list \<Rightarrow> string list \<Rightarrow> bool" where
  "fold_disjoint xs ys \<longleftrightarrow> ToLower ` set xs \<inter> ToLower ` set ys = {}"

definition rule_normal :: "RouteRule \<Rightarrow> bool" where
  "rule_normal r \<longleftrightarrow>
     route_strings_ok (rr_models r) \<and> route_strings_ok (rr_denied_models r) \<and>
     fold_disjoint (rr_models r) (rr_denied_models r) \<and>
     fingerprints_ok (rr_credential_ids r) \<and> fingerprints_ok (rr_denied_credential_ids r) \<and>
     fold_disjoint (rr_credential_ids r) (rr_denied_credential_ids r) \<and>
     selectors_ok (rr_credential_providers r) \<and> selectors_ok (rr_denied_credential_providers r) \<and>
     set (rr_credential_providers r) \<inter> set (rr_denied_credential_providers r) = {}"

lemma normalizeRouteSelection_Inr:
  "normalizeRouteSelection a d nrm eq = Inr (a', d') \<longleftrightarrow>
     nrm a = Inr a' \<and> nrm d = Inr d' \<and> (\<forall>v \<in> set d'. \<forall>i \<in> set a'. \<not> eq i v)"
  by (auto simp: normalizeRouteSelection_def list_ex_iff split: if_splits)

lemma no_fold_pair: "(\<forall>v \<in> set d. \<forall>i \<in> set a. \<not> EqualFold i v) \<longleftrightarrow> fold_disjoint a d"
  by (auto simp: fold_disjoint_def EqualFold_def)

lemma NormalizeRouteRule_Inr:
  "NormalizeRouteRule r = Inr r' \<longleftrightarrow>
     normalizeRouteSelection (rr_models r) (rr_denied_models r) normalizeRouteStrings EqualFold = Inr (rr_models r', rr_denied_models r') \<and>
     normalizeRouteSelection (rr_credential_ids r) (rr_denied_credential_ids r) normalizeCredentialIDs EqualFold
       = Inr (rr_credential_ids r', rr_denied_credential_ids r') \<and>
     normalizeRouteSelection (rr_credential_providers r) (rr_denied_credential_providers r) normalizeCredentialProviders (=)
       = Inr (rr_credential_providers r', rr_denied_credential_providers r')"
  by (cases r') (auto simp: NormalizeRouteRule_def)

lemma rule_normal_normalize: "NormalizeRouteRule r = Inr r' \<Longrightarrow> rule_normal r'"
  unfolding NormalizeRouteRule_Inr normalizeRouteSelection_Inr rule_normal_def no_fold_pair
  using normalizeRouteStrings_ok normalizeCredentialIDs_ok normalize_providers_loop_ok [of "[]"]
  by (auto simp: normalizeCredentialProviders_def selectors_ok_def)

lemma normalize_rule_normal: "rule_normal r \<Longrightarrow> NormalizeRouteRule r = Inr r"
  unfolding NormalizeRouteRule_Inr normalizeRouteSelection_Inr rule_normal_def no_fold_pair
  using normalize_providers_loop_id [of "[]"]
  by (auto simp: normalizeRouteStrings_id normalizeCredentialIDs_id normalizeCredentialProviders_def)

text \<open>C23: a normalised rule names every entry once, never both allows and denies one, holds only valid
  lower-case credential references and known classes, and normalising it again changes nothing.\<close>

theorem NormalizeRouteRule_normal:
  "NormalizeRouteRule r = Inr r' \<Longrightarrow> rule_normal r' \<and> NormalizeRouteRule r' = Inr r'"
  using rule_normal_normalize normalize_rule_normal by blast

theorem NormalizeRouteRule_normal_witness:
  "NormalizeRouteRule (empty_rule\<lparr>rr_models := [''gpt'']\<rparr>) = Inr (empty_rule\<lparr>rr_models := [''gpt'']\<rparr>)"
proof -
  have "TrimSpace ''gpt'' = ''gpt''" "TrimSpace '' gpt'' = ''gpt''"
    by (rule TrimSpace_visible, simp add: visible_def)
      (simp add: TrimSpace_def trim_left_def trim_right_def strip_front.simps white_space_def)
  then have "NormalizeRouteRule (empty_rule\<lparr>rr_models := ['' gpt'']\<rparr>) = Inr (empty_rule\<lparr>rr_models := [''gpt'']\<rparr>)"
    by (simp add: NormalizeRouteRule_def empty_rule_def normalizeRouteSelection_def normalizeRouteStrings_def
        normalizeCredentialIDs_def normalizeCredentialProviders_def maxRouteValueBytes_def)
  then show ?thesis using NormalizeRouteRule_normal by blast
qed

end
