(* ===== verification/Scheduler.thy ===== *)
theory Scheduler
  imports UsageTokens GoJson Routing
begin

text \<open>
  \<^verbatim>\<open>internal/plugin/scheduler.go\<close>: the smooth weighted round robin over the credentials a request may
  use. A pool of credentials is kept per downstream key, model and routing rule; each holds a running credit and
  a weight per credential. A pick adds every weight to its credit, takes the highest credit and charges the sum of
  the weights to it. Credits and sums are \<open>int64\<close>. The Go map of pools is an association list; the pointer to a
  pool's state is the entry itself, written back after the pick.
\<close>

definition maxPoolsPerKey :: nat where "maxPoolsPerKey = 256"
definition maxCredentialsPerPool :: nat where "maxCredentialsPerPool = 1024"

record subsetScheduleState =
  sch_current :: "int smap"
  sch_weights :: "int smap"

type_synonym pools = "subsetScheduleState smap"
type_synonym scheduler = "pools smap"

definition candidateWeight :: "SchedulerAuthCandidate \<Rightarrow> int" where
  "candidateWeight c =
     (let raw = TrimSpace (cand_attribute c ''weight'')
      in if raw = [] then 1
         else case ParseInt raw of
                None \<Rightarrow> 0
              | Some w \<Rightarrow> if w \<le> 0 then 0 else w)"

text \<open>The rule of a decision, written without its models; its other slices are never nil.\<close>

definition selector_json :: "CredentialProviderSelector \<Rightarrow> json" where
  "selector_json s = JObj [(''source'', JStr (sel_source s)), (''provider'', JStr (sel_provider s))]"

definition policy_json :: "RouteRule \<Rightarrow> json" where
  "policy_json r = JObj
     [(''models'', JNull),
      (''credential_ids'', JStrs (rr_credential_ids r)),
      (''credential_providers'', JList (map selector_json (rr_credential_providers r))),
      (''denied_models'', JNull),
      (''denied_credential_ids'', JStrs (rr_denied_credential_ids r)),
      (''denied_credential_providers'', JList (map selector_json (rr_denied_credential_providers r)))]"

definition routingPoolKey :: "string \<Rightarrow> RoutingDecision \<Rightarrow> string" where
  "routingPoolKey model d =
     ToLower (TrimSpace model) @ [CHR 0x00] @ sha256_hex (marshal (policy_json (rd_rule d)))"

definition credit :: "int smap \<Rightarrow> string \<Rightarrow> int" where
  "credit m i = (case map_of m i of None \<Rightarrow> 0 | Some v \<Rightarrow> v)"

definition set_weights :: "SchedulerAuthCandidate list \<Rightarrow> int smap \<Rightarrow> int smap" where
  "set_weights cs m = fold (\<lambda>c. AList.update (cand_id c) (candidateWeight c)) cs m"

text \<open>The loop over the candidates: the selected one, its score, the sum of the weights and the new credits.\<close>

fun pick_loop :: "int smap \<Rightarrow> string list \<Rightarrow> string \<Rightarrow> int \<Rightarrow> int \<Rightarrow> int smap \<Rightarrow> string \<times> int \<times> int smap" where
  "pick_loop ws [] selected highest tot cur = (selected, tot, cur)"
| "pick_loop ws (i # is) selected highest tot cur =
     (let w = credit ws i;
          score = add64 (credit cur i) w;
          cur' = AList.update i score cur
      in if selected = [] \<or> score > highest \<or> (score = highest \<and> i < selected)
         then pick_loop ws is i score (add64 tot w) cur'
         else pick_loop ws is selected highest (add64 tot w) cur')"

definition pick_state :: "string list \<Rightarrow> int smap \<Rightarrow> subsetScheduleState \<Rightarrow> string \<times> subsetScheduleState" where
  "pick_state ids weights st =
     (let changed = (\<exists>i \<in> set ids. case map_of (sch_weights st) i of None \<Rightarrow> False | Some old \<Rightarrow> old \<noteq> credit weights i);
          ws = fold (\<lambda>i. AList.update i (credit weights i)) ids (sch_weights st);
          cur = (if changed then [] else sch_current st);
          crowded = (length cur > maxCredentialsPerPool);
          cur1 = (if crowded then fold (\<lambda>i. AList.update i (credit cur i)) ids [] else cur);
          ws1 = (if crowded then fold (\<lambda>i. AList.update i (credit ws i)) ids [] else ws)
      in case pick_loop ws1 ids [] 0 0 cur1 of
           (selected, tot, cur2) \<Rightarrow>
             (selected, \<lparr>sch_current = AList.update selected (sub64 (credit cur2 selected) tot) cur2, sch_weights = ws1\<rparr>))"

definition positive_candidates :: "SchedulerAuthCandidate list \<Rightarrow> SchedulerAuthCandidate list" where
  "positive_candidates cs = filter (\<lambda>c. candidateWeight c > 0) cs"

definition pick :: "string \<Rightarrow> string \<Rightarrow> SchedulerAuthCandidate list \<Rightarrow> scheduler \<Rightarrow> string \<times> scheduler" where
  "pick scope pool candidates s =
     (let positive = positive_candidates candidates;
          weights = set_weights positive []
      in case positive of
           [] \<Rightarrow> ([], s)
         | [c] \<Rightarrow> (cand_id c, s)
         | _ \<Rightarrow>
             let ids = sort (map cand_id positive);
                 pools = (case map_of s scope of None \<Rightarrow> [] | Some ps \<Rightarrow> ps);
                 (pools1, st) =
                   (case map_of pools pool of
                      Some st \<Rightarrow> (pools, st)
                    | None \<Rightarrow> (if length pools \<ge> maxPoolsPerKey then [] else pools, \<lparr>sch_current = [], sch_weights = []\<rparr>));
                 (selected, st') = pick_state ids weights st
             in (selected, AList.update scope (AList.update pool st' pools1) s))"

definition prune :: "string list \<Rightarrow> scheduler \<Rightarrow> scheduler" where
  "prune scopes s = filter (\<lambda>(scope, ps). scope \<in> set scopes) s"

section \<open>One pick\<close>

lemma credit_update [simp]: "credit (AList.update i v m) j = (if j = i then v else credit m j)"
  by (simp add: credit_def)

lemma map_of_fold_update:
  "map_of (fold (\<lambda>i. AList.update i (g i)) ids m) k = (if k \<in> set ids then Some (g k) else map_of m k)"
  by (induction ids arbitrary: m) auto

lemma credit_fold_update:
  "credit (fold (\<lambda>i. AList.update i (g i)) ids m) k = (if k \<in> set ids then g k else credit m k)"
  by (simp add: credit_def map_of_fold_update)

lemma set_weights_outside: "i \<notin> cand_id ` set cs \<Longrightarrow> credit (set_weights cs m) i = credit m i"
  by (induction cs arbitrary: m) (simp_all add: set_weights_def)

lemma set_weights_credit:
  "distinct (map cand_id cs) \<Longrightarrow> c \<in> set cs \<Longrightarrow> credit (set_weights cs m) (cand_id c) = candidateWeight c"
proof (induction cs arbitrary: m)
  case (Cons d cs)
  have step: "set_weights (d # cs) m = set_weights cs (AList.update (cand_id d) (candidateWeight d) m)"
    by (simp add: set_weights_def)
  show ?case
  proof (cases "c = d")
    case True
    then show ?thesis using Cons.prems(1) set_weights_outside [of "cand_id d" cs] by (simp add: step)
  next
    case False
    then show ?thesis using Cons by (simp add: step)
  qed
qed simp

text \<open>The loop adds every weight once and selects a highest score; no sum wraps around.\<close>

lemma pick_loop_spec:
  assumes "distinct is" "[] \<notin> set is" "sel \<notin> set is" "0 \<le> tot" "tot + (\<Sum>i\<leftarrow>is. credit ws i) \<le> max_int64"
    "\<forall>i \<in> set is. 0 < credit ws i \<and> in_int64 (credit cur i + credit ws i)"
    "pick_loop ws is sel high tot cur = (sel', tot', cur')"
  shows "tot' = tot + (\<Sum>i\<leftarrow>is. credit ws i) \<and>
    (\<forall>k. credit cur' k = credit cur k + (if k \<in> set is then credit ws k else 0)) \<and>
    (is \<noteq> [] \<or> sel \<noteq> [] \<longrightarrow> sel' \<noteq> [] \<and> sel' \<in> insert sel (set is)) \<and>
    (let best = (if sel' \<in> set is then credit cur sel' + credit ws sel' else high)
     in (sel \<noteq> [] \<longrightarrow> high \<le> best) \<and> (\<forall>i \<in> set is. credit cur i + credit ws i \<le> best))"
  using assms
proof (induction "is" arbitrary: sel high tot cur)
  case Nil
  then show ?case by (simp add: Let_def)
next
  case (Cons i "is")
  define score where "score = credit cur i + credit ws i"
  define cur1 where "cur1 = AList.update i score cur"
  have ci: "add64 (credit cur i) (credit ws i) = score"
    using Cons.prems(6) by (simp add: add64_def wrap64_id score_def)
  have pos: "0 \<le> (\<Sum>i\<leftarrow>is. credit ws i)" using Cons.prems(6) by (intro sum_list_nonneg) force
  have w: "0 < credit ws i" using Cons.prems(6) by simp
  have ti: "add64 tot (credit ws i) = tot + credit ws i"
    using Cons.prems(4,5) pos w by (intro add64_exact) simp_all
  define better where "better \<longleftrightarrow> sel = [] \<or> score > high \<or> (score = high \<and> i < sel)"
  have "pick_loop ws (i # is) sel high tot cur =
      (if better then pick_loop ws is i score (tot + credit ws i) cur1 else pick_loop ws is sel high (tot + credit ws i) cur1)"
    unfolding better_def cur1_def by (simp only: pick_loop.simps Let_def ci ti)
  then have run: "pick_loop ws is (if better then i else sel) (if better then score else high) (tot + credit ws i) cur1 = (sel', tot', cur')"
    using Cons.prems(7) by (cases better) simp_all
  have same: "k \<in> set is \<Longrightarrow> credit cur1 k = credit cur k" for k using Cons.prems(1) by (auto simp: cur1_def)
  have eq: "(if sel' \<in> set is then credit cur1 sel' + credit ws sel' else x) =
      (if sel' \<in> set is then credit cur sel' + credit ws sel' else x)" for x by (simp add: same)
  have "tot' = tot + credit ws i + (\<Sum>i\<leftarrow>is. credit ws i) \<and>
    (\<forall>k. credit cur' k = credit cur1 k + (if k \<in> set is then credit ws k else 0)) \<and>
    (is \<noteq> [] \<or> (if better then i else sel) \<noteq> [] \<longrightarrow> sel' \<noteq> [] \<and> sel' \<in> insert (if better then i else sel) (set is)) \<and>
    (let best = (if sel' \<in> set is then credit cur1 sel' + credit ws sel' else (if better then score else high))
     in ((if better then i else sel) \<noteq> [] \<longrightarrow> (if better then score else high) \<le> best) \<and>
        (\<forall>i \<in> set is. credit cur1 i + credit ws i \<le> best))"
    by (rule Cons.IH [OF _ _ _ _ _ _ run]) (use Cons.prems w pos in \<open>auto simp: same\<close>)
  then have sum: "tot' = tot + credit ws i + (\<Sum>i\<leftarrow>is. credit ws i)"
    and cr: "\<And>k. credit cur' k = credit cur1 k + (if k \<in> set is then credit ws k else 0)"
    and sel': "(if better then i else sel) \<noteq> [] \<Longrightarrow> sel' \<noteq> [] \<and> sel' \<in> insert (if better then i else sel) (set is)"
    and best: "(if better then i else sel) \<noteq> [] \<Longrightarrow>
        (if better then score else high) \<le> (if sel' \<in> set is then credit cur sel' + credit ws sel' else if better then score else high)"
      "\<And>j. j \<in> set is \<Longrightarrow>
        credit cur j + credit ws j \<le> (if sel' \<in> set is then credit cur sel' + credit ws sel' else if better then score else high)"
    by (simp_all add: Let_def same eq del: insert_iff)
  have inz: "i \<noteq> []" "i \<noteq> sel" "i \<notin> set is" using Cons.prems(1-3) by auto
  have nz: "(if better then i else sel) \<noteq> []" using inz by (auto simp: better_def)
  have pick: "sel' \<noteq> []" "sel' \<in> insert sel (set (i # is))" using sel' [OF nz] by (auto split: if_splits)
  have keep: "(if sel' \<in> set is then credit cur sel' + credit ws sel' else if better then score else high)
      = (if sel' \<in> set (i # is) then credit cur sel' + credit ws sel' else high)"
    using sel' [OF nz] inz Cons.prems(3) by (cases better) (auto simp: score_def)
  have b1: "sel \<noteq> [] \<Longrightarrow> high \<le> (if better then score else high)" "score \<le> (if better then score else high)"
    by (auto simp: better_def)
  note best' = best [unfolded keep]
  have fin: "credit cur' k = credit cur k + (if k \<in> set (i # is) then credit ws k else 0)" for k
    using cr [of k] inz by (simp add: cur1_def score_def)
  show ?case unfolding Let_def
    using sum fin pick best'(1) [OF nz] best'(2) b1 by (auto simp: score_def)
qed

lemma sum_bound:
  fixes f :: "'a \<Rightarrow> int"
  assumes "finite A" "i \<in> A" "(\<Sum>j\<in>A. f j) = 0" "\<And>j. j \<in> A \<Longrightarrow> - W < f j"
  shows "f i + W \<le> int (card A) * W"
proof -
  have "f i + W \<le> (\<Sum>j\<in>A. f j + W)"
    by (rule member_le_sum [OF assms(2)]) (use assms(1,4) in force)+
  also have "\<dots> = int (card A) * W" using assms(3) by (simp add: sum.distrib)
  finally show ?thesis .
qed

lemma sum_adjust:
  fixes f w :: "'a \<Rightarrow> int"
  assumes "finite A" "s \<in> A"
  shows "(\<Sum>i\<in>A. f i + w i - (if i = s then W else 0)) = (\<Sum>i\<in>A. f i) + (\<Sum>i\<in>A. w i) - W"
  using assms by (simp add: sum_subtractf sum.distrib)

text \<open>The credits of the pool are \<open>f\<close> and its weights those of the candidates, where it knows them.\<close>

definition tracks :: "string set \<Rightarrow> (string \<Rightarrow> int) \<Rightarrow> subsetScheduleState \<Rightarrow> (string \<Rightarrow> int) \<Rightarrow> bool" where
  "tracks A w st f \<longleftrightarrow>
     (\<forall>i \<in> A. map_of (sch_weights st) i \<in> {None, Some (w i)} \<and> credit (sch_current st) i = f i)"

text \<open>Credits that add up to zero, none of them a whole round behind.\<close>

definition balanced :: "string set \<Rightarrow> (string \<Rightarrow> int) \<Rightarrow> (string \<Rightarrow> int) \<Rightarrow> bool" where
  "balanced A w f \<longleftrightarrow> (\<Sum>i\<in>A. f i) = 0 \<and> (\<forall>i \<in> A. - sum w A < f i)"

definition charge :: "string set \<Rightarrow> (string \<Rightarrow> int) \<Rightarrow> string \<Rightarrow> (string \<Rightarrow> int) \<Rightarrow> string \<Rightarrow> int" where
  "charge A w s f i = f i + w i - (if i = s then sum w A else 0)"

lemma charge_balanced:
  assumes "finite A" "s \<in> A" "balanced A w f" "\<And>i. i \<in> A \<Longrightarrow> 0 < w i" "\<And>i. i \<in> A \<Longrightarrow> f i + w i \<le> f s + w s"
  shows "balanced A w (charge A w s f)"
proof -
  have pos: "0 < sum w A" using assms(1,2,4) by (intro sum_pos) auto
  have sum: "(\<Sum>i\<in>A. f i + w i) = sum w A" using assms(3) by (simp add: balanced_def sum.distrib)
  have "0 < f s + w s"
  proof (rule ccontr)
    assume "\<not> 0 < f s + w s"
    then have "(\<Sum>i\<in>A. f i + w i) \<le> 0" using assms(5) by (intro sum_nonpos) force
    then show False using sum pos by simp
  qed
  then have "- sum w A < charge A w s f i" if "i \<in> A" for i
    using assms(3,4) that by (fastforce simp: charge_def balanced_def)
  moreover have "(\<Sum>i\<in>A. charge A w s f i) = 0"
    using sum_adjust [OF assms(1,2), of f w "sum w A"] assms(3) by (simp add: charge_def balanced_def)
  ultimately show ?thesis by (simp add: balanced_def)
qed

lemma pick_state_spec:
  assumes "distinct ids" "[] \<notin> set ids" "ids \<noteq> []" "\<And>i. i \<in> set ids \<Longrightarrow> 0 < credit weights i"
    "int (length ids) * sum (credit weights) (set ids) \<le> max_int64"
    "tracks (set ids) (credit weights) st f" "balanced (set ids) (credit weights) f"
    "pick_state ids weights st = (s, st')"
  shows "s \<in> set ids \<and> tracks (set ids) (credit weights) st' (charge (set ids) (credit weights) s f) \<and>
    balanced (set ids) (credit weights) (charge (set ids) (credit weights) s f) \<and>
    (\<forall>i \<in> set ids. f i + credit weights i \<le> f s + credit weights s)"
proof -
  let ?A = "set ids" and ?w = "credit weights"
  define W where "W = sum ?w ?A"
  have pos: "0 < W" unfolding W_def using assms(3,4) by (intro sum_pos) auto
  have card: "card ?A = length ids" using assms(1) by (simp add: distinct_card)
  define ws where "ws = fold (\<lambda>i. AList.update i (?w i)) ids (sch_weights st)"
  define cur where "cur = sch_current st"
  define crowded where "crowded \<longleftrightarrow> length cur > maxCredentialsPerPool"
  define cur1 where "cur1 = (if crowded then fold (\<lambda>i. AList.update i (credit cur i)) ids [] else cur)"
  define ws1 where "ws1 = (if crowded then fold (\<lambda>i. AList.update i (credit ws i)) ids [] else ws)"
  obtain s0 t c2 where loop: "pick_loop ws1 ids [] 0 0 cur1 = (s0, t, c2)" by (metis prod_cases3)
  have unchanged: "(\<exists>i \<in> ?A. case map_of (sch_weights st) i of None \<Rightarrow> False | Some old \<Rightarrow> old \<noteq> ?w i) = False"
    using assms(6) by (auto simp: tracks_def)
  have "pick_state ids weights st = (case pick_loop ws1 ids [] 0 0 cur1 of
      (selected, tot, cur2) \<Rightarrow>
        (selected, \<lparr>sch_current = AList.update selected (sub64 (credit cur2 selected) tot) cur2, sch_weights = ws1\<rparr>))"
    unfolding pick_state_def Let_def ws1_def cur1_def crowded_def ws_def cur_def by (simp only: unchanged if_False)
  then have res: "s = s0" "st' = \<lparr>sch_current = AList.update s0 (sub64 (credit c2 s0) t) c2, sch_weights = ws1\<rparr>"
    using assms(8) loop by simp_all
  have w1: "credit ws1 i = ?w i" "map_of ws1 i = Some (?w i)" if "i \<in> ?A" for i
    using that by (simp_all add: ws1_def ws_def credit_fold_update map_of_fold_update)
  have c1: "credit cur1 i = f i" if "i \<in> ?A" for i
    using that assms(6) by (simp add: cur1_def cur_def credit_fold_update tracks_def)
  have sumw: "(\<Sum>i\<leftarrow>ids. credit ws1 i) = W"
    using w1(1) assms(1) by (simp add: W_def sum_list_distinct_conv_sum_set)
  have up: "f i + W \<le> int (length ids) * W" if "i \<in> ?A" for i
    using sum_bound [of ?A i f W] that assms(7) by (simp add: balanced_def W_def card)
  have wle: "?w i \<le> W" if "i \<in> ?A" for i
    unfolding W_def by (rule member_le_sum [OF that]) (use assms(4) in force)+
  have W64: "int (length ids) * W \<le> max_int64" using assms(5) by (simp add: W_def)
  have "1 * W \<le> int (length ids) * W" using assms(3) pos by (intro mult_right_mono) (simp_all add: Suc_le_eq)
  then have Wmax: "W \<le> max_int64" using W64 by simp
  have range: "f i + ?w i \<le> max_int64" "- W < f i" if "i \<in> ?A" for i
    using up [OF that] wle [OF that] W64 assms(7) that by (auto simp: balanced_def W_def)
  have fits: "\<forall>i \<in> ?A. 0 < credit ws1 i \<and> in_int64 (credit cur1 i + credit ws1 i)"
    using range Wmax assms(4) by (force simp: w1 c1 in_int64_def)
  have "0 + (\<Sum>i\<leftarrow>ids. credit ws1 i) \<le> max_int64" using Wmax by (simp add: sumw)
  note spec = pick_loop_spec [OF assms(1,2) assms(2) order_refl this fits loop]
  have s0: "s0 \<in> ?A" and t: "t = W" and best: "\<And>i. i \<in> ?A \<Longrightarrow> f i + ?w i \<le> f s0 + ?w s0"
    using spec assms(3) by (auto simp: sumw Let_def c1 w1)
  have c2: "credit c2 i = f i + ?w i" if "i \<in> ?A" for i using spec that by (simp add: c1 w1)
  have bal: "balanced ?A ?w (charge ?A ?w s0 f)"
    by (rule charge_balanced) (use s0 assms(4,7) best in auto)
  then have "in_int64 (f s0 + ?w s0 - W)"
    using s0 range(1) [OF s0] Wmax pos by (auto simp: balanced_def charge_def in_int64_def W_def)
  then have "sub64 (credit c2 s0) t = f s0 + ?w s0 - W"
    by (simp add: c2 [OF s0] t sub64_def wrap64_id)
  then have "tracks ?A ?w st' (charge ?A ?w s0 f)"
    by (auto simp: tracks_def res(2) w1 c2 charge_def W_def)
  then show ?thesis using bal s0 best by (simp add: res(1))
qed

section \<open>Picks in a row\<close>

definition pool_of :: "scheduler \<Rightarrow> string \<Rightarrow> string \<Rightarrow> subsetScheduleState option" where
  "pool_of s scope pool = (case map_of s scope of None \<Rightarrow> None | Some ps \<Rightarrow> map_of ps pool)"

definition follows :: "scheduler \<Rightarrow> string \<Rightarrow> string \<Rightarrow> string set \<Rightarrow> (string \<Rightarrow> int) \<Rightarrow> (string \<Rightarrow> int) \<Rightarrow> bool" where
  "follows s scope pool A w f \<longleftrightarrow>
     (case pool_of s scope pool of None \<Rightarrow> \<forall>i \<in> A. f i = 0 | Some st \<Rightarrow> tracks A w st f)"

definition weight_of :: "SchedulerAuthCandidate list \<Rightarrow> string \<Rightarrow> int" where
  "weight_of cs = credit (set_weights (positive_candidates cs) [])"

definition pickable :: "SchedulerAuthCandidate list \<Rightarrow> string set" where
  "pickable cs = cand_id ` set (positive_candidates cs)"

lemma positive_perm: "mset cs = mset cs0 \<Longrightarrow> mset (positive_candidates cs) = mset (positive_candidates cs0)"
  by (simp add: positive_candidates_def)

lemma distinct_positive: "distinct (map cand_id cs) \<Longrightarrow> distinct (map cand_id (positive_candidates cs))"
  by (simp add: positive_candidates_def distinct_map_filter)

lemma weight_of_mem:
  "distinct (map cand_id cs) \<Longrightarrow> c \<in> set (positive_candidates cs) \<Longrightarrow> weight_of cs (cand_id c) = candidateWeight c"
  by (simp add: weight_of_def set_weights_credit distinct_positive)

lemma weight_of_pos: "distinct (map cand_id cs) \<Longrightarrow> i \<in> pickable cs \<Longrightarrow> 0 < weight_of cs i"
  by (auto simp: pickable_def weight_of_mem) (simp add: positive_candidates_def)

lemma weight_of_outside: "i \<notin> pickable cs \<Longrightarrow> weight_of cs i = 0"
  by (simp add: weight_of_def pickable_def set_weights_outside) (simp add: credit_def)

lemma perm_pickable: "mset cs = mset cs0 \<Longrightarrow> pickable cs = pickable cs0"
  by (metis pickable_def positive_perm set_mset_mset)

lemma perm_distinct: "mset cs = mset cs0 \<Longrightarrow> distinct (map cand_id cs0) \<Longrightarrow> distinct (map cand_id cs)"
  by (metis mset_eq_imp_distinct_iff mset_map)

lemma perm_weight_of:
  assumes "mset cs = mset cs0" "distinct (map cand_id cs0)"
  shows "weight_of cs = weight_of cs0"
proof
  fix i
  show "weight_of cs i = weight_of cs0 i"
  proof (cases "i \<in> pickable cs0")
    case True
    then obtain c where c: "c \<in> set (positive_candidates cs0)" "i = cand_id c" by (auto simp: pickable_def)
    then have "c \<in> set (positive_candidates cs)" using positive_perm [OF assms(1)] by (metis set_mset_mset)
    then show ?thesis using c weight_of_mem assms perm_distinct by metis
  next
    case False
    then show ?thesis using weight_of_outside perm_pickable [OF assms(1)] by metis
  qed
qed

lemma pick_step:
  assumes "distinct (map cand_id cs)" "[] \<notin> cand_id ` set cs" "2 \<le> length (positive_candidates cs)"
    "int (length cs) * sum (weight_of cs) (pickable cs) \<le> max_int64"
    "follows s scope pool (pickable cs) (weight_of cs) f" "balanced (pickable cs) (weight_of cs) f"
    "pick scope pool cs s = (i, s')"
  shows "i \<in> pickable cs \<and> follows s' scope pool (pickable cs) (weight_of cs) (charge (pickable cs) (weight_of cs) i f) \<and>
    balanced (pickable cs) (weight_of cs) (charge (pickable cs) (weight_of cs) i f)"
proof -
  define ids where "ids = sort (map cand_id (positive_candidates cs))"
  define weights where "weights = set_weights (positive_candidates cs) []"
  define pools where "pools = (case map_of s scope of None \<Rightarrow> [] | Some ps \<Rightarrow> ps)"
  define pools1 where "pools1 = (if map_of pools pool = None \<and> length pools \<ge> maxPoolsPerKey then [] else pools)"
  define st where "st = (case map_of pools pool of Some st \<Rightarrow> st | None \<Rightarrow> \<lparr>sch_current = [], sch_weights = []\<rparr>)"
  obtain sel st' where ps: "pick_state ids weights st = (sel, st')" by fastforce
  obtain a b rest where two: "positive_candidates cs = a # b # rest"
    using assms(3) by (metis (no_types) Suc_le_length_iff numeral_2_eq_2)
  have "pick scope pool cs s = (sel, AList.update scope (AList.update pool st' pools1) s)"
    using ps two by (cases "map_of pools pool")
      (simp_all add: pick_def Let_def pools_def [symmetric] ids_def weights_def st_def pools1_def)
  then have res: "i = sel" "s' = AList.update scope (AList.update pool st' pools1) s" using assms(7) by simp_all
  have set: "set ids = pickable cs" by (simp add: ids_def pickable_def)
  have w: "credit weights = weight_of cs" by (simp add: weights_def weight_of_def)
  have W: "0 \<le> sum (weight_of cs) (pickable cs)" using weight_of_pos [OF assms(1)] by (force intro: sum_nonneg)
  have "length ids \<le> length cs" by (simp add: ids_def positive_candidates_def)
  then have "int (length ids) * sum (weight_of cs) (pickable cs) \<le> max_int64"
    using assms(4) mult_right_mono [OF _ W, of "int (length ids)" "int (length cs)"] by simp
  moreover have "tracks (pickable cs) (weight_of cs) st f"
    using assms(5) by (auto simp: follows_def pool_of_def st_def pools_def tracks_def credit_def split: option.splits)
  moreover have "[] \<notin> set ids" "distinct ids" "ids \<noteq> []"
    using assms(2) distinct_positive [OF assms(1)] by (auto simp: ids_def positive_candidates_def) (simp add: two flip: positive_candidates_def)
  ultimately have "sel \<in> pickable cs \<and> tracks (pickable cs) (weight_of cs) st' (charge (pickable cs) (weight_of cs) sel f) \<and>
      balanced (pickable cs) (weight_of cs) (charge (pickable cs) (weight_of cs) sel f)"
    using pick_state_spec [OF _ _ _ _ _ _ _ ps, of f] weight_of_pos [OF assms(1)] assms(6) unfolding set w by blast
  then show ?thesis by (simp add: res follows_def pool_of_def)
qed

fun picks :: "string \<Rightarrow> string \<Rightarrow> SchedulerAuthCandidate list list \<Rightarrow> scheduler \<Rightarrow> string list \<times> scheduler" where
  "picks scope pool [] s = ([], s)"
| "picks scope pool (cs # css) s =
     (case pick scope pool cs s of (i, s1) \<Rightarrow>
        case picks scope pool css s1 of (is, s2) \<Rightarrow> (i # is, s2))"

lemma picks_length: "picks scope pool css s = (ids, s') \<Longrightarrow> length ids = length css"
  by (induction css arbitrary: s ids) (auto split: prod.splits)

lemma picks_take: "picks scope pool css s = (ids, s') \<Longrightarrow> fst (picks scope pool (take n css) s) = take n ids"
proof (induction css arbitrary: s ids n)
  case (Cons cs css)
  then show ?case by (cases n) (auto split: prod.splits, metis fst_conv)
qed simp

text \<open>The credits after a run count the picks: what was earned less what was charged.\<close>

lemma picks_run:
  assumes "distinct (map cand_id cands)" "[] \<notin> cand_id ` set cands" "2 \<le> length (positive_candidates cands)"
    "int (length cands) * sum (weight_of cands) (pickable cands) \<le> max_int64"
    "\<forall>cs \<in> set css. mset cs = mset cands"
    "follows s scope pool (pickable cands) (weight_of cands) f" "balanced (pickable cands) (weight_of cands) f"
    "picks scope pool css s = (ids, s')"
  shows "set ids \<subseteq> pickable cands \<and>
    balanced (pickable cands) (weight_of cands)
      (\<lambda>i. f i + int (length css) * weight_of cands i - sum (weight_of cands) (pickable cands) * int (count_list ids i))"
  using assms(5-)
proof (induction css arbitrary: s f ids)
  case (Cons cs css)
  let ?A = "pickable cands" and ?w = "weight_of cands"
  have perm: "mset cs = mset cands" using Cons.prems(1) by simp
  note cs = perm_pickable [OF perm] perm_weight_of [OF perm assms(1)] perm_distinct [OF perm assms(1)]
  have len: "length cs = length cands" "length (positive_candidates cs) = length (positive_candidates cands)"
    using perm positive_perm [OF perm] by (metis size_mset)+
  have "set cs = set cands" using perm by (metis set_mset_mset)
  then have nonempty: "[] \<notin> cand_id ` set cs" using assms(2) by simp
  obtain i s1 js where p: "pick scope pool cs s = (i, s1)" and r: "picks scope pool css s1 = (js, s')" and ids: "ids = i # js"
    using Cons.prems(4) by (auto split: prod.splits)
  have one: "i \<in> ?A \<and> follows s1 scope pool ?A ?w (charge ?A ?w i f) \<and> balanced ?A ?w (charge ?A ?w i f)"
    using pick_step [OF cs(3) nonempty _ _ _ _ p, of f] assms(3,4) Cons.prems(2,3) by (simp add: cs len)
  then have rest: "set js \<subseteq> ?A \<and> balanced ?A ?w
      (\<lambda>j. charge ?A ?w i f j + int (length css) * ?w j - sum ?w ?A * int (count_list js j))"
    using Cons.IH [OF _ conjunct1 [OF conjunct2 [OF one]] conjunct2 [OF conjunct2 [OF one]] r] Cons.prems(1) by simp
  have "(\<lambda>j. charge ?A ?w i f j + int (length css) * ?w j - sum ?w ?A * int (count_list js j)) =
      (\<lambda>j. f j + int (length (cs # css)) * ?w j - sum ?w ?A * int (count_list ids j))"
    by (auto simp: charge_def ids algebra_simps)
  then show ?case using one rest ids by simp
qed simp


text \<open>Counts that never run a whole round ahead of the weights are exact after whole rounds.\<close>

lemma rounds_exact:
  fixes cnt :: "'a \<Rightarrow> nat" and w :: "'a \<Rightarrow> int"
  assumes "finite A" "i \<in> A" "0 < W" "W = sum w A" "(\<Sum>j\<in>A. int (cnt j)) = int k * W"
    "\<And>j. j \<in> A \<Longrightarrow> W * int (cnt j) < (int k * W) * w j + W"
  shows "int (cnt i) = int k * w i"
proof -
  have le: "int (cnt j) \<le> int k * w j" if "j \<in> A" for j
  proof -
    have "W * int (cnt j) < W * (int k * w j + 1)" using assms(6) [OF that] by (simp add: algebra_simps)
    then have "int (cnt j) < int k * w j + 1" using assms(3) by simp
    then show ?thesis by simp
  qed
  have "(\<Sum>j\<in>A. int k * w j - int (cnt j)) = 0"
    using assms(4,5) by (simp add: sum_subtractf sum_distrib_left)
  then have "\<forall>j \<in> A. int k * w j - int (cnt j) = 0"
    using le assms(1) by (subst (asm) sum_nonneg_eq_0_iff) auto
  then show ?thesis using assms(2) by simp
qed

lemma single_pick: "positive_candidates cs = [c] \<Longrightarrow> pick scope pool cs s = (cand_id c, s)"
  by (simp add: pick_def)

lemma single_picks:
  "\<forall>cs \<in> set css. positive_candidates cs = [c] \<Longrightarrow> picks scope pool css s = (replicate (length css) (cand_id c), s)"
  by (induction css) (simp_all add: single_pick)

lemma weights_sum:
  assumes "distinct (map cand_id cs)"
  shows "sum (weight_of cs) (pickable cs) = (\<Sum>c\<leftarrow>positive_candidates cs. candidateWeight c)"
proof -
  have d: "distinct (positive_candidates cs)" "inj_on cand_id (set (positive_candidates cs))"
    using distinct_positive [OF assms] by (simp_all add: distinct_map)
  have "sum (weight_of cs) (pickable cs) = (\<Sum>c\<in>set (positive_candidates cs). weight_of cs (cand_id c))"
    unfolding pickable_def using d(2) by (simp add: sum.reindex)
  also have "\<dots> = (\<Sum>c\<in>set (positive_candidates cs). candidateWeight c)"
    using weight_of_mem [OF assms] by simp
  finally show ?thesis using d(1) by (simp add: sum_list_distinct_conv_sum_set)
qed

text \<open>From a fresh pool no credential runs ahead of its share by a whole round.\<close>

lemma picks_ahead:
  assumes "distinct (map cand_id cands)" "[] \<notin> cand_id ` set cands" "positive_candidates cands \<noteq> []"
    "int (length cands) * sum (weight_of cands) (pickable cands) \<le> max_int64" "pool_of s scope pool = None"
    "\<forall>cs \<in> set css. mset cs = mset cands" "picks scope pool css s = (ids, s')"
  shows "set ids \<subseteq> pickable cands \<and>
    (\<forall>i \<in> pickable cands. sum (weight_of cands) (pickable cands) * int (count_list ids i)
       < int (length css) * weight_of cands i + sum (weight_of cands) (pickable cands))"
proof (cases "2 \<le> length (positive_candidates cands)")
  case True
  have pos: "0 < sum (weight_of cands) (pickable cands)"
    using assms(3) weight_of_pos [OF assms(1)] by (intro sum_pos) (auto simp: pickable_def)
  have "set ids \<subseteq> pickable cands \<and> balanced (pickable cands) (weight_of cands)
      (\<lambda>i. 0 + int (length css) * weight_of cands i - sum (weight_of cands) (pickable cands) * int (count_list ids i))"
    by (rule picks_run [OF assms(1,2) True assms(4,6) _ _ assms(7)])
      (use assms(5) pos in \<open>auto simp: follows_def balanced_def\<close>)
  then show ?thesis by (fastforce simp: balanced_def)
next
  case False
  then obtain c where c: "positive_candidates cands = [c]" using assms(3)
    by (metis One_nat_def Suc_1 Suc_leI length_0_conv length_Suc_conv linorder_neqE_nat not_less_eq_eq order_less_irrefl zero_less_iff_neq_zero less_Suc_eq_le)
  have "positive_candidates cs = [c]" if "cs \<in> set css" for cs
  proof -
    have "mset (positive_candidates cs) = {#c#}" using positive_perm that assms(6) c by fastforce
    then show ?thesis by (cases "positive_candidates cs") auto
  qed
  then have ids: "ids = replicate (length css) (cand_id c)" using single_picks [of css c scope pool s] assms(7) by simp
  have w: "0 < weight_of cands (cand_id c)" using weight_of_pos [OF assms(1)] by (simp add: pickable_def c)
  have "count_list (replicate n x) x = n" for n and x :: string by (induction n) simp_all
  then show ?thesis using w by (auto simp: ids pickable_def c)
qed

text \<open>C12: The weighted round robin is fair. Whatever order the proxy lists the same credentials in, a pool that starts
  fresh picks only credentials of positive weight; after every whole number of rounds (one round is the sum of the
  weights) each has been picked exactly its weight times the rounds; at no moment is one ahead of its share by a
  whole round; and none starves: in any stretch of two rounds less one pick, each is picked. Credits never overflow as
  long as the number of credentials times the sum of the weights fits 64 bits.\<close>

theorem pick_fair:
  fixes cands :: "SchedulerAuthCandidate list"
  defines "W \<equiv> (\<Sum>c\<leftarrow>positive_candidates cands. candidateWeight c)"
  assumes "distinct (map cand_id cands)" "[] \<notin> cand_id ` set cands" "positive_candidates cands \<noteq> []"
    "int (length cands) * W \<le> max_int64" "pool_of s scope pool = None"
    "\<forall>cs \<in> set css. mset cs = mset cands" "picks scope pool css s = (ids, s')"
  shows "length ids = length css \<and> set ids \<subseteq> {cand_id c | c. c \<in> set cands \<and> 0 < candidateWeight c} \<and>
    (\<forall>c \<in> set (positive_candidates cands).
       W * int (count_list ids (cand_id c)) < int (length css) * candidateWeight c + W \<and>
       (\<forall>k. int (length css) = int k * W \<longrightarrow> int (count_list ids (cand_id c)) = int k * candidateWeight c) \<and>
       (\<forall>n. n + 2 * nat W \<le> length css + 1 \<longrightarrow> cand_id c \<in> set (take (2 * nat W - 1) (drop n ids))))"
proof -
  note W = weights_sum [OF assms(2), folded W_def]
  have pos: "0 < W" unfolding W [symmetric]
    using assms(4) weight_of_pos [OF assms(2)] by (intro sum_pos) (auto simp: pickable_def)
  have len: "length ids = length css" using picks_length [OF assms(8)] .
  have ahead: "set (take m ids) \<subseteq> pickable cands \<and> (\<forall>i \<in> pickable cands.
      W * int (count_list (take m ids) i) < int (length (take m css)) * weight_of cands i + W)" for m
  proof -
    obtain s1 where "picks scope pool (take m css) s = (take m ids, s1)"
      using picks_take [OF assms(8), of m] by (metis prod.collapse)
    then show ?thesis
      using picks_ahead [OF assms(2-4) _ assms(6), of "take m css" "take m ids" s1] assms(5,7) set_take_subset [of m css]
      unfolding W by blast
  qed
  have exact: "int (count_list (take m ids) i) = int k * weight_of cands i"
    if "i \<in> pickable cands" "int (length (take m ids)) = int k * W" for m k i
  proof (rule rounds_exact [OF _ that(1) pos W [symmetric]])
    show "finite (pickable cands)" by (simp add: pickable_def)
    have "(\<Sum>j\<in>pickable cands. int (count_list (take m ids) j)) = int (length (take m ids))"
      using sum_count_set [of "take m ids" "pickable cands"] ahead [of m] by (simp add: pickable_def flip: of_nat_sum)
    then show "(\<Sum>j\<in>pickable cands. int (count_list (take m ids) j)) = int k * W" using that(2) by simp
    show "W * int (count_list (take m ids) j) < int k * W * weight_of cands j + W" if "j \<in> pickable cands" for j
      using ahead [of m] that \<open>int (length (take m ids)) = int k * W\<close> len by simp
  qed
  have mem: "cand_id c \<in> pickable cands" "weight_of cands (cand_id c) = candidateWeight c" "0 < candidateWeight c"
    if "c \<in> set (positive_candidates cands)" for c
    using that weight_of_mem [OF assms(2) that] by (auto simp: pickable_def positive_candidates_def)
  have soon: "cand_id c \<in> set (take (2 * nat W - 1) (drop n ids))"
    if c: "c \<in> set (positive_candidates cands)" and n: "n + 2 * nat W \<le> length css + 1" for c n
  proof -
    define V where "V = nat W"
    have V: "0 < V" "W = int V" using pos by (simp_all add: V_def)
    define k where "k = (n + V - 1) div V"
    have k: "n \<le> k * V" "k * V + V \<le> n + 2 * V - 1"
      using div_mult_mod_eq [of "n + V - 1" V] mod_less_divisor [OF V(1), of "n + V - 1"] V(1) unfolding k_def by linarith+
    let ?i = "cand_id c"
    have a: "int (count_list (take (k * V) ids) ?i) = int k * candidateWeight c"
      using exact [OF mem(1) [OF c], of "k * V" k] mem(2) [OF c] k n len by (simp add: V)
    have b: "int (count_list (take (k * V + V) ids) ?i) = int (Suc k) * candidateWeight c"
      using exact [OF mem(1) [OF c], of "k * V + V" "Suc k"] mem(2) [OF c] k n len by (simp add: V algebra_simps)
    have "take (k * V + V) ids = take (k * V) ids @ take V (drop (k * V) ids)" by (rule take_add)
    then have "0 < count_list (take V (drop (k * V) ids)) ?i"
      using a b mem(3) [OF c] by (simp add: algebra_simps)
    then have "?i \<in> set (take V (drop (k * V) ids))" by (metis count_list_0_iff less_irrefl)
    also have "take V (drop (k * V) ids) = take V (drop (k * V - n) (drop n ids))" using k(1) by simp
    also have "\<dots> = drop (k * V - n) (take (k * V - n + V) (drop n ids))" by (simp add: drop_take)
    also have "set \<dots> \<subseteq> set (take (k * V - n + V) (drop n ids))" by (rule set_drop_subset)
    also have "\<dots> \<subseteq> set (take (2 * V - 1) (drop n ids))" by (rule set_take_subset_set_take) (use k in linarith)
    finally show ?thesis by (simp add: V_def)
  qed
  have per: "W * int (count_list ids (cand_id c)) < int (length css) * candidateWeight c + W \<and>
       (\<forall>k. int (length css) = int k * W \<longrightarrow> int (count_list ids (cand_id c)) = int k * candidateWeight c)"
    if c: "c \<in> set (positive_candidates cands)" for c
    using ahead [of "length css"] exact [of "cand_id c" "length css"] mem [OF c] len by auto
  have "pickable cands \<subseteq> {cand_id c | c. c \<in> set cands \<and> 0 < candidateWeight c}"
    by (auto simp: pickable_def positive_candidates_def)
  moreover have "set ids \<subseteq> pickable cands" using ahead [of "length ids"] by simp
  ultimately show ?thesis using len per soon by blast
qed

definition sample_candidate :: "string \<Rightarrow> string \<Rightarrow> SchedulerAuthCandidate" where
  "sample_candidate i w = \<lparr>cand_id = i, cand_provider = [], cand_status = [], cand_attrs = [(''weight'', w)]\<rparr>"

lemma sample_weights:
  "candidateWeight (sample_candidate i ''1'') = 1" "candidateWeight (sample_candidate i ''2'') = 2"
  by (simp_all add: candidateWeight_def cand_attribute_def sample_candidate_def TrimSpace_visible visible_def
      ParseInt_def is_digit_def digits_val_def digit_val_def in_int64_def)

lemma sample_id [simp]: "cand_id (sample_candidate i w) = i"
  by (simp add: sample_candidate_def)

theorem pick_fair_witness:
  "\<exists>ids s'. picks [] [] (replicate 3 [sample_candidate ''a'' ''1'', sample_candidate ''b'' ''2'']) [] = (ids, s') \<and>
     length ids = 3 \<and> int (count_list ids ''b'') = 2"
proof -
  let ?cs = "[sample_candidate ''a'' ''1'', sample_candidate ''b'' ''2'']"
  obtain ids s' where p: "picks [] [] (replicate 3 ?cs) [] = (ids, s')" by fastforce
  have pos: "positive_candidates ?cs = ?cs" by (simp add: positive_candidates_def sample_weights)
  have "length ids = 3 \<and> (\<forall>k. int 3 = int k * 3 \<longrightarrow> int (count_list ids ''b'') = int k * 2)"
    using pick_fair [of ?cs "[]" "[]" "[]" "replicate 3 ?cs" ids s'] p pos by (simp add: sample_weights pool_of_def)
  then have "length ids = 3" "int (count_list ids ''b'') = 2" by (auto dest: spec [of _ 1])
  then show ?thesis using p by auto
qed

end
