(* ===== verification/Quota.thy ===== *)
theory Quota
  imports Pricing Routing GoTime
begin

text \<open>
  Subscription plans, quota windows and the cycles of a key: \<^verbatim>\<open>internal/billing/quota.go\<close>, the
  data, validation and window preparation of \<^verbatim>\<open>plan.go\<close>, and \<^verbatim>\<open>KeyState\<close> of
  \<^verbatim>\<open>state.go\<close>. A window with an anchor runs on the grid anchor + k * period, one without starts with the
  first admission. A JSON number is the number it denotes. Period 0, for which the source would panic, is
  rejected by \<open>Plan_Validate\<close> before a window can be stored.
\<close>

section \<open>Data\<close>

record QuotaWindow =
  win_id :: string
  win_name :: string
  win_period :: int
  win_amount :: f64
  win_tokens :: int
  win_requests :: int
  win_anchor :: time

record Plan =
  pln_id :: string
  pln_name :: string
  pln_windows :: "QuotaWindow list"

record quotaUsage =
  use_amount :: f64
  use_tokens :: int
  use_requests :: int

record QuotaCycle =
  cyc_plan :: string
  cyc_start :: time
  cyc_end :: time
  cyc_since :: time
  cyc_spent :: f64
  cyc_tokens :: int
  cyc_requests :: int

record KeyState =
  ks_preview :: string
  ks_label :: string
  ks_in_config :: bool
  ks_deleted_at :: time
  ks_plan :: string
  ks_limit :: int
  ks_bindings :: RouteBindings
  ks_cycles :: "QuotaCycle smap"

definition new_key :: KeyState where
  "new_key = \<lparr>ks_preview = [], ks_label = [], ks_in_config = False, ks_deleted_at = 0, ks_plan = [],
     ks_limit = 0, ks_bindings = no_bindings, ks_cycles = []\<rparr>"

definition no_plan :: Plan where
  "no_plan = \<lparr>pln_id = [], pln_name = [], pln_windows = []\<rparr>"

datatype QuotaMetric = QuotaAmount | QuotaTokens | QuotaRequests

datatype json_number = JInt int | JFloat f64

record QuotaBalance =
  qb_metric :: QuotaMetric
  qb_limit :: json_number
  qb_used :: json_number
  qb_remaining :: json_number
  qb_percent :: f64
  qb_blocked :: bool

record QuotaWindowView =
  qwv_id :: string
  qwv_name :: string
  qwv_period :: int
  qwv_anchor :: time
  qwv_started :: bool
  qwv_blocked :: bool
  qwv_start :: time
  qwv_end :: time
  qwv_dimensions :: "QuotaBalance list"

record QuotaView =
  qv_unlimited :: bool
  qv_blocked :: bool
  qv_retry_at :: time
  qv_windows :: "QuotaWindowView list"

section \<open>Cycles\<close>

definition no_cycle :: QuotaCycle where
  "no_cycle = \<lparr>cyc_plan = [], cyc_start = 0, cyc_end = 0, cyc_since = 0, cyc_spent = Fin 0, cyc_tokens = 0, cyc_requests = 0\<rparr>"

definition newCycle :: "QuotaWindow \<Rightarrow> string \<Rightarrow> time \<Rightarrow> QuotaCycle" where
  "newCycle w planID now =
     (let offset0 = go_rem (wrap64 (Unix now - Unix (win_anchor w))) (win_period w);
          offset = (if offset0 < 0 then offset0 + win_period w else offset0);
          start = (if IsZero (win_anchor w) then now else time_of_unix (Unix now - offset));
          since = (if IsZero (win_anchor w) then 0 else now)
      in no_cycle\<lparr>cyc_plan := planID, cyc_start := start, cyc_since := since,
           cyc_end := start + seconds (win_period w)\<rparr>)"

text \<open>Expiration never starts another window; only admission can do that.\<close>

definition settleExpiredCycles :: "KeyState \<Rightarrow> time \<Rightarrow> bool \<times> KeyState" where
  "settleExpiredCycles key now =
     (let expired = (\<lambda>(k, c). now \<ge> cyc_end c)
      in (list_ex expired (ks_cycles key), key\<lparr>ks_cycles := filter (\<lambda>(k, c). \<not> now \<ge> cyc_end c) (ks_cycles key)\<rparr>))"

definition activate_window :: "string \<Rightarrow> time \<Rightarrow> bool \<times> QuotaCycle smap \<Rightarrow> QuotaWindow \<Rightarrow> bool \<times> QuotaCycle smap" where
  "activate_window planID now acc w =
     (if has_key (snd acc) (win_id w) then acc
      else (True, AList.update (win_id w) (newCycle w planID now) (snd acc)))"

definition activateCycles :: "KeyState \<Rightarrow> Plan \<Rightarrow> time \<Rightarrow> bool \<times> KeyState" where
  "activateCycles key plan now =
     (case foldl (activate_window (pln_id plan) now) (False, ks_cycles key) (pln_windows plan) of
        (changed, cycles) \<Rightarrow> (changed, key\<lparr>ks_cycles := cycles\<rparr>))"

definition find_window :: "Plan \<Rightarrow> string \<Rightarrow> QuotaWindow option" where
  "find_window plan wid = find (\<lambda>w. win_id w = wid) (pln_windows plan)"

definition cycle_invalid :: "KeyState \<Rightarrow> Plan \<Rightarrow> string \<Rightarrow> QuotaCycle \<Rightarrow> bool" where
  "cycle_invalid key plan wid c \<longleftrightarrow>
     (case find_window plan wid of
        None \<Rightarrow> True
      | Some w \<Rightarrow>
          cyc_plan c \<noteq> ks_plan key \<or> IsZero (cyc_start c) \<or> IsZero (cyc_end c) \<or>
          cyc_end c \<noteq> cyc_start c + seconds (win_period w) \<or>
          invalidPrice (cyc_spent c) \<or> cyc_requests c < 0 \<or> cyc_tokens c < 0 \<or>
          (\<not> IsZero (win_anchor w) \<and> cyc_start (newCycle w (pln_id plan) (cyc_start c)) \<noteq> cyc_start c) \<or>
          (\<not> IsZero (cyc_since c) \<and> (cyc_since c < cyc_start c \<or> \<not> cyc_since c < cyc_end c)))"

definition ValidateCycles :: "KeyState \<Rightarrow> Plan \<Rightarrow> error + unit" where
  "ValidateCycles key plan =
     (if ks_plan key \<noteq> [] \<and> pln_id plan \<noteq> ks_plan key then Inl (invalidf ''the plan of the API key does not exist'')
      else if list_ex (\<lambda>(wid, c). cycle_invalid key plan wid c) (ks_cycles key)
        then Inl (invalidf ''invalid quota cycles of the API key'')
      else Inr ())"

definition addQuotaCount :: "int \<Rightarrow> int \<Rightarrow> int" where
  "addQuotaCount current delta =
     (if delta > wrap64 (max_int64 - current) then max_int64 else wrap64 (current + delta))"

definition in_cycle :: "string \<Rightarrow> time \<Rightarrow> QuotaCycle \<Rightarrow> bool" where
  "in_cycle planID instant c \<longleftrightarrow> \<not> (cyc_plan c \<noteq> planID \<or> instant < cyc_start c \<or> instant < cyc_since c \<or> \<not> instant < cyc_end c)"

definition charge_cycle :: "string \<Rightarrow> time \<Rightarrow> quotaUsage \<Rightarrow> QuotaCycle \<Rightarrow> QuotaCycle" where
  "charge_cycle planID instant usage c =
     (if \<not> in_cycle planID instant c then c
      else c\<lparr>cyc_spent := fmin (fadd (cyc_spent c) (use_amount usage)) (Fin max_float64),
             cyc_tokens := addQuotaCount (cyc_tokens c) (use_tokens usage),
             cyc_requests := addQuotaCount (cyc_requests c) (use_requests usage)\<rparr>)"

definition chargeCycles :: "KeyState \<Rightarrow> time \<Rightarrow> quotaUsage \<Rightarrow> KeyState" where
  "chargeCycles key instant usage =
     (if ks_plan key = [] \<or> IsZero instant then key
      else key\<lparr>ks_cycles := map_values (\<lambda>k. charge_cycle (ks_plan key) instant usage) (ks_cycles key)\<rparr>)"

section \<open>Views\<close>

definition appendQuotaBalance_int :: "QuotaBalance list \<Rightarrow> QuotaMetric \<Rightarrow> int \<Rightarrow> int \<Rightarrow> QuotaBalance list" where
  "appendQuotaBalance_int balances metric limit used =
     (if limit \<le> 0 then balances
      else balances @ [\<lparr>qb_metric = metric, qb_limit = JInt limit, qb_used = JInt used,
        qb_remaining = JInt (max 0 (wrap64 (limit - used))),
        qb_percent = fmul (fmin (fdiv (f64_of_int used) (f64_of_int limit)) (Fin 1)) (Fin 100),
        qb_blocked = (used \<ge> limit)\<rparr>])"

definition appendQuotaBalance_float :: "QuotaBalance list \<Rightarrow> QuotaMetric \<Rightarrow> f64 \<Rightarrow> f64 \<Rightarrow> QuotaBalance list" where
  "appendQuotaBalance_float balances metric limit used =
     (if fle limit (Fin 0) then balances
      else balances @ [\<lparr>qb_metric = metric, qb_limit = JFloat limit, qb_used = JFloat used,
        qb_remaining = JFloat (fmax (Fin 0) (fsub limit used)),
        qb_percent = fmul (fmin (fdiv used limit) (Fin 1)) (Fin 100),
        qb_blocked = fle limit used\<rparr>])"

definition window_view :: "QuotaWindow \<Rightarrow> QuotaCycle \<Rightarrow> QuotaWindowView" where
  "window_view w cycle =
     (let d1 = appendQuotaBalance_float [] QuotaAmount (win_amount w) (cyc_spent cycle);
          d2 = appendQuotaBalance_int d1 QuotaTokens (win_tokens w) (cyc_tokens cycle);
          d3 = appendQuotaBalance_int d2 QuotaRequests (win_requests w) (cyc_requests cycle)
      in \<lparr>qwv_id = win_id w, qwv_name = win_name w, qwv_period = win_period w, qwv_anchor = win_anchor w,
          qwv_started = (\<not> IsZero (cyc_start cycle)), qwv_blocked = list_ex qb_blocked d3,
          qwv_start = cyc_start cycle, qwv_end = cyc_end cycle, qwv_dimensions = d3\<rparr>)"

definition current_cycle :: "KeyState \<Rightarrow> Plan \<Rightarrow> time \<Rightarrow> QuotaWindow \<Rightarrow> QuotaCycle" where
  "current_cycle key plan now w =
     (let cycle = (case map_of (ks_cycles key) (win_id w) of None \<Rightarrow> no_cycle | Some c \<Rightarrow> c)
      in if IsZero (cyc_start cycle) \<and> \<not> IsZero (win_anchor w) then newCycle w (pln_id plan) now else cycle)"

definition add_window_view :: "KeyState \<Rightarrow> Plan \<Rightarrow> time \<Rightarrow> QuotaView \<Rightarrow> QuotaWindow \<Rightarrow> QuotaView" where
  "add_window_view key plan now view w =
     (let item = window_view w (current_cycle key plan now w)
      in \<lparr>qv_unlimited = qv_unlimited view,
          qv_blocked = (qv_blocked view \<or> qwv_blocked item),
          qv_retry_at = (if qwv_blocked item \<and> qwv_end item > qv_retry_at view then qwv_end item else qv_retry_at view),
          qv_windows = qv_windows view @ [item]\<rparr>)"

definition quotaView :: "KeyState \<Rightarrow> Plan \<Rightarrow> time \<Rightarrow> QuotaView" where
  "quotaView key plan now =
     foldl (add_window_view key plan now)
       \<lparr>qv_unlimited = (pln_id plan = []), qv_blocked = False, qv_retry_at = 0, qv_windows = []\<rparr> (pln_windows plan)"

section \<open>Plans\<close>

text \<open>\<open>time.Time.Year\<close> in UTC.\<close>

definition Year :: "time \<Rightarrow> int" where
  "Year t = fst (civil_of_days (t div day))"

definition maxQuotaCount :: int where
  "maxQuotaCount = 9007199254740991"

text \<open>The checks of one window, given what the loop has seen before it.\<close>

definition check_window ::
  "bool \<Rightarrow> string list \<Rightarrow> string list \<Rightarrow> int list \<Rightarrow> QuotaWindow \<Rightarrow> error + unit" where
  "check_window anchor_free ids names periods w =
     (let name = TrimSpace (win_name w)
      in if win_id w = [] \<or> win_id w \<in> set ids then Inl (invalidf ''window id invalid or repeated'')
         else if name = [] \<or> length name > maxRouteNameBytes then Inl (invalidf ''window name empty or too long'')
         else if ToLower name \<in> set names then Inl (invalidf ''window name repeated'')
         else if invalidPrice (win_amount w) then Inl (invalidf ''amount must be finite and non-negative'')
         else if win_tokens w < 0 \<or> win_tokens w > maxQuotaCount \<or> win_requests w < 0 \<or> win_requests w > maxQuotaCount
           then Inl (invalidf ''limits must be integers from 0'')
         else if feq (win_amount w) (Fin 0) \<and> win_tokens w = 0 \<and> win_requests w = 0
           then Inl (invalidf ''at least one limit is needed'')
         else if win_period w \<le> 0 \<or> win_period w > max_period_seconds then Inl (invalidf ''period out of range'')
         else if win_period w \<in> set periods then Inl (invalidf ''period repeated'')
         else if IsZero (win_anchor w) \<noteq> anchor_free then Inl (invalidf ''windows must use the same cycle mode'')
         else if \<not> IsZero (win_anchor w) \<and>
             (Year (win_anchor w) < 1970 \<or> Year (win_anchor w) > 9999 \<or> Nanosecond (win_anchor w) \<noteq> 0)
           then Inl (invalidf ''cycle start must be a whole second between 1970 and 9999'')
         else Inr ())"

fun check_windows ::
  "bool \<Rightarrow> string list \<Rightarrow> string list \<Rightarrow> int list \<Rightarrow> QuotaWindow list \<Rightarrow> error + unit" where
  "check_windows anchor_free ids names periods [] = Inr ()"
| "check_windows anchor_free ids names periods (w # ws) =
     try_bind (check_window anchor_free ids names periods w) (\<lambda>_.
       check_windows anchor_free (win_id w # ids) (ToLower (TrimSpace (win_name w)) # names) (win_period w # periods) ws)"

definition Plan_Validate :: "Plan \<Rightarrow> error + unit" where
  "Plan_Validate p =
     (if TrimSpace (pln_id p) = [] then Inl (invalidf ''plan id must not be empty'')
      else if pln_windows p = [] then Inl (invalidf ''a plan needs at least one window'')
      else check_windows (IsZero (win_anchor (hd (pln_windows p)))) [] [] [] (pln_windows p))"

definition sameSchedule :: "QuotaWindow \<Rightarrow> QuotaWindow \<Rightarrow> bool" where
  "sameSchedule w other \<longleftrightarrow>
     (if win_period w \<noteq> win_period other \<or> IsZero (win_anchor w) \<noteq> IsZero (win_anchor other) then False
      else win_anchor w = win_anchor other \<or>
        (win_period w > 0 \<and> Nanosecond (win_anchor w) = Nanosecond (win_anchor other) \<and>
         go_rem (wrap64 (Unix (win_anchor w) - Unix (win_anchor other))) (win_period w) = 0))"

text \<open>
  The loop body of \<open>prepareWindows\<close>; \<open>rand_id\<close> answers \<open>rand.Read\<close> for the window at an index with an
  identifier or an error. \<open>UTC\<close> does not change the instant.
\<close>

definition prepare_anchor :: "QuotaWindow option \<Rightarrow> time \<Rightarrow> QuotaWindow \<Rightarrow> error + QuotaWindow" where
  "prepare_anchor old now w =
     (if IsZero (win_anchor w) then Inr w
      else if (case old of None \<Rightarrow> False | Some o' \<Rightarrow> sameSchedule w o')
        then Inr (w\<lparr>win_anchor := win_anchor (the old)\<rparr>)
      else if win_period w \<le> 0 \<or> win_period w > max_period_seconds \<or>
          \<not> win_anchor w > now \<or> win_anchor w > now + seconds (win_period w)
        then Inl (invalidf ''next cycle start must be in the future, at most one period away'')
      else Inr w)"

definition prepare_window ::
  "(nat \<Rightarrow> error + string) \<Rightarrow> QuotaWindow list \<Rightarrow> time \<Rightarrow> nat \<Rightarrow> QuotaWindow \<Rightarrow> error + QuotaWindow" where
  "prepare_window rand_id existing now i w0 =
     (let w = w0\<lparr>win_name := TrimSpace (win_name w0)\<rparr>;
          old = find (\<lambda>o'. win_id o' = win_id w) existing
      in if win_id w = []
         then try_bind (rand_id i) (\<lambda>new. prepare_anchor old now (w\<lparr>win_id := new\<rparr>))
         else if old = None then Inl (invalidf ''window no longer exists'')
         else prepare_anchor old now w)"

definition prepareWindows ::
  "(nat \<Rightarrow> error + string) \<Rightarrow> QuotaWindow list \<Rightarrow> QuotaWindow list \<Rightarrow> time \<Rightarrow> error + QuotaWindow list" where
  "prepareWindows rand_id windows existing now =
     try_bind (try_map (\<lambda>(i, w). prepare_window rand_id existing now i w) (enumerate 0 windows))
       (\<lambda>ws. Inr (sort_key win_period ws))"

section \<open>Lemmas on windows\<close>

lemma check_windows_ok:
  "check_windows af ids names periods ws = Inr () \<Longrightarrow>
     distinct (map win_id ws) \<and> set (map win_id ws) \<inter> set ids = {} \<and>
     distinct (map win_period ws) \<and> set (map win_period ws) \<inter> set periods = {} \<and>
     (\<forall>w \<in> set ws. win_id w \<noteq> [] \<and> 0 < win_period w \<and> win_period w \<le> max_period_seconds \<and>
        (IsZero (win_anchor w) \<longleftrightarrow> af) \<and> (\<not> IsZero (win_anchor w) \<longrightarrow> Nanosecond (win_anchor w) = 0 \<and>
           1970 \<le> Year (win_anchor w) \<and> Year (win_anchor w) \<le> 9999) \<and>
        \<not> invalidPrice (win_amount w) \<and> 0 \<le> win_tokens w \<and> win_tokens w \<le> maxQuotaCount \<and>
        0 \<le> win_requests w \<and> win_requests w \<le> maxQuotaCount \<and>
        (flt (Fin 0) (win_amount w) \<or> 0 < win_tokens w \<or> 0 < win_requests w))"
proof (induction ws arbitrary: ids names periods)
  case (Cons w ws)
  then have c: "check_window af ids names periods w = Inr ()"
    and r: "check_windows af (win_id w # ids) (ToLower (TrimSpace (win_name w)) # names) (win_period w # periods) ws = Inr ()"
    by auto
  have a: "\<not> invalidPrice (win_amount w) \<Longrightarrow> \<not> feq (win_amount w) (Fin 0) \<Longrightarrow> flt (Fin 0) (win_amount w)"
    by (cases "win_amount w") (auto simp: invalidPrice_def feq_def IsNaN_def IsInf_def)
  from c have "win_id w \<noteq> [] \<and> win_id w \<notin> set ids \<and> win_period w \<notin> set periods \<and> 0 < win_period w \<and>
      win_period w \<le> max_period_seconds \<and>
      (IsZero (win_anchor w) \<longleftrightarrow> af) \<and> (\<not> IsZero (win_anchor w) \<longrightarrow> Nanosecond (win_anchor w) = 0 \<and>
           1970 \<le> Year (win_anchor w) \<and> Year (win_anchor w) \<le> 9999) \<and>
        \<not> invalidPrice (win_amount w) \<and> 0 \<le> win_tokens w \<and> win_tokens w \<le> maxQuotaCount \<and>
        0 \<le> win_requests w \<and> win_requests w \<le> maxQuotaCount \<and>
        (flt (Fin 0) (win_amount w) \<or> 0 < win_tokens w \<or> 0 < win_requests w)"
    using a by (simp add: check_window_def Let_def not_le not_less split: if_splits) (auto simp: not_le)
  with Cons.IH [OF r] show ?case by auto
qed simp

text \<open>What a validated plan guarantees.\<close>

definition window_ok :: "QuotaWindow \<Rightarrow> bool" where
  "window_ok w \<longleftrightarrow>
     win_id w \<noteq> [] \<and> 0 < win_period w \<and> win_period w \<le> max_period_seconds \<and>
     \<not> invalidPrice (win_amount w) \<and> 0 \<le> win_tokens w \<and> win_tokens w \<le> maxQuotaCount \<and>
     0 \<le> win_requests w \<and> win_requests w \<le> maxQuotaCount \<and>
     (flt (Fin 0) (win_amount w) \<or> 0 < win_tokens w \<or> 0 < win_requests w)"

definition plan_ok :: "Plan \<Rightarrow> bool" where
  "plan_ok p \<longleftrightarrow> Plan_Validate p = Inr ()"

lemma plan_okD:
  assumes "plan_ok p"
  shows "TrimSpace (pln_id p) \<noteq> []" "pln_windows p \<noteq> []" "distinct (map win_id (pln_windows p))"
    "distinct (map win_period (pln_windows p))" "w \<in> set (pln_windows p) \<Longrightarrow> window_ok w"
    "w \<in> set (pln_windows p) \<Longrightarrow> w' \<in> set (pln_windows p) \<Longrightarrow> IsZero (win_anchor w) \<longleftrightarrow> IsZero (win_anchor w')"
    "w \<in> set (pln_windows p) \<Longrightarrow> \<not> IsZero (win_anchor w) \<Longrightarrow> Nanosecond (win_anchor w) = 0 \<and>
       1970 \<le> Year (win_anchor w) \<and> Year (win_anchor w) \<le> 9999"
proof -
  have c: "TrimSpace (pln_id p) \<noteq> []" "pln_windows p \<noteq> []"
    "check_windows (IsZero (win_anchor (hd (pln_windows p)))) [] [] [] (pln_windows p) = Inr ()"
    using assms by (simp_all add: plan_ok_def Plan_Validate_def split: if_splits)
  note k = check_windows_ok [OF c(3)]
  show "TrimSpace (pln_id p) \<noteq> []" "pln_windows p \<noteq> []" by (fact c)+
  show "distinct (map win_id (pln_windows p))" "distinct (map win_period (pln_windows p))" using k by blast+
  show "w \<in> set (pln_windows p) \<Longrightarrow> window_ok w" unfolding window_ok_def using k by blast
  show "w \<in> set (pln_windows p) \<Longrightarrow> w' \<in> set (pln_windows p) \<Longrightarrow> IsZero (win_anchor w) \<longleftrightarrow> IsZero (win_anchor w')"
    using k by blast
  show "w \<in> set (pln_windows p) \<Longrightarrow> \<not> IsZero (win_anchor w) \<Longrightarrow> Nanosecond (win_anchor w) = 0 \<and>
       1970 \<le> Year (win_anchor w) \<and> Year (win_anchor w) \<le> 9999" using k by blast
qed

lemma plan_ok_id: "plan_ok p \<Longrightarrow> pln_id p \<noteq> []"
  using plan_okD(1) by fastforce

section \<open>Lemmas on cycles\<close>

text \<open>Instants whose Unix seconds can be subtracted without overflow: some 146 billion years around 1970.\<close>

definition clock_ok :: "time \<Rightarrow> bool" where
  "clock_ok t \<longleftrightarrow> - 4611686018427387904 \<le> Unix t \<and> Unix t \<le> 4611686018427387903"

lemma clock_ok_diff [range64]: "clock_ok t \<Longrightarrow> clock_ok u \<Longrightarrow> wrap64 (Unix t - Unix u) = Unix t - Unix u"
  by (rule wrap64_id_bounds) (auto simp: clock_ok_def)

lemma Year_clock_ok:
  assumes "1970 \<le> Year t" "Year t \<le> 9999"
  shows "clock_ok t"
proof -
  obtain y yd where yd: "year_yday (t div day) = (y, yd)" by (cases "year_yday (t div day)")
  then have y: "1970 \<le> y" "y \<le> 9999" using assms by (auto simp: Year_def civil_of_days_def Let_def)
  define n where "n = t div day"
  have n: "n = days_before_year y + yd" "0 \<le> yd" "yd \<le> 365"
    unfolding n_def using year_yday_sum [OF yd] year_yday_nonneg [OF yd] year_yday_upper [OF yd] by simp_all
  have "364 * y - 364 \<le> days_before_year y" "days_before_year y \<le> 367 * y - 367"
    using y by (simp_all add: days_before_year_def algebra_simps)
  then have "0 \<le> n" "n \<le> 4000000" using n y by linarith+
  moreover have "t = day * n + t mod day" "0 \<le> t mod day" "t mod day < day" by (simp_all add: n_def)
  ultimately have "0 \<le> t" "t < 4000001 * day" by linarith+
  then have "0 \<le> t div second" "t div second \<le> 4000001 * 86400" by linarith+
  then show ?thesis by (simp add: clock_ok_def Unix_def)
qed

lemma newCycle_plan [simp]: "cyc_plan (newCycle w pid t) = pid"
  and newCycle_usage [simp]: "cyc_spent (newCycle w pid t) = Fin 0" "cyc_tokens (newCycle w pid t) = 0"
    "cyc_requests (newCycle w pid t) = 0"
  and newCycle_end: "cyc_end (newCycle w pid t) = cyc_start (newCycle w pid t) + seconds (win_period w)"
  and newCycle_since: "cyc_since (newCycle w pid t) = (if IsZero (win_anchor w) then 0 else t)"
  and newCycle_free: "IsZero (win_anchor w) \<Longrightarrow> cyc_start (newCycle w pid t) = t"
  by (simp_all add: newCycle_def Let_def no_cycle_def)

lemma newCycle_anchored:
  assumes "\<not> IsZero (win_anchor w)" "0 < win_period w" "clock_ok t" "clock_ok (win_anchor w)"
  shows "cyc_start (newCycle w pid t) = time_of_unix (Unix t - (Unix t - Unix (win_anchor w)) mod win_period w)"
  using assms go_rem_adjust [of "win_period w" "Unix t - Unix (win_anchor w)"]
  by (simp add: newCycle_def Let_def no_cycle_def clock_ok_diff)

lemma newCycle_spans:
  assumes "window_ok w" "clock_ok t" "clock_ok (win_anchor w)"
  shows "cyc_start (newCycle w pid t) \<le> t" "t < cyc_end (newCycle w pid t)"
proof -
  have p: "0 < win_period w" "win_period w \<le> max_period_seconds" using assms by (auto simp: window_ok_def)
  then have sec: "seconds (win_period w) = win_period w * second" by (intro seconds_exact) auto
  have "cyc_start (newCycle w pid t) \<le> t \<and> t < cyc_start (newCycle w pid t) + win_period w * second"
  proof (cases "IsZero (win_anchor w)")
    case True
    then show ?thesis using p by (simp add: newCycle_free)
  next
    case False
    define m where "m = (Unix t - Unix (win_anchor w)) mod win_period w"
    have m: "0 \<le> m" "m + 1 \<le> win_period w" using p by (simp_all add: m_def add1_zle_eq)
    have s: "cyc_start (newCycle w pid t) = time_of_unix (Unix t - m)"
      using newCycle_anchored [OF False p(1) assms(2,3)] by (simp add: m_def)
    have "t = (Unix t + unix_epoch_seconds) * second + Nanosecond t" using time_split [of t] by (simp add: time_of_unix_def)
    then show ?thesis unfolding s time_of_unix_def using m Nanosecond_bounds [of t] by (simp add: algebra_simps)
  qed
  then show "cyc_start (newCycle w pid t) \<le> t" "t < cyc_end (newCycle w pid t)"
    by (simp_all add: newCycle_end sec)
qed

text \<open>The grid is stable: the cycle of a cycle's own start is that cycle.\<close>

lemma newCycle_start_idem:
  assumes "\<not> IsZero (win_anchor w)" "0 < win_period w" "clock_ok t" "clock_ok (win_anchor w)"
    "clock_ok (cyc_start (newCycle w pid t))"
  shows "cyc_start (newCycle w pid' (cyc_start (newCycle w pid t))) = cyc_start (newCycle w pid t)"
proof -
  define d where "d = Unix t - Unix (win_anchor w)"
  have s: "cyc_start (newCycle w pid t) = time_of_unix (Unix t - d mod win_period w)"
    using newCycle_anchored [OF assms(1-4)] by (simp add: d_def)
  have "(Unix t - d mod win_period w - Unix (win_anchor w)) mod win_period w = (d - d mod win_period w) mod win_period w"
    by (simp add: d_def algebra_simps)
  also have "\<dots> = 0" by (simp add: minus_mod_eq_mult_div)
  finally show ?thesis
    using newCycle_anchored [OF assms(1,2,5,4)] by (simp add: s)
qed

lemma ValidateCycles_iff:
  "ValidateCycles key plan = Inr () \<longleftrightarrow>
     (ks_plan key = [] \<or> pln_id plan = ks_plan key) \<and>
     (\<forall>(wid, c) \<in> set (ks_cycles key). \<not> cycle_invalid key plan wid c)"
  by (auto simp: ValidateCycles_def list_ex_iff)

text \<open>The values a cycle holds are values of their Go types.\<close>

definition cycle_typed :: "QuotaCycle \<Rightarrow> bool" where
  "cycle_typed c \<longleftrightarrow> is_f64 (cyc_spent c) \<and> in_int64 (cyc_tokens c) \<and> in_int64 (cyc_requests c)"

definition usage_ok :: "quotaUsage \<Rightarrow> bool" where
  "usage_ok u \<longleftrightarrow> nonneg (use_amount u) \<and> 0 \<le> use_tokens u \<and> use_tokens u \<le> max_int64 \<and>
     0 \<le> use_requests u \<and> use_requests u \<le> max_int64"

lemma addQuotaCount_eq:
  "0 \<le> a \<Longrightarrow> a \<le> max_int64 \<Longrightarrow> 0 \<le> d \<Longrightarrow> d \<le> max_int64 \<Longrightarrow> addQuotaCount a d = min max_int64 (a + d)"
  by (simp add: addQuotaCount_def wrap64_id_bounds min_def)

lemma cycle_invalid_cong:
  "ks_plan key = ks_plan key' \<Longrightarrow> cyc_plan c' = cyc_plan c \<Longrightarrow> cyc_start c' = cyc_start c \<Longrightarrow>
     cyc_end c' = cyc_end c \<Longrightarrow> cyc_since c' = cyc_since c \<Longrightarrow>
     \<not> invalidPrice (cyc_spent c') \<Longrightarrow> 0 \<le> cyc_requests c' \<Longrightarrow> 0 \<le> cyc_tokens c' \<Longrightarrow>
     \<not> cycle_invalid key plan wid c \<Longrightarrow> \<not> cycle_invalid key' plan wid c'"
  by (auto simp: cycle_invalid_def split: option.splits)

lemma cycle_validD:
  "\<not> cycle_invalid key plan wid c \<Longrightarrow>
     (\<exists>r. cyc_spent c = Fin r \<and> 0 \<le> r) \<and> 0 \<le> cyc_tokens c \<and> 0 \<le> cyc_requests c"
  by (cases "cyc_spent c") (auto simp: cycle_invalid_def invalidPrice_def IsNaN_def IsInf_def split: option.splits)

lemma charge_cycle_unchanged [simp]:
  "cyc_plan (charge_cycle p t u c) = cyc_plan c" "cyc_start (charge_cycle p t u c) = cyc_start c"
  "cyc_end (charge_cycle p t u c) = cyc_end c" "cyc_since (charge_cycle p t u c) = cyc_since c"
  by (simp_all add: charge_cycle_def)

lemma fle_refl: "x \<noteq> F_NaN \<Longrightarrow> fle x x"
  by (simp add: fle_def feq_def)

text \<open>Adding an amount and capping it at the largest finite value.\<close>

lemma capped_add:
  assumes "0 \<le> r" "is_f64 (Fin r)" "nonneg a"
  shows "\<exists>z. fmin (fadd (Fin r) a) (Fin max_float64) = Fin z \<and> 0 \<le> z \<and> is_f64 (Fin z) \<and> r \<le> z"
proof -
  have n: "nonneg (fadd (Fin r) a)" "is_f64 (fadd (Fin r) a)" using assms by auto
  obtain z where z: "fmin (fadd (Fin r) a) (Fin max_float64) = Fin z" "0 \<le> z" "is_f64 (Fin z)"
    using fmin_max_float64 [OF n] by blast
  have "fle (Fin r) (fadd (Fin r) a)" using assms by (intro fle_fadd_left) auto
  then have "r \<le> z \<or> max_float64 \<le> z"
    using z(1) n by (cases "fadd (Fin r) a") (auto simp: fmin_def fle_def feq_def split: if_splits)
  then have "r \<le> z" using is_f64_le_max [OF assms(1,2)] by linarith
  with z show ?thesis by blast
qed

text \<open>Usage only ever grows, inside its own cycle, and a valid cycle stays valid.\<close>

definition cycle_grows :: "QuotaCycle \<Rightarrow> QuotaCycle \<Rightarrow> bool" where
  "cycle_grows c c' \<longleftrightarrow>
     cyc_plan c' = cyc_plan c \<and> cyc_start c' = cyc_start c \<and> cyc_end c' = cyc_end c \<and> cyc_since c' = cyc_since c \<and>
     fle (cyc_spent c) (cyc_spent c') \<and> cyc_tokens c \<le> cyc_tokens c' \<and> cyc_requests c \<le> cyc_requests c'"

lemma charge_cycle_valid:
  assumes "\<not> cycle_invalid key plan wid c" "cycle_typed c" "usage_ok u" "ks_plan key' = ks_plan key"
  shows "\<not> cycle_invalid key' plan wid (charge_cycle p t u c)" "cycle_typed (charge_cycle p t u c)"
    "cycle_grows c (charge_cycle p t u c)"
proof -
  obtain r where r: "cyc_spent c = Fin r" "0 \<le> r" and t: "0 \<le> cyc_tokens c" "0 \<le> cyc_requests c"
    using cycle_validD [OF assms(1)] by blast
  have f: "is_f64 (Fin r)" and m: "cyc_tokens c \<le> max_int64" "cyc_requests c \<le> max_int64"
    using assms(2) r by (auto simp: cycle_typed_def in_int64_def simp del: is_f64.simps)
  have u: "nonneg (use_amount u)" "0 \<le> use_tokens u" "use_tokens u \<le> max_int64" "0 \<le> use_requests u"
     "use_requests u \<le> max_int64" using assms(3) by (auto simp: usage_ok_def)
  obtain z where z: "fmin (fadd (Fin r) (use_amount u)) (Fin max_float64) = Fin z" "0 \<le> z" "is_f64 (Fin z)" "r \<le> z"
    using capped_add [OF r(2) f u(1)] by blast
  define c' where "c' = charge_cycle p t u c"
  have c': "(cyc_spent c' = Fin r \<or> cyc_spent c' = Fin z) \<and>
      (cyc_tokens c' = cyc_tokens c \<or> cyc_tokens c' = min max_int64 (cyc_tokens c + use_tokens u)) \<and>
      (cyc_requests c' = cyc_requests c \<or> cyc_requests c' = min max_int64 (cyc_requests c + use_requests u))"
    using r z(1) t m u by (auto simp: c'_def charge_cycle_def addQuotaCount_eq simp del: fadd.simps)
  have "0 \<le> cyc_tokens c'" "0 \<le> cyc_requests c'" "cyc_tokens c \<le> cyc_tokens c'" "cyc_requests c \<le> cyc_requests c'"
    "cyc_tokens c' \<le> max_int64" "cyc_requests c' \<le> max_int64"
    using c' t m u by (auto simp: min_def)
  note counts = this
  have spent: "is_f64 (cyc_spent c')" "fle (cyc_spent c) (cyc_spent c')" "\<not> invalidPrice (cyc_spent c')"
    using c' r z f by (auto simp: fle_def feq_def invalidPrice_def IsNaN_def IsInf_def simp del: is_f64.simps)
  have same: "cyc_plan c' = cyc_plan c" "cyc_start c' = cyc_start c" "cyc_end c' = cyc_end c" "cyc_since c' = cyc_since c"
    by (simp_all add: c'_def)
  show "\<not> cycle_invalid key' plan wid c'"
    by (rule cycle_invalid_cong [OF assms(4) [symmetric] same spent(3) counts(2,1) assms(1)])
  show "cycle_typed c'" using spent counts by (simp add: cycle_typed_def in_int64_def del: is_f64.simps)
  show "cycle_grows c c'" using spent counts same by (simp add: cycle_grows_def)
qed

lemma set_map_values: "(k, w) \<in> set (map_values f m) \<longleftrightarrow> (\<exists>v. (k, v) \<in> set m \<and> w = f k v)"
  by (auto simp: map_values_def)

definition cycles_typed :: "KeyState \<Rightarrow> bool" where
  "cycles_typed key \<longleftrightarrow> (\<forall>(k, c) \<in> set (ks_cycles key). cycle_typed c)"

lemma chargeCycles_plan [simp]: "ks_plan (chargeCycles key t u) = ks_plan key"
  by (simp add: chargeCycles_def)

lemma chargeCycles_keeps:
  assumes "ValidateCycles key plan = Inr ()" "cycles_typed key" "usage_ok u"
  shows "ValidateCycles (chargeCycles key t u) plan = Inr ()" "cycles_typed (chargeCycles key t u)"
proof -
  have c: "\<not> cycle_invalid key' plan wid (charge_cycle p t u c)" "cycle_typed (charge_cycle p t u c)"
    if "(wid, c) \<in> set (ks_cycles key)" "ks_plan key' = ks_plan key" for wid c p key'
  proof -
    have "\<not> cycle_invalid key plan wid c" "cycle_typed c"
      using that(1) assms(1,2) by (auto simp: ValidateCycles_iff cycles_typed_def)
    from charge_cycle_valid(1,2) [OF this assms(3) that(2)]
    show "\<not> cycle_invalid key' plan wid (charge_cycle p t u c)" "cycle_typed (charge_cycle p t u c)" .
  qed
  show "ValidateCycles (chargeCycles key t u) plan = Inr ()"
    using assms(1) c by (auto simp: ValidateCycles_iff chargeCycles_def set_map_values)
  show "cycles_typed (chargeCycles key t u)"
    using assms(2) c by (auto simp: cycles_typed_def chargeCycles_def set_map_values)
qed

lemma activate_fold:
  assumes "foldl (activate_window pid now) (b, m) ws = (b', m')"
  shows "set m' \<subseteq> set m \<union> (\<lambda>w. (win_id w, newCycle w pid now)) ` set ws"
    "\<And>k. has_key m k \<Longrightarrow> map_of m' k = map_of m k" "\<forall>w \<in> set ws. has_key m' (win_id w)"
    "wf_map m \<Longrightarrow> wf_map m'" "b \<longrightarrow> b'" "\<not> b' \<Longrightarrow> m' = m"
proof -
  have "set m' \<subseteq> set m \<union> (\<lambda>w. (win_id w, newCycle w pid now)) ` set ws \<and>
    (\<forall>k. has_key m k \<longrightarrow> map_of m' k = map_of m k) \<and> (\<forall>w \<in> set ws. has_key m' (win_id w)) \<and>
    (wf_map m \<longrightarrow> wf_map m') \<and> (b \<longrightarrow> b') \<and> (\<not> b' \<longrightarrow> m' = m)"
    using assms
  proof (induction ws arbitrary: b m)
    case (Cons w ws)
    show ?case
    proof (cases "has_key m (win_id w)")
      case True
      then have "activate_window pid now (b, m) w = (b, m)" by (simp add: activate_window_def)
      then have "foldl (activate_window pid now) (b, m) ws = (b', m')" using Cons.prems by simp
      from Cons.IH [OF this] True show ?thesis by (auto simp: has_key_def)
    next
      case False
      let ?m = "AList.update (win_id w) (newCycle w pid now) m"
      have "activate_window pid now (b, m) w = (True, ?m)" using False by (simp add: activate_window_def)
      then have "foldl (activate_window pid now) (True, ?m) ws = (b', m')" using Cons.prems by simp
      note IH = Cons.IH [OF this]
      have "set m' \<subseteq> set m \<union> (\<lambda>w. (win_id w, newCycle w pid now)) ` set (w # ws)"
        using IH set_update_subset [of "win_id w" "newCycle w pid now" m] by auto
      moreover have "map_of m' k = map_of m k" if "has_key m k" for k
        using IH that False by (auto simp: has_key_def)
      moreover have "has_key m' (win_id w)" using IH by (auto simp: has_key_def)
      ultimately show ?thesis using IH by auto
    qed
  qed simp
  then show "set m' \<subseteq> set m \<union> (\<lambda>w. (win_id w, newCycle w pid now)) ` set ws"
    "\<And>k. has_key m k \<Longrightarrow> map_of m' k = map_of m k" "\<forall>w \<in> set ws. has_key m' (win_id w)"
    "wf_map m \<Longrightarrow> wf_map m'" "b \<longrightarrow> b'" "\<not> b' \<Longrightarrow> m' = m" by blast+
qed

lemma activateCycles_other [simp]:
  "ks_plan (snd (activateCycles key plan now)) = ks_plan key"
  "ks_bindings (snd (activateCycles key plan now)) = ks_bindings key"
  "ks_limit (snd (activateCycles key plan now)) = ks_limit key"
  by (simp_all add: activateCycles_def split: prod.splits)

lemma clock_ok_window: "plan_ok plan \<Longrightarrow> w \<in> set (pln_windows plan) \<Longrightarrow> clock_ok (win_anchor w)"
  using plan_okD(7) [of plan w] Year_clock_ok [of "win_anchor w"]
  by (cases "IsZero (win_anchor w)") (auto simp: IsZero_def clock_ok_def Unix_def)

text \<open>The instants the host's clock shows: 1970 or later, within range.\<close>

definition now_ok :: "time \<Rightarrow> bool" where
  "now_ok t \<longleftrightarrow> 0 \<le> Unix t \<and> clock_ok t"

lemma newCycle_start_late:
  assumes "window_ok w" "now_ok t" "clock_ok (win_anchor w)"
  shows "0 < cyc_start (newCycle w pid t)" "clock_ok (cyc_start (newCycle w pid t))"
proof -
  have p: "0 < win_period w" "win_period w \<le> max_period_seconds" using assms by (auto simp: window_ok_def)
  then have sec: "seconds (win_period w) = win_period w * second" by (intro seconds_exact) auto
  define s where "s = cyc_start (newCycle w pid t)"
  have c: "clock_ok t" "0 \<le> Unix t" using assms by (auto simp: now_ok_def)
  have s: "s \<le> t" "t < s + win_period w * second"
    using newCycle_spans [OF assms(1) c(1) assms(3), of pid] by (simp_all add: s_def newCycle_end sec)
  have "unix_epoch_seconds * second \<le> t"
    using c(2) time_of_unix_Unix_le [of t] by (simp add: time_of_unix_def)
  then have l: "unix_epoch_seconds * second - max_period_seconds * second < s" using s p by linarith
  then show "0 < s" by simp
  have "- max_period_seconds - 1 \<le> s div second - unix_epoch_seconds" using l by linarith
  moreover have "s div second \<le> t div second" using s(1) by (intro zdiv_mono1) auto
  ultimately show "clock_ok s" using c(1) by (auto simp: clock_ok_def Unix_def)
qed

lemma newCycle_valid:
  assumes "plan_ok plan" "w \<in> set (pln_windows plan)" "ks_plan key = pln_id plan" "now_ok now"
  shows "\<not> cycle_invalid key plan (win_id w) (newCycle w (pln_id plan) now)"
proof -
  have w: "window_ok w" "clock_ok (win_anchor w)" using assms by (auto intro: plan_okD clock_ok_window)
  have p: "0 < win_period w" "win_period w \<le> max_period_seconds" using w by (auto simp: window_ok_def)
  then have sec: "seconds (win_period w) = win_period w * second" by (intro seconds_exact) auto
  have f: "find_window plan (win_id w) = Some w"
  proof -
    have "distinct (map win_id (pln_windows plan))" using assms(1) by (rule plan_okD)
    moreover obtain w' where "find_window plan (win_id w) = Some w'"
      using assms(2) by (cases "find_window plan (win_id w)") (auto simp: find_window_def find_None_all)
    ultimately show ?thesis
      using assms(2) find_Some_prop [of "\<lambda>w'. win_id w' = win_id w" "pln_windows plan" w']
      by (auto simp: find_window_def distinct_map inj_on_def)
  qed
  have c: "clock_ok now" using assms by (simp add: now_ok_def)
  note s = newCycle_spans [OF w(1) c w(2), of "pln_id plan"]
  note l = newCycle_start_late [OF w(1) assms(4) w(2), of "pln_id plan"]
  have i: "\<not> IsZero (win_anchor w) \<Longrightarrow>
     cyc_start (newCycle w (pln_id plan) (cyc_start (newCycle w (pln_id plan) now))) = cyc_start (newCycle w (pln_id plan) now)"
    using newCycle_start_idem [OF _ p(1) c w(2) l(2)] by blast
  have e: "0 < cyc_end (newCycle w (pln_id plan) now)" using l p by (simp add: newCycle_end sec)
  show ?thesis
    using f s l i e assms(3)
    by (auto simp: cycle_invalid_def IsZero_def newCycle_end newCycle_since invalidPrice_def IsNaN_def IsInf_def)
qed

lemma activateCycles_valid:
  assumes "plan_ok plan" "ks_plan key = pln_id plan" "now_ok now" "ValidateCycles key plan = Inr ()"
  shows "ValidateCycles (snd (activateCycles key plan now)) plan = Inr ()"
proof -
  obtain b m where bm: "foldl (activate_window (pln_id plan) now) (False, ks_cycles key) (pln_windows plan) = (b, m)"
    by (cases "foldl (activate_window (pln_id plan) now) (False, ks_cycles key) (pln_windows plan)")
  have cong: "cycle_invalid (key\<lparr>ks_cycles := m\<rparr>) plan = cycle_invalid key plan"
    by (intro ext) (simp add: cycle_invalid_def cong: option.case_cong)
  have "\<not> cycle_invalid key plan k c" if "(k, c) \<in> set m" for k c
  proof -
    from that activate_fold(1) [OF bm] consider "(k, c) \<in> set (ks_cycles key)"
      | w where "w \<in> set (pln_windows plan)" "k = win_id w" "c = newCycle w (pln_id plan) now" by auto
    then show ?thesis
    proof cases
      case 1
      then show ?thesis using assms(4) by (auto simp: ValidateCycles_iff)
    next
      case 2
      then show ?thesis using newCycle_valid [OF assms(1) _ assms(2,3)] by simp
    qed
  qed
  then show ?thesis using assms(4) by (auto simp: ValidateCycles_iff activateCycles_def bm cong)
qed

section \<open>Lemmas on views\<close>

definition window_exhausted :: "QuotaWindow \<Rightarrow> QuotaCycle \<Rightarrow> bool" where
  "window_exhausted w c \<longleftrightarrow>
     (flt (Fin 0) (win_amount w) \<and> fle (win_amount w) (cyc_spent c)) \<or>
     (0 < win_tokens w \<and> win_tokens w \<le> cyc_tokens c) \<or>
     (0 < win_requests w \<and> win_requests w \<le> cyc_requests c)"

lemma qwv_blocked_iff: "\<not> invalidPrice (win_amount w) \<Longrightarrow> qwv_blocked (window_view w c) \<longleftrightarrow> window_exhausted w c"
proof -
  assume v: "\<not> invalidPrice (win_amount w)"
  then have "fle (win_amount w) (Fin 0) \<longleftrightarrow> \<not> flt (Fin 0) (win_amount w)"
    by (cases "win_amount w") (auto simp: invalidPrice_def fle_def feq_def IsNaN_def IsInf_def)
  then show ?thesis
    by (auto simp: window_view_def Let_def appendQuotaBalance_int_def appendQuotaBalance_float_def window_exhausted_def)
qed

lemma qwv_end_view [simp]: "qwv_end (window_view w c) = cyc_end c" "qwv_start (window_view w c) = cyc_start c"
  "qwv_id (window_view w c) = win_id w"
  by (simp_all add: window_view_def Let_def)

lemma quotaView_fold:
  "let v' = foldl (add_window_view key plan now) v ws;
       blocked = filter (\<lambda>w. qwv_blocked (window_view w (current_cycle key plan now w))) ws
   in qv_unlimited v' = qv_unlimited v \<and>
      qv_blocked v' = (qv_blocked v \<or> blocked \<noteq> []) \<and>
      qv_retry_at v' = foldl max (qv_retry_at v) (map (\<lambda>w. cyc_end (current_cycle key plan now w)) blocked) \<and>
      qv_windows v' = qv_windows v @ map (\<lambda>w. window_view w (current_cycle key plan now w)) ws"
proof (induction ws arbitrary: v)
  case (Cons w ws)
  have "qv_retry_at (add_window_view key plan now v w) =
     (if qwv_blocked (window_view w (current_cycle key plan now w))
      then max (qv_retry_at v) (cyc_end (current_cycle key plan now w)) else qv_retry_at v)"
    by (simp add: add_window_view_def Let_def max_def)
  with Cons.IH [of "add_window_view key plan now v w"] show ?case
    by (simp add: Let_def) (simp add: add_window_view_def Let_def)
qed simp

lemma foldl_max_bounds:
  "(m :: int) \<le> foldl max m xs" "x \<in> set xs \<Longrightarrow> x \<le> foldl max m xs" "foldl max m xs \<in> insert m (set xs)"
proof -
  have "m \<le> foldl max m xs \<and> (\<forall>x \<in> set xs. x \<le> foldl max m xs) \<and> foldl max m xs \<in> insert m (set xs)" for m :: int
  proof (induction xs arbitrary: m)
    case (Cons a xs)
    from Cons.IH [of "max m a"] show ?case by (auto simp: max_def split: if_splits)
  qed simp
  then show "(m :: int) \<le> foldl max m xs" "x \<in> set xs \<Longrightarrow> x \<le> foldl max m xs" "foldl max m xs \<in> insert m (set xs)"
    by blast+
qed

lemma quotaView_blocked:
  "qv_blocked (quotaView key plan now) \<longleftrightarrow>
     (\<exists>w \<in> set (pln_windows plan). qwv_blocked (window_view w (current_cycle key plan now w)))"
  using quotaView_fold [of key plan now] by (simp add: quotaView_def Let_def filter_empty_conv)

lemma quotaView_windows:
  "qv_windows (quotaView key plan now) =
     map (\<lambda>w. window_view w (current_cycle key plan now w)) (pln_windows plan)"
  using quotaView_fold [of key plan now] by (simp add: quotaView_def Let_def)

lemma quotaView_retry:
  assumes "w \<in> set (pln_windows plan)" "qwv_blocked (window_view w (current_cycle key plan now w))"
  shows "cyc_end (current_cycle key plan now w) \<le> qv_retry_at (quotaView key plan now)"
  using quotaView_fold [of key plan now] assms
  by (auto simp: quotaView_def Let_def intro!: foldl_max_bounds(2))

lemma quotaView_retry_in:
  "qv_retry_at (quotaView key plan now) \<in> insert 0 ((\<lambda>w. cyc_end (current_cycle key plan now w)) `
     {w \<in> set (pln_windows plan). qwv_blocked (window_view w (current_cycle key plan now w))})"
  using quotaView_fold [of key plan now] foldl_max_bounds(3)
  by (force simp: quotaView_def Let_def)

section \<open>Lemmas on prepared windows\<close>

definition anchor_admissible :: "QuotaWindow list \<Rightarrow> time \<Rightarrow> QuotaWindow \<Rightarrow> bool" where
  "anchor_admissible existing now w \<longleftrightarrow>
     IsZero (win_anchor w) \<or>
     (\<exists>o' \<in> set existing. win_id o' = win_id w \<and> win_anchor o' = win_anchor w \<and> win_period o' = win_period w) \<or>
     (now < win_anchor w \<and> win_anchor w \<le> now + win_period w * second)"

lemma prepare_anchor_Inr:
  assumes "prepare_anchor old now w = Inr v"
    "\<And>o'. old = Some o' \<Longrightarrow> o' \<in> set existing \<and> win_id o' = win_id w"
  shows "anchor_admissible existing now v \<and>
    v\<lparr>win_anchor := 0\<rparr> = w\<lparr>win_anchor := 0\<rparr> \<and> (IsZero (win_anchor v) \<longleftrightarrow> IsZero (win_anchor w))"
proof (cases "IsZero (win_anchor w)")
  case True
  then show ?thesis using assms by (simp add: prepare_anchor_def anchor_admissible_def)
next
  case False
  show ?thesis
  proof (cases "case old of None \<Rightarrow> False | Some o' \<Rightarrow> sameSchedule w o'")
    case True
    then obtain o' where o: "old = Some o'" "sameSchedule w o'" by (cases old) auto
    then have v: "v = w\<lparr>win_anchor := win_anchor o'\<rparr>" using assms(1) False by (simp add: prepare_anchor_def)
    have "win_period o' = win_period w" "IsZero (win_anchor o') = IsZero (win_anchor w)"
      using o(2) by (auto simp: sameSchedule_def split: if_splits)
    then show ?thesis using assms(2) [OF o(1)] by (auto simp: v anchor_admissible_def)
  next
    case no: False
    then have v: "v = w" and c: "0 < win_period w" "win_period w \<le> max_period_seconds" "now < win_anchor w"
        "win_anchor w \<le> now + seconds (win_period w)"
      using assms(1) False by (auto simp: prepare_anchor_def split: if_splits)
    then show ?thesis using seconds_exact [of "win_period w"] by (simp add: anchor_admissible_def)
  qed
qed

lemma prepare_window_Inr:
  assumes "prepare_window rand_id existing now i w0 = Inr w" "\<forall>o' \<in> set existing. win_id o' \<noteq> []"
  shows "w\<lparr>win_anchor := 0, win_id := []\<rparr> = w0\<lparr>win_anchor := 0, win_id := [], win_name := TrimSpace (win_name w0)\<rparr> \<and>
    (win_id w0 \<noteq> [] \<longrightarrow> win_id w = win_id w0 \<and> win_id w0 \<in> win_id ` set existing) \<and> anchor_admissible existing now w"
proof (cases "win_id w0 = []")
  case True
  define w1 where "w1 = w0\<lparr>win_name := TrimSpace (win_name w0)\<rparr>"
  have "find (\<lambda>o'. win_id o' = []) existing = None" using assms(2) by (auto simp: find_None_all)
  then obtain new where "prepare_anchor None now (w1\<lparr>win_id := new\<rparr>) = Inr w"
    using assms(1) True by (auto simp: prepare_window_def Let_def w1_def)
  from prepare_anchor_Inr [OF this, of existing] have
    a: "anchor_admissible existing now w" "w\<lparr>win_anchor := 0\<rparr> = w1\<lparr>win_id := new, win_anchor := 0\<rparr>" by auto
  from a(2) have "(w\<lparr>win_anchor := 0\<rparr>)\<lparr>win_id := []\<rparr> = w1\<lparr>win_id := [], win_anchor := 0\<rparr>" by simp
  then show ?thesis using a(1) True by (simp add: w1_def)
next
  case False
  define w1 where "w1 = w0\<lparr>win_name := TrimSpace (win_name w0)\<rparr>"
  define old where "old = find (\<lambda>o'. win_id o' = win_id w1) existing"
  have r: "old \<noteq> None" "prepare_anchor old now w1 = Inr w"
    using assms(1) False unfolding prepare_window_def Let_def w1_def [symmetric] old_def [symmetric]
    by (simp_all add: w1_def split: if_splits)
  have o: "o' \<in> set existing \<and> win_id o' = win_id w1" if "old = Some o'" for o'
    using that find_Some_prop unfolding old_def by fast
  from prepare_anchor_Inr [OF r(2) o] have
    a: "anchor_admissible existing now w" "w\<lparr>win_anchor := 0\<rparr> = w1\<lparr>win_anchor := 0\<rparr>" by auto
  from a(2) have i: "win_id w = win_id w1" by (metis QuotaWindow.select_convs(1) QuotaWindow.surjective QuotaWindow.update_convs(7))
  from a(2) have "(w\<lparr>win_anchor := 0\<rparr>)\<lparr>win_id := []\<rparr> = (w1\<lparr>win_anchor := 0\<rparr>)\<lparr>win_id := []\<rparr>" by simp
  moreover obtain o' where "old = Some o'" using r(1) by blast
  then have "win_id w1 \<in> win_id ` set existing" using o by (metis imageI)
  ultimately show ?thesis using a(1) i by (simp add: w1_def)
qed

section \<open>Properties\<close>

text \<open>C24: a new cycle contains the instant it is opened at, lasts exactly one period, and a cycle with an anchor
  starts on the grid of the anchor, so that cycles opened anywhere in a period are the same cycle.\<close>

theorem newCycle_contains_now:
  assumes "window_ok w" "clock_ok now" "clock_ok (win_anchor w)"
  shows "cyc_start (newCycle w pid now) \<le> now \<and> now < cyc_end (newCycle w pid now) \<and>
    cyc_end (newCycle w pid now) - cyc_start (newCycle w pid now) = win_period w * second \<and>
    (\<not> IsZero (win_anchor w) \<longrightarrow> win_period w dvd Unix (cyc_start (newCycle w pid now)) - Unix (win_anchor w)) \<and>
    (IsZero (win_anchor w) \<longrightarrow> cyc_start (newCycle w pid now) = now)"
proof -
  have p: "0 < win_period w" "win_period w \<le> max_period_seconds" using assms by (auto simp: window_ok_def)
  have d: "win_period w dvd Unix (cyc_start (newCycle w pid now)) - Unix (win_anchor w)" if "\<not> IsZero (win_anchor w)"
  proof -
    define d where "d = Unix now - Unix (win_anchor w)"
    have "Unix (cyc_start (newCycle w pid now)) - Unix (win_anchor w) = d - d mod win_period w"
      using newCycle_anchored [OF that p(1) assms(2,3)] by (simp add: d_def)
    then show ?thesis by (simp add: dvd_minus_mod)
  qed
  show ?thesis
    using newCycle_spans [OF assms] seconds_exact [of "win_period w"] p d by (simp add: newCycle_end newCycle_free)
qed

definition sample_window :: QuotaWindow where
  "sample_window = \<lparr>win_id = ''w'', win_name = ''daily'', win_period = 86400, win_amount = Fin 10, win_tokens = 0,
     win_requests = 0, win_anchor = time_of_unix 1700000000\<rparr>"

lemma sample_window_ok: "window_ok sample_window"
  by (simp add: window_ok_def sample_window_def invalidPrice_def IsNaN_def IsInf_def maxQuotaCount_def)

theorem newCycle_contains_now_witness:
  "cyc_start (newCycle sample_window ''p'' (time_of_unix 1700100000)) = time_of_unix 1700086400 \<and>
   time_of_unix 1700100000 < cyc_end (newCycle sample_window ''p'' (time_of_unix 1700100000))"
proof -
  have "clock_ok (time_of_unix 1700100000)" "clock_ok (win_anchor sample_window)"
    by (simp_all add: clock_ok_def sample_window_def)
  from newCycle_contains_now [OF sample_window_ok this, of "''p''"] show ?thesis
    by (simp add: newCycle_def sample_window_def IsZero_def time_of_unix_def no_cycle_def Unix_def wrap64_def seconds_def)
qed

text \<open>C25: charging usage never makes the stored cycles of a key invalid, never lowers a counter, never moves a
  cycle, and leaves alone every cycle that the instant of admission is not in.\<close>

theorem chargeCycles_sound:
  assumes "ValidateCycles key plan = Inr ()" "cycles_typed key" "usage_ok u" "map_of (ks_cycles key) wid = Some c"
  shows "ValidateCycles (chargeCycles key t u) plan = Inr () \<and>
    (\<exists>c'. map_of (ks_cycles (chargeCycles key t u)) wid = Some c' \<and> cycle_grows c c' \<and>
       (\<not> in_cycle (ks_plan key) t c \<longrightarrow> c' = c))"
proof -
  have "(wid, c) \<in> set (ks_cycles key)" using assms(4) by (rule map_of_SomeD)
  then have v: "\<not> cycle_invalid key plan wid c" "cycle_typed c"
    using assms(1,2) by (auto simp: ValidateCycles_iff cycles_typed_def)
  have "cycle_grows c (charge_cycle (ks_plan key) t u c)"
    by (rule charge_cycle_valid(3) [OF v assms(3) refl])
  moreover have "cycle_grows c c"
    using cycle_validD [OF v(1)] by (auto simp: cycle_grows_def fle_def feq_def)
  ultimately show ?thesis
    using chargeCycles_keeps(1) [OF assms(1-3)] assms(4) by (auto simp: chargeCycles_def charge_cycle_def)
qed


definition sample_plan :: Plan where
  "sample_plan = \<lparr>pln_id = ''p'', pln_name = ''plan'', pln_windows = [sample_window]\<rparr>"

definition sample_key :: KeyState where
  "sample_key = new_key\<lparr>ks_plan := ''p'', ks_cycles := [(''w'', newCycle sample_window ''p'' (time_of_unix 1700100000))]\<rparr>"

definition sample_usage :: quotaUsage where
  "sample_usage = \<lparr>use_amount = Fin 2, use_tokens = 100, use_requests = 1\<rparr>"

lemma sample_cycle: "newCycle sample_window ''p'' (time_of_unix 1700100000) =
    no_cycle\<lparr>cyc_plan := ''p'', cyc_start := time_of_unix 1700086400, cyc_end := time_of_unix 1700172800,
      cyc_since := time_of_unix 1700100000\<rparr>"
  by (simp add: newCycle_def sample_window_def IsZero_def time_of_unix_def no_cycle_def Unix_def wrap64_def seconds_def)

lemma sample_key_valid: "ValidateCycles sample_key sample_plan = Inr ()"
  by (simp add: ValidateCycles_iff sample_key_def sample_plan_def cycle_invalid_def find_window_def sample_cycle)
    (simp add: sample_window_def no_cycle_def new_key_def IsZero_def time_of_unix_def invalidPrice_def IsNaN_def
      IsInf_def newCycle_def Unix_def wrap64_def seconds_def)

theorem chargeCycles_sound_witness:
  "ValidateCycles (chargeCycles sample_key (time_of_unix 1700100001) sample_usage) sample_plan = Inr ()"
proof -
  have t: "cycles_typed sample_key"
    by (simp add: cycles_typed_def sample_key_def sample_cycle cycle_typed_def no_cycle_def in_int64_def del: is_f64.simps)
  have u: "usage_ok sample_usage" by (simp add: usage_ok_def sample_usage_def)
  have "map_of (ks_cycles sample_key) ''w'' = Some (newCycle sample_window ''p'' (time_of_unix 1700100000))"
    by (simp add: sample_key_def)
  from chargeCycles_sound [OF sample_key_valid t u this] show ?thesis by blast
qed

lemma prepare_loop:
  assumes "try_map (\<lambda>(i, w). prepare_window rand_id existing now i w) (enumerate n ws) = Inr out"
    "\<forall>o' \<in> set existing. win_id o' \<noteq> []"
  shows "map win_period out = map win_period ws \<and> (\<forall>w \<in> set out. anchor_admissible existing now w)"
  using assms(1)
proof (induction ws arbitrary: n out)
  case (Cons w ws)
  then obtain v vs where v: "prepare_window rand_id existing now n w = Inr v"
    "try_map (\<lambda>(i, w). prepare_window rand_id existing now i w) (enumerate (Suc n) ws) = Inr vs" "out = v # vs"
    by auto
  have a: "anchor_admissible existing now v"
    and e: "v\<lparr>win_anchor := 0, win_id := []\<rparr> = w\<lparr>win_anchor := 0, win_id := [], win_name := TrimSpace (win_name w)\<rparr>"
    using prepare_window_Inr [OF v(1) assms(2)] by auto
  have "win_period (v\<lparr>win_anchor := 0, win_id := []\<rparr>) = win_period w" unfolding e by simp
  with a Cons.IH [OF v(2)] show ?case by (simp add: v(3))
qed simp

text \<open>The windows a plan edit stores are ordered by period, with the periods the operator gave, and an anchor
  is either the one the window already ran on or lies in the future at most one period away, so that an edit never
  puts the current instant outside the first cycle.\<close>

theorem prepareWindows_ok:
  assumes "prepareWindows rand_id ws existing now = Inr out" "\<forall>o' \<in> set existing. win_id o' \<noteq> []"
  shows "sorted (map win_period out) \<and> mset (map win_period out) = mset (map win_period ws) \<and>
    (\<forall>w \<in> set out. anchor_admissible existing now w)"
proof -
  obtain vs where vs: "try_map (\<lambda>(i, w). prepare_window rand_id existing now i w) (enumerate 0 ws) = Inr vs"
    and out: "out = sort_key win_period vs"
    using assms(1) by (auto simp: prepareWindows_def)
  have "map win_period vs = map win_period ws" "\<forall>w \<in> set vs. anchor_admissible existing now w"
    using prepare_loop [OF vs assms(2)] by auto
  then show ?thesis by (simp add: out) (metis mset_map mset_sort)
qed

theorem prepareWindows_ok_witness:
  "sorted (map win_period [sample_window, sample_window\<lparr>win_id := ''v'', win_period := 604800\<rparr>])"
proof -
  let ?v = "sample_window\<lparr>win_id := ''v'', win_period := 604800\<rparr>"
  have t: "TrimSpace ''daily'' = ''daily''" by (rule TrimSpace_visible) (simp add: visible_def)
  have "prepareWindows (\<lambda>_. Inl (invalidf ''no entropy'')) [?v, sample_window] [sample_window, ?v] 0 = Inr [sample_window, ?v]"
    by (simp add: prepareWindows_def prepare_window_def prepare_anchor_def sample_window_def t sameSchedule_def
        IsZero_def time_of_unix_def)
  from prepareWindows_ok [OF this] show ?thesis by (simp add: sample_window_def)
qed

end
