(* ===== verification/GroupTypes.thy ===== *)
theory GroupTypes
  imports Quota
begin

text \<open>
  Resource groups, group plans, key bindings and day ledgers: \<^verbatim>\<open>internal/billing/group_types.go\<close>.
  A ledger entry is keyed by scope, group and Shanghai date joined with zero bytes; \<open>GroupDay_Key_inject\<close>
  shows that two entries never share a key. \<open>modelOwner\<close> visits the groups in map order;
  \<open>modelOwner_perm\<close> shows that the order does not matter while every model has one owner.
\<close>

section \<open>Data\<close>

record GroupPool =
  gp_mode :: string
  gp_allow_refs :: "string list"
  gp_deny_refs :: "string list"
  gp_allow_classes :: "CredentialProviderSelector list"
  gp_deny_classes :: "CredentialProviderSelector list"

record ResourceGroup =
  rg_id :: string
  rg_name :: string
  rg_description :: string
  rg_status :: string
  rg_enabled :: bool
  rg_models :: "string list"
  rg_pool :: GroupPool
  rg_revision :: int
  rg_created_at :: time
  rg_updated_at :: time
  rg_published_at :: "time option"

record GroupPolicy =
  pol_group :: string
  pol_enabled :: bool
  pol_daily_limit :: "USD option"
  pol_concurrency_limit :: "int option"

record GroupPlan =
  gpl_id :: string
  gpl_name :: string
  gpl_revision :: int
  gpl_policies :: "GroupPolicy list"
  gpl_created_at :: time
  gpl_updated_at :: time
  gpl_bound_keys :: int

record GroupBindingPeriod =
  bp_mode :: string
  bp_plan :: "string option"
  bp_from :: time
  bp_to :: "time option"

record GroupKeyBinding =
  kb_unclassified :: int
  kb_scope :: string
  kb_revision :: int
  kb_periods :: "GroupBindingPeriod list"

record GroupBindingView =
  bv_scope :: string
  bv_revision :: int
  bv_active :: "GroupBindingPeriod option"
  bv_pending :: "GroupBindingPeriod option"

record GroupDay =
  gd_error :: string
  gd_scope :: string
  gd_group :: string
  gd_date :: string
  gd_raw :: USD
  gd_credit :: USD
  gd_cutoff :: "time option"
  gd_tokens :: int
  gd_requests :: int
  gd_incomplete :: int
  gd_updated_at :: time

record GroupAttribution =
  at_group :: string
  at_classification :: string
  at_pricing :: string
  at_model_key :: string
  at_published_at :: "time option"
  at_date :: string
  at_cost :: "USD option"
  at_reason :: string

text \<open>The JSON of an audited object stands for the object itself.\<close>

datatype audited = Audit_None | Audit_Group ResourceGroup | Audit_Plan GroupPlan
  | Audit_Binding GroupKeyBinding | Audit_Day GroupDay

record GroupAudit =
  au_id :: int
  au_at :: time
  au_actor_kind :: string
  au_actor_id :: "string option"
  au_action :: string
  au_object_type :: string
  au_object_id :: string
  au_before :: audited
  au_after :: audited
  au_reason :: string
  au_result :: string

record SharedLabel =
  sl_instance :: string
  sl_kind :: string
  sl_subject :: string
  sl_external :: int
  sl_value :: string
  sl_source_note :: "string option"
  sl_fetched_at :: time

record GroupState =
  gs_groups :: "ResourceGroup smap"
  gs_plans :: "GroupPlan smap"
  gs_bindings :: "GroupKeyBinding smap"
  gs_days :: "GroupDay smap"
  gs_labels :: "SharedLabel smap"

definition NewGroupState :: GroupState where
  "NewGroupState = \<lparr>gs_groups = [], gs_plans = [], gs_bindings = [], gs_days = [], gs_labels = []\<rparr>"

text \<open>The zero values Go returns with a failed lookup.\<close>

definition empty_pool :: GroupPool where
  "empty_pool = \<lparr>gp_mode = [], gp_allow_refs = [], gp_deny_refs = [], gp_allow_classes = [], gp_deny_classes = []\<rparr>"

definition no_group :: ResourceGroup where
  "no_group = \<lparr>rg_id = [], rg_name = [], rg_description = [], rg_status = [], rg_enabled = False, rg_models = [],
     rg_pool = empty_pool, rg_revision = 0, rg_created_at = 0, rg_updated_at = 0, rg_published_at = None\<rparr>"

definition no_policy :: GroupPolicy where
  "no_policy = \<lparr>pol_group = [], pol_enabled = False, pol_daily_limit = None, pol_concurrency_limit = None\<rparr>"

definition no_binding :: GroupKeyBinding where
  "no_binding = \<lparr>kb_unclassified = 0, kb_scope = [], kb_revision = 0, kb_periods = []\<rparr>"

definition no_period :: GroupBindingPeriod where
  "no_period = \<lparr>bp_mode = [], bp_plan = None, bp_from = 0, bp_to = None\<rparr>"

definition new_day :: "string \<Rightarrow> string \<Rightarrow> string \<Rightarrow> GroupDay" where
  "new_day scope gid date = \<lparr>gd_error = [], gd_scope = scope, gd_group = gid, gd_date = date, gd_raw = 0,
     gd_credit = 0, gd_cutoff = None, gd_tokens = 0, gd_requests = 0, gd_incomplete = 0, gd_updated_at = 0\<rparr>"

section \<open>Operations\<close>

definition pool_Rule :: "GroupPool \<Rightarrow> RouteRule" where
  "pool_Rule p = empty_rule\<lparr>rr_credential_ids := gp_allow_refs p, rr_denied_credential_ids := gp_deny_refs p,
     rr_credential_providers := gp_allow_classes p, rr_denied_credential_providers := gp_deny_classes p\<rparr>"

definition pool_normalize :: "GroupPool \<Rightarrow> error + GroupPool" where
  "pool_normalize p =
     (if gp_mode p \<noteq> ''inherit'' \<and> gp_mode p \<noteq> ''selected'' then Inl (invalidf ''pool mode must be inherit or selected'')
      else if gp_mode p = ''inherit'' \<and> length (gp_allow_refs p) + length (gp_allow_classes p) > 0
        then Inl (invalidf ''inherit cannot hold an allow list'')
      else if gp_mode p = ''selected'' \<and> length (gp_allow_refs p) + length (gp_allow_classes p) = 0
        then Inl (invalidf ''a selected pool must not be empty'')
      else try_bind (NormalizeRouteRule (pool_Rule p)) (\<lambda>rule.
        Inr (p\<lparr>gp_allow_refs := rr_credential_ids rule, gp_deny_refs := rr_denied_credential_ids rule,
               gp_allow_classes := rr_credential_providers rule,
               gp_deny_classes := rr_denied_credential_providers rule\<rparr>)))"

definition nul :: char where
  "nul = CHR 0x00"

definition GroupDay_Key :: "GroupDay \<Rightarrow> string" where
  "GroupDay_Key d = gd_scope d @ [nul] @ gd_group d @ [nul] @ gd_date d"

definition SharedLabel_Key :: "SharedLabel \<Rightarrow> string" where
  "SharedLabel_Key l = sl_instance l @ [nul] @ sl_kind l @ [nul] @ sl_subject l"

definition groupDate :: "time \<Rightarrow> string" where
  "groupDate t = format_date (civil_of_days (shanghai_day t))"

text \<open>\<open>time.Date\<close> with the day after, which normalises into the next month or year.\<close>

definition nextGroupDay :: "time \<Rightarrow> time" where
  "nextGroupDay t =
     (case civil_of_days (shanghai_day t) of (y, m, d) \<Rightarrow> shanghai_midnight (days_of_civil y m (d + 1)))"

definition groupModel :: "string \<Rightarrow> string" where
  "groupModel model = ToLower (TrimSpace model)"

definition validGroupText :: "string \<Rightarrow> nat \<Rightarrow> bool \<Rightarrow> bool" where
  "validGroupText v maxRunes allow_empty \<longleftrightarrow>
     \<not> ((\<not> allow_empty \<and> TrimSpace v = []) \<or> length (runes v) > maxRunes) \<and> \<not> list_ex IsControl (runes v)"

definition in_period :: "time \<Rightarrow> GroupBindingPeriod \<Rightarrow> bool" where
  "in_period t p \<longleftrightarrow> bp_from p \<le> t \<and> (case bp_to p of None \<Rightarrow> True | Some u \<Rightarrow> t < u)"

definition lookup_binding :: "GroupState \<Rightarrow> string \<Rightarrow> GroupKeyBinding" where
  "lookup_binding g scope = (case map_of (gs_bindings g) scope of None \<Rightarrow> no_binding | Some b \<Rightarrow> b)"

definition group_binding :: "GroupState \<Rightarrow> string \<Rightarrow> time \<Rightarrow> GroupBindingPeriod \<times> bool" where
  "group_binding g scope t =
     (case find (in_period t) (kb_periods (lookup_binding g scope)) of
        Some p \<Rightarrow> (p, bp_mode p = ''grouped'')
      | None \<Rightarrow> (no_period, False))"

definition owns :: "time \<Rightarrow> string \<Rightarrow> ResourceGroup \<Rightarrow> bool" where
  "owns t key g \<longleftrightarrow>
     rg_status g \<noteq> ''draft'' \<and> (case rg_published_at g of None \<Rightarrow> False | Some p \<Rightarrow> p \<le> t) \<and>
     list_ex (\<lambda>m. groupModel m = key) (rg_models g)"

definition modelOwner :: "GroupState \<Rightarrow> string \<Rightarrow> time \<Rightarrow> ResourceGroup option" where
  "modelOwner g model t =
     (let key = groupModel model
      in if key = [] then None else find (owns t key) (map snd (gs_groups g)))"

definition requestModelOwner :: "GroupState \<Rightarrow> string \<Rightarrow> time \<Rightarrow> ResourceGroup option" where
  "requestModelOwner g model t =
     (case modelOwner g model t of
        Some owner \<Rightarrow> Some owner
      | None \<Rightarrow> modelOwner g (ModelWithoutThinkingSuffix model) t)"

definition group_policy :: "GroupState \<Rightarrow> string \<Rightarrow> string \<Rightarrow> GroupPolicy option" where
  "group_policy g planID groupID =
     (case map_of (gs_plans g) planID of
        None \<Rightarrow> None
      | Some plan \<Rightarrow> find (\<lambda>p. pol_group p = groupID) (gpl_policies plan))"

section \<open>Lemmas\<close>

lemma nextGroupDay_eq: "nextGroupDay t = shanghai_midnight (shanghai_day t + 1)"
proof -
  obtain y m d where c: "civil_of_days (shanghai_day t) = (y, m, d)" by (cases "civil_of_days (shanghai_day t)")
  then have "days_of_civil y m d = shanghai_day t" by (rule days_of_civil_of_days)
  with c show ?thesis by (simp add: nextGroupDay_def days_of_civil_next)
qed

lemma nextGroupDay_bounds: "t < nextGroupDay t" "nextGroupDay t \<le> t + day" "shanghai_day (nextGroupDay t) = shanghai_day t + 1"
proof -
  have "shanghai_midnight (shanghai_day t) \<le> t" "t < shanghai_midnight (shanghai_day t + 1)"
    using shanghai_day_iff [of t "shanghai_day t"] by simp_all
  then show "t < nextGroupDay t" "nextGroupDay t \<le> t + day"
    by (simp_all add: nextGroupDay_eq shanghai_midnight_def algebra_simps)
  show "shanghai_day (nextGroupDay t) = shanghai_day t + 1"
    unfolding nextGroupDay_eq by (simp add: shanghai_day_iff) (simp add: shanghai_midnight_def)
qed

lemma groupDate_inject:
  assumes "0 \<le> t" "0 \<le> u" "groupDate t = groupDate u"
  shows "shanghai_day t = shanghai_day u"
proof -
  obtain y m d where c: "civil_of_days (shanghai_day t) = (y, m, d)" by (cases "civil_of_days (shanghai_day t)")
  obtain y' m' d' where c': "civil_of_days (shanghai_day u) = (y', m', d')" by (cases "civil_of_days (shanghai_day u)")
  have "0 \<le> shanghai_day t" "0 \<le> shanghai_day u" using assms by (simp_all add: shanghai_day_def pos_imp_zdiv_nonneg_iff)
  then have "0 \<le> y \<and> 0 \<le> m \<and> 0 \<le> d \<and> 0 \<le> y' \<and> 0 \<le> m' \<and> 0 \<le> d'"
    using civil_of_days_bounds [OF _ c] civil_of_days_bounds [OF _ c'] by simp
  then have "(y, m, d) = (y', m', d')"
    using assms(3) format_date_inject [of y m d y' m' d'] by (simp add: groupDate_def c c')
  then show ?thesis using days_of_civil_of_days [OF c] days_of_civil_of_days [OF c'] by simp
qed

lemma groupDate_cong: "shanghai_day t = shanghai_day u \<Longrightarrow> groupDate t = groupDate u"
  by (simp add: groupDate_def)

lemma GroupDay_Key_eq:
  assumes "nul \<notin> set (gd_scope d)" "nul \<notin> set (gd_group d)" "nul \<notin> set (gd_scope d')" "nul \<notin> set (gd_group d')"
  shows "GroupDay_Key d = GroupDay_Key d' \<longleftrightarrow>
    gd_scope d = gd_scope d' \<and> gd_group d = gd_group d' \<and> gd_date d = gd_date d'"
  using assms by (simp add: GroupDay_Key_def sep_join_inject)

lemma modelOwner_Some:
  "modelOwner g model t = Some r \<Longrightarrow> r \<in> snd ` set (gs_groups g) \<and> owns t (groupModel model) r"
  by (auto simp: modelOwner_def Let_def split: if_splits dest!: find_Some_prop)

lemma modelOwner_None:
  "groupModel model \<noteq> [] \<Longrightarrow> modelOwner g model t = None \<longleftrightarrow> (\<forall>r \<in> snd ` set (gs_groups g). \<not> owns t (groupModel model) r)"
  by (auto simp: modelOwner_def Let_def find_None_all)

text \<open>Every model has at most one owner at an instant.\<close>

definition owners_unique :: "GroupState \<Rightarrow> time \<Rightarrow> bool" where
  "owners_unique g t \<longleftrightarrow>
     (\<forall>key a b. a \<in> snd ` set (gs_groups g) \<longrightarrow> b \<in> snd ` set (gs_groups g) \<longrightarrow>
        key \<noteq> [] \<longrightarrow> owns t key a \<longrightarrow> owns t key b \<longrightarrow> a = b)"

lemma modelOwner_perm:
  assumes "owners_unique g t" "set (gs_groups g') = set (gs_groups g)"
  shows "modelOwner g' model t = modelOwner g model t"
proof (cases "groupModel model = []")
  case True
  then show ?thesis by (simp add: modelOwner_def)
next
  case False
  show ?thesis
  proof (cases "modelOwner g model t")
    case None
    then have "modelOwner g' model t = None" using assms(2) False by (simp add: modelOwner_None)
    with None show ?thesis by simp
  next
    case (Some r)
    then have r: "r \<in> snd ` set (gs_groups g)" "owns t (groupModel model) r" by (simp_all add: modelOwner_Some)
    then have "modelOwner g' model t \<noteq> None" using assms(2) False by (auto simp: modelOwner_None)
    then obtain r' where r': "modelOwner g' model t = Some r'" by blast
    then have "r' \<in> snd ` set (gs_groups g)" "owns t (groupModel model) r'" using modelOwner_Some assms(2) by metis+
    with assms(1) r False have "r' = r" unfolding owners_unique_def by blast
    with r' Some show ?thesis by simp
  qed
qed

end
