(* ===== verification/State.thy ===== *)
theory State
  imports GroupTypes
begin

text \<open>
  The working set of the store and the changes an operation asks to persist: \<^verbatim>\<open>state.go\<close>,
  \<^verbatim>\<open>repository.go\<close>, the event types of \<^verbatim>\<open>request_events.go\<close> and
  \<^verbatim>\<open>request_errors.go\<close>, and the lookups on \<open>State\<close> that \<^verbatim>\<open>plan.go\<close>,
  \<^verbatim>\<open>keys.go\<close> and \<^verbatim>\<open>admission_logs.go\<close> define. A nil entry of \<open>Keys\<close> and an
  absent one read alike in the source and are both absent here.
\<close>

section \<open>Events\<close>

record RequestEvent =
  re_group :: "GroupAttribution option"
  re_at :: time
  re_scope :: string
  re_auth_index :: string
  re_provider :: string
  re_account :: string
  re_executor :: string
  re_effort :: string
  re_tier :: string
  re_upstream :: string
  re_billing_model :: string
  re_failed :: bool
  re_latency_ms :: int
  re_ttft_ms :: int
  re_quality :: TokenAccountingQuality
  re_price_source :: PriceSource
  re_cost :: Cost
  re_reasoning :: int

record RequestError =
  rer_status :: int
  rer_type :: string
  rer_reason :: string
  rer_body :: string

record RequestErrorEvent =
  ree_event :: RequestEvent
  ree_error :: RequestError

definition RequestEventRetention :: duration where
  "RequestEventRetention = 365 * 24 * hour"

section \<open>State\<close>

record ConfigCredential =
  cc_provider :: string
  cc_key_preview :: string
  cc_disabled :: bool

record State =
  st_grouped :: GroupState
  st_prices :: "CustomPrice smap"
  st_plans :: "Plan list"
  st_keys :: "KeyState smap"
  st_routes :: "Route list"
  st_credentials :: "ConfigCredential smap"

definition NewState :: State where
  "NewState = \<lparr>st_grouped = NewGroupState, st_prices = [], st_plans = [], st_keys = [], st_routes = [],
     st_credentials = []\<rparr>"

definition lookup_key :: "State \<Rightarrow> string \<Rightarrow> KeyState option" where
  "lookup_key st scope = map_of (st_keys st) scope"

definition put_key :: "string \<Rightarrow> KeyState \<Rightarrow> State \<Rightarrow> State" where
  "put_key scope key st = st\<lparr>st_keys := AList.update scope key (st_keys st)\<rparr>"

definition liveKey :: "State \<Rightarrow> string \<Rightarrow> KeyState option" where
  "liveKey st scope =
     (case lookup_key st scope of
        None \<Rightarrow> None
      | Some key \<Rightarrow> if IsZero (ks_deleted_at key) then Some key else None)"

definition ensureKey :: "State \<Rightarrow> string \<Rightarrow> string \<Rightarrow> KeyState option \<times> State" where
  "ensureKey st scope preview =
     (if scope = [] then (None, st)
      else
        let p0 = TrimSpace preview;
            p = (if p0 = [] then UnknownKeyPreview else p0)
        in case lookup_key st scope of
             None \<Rightarrow> let key = new_key\<lparr>ks_preview := p\<rparr> in (Some key, put_key scope key st)
           | Some key \<Rightarrow>
               if ks_preview key = [] \<or> ks_preview key = UnknownKeyPreview
               then let key = key\<lparr>ks_preview := p\<rparr> in (Some key, put_key scope key st)
               else (Some key, st))"

definition FindPlan :: "Plan list \<Rightarrow> string \<Rightarrow> Plan option" where
  "FindPlan plans pid =
     (let t = TrimSpace pid in find (\<lambda>plan. pln_id plan = t \<and> t \<noteq> []) plans)"

definition normalizeScope :: "string \<Rightarrow> string" where
  "normalizeScope scope = ToLower (TrimSpace scope)"

fun dedupe_loop :: "string list \<Rightarrow> string list \<Rightarrow> string list" where
  "dedupe_loop seen [] = []"
| "dedupe_loop seen (v # rest) =
     (let value = TrimSpace v; lowered = ToLower value
      in if value = [] \<or> lowered \<in> set seen then dedupe_loop seen rest
         else value # dedupe_loop (lowered # seen) rest)"

definition dedupe :: "string list \<Rightarrow> string list" where
  "dedupe values = dedupe_loop [] values"

definition normalizeScopes :: "string list \<Rightarrow> string list" where
  "normalizeScopes scopes = dedupe (map normalizeScope scopes)"

text \<open>The separator is a middle dot between blanks, the ellipsis one character.\<close>

definition keyDescription :: "KeyState option \<Rightarrow> string" where
  "keyDescription key =
     (case key of
        None \<Rightarrow> []
      | Some k \<Rightarrow>
          let label = TrimSpace (ks_label k); preview = TrimSpace (ks_preview k)
          in if label \<noteq> [] \<and> preview \<noteq> [] then label @ [CHR '' '', CHR 0xC2, CHR 0xB7, CHR '' ''] @ preview
             else if label \<noteq> [] then label else preview)"

definition describeKey :: "State \<Rightarrow> string \<Rightarrow> string" where
  "describeKey st scope =
     (let description = keyDescription (lookup_key st scope)
      in if description \<noteq> [] then description
         else if length scope > 12 then take 12 scope @ [CHR 0xE2, CHR 0x80, CHR 0xA6]
         else scope)"

section \<open>Changes\<close>

record Changes =
  ch_grouped_config :: bool
  ch_group_days :: "string list"
  ch_group_labels :: bool
  ch_group_audits :: "GroupAudit list"
  ch_keys :: "string list"
  ch_all_keys :: bool
  ch_plans :: bool
  ch_routes :: bool
  ch_credentials :: bool
  ch_events :: "RequestEvent list"
  ch_errors :: "RequestErrorEvent list"
  ch_cutoff :: time

definition no_changes :: Changes where
  "no_changes = \<lparr>ch_grouped_config = False, ch_group_days = [], ch_group_labels = False, ch_group_audits = [],
     ch_keys = [], ch_all_keys = False, ch_plans = False, ch_routes = False, ch_credentials = False,
     ch_events = [], ch_errors = [], ch_cutoff = 0\<rparr>"

definition changes_empty :: "Changes \<Rightarrow> bool" where
  "changes_empty c \<longleftrightarrow>
     \<not> ch_grouped_config c \<and> ch_group_days c = [] \<and> \<not> ch_group_labels c \<and> ch_group_audits c = [] \<and>
     ch_keys c = [] \<and> \<not> ch_all_keys c \<and> \<not> ch_plans c \<and> \<not> ch_routes c \<and> \<not> ch_credentials c \<and>
     ch_events c = [] \<and> ch_errors c = [] \<and> IsZero (ch_cutoff c)"

definition maxPendingRequestRecords :: nat where
  "maxPendingRequestRecords = 1000"

definition keep_last :: "nat \<Rightarrow> 'a list \<Rightarrow> 'a list" where
  "keep_last n xs = (if length xs > n then drop (length xs - n) xs else xs)"

definition withBoundedRequestRecords :: "Changes \<Rightarrow> Changes" where
  "withBoundedRequestRecords c =
     c\<lparr>ch_events := keep_last maxPendingRequestRecords (ch_events c),
       ch_errors := keep_last maxPendingRequestRecords (ch_errors c)\<rparr>"

text \<open>The loop of \<open>mergeGroupDayKeys\<close> and of the scopes in \<open>merge\<close>: first occurrences, in order.\<close>

fun first_seen :: "string list \<Rightarrow> string list \<Rightarrow> string list" where
  "first_seen seen [] = []"
| "first_seen seen (k # ks) = (if k \<in> set seen then first_seen seen ks else k # first_seen (k # seen) ks)"

definition mergeGroupDayKeys :: "string list \<Rightarrow> string list \<Rightarrow> string list" where
  "mergeGroupDayKeys a b = first_seen [] (a @ b)"

definition changes_merge :: "Changes \<Rightarrow> Changes \<Rightarrow> Changes" where
  "changes_merge c next =
     (if changes_empty c then withBoundedRequestRecords next
      else if changes_empty next then withBoundedRequestRecords c
      else
        let merged =
          \<lparr>ch_grouped_config = (ch_grouped_config c \<or> ch_grouped_config next),
           ch_group_days = mergeGroupDayKeys (ch_group_days c) (ch_group_days next),
           ch_group_labels = (ch_group_labels c \<or> ch_group_labels next),
           ch_group_audits = ch_group_audits c @ ch_group_audits next,
           ch_keys = [],
           ch_all_keys = (ch_all_keys c \<or> ch_all_keys next),
           ch_plans = (ch_plans c \<or> ch_plans next),
           ch_routes = (ch_routes c \<or> ch_routes next),
           ch_credentials = (ch_credentials c \<or> ch_credentials next),
           ch_events = ch_events c @ ch_events next,
           ch_errors = ch_errors c @ ch_errors next,
           ch_cutoff = (if ch_cutoff next < ch_cutoff c then ch_cutoff c else ch_cutoff next)\<rparr>
        in if ch_all_keys merged then withBoundedRequestRecords merged
           else withBoundedRequestRecords (merged\<lparr>ch_keys := first_seen [] (ch_keys c @ ch_keys next)\<rparr>))"

section \<open>Lemmas on lookups\<close>

lemma lookup_put_key [simp, smap]: "lookup_key (put_key scope key st) s = (if s = scope then Some key else lookup_key st s)"
  by (simp add: lookup_key_def put_key_def)

lemma put_key_other [simp]:
  "st_grouped (put_key s k st) = st_grouped st" "st_prices (put_key s k st) = st_prices st"
  "st_plans (put_key s k st) = st_plans st" "st_routes (put_key s k st) = st_routes st"
  "st_credentials (put_key s k st) = st_credentials st"
  by (simp_all add: put_key_def)

lemma wf_put_key [simp]: "wf_map (st_keys st) \<Longrightarrow> wf_map (st_keys (put_key s k st))"
  by (simp add: put_key_def)

lemma liveKey_Some: "liveKey st scope = Some key \<longleftrightarrow> lookup_key st scope = Some key \<and> IsZero (ks_deleted_at key)"
  by (auto simp: liveKey_def split: option.splits if_splits)

lemma ensureKey_Some:
  assumes "ensureKey st scope preview = (Some key, st')"
  shows "scope \<noteq> []" "lookup_key st' scope = Some key" "ks_preview key \<noteq> []"
    "\<And>s. s \<noteq> scope \<Longrightarrow> lookup_key st' s = lookup_key st s"
    "\<And>k. lookup_key st scope = Some k \<Longrightarrow> key = k\<lparr>ks_preview := ks_preview key\<rparr>"
    "lookup_key st scope = None \<Longrightarrow> key = new_key\<lparr>ks_preview := ks_preview key\<rparr>"
    "st' = put_key scope key st \<or> st' = st"
  using assms
  by (auto simp: ensureKey_def Let_def UnknownKeyPreview_def split: if_splits option.splits)

lemma ensureKey_None: "ensureKey st scope preview = (None, st') \<longleftrightarrow> scope = [] \<and> st' = st"
  by (auto simp: ensureKey_def Let_def split: option.splits)

lemma FindPlan_Some: "FindPlan plans pid = Some p \<Longrightarrow> p \<in> set plans \<and> pln_id p = TrimSpace pid \<and> pln_id p \<noteq> []"
  by (auto simp: FindPlan_def Let_def dest!: find_Some_prop)

lemma normalizeScope_idem [simp]: "normalizeScope (normalizeScope s) = normalizeScope s"
  using TrimSpace_ToLower [of "TrimSpace s"] by (simp add: normalizeScope_def)

lemma normalizeScope_CallerScope [simp]: "normalizeScope (CallerScope v) = CallerScope v"
  by (simp add: normalizeScope_def)

section \<open>Lemmas on merged changes\<close>

lemma set_first_seen: "set (first_seen seen ks) = set ks - set seen"
  by (induction seen ks rule: first_seen.induct) auto

lemma distinct_first_seen: "distinct (first_seen seen ks)"
  by (induction seen ks rule: first_seen.induct) (auto simp: set_first_seen)

lemma set_mergeGroupDayKeys [simp]: "set (mergeGroupDayKeys a b) = set a \<union> set b"
  by (simp add: mergeGroupDayKeys_def set_first_seen)

lemma length_keep_last: "length (keep_last n xs) \<le> n"
  by (simp add: keep_last_def)

lemma length_keep_last_min: "length (keep_last n xs) = min n (length xs)"
  by (simp add: keep_last_def)

lemma suffix_keep_last: "suffix (keep_last n xs) xs"
  by (simp add: keep_last_def suffix_drop)

lemma keep_last_short: "length xs \<le> n \<Longrightarrow> keep_last n xs = xs"
  by (simp add: keep_last_def)

text \<open>The parts of the state a set of changes covers.\<close>

definition covers_key :: "Changes \<Rightarrow> string \<Rightarrow> bool" where
  "covers_key c k \<longleftrightarrow> ch_all_keys c \<or> k \<in> set (ch_keys c)"

lemma bounded_fields [simp]:
  "ch_grouped_config (withBoundedRequestRecords c) = ch_grouped_config c"
  "ch_group_days (withBoundedRequestRecords c) = ch_group_days c"
  "ch_group_labels (withBoundedRequestRecords c) = ch_group_labels c"
  "ch_group_audits (withBoundedRequestRecords c) = ch_group_audits c"
  "ch_keys (withBoundedRequestRecords c) = ch_keys c" "ch_all_keys (withBoundedRequestRecords c) = ch_all_keys c"
  "ch_plans (withBoundedRequestRecords c) = ch_plans c" "ch_routes (withBoundedRequestRecords c) = ch_routes c"
  "ch_credentials (withBoundedRequestRecords c) = ch_credentials c"
  "ch_cutoff (withBoundedRequestRecords c) = ch_cutoff c"
  by (simp_all add: withBoundedRequestRecords_def)

lemma merge_flags:
  "ch_grouped_config (changes_merge c d) \<longleftrightarrow> ch_grouped_config c \<or> ch_grouped_config d"
  "set (ch_group_days (changes_merge c d)) = set (ch_group_days c) \<union> set (ch_group_days d)"
  "ch_group_labels (changes_merge c d) \<longleftrightarrow> ch_group_labels c \<or> ch_group_labels d"
  "ch_group_audits (changes_merge c d) = ch_group_audits c @ ch_group_audits d"
  "covers_key (changes_merge c d) k \<longleftrightarrow> covers_key c k \<or> covers_key d k"
  "ch_plans (changes_merge c d) \<longleftrightarrow> ch_plans c \<or> ch_plans d"
  "ch_routes (changes_merge c d) \<longleftrightarrow> ch_routes c \<or> ch_routes d"
  "ch_credentials (changes_merge c d) \<longleftrightarrow> ch_credentials c \<or> ch_credentials d"
  "ch_all_keys (changes_merge c d) \<longleftrightarrow> ch_all_keys c \<or> ch_all_keys d"
  by (auto simp: changes_merge_def changes_empty_def Let_def covers_key_def set_first_seen)

lemma merge_events:
  "ch_events (changes_merge c d) = keep_last maxPendingRequestRecords (ch_events c @ ch_events d)"
  "ch_errors (changes_merge c d) = keep_last maxPendingRequestRecords (ch_errors c @ ch_errors d)"
  by (auto simp: changes_merge_def changes_empty_def Let_def withBoundedRequestRecords_def)

lemma merge_keys_subset: "set (ch_keys (changes_merge c d)) \<subseteq> set (ch_keys c) \<union> set (ch_keys d)"
  by (auto simp: changes_merge_def Let_def set_first_seen)

lemma merge_cutoff: "0 \<le> ch_cutoff c \<Longrightarrow> 0 \<le> ch_cutoff d \<Longrightarrow> ch_cutoff (changes_merge c d) = max (ch_cutoff c) (ch_cutoff d)"
  by (auto simp: changes_merge_def changes_empty_def Let_def IsZero_def)

lemma empty_covers:
  "changes_empty c \<Longrightarrow> \<not> ch_grouped_config c \<and> ch_group_days c = [] \<and> \<not> ch_group_labels c \<and> \<not> covers_key c k \<and>
     \<not> ch_plans c \<and> \<not> ch_routes c \<and> \<not> ch_credentials c"
  by (simp add: changes_empty_def covers_key_def)

text \<open>C26: merging the pending changes with the current ones loses nothing that has to be written: every table,
  ledger day and key either covers is covered by the merge, all audit entries are kept in order, and of the
  request records the newest thousand survive.\<close>

theorem merge_loses_nothing:
  "(\<forall>k. covers_key (changes_merge c d) k \<longleftrightarrow> covers_key c k \<or> covers_key d k) \<and>
   set (ch_group_days (changes_merge c d)) = set (ch_group_days c) \<union> set (ch_group_days d) \<and>
   (ch_grouped_config (changes_merge c d) \<longleftrightarrow> ch_grouped_config c \<or> ch_grouped_config d) \<and>
   (ch_group_labels (changes_merge c d) \<longleftrightarrow> ch_group_labels c \<or> ch_group_labels d) \<and>
   (ch_plans (changes_merge c d) \<longleftrightarrow> ch_plans c \<or> ch_plans d) \<and>
   (ch_routes (changes_merge c d) \<longleftrightarrow> ch_routes c \<or> ch_routes d) \<and>
   (ch_credentials (changes_merge c d) \<longleftrightarrow> ch_credentials c \<or> ch_credentials d) \<and>
   ch_group_audits (changes_merge c d) = ch_group_audits c @ ch_group_audits d \<and>
   suffix (ch_events (changes_merge c d)) (ch_events c @ ch_events d) \<and>
   length (ch_events (changes_merge c d)) = min 1000 (length (ch_events c) + length (ch_events d)) \<and>
   suffix (ch_errors (changes_merge c d)) (ch_errors c @ ch_errors d) \<and>
   length (ch_errors (changes_merge c d)) = min 1000 (length (ch_errors c) + length (ch_errors d))"
  by (simp add: merge_flags merge_events suffix_keep_last length_keep_last_min maxPendingRequestRecords_def)

end
