(* ===== verification/Persistence.thy ===== *)
theory Persistence
  imports State
begin

text \<open>
  The database the store writes to: the tables of \<^verbatim>\<open>internal/sqlite\<close> that \<open>Save\<close> and \<open>Load\<close> touch
  (\<^verbatim>\<open>repository.go\<close>, \<^verbatim>\<open>api_keys.go\<close>, \<^verbatim>\<open>plans.go\<close>, \<^verbatim>\<open>routes.go\<close>,
  \<^verbatim>\<open>config_credentials.go\<close>, \<^verbatim>\<open>groups.go\<close>, the appending half of \<^verbatim>\<open>request_events.go\<close>
  and \<^verbatim>\<open>request_errors.go\<close>). A table is a map from its primary key to the Go values its columns decode to.
  SQLite is not part of the sources: whether it refuses a transaction (a constraint of the schema, a full disk)
  is the parameter \<open>refuses\<close>, and a refused or failed transaction is rolled back. Columns in JSON give back the
  value that was encoded; a column of nanoseconds gives back \<open>stored\<close> of it. The contract the store relies on
  is the locale \<open>repository\<close>, interpreted at the end.
\<close>

section \<open>Columns\<close>

abbreviation unix_epoch :: time where
  "unix_epoch \<equiv> unix_epoch_seconds * second"

definition nanos :: "time \<Rightarrow> int" where
  "nanos t = (if IsZero t then 0 else wrap64 (t - unix_epoch))"

definition timeAt :: "int \<Rightarrow> time" where
  "timeAt n = (if n = 0 then 0 else unix_epoch + n)"

definition stored :: "time \<Rightarrow> time" where
  "stored t = timeAt (nanos t)"

text \<open>Instants a column of Unix nanoseconds can hold: after 1970, up to the year 2262.\<close>

definition storable :: "time \<Rightarrow> bool" where
  "storable t \<longleftrightarrow> IsZero t \<or> (unix_epoch < t \<and> t \<le> unix_epoch + max_int64)"

lemma stored_storable: "storable t \<Longrightarrow> stored t = t"
  by (auto simp: stored_def storable_def nanos_def timeAt_def IsZero_def wrap64_id_bounds)

text \<open>Nullable time columns use \<open>UnixNano\<close> of the instant itself, zero or not.\<close>

definition stored_opt :: "time option \<Rightarrow> time option" where
  "stored_opt t = map_option (\<lambda>v. unix_epoch + wrap64 (v - unix_epoch)) t"

section \<open>Tables\<close>

record EventRow =
  ev_id :: int
  ev_event :: RequestEvent
  ev_fast :: bool

record ErrorRow =
  er_id :: int
  er_error :: RequestError

record disk =
  dk_keys :: "KeyState smap"
  dk_plans :: "Plan list"
  dk_routes :: "Route list"
  dk_credentials :: "ConfigCredential smap"
  dk_groups :: "ResourceGroup smap"
  dk_group_plans :: "GroupPlan smap"
  dk_bindings :: "GroupKeyBinding smap"
  dk_days :: "GroupDay smap"
  dk_labels :: "SharedLabel smap"
  dk_audits :: "GroupAudit list"
  dk_prices :: "CustomPrice list"
  dk_events :: "EventRow list"
  dk_errors :: "ErrorRow list"
  dk_next_event :: int

definition new_disk :: disk where
  "new_disk = \<lparr>dk_keys = [], dk_plans = [], dk_routes = [], dk_credentials = [], dk_groups = [], dk_group_plans = [],
     dk_bindings = [], dk_days = [], dk_labels = [], dk_audits = [], dk_prices = [], dk_events = [], dk_errors = [],
     dk_next_event = 1\<rparr>"

section \<open>Saving\<close>

text \<open>\<open>json.Marshal\<close> refuses floats that are not finite and years beyond four digits.\<close>

definition marshals_time :: "time \<Rightarrow> bool" where
  "marshals_time t \<longleftrightarrow> 0 \<le> Year t \<and> Year t \<le> 9999"

definition marshals_cycle :: "QuotaCycle \<Rightarrow> bool" where
  "marshals_cycle c \<longleftrightarrow> is_fin (cyc_spent c) \<and> marshals_time (cyc_start c) \<and> marshals_time (cyc_end c) \<and>
     (IsZero (cyc_since c) \<or> marshals_time (cyc_since c))"

definition key_row :: "KeyState \<Rightarrow> KeyState" where
  "key_row key = key\<lparr>ks_deleted_at := stored (ks_deleted_at key)\<rparr>"

definition saveKey :: "string \<Rightarrow> KeyState option \<Rightarrow> disk \<Rightarrow> error + disk" where
  "saveKey scope key d =
     (case key of
        None \<Rightarrow> Inl (Plain_Error ''the API key record must not be nil'')
      | Some k \<Rightarrow>
          if TrimSpace scope = [] \<or> TrimSpace (ks_preview k) = []
          then Inl (Plain_Error ''scope and preview of an API key must not be empty'')
          else if \<not> list_all (\<lambda>(wid, c). marshals_cycle c) (ks_cycles k) then Inl (Plain_Error ''json: unsupported value'')
          else Inr (d\<lparr>dk_keys := AList.update scope (key_row k) (dk_keys d)\<rparr>))"

fun saveKeys :: "State \<Rightarrow> string list \<Rightarrow> disk \<Rightarrow> error + disk" where
  "saveKeys st [] d = Inr d"
| "saveKeys st (scope # scopes) d = try_bind (saveKey scope (lookup_key st scope) d) (saveKeys st scopes)"

definition replacePlans :: "State \<Rightarrow> disk \<Rightarrow> error + disk" where
  "replacePlans st d = try_bind (try_map Plan_Validate (st_plans st)) (\<lambda>_. Inr (d\<lparr>dk_plans := st_plans st\<rparr>))"

definition replaceRoutes :: "State \<Rightarrow> disk \<Rightarrow> disk" where
  "replaceRoutes st d = d\<lparr>dk_routes := st_routes st\<rparr>"

definition replaceConfigCredentials :: "State \<Rightarrow> disk \<Rightarrow> disk" where
  "replaceConfigCredentials st d = d\<lparr>dk_credentials := st_credentials st\<rparr>"

text \<open>
  A group is inserted as a draft and given its status last. The instant of creation is written once, and the
  models only while the stored status is still draft.
\<close>

definition group_row :: "ResourceGroup \<Rightarrow> ResourceGroup option \<Rightarrow> ResourceGroup" where
  "group_row g old =
     g\<lparr>rg_created_at := (case old of None \<Rightarrow> stored (rg_created_at g) | Some o' \<Rightarrow> rg_created_at o'),
       rg_updated_at := stored (rg_updated_at g),
       rg_published_at := stored_opt (rg_published_at g),
       rg_models := (case old of None \<Rightarrow> rg_models g
                     | Some o' \<Rightarrow> if rg_status o' = ''draft'' then rg_models g else rg_models o')\<rparr>"

definition save_group :: "disk \<Rightarrow> ResourceGroup \<Rightarrow> disk" where
  "save_group d g =
     d\<lparr>dk_groups := AList.update (rg_id g) (group_row g (map_of (dk_groups d) (rg_id g))) (dk_groups d)\<rparr>"

definition group_plan_row :: "GroupPlan \<Rightarrow> GroupPlan option \<Rightarrow> GroupPlan" where
  "group_plan_row p old =
     p\<lparr>gpl_created_at := (case old of None \<Rightarrow> stored (gpl_created_at p) | Some o' \<Rightarrow> gpl_created_at o'),
       gpl_updated_at := stored (gpl_updated_at p), gpl_bound_keys := 0\<rparr>"

definition save_group_plan :: "disk \<Rightarrow> GroupPlan \<Rightarrow> disk" where
  "save_group_plan d p =
     d\<lparr>dk_group_plans :=
        AList.update (gpl_id p) (group_plan_row p (map_of (dk_group_plans d) (gpl_id p))) (dk_group_plans d)\<rparr>"

definition binding_row :: "GroupKeyBinding \<Rightarrow> GroupKeyBinding" where
  "binding_row b =
     b\<lparr>kb_periods := map (\<lambda>p. p\<lparr>bp_from := stored (bp_from p), bp_to := stored_opt (bp_to p)\<rparr>) (kb_periods b)\<rparr>"

definition save_binding :: "disk \<Rightarrow> GroupKeyBinding \<Rightarrow> disk" where
  "save_binding d b = d\<lparr>dk_bindings := AList.update (kb_scope b) (binding_row b) (dk_bindings d)\<rparr>"

definition saveGroupedConfig :: "State \<Rightarrow> disk \<Rightarrow> disk" where
  "saveGroupedConfig st d =
     (let g = st_grouped st;
          d = foldl (\<lambda>d i. save_group d (the (map_of (gs_groups g) i))) d (sort (mkeys (gs_groups g)));
          d = foldl save_group_plan d (map snd (gs_plans g))
      in foldl save_binding d (map snd (gs_bindings g)))"

definition day_row :: "GroupDay \<Rightarrow> GroupDay" where
  "day_row v = v\<lparr>gd_cutoff := stored_opt (gd_cutoff v), gd_updated_at := stored (gd_updated_at v)\<rparr>"

fun saveGroupDays :: "State \<Rightarrow> string list \<Rightarrow> disk \<Rightarrow> error + disk" where
  "saveGroupDays st [] d = Inr d"
| "saveGroupDays st (k # ks) d =
     (case map_of (gs_days (st_grouped st)) k of
        None \<Rightarrow> Inl (Plain_Error ''group day missing'')
      | Some v \<Rightarrow> saveGroupDays st ks (d\<lparr>dk_days := AList.update (GroupDay_Key v) (day_row v) (dk_days d)\<rparr>))"

definition label_row :: "SharedLabel \<Rightarrow> SharedLabel" where
  "label_row l =
     l\<lparr>sl_source_note := (if sl_source_note l = Some [] then None else sl_source_note l),
       sl_fetched_at := stored (sl_fetched_at l)\<rparr>"

definition saveGroupedState :: "State \<Rightarrow> Changes \<Rightarrow> disk \<Rightarrow> error + disk" where
  "saveGroupedState st ch d =
     (let d = (if ch_grouped_config ch then saveGroupedConfig st d else d)
      in try_bind (saveGroupDays st (ch_group_days ch) d) (\<lambda>d.
        let d = (if ch_group_labels ch
                 then d\<lparr>dk_labels := map (\<lambda>(k, l). (SharedLabel_Key l, label_row l)) (gs_labels (st_grouped st))\<rparr> else d)
        in Inr (d\<lparr>dk_audits := dk_audits d @ ch_group_audits ch\<rparr>)))"

definition saveStateTables :: "State \<Rightarrow> Changes \<Rightarrow> disk \<Rightarrow> error + disk" where
  "saveStateTables st ch d =
     try_bind (saveKeys st (if ch_all_keys ch then mkeys (st_keys st) else ch_keys ch) d) (\<lambda>d.
     try_bind (if ch_plans ch then replacePlans st d else Inr d) (\<lambda>d.
       let d = (if ch_routes ch then replaceRoutes st d else d);
           d = (if ch_credentials ch then replaceConfigCredentials st d else d)
       in saveGroupedState st ch d))"

text \<open>The factor of fast mode is persisted as a suffix of the price source; \<open>ev_fast\<close> is that suffix.\<close>

definition event_fast :: "RequestEvent \<Rightarrow> bool" where
  "event_fast e \<longleftrightarrow> re_price_source e \<noteq> PriceSourceNone \<and> cst_multiplier (re_cost e) = Fin (5 / 2)"

definition appendRequestEvent :: "disk \<Rightarrow> RequestEvent \<Rightarrow> int \<times> disk" where
  "appendRequestEvent d e =
     (let eid = dk_next_event d
      in (eid, d\<lparr>dk_events := dk_events d @ [\<lparr>ev_id = eid, ev_event = e\<lparr>re_at := stored (re_at e)\<rparr>, ev_fast = event_fast e\<rparr>],
                 dk_next_event := eid + 1\<rparr>))"

definition appendRequestErrorEvent :: "disk \<Rightarrow> RequestErrorEvent \<Rightarrow> disk" where
  "appendRequestErrorEvent d entry =
     (case appendRequestEvent d ((ree_event entry)\<lparr>re_failed := True\<rparr>) of
        (eid, d) \<Rightarrow> d\<lparr>dk_errors := dk_errors d @ [\<lparr>er_id = eid, er_error = ree_error entry\<rparr>]\<rparr>)"

text \<open>Deleting an event deletes its error record with it.\<close>

definition pruneRequestEvents :: "time \<Rightarrow> disk \<Rightarrow> disk" where
  "pruneRequestEvents cutoff d =
     (if IsZero cutoff then d
      else let keep = filter (\<lambda>r. \<not> nanos (re_at (ev_event r)) < nanos cutoff) (dk_events d)
           in d\<lparr>dk_events := keep, dk_errors := filter (\<lambda>r. er_id r \<in> ev_id ` set keep) (dk_errors d)\<rparr>)"

definition Save :: "(State \<Rightarrow> Changes \<Rightarrow> disk \<Rightarrow> error option) \<Rightarrow> State \<Rightarrow> Changes \<Rightarrow> disk \<Rightarrow> error + disk" where
  "Save refuses st ch d =
     (case refuses st ch d of
        Some e \<Rightarrow> Inl e
      | None \<Rightarrow>
          try_bind (saveStateTables st ch d) (\<lambda>d.
            let d = foldl (\<lambda>d e. snd (appendRequestEvent d (e\<lparr>re_failed := False\<rparr>))) d (ch_events ch);
                d = foldl appendRequestErrorEvent d (ch_errors ch)
            in Inr (pruneRequestEvents (ch_cutoff ch) d)))"

section \<open>Loading\<close>

text \<open>A plan that does not validate makes the load fail; the windows are sorted by period.\<close>

definition loadPlans :: "disk \<Rightarrow> error + Plan list" where
  "loadPlans d =
     try_map (\<lambda>p. try_bind (Plan_Validate p) (\<lambda>_. Inr (p\<lparr>pln_windows := sort_key win_period (pln_windows p)\<rparr>)))
       (dk_plans d)"

text \<open>SQL's \<open>trim\<close> strips blanks only; previews it empties are filled in the table before the rows are read.\<close>

definition fill_previews :: "disk \<Rightarrow> disk" where
  "fill_previews d =
     d\<lparr>dk_keys := map_values (\<lambda>_ k. if list_all (\<lambda>c. c = CHR '' '') (ks_preview k)
                                then k\<lparr>ks_preview := UnknownKeyPreview\<rparr> else k) (dk_keys d)\<rparr>"

definition loadKey :: "Plan list \<Rightarrow> string \<times> KeyState \<Rightarrow> error + string \<times> KeyState" where
  "loadKey plans row =
     (case row of (scope, k) \<Rightarrow>
        if TrimSpace scope = [] \<or> TrimSpace (ks_preview k) = []
        then Inl (Plain_Error ''scope and preview of an API key must not be empty'')
        else try_bind (ValidateCycles k (case FindPlan plans (ks_plan k) of None \<Rightarrow> no_plan | Some p \<Rightarrow> p)) (\<lambda>_.
             try_bind (NormalizeRouteBindings (ks_bindings k)) (\<lambda>b. Inr (scope, k\<lparr>ks_bindings := b\<rparr>))))"

definition loadPrices :: "disk \<Rightarrow> CustomPrice smap" where
  "loadPrices d = foldl (\<lambda>m p. AList.update (NormalizeModelID (cp_model p)) p m) [] (dk_prices d)"

definition loadGroupedState :: "disk \<Rightarrow> GroupState" where
  "loadGroupedState d =
     \<lparr>gs_groups = map_values (\<lambda>_ g. g\<lparr>rg_models := sort_key groupModel (rg_models g)\<rparr>) (dk_groups d),
      gs_plans = map_values (\<lambda>_ p. p\<lparr>gpl_policies := sort_key pol_group (gpl_policies p)\<rparr>) (dk_group_plans d),
      gs_bindings = map_values (\<lambda>_ b. b\<lparr>kb_periods := sort_key bp_from (kb_periods b)\<rparr>) (dk_bindings d),
      gs_days = dk_days d, gs_labels = dk_labels d\<rparr>"

definition Load :: "time \<Rightarrow> disk \<Rightarrow> error + State \<times> nat \<times> disk" where
  "Load cutoff d0 =
     (let d1 = fill_previews (pruneRequestEvents cutoff d0)
      in try_bind (loadPlans d1) (\<lambda>plans.
         try_bind (try_map (loadKey plans) (dk_keys d1)) (\<lambda>keys.
         try_bind (try_map NormalizeRoute (dk_routes d1)) (\<lambda>routes.
           let st = \<lparr>st_grouped = loadGroupedState d1, st_prices = loadPrices d1, st_plans = plans, st_keys = keys,
                     st_routes = routes, st_credentials = dk_credentials d1\<rparr>
           in Inr (st, length (dk_events d1), d1)))))"

section \<open>The contract of a repository\<close>

text \<open>
  What the store keeps in memory and the database persists falls into parts. A set of changes covers parts;
  saving writes the covered parts that exist and leaves the others alone.
\<close>

datatype part = P_Key string | P_Plans | P_Routes | P_Credentials | P_Group string | P_GroupPlan string
  | P_Binding string | P_Day string | P_Labels

datatype content = C_Key KeyState | C_Plans "Plan list" | C_Routes "Route list"
  | C_Credentials "ConfigCredential smap" | C_Group ResourceGroup | C_GroupPlan GroupPlan
  | C_Binding GroupKeyBinding | C_Day GroupDay | C_Labels "SharedLabel smap"

fun covers :: "Changes \<Rightarrow> part \<Rightarrow> bool" where
  "covers ch (P_Key k) = covers_key ch k"
| "covers ch P_Plans = ch_plans ch"
| "covers ch P_Routes = ch_routes ch"
| "covers ch P_Credentials = ch_credentials ch"
| "covers ch (P_Group i) = ch_grouped_config ch"
| "covers ch (P_GroupPlan i) = ch_grouped_config ch"
| "covers ch (P_Binding s) = ch_grouped_config ch"
| "covers ch (P_Day k) = (k \<in> set (ch_group_days ch))"
| "covers ch P_Labels = ch_group_labels ch"

text \<open>Groups and group plans are compared without what is written only once.\<close>

definition group_mask :: "ResourceGroup \<Rightarrow> ResourceGroup" where
  "group_mask g = g\<lparr>rg_created_at := 0, rg_models := []\<rparr>"

definition group_plan_mask :: "GroupPlan \<Rightarrow> GroupPlan" where
  "group_plan_mask p = p\<lparr>gpl_created_at := 0\<rparr>"

definition label_rows :: "SharedLabel smap \<Rightarrow> SharedLabel smap" where
  "label_rows ls = map (\<lambda>(k, l). (SharedLabel_Key l, label_row l)) ls"

fun in_memory :: "State \<Rightarrow> part \<Rightarrow> content option" where
  "in_memory st (P_Key k) = map_option (\<lambda>key. C_Key (key_row key)) (lookup_key st k)"
| "in_memory st P_Plans = Some (C_Plans (st_plans st))"
| "in_memory st P_Routes = Some (C_Routes (st_routes st))"
| "in_memory st P_Credentials = Some (C_Credentials (st_credentials st))"
| "in_memory st (P_Group i) =
     map_option (\<lambda>g. C_Group (group_mask (group_row g None))) (map_of (gs_groups (st_grouped st)) i)"
| "in_memory st (P_GroupPlan i) =
     map_option (\<lambda>p. C_GroupPlan (group_plan_mask (group_plan_row p None))) (map_of (gs_plans (st_grouped st)) i)"
| "in_memory st (P_Binding s) = map_option (\<lambda>b. C_Binding (binding_row b)) (map_of (gs_bindings (st_grouped st)) s)"
| "in_memory st (P_Day k) = map_option (\<lambda>v. C_Day (day_row v)) (map_of (gs_days (st_grouped st)) k)"
| "in_memory st P_Labels = Some (C_Labels (label_rows (gs_labels (st_grouped st))))"

fun on_disk :: "disk \<Rightarrow> part \<Rightarrow> content option" where
  "on_disk d (P_Key k) = map_option C_Key (map_of (dk_keys d) k)"
| "on_disk d P_Plans = Some (C_Plans (dk_plans d))"
| "on_disk d P_Routes = Some (C_Routes (dk_routes d))"
| "on_disk d P_Credentials = Some (C_Credentials (dk_credentials d))"
| "on_disk d (P_Group i) = map_option (\<lambda>g. C_Group (group_mask g)) (map_of (dk_groups d) i)"
| "on_disk d (P_GroupPlan i) = map_option (\<lambda>p. C_GroupPlan (group_plan_mask p)) (map_of (dk_group_plans d) i)"
| "on_disk d (P_Binding s) = map_option C_Binding (map_of (dk_bindings d) s)"
| "on_disk d (P_Day k) = map_option C_Day (map_of (dk_days d) k)"
| "on_disk d P_Labels = Some (C_Labels (dk_labels d))"

text \<open>The maps of a state have distinct keys, and each record carries the key it is stored under.\<close>

definition keyed :: "('v \<Rightarrow> string) \<Rightarrow> 'v smap \<Rightarrow> bool" where
  "keyed f m \<longleftrightarrow> wf_map m \<and> (\<forall>(k, v) \<in> set m. f v = k)"

definition grouped_wf :: "GroupState \<Rightarrow> bool" where
  "grouped_wf g \<longleftrightarrow> keyed rg_id (gs_groups g) \<and> keyed gpl_id (gs_plans g) \<and> keyed kb_scope (gs_bindings g) \<and>
     keyed GroupDay_Key (gs_days g)"

definition state_wf :: "State \<Rightarrow> bool" where
  "state_wf st \<longleftrightarrow> wf_map (st_keys st) \<and> grouped_wf (st_grouped st)"

text \<open>A part is in sync when the database holds it as memory does, or the changes still to write cover it.\<close>

definition in_sync ::
  "('c \<Rightarrow> 'p \<Rightarrow> bool) \<Rightarrow> ('s \<Rightarrow> 'p \<Rightarrow> 'v option) \<Rightarrow> ('d \<Rightarrow> 'p \<Rightarrow> 'v option) \<Rightarrow> 'c \<Rightarrow> 's \<Rightarrow> 'd \<Rightarrow> bool" where
  "in_sync cov mem dsk dirty st d \<longleftrightarrow> (\<forall>p. (cov dirty p \<and> mem st p \<noteq> None) \<or> dsk d p = mem st p)"

text \<open>Changes are honest when they cover every part an operation altered, and the operation deletes none.\<close>

definition honest :: "('c \<Rightarrow> 'p \<Rightarrow> bool) \<Rightarrow> ('s \<Rightarrow> 'p \<Rightarrow> 'v option) \<Rightarrow> 's \<Rightarrow> 's \<Rightarrow> 'c \<Rightarrow> bool" where
  "honest cov mem st st' ch \<longleftrightarrow>
     (\<forall>p. (\<not> cov ch p \<longrightarrow> mem st' p = mem st p) \<and> (mem st' p = None \<longrightarrow> mem st p = None))"

locale repository =
  fixes save :: "'s \<Rightarrow> 'c \<Rightarrow> 'd \<Rightarrow> 'e + 'd"
    and cov :: "'c \<Rightarrow> 'p \<Rightarrow> bool"
    and mem :: "'s \<Rightarrow> 'p \<Rightarrow> 'v option"
    and dsk :: "'d \<Rightarrow> 'p \<Rightarrow> 'v option"
    and wf :: "'s \<Rightarrow> bool"
  assumes written: "wf st \<Longrightarrow> save st ch d = Inr d' \<Longrightarrow> cov ch p \<Longrightarrow> mem st p \<noteq> None \<Longrightarrow> dsk d' p = mem st p"
    and kept: "wf st \<Longrightarrow> save st ch d = Inr d' \<Longrightarrow> \<not> cov ch p \<or> mem st p = None \<Longrightarrow> dsk d' p = dsk d p"
begin

lemma sync_pending:
  assumes "in_sync cov mem dsk dirty st d" "honest cov mem st st' cur" "\<And>p. cov ch p \<longleftrightarrow> cov dirty p \<or> cov cur p"
  shows "in_sync cov mem dsk ch st' d"
  unfolding in_sync_def
proof
  fix p
  have h: "\<not> cov cur p \<longrightarrow> mem st' p = mem st p" "mem st' p = None \<longrightarrow> mem st p = None"
    using assms(2) by (auto simp: honest_def)
  have s: "(cov dirty p \<and> mem st p \<noteq> None) \<or> dsk d p = mem st p" using assms(1) by (auto simp: in_sync_def)
  show "(cov ch p \<and> mem st' p \<noteq> None) \<or> dsk d p = mem st' p"
  proof (cases "mem st' p = None")
    case True
    with h s show ?thesis by auto
  next
    case False
    then show ?thesis using h s assms(3) [of p] by auto
  qed
qed

lemma sync_saved:
  assumes "in_sync cov mem dsk dirty st d" "wf st" "save st dirty d = Inr d'"
  shows "dsk d' p = mem st p"
proof (cases "cov dirty p \<and> mem st p \<noteq> None")
  case True
  then show ?thesis using written [OF assms(2,3)] by simp
next
  case False
  then have "dsk d' p = dsk d p" using kept [OF assms(2,3)] by blast
  moreover have "dsk d p = mem st p" using False assms(1) unfolding in_sync_def by blast
  ultimately show ?thesis by simp
qed

lemma sync_clean:
  assumes "in_sync cov mem dsk dirty st d" "wf st" "save st dirty d = Inr d'"
  shows "in_sync cov mem dsk ch st d'"
  using sync_saved [OF assms] by (simp add: in_sync_def)

end

lemma covers_merge: "covers (changes_merge c d) p \<longleftrightarrow> covers c p \<or> covers d p"
  by (cases p) (auto simp: merge_flags)

lemma covers_empty: "changes_empty c \<Longrightarrow> \<not> covers c p"
  using empty_covers by (cases p) auto

lemma keyedD: "keyed f m \<Longrightarrow> map_of m k = Some v \<Longrightarrow> f v = k"
  by (auto simp: keyed_def dest: map_of_SomeD)

lemma keyed_Nil [simp]: "keyed f []"
  by (simp add: keyed_def)

lemma keyed_update [intro]: "keyed f m \<Longrightarrow> f v = k \<Longrightarrow> keyed f (AList.update k v m)"
  using set_update_subset [of k v m] by (fastforce simp: keyed_def)

section \<open>The database keeps the contract\<close>

lemma saveKeys_Inr:
  "saveKeys st ks d = Inr d' \<Longrightarrow> \<exists>m. d' = d\<lparr>dk_keys := m\<rparr> \<and>
     (\<forall>k. map_of m k = (if k \<in> set ks then map_option key_row (lookup_key st k) else map_of (dk_keys d) k)) \<and>
     (\<forall>k \<in> set ks. lookup_key st k \<noteq> None)"
proof (induction ks arbitrary: d)
  case Nil
  then show ?case by (intro exI [of _ "dk_keys d"]) simp
next
  case (Cons k ks)
  then obtain d1 where d1: "saveKey k (lookup_key st k) d = Inr d1" "saveKeys st ks d1 = Inr d'" by auto
  obtain key where key: "lookup_key st k = Some key" "d1 = d\<lparr>dk_keys := AList.update k (key_row key) (dk_keys d)\<rparr>"
    using d1(1) by (auto simp: saveKey_def split: option.splits if_splits)
  from Cons.IH [OF d1(2)] obtain m where m: "d' = d1\<lparr>dk_keys := m\<rparr>"
     "\<forall>j. map_of m j = (if j \<in> set ks then map_option key_row (lookup_key st j) else map_of (dk_keys d1) j)"
     "\<forall>k \<in> set ks. lookup_key st k \<noteq> None"
    by blast
  have "\<forall>j. map_of m j = (if j \<in> set (k # ks) then map_option key_row (lookup_key st j) else map_of (dk_keys d) j)"
    using m(2) key by auto
  then show ?case using m(1,3) key by (intro exI [of _ m]) simp
qed

definition upsert :: "('v \<Rightarrow> 'v option \<Rightarrow> 'v) \<Rightarrow> ('v \<Rightarrow> string) \<Rightarrow> 'v smap \<Rightarrow> 'v \<Rightarrow> 'v smap" where
  "upsert row key m x = AList.update (key x) (row x (map_of m (key x))) m"

lemma foldl_upsert:
  "distinct (map key xs) \<Longrightarrow> map_of (foldl (upsert row key) m xs) k =
     (case find (\<lambda>x. key x = k) xs of None \<Rightarrow> map_of m k | Some x \<Rightarrow> Some (row x (map_of m k)))"
proof (induction xs arbitrary: m)
  case (Cons a xs)
  have IH: "map_of (foldl (upsert row key) (upsert row key m a) xs) k =
     (case find (\<lambda>x. key x = k) xs of None \<Rightarrow> map_of (upsert row key m a) k
        | Some x \<Rightarrow> Some (row x (map_of (upsert row key m a) k)))"
    using Cons by simp
  show ?case
  proof (cases "key a = k")
    case True
    have "k \<notin> key ` set xs" using Cons.prems True by simp
    then have "find (\<lambda>x. key x = k) xs = None" by (force simp: find_None_all)
    with IH True show ?thesis by (simp add: upsert_def [of row key m a])
  next
    case False
    with IH show ?thesis by (simp add: upsert_def [of row key m a] split: option.split)
  qed
qed simp

lemma foldl_save_group: "foldl save_group d gs = d\<lparr>dk_groups := foldl (upsert group_row rg_id) (dk_groups d) gs\<rparr>"
  by (induction gs arbitrary: d) (simp_all add: save_group_def upsert_def)

lemma foldl_save_group_plan:
  "foldl save_group_plan d ps = d\<lparr>dk_group_plans := foldl (upsert group_plan_row gpl_id) (dk_group_plans d) ps\<rparr>"
  by (induction ps arbitrary: d) (simp_all add: save_group_plan_def upsert_def)

lemma foldl_save_binding:
  "foldl save_binding d bs = d\<lparr>dk_bindings := foldl (upsert (\<lambda>b _. binding_row b) kb_scope) (dk_bindings d) bs\<rparr>"
  by (induction bs arbitrary: d) (simp_all add: save_binding_def upsert_def)

lemma find_keyed:
  assumes "keyed f m" "set xs = snd ` set m"
  shows "find (\<lambda>x. f x = k) xs = map_of m k"
proof (cases "map_of m k")
  case None
  then have "\<forall>x \<in> set xs. f x \<noteq> k" using assms by (auto simp: keyed_def map_of_eq_None_iff image_iff) force
  with None show ?thesis by (simp add: find_None_all)
next
  case (Some v)
  have "snd (k, v) \<in> snd ` set m" using map_of_SomeD [OF Some] by (rule imageI)
  then have v: "v \<in> set xs" "f v = k" using assms(2) keyedD [OF assms(1) Some] by simp_all
  then obtain w where w: "find (\<lambda>x. f x = k) xs = Some w" by (cases "find (\<lambda>x. f x = k) xs") (auto simp: find_None_all)
  then have "f w = k" "w \<in> set xs" using find_Some_prop by fast+
  then have "(k, w) \<in> set m" using assms by (force simp: keyed_def)
  then have "w = v" using Some assms(1) by (simp add: keyed_def wf_map_mem_iff)
  with w Some show ?thesis by simp
qed

lemma keyed_map_snd: "keyed f m \<Longrightarrow> map f (map snd m) = mkeys m"
  by (auto simp: keyed_def)

lemma distinct_keyed: "keyed f m \<Longrightarrow> distinct (map f (map snd m))"
  by (simp add: keyed_map_snd del: map_map) (simp add: keyed_def wf_map_def)

text \<open>The groups in the order of their identifiers.\<close>

lemma sorted_groups:
  assumes "keyed f m"
  defines "xs \<equiv> map (\<lambda>i. the (map_of m i)) (sort (mkeys m))"
  shows "set xs = snd ` set m" "distinct (map f xs)"
proof -
  have d: "distinct (mkeys m)" using assms by (simp add: keyed_def wf_map_def)
  have "the (map_of m (fst kv)) = snd kv" if "kv \<in> set m" for kv
    using map_of_is_SomeI [OF d, of "fst kv" "snd kv"] that by simp
  then show "set xs = snd ` set m" by (simp add: xs_def image_image)
  have "f (the (map_of m i)) = i" if "i \<in> set (mkeys m)" for i
    using that keyedD [OF assms(1)] by (cases "map_of m i") (auto simp: map_of_eq_None_iff)
  then have "map f xs = sort (mkeys m)" unfolding xs_def map_map by (intro map_idI) simp
  then show "distinct (map f xs)" using d by simp
qed

lemma saveGroupedConfig_rows:
  assumes "grouped_wf (st_grouped st)"
  shows "\<exists>gs ps bs. saveGroupedConfig st d = d\<lparr>dk_groups := gs, dk_group_plans := ps, dk_bindings := bs\<rparr> \<and>
    (\<forall>i. map_of gs i = (case map_of (gs_groups (st_grouped st)) i of None \<Rightarrow> map_of (dk_groups d) i
                        | Some g \<Rightarrow> Some (group_row g (map_of (dk_groups d) i)))) \<and>
    (\<forall>i. map_of ps i = (case map_of (gs_plans (st_grouped st)) i of None \<Rightarrow> map_of (dk_group_plans d) i
                        | Some p \<Rightarrow> Some (group_plan_row p (map_of (dk_group_plans d) i)))) \<and>
    (\<forall>s. map_of bs s = (case map_of (gs_bindings (st_grouped st)) s of None \<Rightarrow> map_of (dk_bindings d) s
                        | Some b \<Rightarrow> Some (binding_row b)))"
proof -
  let ?g = "st_grouped st"
  have k: "keyed rg_id (gs_groups ?g)" "keyed gpl_id (gs_plans ?g)" "keyed kb_scope (gs_bindings ?g)"
    using assms by (auto simp: grouped_wf_def)
  let ?xs = "map (\<lambda>i. the (map_of (gs_groups ?g) i)) (sort (mkeys (gs_groups ?g)))"
  have f: "foldl (\<lambda>d i. save_group d (the (map_of (gs_groups ?g) i))) d is =
      foldl save_group d (map (\<lambda>i. the (map_of (gs_groups ?g) i)) is)" for d "is"
    by (simp add: foldl_map)
  note s = sorted_groups [OF k(1)]
  show ?thesis
    unfolding saveGroupedConfig_def Let_def f foldl_save_group foldl_save_group_plan foldl_save_binding
    apply (rule exI [of _ "foldl (upsert group_row rg_id) (dk_groups d) ?xs"])
    apply (rule exI [of _ "foldl (upsert group_plan_row gpl_id) (dk_group_plans d) (map snd (gs_plans ?g))"])
    apply (rule exI [of _ "foldl (upsert (\<lambda>b _. binding_row b) kb_scope) (dk_bindings d) (map snd (gs_bindings ?g))"])
    apply (simp add: foldl_upsert [OF s(2)] find_keyed [OF k(1) s(1)] foldl_upsert [OF distinct_keyed [OF k(2)]]
        find_keyed [OF k(2)] foldl_upsert [OF distinct_keyed [OF k(3)]] find_keyed [OF k(3)] del: map_map)
    done
qed

lemma saveGroupDays_Inr:
  "saveGroupDays st ks d = Inr d' \<Longrightarrow> keyed GroupDay_Key (gs_days (st_grouped st)) \<Longrightarrow>
     \<exists>m. d' = d\<lparr>dk_days := m\<rparr> \<and>
       (\<forall>k. map_of m k = (if k \<in> set ks then map_option day_row (map_of (gs_days (st_grouped st)) k)
                          else map_of (dk_days d) k)) \<and>
       (\<forall>k \<in> set ks. map_of (gs_days (st_grouped st)) k \<noteq> None)"
proof (induction ks arbitrary: d)
  case Nil
  then show ?case by (intro exI [of _ "dk_days d"]) simp
next
  case (Cons k ks)
  then obtain v where v: "map_of (gs_days (st_grouped st)) k = Some v"
    "saveGroupDays st ks (d\<lparr>dk_days := AList.update (GroupDay_Key v) (day_row v) (dk_days d)\<rparr>) = Inr d'"
    by (auto split: option.splits)
  have kv: "GroupDay_Key v = k" using Cons.prems(2) v(1) by (rule keyedD)
  from Cons.IH [OF v(2) Cons.prems(2)] obtain m where
    m: "d' = d\<lparr>dk_days := m\<rparr>"
      "\<forall>j. map_of m j = (if j \<in> set ks then map_option day_row (map_of (gs_days (st_grouped st)) j)
         else map_of (AList.update (GroupDay_Key v) (day_row v) (dk_days d)) j)"
      "\<forall>k \<in> set ks. map_of (gs_days (st_grouped st)) k \<noteq> None" by auto
  then show ?case using v(1) kv by (intro exI [of _ m]) simp
qed

text \<open>The rows events add do not touch any part.\<close>

lemma on_disk_cong:
  "dk_keys d' = dk_keys d \<Longrightarrow> dk_plans d' = dk_plans d \<Longrightarrow> dk_routes d' = dk_routes d \<Longrightarrow>
   dk_credentials d' = dk_credentials d \<Longrightarrow> dk_groups d' = dk_groups d \<Longrightarrow> dk_group_plans d' = dk_group_plans d \<Longrightarrow>
   dk_bindings d' = dk_bindings d \<Longrightarrow> dk_days d' = dk_days d \<Longrightarrow> dk_labels d' = dk_labels d \<Longrightarrow> on_disk d' p = on_disk d p"
  by (cases p) simp_all

lemma on_disk_event [simp]: "on_disk (snd (appendRequestEvent d e)) p = on_disk d p"
  by (rule on_disk_cong) (simp_all add: appendRequestEvent_def Let_def)

lemma on_disk_events [simp]:
  "on_disk (foldl (\<lambda>d e. snd (appendRequestEvent d (f e))) d es) p = on_disk d p"
  by (induction es arbitrary: d) simp_all

lemma on_disk_error: "on_disk (appendRequestErrorEvent d e) p = on_disk d p"
  by (rule on_disk_cong) (simp_all add: appendRequestErrorEvent_def appendRequestEvent_def Let_def)

lemma on_disk_errors [simp]: "on_disk (foldl appendRequestErrorEvent d es) p = on_disk d p"
  by (induction es arbitrary: d) (simp_all add: on_disk_error)

lemma on_disk_prune [simp]: "on_disk (pruneRequestEvents t d) p = on_disk d p"
  by (rule on_disk_cong) (simp_all add: pruneRequestEvents_def Let_def)

text \<open>What the tables of the state hold after they are saved.\<close>

lemma group_row_mask: "group_mask (group_row g old) = group_mask (group_row g None)"
  by (simp add: group_row_def group_mask_def split: option.split)

lemma group_plan_row_mask: "group_plan_mask (group_plan_row p old) = group_plan_mask (group_plan_row p None)"
  by (simp add: group_plan_row_def group_plan_mask_def split: option.split)

lemma saveStateTables_parts:
  assumes "saveStateTables st ch d = Inr d'" "state_wf st"
  shows "on_disk d' p = (if covers ch p \<and> in_memory st p \<noteq> None then in_memory st p else on_disk d p)"
proof -
  let ?ks = "if ch_all_keys ch then mkeys (st_keys st) else ch_keys ch"
  let ?g = "st_grouped st"
  have wf: "grouped_wf ?g" "keyed GroupDay_Key (gs_days ?g)" using assms(2) by (auto simp: state_wf_def grouped_wf_def)
  obtain d1 d2 d3 where s: "saveKeys st ?ks d = Inr d1"
    "(if ch_plans ch then replacePlans st d1 else Inr d1) = Inr d2"
    "d3 = (let d = (if ch_routes ch then replaceRoutes st d2 else d2)
           in if ch_credentials ch then replaceConfigCredentials st d else d)"
    "saveGroupedState st ch d3 = Inr d'"
    using assms(1) unfolding saveStateTables_def Let_def try_bind_eq_Inr by blast
  obtain ks where ks: "d1 = d\<lparr>dk_keys := ks\<rparr>"
     "\<And>k. map_of ks k = (if k \<in> set ?ks then map_option key_row (lookup_key st k) else map_of (dk_keys d) k)"
     "\<And>k. k \<in> set ?ks \<Longrightarrow> lookup_key st k \<noteq> None"
    using saveKeys_Inr [OF s(1)] by blast
  have d2: "d2 = d1\<lparr>dk_plans := (if ch_plans ch then st_plans st else dk_plans d)\<rparr>"
    using s(2) ks(1) by (auto simp: replacePlans_def split: if_splits)
  have d3: "d3 = d2\<lparr>dk_routes := (if ch_routes ch then st_routes st else dk_routes d),
      dk_credentials := (if ch_credentials ch then st_credentials st else dk_credentials d)\<rparr>"
    using s(3) d2 ks(1) by (simp add: Let_def replaceRoutes_def replaceConfigCredentials_def)
  define d4 where "d4 = (if ch_grouped_config ch then saveGroupedConfig st d3 else d3)"
  obtain gs gps bs where c: "d4 = d3\<lparr>dk_groups := gs, dk_group_plans := gps, dk_bindings := bs\<rparr>"
    "\<And>i. map_of gs i = (if ch_grouped_config ch then
         (case map_of (gs_groups ?g) i of None \<Rightarrow> map_of (dk_groups d) i
          | Some g \<Rightarrow> Some (group_row g (map_of (dk_groups d) i))) else map_of (dk_groups d) i)"
    "\<And>i. map_of gps i = (if ch_grouped_config ch then
         (case map_of (gs_plans ?g) i of None \<Rightarrow> map_of (dk_group_plans d) i
          | Some p \<Rightarrow> Some (group_plan_row p (map_of (dk_group_plans d) i))) else map_of (dk_group_plans d) i)"
    "\<And>s. map_of bs s = (if ch_grouped_config ch then
         (case map_of (gs_bindings ?g) s of None \<Rightarrow> map_of (dk_bindings d) s
          | Some b \<Rightarrow> Some (binding_row b)) else map_of (dk_bindings d) s)"
  proof (cases "ch_grouped_config ch")
    case True
    have e: "dk_groups d3 = dk_groups d" "dk_group_plans d3 = dk_group_plans d" "dk_bindings d3 = dk_bindings d"
      by (simp_all add: d3 d2 ks(1))
    from saveGroupedConfig_rows [OF wf(1), of d3, unfolded e] True that show ?thesis
      unfolding d4_def by auto
  next
    case False
    show ?thesis
      by (rule that [where gs = "dk_groups d" and gps = "dk_group_plans d" and bs = "dk_bindings d"]) (simp_all add: d4_def False d3 d2 ks(1))
  qed
  obtain d5 where d5: "saveGroupDays st (ch_group_days ch) d4 = Inr d5"
    "d' = (let d = (if ch_group_labels ch then d5\<lparr>dk_labels := label_rows (gs_labels ?g)\<rparr> else d5)
       in d\<lparr>dk_audits := dk_audits d @ ch_group_audits ch\<rparr>)"
    using s(4) unfolding saveGroupedState_def Let_def d4_def [symmetric] label_rows_def try_bind_eq_Inr by auto
  obtain ds where ds: "d5 = d4\<lparr>dk_days := ds\<rparr>"
    "\<And>k. map_of ds k = (if k \<in> set (ch_group_days ch) then map_option day_row (map_of (gs_days ?g) k)
                          else map_of (dk_days d) k)"
    "\<And>k. k \<in> set (ch_group_days ch) \<Longrightarrow> map_of (gs_days ?g) k \<noteq> None"
    using saveGroupDays_Inr [OF d5(1) wf(2)] by (auto simp: c(1) d3 d2 ks(1))
  have ck: "k \<in> set ?ks \<longleftrightarrow> covers_key ch k \<and> lookup_key st k \<noteq> None" for k
    using ks(3) [of k] by (auto simp: covers_key_def lookup_key_def map_of_eq_None_iff)
  have ks': "map_of ks k = (if covers_key ch k \<and> lookup_key st k \<noteq> None then map_option key_row (lookup_key st k)
      else map_of (dk_keys d) k)" for k
    using ks(2) [of k] ck [of k] by simp
  have ds': "map_of ds k = (if k \<in> set (ch_group_days ch) \<and> map_of (gs_days ?g) k \<noteq> None
        then map_option day_row (map_of (gs_days ?g) k) else map_of (dk_days d) k)" for k
    using ds(2,3) [of k] by (cases "k \<in> set (ch_group_days ch)") auto
  have t: "d' = d\<lparr>dk_keys := ks, dk_plans := (if ch_plans ch then st_plans st else dk_plans d),
      dk_routes := (if ch_routes ch then st_routes st else dk_routes d),
      dk_credentials := (if ch_credentials ch then st_credentials st else dk_credentials d),
      dk_groups := gs, dk_group_plans := gps, dk_bindings := bs, dk_days := ds,
      dk_labels := (if ch_group_labels ch then label_rows (gs_labels ?g) else dk_labels d),
      dk_audits := dk_audits d @ ch_group_audits ch\<rparr>"
    by (simp add: d5(2) ds(1) c(1) d3 d2 ks(1) Let_def)
  show ?thesis
  proof (cases p)
    case (P_Key k)
    then show ?thesis by (cases "lookup_key st k") (simp_all add: t ks')
  next
    case (P_Group i)
    then show ?thesis
      by (cases "map_of (gs_groups ?g) i") (simp_all add: t c(2) group_row_mask [of _ "map_of (dk_groups d) i"])
  next
    case (P_GroupPlan i)
    then show ?thesis
      by (cases "map_of (gs_plans ?g) i") (simp_all add: t c(3) group_plan_row_mask [of _ "map_of (dk_group_plans d) i"])
  next
    case (P_Binding s)
    then show ?thesis by (cases "map_of (gs_bindings ?g) s") (simp_all add: t c(4))
  next
    case (P_Day k)
    then show ?thesis by (cases "map_of (gs_days ?g) k") (simp_all add: t ds')
  qed (simp_all add: t)
qed

lemma Save_parts:
  assumes "state_wf st" "Save refuses st ch d = Inr d'"
  shows "on_disk d' p = (if covers ch p \<and> in_memory st p \<noteq> None then in_memory st p else on_disk d p)"
proof -
  obtain d1 where d1: "saveStateTables st ch d = Inr d1" "\<And>p. on_disk d' p = on_disk d1 p"
    using assms(2) by (auto simp: Save_def Let_def split: option.splits)
  show ?thesis unfolding d1(2) by (rule saveStateTables_parts [OF d1(1) assms(1)])
qed

text \<open>The tables of \<^verbatim>\<open>internal/sqlite\<close> keep the contract, whatever transactions the engine refuses.\<close>

interpretation db: repository "Save refuses" covers in_memory on_disk state_wf for refuses
  by unfold_locales (auto simp: Save_parts)

section \<open>Loading back\<close>

lemma try_map_id: "(\<And>x. x \<in> set xs \<Longrightarrow> f x = Inr x) \<Longrightarrow> try_map f xs = Inr xs"
  by (induction xs) auto

lemma blank_TrimSpace:
  assumes "list_all (\<lambda>c. c = CHR '' '') s"
  shows "TrimSpace s = []"
proof (rule ccontr)
  assume "TrimSpace s \<noteq> []"
  then obtain c cs where c: "TrimSpace s = c # cs" by (cases "TrimSpace s") auto
  then have "c = CHR '' ''" using assms set_TrimSpace [of s] by (auto simp: list_all_iff)
  then have "prefix [CHR '' ''] (TrimSpace s)" using c by simp
  moreover have "front_clean white_space (TrimSpace s)" using trimmed_TrimSpace [of s] by (simp add: trimmed_def)
  ultimately show False by (auto simp: front_clean_def white_space_def)
qed

text \<open>A working set whose records are in the form the store keeps them in.\<close>

definition key_loadable :: "Plan list \<Rightarrow> string \<Rightarrow> KeyState \<Rightarrow> bool" where
  "key_loadable plans scope key \<longleftrightarrow>
     TrimSpace scope \<noteq> [] \<and> TrimSpace (ks_preview key) \<noteq> [] \<and> storable (ks_deleted_at key) \<and>
     ValidateCycles key (case FindPlan plans (ks_plan key) of None \<Rightarrow> no_plan | Some p \<Rightarrow> p) = Inr () \<and>
     NormalizeRouteBindings (ks_bindings key) = Inr (ks_bindings key)"

definition loadable :: "State \<Rightarrow> bool" where
  "loadable st \<longleftrightarrow>
     (\<forall>p \<in> set (st_plans st). plan_ok p \<and> sorted (map win_period (pln_windows p))) \<and>
     (\<forall>r \<in> set (st_routes st). NormalizeRoute r = Inr r) \<and>
     (\<forall>scope key. lookup_key st scope = Some key \<longrightarrow> key_loadable (st_plans st) scope key)"

lemma loadPlans_same:
  assumes "\<forall>p \<in> set (dk_plans d). plan_ok p \<and> sorted (map win_period (pln_windows p))"
  shows "loadPlans d = Inr (dk_plans d)"
  unfolding loadPlans_def
  by (rule try_map_id) (use assms in \<open>auto simp: plan_ok_def sort_key_id_if_sorted\<close>)

lemma loadKey_same: "key_loadable plans scope key \<Longrightarrow> loadKey plans (scope, key) = Inr (scope, key)"
  by (simp add: key_loadable_def loadKey_def)

lemma fill_previews_same:
  assumes "\<And>k key. (k, key) \<in> set (dk_keys d) \<Longrightarrow> TrimSpace (ks_preview key) \<noteq> []"
  shows "fill_previews d = d"
proof -
  have "map_values (\<lambda>_ k. if list_all (\<lambda>c. c = CHR '' '') (ks_preview k) then k\<lparr>ks_preview := UnknownKeyPreview\<rparr> else k)
      (dk_keys d) = dk_keys d"
    unfolding map_values_def by (intro map_idI) (use assms blank_TrimSpace in \<open>auto split: prod.split\<close>)
  then show ?thesis by (simp add: fill_previews_def)
qed

lemma prune_tables [simp]:
  "dk_keys (pruneRequestEvents t d) = dk_keys d" "dk_plans (pruneRequestEvents t d) = dk_plans d"
  "dk_routes (pruneRequestEvents t d) = dk_routes d" "dk_credentials (pruneRequestEvents t d) = dk_credentials d"
  "dk_days (pruneRequestEvents t d) = dk_days d" "dk_labels (pruneRequestEvents t d) = dk_labels d"
  by (simp_all add: pruneRequestEvents_def Let_def)

lemma on_disk_key:
  assumes "\<And>p. on_disk d p = in_memory st p" "loadable st" "map_of (dk_keys d) k = Some row"
  shows "lookup_key st k = Some row"
proof -
  have "map_option C_Key (map_of (dk_keys d) k) = map_option (\<lambda>key. C_Key (key_row key)) (lookup_key st k)"
    using assms(1) [of "P_Key k"] by simp
  with assms(3) obtain key where key: "lookup_key st k = Some key" "row = key_row key"
    by (cases "lookup_key st k") auto
  moreover have "storable (ks_deleted_at key)" using assms(2) key(1) by (auto simp: loadable_def key_loadable_def)
  ultimately show ?thesis by (simp add: key_row_def stored_storable)
qed

lemma Load_facts:
  assumes "\<forall>p. on_disk d p = in_memory st p" "loadable st" "wf_map (dk_keys d)"
  shows "\<exists>st' n d'. Load cutoff d = Inr (st', n, d') \<and>
    st_plans st' = st_plans st \<and> st_routes st' = st_routes st \<and> st_credentials st' = st_credentials st \<and> st_prices st' = loadPrices d \<and>
    (\<forall>k. lookup_key st' k = lookup_key st k) \<and>
    (\<forall>k. map_of (gs_days (st_grouped st')) k = map_option day_row (map_of (gs_days (st_grouped st)) k))"
proof -
  have sync: "on_disk d p = in_memory st p" for p using assms(1) by blast
  have t: "dk_plans d = st_plans st" "dk_routes d = st_routes st" "dk_credentials d = st_credentials st"
    using sync [of P_Plans] sync [of P_Routes] sync [of P_Credentials] by simp_all
  have row: "lookup_key st k = Some r" if "(k, r) \<in> set (dk_keys d)" for k r
    using that assms(3) on_disk_key [OF sync assms(2)] by (simp add: wf_map_mem_iff)
  have good: "key_loadable (st_plans st) k r" if "(k, r) \<in> set (dk_keys d)" for k r
    using row [OF that] assms(2) by (auto simp: loadable_def)
  define d1 where "d1 = pruneRequestEvents cutoff d"
  have f: "fill_previews d1 = d1" by (rule fill_previews_same) (auto simp: d1_def dest!: good simp: key_loadable_def)
  have p: "loadPlans d1 = Inr (st_plans st)"
    using loadPlans_same [of d1] assms(2) t by (simp add: d1_def loadable_def)
  have k: "try_map (loadKey (st_plans st)) (dk_keys d1) = Inr (dk_keys d)"
    unfolding d1_def prune_tables by (rule try_map_id) (auto dest!: good simp: loadKey_same)
  have r: "try_map NormalizeRoute (dk_routes d1) = Inr (st_routes st)"
    unfolding d1_def prune_tables t by (rule try_map_id) (use assms(2) in \<open>auto simp: loadable_def\<close>)
  have l: "map_of (dk_keys d) k = lookup_key st k" for k
  proof (cases "map_of (dk_keys d) k")
    case None
    then show ?thesis using sync [of "P_Key k"] by (cases "lookup_key st k") auto
  next
    case (Some v)
    then show ?thesis using on_disk_key [OF sync assms(2)] by simp
  qed
  have y: "map_of (dk_days d) k = map_option day_row (map_of (gs_days (st_grouped st)) k)" for k
    using sync [of "P_Day k"] by (cases "map_of (dk_days d) k"; cases "map_of (gs_days (st_grouped st)) k") auto
  have "dk_prices d1 = dk_prices d" by (simp add: d1_def pruneRequestEvents_def Let_def)
  then show ?thesis
    using t(3) l y by (simp add: Load_def d1_def [symmetric] Let_def f p k r lookup_key_def loadGroupedState_def)
      (simp add: d1_def loadPrices_def)
qed


definition free_window :: QuotaWindow where
  "free_window = \<lparr>win_id = ''w'', win_name = ''daily'', win_period = 86400, win_amount = Fin 10, win_tokens = 0,
     win_requests = 0, win_anchor = 0\<rparr>"

definition free_plan :: Plan where
  "free_plan = \<lparr>pln_id = ''p'', pln_name = ''plan'', pln_windows = [free_window]\<rparr>"

definition bound_key :: KeyState where
  "bound_key = new_key\<lparr>ks_preview := ''sk'', ks_in_config := True, ks_plan := ''p''\<rparr>"

definition small_route :: Route where
  "small_route = \<lparr>rte_id = ''r'', rte_name = ''r'', rte_rule = empty_rule\<rparr>"

definition small_state :: State where
  "small_state = NewState\<lparr>st_plans := [free_plan], st_keys := [(''ab'', bound_key)], st_routes := [small_route]\<rparr>"

definition small_disk :: disk where
  "small_disk = new_disk\<lparr>dk_plans := [free_plan], dk_keys := [(''ab'', bound_key)], dk_routes := [small_route]\<rparr>"

lemma trim_words [simp]: "TrimSpace ''p'' = ''p''" "TrimSpace ''r'' = ''r''" "TrimSpace ''sk'' = ''sk''"
  "TrimSpace ''ab'' = ''ab''" "TrimSpace ''daily'' = ''daily''"
  by (rule TrimSpace_visible; simp add: visible_def)+

lemma free_plan_ok: "plan_ok free_plan"
  by (simp add: plan_ok_def Plan_Validate_def free_plan_def free_window_def check_window_def Let_def
      maxRouteNameBytes_def maxQuotaCount_def invalidPrice_def IsNaN_def IsInf_def feq_def IsZero_def)

lemma empty_rule_same: "NormalizeRouteRule empty_rule = Inr empty_rule"
  by (rule normalize_rule_normal) (simp add: rule_normal_def empty_rule_def route_strings_ok_def fold_distinct_def
      fingerprints_ok_def selectors_ok_def fold_disjoint_def)

lemma small_bindings [simp]: "NormalizeRouteBindings no_bindings = Inr no_bindings"
  by (simp add: NormalizeRouteBindings_def no_bindings_def empty_rule_same normalizeRouteStrings_def)

lemma small_loadable: "loadable small_state"
proof -
  have "FindPlan [free_plan] ''p'' = Some free_plan" by (simp add: FindPlan_def free_plan_def)
  then show ?thesis
    using free_plan_ok empty_rule_same
    by (simp add: loadable_def small_state_def key_loadable_def lookup_key_def NewState_def bound_key_def new_key_def
        small_route_def NormalizeRoute_def maxRouteNameBytes_def storable_def IsZero_def)
      (simp add: ValidateCycles_iff free_plan_def Let_def)
qed

lemma small_synced: "on_disk small_disk p = in_memory small_state p"
  by (cases p)
    (simp_all add: small_disk_def small_state_def new_disk_def NewState_def NewGroupState_def lookup_key_def key_row_def
      bound_key_def new_key_def stored_def nanos_def timeAt_def IsZero_def label_rows_def)


end
