(* ===== verification/Store.thy ===== *)
theory Store
  imports Persistence
begin

text \<open>
  The store: \<^verbatim>\<open>internal/billing/store.go\<close>, \<^verbatim>\<open>config.go\<close>, the writing half of
  \<^verbatim>\<open>plugin_logs.go\<close> and the record of blocked keys of \<^verbatim>\<open>admission_logs.go\<close>. Every operation runs
  its state change under the store's mutex, so one operation is one step of the model. \<open>env\<close> is what an
  operation finds outside: successive readings of the clock, and the transactions the database engine refuses.
  A read of \<open>Save\<close> that fails leaves the database as it was. The open database is \<open>s_repo\<close>, \<open>None\<close> before the
  host configures a path. An operation edits a copy of the state, so a failing edit has no effect on \<open>s_state\<close>.
  The main result is that every operation with honest changes keeps memory and database in sync.
\<close>

section \<open>Configuration\<close>

record Config =
  cfg_keeper_url :: string
  cfg_keeper_password_env :: string
  cfg_enabled :: bool
  cfg_debug :: bool
  cfg_state_file :: string
  cfg_fast_mode :: bool

definition DefaultStateFile :: string where
  "DefaultStateFile = ''plugins/cpa-key-billing-state-v1.db''"

definition DefaultConfig :: Config where
  "DefaultConfig = \<lparr>cfg_keeper_url = [], cfg_keeper_password_env = [], cfg_enabled = False, cfg_debug = False,
     cfg_state_file = DefaultStateFile, cfg_fast_mode = False\<rparr>"

definition config_normalized :: "Config \<Rightarrow> Config" where
  "config_normalized c =
     (let f = TrimSpace (cfg_state_file c)
      in c\<lparr>cfg_state_file := (if f = [] then DefaultStateFile else f)\<rparr>)"

text \<open>\<open>yaml\<close> stands for the YAML decoder: the fields of the single document, over the given defaults, or an error.\<close>

definition DecodeConfig :: "(string \<Rightarrow> Config \<Rightarrow> error + Config) \<Rightarrow> string \<Rightarrow> error + Config" where
  "DecodeConfig yaml raw =
     (if TrimSpace raw = [] then Inr (config_normalized DefaultConfig)
      else try_bind (yaml raw DefaultConfig) (\<lambda>cfg. Inr (config_normalized cfg)))"

definition config_describe :: "Config \<Rightarrow> string" where
  "config_describe c = (if cfg_enabled c then ''enabled'' else ''disabled'')"

section \<open>State of the store\<close>

datatype PluginLogLevel = PluginLogDebug | PluginLogInfo | PluginLogError

record groupSlot =
  slot_scope :: string
  slot_group :: string

text \<open>
  The signature of a block names the plan and, for every exhausted window, its start and exhausted metrics. The
  source prints it with quoted identifiers, so two signatures are equal exactly when their parts are.
\<close>

type_synonym signature = "string \<times> (string \<times> time \<times> QuotaMetric list) list"

text \<open>\<open>s_logs\<close> are the entries handed to \<open>AppendPluginLog\<close>; the instant of an entry is left out.\<close>

record Store =
  s_state :: State
  s_cfg :: Config
  s_repo :: "disk option"
  s_path :: string
  s_dirty :: Changes
  s_active_requests :: "string smap"
  s_active_by_scope :: "int smap"
  s_group_slots :: "groupSlot smap"
  s_group_active :: "int smap"
  s_blocked :: "signature smap"
  s_last_error :: string
  s_logs :: "(PluginLogLevel \<times> string) list"

record env =
  env_clock :: "nat \<Rightarrow> time"
  env_refuses :: "State \<Rightarrow> Changes \<Rightarrow> disk \<Rightarrow> error option"

definition new_store :: Store where
  "new_store = \<lparr>s_state = NewState, s_cfg = DefaultConfig, s_repo = None, s_path = [], s_dirty = no_changes,
     s_active_requests = [], s_active_by_scope = [], s_group_slots = [], s_group_active = [], s_blocked = [],
     s_last_error = [], s_logs = []\<rparr>"

definition Enabled :: "Store \<Rightarrow> bool" where
  "Enabled s = cfg_enabled (s_cfg s)"

definition AddPluginLog :: "PluginLogLevel \<Rightarrow> string \<Rightarrow> Store \<Rightarrow> Store" where
  "AddPluginLog level msg s =
     (if s_repo s = None then s
      else if level = PluginLogDebug \<and> \<not> cfg_debug (s_cfg s) then s
      else s\<lparr>s_logs := s_logs s @ [(level, msg)]\<rparr>)"

definition withRepository :: "Store \<Rightarrow> 'a \<Rightarrow> (disk \<Rightarrow> error + 'a) \<Rightarrow> error + 'a" where
  "withRepository s zero fn = (case s_repo s of None \<Rightarrow> Inr zero | Some d \<Rightarrow> fn d)"

section \<open>Blocked keys\<close>

definition blocked_onset :: "signature smap \<Rightarrow> string \<Rightarrow> signature \<Rightarrow> bool \<times> signature smap" where
  "blocked_onset b scope signature =
     (if map_of b scope = Some signature then (False, b) else (True, AList.update scope signature b))"

definition blocked_clear :: "signature smap \<Rightarrow> string \<Rightarrow> signature smap" where
  "blocked_clear b scope = AList.delete scope b"

definition blocked_reset :: "signature smap \<Rightarrow> signature smap" where
  "blocked_reset b = []"

section \<open>Writing\<close>

definition recordWriteSuccess :: "Store \<Rightarrow> Store" where
  "recordWriteSuccess s =
     (let recovered = (s_last_error s \<noteq> []); s = s\<lparr>s_last_error := []\<rparr>
      in if recovered then AddPluginLog PluginLogInfo ''database writes have recovered'' s else s)"

definition recordWriteError :: "error \<Rightarrow> Store \<Rightarrow> Store" where
  "recordWriteError e s =
     (let first = (s_last_error s = []); s = s\<lparr>s_last_error := Error_msg e\<rparr>
      in if first then AddPluginLog PluginLogError (''saving billing data failed: '' @ Error_msg e) s else s)"

definition updateResult :: "env \<Rightarrow> (State \<Rightarrow> 'a \<times> Changes \<times> State) \<Rightarrow> Store \<Rightarrow> 'a \<times> Store" where
  "updateResult E fn s =
     (case fn (s_state s) of (v, current, st) \<Rightarrow>
        let changes = changes_merge (s_dirty s) current; s = s\<lparr>s_state := st\<rparr>
        in (v, case s_repo s of
                 None \<Rightarrow> s
               | Some d \<Rightarrow>
                   if changes_empty changes then s
                   else case Save (env_refuses E) st changes d of
                          Inr d' \<Rightarrow> recordWriteSuccess (s\<lparr>s_repo := Some d', s_dirty := no_changes\<rparr>)
                        | Inl e \<Rightarrow> recordWriteError e (s\<lparr>s_dirty := changes\<rparr>)))"

text \<open>\<open>fmt.Errorf\<close> with \<open>%w\<close> keeps the kind of the wrapped error.\<close>

fun wrap_error :: "string \<Rightarrow> error \<Rightarrow> error" where
  "wrap_error pre (Typed_Error k m) = Typed_Error k (pre @ m)"
| "wrap_error pre (Plain_Error m) = Plain_Error (pre @ m)"

text \<open>Publishing an edit: the new state, and the blocked keys it touches are forgotten.\<close>

definition publish_edit :: "State \<Rightarrow> Changes \<Rightarrow> Store \<Rightarrow> Store" where
  "publish_edit st changes s =
     s\<lparr>s_state := st,
       s_blocked := (if ch_all_keys changes then blocked_reset (s_blocked s)
                     else foldl blocked_clear (s_blocked s) (ch_keys changes))\<rparr>"

definition editConfiguration :: "env \<Rightarrow> (State \<Rightarrow> error + 'a \<times> Changes \<times> State) \<Rightarrow> Store \<Rightarrow> (error + 'a) \<times> Store" where
  "editConfiguration E fn s =
     (case fn (s_state s) of
        Inl e \<Rightarrow> (Inl e, s)
      | Inr (v, current, st) \<Rightarrow>
          let changes = changes_merge (s_dirty s) current
          in case s_repo s of
               None \<Rightarrow> (Inr v, publish_edit st changes s)
             | Some d \<Rightarrow>
                 if changes_empty changes then (Inr v, publish_edit st changes s)
                 else case Save (env_refuses E) st changes d of
                        Inl e \<Rightarrow> (Inl (wrap_error ''saving configuration failed: '' e), recordWriteError e s)
                      | Inr d' \<Rightarrow>
                          (Inr v, recordWriteSuccess (publish_edit st changes (s\<lparr>s_repo := Some d', s_dirty := no_changes\<rparr>))))"

section \<open>Configure and Close\<close>

text \<open>
  \<open>abs_path\<close> is \<open>filepath.Abs\<close>; \<open>open_db\<close> opens the database of a path, created or migrated as needed; \<open>references_error\<close> is
  the error of opening the reference prices. The databases a closed store leaves behind are outside the model.
\<close>

definition Configure ::
  "env \<Rightarrow> (string \<Rightarrow> error + string) \<Rightarrow> (string \<Rightarrow> error + disk) \<Rightarrow> error option \<Rightarrow> Config \<Rightarrow> Store \<Rightarrow> (error + unit) \<times> Store" where
  "Configure E abs_path open_db references_error cfg s =
     (let normalized = config_normalized cfg
      in case abs_path (cfg_state_file normalized) of
           Inl e \<Rightarrow> (Inl (wrap_error ''resolving the database path: '' e), s)
         | Inr path \<Rightarrow>
             if s_path s = path
             then (Inr (), let changed = (s_cfg s \<noteq> normalized); s = s\<lparr>s_cfg := normalized\<rparr>
                           in if changed
                              then AddPluginLog PluginLogInfo (''configuration updated: '' @ config_describe normalized) s
                              else s)
             else case open_db path of
                    Inl e \<Rightarrow> (Inl e, s)
                  | Inr d \<Rightarrow>
                      (case Load (env_clock E 0 - RequestEventRetention) d of
                         Inl e \<Rightarrow> (Inl e, s)
                       | Inr (st, n, d') \<Rightarrow>
                           (case references_error of
                              Some e \<Rightarrow> (Inl e, s)
                            | None \<Rightarrow>
                                (Inr (), AddPluginLog PluginLogInfo (''database loaded: '' @ path)
                                   (s\<lparr>s_state := st, s_cfg := normalized, s_repo := Some d', s_path := path,
                                      s_dirty := no_changes\<rparr>)))))"

definition Close :: "Store \<Rightarrow> Store" where
  "Close s =
     s\<lparr>s_repo := None, s_path := [], s_dirty := no_changes, s_active_requests := [], s_active_by_scope := [],
       s_group_slots := [], s_group_active := []\<rparr>"

section \<open>Lemmas\<close>

lemma AddPluginLog_other [simp]:
  "s_state (AddPluginLog l m s) = s_state s" "s_repo (AddPluginLog l m s) = s_repo s"
  "s_dirty (AddPluginLog l m s) = s_dirty s" "s_blocked (AddPluginLog l m s) = s_blocked s"
  "s_active_requests (AddPluginLog l m s) = s_active_requests s"
  "s_active_by_scope (AddPluginLog l m s) = s_active_by_scope s"
  "s_group_slots (AddPluginLog l m s) = s_group_slots s" "s_group_active (AddPluginLog l m s) = s_group_active s"
  "s_cfg (AddPluginLog l m s) = s_cfg s" "s_last_error (AddPluginLog l m s) = s_last_error s"
  "s_path (AddPluginLog l m s) = s_path s"
  by (simp_all add: AddPluginLog_def)

lemma recordWrite_other [simp]:
  "s_state (recordWriteSuccess s) = s_state s" "s_repo (recordWriteSuccess s) = s_repo s"
  "s_dirty (recordWriteSuccess s) = s_dirty s" "s_blocked (recordWriteSuccess s) = s_blocked s"
  "s_active_requests (recordWriteSuccess s) = s_active_requests s"
  "s_active_by_scope (recordWriteSuccess s) = s_active_by_scope s"
  "s_group_slots (recordWriteSuccess s) = s_group_slots s" "s_group_active (recordWriteSuccess s) = s_group_active s"
  "s_cfg (recordWriteSuccess s) = s_cfg s"
  "s_state (recordWriteError e s) = s_state s" "s_repo (recordWriteError e s) = s_repo s"
  "s_dirty (recordWriteError e s) = s_dirty s" "s_blocked (recordWriteError e s) = s_blocked s"
  "s_active_requests (recordWriteError e s) = s_active_requests s"
  "s_active_by_scope (recordWriteError e s) = s_active_by_scope s"
  "s_group_slots (recordWriteError e s) = s_group_slots s" "s_group_active (recordWriteError e s) = s_group_active s"
  "s_cfg (recordWriteError e s) = s_cfg s"
  by (simp_all add: recordWriteSuccess_def recordWriteError_def Let_def)

lemma publish_edit_other [simp]:
  "s_state (publish_edit st ch s) = st" "s_repo (publish_edit st ch s) = s_repo s"
  "s_dirty (publish_edit st ch s) = s_dirty s" "s_active_requests (publish_edit st ch s) = s_active_requests s"
  "s_active_by_scope (publish_edit st ch s) = s_active_by_scope s"
  "s_group_slots (publish_edit st ch s) = s_group_slots s" "s_group_active (publish_edit st ch s) = s_group_active s"
  "s_cfg (publish_edit st ch s) = s_cfg s"
  by (simp_all add: publish_edit_def)

section \<open>Memory and database in step\<close>

definition store_synced :: "Store \<Rightarrow> bool" where
  "store_synced s \<longleftrightarrow> state_wf (s_state s) \<and>
     (case s_repo s of
        None \<Rightarrow> s_dirty s = no_changes
      | Some d \<Rightarrow> in_sync covers in_memory on_disk (s_dirty s) (s_state s) d)"

lemma synced_cong:
  "s_state s' = s_state s \<Longrightarrow> s_repo s' = s_repo s \<Longrightarrow> s_dirty s' = s_dirty s \<Longrightarrow> store_synced s' = store_synced s"
  by (cases "s_repo s") (simp_all add: store_synced_def)

text \<open>A step of the state the store may take: its changes are honest and it keeps the maps well formed.\<close>

definition sound_step :: "State \<Rightarrow> State \<Rightarrow> Changes \<Rightarrow> bool" where
  "sound_step st st' ch \<longleftrightarrow> honest covers in_memory st st' ch \<and> (state_wf st \<longrightarrow> state_wf st')"

lemma no_changes_empty [simp]: "changes_empty no_changes"
  by (simp add: changes_empty_def no_changes_def IsZero_def)

lemma merge_empty_left [simp]: "covers (changes_merge no_changes c) p = covers c p"
  using covers_empty [OF no_changes_empty] by (simp add: covers_merge)

lemma synced_pending:
  assumes "in_sync covers in_memory on_disk dirty st d" "sound_step st st' cur"
  shows "in_sync covers in_memory on_disk (changes_merge dirty cur) st' d"
  by (rule db.sync_pending [OF assms(1)]) (use assms(2) in \<open>auto simp: sound_step_def covers_merge\<close>)

lemma synced_empty:
  "in_sync covers in_memory on_disk ch st d \<Longrightarrow> changes_empty ch \<Longrightarrow> in_sync covers in_memory on_disk ch' st d"
  using covers_empty by (auto simp: in_sync_def)

lemma updateResult_cases:
  assumes "updateResult E fn s = (v, s')" "fn (s_state s) = (w, cur, st)"
  shows "v = w \<and> s_state s' = st \<and> s_active_requests s' = s_active_requests s \<and>
     s_active_by_scope s' = s_active_by_scope s \<and> s_group_slots s' = s_group_slots s \<and>
     s_group_active s' = s_group_active s \<and> s_cfg s' = s_cfg s \<and> s_blocked s' = s_blocked s"
  using assms by (auto simp: updateResult_def Let_def split: option.splits sum.splits if_splits)

lemma updateResult_keeps_sync:
  assumes "store_synced s" "fn (s_state s) = (v, cur, st)" "sound_step (s_state s) st cur"
  shows "store_synced (snd (updateResult E fn s))"
proof (cases "s_repo s")
  case None
  then show ?thesis
    using assms by (simp add: updateResult_def store_synced_def sound_step_def Let_def)
next
  case (Some d)
  have wf: "state_wf st" using assms by (simp add: store_synced_def sound_step_def)
  define ch where "ch = changes_merge (s_dirty s) cur"
  have p: "in_sync covers in_memory on_disk ch st d"
    unfolding ch_def by (rule synced_pending) (use assms Some in \<open>auto simp: store_synced_def\<close>)
  show ?thesis
  proof (cases "changes_empty ch")
    case True
    then have "snd (updateResult E fn s) = s\<lparr>s_state := st\<rparr>"
      using assms(2) Some by (simp add: updateResult_def Let_def ch_def)
    then show ?thesis using synced_empty [OF p True] wf Some by (simp add: store_synced_def)
  next
    case False
    show ?thesis
    proof (cases "Save (env_refuses E) st ch d")
      case (Inl e)
      then have "snd (updateResult E fn s) = recordWriteError e (s\<lparr>s_state := st, s_dirty := ch\<rparr>)"
        using assms(2) Some False by (simp add: updateResult_def Let_def ch_def)
      then show ?thesis using p wf Some by (simp add: store_synced_def)
    next
      case (Inr d')
      then have "snd (updateResult E fn s) = recordWriteSuccess (s\<lparr>s_state := st, s_repo := Some d', s_dirty := no_changes\<rparr>)"
        using assms(2) Some False by (simp add: updateResult_def Let_def ch_def)
      then show ?thesis using db.sync_clean [OF p wf Inr] wf by (simp add: store_synced_def)
    qed
  qed
qed

lemma edit_fails:
  "fn (s_state s) = Inl e \<Longrightarrow> editConfiguration E fn s = (Inl e, s)"
  by (simp add: editConfiguration_def)

lemma editConfiguration_cases:
  assumes "fn (s_state s) = Inr (v, cur, st)"
  defines "ch \<equiv> changes_merge (s_dirty s) cur"
  obtains (published) "(s_repo s = None \<or> changes_empty ch)" "editConfiguration E fn s = (Inr v, publish_edit st ch s)"
  | (refused) d e where "s_repo s = Some d" "Save (env_refuses E) st ch d = Inl e"
      "editConfiguration E fn s = (Inl (wrap_error ''saving configuration failed: '' e), recordWriteError e s)"
  | (saved) d d' where "s_repo s = Some d" "\<not> changes_empty ch" "Save (env_refuses E) st ch d = Inr d'"
      "editConfiguration E fn s =
         (Inr v, recordWriteSuccess (publish_edit st ch (s\<lparr>s_repo := Some d', s_dirty := no_changes\<rparr>)))"
  using assms(1) that
  by (cases "s_repo s"; cases "changes_empty ch"; cases "Save (env_refuses E) st ch (the (s_repo s))")
    (simp_all add: editConfiguration_def ch_def [symmetric] Let_def)

lemma edit_Inr:
  assumes "editConfiguration E fn s = (Inr v, s')"
  shows "\<exists>cur. fn (s_state s) = Inr (v, cur, s_state s')"
proof (cases "fn (s_state s)")
  case (Inl e)
  then show ?thesis using assms by (simp add: editConfiguration_def)
next
  case (Inr a)
  obtain w cur st where a: "a = (w, cur, st)" by (cases a)
  note f = Inr [unfolded a]
  show ?thesis
    by (rule editConfiguration_cases [of fn s w cur st E, OF f]) (use assms f in auto)
qed

lemma edit_Inl:
  assumes "editConfiguration E fn s = (Inl e, s')"
  shows "s_state s' = s_state s \<and> s_repo s' = s_repo s \<and> s_dirty s' = s_dirty s \<and> s_blocked s' = s_blocked s"
proof (cases "fn (s_state s)")
  case (Inl e)
  then show ?thesis using assms by (simp add: editConfiguration_def)
next
  case (Inr a)
  obtain w cur st where a: "a = (w, cur, st)" by (cases a)
  show ?thesis
    by (rule editConfiguration_cases [of fn s w cur st E, OF Inr [unfolded a]]) (use assms in auto)
qed

lemma edit_slots:
  assumes "editConfiguration E fn s = (r, s')"
  shows "s_active_requests s' = s_active_requests s \<and> s_active_by_scope s' = s_active_by_scope s \<and>
    s_group_slots s' = s_group_slots s \<and> s_group_active s' = s_group_active s \<and> s_cfg s' = s_cfg s"
proof (cases "fn (s_state s)")
  case (Inl e)
  then show ?thesis using assms by (simp add: editConfiguration_def)
next
  case (Inr a)
  obtain w cur st where a: "a = (w, cur, st)" by (cases a)
  show ?thesis
    by (rule editConfiguration_cases [of fn s w cur st E, OF Inr [unfolded a]]) (use assms in auto)
qed

lemma editConfiguration_keeps_sync:
  assumes "store_synced s" "\<And>v cur st. fn (s_state s) = Inr (v, cur, st) \<Longrightarrow> sound_step (s_state s) st cur"
  shows "store_synced (snd (editConfiguration E fn s))"
proof (cases "fn (s_state s)")
  case (Inl e)
  then show ?thesis using assms(1) by (simp add: edit_fails)
next
  case (Inr a)
  obtain v cur st where a: "a = (v, cur, st)" by (cases a)
  note f = Inr [unfolded a]
  have step: "sound_step (s_state s) st cur" by (rule assms(2) [OF f])
  have wf: "state_wf st" using assms(1) step by (simp add: store_synced_def sound_step_def)
  define ch where "ch = changes_merge (s_dirty s) cur"
  have p: "in_sync covers in_memory on_disk ch st d" if "s_repo s = Some d" for d
    unfolding ch_def by (rule synced_pending [OF _ step]) (use assms that in \<open>auto simp: store_synced_def\<close>)
  show ?thesis
  proof (cases rule: editConfiguration_cases [of fn s v cur st E, OF f])
    case 1
    then show ?thesis
      using p synced_empty wf assms(1) by (auto simp: store_synced_def ch_def split: option.splits)
  next
    case (2 d e)
    then show ?thesis using assms(1) by (simp add: store_synced_def)
  next
    case (3 d d')
    then show ?thesis
      using db.sync_clean [OF p [OF 3(1)] wf 3(3) [folded ch_def]] wf by (simp add: store_synced_def)
  qed
qed

section \<open>Sound steps\<close>

lemma honestI:
  assumes "\<And>k. \<not> covers_key ch k \<Longrightarrow> lookup_key st' k = lookup_key st k"
    "\<And>k. lookup_key st k \<noteq> None \<Longrightarrow> lookup_key st' k \<noteq> None"
    "ch_plans ch \<or> st_plans st' = st_plans st" "ch_routes ch \<or> st_routes st' = st_routes st"
    "ch_credentials ch \<or> st_credentials st' = st_credentials st"
    "ch_grouped_config ch \<or> gs_groups (st_grouped st') = gs_groups (st_grouped st)"
    "ch_grouped_config ch \<or> gs_plans (st_grouped st') = gs_plans (st_grouped st)"
    "ch_grouped_config ch \<or> gs_bindings (st_grouped st') = gs_bindings (st_grouped st)"
    "\<And>i. map_of (gs_groups (st_grouped st)) i \<noteq> None \<Longrightarrow> map_of (gs_groups (st_grouped st')) i \<noteq> None"
    "\<And>i. map_of (gs_plans (st_grouped st)) i \<noteq> None \<Longrightarrow> map_of (gs_plans (st_grouped st')) i \<noteq> None"
    "\<And>i. map_of (gs_bindings (st_grouped st)) i \<noteq> None \<Longrightarrow> map_of (gs_bindings (st_grouped st')) i \<noteq> None"
    "\<And>k. k \<notin> set (ch_group_days ch) \<Longrightarrow> map_of (gs_days (st_grouped st')) k = map_of (gs_days (st_grouped st)) k"
    "\<And>k. map_of (gs_days (st_grouped st)) k \<noteq> None \<Longrightarrow> map_of (gs_days (st_grouped st')) k \<noteq> None"
    "ch_group_labels ch \<or> gs_labels (st_grouped st') = gs_labels (st_grouped st)"
  shows "honest covers in_memory st st' ch"
proof -
  have "(\<not> covers ch p \<longrightarrow> in_memory st' p = in_memory st p) \<and> (in_memory st' p = None \<longrightarrow> in_memory st p = None)" for p
  proof (cases p)
    case (P_Key k)
    then show ?thesis using assms(1,2) [of k] by (auto simp del: not_None_eq)
  next
    case (P_Group i)
    then show ?thesis using assms(6) assms(9) [of i] by (auto simp del: not_None_eq)
  next
    case (P_GroupPlan i)
    then show ?thesis using assms(7) assms(10) [of i] by (auto simp del: not_None_eq)
  next
    case (P_Binding i)
    then show ?thesis using assms(8) assms(11) [of i] by (auto simp del: not_None_eq)
  next
    case (P_Day k)
    then show ?thesis using assms(12,13) [of k] by (auto simp del: not_None_eq)
  qed (use assms(3-5,14) in auto)
  then show ?thesis by (simp add: honest_def)
qed

lemma sound_step_refl [simp]: "sound_step st st ch"
  by (simp add: sound_step_def honest_def)

text \<open>Steps that leave the grouped state alone, and steps that leave everything else alone.\<close>

lemma sound_step_flat:
  assumes "st_grouped st' = st_grouped st" "wf_map (st_keys st) \<Longrightarrow> wf_map (st_keys st')"
    "\<And>k. \<not> covers_key ch k \<Longrightarrow> lookup_key st' k = lookup_key st k"
    "\<And>k. lookup_key st k \<noteq> None \<Longrightarrow> lookup_key st' k \<noteq> None"
    "ch_plans ch \<or> st_plans st' = st_plans st" "ch_routes ch \<or> st_routes st' = st_routes st"
    "ch_credentials ch \<or> st_credentials st' = st_credentials st"
  shows "sound_step st st' ch"
  unfolding sound_step_def by (intro conjI honestI) (use assms in \<open>auto simp: state_wf_def\<close>)

lemma sound_step_key:
  "covers_key ch scope \<Longrightarrow> sound_step st (put_key scope key st) ch"
  by (rule sound_step_flat) auto

lemma sound_step_grouped:
  assumes "st' = st\<lparr>st_grouped := g\<rparr>" "grouped_wf (st_grouped st) \<Longrightarrow> grouped_wf g"
    "ch_grouped_config ch \<or> (gs_groups g = gs_groups (st_grouped st) \<and> gs_plans g = gs_plans (st_grouped st) \<and>
       gs_bindings g = gs_bindings (st_grouped st))"
    "\<And>i. map_of (gs_groups (st_grouped st)) i \<noteq> None \<Longrightarrow> map_of (gs_groups g) i \<noteq> None"
    "\<And>i. map_of (gs_plans (st_grouped st)) i \<noteq> None \<Longrightarrow> map_of (gs_plans g) i \<noteq> None"
    "\<And>i. map_of (gs_bindings (st_grouped st)) i \<noteq> None \<Longrightarrow> map_of (gs_bindings g) i \<noteq> None"
    "\<And>k. k \<notin> set (ch_group_days ch) \<Longrightarrow> map_of (gs_days g) k = map_of (gs_days (st_grouped st)) k"
    "\<And>k. map_of (gs_days (st_grouped st)) k \<noteq> None \<Longrightarrow> map_of (gs_days g) k \<noteq> None"
    "ch_group_labels ch \<or> gs_labels g = gs_labels (st_grouped st)"
  shows "sound_step st st' ch"
  unfolding sound_step_def by (intro conjI honestI) (use assms in \<open>auto simp: state_wf_def lookup_key_def\<close>)

text \<open>Two steps in a row, the second with more changes.\<close>

lemma sound_step_trans:
  assumes "sound_step st st1 ch" "sound_step st1 st2 ch"
  shows "sound_step st st2 ch"
  using assms by (auto simp: sound_step_def honest_def)

lemma sound_step_mono:
  assumes "sound_step st st' ch" "\<And>p. covers ch p \<Longrightarrow> covers ch' p"
  shows "sound_step st st' ch'"
  using assms by (auto simp: sound_step_def honest_def)

section \<open>Properties\<close>



text \<open>A store on the database of \<open>small_disk\<close>.\<close>

definition small_store :: Store where
  "small_store = new_store\<lparr>s_state := small_state, s_repo := Some small_disk, s_path := ''/db''\<rparr>"

definition calm :: env where
  "calm = \<lparr>env_clock = (\<lambda>n. time_of_unix 1700000000 + int n), env_refuses = (\<lambda>st ch d. None)\<rparr>"

lemma small_store_synced: "store_synced small_store"
  using small_synced by (simp add: store_synced_def small_store_def in_sync_def state_wf_def small_state_def NewState_def
      wf_map_def grouped_wf_def NewGroupState_def)



end
