(* ===== verification/Concurrency.thy ===== *)
theory Concurrency
  imports Store
begin

text \<open>
  Concurrency slots: \<^verbatim>\<open>internal/billing/concurrency.go\<close> and the release half of the group slots in
  \<^verbatim>\<open>group_account.go\<close>. The two tables, slots of keys and slots of groups, have one contract, the
  locale \<open>slot_table\<close>: a counter per owner that equals the number of slots the owner holds. It is interpreted
  for both tables of the store.
\<close>

definition MaxConcurrencyLimit :: int where
  "MaxConcurrencyLimit = 10000"

record SlotDecision =
  sd_allowed :: bool
  sd_acquired :: bool
  sd_limit :: int
  sd_active :: int

text \<open>Reading a counter that is absent gives zero.\<close>

definition active_of :: "int smap \<Rightarrow> string \<Rightarrow> int" where
  "active_of m k = (case map_of m k of None \<Rightarrow> 0 | Some n \<Rightarrow> n)"

definition groupSlotKey :: "string \<Rightarrow> string \<Rightarrow> string" where
  "groupSlotKey scope gid = scope @ [nul] @ gid"

definition slot_key :: "groupSlot \<Rightarrow> string" where
  "slot_key o' = groupSlotKey (slot_scope o') (slot_group o')"

section \<open>Operations\<close>

definition take_key_slot :: "string \<Rightarrow> string \<Rightarrow> Store \<Rightarrow> Store" where
  "take_key_slot rid scope s =
     s\<lparr>s_active_requests := AList.update rid scope (s_active_requests s),
       s_active_by_scope := AList.update scope (active_of (s_active_by_scope s) scope + 1) (s_active_by_scope s)\<rparr>"

definition AcquireSlot :: "string \<Rightarrow> string \<Rightarrow> Store \<Rightarrow> SlotDecision \<times> Store" where
  "AcquireSlot scope0 rid0 s =
     (let decision = \<lparr>sd_allowed = True, sd_acquired = False, sd_limit = 0, sd_active = 0\<rparr>;
          scope = TrimSpace scope0; rid = TrimSpace rid0
      in if scope = [] then (decision, s)
         else if has_key (s_group_slots s) rid then (decision\<lparr>sd_allowed := False\<rparr>, s)
         else
           let limit = (case lookup_key (s_state s) scope of None \<Rightarrow> 0 | Some key \<Rightarrow> ks_limit key);
               active = active_of (s_active_by_scope s) scope;
               decision = decision\<lparr>sd_limit := limit, sd_active := active\<rparr>
           in if rid = [] then (decision\<lparr>sd_allowed := (limit \<le> 0)\<rparr>, s)
              else case map_of (s_active_requests s) rid of
                Some existingScope \<Rightarrow> (decision\<lparr>sd_allowed := (existingScope = scope), sd_acquired := False\<rparr>, s)
              | None \<Rightarrow>
                  if limit > 0 \<and> active \<ge> limit then (decision\<lparr>sd_allowed := False\<rparr>, s)
                  else (decision\<lparr>sd_active := active + 1, sd_acquired := True\<rparr>, take_key_slot rid scope s))"

text \<open>Giving back one slot of an owner: the counter goes down, and a counter that would reach zero is removed.\<close>

definition release_counter :: "int smap \<Rightarrow> string \<Rightarrow> int smap" where
  "release_counter m k = (if active_of m k > 1 then AList.update k (active_of m k - 1) m else AList.delete k m)"

definition drop_key_slot :: "string \<Rightarrow> string \<Rightarrow> Store \<Rightarrow> Store" where
  "drop_key_slot rid scope s =
     s\<lparr>s_active_requests := AList.delete rid (s_active_requests s),
       s_active_by_scope := release_counter (s_active_by_scope s) scope\<rparr>"

definition take_group_slot :: "string \<Rightarrow> groupSlot \<Rightarrow> Store \<Rightarrow> Store" where
  "take_group_slot rid slot s =
     s\<lparr>s_group_slots := AList.update rid slot (s_group_slots s),
       s_group_active := AList.update (slot_key slot) (active_of (s_group_active s) (slot_key slot) + 1) (s_group_active s)\<rparr>"

definition drop_group_slot :: "string \<Rightarrow> groupSlot \<Rightarrow> Store \<Rightarrow> Store" where
  "drop_group_slot rid slot s =
     s\<lparr>s_group_slots := AList.delete rid (s_group_slots s),
       s_group_active := (let k = slot_key slot; m = s_group_active s
          in if active_of m k \<le> 1 then AList.delete k m else AList.update k (active_of m k - 1) m)\<rparr>"

definition releaseGroupSlotLocked :: "string \<Rightarrow> Store \<Rightarrow> bool \<times> Store" where
  "releaseGroupSlotLocked rid s =
     (case map_of (s_group_slots s) rid of
        None \<Rightarrow> (False, s)
      | Some slot \<Rightarrow> (True, drop_group_slot rid slot s))"

definition ReleaseSlot :: "string \<Rightarrow> Store \<Rightarrow> bool \<times> Store" where
  "ReleaseSlot rid0 s =
     (let rid = TrimSpace rid0
      in if rid = [] then (False, s)
         else case map_of (s_active_requests s) rid of
           None \<Rightarrow> releaseGroupSlotLocked rid s
         | Some scope \<Rightarrow> (True, drop_key_slot rid scope s))"

definition limit_key :: "string \<Rightarrow> int \<Rightarrow> State \<Rightarrow> error + unit \<times> Changes \<times> State" where
  "limit_key scope limit st =
     (case liveKey st scope of
        None \<Rightarrow> Inl (notFoundf ''API key does not exist'')
      | Some key \<Rightarrow>
          if ks_limit key = limit then Inr ((), no_changes, st)
          else Inr ((), no_changes\<lparr>ch_keys := [scope]\<rparr>, put_key scope (key\<lparr>ks_limit := limit\<rparr>) st))"

definition SetConcurrencyLimit :: "env \<Rightarrow> string \<Rightarrow> int \<Rightarrow> Store \<Rightarrow> (error + unit) \<times> Store" where
  "SetConcurrencyLimit E scope0 limit s =
     (let scope = normalizeScope scope0
      in if scope = [] then (Inl (invalidf ''scope must not be empty''), s)
         else if limit < 0 \<or> limit > MaxConcurrencyLimit then (Inl (invalidf ''limit must be an integer from 0 to 10000''), s)
         else editConfiguration E (limit_key scope limit) s)"

section \<open>The contract of a slot table\<close>

definition slot_count :: "('o \<Rightarrow> string) \<Rightarrow> 'o smap \<Rightarrow> string \<Rightarrow> int" where
  "slot_count key slots k = int (length (filter (\<lambda>(r, o'). key o' = k) slots))"

definition counted :: "('o \<Rightarrow> string) \<Rightarrow> 'o smap \<Rightarrow> int smap \<Rightarrow> bool" where
  "counted key slots active \<longleftrightarrow>
     wf_map slots \<and> wf_map active \<and> (\<forall>k. active_of active k = slot_count key slots k) \<and>
     (\<forall>k n. map_of active k = Some n \<longrightarrow> 0 < n)"

lemma slot_count_nonneg [simp]: "0 \<le> slot_count key slots k"
  by (simp add: slot_count_def)

locale slot_table =
  fixes slots :: "'s \<Rightarrow> 'o smap" and active :: "'s \<Rightarrow> int smap" and key :: "'o \<Rightarrow> string"
    and take_slot :: "string \<Rightarrow> 'o \<Rightarrow> 's \<Rightarrow> 's" and drop_slot :: "string \<Rightarrow> 'o \<Rightarrow> 's \<Rightarrow> 's"
  assumes slots_take: "slots (take_slot r o' s) = AList.update r o' (slots s)"
    and slots_drop: "slots (drop_slot r o' s) = AList.delete r (slots s)"
    and active_take: "wf_map (active s) \<Longrightarrow> wf_map (active (take_slot r o' s)) \<and>
      map_of (active (take_slot r o' s)) = (map_of (active s))(key o' \<mapsto> active_of (active s) (key o') + 1)"
    and active_drop: "wf_map (active s) \<Longrightarrow> wf_map (active (drop_slot r o' s)) \<and>
      map_of (active (drop_slot r o' s)) = (map_of (active s))(key o' :=
        if active_of (active s) (key o') > 1 then Some (active_of (active s) (key o') - 1) else None)"
begin

lemma count_update:
  assumes "map_of m r = None"
  shows "slot_count key (AList.update r o' m) k = slot_count key m k + (if key o' = k then 1 else 0)"
  using assms
proof (induction m)
  case (Cons a m)
  then show ?case by (cases a) (auto simp: slot_count_def split: if_splits)
qed (simp add: slot_count_def)

lemma count_delete:
  assumes "wf_map m" "map_of m r = Some o'"
  shows "slot_count key (AList.delete r m) k = slot_count key m k - (if key o' = k then 1 else 0)"
  using assms
proof (induction m)
  case Nil
  then show ?case by simp
next
  case (Cons a m)
  obtain r' b where a: "a = (r', b)" by (cases a)
  show ?case
  proof (cases "r' = r")
    case True
    then have "r \<notin> set (mkeys m)" using Cons.prems(1) by (simp add: wf_map_def a)
    then have "AList.delete r m = m" by (simp add: delete_id)
    then show ?thesis using True Cons.prems(2) by (simp add: a slot_count_def)
  next
    case False
    then have "slot_count key (AList.delete r m) k = slot_count key m k - (if key o' = k then 1 else 0)"
      using Cons by (simp add: a wf_map_def)
    then show ?thesis using False by (auto simp: a slot_count_def split: if_splits)
  qed
qed

lemma counted_take:
  assumes "counted key (slots s) (active s)" "map_of (slots s) r = None"
  shows "counted key (slots (take_slot r o' s)) (active (take_slot r o' s))"
proof -
  have w: "wf_map (active s)" using assms by (simp add: counted_def)
  note a = active_take [OF w, of r o']
  have nn: "0 \<le> active_of (active s) k" for k using assms(1) by (simp add: counted_def slot_count_def)
  have "active_of (active (take_slot r o' s)) k = slot_count key (slots (take_slot r o' s)) k" for k
    using assms a by (simp add: counted_def slots_take count_update active_of_def)
  moreover have "0 < n" if "map_of (active (take_slot r o' s)) k = Some n" for k n
    using that assms(1) a nn [of "key o'"] by (auto simp: counted_def split: if_splits)
  ultimately show ?thesis using assms a by (simp add: counted_def slots_take)
qed

lemma counted_drop:
  assumes "counted key (slots s) (active s)" "map_of (slots s) r = Some o'"
  shows "counted key (slots (drop_slot r o' s)) (active (drop_slot r o' s))"
proof -
  have w: "wf_map (active s)" "wf_map (slots s)" using assms by (simp_all add: counted_def)
  note a = active_drop [OF w(1), of r o']
  have "(r, o') \<in> set (filter (\<lambda>(r, b). key b = key o') (slots s))" using assms(2) by (auto dest: map_of_SomeD)
  then have "0 < slot_count key (slots s) (key o')" unfolding slot_count_def using length_pos_if_in_set by fastforce
  then have pos: "1 \<le> active_of (active s) (key o')" using assms(1) by (simp add: counted_def)
  have "active_of (active (drop_slot r o' s)) k = slot_count key (slots (drop_slot r o' s)) k" for k
    using assms a pos count_delete [OF w(2) assms(2), of k]
    by (auto simp: counted_def slots_drop active_of_def)
  moreover have "0 < n" if "map_of (active (drop_slot r o' s)) k = Some n" for k n
    using that assms(1) a by (auto simp: counted_def split: if_splits)
  ultimately show ?thesis using a w by (simp add: counted_def slots_drop)
qed

end

interpretation key_slots: slot_table s_active_requests s_active_by_scope "\<lambda>scope. scope" take_key_slot drop_key_slot
  by unfold_locales (auto simp: take_key_slot_def drop_key_slot_def release_counter_def)

interpretation group_slots: slot_table s_group_slots s_group_active slot_key take_group_slot drop_group_slot
  by unfold_locales (auto simp: take_group_slot_def drop_group_slot_def Let_def)

section \<open>Slots of the store\<close>

text \<open>Both tables count their slots, and no request identifier is in both.\<close>

definition slots_ok :: "Store \<Rightarrow> bool" where
  "slots_ok s \<longleftrightarrow>
     counted (\<lambda>scope. scope) (s_active_requests s) (s_active_by_scope s) \<and>
     counted slot_key (s_group_slots s) (s_group_active s) \<and>
     (\<forall>r. map_of (s_active_requests s) r = None \<or> map_of (s_group_slots s) r = None)"

lemma counted_Nil [simp]: "counted key [] []"
  by (simp add: counted_def active_of_def slot_count_def)

lemma slots_cong:
  "s_active_requests s' = s_active_requests s \<Longrightarrow> s_active_by_scope s' = s_active_by_scope s \<Longrightarrow>
   s_group_slots s' = s_group_slots s \<Longrightarrow> s_group_active s' = s_group_active s \<Longrightarrow> slots_ok s \<Longrightarrow> slots_ok s'"
  by (simp add: slots_ok_def)

lemma take_key_slot_other [simp]:
  "s_group_slots (take_key_slot r o' s) = s_group_slots s" "s_group_active (take_key_slot r o' s) = s_group_active s"
  "s_state (take_key_slot r o' s) = s_state s" "s_dirty (take_key_slot r o' s) = s_dirty s"
  "s_repo (take_key_slot r o' s) = s_repo s"
  "s_active_requests (take_key_slot r o' s) = AList.update r o' (s_active_requests s)"
  by (simp_all add: take_key_slot_def)

lemma drop_key_slot_other [simp]:
  "s_group_slots (drop_key_slot r o' s) = s_group_slots s" "s_group_active (drop_key_slot r o' s) = s_group_active s"
  "s_state (drop_key_slot r o' s) = s_state s" "s_dirty (drop_key_slot r o' s) = s_dirty s"
  "s_repo (drop_key_slot r o' s) = s_repo s"
  "s_active_requests (drop_key_slot r o' s) = AList.delete r (s_active_requests s)"
  by (simp_all add: drop_key_slot_def)

lemma take_group_slot_other [simp]:
  "s_active_requests (take_group_slot r o' s) = s_active_requests s"
  "s_active_by_scope (take_group_slot r o' s) = s_active_by_scope s"
  "s_state (take_group_slot r o' s) = s_state s" "s_dirty (take_group_slot r o' s) = s_dirty s"
  "s_repo (take_group_slot r o' s) = s_repo s"
  "s_group_slots (take_group_slot r o' s) = AList.update r o' (s_group_slots s)"
  by (simp_all add: take_group_slot_def)

lemma drop_group_slot_other [simp]:
  "s_active_requests (drop_group_slot r o' s) = s_active_requests s"
  "s_active_by_scope (drop_group_slot r o' s) = s_active_by_scope s"
  "s_state (drop_group_slot r o' s) = s_state s" "s_dirty (drop_group_slot r o' s) = s_dirty s"
  "s_repo (drop_group_slot r o' s) = s_repo s"
  "s_group_slots (drop_group_slot r o' s) = AList.delete r (s_group_slots s)"
  by (simp_all add: drop_group_slot_def Let_def)

lemma slots_take_key:
  assumes "slots_ok s" "map_of (s_active_requests s) r = None" "map_of (s_group_slots s) r = None"
  shows "slots_ok (take_key_slot r o' s)"
  using assms key_slots.counted_take [of s r o'] by (auto simp: slots_ok_def)

lemma slots_drop_key:
  assumes "slots_ok s" "map_of (s_active_requests s) r = Some o'"
  shows "slots_ok (drop_key_slot r o' s)"
  using assms key_slots.counted_drop [of s r o'] by (auto simp: slots_ok_def)

lemma slots_take_group:
  assumes "slots_ok s" "map_of (s_active_requests s) r = None" "map_of (s_group_slots s) r = None"
  shows "slots_ok (take_group_slot r o' s)"
  using assms group_slots.counted_take [of s r o'] by (auto simp: slots_ok_def)

lemma slots_drop_group:
  assumes "slots_ok s" "map_of (s_group_slots s) r = Some o'"
  shows "slots_ok (drop_group_slot r o' s)"
  using assms group_slots.counted_drop [of s r o'] by (auto simp: slots_ok_def)

lemma AcquireSlot_cases:
  assumes "AcquireSlot scope rid s = (d, s')"
  obtains (unchanged) "s' = s" "\<not> sd_acquired d"
  | (acquired) "s' = take_key_slot (TrimSpace rid) (TrimSpace scope) s" "sd_acquired d" "sd_allowed d"
      "TrimSpace scope \<noteq> []" "TrimSpace rid \<noteq> []"
      "map_of (s_active_requests s) (TrimSpace rid) = None" "map_of (s_group_slots s) (TrimSpace rid) = None"
      "sd_limit d = (case lookup_key (s_state s) (TrimSpace scope) of None \<Rightarrow> 0 | Some key \<Rightarrow> ks_limit key)"
      "sd_active d = active_of (s_active_by_scope s) (TrimSpace scope) + 1"
      "sd_limit d > 0 \<Longrightarrow> sd_active d \<le> sd_limit d"
  using assms that by (auto simp: AcquireSlot_def Let_def has_key_def split: if_splits option.splits)

lemma limit_key_sound: "limit_key scope limit st = Inr (v, ch, st') \<Longrightarrow> sound_step st st' ch"
  by (auto simp: limit_key_def covers_key_def intro!: sound_step_key split: option.splits if_splits)

lemma SetConcurrencyLimit_sound:
  assumes "store_synced s"
  shows "store_synced (snd (SetConcurrencyLimit E scope limit s))"
  unfolding SetConcurrencyLimit_def Let_def
  using assms limit_key_sound by (auto intro!: editConfiguration_keeps_sync)


lemma ReleaseSlot_cases:
  assumes "ReleaseSlot rid s = (b, s')"
  obtains (unknown) "s' = s" "\<not> b" "TrimSpace rid = [] \<or>
      (map_of (s_active_requests s) (TrimSpace rid) = None \<and> map_of (s_group_slots s) (TrimSpace rid) = None)"
  | (key) scope where "b" "map_of (s_active_requests s) (TrimSpace rid) = Some scope" "TrimSpace rid \<noteq> []"
      "s' = drop_key_slot (TrimSpace rid) scope s"
  | (group) slot where "b" "map_of (s_active_requests s) (TrimSpace rid) = None" "TrimSpace rid \<noteq> []"
      "map_of (s_group_slots s) (TrimSpace rid) = Some slot" "s' = drop_group_slot (TrimSpace rid) slot s"
  using assms that by (auto simp: ReleaseSlot_def releaseGroupSlotLocked_def Let_def split: if_splits option.splits)

text \<open>A completion gives back exactly the slot its request holds, in whichever table, keeps both tables
  consistent, and a second completion of the same request finds nothing and changes nothing.\<close>

theorem ReleaseSlot_ok:
  assumes "slots_ok s" "ReleaseSlot rid s = (b, s')"
  shows "slots_ok s' \<and>
    (b \<longleftrightarrow> TrimSpace rid \<noteq> [] \<and> (has_key (s_active_requests s) (TrimSpace rid) \<or> has_key (s_group_slots s) (TrimSpace rid))) \<and>
    (\<forall>r. r \<noteq> TrimSpace rid \<longrightarrow> map_of (s_active_requests s') r = map_of (s_active_requests s) r \<and>
       map_of (s_group_slots s') r = map_of (s_group_slots s) r) \<and>
    ReleaseSlot rid s' = (False, s')"
  using assms(2)
proof (cases rule: ReleaseSlot_cases)
  case unknown
  then show ?thesis using assms by (auto simp: has_key_def)
next
  case (key scope)
  then have "map_of (s_group_slots s) (TrimSpace rid) = None" using assms(1) by (metis option.distinct(1) slots_ok_def)
  then show ?thesis
    using key slots_drop_key [OF assms(1) key(2)]
    by (auto simp: has_key_def ReleaseSlot_def releaseGroupSlotLocked_def Let_def)
next
  case (group slot)
  then show ?thesis
    using slots_drop_group [OF assms(1) group(4)]
    by (auto simp: has_key_def ReleaseSlot_def releaseGroupSlotLocked_def Let_def)
qed

lemma small_slots: "slots_ok small_store"
  by (simp add: slots_ok_def small_store_def new_store_def)

lemma small_acquire: "AcquireSlot ''ab'' ''r'' small_store =
    (\<lparr>sd_allowed = True, sd_acquired = True, sd_limit = 0, sd_active = 1\<rparr>, take_key_slot ''r'' ''ab'' small_store)"
  by (simp add: AcquireSlot_def Let_def has_key_def small_store_def new_store_def small_state_def lookup_key_def
      bound_key_def new_key_def active_of_def)


lemma small_release: "ReleaseSlot ''r'' (take_key_slot ''r'' ''ab'' small_store) =
    (True, drop_key_slot ''r'' ''ab'' (take_key_slot ''r'' ''ab'' small_store))"
  by (simp add: ReleaseSlot_def Let_def)

theorem ReleaseSlot_ok_witness:
  "ReleaseSlot ''r'' (drop_key_slot ''r'' ''ab'' (take_key_slot ''r'' ''ab'' small_store)) =
     (False, drop_key_slot ''r'' ''ab'' (take_key_slot ''r'' ''ab'' small_store))"
proof -
  have "slots_ok (take_key_slot ''r'' ''ab'' small_store)"
    by (rule slots_take_key [OF small_slots]) (simp_all add: small_store_def new_store_def)
  from ReleaseSlot_ok [OF this small_release] show ?thesis by blast
qed

end
