(* ===== verification/GroupConfig.thy ===== *)
theory GroupConfig
  imports Concurrency
begin

text \<open>
  Management of resource groups, group plans, key bindings, day resets and shared labels:
  \<^verbatim>\<open>internal/billing/group_config.go\<close>. \<open>env_clock E i\<close> is the i-th reading of the clock inside an operation.
  The search for a free identifier cannot fail to return while the maps are finite; its missing result is an error
  branch that \<open>freeID_returns\<close> rules out. A nil dereference, which the host recovers from, is an error as well.
\<close>

section \<open>Helpers\<close>

record GroupPatch =
  gpt_group :: string
  gpt_revision :: int
  gpt_name :: "string option"
  gpt_description :: "string option"
  gpt_enabled :: "bool option"
  gpt_models :: "string list option"
  gpt_pool :: "GroupPool option"
  gpt_reason :: string

definition normalizeGroup :: "ResourceGroup \<Rightarrow> error + ResourceGroup" where
  "normalizeGroup grp0 =
     (let grp = grp0\<lparr>rg_name := TrimSpace (rg_name grp0)\<rparr>
      in if \<not> validGroupText (rg_name grp) 80 False \<or> \<not> validGroupText (rg_description grp) 1000 True
         then Inl (invalidf ''invalid group name or description'')
         else try_bind (normalizeRouteStrings (rg_models grp)) (\<lambda>models.
           if length models = 0 \<or> length models \<noteq> length (rg_models grp)
           then Inl (invalidf ''at least one model, without repetition'')
           else try_bind (pool_normalize (rg_pool grp)) (\<lambda>pool.
             Inr (grp\<lparr>rg_models := models, rg_pool := pool\<rparr>))))"

definition ValidateResourceGroup :: "ResourceGroup \<Rightarrow> error option" where
  "ValidateResourceGroup g = (case normalizeGroup g of Inl e \<Rightarrow> Some e | Inr _ \<Rightarrow> None)"

definition groupAudit :: "time \<Rightarrow> string \<Rightarrow> string \<Rightarrow> string \<Rightarrow> string \<Rightarrow> audited \<Rightarrow> audited \<Rightarrow> GroupAudit" where
  "groupAudit instant action kind oid reason before after =
     \<lparr>au_id = 0, au_at = instant, au_actor_kind = ''management-key'', au_actor_id = None, au_action = action,
      au_object_type = kind, au_object_id = oid, au_before = before, au_after = after, au_reason = reason,
      au_result = ''success''\<rparr>"

definition groupRevision :: "int \<Rightarrow> int \<Rightarrow> error + unit" where
  "groupRevision actual expected =
     (if actual \<noteq> expected then Inl (conflictf ''revision_conflict: modified meanwhile'') else Inr ())"

definition groupReason :: "string \<Rightarrow> error + unit" where
  "groupReason reason =
     (if \<not> validGroupText reason 500 False then Inl (invalidf ''a reason of at most 500 characters is required'') else Inr ())"

definition config_changes :: "GroupAudit \<Rightarrow> Changes" where
  "config_changes a = no_changes\<lparr>ch_grouped_config := True, ch_group_audits := [a]\<rparr>"

definition put_group :: "ResourceGroup \<Rightarrow> State \<Rightarrow> State" where
  "put_group g st =
     st\<lparr>st_grouped := (st_grouped st)\<lparr>gs_groups := AList.update (rg_id g) g (gs_groups (st_grouped st))\<rparr>\<rparr>"

definition no_return :: error where
  "no_return = Plain_Error ''does not return''"

definition nil_panic :: error where
  "nil_panic = Plain_Error ''runtime error: nil pointer dereference''"

section \<open>Groups\<close>

definition ResourceGroups :: "State \<Rightarrow> ResourceGroup list" where
  "ResourceGroups st = sort_key rg_id (map snd (gs_groups (st_grouped st)))"

definition create_group :: "env \<Rightarrow> ResourceGroup \<Rightarrow> State \<Rightarrow> error + ResourceGroup \<times> Changes \<times> State" where
  "create_group E grp0 st =
     (case freeID (rg_name grp0) ''group'' (has_key (gs_groups (st_grouped st))) of
        None \<Rightarrow> Inl no_return
      | Some gid \<Rightarrow>
          let grp = grp0\<lparr>rg_id := gid, rg_status := ''draft'', rg_enabled := True, rg_revision := 1,
                rg_published_at := None, rg_created_at := env_clock E 0, rg_updated_at := env_clock E 0\<rparr>
          in Inr (grp, config_changes (groupAudit (env_clock E 1) ''create'' ''group'' gid [] Audit_None (Audit_Group grp)),
                  put_group grp st))"

definition CreateResourceGroup :: "env \<Rightarrow> ResourceGroup \<Rightarrow> Store \<Rightarrow> (error + ResourceGroup) \<times> Store" where
  "CreateResourceGroup E input s =
     (case normalizeGroup input of
        Inl e \<Rightarrow> (Inl e, s)
      | Inr grp \<Rightarrow> editConfiguration E (create_group E grp) s)"

definition patch_group :: "GroupPatch \<Rightarrow> ResourceGroup \<Rightarrow> ResourceGroup" where
  "patch_group patch g =
     g\<lparr>rg_models := option_or (gpt_models patch) (rg_models g), rg_name := option_or (gpt_name patch) (rg_name g),
       rg_description := option_or (gpt_description patch) (rg_description g),
       rg_enabled := option_or (gpt_enabled patch) (rg_enabled g), rg_pool := option_or (gpt_pool patch) (rg_pool g)\<rparr>"

definition update_group :: "env \<Rightarrow> GroupPatch \<Rightarrow> State \<Rightarrow> error + ResourceGroup \<times> Changes \<times> State" where
  "update_group E patch st =
     (case map_of (gs_groups (st_grouped st)) (gpt_group patch) of
        None \<Rightarrow> Inl (notFoundf ''resource group does not exist'')
      | Some old \<Rightarrow>
          try_bind (groupRevision (rg_revision old) (gpt_revision patch)) (\<lambda>_.
          if gpt_models patch \<noteq> None \<and> rg_status old \<noteq> ''draft''
          then Inl (conflictf ''published_model_membership_immutable: models of a published group'')
          else try_bind (normalizeGroup (patch_group patch old)) (\<lambda>g.
            let g = g\<lparr>rg_revision := wrap64 (rg_revision g + 1), rg_updated_at := env_clock E 0\<rparr>
            in Inr (g, config_changes (groupAudit (env_clock E 1) ''update'' ''group'' (rg_id g) (gpt_reason patch)
                         (Audit_Group old) (Audit_Group g)), put_group g st))))"

definition UpdateResourceGroup :: "env \<Rightarrow> GroupPatch \<Rightarrow> Store \<Rightarrow> (error + ResourceGroup) \<times> Store" where
  "UpdateResourceGroup E patch s =
     (case groupReason (gpt_reason patch) of
        Inl e \<Rightarrow> (Inl e, s)
      | Inr _ \<Rightarrow> editConfiguration E (update_group E patch) s)"

text \<open>The loop over the models: the first model that some group already owns; one clock reading per model.\<close>

fun owned_model :: "env \<Rightarrow> GroupState \<Rightarrow> nat \<Rightarrow> string list \<Rightarrow> (string \<times> ResourceGroup) option" where
  "owned_model E g i [] = None"
| "owned_model E g i (m # ms) =
     (case modelOwner g m (env_clock E i) of
        Some owner \<Rightarrow> Some (m, owner)
      | None \<Rightarrow> owned_model E g (Suc i) ms)"

definition publish_group ::
  "env \<Rightarrow> string \<Rightarrow> int \<Rightarrow> string \<Rightarrow> bool \<Rightarrow> State \<Rightarrow> error + ResourceGroup \<times> Changes \<times> State" where
  "publish_group E gid revision reason archive st =
     (case map_of (gs_groups (st_grouped st)) gid of
        None \<Rightarrow> Inl (notFoundf ''resource group does not exist'')
      | Some old \<Rightarrow>
          try_bind (groupRevision (rg_revision old) revision) (\<lambda>_.
          let n = length (rg_models old);
              finish = (\<lambda>action g.
                let g = g\<lparr>rg_revision := wrap64 (rg_revision g + 1), rg_updated_at := env_clock E (n + 1)\<rparr>
                in Inr (g, config_changes (groupAudit (env_clock E (n + 2)) action ''group'' gid reason
                             (Audit_Group old) (Audit_Group g)),
                        st\<lparr>st_grouped := (st_grouped st)\<lparr>gs_groups := AList.update gid g (gs_groups (st_grouped st))\<rparr>\<rparr>))
          in if archive
             then if rg_status old \<noteq> ''published'' then Inl (conflictf ''only a published group can be archived'')
                  else finish ''archive'' (old\<lparr>rg_status := ''archived'', rg_enabled := False\<rparr>)
             else if rg_status old \<noteq> ''draft'' then Inl (conflictf ''only a draft can be published'')
                  else case owned_model E (st_grouped st) 0 (rg_models old) of
                    Some (m, owner) \<Rightarrow> Inl (conflictf (''model_group_conflict: '' @ m @ '' belongs to '' @ rg_name owner))
                  | None \<Rightarrow> finish ''publish'' (old\<lparr>rg_status := ''published'', rg_published_at := Some (env_clock E n)\<rparr>)))"

definition PublishResourceGroup ::
  "env \<Rightarrow> string \<Rightarrow> int \<Rightarrow> string \<Rightarrow> bool \<Rightarrow> Store \<Rightarrow> (error + ResourceGroup) \<times> Store" where
  "PublishResourceGroup E gid revision reason archive s =
     (case groupReason reason of
        Inl e \<Rightarrow> (Inl e, s)
      | Inr _ \<Rightarrow> editConfiguration E (publish_group E gid revision reason archive) s)"

section \<open>Plans\<close>

text \<open>Each plan reads the clock once per binding.\<close>

definition bound_count :: "env \<Rightarrow> GroupState \<Rightarrow> nat \<Rightarrow> string \<Rightarrow> int" where
  "bound_count E g i pid =
     int (length (filter (\<lambda>(j, scope). case group_binding g scope (env_clock E (i + j)) of
            (b, ok) \<Rightarrow> ok \<and> bp_plan b = Some pid) (enumerate 0 (mkeys (gs_bindings g)))))"

definition GroupPlans :: "env \<Rightarrow> State \<Rightarrow> GroupPlan list" where
  "GroupPlans E st =
     (let g = st_grouped st
      in sort_key gpl_id (map (\<lambda>(i, p). p\<lparr>gpl_bound_keys := bound_count E g (i * length (gs_bindings g)) (gpl_id p)\<rparr>)
           (enumerate 0 (map snd (gs_plans g)))))"

fun check_policies :: "GroupState \<Rightarrow> string list \<Rightarrow> GroupPolicy list \<Rightarrow> error + unit" where
  "check_policies g seen [] = Inr ()"
| "check_policies g seen (p # ps) =
     (if (case map_of (gs_groups g) (pol_group p) of None \<Rightarrow> True | Some r \<Rightarrow> rg_status r \<noteq> ''published'')
      then Inl (invalidf ''group not published or archived'')
      else if pol_group p \<in> set seen then Inl (invalidf ''group configured twice'')
      else if (case pol_daily_limit p of None \<Rightarrow> False | Some l \<Rightarrow> l \<le> 0) then Inl (invalidf ''daily limit must be positive'')
      else if (case pol_concurrency_limit p of None \<Rightarrow> False | Some l \<Rightarrow> l < 1 \<or> l > MaxConcurrencyLimit)
      then Inl (invalidf ''concurrency must be 1 to 10000 or null'')
      else check_policies g (pol_group p # seen) ps)"

definition validateGroupPlan :: "State \<Rightarrow> GroupPlan \<Rightarrow> error + unit" where
  "validateGroupPlan st plan =
     (if \<not> validGroupText (gpl_name plan) 80 False \<or> gpl_policies plan = []
      then Inl (invalidf ''plan name and at least one policy required'')
      else check_policies (st_grouped st) [] (gpl_policies plan))"

definition put_group_plan :: "GroupPlan \<Rightarrow> State \<Rightarrow> State" where
  "put_group_plan p st =
     st\<lparr>st_grouped := (st_grouped st)\<lparr>gs_plans := AList.update (gpl_id p) p (gs_plans (st_grouped st))\<rparr>\<rparr>"

definition save_plan :: "env \<Rightarrow> GroupPlan \<Rightarrow> int \<Rightarrow> string \<Rightarrow> State \<Rightarrow> error + GroupPlan \<times> Changes \<times> State" where
  "save_plan E plan0 expected reason st =
     (let plan = plan0\<lparr>gpl_name := TrimSpace (gpl_name plan0)\<rparr>;
          finish = (\<lambda>action old p.
            let p = p\<lparr>gpl_updated_at := env_clock E 1, gpl_bound_keys := 0\<rparr>
            in Inr (p, config_changes (groupAudit (env_clock E 2) action ''group_plan'' (gpl_id p) reason old (Audit_Plan p)),
                    put_group_plan p st))
      in try_bind (validateGroupPlan st plan) (\<lambda>_.
         if gpl_id plan = []
         then case freeID (gpl_name plan) ''group-plan'' (has_key (gs_plans (st_grouped st))) of
                None \<Rightarrow> Inl no_return
              | Some pid \<Rightarrow> finish ''create'' Audit_None (plan\<lparr>gpl_id := pid, gpl_revision := 1, gpl_created_at := env_clock E 0\<rparr>)
         else case map_of (gs_plans (st_grouped st)) (gpl_id plan) of
                None \<Rightarrow> Inl (notFoundf ''group plan does not exist'')
              | Some previous \<Rightarrow>
                  try_bind (groupRevision (gpl_revision previous) expected) (\<lambda>_.
                    finish ''update'' (Audit_Plan previous)
                      (plan\<lparr>gpl_revision := wrap64 (gpl_revision previous + 1), gpl_created_at := gpl_created_at previous\<rparr>))))"

definition SaveGroupPlan :: "env \<Rightarrow> GroupPlan \<Rightarrow> int \<Rightarrow> string \<Rightarrow> Store \<Rightarrow> (error + GroupPlan) \<times> Store" where
  "SaveGroupPlan E plan expected reason s =
     (case (if gpl_id plan \<noteq> [] then groupReason reason else Inr ()) of
        Inl e \<Rightarrow> (Inl e, s)
      | Inr _ \<Rightarrow> editConfiguration E (save_plan E plan expected reason) s)"

section \<open>Bindings\<close>

definition view_period :: "time \<Rightarrow> GroupBindingView \<Rightarrow> GroupBindingPeriod \<Rightarrow> GroupBindingView" where
  "view_period now view p =
     (if now < bp_from p then view\<lparr>bv_pending := Some p\<rparr>
      else if (case bp_to p of None \<Rightarrow> True | Some u \<Rightarrow> now < u) then view\<lparr>bv_active := Some p\<rparr>
      else view)"

definition bindingView :: "GroupKeyBinding \<Rightarrow> time \<Rightarrow> GroupBindingView" where
  "bindingView b now =
     foldl (view_period now)
       \<lparr>bv_scope = kb_scope b, bv_revision = kb_revision b, bv_active = None, bv_pending = None\<rparr> (kb_periods b)"

definition GroupBinding :: "env \<Rightarrow> string \<Rightarrow> State \<Rightarrow> GroupBindingView" where
  "GroupBinding E scope st =
     (case map_of (gs_bindings (st_grouped st)) scope of
        None \<Rightarrow> \<lparr>bv_scope = scope, bv_revision = 0, bv_active = None, bv_pending = None\<rparr>
      | Some b \<Rightarrow> bindingView b (env_clock E 0))"

text \<open>The periods that have begun, cut off at the boundary.\<close>

definition cut_period :: "time \<Rightarrow> GroupBindingPeriod \<Rightarrow> GroupBindingPeriod" where
  "cut_period boundary p =
     (if (case bp_to p of None \<Rightarrow> True | Some u \<Rightarrow> boundary < u) then p\<lparr>bp_to := Some boundary\<rparr> else p)"

definition begun_periods :: "time \<Rightarrow> time \<Rightarrow> GroupBindingPeriod list \<Rightarrow> GroupBindingPeriod list" where
  "begun_periods now boundary ps = map (cut_period boundary) (filter (\<lambda>p. \<not> bp_from p > now) ps)"

definition put_binding :: "string \<Rightarrow> GroupKeyBinding \<Rightarrow> State \<Rightarrow> State" where
  "put_binding scope b st =
     st\<lparr>st_grouped := (st_grouped st)\<lparr>gs_bindings := AList.update scope b (gs_bindings (st_grouped st))\<rparr>\<rparr>"

definition schedule_binding ::
  "env \<Rightarrow> string \<Rightarrow> string \<Rightarrow> string option \<Rightarrow> int \<Rightarrow> string \<Rightarrow> State \<Rightarrow> error + GroupBindingView \<times> Changes \<times> State" where
  "schedule_binding E scope mode planID expected reason st =
     (if liveKey st scope = None then Inl (notFoundf ''API key does not exist'')
      else if (case planID of None \<Rightarrow> False | Some pid \<Rightarrow> \<not> has_key (gs_plans (st_grouped st)) pid)
      then Inl (notFoundf ''group plan does not exist'')
      else
        let old = lookup_binding (st_grouped st) scope
        in try_bind (groupRevision (kb_revision old) expected) (\<lambda>_.
             let now = env_clock E 0;
                 boundary = nextGroupDay now;
                 periods = begun_periods now boundary (kb_periods old) @
                   [\<lparr>bp_mode = mode, bp_plan = planID, bp_from = boundary, bp_to = None\<rparr>];
                 b = \<lparr>kb_unclassified = kb_unclassified old, kb_scope = scope,
                      kb_revision = wrap64 (kb_revision old + 1), kb_periods = periods\<rparr>
             in Inr (bindingView b now,
                     config_changes (groupAudit now ''schedule'' ''key_binding'' scope reason (Audit_Binding old) (Audit_Binding b)),
                     put_binding scope b st)))"

definition ScheduleGroupBinding ::
  "env \<Rightarrow> string \<Rightarrow> string \<Rightarrow> string option \<Rightarrow> int \<Rightarrow> string \<Rightarrow> Store \<Rightarrow> (error + GroupBindingView) \<times> Store" where
  "ScheduleGroupBinding E scope mode planID expected reason s =
     (case groupReason reason of
        Inl e \<Rightarrow> (Inl e, s)
      | Inr _ \<Rightarrow>
          if (mode \<noteq> ''legacy'' \<and> mode \<noteq> ''grouped'') \<or> (mode = ''legacy'' \<and> planID \<noteq> None) \<or>
             (mode = ''grouped'' \<and> planID = None)
          then (Inl (invalidf ''mode and plan_id do not match''), s)
          else editConfiguration E (schedule_binding E scope mode planID expected reason) s)"

definition IsGrouped :: "State \<Rightarrow> string \<Rightarrow> time \<Rightarrow> bool" where
  "IsGrouped st scope instant = snd (group_binding (st_grouped st) scope instant)"

section \<open>Day resets and labels\<close>

definition put_day :: "string \<Rightarrow> GroupDay \<Rightarrow> State \<Rightarrow> State" where
  "put_day k d st = st\<lparr>st_grouped := (st_grouped st)\<lparr>gs_days := AList.update k d (gs_days (st_grouped st))\<rparr>\<rparr>"

definition reset_day :: "env \<Rightarrow> string \<Rightarrow> string \<Rightarrow> string \<Rightarrow> State \<Rightarrow> error + unit \<times> Changes \<times> State" where
  "reset_day E scope gid reason st =
     (let g = st_grouped st
      in if liveKey st scope = None then Inl (notFoundf ''API key does not exist'')
         else if \<not> has_key (gs_groups g) gid then Inl (notFoundf ''resource group does not exist'')
         else
           let now = env_clock E 0;
               d0 = new_day scope gid (groupDate now);
               k = GroupDay_Key d0
           in case group_binding g scope now of (binding, grouped) \<Rightarrow>
             if \<not> grouped then Inl (conflictf ''the key is not in group mode'')
             else case bp_plan binding of
               None \<Rightarrow> Inl nil_panic
             | Some pid \<Rightarrow>
                 if group_policy g pid gid = None \<and> \<not> has_key (gs_days g) k
                 then Inl (notFoundf ''the key has no policy or usage of this group'')
                 else
                   let old = (case map_of (gs_days g) k of Some o' \<Rightarrow> o' | None \<Rightarrow> d0);
                       d = old\<lparr>gd_credit := gd_raw old, gd_cutoff := Some now, gd_updated_at := now\<rparr>
                   in Inr ((), no_changes\<lparr>ch_group_days := [k],
                             ch_group_audits := [groupAudit now ''reset'' ''group_day''
                               (scope @ ''/'' @ gid @ ''/'' @ gd_date d) reason (Audit_Day old) (Audit_Day d)]\<rparr>,
                           put_day k d st))"

definition ResetGroupDay :: "env \<Rightarrow> string \<Rightarrow> string \<Rightarrow> string \<Rightarrow> Store \<Rightarrow> (error + unit) \<times> Store" where
  "ResetGroupDay E scope gid reason s =
     (case groupReason reason of
        Inl e \<Rightarrow> (Inl e, s)
      | Inr _ \<Rightarrow> editConfiguration E (reset_day E scope gid reason) s)"

definition CachedSharedLabels :: "string \<Rightarrow> State \<Rightarrow> SharedLabel list" where
  "CachedSharedLabels ins st = filter (\<lambda>l. sl_instance l = ins) (map snd (gs_labels (st_grouped st)))"

definition cache_labels :: "string \<Rightarrow> SharedLabel list \<Rightarrow> State \<Rightarrow> error + unit \<times> Changes \<times> State" where
  "cache_labels ins labels st =
     (let kept = filter (\<lambda>(k, l). \<not> sl_instance l = ins) (gs_labels (st_grouped st));
          m = foldl (\<lambda>m l. AList.update (SharedLabel_Key l) l m) kept labels
      in Inr ((), no_changes\<lparr>ch_group_labels := True\<rparr>, st\<lparr>st_grouped := (st_grouped st)\<lparr>gs_labels := m\<rparr>\<rparr>))"

definition CacheSharedLabels :: "env \<Rightarrow> string \<Rightarrow> SharedLabel list \<Rightarrow> Store \<Rightarrow> (error + unit) \<times> Store" where
  "CacheSharedLabels E ins labels s = editConfiguration E (cache_labels ins labels) s"

section \<open>Steps\<close>

lemma config_changes_flags [simp]: "ch_grouped_config (config_changes a)" "ch_group_days (config_changes a) = []"
  "\<not> ch_group_labels (config_changes a)"
  by (simp_all add: config_changes_def no_changes_def)

lemma freeID_returns: "\<exists>new. freeID name p (has_key m) = Some new \<and> \<not> has_key m new"
proof -
  have "{k. has_key m k} = set (mkeys m)" by (auto simp: has_key_iff)
  then have "finite {k. has_key m k}" by (simp only: finite_set)
  from freeID_cases [OF this] show ?thesis by blast
qed

lemma sound_put_groups:
  assumes "grouped_wf (st_grouped st) \<Longrightarrow> rg_id g = gid"
  shows "sound_step st (st\<lparr>st_grouped := (st_grouped st)\<lparr>gs_groups := AList.update gid g (gs_groups (st_grouped st))\<rparr>\<rparr>)
    (config_changes a)"
  by (rule sound_step_grouped [OF refl]) (use assms in \<open>auto simp: grouped_wf_def\<close>)

lemma create_group_sound: "create_group E g st = Inr (v, ch, st') \<Longrightarrow> sound_step st st' ch"
  by (auto simp: create_group_def Let_def put_group_def sound_put_groups split: option.splits)

lemma update_group_sound: "update_group E patch st = Inr (v, ch, st') \<Longrightarrow> sound_step st st' ch"
  by (auto simp: update_group_def Let_def put_group_def sound_put_groups split: option.splits if_splits)

lemma publish_group_sound:
  assumes "publish_group E gid revision reason archive st = Inr (v, ch, st')"
  shows "sound_step st st' ch"
proof -
  obtain old where old: "map_of (gs_groups (st_grouped st)) gid = Some old"
    using assms by (auto simp: publish_group_def split: option.splits)
  have k: "grouped_wf (st_grouped st) \<Longrightarrow> rg_id old = gid" using keyedD [OF _ old] by (auto simp: grouped_wf_def)
  show ?thesis
    using assms old k
    by (auto simp: publish_group_def Let_def intro!: sound_put_groups split: option.splits if_splits)
qed

lemma save_plan_sound: "save_plan E plan expected reason st = Inr (v, ch, st') \<Longrightarrow> sound_step st st' ch"
proof -
  have s: "sound_step st (put_group_plan p st) (config_changes a)" for p a
    unfolding put_group_plan_def by (rule sound_step_grouped [OF refl]) (auto simp: grouped_wf_def)
  show "save_plan E plan expected reason st = Inr (v, ch, st') \<Longrightarrow> sound_step st st' ch"
    by (auto simp: save_plan_def Let_def s split: option.splits if_splits)
qed

lemma put_binding_sound: "kb_scope b = scope \<Longrightarrow> ch_grouped_config ch \<Longrightarrow> sound_step st (put_binding scope b st) ch"
  unfolding put_binding_def by (rule sound_step_grouped [OF refl]) (auto simp: grouped_wf_def)

lemma schedule_sound: "schedule_binding E scope mode pid expected reason st = Inr (v, ch, st') \<Longrightarrow> sound_step st st' ch"
  by (auto simp: schedule_binding_def Let_def put_binding_sound split: if_splits)

lemma put_day_sound: "GroupDay_Key d = k \<Longrightarrow> k \<in> set (ch_group_days ch) \<Longrightarrow> sound_step st (put_day k d st) ch"
  unfolding put_day_def by (rule sound_step_grouped [OF refl]) (auto simp: grouped_wf_def)

lemma reset_day_Inr:
  assumes "reset_day E scope gid reason st = Inr (v, ch, st')"
  defines "now \<equiv> env_clock E 0"
  defines "k \<equiv> GroupDay_Key (new_day scope gid (groupDate now))"
  obtains old where
    "old = (case map_of (gs_days (st_grouped st)) k of Some o' \<Rightarrow> o' | None \<Rightarrow> new_day scope gid (groupDate now))"
    "st' = put_day k (old\<lparr>gd_credit := gd_raw old, gd_cutoff := Some now, gd_updated_at := now\<rparr>) st"
    "ch_group_days ch = [k]" "liveKey st scope \<noteq> None" "has_key (gs_groups (st_grouped st)) gid"
  using assms(1) that unfolding reset_day_def Let_def now_def [symmetric] k_def [symmetric]
  by (auto simp: no_changes_def split: if_splits prod.splits option.splits)

lemma reset_day_sound:
  assumes "state_wf st" "reset_day E scope gid reason st = Inr (v, ch, st')"
  shows "sound_step st st' ch"
  using assms(2)
proof (rule reset_day_Inr)
  let ?k = "GroupDay_Key (new_day scope gid (groupDate (env_clock E 0)))"
  fix old
  assume o: "old = (case map_of (gs_days (st_grouped st)) ?k of Some o' \<Rightarrow> o' | None \<Rightarrow> new_day scope gid (groupDate (env_clock E 0)))"
    and s: "st' = put_day ?k (old\<lparr>gd_credit := gd_raw old, gd_cutoff := Some (env_clock E 0), gd_updated_at := env_clock E 0\<rparr>) st"
    and c: "ch_group_days ch = [?k]"
  have "GroupDay_Key old = ?k"
    using o assms(1) by (auto simp: state_wf_def grouped_wf_def dest: keyedD split: option.splits)
  then show ?thesis unfolding s by (intro put_day_sound) (simp_all add: c GroupDay_Key_def)
qed

lemma cache_labels_sound: "cache_labels ins labels st = Inr (v, ch, st') \<Longrightarrow> sound_step st st' ch"
  by (auto simp: cache_labels_def Let_def grouped_wf_def no_changes_def intro!: sound_step_grouped [OF refl])

section \<open>Model ownership\<close>

definition published :: "ResourceGroup \<Rightarrow> bool" where
  "published g \<longleftrightarrow> rg_status g \<noteq> ''draft''"

definition has_model :: "string \<Rightarrow> ResourceGroup \<Rightarrow> bool" where
  "has_model key g \<longleftrightarrow> list_ex (\<lambda>m. groupModel m = key) (rg_models g)"

text \<open>No model belongs to two published groups, exactly the published groups have an instant of publication, and
  the models of a group are a tidy list.\<close>

definition groups_ok :: "GroupState \<Rightarrow> bool" where
  "groups_ok g \<longleftrightarrow>
     (\<forall>a b key. a \<in> snd ` set (gs_groups g) \<longrightarrow> b \<in> snd ` set (gs_groups g) \<longrightarrow> published a \<longrightarrow> published b \<longrightarrow>
        key \<noteq> [] \<longrightarrow> has_model key a \<longrightarrow> has_model key b \<longrightarrow> a = b) \<and>
     (\<forall>a \<in> snd ` set (gs_groups g). (published a \<longleftrightarrow> rg_published_at a \<noteq> None) \<and> route_strings_ok (rg_models a))"

lemma groups_ok_unique: "groups_ok g \<Longrightarrow> owners_unique g t"
  by (auto simp: groups_ok_def owners_unique_def owns_def published_def has_model_def)

lemma in_snd: "a \<in> snd ` S \<longleftrightarrow> (\<exists>k. (k, a) \<in> S)"
  by force

lemma update_set:
  assumes "wf_map m"
  shows "(k, v) \<in> set (AList.update i w m) \<longleftrightarrow> (k = i \<and> v = w) \<or> (k \<noteq> i \<and> (k, v) \<in> set m)"
  using assms by (auto simp: wf_map_mem_iff)

text \<open>Replacing one group keeps ownership when the new record takes no model of another published group.\<close>

lemma groups_ok_update:
  assumes "groups_ok g" "keyed rg_id (gs_groups g)"
    "published new \<longleftrightarrow> rg_published_at new \<noteq> None" "route_strings_ok (rg_models new)"
    "\<And>k a key. (k, a) \<in> set (gs_groups g) \<Longrightarrow> k \<noteq> gid \<Longrightarrow> published a \<Longrightarrow> published new \<Longrightarrow> key \<noteq> [] \<Longrightarrow>
       has_model key new \<Longrightarrow> \<not> has_model key a"
  shows "groups_ok (g\<lparr>gs_groups := AList.update gid new (gs_groups g)\<rparr>)"
proof -
  have wf: "wf_map (gs_groups g)" using assms(2) by (simp add: keyed_def)
  have mem: "a \<in> snd ` set (AList.update gid new (gs_groups g)) \<longleftrightarrow>
      a = new \<or> (\<exists>k. k \<noteq> gid \<and> (k, a) \<in> set (gs_groups g))" for a
    unfolding in_snd update_set [OF wf] by auto
  have old: "a = b" if "(k, a) \<in> set (gs_groups g)" "(j, b) \<in> set (gs_groups g)" "published a" "published b" "key \<noteq> []"
      "has_model key a" "has_model key b" for a b k j key
    using assms(1) that unfolding groups_ok_def by (metis image_eqI snd_conv)
  have ind: "(published a \<longleftrightarrow> rg_published_at a \<noteq> None) \<and> route_strings_ok (rg_models a)"
    if "(k, a) \<in> set (gs_groups g)" for k a
    using assms(1) that unfolding groups_ok_def by (metis image_eqI snd_conv)
  show ?thesis
    unfolding groups_ok_def
  proof (intro conjI allI impI ballI)
    fix a b key
    assume "a \<in> snd ` set (gs_groups (g\<lparr>gs_groups := AList.update gid new (gs_groups g)\<rparr>))"
      "b \<in> snd ` set (gs_groups (g\<lparr>gs_groups := AList.update gid new (gs_groups g)\<rparr>))"
      "published a" "published b" "key \<noteq> []" "has_model key a" "has_model key b"
    then show "a = b" using old assms(5) by (simp add: mem) blast
  next
    fix a
    assume a: "a \<in> snd ` set (gs_groups (g\<lparr>gs_groups := AList.update gid new (gs_groups g)\<rparr>))"
    then show "published a \<longleftrightarrow> rg_published_at a \<noteq> None" "route_strings_ok (rg_models a)"
      using ind assms(3,4) by (auto simp: mem)
  qed
qed

text \<open>The clock of the host never shows an instant before one already recorded.\<close>

definition clock_after :: "env \<Rightarrow> GroupState \<Rightarrow> bool" where
  "clock_after E g \<longleftrightarrow> (\<forall>a \<in> snd ` set (gs_groups g). \<forall>p i. rg_published_at a = Some p \<longrightarrow> p \<le> env_clock E i)"

lemma owned_model_None:
  assumes "owned_model E g i ms = None" "clock_after E g" "groups_ok g" "m \<in> set ms" "groupModel m \<noteq> []"
    "a \<in> snd ` set (gs_groups g)" "published a"
  shows "\<not> has_model (groupModel m) a"
  using assms(1,4)
proof (induction ms arbitrary: i)
  case (Cons x ms)
  show ?case
  proof (cases "x = m")
    case True
    then have "modelOwner g m (env_clock E i) = None" using Cons.prems by (simp split: option.splits)
    then have "\<not> owns (env_clock E i) (groupModel m) a" using assms(5,6) by (auto simp: modelOwner_None)
    moreover obtain p where "rg_published_at a = Some p" using assms(3,6,7) by (auto simp: groups_ok_def)
    ultimately show ?thesis using assms(2,6,7) by (auto simp: owns_def published_def has_model_def clock_after_def)
  next
    case False
    then show ?thesis using Cons by (auto split: option.splits)
  qed
qed simp

lemma keyed_other:
  assumes "keyed rg_id m" "map_of m gid = Some old" "(k, a) \<in> set m" "k \<noteq> gid"
  shows "a \<noteq> old"
  using assms keyedD [OF assms(1,2)] by (auto simp: keyed_def)

lemma publish_group_Inr:
  assumes "publish_group E gid revision reason archive st = Inr (g', ch, st')"
  obtains old where "map_of (gs_groups (st_grouped st)) gid = Some old" "rg_revision old = revision"
    "rg_models g' = rg_models old" "rg_revision g' = wrap64 (revision + 1)"
    "st' = st\<lparr>st_grouped := (st_grouped st)\<lparr>gs_groups := AList.update gid g' (gs_groups (st_grouped st))\<rparr>\<rparr>"
    "archive \<longrightarrow> rg_status old = ''published'' \<and> rg_status g' = ''archived'' \<and> rg_published_at g' = rg_published_at old"
    "\<not> archive \<longrightarrow> rg_status old = ''draft'' \<and> rg_status g' = ''published'' \<and> rg_published_at g' \<noteq> None \<and>
       owned_model E (st_grouped st) 0 (rg_models old) = None"
  using assms that
  by (auto simp: publish_group_def groupRevision_def Let_def split: option.splits if_splits)

lemma create_group_Inr:
  assumes "state_wf st" "groups_ok (st_grouped st)" "normalizeGroup input = Inr grp" "create_group E grp st = Inr (g, ch, st')"
  shows "\<not> has_key (gs_groups (st_grouped st)) (rg_id g) \<and> rg_status g = ''draft'' \<and> rg_revision g = 1 \<and>
    rg_published_at g = None \<and> rg_models g \<noteq> [] \<and> st' = put_group g st \<and> groups_ok (st_grouped st')"
proof -
  let ?g = "st_grouped st"
  obtain gid where i: "freeID (rg_name grp) ''group'' (has_key (gs_groups ?g)) = Some gid" "\<not> has_key (gs_groups ?g) gid"
    using freeID_returns by blast
  have r: "route_strings_ok (rg_models grp)" "rg_models grp \<noteq> []"
    using assms(3) by (auto simp: normalizeGroup_def Let_def normalizeRouteStrings_ok split: if_splits)
  have g: "g = grp\<lparr>rg_id := gid, rg_status := ''draft'', rg_enabled := True, rg_revision := 1,
      rg_published_at := None, rg_created_at := env_clock E 0, rg_updated_at := env_clock E 0\<rparr>"
    and st: "st' = put_group g st"
    using assms(4) i by (auto simp: create_group_def Let_def)
  have "groups_ok (?g\<lparr>gs_groups := AList.update gid g (gs_groups ?g)\<rparr>)"
    by (rule groups_ok_update [OF assms(2)]) (use assms(1) r in \<open>auto simp: g published_def state_wf_def grouped_wf_def\<close>)
  then show ?thesis using i r by (simp add: st put_group_def) (simp add: g)
qed

lemma update_group_Inr:
  assumes "state_wf st" "groups_ok (st_grouped st)" "update_group E patch st = Inr (g, ch, st')"
  obtains old where "map_of (gs_groups (st_grouped st)) (gpt_group patch) = Some old" "rg_revision old = gpt_revision patch"
    "rg_revision g = wrap64 (gpt_revision patch + 1)" "rg_status g = rg_status old" "published old \<Longrightarrow> rg_models g = rg_models old"
    "rg_id g = gpt_group patch" "st' = put_group g st" "groups_ok (st_grouped st')"
proof -
  let ?g = "st_grouped st"
  have k: "keyed rg_id (gs_groups ?g)" using assms(1) by (simp add: state_wf_def grouped_wf_def)
  from assms(3) obtain old n where o: "map_of (gs_groups ?g) (gpt_group patch) = Some old"
    "rg_revision old = gpt_revision patch" "gpt_models patch = None \<or> rg_status old = ''draft''"
    "normalizeGroup (patch_group patch old) = Inr n"
    "g = n\<lparr>rg_revision := wrap64 (rg_revision n + 1), rg_updated_at := env_clock E 0\<rparr>"
    "st' = put_group g st"
    by (auto simp: update_group_def groupRevision_def Let_def split: option.splits if_splits)
  have n: "route_strings_ok (rg_models n)" "rg_id n = rg_id old" "rg_status n = rg_status old"
     "rg_published_at n = rg_published_at old" "rg_revision n = rg_revision old"
     "normalizeRouteStrings (rg_models (patch_group patch old)) = Inr (rg_models n)"
    using o(4) by (auto simp: normalizeGroup_def patch_group_def Let_def normalizeRouteStrings_ok split: if_splits)
  have id: "rg_id old = gpt_group patch" by (rule keyedD [OF k o(1)])
  have mem: "old \<in> snd ` set (gs_groups ?g)" using map_of_SomeD [OF o(1)] by (auto simp: in_snd)
  have old: "published old \<longleftrightarrow> rg_published_at old \<noteq> None" "route_strings_ok (rg_models old)"
    using assms(2) mem by (auto simp: groups_ok_def)
  have same: "rg_models n = rg_models old" if "published old"
  proof -
    have "gpt_models patch = None" using o(3) that by (auto simp: published_def)
    then have "rg_models (patch_group patch old) = rg_models old" by (simp add: patch_group_def option_or_def)
    then show ?thesis using n(6) normalizeRouteStrings_id [OF old(2)] by simp
  qed
  have "groups_ok (?g\<lparr>gs_groups := AList.update (gpt_group patch) g (gs_groups ?g)\<rparr>)"
  proof (rule groups_ok_update [OF assms(2) k])
    show "published g \<longleftrightarrow> rg_published_at g \<noteq> None" using old(1) n by (simp add: o(5) published_def)
    show "route_strings_ok (rg_models g)" using n by (simp add: o(5))
    fix j a key
    assume a: "(j, a) \<in> set (gs_groups ?g)" "j \<noteq> gpt_group patch" "published a" "published g" "key \<noteq> []" "has_model key g"
    then have "published old" using n by (simp add: o(5) published_def)
    then have "has_model key old" using a(6) same by (simp add: o(5) has_model_def)
    moreover have "a \<noteq> old" by (rule keyed_other [OF k o(1) a(1,2)])
    moreover have "a \<in> snd ` set (gs_groups ?g)" using a(1) by (auto simp: in_snd)
    ultimately show "\<not> has_model key a"
      using assms(2) mem \<open>published old\<close> a(3,5) unfolding groups_ok_def by blast
  qed
  then show ?thesis using o n id same by (intro that [of old]) (simp_all add: put_group_def)
qed

lemma publish_group_ok:
  assumes "state_wf st" "groups_ok (st_grouped st)" "clock_after E (st_grouped st)"
    "publish_group E gid revision reason archive st = Inr (g, ch, st')"
  shows "groups_ok (st_grouped st')"
proof -
  let ?g = "st_grouped st"
  have k: "keyed rg_id (gs_groups ?g)" using assms(1) by (simp add: state_wf_def grouped_wf_def)
  from assms(4) obtain old where o: "map_of (gs_groups ?g) gid = Some old" "rg_revision old = revision" "rg_models g = rg_models old"
    "rg_revision g = wrap64 (revision + 1)" "st' = st\<lparr>st_grouped := ?g\<lparr>gs_groups := AList.update gid g (gs_groups ?g)\<rparr>\<rparr>"
    "archive \<longrightarrow> rg_status old = ''published'' \<and> rg_status g = ''archived'' \<and> rg_published_at g = rg_published_at old"
    "\<not> archive \<longrightarrow> rg_status old = ''draft'' \<and> rg_status g = ''published'' \<and> rg_published_at g \<noteq> None \<and>
       owned_model E ?g 0 (rg_models old) = None"
    by (rule publish_group_Inr)
  have mem: "old \<in> snd ` set (gs_groups ?g)" using map_of_SomeD [OF o(1)] by (auto simp: in_snd)
  have old: "published old \<longleftrightarrow> rg_published_at old \<noteq> None" "route_strings_ok (rg_models old)"
    using assms(2) mem by (auto simp: groups_ok_def)
  have "groups_ok (?g\<lparr>gs_groups := AList.update gid g (gs_groups ?g)\<rparr>)"
  proof (rule groups_ok_update [OF assms(2) k])
    show "published g \<longleftrightarrow> rg_published_at g \<noteq> None" using old(1) o(6,7) by (cases archive) (auto simp: published_def)
    show "route_strings_ok (rg_models g)" using old o(3) by simp
    fix j a key
    assume a: "(j, a) \<in> set (gs_groups ?g)" "j \<noteq> gid" "published a" "published g" "key \<noteq> []" "has_model key g"
    have am: "a \<in> snd ` set (gs_groups ?g)" using a(1) by (auto simp: in_snd)
    have h: "has_model key old" using a(6) o(3) by (simp add: has_model_def)
    show "\<not> has_model key a"
    proof (cases archive)
      case True
      then have "published old" using o(6) by (simp add: published_def)
      moreover have "a \<noteq> old" by (rule keyed_other [OF k o(1) a(1,2)])
      ultimately show ?thesis using assms(2) mem am a(3,5) h unfolding groups_ok_def by blast
    next
      case False
      obtain m where m: "m \<in> set (rg_models old)" "groupModel m = key" using h by (auto simp: has_model_def list_ex_iff)
      have "owned_model E ?g 0 (rg_models old) = None" using o(7) False by blast
      from owned_model_None [OF this assms(3,2) m(1) _ am a(3)] show ?thesis using m(2) a(5) by simp
    qed
  qed
  then show ?thesis by (simp add: o(5))
qed

section \<open>Properties\<close>

text \<open>Creating a group takes an identifier no group has, stores the group as an enabled draft of revision 1 with
  the normalised input, leaves every other group alone and keeps the ownership of models intact.\<close>

theorem CreateResourceGroup_ok:
  assumes "state_wf (s_state s)" "groups_ok (st_grouped (s_state s))" "CreateResourceGroup E input s = (Inr g, s')"
  shows "\<not> has_key (gs_groups (st_grouped (s_state s))) (rg_id g) \<and> rg_status g = ''draft'' \<and> rg_revision g = 1 \<and>
    rg_published_at g = None \<and> rg_models g \<noteq> [] \<and> groups_ok (st_grouped (s_state s')) \<and>
    (\<forall>i. map_of (gs_groups (st_grouped (s_state s'))) i =
       (if i = rg_id g then Some g else map_of (gs_groups (st_grouped (s_state s))) i))"
proof -
  obtain grp where n: "normalizeGroup input = Inr grp" "editConfiguration E (create_group E grp) s = (Inr g, s')"
    using assms(3) by (auto simp: CreateResourceGroup_def split: sum.splits)
  obtain ch where c: "create_group E grp (s_state s) = Inr (g, ch, s_state s')" using edit_Inr [OF n(2)] by blast
  from create_group_Inr [OF assms(1,2) n(1) c] show ?thesis by (auto simp: put_group_def)
qed

text \<open>C27: an update is refused unless the caller saw the current revision; it raises the revision by one, cannot change
  the models of a group that has been published, touches no other group and keeps the ownership of models intact.\<close>

theorem UpdateResourceGroup_ok:
  assumes "state_wf (s_state s)" "groups_ok (st_grouped (s_state s))" "UpdateResourceGroup E patch s = (Inr g, s')"
  shows "\<exists>old. map_of (gs_groups (st_grouped (s_state s))) (gpt_group patch) = Some old \<and>
    rg_revision old = gpt_revision patch \<and> rg_revision g = wrap64 (gpt_revision patch + 1) \<and>
    rg_status g = rg_status old \<and> (published old \<longrightarrow> rg_models g = rg_models old) \<and>
    groups_ok (st_grouped (s_state s')) \<and>
    (\<forall>i. map_of (gs_groups (st_grouped (s_state s'))) i =
       (if i = gpt_group patch then Some g else map_of (gs_groups (st_grouped (s_state s))) i))"
proof -
  have "editConfiguration E (update_group E patch) s = (Inr g, s')"
    using assms(3) by (auto simp: UpdateResourceGroup_def split: sum.splits)
  from edit_Inr [OF this] obtain ch where c: "update_group E patch (s_state s) = Inr (g, ch, s_state s')" by blast
  from update_group_Inr [OF assms(1,2) c] obtain old where
    "map_of (gs_groups (st_grouped (s_state s))) (gpt_group patch) = Some old" "rg_revision old = gpt_revision patch"
    "rg_revision g = wrap64 (gpt_revision patch + 1)" "rg_status g = rg_status old" "published old \<Longrightarrow> rg_models g = rg_models old"
    "rg_id g = gpt_group patch" "s_state s' = put_group g (s_state s)" "groups_ok (st_grouped (s_state s'))" by blast
  then show ?thesis by (intro exI [of _ old]) (simp add: put_group_def)
qed

text \<open>C28: publishing turns a draft into a published group only when none of its models is owned, archiving turns a
  published group into an archived one that keeps its models. At every instant after it, each model has at most one
  owner, so admission and settlement agree on the group whatever the order in which groups are visited.\<close>

theorem PublishResourceGroup_ok:
  assumes "state_wf (s_state s)" "groups_ok (st_grouped (s_state s))" "clock_after E (st_grouped (s_state s))"
    "PublishResourceGroup E gid revision reason archive s = (Inr g, s')"
  shows "\<exists>old. map_of (gs_groups (st_grouped (s_state s))) gid = Some old \<and> rg_revision old = revision \<and>
    rg_models g = rg_models old \<and>
    (rg_status old, rg_status g) \<in> {(''draft'', ''published''), (''published'', ''archived'')} \<and>
    groups_ok (st_grouped (s_state s')) \<and> (\<forall>t. owners_unique (st_grouped (s_state s')) t)"
proof -
  have "editConfiguration E (publish_group E gid revision reason archive) s = (Inr g, s')"
    using assms(4) by (auto simp: PublishResourceGroup_def split: sum.splits)
  from edit_Inr [OF this] obtain ch where
    c: "publish_group E gid revision reason archive (s_state s) = Inr (g, ch, s_state s')" by blast
  have ok: "groups_ok (st_grouped (s_state s'))" by (rule publish_group_ok [OF assms(1-3) c])
  from c show ?thesis
  proof (rule publish_group_Inr)
  qed (use ok groups_ok_unique [OF ok] in \<open>cases archive; auto\<close>)
qed

lemma check_policies_ok:
  "check_policies g seen ps = Inr () \<Longrightarrow>
     distinct (map pol_group ps) \<and> set (map pol_group ps) \<inter> set seen = {} \<and>
     (\<forall>p \<in> set ps. (\<exists>r. map_of (gs_groups g) (pol_group p) = Some r \<and> rg_status r = ''published'') \<and>
        (\<forall>l. pol_daily_limit p = Some l \<longrightarrow> 0 < l) \<and>
        (\<forall>l. pol_concurrency_limit p = Some l \<longrightarrow> 1 \<le> l \<and> l \<le> MaxConcurrencyLimit))"
proof (induction ps arbitrary: seen)
  case (Cons p ps)
  then have h: "\<exists>r. map_of (gs_groups g) (pol_group p) = Some r \<and> rg_status r = ''published''" "pol_group p \<notin> set seen"
    "\<forall>l. pol_daily_limit p = Some l \<longrightarrow> 0 < l" "\<forall>l. pol_concurrency_limit p = Some l \<longrightarrow> 1 \<le> l \<and> l \<le> MaxConcurrencyLimit"
    "check_policies g (pol_group p # seen) ps = Inr ()"
    by (auto simp: not_le not_less split: if_splits option.splits)
  from Cons.IH [OF h(5)] h show ?case by auto
qed simp

text \<open>A stored group plan has a policy for each of a set of different published groups, with positive daily limits
  and concurrency limits from 1 to 10000; a new plan takes a free identifier, and an existing one is replaced only by
  a caller that saw its current revision.\<close>

theorem SaveGroupPlan_ok:
  assumes "SaveGroupPlan E plan expected reason s = (Inr p, s')"
  shows "distinct (map pol_group (gpl_policies p)) \<and> gpl_policies p \<noteq> [] \<and>
    (\<forall>q \<in> set (gpl_policies p).
       (\<exists>r. map_of (gs_groups (st_grouped (s_state s))) (pol_group q) = Some r \<and> rg_status r = ''published'') \<and>
       (\<forall>l. pol_daily_limit q = Some l \<longrightarrow> 0 < l) \<and>
       (\<forall>l. pol_concurrency_limit q = Some l \<longrightarrow> 1 \<le> l \<and> l \<le> MaxConcurrencyLimit)) \<and>
    (case map_of (gs_plans (st_grouped (s_state s))) (gpl_id p) of
       None \<Rightarrow> gpl_id plan = [] \<and> gpl_revision p = 1
     | Some previous \<Rightarrow> gpl_id plan = gpl_id p \<and> gpl_revision previous = expected \<and> gpl_revision p = wrap64 (expected + 1)) \<and>
    gs_plans (st_grouped (s_state s')) = AList.update (gpl_id p) p (gs_plans (st_grouped (s_state s)))"
proof -
  let ?g = "st_grouped (s_state s)"
  have "editConfiguration E (save_plan E plan expected reason) s = (Inr p, s')"
    using assms by (auto simp: SaveGroupPlan_def split: sum.splits)
  from edit_Inr [OF this] obtain ch where c: "save_plan E plan expected reason (s_state s) = Inr (p, ch, s_state s')" by blast
  obtain pid where i: "freeID (TrimSpace (gpl_name plan)) ''group-plan'' (has_key (gs_plans ?g)) = Some pid"
    "\<not> has_key (gs_plans ?g) pid" using freeID_returns by blast
  have v: "validateGroupPlan (s_state s) (plan\<lparr>gpl_name := TrimSpace (gpl_name plan)\<rparr>) = Inr ()"
    using c by (auto simp: save_plan_def Let_def)
  then have k: "check_policies ?g [] (gpl_policies plan) = Inr ()" "gpl_policies plan \<noteq> []"
    by (auto simp: validateGroupPlan_def split: if_splits)
  note pol = check_policies_ok [OF k(1)]
  have "gpl_policies p = gpl_policies plan \<and>
    (case map_of (gs_plans ?g) (gpl_id p) of
       None \<Rightarrow> gpl_id plan = [] \<and> gpl_revision p = 1
     | Some previous \<Rightarrow> gpl_id plan = gpl_id p \<and> gpl_revision previous = expected \<and> gpl_revision p = wrap64 (expected + 1)) \<and>
    s_state s' = put_group_plan p (s_state s)"
    using c i v by (auto simp: save_plan_def Let_def groupRevision_def has_key_def split: if_splits option.splits)
  then show ?thesis using pol k(2) by (simp add: put_group_plan_def)
qed

section \<open>Binding history\<close>

lemma cut_period_in:
  "t < boundary \<Longrightarrow> in_period t (cut_period boundary p) = in_period t p"
  "bp_mode (cut_period boundary p) = bp_mode p" "bp_plan (cut_period boundary p) = bp_plan p"
  "bp_from (cut_period boundary p) = bp_from p"
  by (auto simp: in_period_def cut_period_def split: option.splits)

lemma cut_period_after: "boundary \<le> t \<Longrightarrow> \<not> in_period t (cut_period boundary p)"
  by (auto simp: in_period_def cut_period_def split: option.splits)

lemma find_begun:
  assumes "t \<le> now" "now < boundary"
  shows "find (in_period t) (begun_periods now boundary ps) = map_option (cut_period boundary) (find (in_period t) ps)"
proof (induction ps)
  case (Cons p ps)
  show ?case
  proof (cases "bp_from p > now")
    case True
    then have "\<not> in_period t p" using assms by (auto simp: in_period_def)
    then show ?thesis using Cons True by (simp add: begun_periods_def)
  next
    case False
    then show ?thesis using Cons assms cut_period_in(1) [of t boundary p] by (simp add: begun_periods_def)
  qed
qed (simp add: begun_periods_def)

lemma find_begun_after: "boundary \<le> t \<Longrightarrow> find (in_period t) (begun_periods now boundary ps) = None"
  by (auto simp: find_None_all begun_periods_def cut_period_after)

lemma find_append: "find P (xs @ ys) = (case find P xs of None \<Rightarrow> find P ys | Some x \<Rightarrow> Some x)"
  by (induction xs) auto

lemma schedule_Inr:
  assumes "schedule_binding E scope mode pid expected reason st = Inr (v, ch, st')"
  defines "old \<equiv> lookup_binding (st_grouped st) scope"
  shows "liveKey st scope \<noteq> None \<and> kb_revision old = expected \<and>
    st' = put_binding scope \<lparr>kb_unclassified = kb_unclassified old, kb_scope = scope, kb_revision = wrap64 (expected + 1),
      kb_periods = begun_periods (env_clock E 0) (nextGroupDay (env_clock E 0)) (kb_periods old) @
        [\<lparr>bp_mode = mode, bp_plan = pid, bp_from = nextGroupDay (env_clock E 0), bp_to = None\<rparr>]\<rparr> st"
  using assms(1) by (auto simp: schedule_binding_def groupRevision_def Let_def old_def split: if_splits)

lemma put_binding_lookup [simp]:
  "lookup_binding (st_grouped (put_binding scope b st)) sc = (if sc = scope then b else lookup_binding (st_grouped st) sc)"
  by (simp add: put_binding_def lookup_binding_def)


text \<open>After a reset the day's account of the key and group is settled in full: what has been consumed equals what
  has been credited, the cut-off is the instant of the reset, the raw cost, requests and tokens are untouched, and no
  other ledger entry changes.\<close>

theorem ResetGroupDay_ok:
  assumes "ResetGroupDay E scope gid reason s = (Inr (), s')"
  defines "k \<equiv> GroupDay_Key (new_day scope gid (groupDate (env_clock E 0)))"
  shows "\<exists>d. map_of (gs_days (st_grouped (s_state s'))) k = Some d \<and> gd_raw d - gd_credit d = 0 \<and>
    gd_cutoff d = Some (env_clock E 0) \<and>
    (case map_of (gs_days (st_grouped (s_state s))) k of
       None \<Rightarrow> gd_raw d = 0
     | Some old \<Rightarrow> gd_raw d = gd_raw old \<and> gd_requests d = gd_requests old \<and> gd_tokens d = gd_tokens old \<and>
         gd_error d = gd_error old) \<and>
    (\<forall>j. j \<noteq> k \<longrightarrow> map_of (gs_days (st_grouped (s_state s'))) j = map_of (gs_days (st_grouped (s_state s))) j)"
proof -
  have "editConfiguration E (reset_day E scope gid reason) s = (Inr (), s')"
    using assms(1) by (auto simp: ResetGroupDay_def split: sum.splits)
  from edit_Inr [OF this] obtain ch where c: "reset_day E scope gid reason (s_state s) = Inr ((), ch, s_state s')" by blast
  show ?thesis
    by (rule reset_day_Inr [OF c, folded k_def]) (auto simp: put_day_def new_day_def split: option.splits)
qed

section \<open>Examples\<close>

definition draft_group :: ResourceGroup where
  "draft_group = no_group\<lparr>rg_id := ''d'', rg_name := ''d'', rg_status := ''draft'', rg_enabled := True,
     rg_models := [''m''], rg_pool := empty_pool\<lparr>gp_mode := ''inherit''\<rparr>, rg_revision := 1\<rparr>"

definition open_group :: ResourceGroup where
  "open_group = draft_group\<lparr>rg_id := ''g'', rg_name := ''g'', rg_status := ''published'', rg_models := [''n''],
     rg_published_at := Some 1\<rparr>"

definition group_plan :: GroupPlan where
  "group_plan = \<lparr>gpl_id = ''p'', gpl_name = ''p'', gpl_revision = 1,
     gpl_policies = [\<lparr>pol_group = ''g'', pol_enabled = True, pol_daily_limit = Some 1000000000, pol_concurrency_limit = Some 1\<rparr>],
     gpl_created_at = 1, gpl_updated_at = 1, gpl_bound_keys = 0\<rparr>"

definition grouped_period :: GroupBindingPeriod where
  "grouped_period = \<lparr>bp_mode = ''grouped'', bp_plan = Some ''p'', bp_from = 1, bp_to = None\<rparr>"

definition group_store :: Store where
  "group_store = new_store\<lparr>s_state := small_state\<lparr>st_grouped :=
     NewGroupState\<lparr>gs_groups := [(''d'', draft_group), (''g'', open_group)], gs_plans := [(''p'', group_plan)],
       gs_bindings := [(''ab'', \<lparr>kb_unclassified = 0, kb_scope = ''ab'', kb_revision = 1, kb_periods = [grouped_period]\<rparr>)]\<rparr>\<rparr>\<rparr>"

lemma trim_more [simp]: "TrimSpace ''d'' = ''d''" "TrimSpace ''g'' = ''g''" "TrimSpace ''m'' = ''m''"
  "TrimSpace ''n'' = ''n''" "TrimSpace ''ok'' = ''ok''"
  by (rule TrimSpace_visible; simp add: visible_def)+

lemma valid_words [simp]: "validGroupText ''ok'' 500 False" "validGroupText ''d'' 80 False" "validGroupText ''p'' 80 False"
  "validGroupText [] 1000 True"
  by (simp_all add: validGroupText_def runes_def IsControl_def)

lemma reason_ok [simp]: "groupReason ''ok'' = Inr ()"
  by (simp add: groupReason_def)

lemma model_words [simp]: "normalizeRouteStrings [''m''] = Inr [''m'']" "normalizeRouteStrings [''n''] = Inr [''n'']"
  by (simp_all add: normalizeRouteStrings_def Let_def maxRouteValueBytes_def)

lemma inherit_pool [simp]: "pool_normalize (empty_pool\<lparr>gp_mode := ''inherit''\<rparr>) = Inr (empty_pool\<lparr>gp_mode := ''inherit''\<rparr>)"
proof -
  have "pool_Rule (empty_pool\<lparr>gp_mode := ''inherit''\<rparr>) = empty_rule"
    by (simp add: pool_Rule_def empty_pool_def empty_rule_def)
  then show ?thesis by (simp add: pool_normalize_def empty_rule_same) (simp add: empty_pool_def empty_rule_def)
qed

lemma lower_words [simp]: "ToLower ''m'' = ''m''" "ToLower ''n'' = ''n''"
  by (simp_all add: ToLower_def lower_byte_def is_upper_def)

lemma group_store_state: "s_state group_store = small_state\<lparr>st_grouped :=
     NewGroupState\<lparr>gs_groups := [(''d'', draft_group), (''g'', open_group)], gs_plans := [(''p'', group_plan)],
       gs_bindings := [(''ab'', \<lparr>kb_unclassified = 0, kb_scope = ''ab'', kb_revision = 1, kb_periods = [grouped_period]\<rparr>)]\<rparr>\<rparr>"
  by (simp add: group_store_def)

lemma group_store_wf: "state_wf (s_state group_store)"
  by (simp add: state_wf_def group_store_state small_state_def NewState_def wf_map_def grouped_wf_def keyed_def
      NewGroupState_def draft_group_def open_group_def group_plan_def)

lemma group_store_ok: "groups_ok (st_grouped (s_state group_store))"
proof -
  have "route_strings_ok [''m'']" "route_strings_ok [''n'']"
    using normalizeRouteStrings_ok model_words by blast+
  then show ?thesis
    by (auto simp: groups_ok_def group_store_state NewGroupState_def published_def draft_group_def open_group_def
        no_group_def has_model_def)
qed

lemma calm_positive: "1 \<le> env_clock calm i"
  by (simp add: calm_def time_of_unix_def)

lemma group_store_clock: "clock_after calm (st_grouped (s_state group_store))"
  using calm_positive by (auto simp: clock_after_def group_store_state NewGroupState_def draft_group_def open_group_def no_group_def)

lemma group_store_edit: "fn (s_state group_store) = Inr (v, ch, st) \<Longrightarrow> \<exists>s'. editConfiguration E fn group_store = (Inr v, s')"
  by (simp add: editConfiguration_def group_store_def new_store_def Let_def)

theorem CreateResourceGroup_ok_witness:
  "\<exists>g s'. CreateResourceGroup calm draft_group group_store = (Inr g, s') \<and> groups_ok (st_grouped (s_state s'))"
proof -
  have n: "normalizeGroup draft_group = Inr draft_group"
    by (simp add: normalizeGroup_def Let_def draft_group_def no_group_def)
  obtain gid where "freeID (rg_name draft_group) ''group'' (has_key (gs_groups (st_grouped (s_state group_store)))) = Some gid"
    using freeID_returns by blast
  then obtain v ch st where "create_group calm draft_group (s_state group_store) = Inr (v, ch, st)"
    by (simp add: create_group_def Let_def)
  from group_store_edit [of "create_group calm draft_group", OF this] obtain s' where
    "CreateResourceGroup calm draft_group group_store = (Inr v, s')" by (auto simp: CreateResourceGroup_def n)
  from CreateResourceGroup_ok [OF group_store_wf group_store_ok this] this show ?thesis by blast
qed

definition rename_patch :: GroupPatch where
  "rename_patch = \<lparr>gpt_group = ''g'', gpt_revision = 1, gpt_name = Some ''d'', gpt_description = None, gpt_enabled = None,
     gpt_models = None, gpt_pool = None, gpt_reason = ''ok''\<rparr>"

theorem UpdateResourceGroup_ok_witness:
  "\<exists>g s'. UpdateResourceGroup calm rename_patch group_store = (Inr g, s') \<and> rg_revision g = 2 \<and> rg_models g = [''n'']"
proof -
  have "normalizeGroup (patch_group rename_patch open_group) = Inr (patch_group rename_patch open_group)"
    by (simp add: normalizeGroup_def Let_def open_group_def draft_group_def no_group_def patch_group_def rename_patch_def option_or_def)
  then obtain v ch st where "update_group calm rename_patch (s_state group_store) = Inr (v, ch, st)"
    by (simp add: update_group_def group_store_state NewGroupState_def rename_patch_def groupRevision_def Let_def)
      (simp add: open_group_def draft_group_def no_group_def)
  from group_store_edit [of "update_group calm rename_patch", OF this] obtain s' where
    u: "UpdateResourceGroup calm rename_patch group_store = (Inr v, s')"
    by (auto simp: UpdateResourceGroup_def rename_patch_def)
  have "map_of (gs_groups (st_grouped (s_state group_store))) (gpt_group rename_patch) = Some open_group"
    by (simp add: group_store_state NewGroupState_def rename_patch_def)
  moreover have "published open_group" "rg_models open_group = [''n'']" "gpt_revision rename_patch = 1"
    by (simp_all add: published_def open_group_def draft_group_def no_group_def rename_patch_def)
  moreover note UpdateResourceGroup_ok [OF group_store_wf group_store_ok u]
  ultimately show ?thesis using u by (auto simp: wrap64_id in_int64_def)
qed

theorem PublishResourceGroup_ok_witness:
  "\<exists>g s'. PublishResourceGroup calm ''d'' 1 ''ok'' False group_store = (Inr g, s') \<and> rg_status g = ''published'' \<and>
     owners_unique (st_grouped (s_state s')) 5"
proof -
  have "owned_model calm (st_grouped (s_state group_store)) 0 [''m''] = None"
    by (simp add: modelOwner_def Let_def group_store_state NewGroupState_def groupModel_def owns_def draft_group_def
        open_group_def no_group_def)
  moreover have "rg_models draft_group = [''m'']" "rg_revision draft_group = 1" "rg_status draft_group = ''draft''"
    "map_of (gs_groups (st_grouped (s_state group_store))) ''d'' = Some draft_group"
    by (simp_all add: group_store_state NewGroupState_def draft_group_def no_group_def)
  ultimately obtain v ch st where "publish_group calm ''d'' 1 ''ok'' False (s_state group_store) = Inr (v, ch, st)"
    by (simp add: publish_group_def groupRevision_def Let_def)
  from group_store_edit [of "publish_group calm ''d'' 1 ''ok'' False", OF this] obtain s' where
    u: "PublishResourceGroup calm ''d'' 1 ''ok'' False group_store = (Inr v, s')" by (auto simp: PublishResourceGroup_def)
  have "map_of (gs_groups (st_grouped (s_state group_store))) ''d'' = Some draft_group"
    by (simp add: group_store_state NewGroupState_def)
  moreover have "rg_status draft_group = ''draft''" by (simp add: draft_group_def no_group_def)
  moreover note PublishResourceGroup_ok [OF group_store_wf group_store_ok group_store_clock u]
  ultimately show ?thesis using u by auto
qed

theorem SaveGroupPlan_ok_witness:
  "\<exists>p s'. SaveGroupPlan calm group_plan 1 ''ok'' group_store = (Inr p, s') \<and> gpl_policies p \<noteq> []"
proof -
  have "validateGroupPlan (s_state group_store) group_plan = Inr ()"
    by (simp add: validateGroupPlan_def group_plan_def group_store_state NewGroupState_def open_group_def draft_group_def
        no_group_def MaxConcurrencyLimit_def)
  moreover have "group_plan\<lparr>gpl_name := TrimSpace (gpl_name group_plan)\<rparr> = group_plan" by (simp add: group_plan_def)
  moreover have "gpl_id group_plan = ''p''" "gpl_revision group_plan = 1" by (simp_all add: group_plan_def)
  ultimately obtain v ch st where "save_plan calm group_plan 1 ''ok'' (s_state group_store) = Inr (v, ch, st)"
    by (simp add: save_plan_def Let_def group_store_state NewGroupState_def groupRevision_def)
  from group_store_edit [of "save_plan calm group_plan 1 ''ok''", OF this] obtain s' where
    u: "SaveGroupPlan calm group_plan 1 ''ok'' group_store = (Inr v, s')"
    by (auto simp: SaveGroupPlan_def group_plan_def)
  from SaveGroupPlan_ok [OF u] u show ?thesis by blast
qed

lemma group_store_live: "liveKey (s_state group_store) ''ab'' \<noteq> None"
  by (simp add: liveKey_def group_store_state small_state_def lookup_key_def bound_key_def new_key_def IsZero_def)


theorem ResetGroupDay_ok_witness:
  "\<exists>s' d. ResetGroupDay calm ''ab'' ''g'' ''ok'' group_store = (Inr (), s') \<and>
     map_of (gs_days (st_grouped (s_state s'))) (GroupDay_Key (new_day ''ab'' ''g'' (groupDate (env_clock calm 0)))) = Some d \<and>
     gd_cutoff d = Some (env_clock calm 0)"
proof -
  have g: "group_binding (st_grouped (s_state group_store)) ''ab'' (env_clock calm 0) = (grouped_period, True)"
    using calm_positive by (simp add: group_binding_def lookup_binding_def group_store_state grouped_period_def in_period_def)
  have "group_policy (st_grouped (s_state group_store)) ''p'' ''g'' \<noteq> None"
    by (simp add: group_policy_def group_store_state group_plan_def)
  then obtain ch st where "reset_day calm ''ab'' ''g'' ''ok'' (s_state group_store) = Inr ((), ch, st)"
    using g group_store_live by (auto simp: reset_day_def Let_def has_key_def group_store_state grouped_period_def)
  from group_store_edit [of "reset_day calm ''ab'' ''g'' ''ok''", OF this] obtain s' where
    u: "ResetGroupDay calm ''ab'' ''g'' ''ok'' group_store = (Inr (), s')" by (auto simp: ResetGroupDay_def)
  from ResetGroupDay_ok [OF u] u show ?thesis by blast
qed

end
