(* ===== verification/GroupAccount.thy ===== *)
theory GroupAccount
  imports GroupConfig
begin

text \<open>
  Admission and accounting of grouped keys: \<^verbatim>\<open>internal/billing/group_account.go\<close>. A grouped key is admitted to
  the resource group that owns the requested model, by the policy of its plan, the ledger of the Shanghai day and
  the free slots of the group; usage is booked on the ledger of the day the request started on. The parts are the
  gate of the policy and the ledger (\<open>group_gate\<close>), the slot (\<open>group_slot_gate\<close>), the booking (\<open>book_usage\<close>) and the
  view shown to the operator (\<open>GroupUsage\<close>).
\<close>

section \<open>Admission\<close>

record GroupDecision =
  gdn_handled :: bool
  gdn_allowed :: bool
  gdn_code :: string
  gdn_group :: string
  gdn_message :: string
  gdn_status :: int
  gdn_retry_at :: time

definition no_decision :: GroupDecision where
  "no_decision = \<lparr>gdn_handled = False, gdn_allowed = False, gdn_code = [], gdn_group = [], gdn_message = [],
     gdn_status = 0, gdn_retry_at = 0\<rparr>"

definition deny_group :: "GroupDecision \<Rightarrow> string \<Rightarrow> string \<Rightarrow> int \<Rightarrow> GroupDecision" where
  "deny_group d code message status = d\<lparr>gdn_code := code, gdn_message := message, gdn_status := status\<rparr>"

definition lookup_day :: "GroupState \<Rightarrow> string \<Rightarrow> string \<Rightarrow> time \<Rightarrow> GroupDay" where
  "lookup_day g scope gid t =
     option_or (map_of (gs_days g) (GroupDay_Key (new_day scope gid (groupDate t)))) (new_day [] [] [])"

definition asked_model :: "string \<Rightarrow> string \<Rightarrow> string" where
  "asked_model model requested = (if requested = [] then model else requested)"

text \<open>An absent limit is no limit.\<close>

definition at_limit :: "int option \<Rightarrow> int \<Rightarrow> bool" where
  "at_limit limit n \<longleftrightarrow> (case limit of None \<Rightarrow> False | Some l \<Rightarrow> n \<ge> l)"

lemma not_at_limit: "\<not> at_limit limit n \<longleftrightarrow> (\<forall>l. limit = Some l \<longrightarrow> n < l)"
  by (auto simp: at_limit_def split: option.splits)

text \<open>Pending writes are retried before new spending is considered; without a database they stay pending.\<close>

definition flush_pending :: "env \<Rightarrow> Store \<Rightarrow> Store option" where
  "flush_pending E s =
     (if changes_empty (s_dirty s) then Some s
      else case s_repo s of
             None \<Rightarrow> None
           | Some d \<Rightarrow>
               (case Save (env_refuses E) (s_state s) (s_dirty s) d of
                  Inl e \<Rightarrow> None
                | Inr d' \<Rightarrow> Some (s\<lparr>s_repo := Some d', s_dirty := no_changes\<rparr>)))"

text \<open>The amounts of a ledger entry are 64-bit numbers; the difference of the two may wrap around.\<close>

definition day_used :: "GroupDay \<Rightarrow> USD" where
  "day_used d = wrap64 (gd_raw d - gd_credit d)"

definition group_gate ::
  "GroupState \<Rightarrow> GroupBindingPeriod \<Rightarrow> time \<Rightarrow> string \<Rightarrow> string \<Rightarrow> GroupDecision + GroupDecision \<times> ResourceGroup \<times> GroupPolicy" where
  "group_gate g binding now scope requested =
     (let decision = no_decision\<lparr>gdn_handled := True, gdn_status := 403\<rparr>
      in case requestModelOwner g requested now of
           None \<Rightarrow> Inl (deny_group decision ''model_not_grouped'' ''the model belongs to no published group'' 403)
         | Some group' \<Rightarrow>
             let decision = decision\<lparr>gdn_group := rg_id group'\<rparr>
             in case bp_plan binding of
                  None \<Rightarrow> Inl (deny_group decision ''group_disabled'' ''the group plan is not available'' 403)
                | Some plan \<Rightarrow>
                    (case group_policy g plan (rg_id group') of
                       None \<Rightarrow> Inl (deny_group decision ''group_disabled'' ''the plan does not open this group'' 403)
                     | Some policy \<Rightarrow>
                         if \<not> pol_enabled policy \<or> \<not> rg_enabled group' \<or> rg_status group' \<noteq> ''published''
                         then Inl (deny_group decision ''group_disabled'' ''the plan does not open this group'' 403)
                         else
                           let d = lookup_day g scope (rg_id group') now
                           in if gd_error d \<noteq> []
                              then Inl (deny_group decision ''accounting_unavailable'' ''the ledger has an error'' 503)
                              else if at_limit (pol_daily_limit policy) (day_used d)
                              then Inl (deny_group (decision\<lparr>gdn_retry_at := nextGroupDay now\<rparr>) ''group_quota_exceeded''
                                     ''the daily amount of the group is used up'' 429)
                              else Inr (decision, group', policy)))"

definition group_slot_gate ::
  "string \<Rightarrow> string \<Rightarrow> GroupDecision \<Rightarrow> ResourceGroup \<Rightarrow> GroupPolicy \<Rightarrow> Store \<Rightarrow> GroupDecision \<times> Store" where
  "group_slot_gate scope requestID decision group' policy s =
     (let rid = TrimSpace requestID
      in if rid = [] then (deny_group decision ''accounting_unavailable'' ''the host sent no request identifier'' 503, s)
         else case map_of (s_group_slots s) rid of
           Some existing \<Rightarrow>
             if slot_scope existing \<noteq> scope \<or> slot_group existing \<noteq> rg_id group'
             then (deny_group decision ''accounting_unavailable'' ''a repeated request has another key or group'' 503, s)
             else (decision\<lparr>gdn_allowed := True\<rparr>, s)
         | None \<Rightarrow>
             if has_key (s_active_requests s) rid
             then (deny_group decision ''accounting_unavailable'' ''the request was admitted by key'' 503, s)
             else if at_limit (pol_concurrency_limit policy) (active_of (s_group_active s) (groupSlotKey scope (rg_id group')))
             then (deny_group decision ''group_concurrency_exceeded'' ''the slots of the group are taken'' 429, s)
             else (decision\<lparr>gdn_allowed := True, gdn_status := 200\<rparr>,
                   take_group_slot rid \<lparr>slot_scope = scope, slot_group = rg_id group'\<rparr> s))"

definition AdmitGroup ::
  "env \<Rightarrow> string \<Rightarrow> string \<Rightarrow> string \<Rightarrow> string \<Rightarrow> bool \<Rightarrow> Store \<Rightarrow> GroupDecision \<times> Store" where
  "AdmitGroup E scope requestID model requested generate s =
     (let now = env_clock E 0
      in case group_binding (st_grouped (s_state s)) scope now of (binding, grouped) \<Rightarrow>
           if \<not> grouped then (no_decision\<lparr>gdn_allowed := True\<rparr>, s)
           else case flush_pending E s of
                  None \<Rightarrow> (deny_group (no_decision\<lparr>gdn_handled := True, gdn_status := 403\<rparr>) ''accounting_unavailable''
                             ''the ledger is not saved yet'' 503, s)
                | Some s \<Rightarrow>
                    (case group_gate (st_grouped (s_state s)) binding now scope (asked_model model requested) of
                       Inl d \<Rightarrow> (d, s)
                     | Inr (decision, group', policy) \<Rightarrow>
                         if generate then group_slot_gate scope requestID decision group' policy s
                         else (decision\<lparr>gdn_allowed := True, gdn_status := 200\<rparr>, s)))"

text \<open>The pool a candidate of the scheduler must also pass, whether the key is grouped, and whether the group is open.\<close>

definition GroupCredentialPolicy :: "env \<Rightarrow> string \<Rightarrow> string \<Rightarrow> string \<Rightarrow> State \<Rightarrow> GroupPool \<times> bool \<times> bool" where
  "GroupCredentialPolicy E scope model requested st =
     (let now = env_clock E 0; g = st_grouped st
      in case group_binding g scope now of (b, grouped) \<Rightarrow>
           if \<not> grouped then (empty_pool, False, True)
           else case requestModelOwner g (asked_model model requested) now of
                  None \<Rightarrow> (empty_pool, True, False)
                | Some group' \<Rightarrow>
                    (case bp_plan b of
                       None \<Rightarrow> (empty_pool, True, False)
                     | Some plan \<Rightarrow>
                         (case group_policy g plan (rg_id group') of
                            None \<Rightarrow> (rg_pool group', True, False)
                          | Some p \<Rightarrow>
                              (rg_pool group', True, pol_enabled p \<and> rg_enabled group' \<and> rg_status group' = ''published''))))"

section \<open>Accounting\<close>

record UsageEvent =
  ue_scope :: string
  ue_key_preview :: string
  ue_auth_index :: string
  ue_provider :: string
  ue_executor :: string
  ue_auth_type :: string
  ue_account :: string
  ue_effort :: string
  ue_tier :: string
  ue_upstream :: string
  ue_route_model :: string
  ue_requested_at :: time
  ue_latency :: duration
  ue_ttft :: duration
  ue_breakdown :: TokenBreakdown
  ue_at :: time

text \<open>A counter goes up when it can; otherwise the entry counts one more incomplete record.\<close>

definition bump_requests :: "GroupDay \<Rightarrow> GroupDay" where
  "bump_requests d =
     (case addGroupCount (gd_requests d) 1 of
        Some n \<Rightarrow> d\<lparr>gd_requests := n\<rparr>
      | None \<Rightarrow> d\<lparr>gd_incomplete := wrap64 (gd_incomplete d + 1)\<rparr>)"

definition bump_tokens :: "TokenBreakdown \<Rightarrow> GroupDay \<Rightarrow> GroupDay" where
  "bump_tokens b d =
     (if \<not> Valid b then d
      else case addGroupCount (gd_tokens d) (tok_total b) of
             Some n \<Rightarrow> d\<lparr>gd_tokens := n\<rparr>
           | None \<Rightarrow> d\<lparr>gd_incomplete := wrap64 (gd_incomplete d + 1)\<rparr>)"

definition before_cutoff :: "time \<Rightarrow> GroupDay \<Rightarrow> bool" where
  "before_cutoff t d \<longleftrightarrow> (case gd_cutoff d of None \<Rightarrow> False | Some cutoff \<Rightarrow> t < cutoff)"

text \<open>
  Booking the amount: late usage from before a reset is credited as well. The result tells whether the amount was
  booked, and carries the reason when it was not.
\<close>

definition book_amount :: "time \<Rightarrow> USD \<Rightarrow> GroupDay \<Rightarrow> (string + USD) \<times> GroupDay" where
  "book_amount t amount d =
     (case addGroupCount (gd_raw d) amount of
        None \<Rightarrow> (Inl ''amount_overflow'', d\<lparr>gd_error := ''amount_overflow''\<rparr>)
      | Some raw \<Rightarrow>
          (case (if before_cutoff t d then addGroupCount (gd_credit d) amount else Some (gd_credit d)) of
             None \<Rightarrow> (Inl ''amount_overflow'', d\<lparr>gd_error := ''amount_overflow''\<rparr>)
           | Some credit \<Rightarrow> (Inr amount, d\<lparr>gd_raw := raw, gd_credit := credit\<rparr>)))"

definition book_usage :: "time \<Rightarrow> PriceSource \<Rightarrow> USD option \<Rightarrow> TokenBreakdown \<Rightarrow> GroupDay \<Rightarrow> (string + USD) \<times> GroupDay" where
  "book_usage t source amount b d =
     (case (case amount of
              None \<Rightarrow> (Inl ''amount_overflow'', d\<lparr>gd_error := ''amount_overflow''\<rparr>)
            | Some v \<Rightarrow>
                if source \<noteq> PriceSourceNone \<and> Billable b then book_amount t v d
                else (Inl ''usage_or_price_incomplete'', d)) of
        (booked, d) \<Rightarrow>
          (booked, bump_tokens b (bump_requests
             (case booked of Inl _ \<Rightarrow> d\<lparr>gd_incomplete := wrap64 (gd_incomplete d + 1)\<rparr> | Inr _ \<Rightarrow> d))))"

definition attribute :: "string \<Rightarrow> time \<Rightarrow> GroupAttribution" where
  "attribute model t = \<lparr>at_group = [], at_classification = ''unclassified'', at_pricing = ''unpriced'',
     at_model_key = groupModel model, at_published_at = None, at_date = groupDate t, at_cost = None, at_reason = []\<rparr>"

definition add_group_day :: "string \<Rightarrow> Changes \<Rightarrow> Changes" where
  "add_group_day key ch = ch\<lparr>ch_group_days := ch_group_days ch @ [key]\<rparr>"

definition accountGroupUsage ::
  "State \<Rightarrow> UsageEvent \<Rightarrow> RequestEvent \<Rightarrow> Changes \<Rightarrow> bool \<times> State \<times> RequestEvent \<times> Changes" where
  "accountGroupUsage st event entry ch =
     (let t = (if IsZero (ue_requested_at event) then re_at entry else ue_requested_at event);
          g = st_grouped st; scope = re_scope entry
      in case group_binding g scope t of (binding, grouped) \<Rightarrow>
           if \<not> grouped then (False, st, entry, ch)
           else
             let model = (if ue_route_model event = [] then ue_upstream event else ue_route_model event);
                 attr = attribute model t
             in case (if IsZero (ue_requested_at event) then None else requestModelOwner g model t) of
                  None \<Rightarrow>
                    let b = lookup_binding g scope
                    in (True, put_binding scope (b\<lparr>kb_unclassified := wrap64 (kb_unclassified b + 1)\<rparr>) st,
                        entry\<lparr>re_group := Some (attr\<lparr>at_reason := ''model_or_start_time_missing''\<rparr>)\<rparr>,
                        ch\<lparr>ch_grouped_config := True\<rparr>)
                | Some group' \<Rightarrow>
                    let attr = attr\<lparr>at_group := rg_id group', at_classification := ''grouped'',
                                     at_published_at := rg_published_at group'\<rparr>;
                        fresh = new_day scope (rg_id group') (groupDate t);
                        key = GroupDay_Key fresh;
                        d = option_or (map_of (gs_days g) key) fresh
                    in case book_usage t (re_price_source entry) (costUSD (cst_total (re_cost entry))) (ue_breakdown event) d of
                         (booked, d) \<Rightarrow>
                           (True, put_day key (d\<lparr>gd_updated_at := ue_at event\<rparr>) st,
                            entry\<lparr>re_group := Some (case booked of
                                Inr v \<Rightarrow> attr\<lparr>at_cost := Some v, at_pricing := ''priced''\<rparr>
                              | Inl reason \<Rightarrow> attr\<lparr>at_reason := reason\<rparr>)\<rparr>,
                            add_group_day key ch))"

section \<open>The view of the ledger\<close>

record GroupUsageView =
  guv_group :: string
  guv_name :: string
  guv_enabled :: bool
  guv_date :: string
  guv_daily_limit :: "USD option"
  guv_raw :: USD
  guv_credit :: USD
  guv_used :: USD
  guv_remaining :: "USD option"
  guv_overage :: USD
  guv_concurrency_limit :: "int option"
  guv_active :: int
  guv_requests :: int
  guv_tokens :: int
  guv_incomplete :: int
  guv_complete :: bool
  guv_next_reset :: time
  guv_cutoff :: "time option"
  guv_admission :: string

record GroupKeyUsage =
  guk_scope :: string
  guk_label :: string
  guk_stale :: bool
  guk_timezone :: string
  guk_plan :: "string option"
  guk_groups :: "GroupUsageView list"
  guk_unclassified :: int

text \<open>What the view says a request of the group would meet, in the order of the source.\<close>

definition shown_admission :: "bool \<Rightarrow> GroupDay \<Rightarrow> GroupUsageView \<Rightarrow> string" where
  "shown_admission pending d item =
     (if pending \<or> gd_error d \<noteq> [] then ''accounting_unavailable''
      else if \<not> guv_enabled item then ''group_disabled''
      else if at_limit (guv_daily_limit item) (guv_used item) then ''group_quota_exceeded''
      else if at_limit (guv_concurrency_limit item) (guv_active item)
      then ''group_concurrency_exceeded''
      else guv_admission item)"

definition usage_item :: "Store \<Rightarrow> time \<Rightarrow> string \<Rightarrow> string \<Rightarrow> ResourceGroup \<Rightarrow> GroupUsageView option" where
  "usage_item s now scope plan group' =
     (let g = st_grouped (s_state s);
          found = group_policy g plan (rg_id group');
          policy = option_or found no_policy;
          d = lookup_day g scope (rg_id group') now
      in if found = None \<and> gd_requests d = 0 then None
         else
           let used = day_used d;
               item = \<lparr>guv_group = rg_id group', guv_name = rg_name group',
                 guv_enabled = (found \<noteq> None \<and> pol_enabled policy \<and> rg_enabled group' \<and> rg_status group' = ''published''),
                 guv_date = groupDate now, guv_daily_limit = pol_daily_limit policy, guv_raw = gd_raw d,
                 guv_credit = gd_credit d, guv_used = used,
                 guv_remaining = map_option (\<lambda>limit. max 0 (wrap64 (limit - used))) (pol_daily_limit policy),
                 guv_overage = (case pol_daily_limit policy of None \<Rightarrow> 0 | Some limit \<Rightarrow> max 0 (wrap64 (used - limit))),
                 guv_concurrency_limit = pol_concurrency_limit policy,
                 guv_active = active_of (s_group_active s) (groupSlotKey scope (rg_id group')),
                 guv_requests = gd_requests d, guv_tokens = gd_tokens d, guv_incomplete = gd_incomplete d,
                 guv_complete = (gd_incomplete d = 0 \<and> kb_unclassified (lookup_binding g scope) = 0),
                 guv_next_reset = nextGroupDay now, guv_cutoff = gd_cutoff d, guv_admission = ''allowed''\<rparr>
           in Some (item\<lparr>guv_admission := shown_admission (\<not> changes_empty (s_dirty s)) d item\<rparr>))"

definition GroupUsage :: "env \<Rightarrow> string \<Rightarrow> Store \<Rightarrow> GroupKeyUsage" where
  "GroupUsage E scope s =
     (let now = env_clock E 0; g = st_grouped (s_state s);
          view = \<lparr>guk_scope = scope,
                  guk_label = (case lookup_key (s_state s) scope of None \<Rightarrow> [] | Some key \<Rightarrow> ks_label key),
                  guk_stale = False, guk_timezone = ''Asia/Shanghai'', guk_plan = None, guk_groups = [], guk_unclassified = 0\<rparr>
      in case group_binding g scope now of (b, grouped) \<Rightarrow>
           if \<not> grouped then view
           else case bp_plan b of
                  None \<Rightarrow> view
                | Some plan \<Rightarrow>
                    view\<lparr>guk_plan := Some plan, guk_unclassified := kb_unclassified (lookup_binding g scope),
                      guk_groups := sort_key guv_group
                        (List.map_filter (usage_item s now scope plan) (map snd (gs_groups g)))\<rparr>)"

section \<open>Lemmas\<close>

lemma in_map_filter: "y \<in> set (List.map_filter f xs) \<longleftrightarrow> (\<exists>x \<in> set xs. f x = Some y)"
  by (induction xs) (auto simp: map_filter_simps split: option.splits)

lemma flush_pending_Some:
  assumes "flush_pending E s = Some s'"
  shows "s_state s' = s_state s \<and> s_group_slots s' = s_group_slots s \<and> s_group_active s' = s_group_active s \<and>
    s_active_requests s' = s_active_requests s \<and> s_active_by_scope s' = s_active_by_scope s \<and>
    changes_empty (s_dirty s') \<and> (store_synced s \<longrightarrow> store_synced s')"
proof (cases "changes_empty (s_dirty s)")
  case True
  then show ?thesis using assms by (auto simp: flush_pending_def)
next
  case False
  then obtain d d' where d: "s_repo s = Some d" "Save (env_refuses E) (s_state s) (s_dirty s) d = Inr d'"
      "s' = s\<lparr>s_repo := Some d', s_dirty := no_changes\<rparr>"
    using assms by (auto simp: flush_pending_def split: option.splits sum.splits)
  have "store_synced s'" if "store_synced s"
  proof -
    have "in_sync covers in_memory on_disk (s_dirty s) (s_state s) d" "state_wf (s_state s)"
      using that d(1) by (auto simp: store_synced_def)
    from db.sync_clean [OF this d(2)] this show ?thesis by (simp add: d(3) store_synced_def)
  qed
  then show ?thesis by (simp add: d(3))
qed

text \<open>The group is open to the key: owned, in the plan, published and enabled, without a ledger error, below the limit.\<close>

definition group_open :: "GroupState \<Rightarrow> GroupBindingPeriod \<Rightarrow> time \<Rightarrow> string \<Rightarrow> string \<Rightarrow> ResourceGroup \<Rightarrow> GroupPolicy \<Rightarrow> bool" where
  "group_open g binding now scope requested group' policy \<longleftrightarrow>
     requestModelOwner g requested now = Some group' \<and>
     (\<exists>plan. bp_plan binding = Some plan \<and> group_policy g plan (rg_id group') = Some policy) \<and>
     pol_enabled policy \<and> rg_enabled group' \<and> rg_status group' = ''published'' \<and>
     gd_error (lookup_day g scope (rg_id group') now) = [] \<and>
     (\<forall>limit. pol_daily_limit policy = Some limit \<longrightarrow> day_used (lookup_day g scope (rg_id group') now) < limit)"

lemma group_gate_Inr:
  "group_gate g binding now scope requested = Inr (decision, group', policy) \<longleftrightarrow>
     group_open g binding now scope requested group' policy \<and>
     decision = no_decision\<lparr>gdn_handled := True, gdn_status := 403, gdn_group := rg_id group'\<rparr>"
  by (auto simp: group_gate_def group_open_def Let_def not_at_limit [symmetric] split: option.splits if_splits)

lemma group_gate_Inl: "group_gate g binding now scope requested = Inl d \<Longrightarrow> gdn_handled d \<and> \<not> gdn_allowed d"
  by (auto simp: group_gate_def deny_group_def no_decision_def Let_def split: option.splits if_splits)

lemma group_slot_gate_cases:
  assumes "group_slot_gate scope requestID decision group' policy s = (d, s')" "\<not> gdn_allowed decision"
  obtains (denied) "s' = s" "\<not> gdn_allowed d"
  | (repeated) "s' = s" "gdn_allowed d"
      "map_of (s_group_slots s) (TrimSpace requestID) = Some \<lparr>slot_scope = scope, slot_group = rg_id group'\<rparr>"
  | (taken) "gdn_allowed d" "s' = take_group_slot (TrimSpace requestID) \<lparr>slot_scope = scope, slot_group = rg_id group'\<rparr> s"
      "TrimSpace requestID \<noteq> []" "map_of (s_group_slots s) (TrimSpace requestID) = None"
      "map_of (s_active_requests s) (TrimSpace requestID) = None"
      "\<And>limit. pol_concurrency_limit policy = Some limit \<Longrightarrow>
         active_of (s_group_active s) (groupSlotKey scope (rg_id group')) < limit"
  using assms that
  by (auto simp: group_slot_gate_def Let_def deny_group_def has_key_def not_at_limit split: if_splits option.splits)

lemma group_slot_gate_handled:
  "group_slot_gate scope requestID decision group' policy s = (d, s') \<Longrightarrow> gdn_handled d = gdn_handled decision"
  by (auto simp: group_slot_gate_def Let_def deny_group_def split: if_splits option.splits)

lemma AdmitGroup_cases:
  assumes "AdmitGroup E scope requestID model requested generate s = (d, s')"
    "group_binding (st_grouped (s_state s)) scope (env_clock E 0) = (b, grouped)"
  obtains (legacy) "\<not> grouped" "s' = s" "\<not> gdn_handled d" "gdn_allowed d"
  | (unsaved) "grouped" "s' = s" "gdn_handled d" "\<not> gdn_allowed d" "\<not> changes_empty (s_dirty s)"
  | (refused) "grouped" "flush_pending E s = Some s'" "gdn_handled d" "\<not> gdn_allowed d"
      "group_gate (st_grouped (s_state s)) b (env_clock E 0) scope (asked_model model requested) = Inl d"
  | (looked) group' policy where "grouped" "flush_pending E s = Some s'" "\<not> generate" "gdn_handled d" "gdn_allowed d"
      "group_open (st_grouped (s_state s)) b (env_clock E 0) scope (asked_model model requested) group' policy"
  | (slot) decision group' policy s1 where "grouped" "flush_pending E s = Some s1" "generate" "gdn_handled d"
      "group_open (st_grouped (s_state s)) b (env_clock E 0) scope (asked_model model requested) group' policy"
      "decision = no_decision\<lparr>gdn_handled := True, gdn_status := 403, gdn_group := rg_id group'\<rparr>"
      "group_slot_gate scope requestID decision group' policy s1 = (d, s')"
proof (cases grouped)
  case False
  then show ?thesis using assms legacy by (auto simp: AdmitGroup_def no_decision_def)
next
  case grp: True
  show ?thesis
  proof (cases "flush_pending E s")
    case None
    then have "\<not> changes_empty (s_dirty s)" by (auto simp: flush_pending_def)
    then show ?thesis using assms grp None unsaved by (auto simp: AdmitGroup_def deny_group_def no_decision_def)
  next
    case (Some s1)
    then have st: "s_state s1 = s_state s" using flush_pending_Some by blast
    let ?req = "asked_model model requested"
    show ?thesis
    proof (cases "group_gate (st_grouped (s_state s)) b (env_clock E 0) scope ?req")
      case (Inl d')
      then show ?thesis using assms grp Some st group_gate_Inl [OF Inl] refused by (auto simp: AdmitGroup_def)
    next
      case (Inr r)
      obtain decision group' policy where r: "r = (decision, group', policy)" by (cases r)
      note o = Inr [unfolded r group_gate_Inr]
      show ?thesis
      proof (cases generate)
        case True
        then have "group_slot_gate scope requestID decision group' policy s1 = (d, s')"
          using assms grp Some st Inr r by (simp add: AdmitGroup_def)
        moreover from group_slot_gate_handled [OF this] o have "gdn_handled d" by simp
        ultimately show ?thesis using slot grp Some True o by blast
      next
        case False
        then have "d = decision\<lparr>gdn_allowed := True, gdn_status := 200\<rparr>" "s' = s1"
          using assms grp Some st Inr r by (simp_all add: AdmitGroup_def)
        then have "gdn_handled d" "gdn_allowed d" "flush_pending E s = Some s'" using o Some by simp_all
        then show ?thesis using looked grp False o by blast
      qed
    qed
  qed
qed

section \<open>Properties of admission\<close>


lemma usage_item_fields:
  assumes "usage_item s now scope plan group' = Some item"
  shows "guv_group item = rg_id group' \<and> guv_active item = active_of (s_group_active s) (groupSlotKey scope (rg_id group')) \<and>
    guv_used item = day_used (lookup_day (st_grouped (s_state s)) scope (rg_id group') now) \<and>
    guv_admission item = shown_admission (\<not> changes_empty (s_dirty s)) (lookup_day (st_grouped (s_state s)) scope (rg_id group') now)
       (item\<lparr>guv_admission := ''allowed''\<rparr>) \<and>
    guv_enabled item = (\<exists>policy. group_policy (st_grouped (s_state s)) plan (rg_id group') = Some policy \<and> pol_enabled policy \<and>
       rg_enabled group' \<and> rg_status group' = ''published'') \<and>
    (\<forall>policy. group_policy (st_grouped (s_state s)) plan (rg_id group') = Some policy \<longrightarrow>
       guv_daily_limit item = pol_daily_limit policy \<and> guv_concurrency_limit item = pol_concurrency_limit policy)"
  using assms
  by (cases "group_policy (st_grouped (s_state s)) plan (rg_id group')")
    (auto simp: usage_item_def Let_def option_or_def split: if_splits)

lemma GroupUsage_item:
  assumes "item \<in> set (guk_groups (GroupUsage E scope s))"
  obtains b plan group' where "group_binding (st_grouped (s_state s)) scope (env_clock E 0) = (b, True)"
    "bp_plan b = Some plan" "group' \<in> snd ` set (gs_groups (st_grouped (s_state s)))"
    "usage_item s (env_clock E 0) scope plan group' = Some item"
proof -
  obtain b grouped where b: "group_binding (st_grouped (s_state s)) scope (env_clock E 0) = (b, grouped)"
    by (cases "group_binding (st_grouped (s_state s)) scope (env_clock E 0)")
  then have g: "grouped" using assms by (auto simp: GroupUsage_def Let_def split: if_splits)
  then obtain plan where p: "bp_plan b = Some plan" using assms b by (auto simp: GroupUsage_def Let_def split: option.splits)
  have "item \<in> set (List.map_filter (usage_item s (env_clock E 0) scope plan) (map snd (gs_groups (st_grouped (s_state s)))))"
    using assms b g p by (simp add: GroupUsage_def Let_def)
  then obtain group' where "group' \<in> snd ` set (gs_groups (st_grouped (s_state s)))"
    "usage_item s (env_clock E 0) scope plan group' = Some item" unfolding in_map_filter by auto
  then show ?thesis using that b g p by simp
qed

lemma keyed_same: "keyed f m \<Longrightarrow> a \<in> snd ` set m \<Longrightarrow> b \<in> snd ` set m \<Longrightarrow> f a = f b \<Longrightarrow> a = b"
proof -
  assume k: "keyed f m" "a \<in> snd ` set m" "b \<in> snd ` set m" "f a = f b"
  obtain i j where ij: "(i, a) \<in> set m" "(j, b) \<in> set m" using k(2,3) by (metis imageE prod.collapse)
  with k(1) have "map_of m i = Some a" "map_of m j = Some b" by (simp_all add: keyed_def wf_map_mem_iff)
  then show "a = b" using keyedD [OF k(1)] k(4) by (metis option.inject)
qed


section \<open>Properties of accounting\<close>

text \<open>A ledger entry never credits more than was spent, and its counters are 64-bit numbers.\<close>

definition day_ok :: "GroupDay \<Rightarrow> bool" where
  "day_ok d \<longleftrightarrow> 0 \<le> gd_credit d \<and> gd_credit d \<le> gd_raw d \<and> gd_raw d \<le> max_int64 \<and>
     0 \<le> gd_requests d \<and> gd_requests d \<le> max_int64 \<and> 0 \<le> gd_tokens d \<and> gd_tokens d \<le> max_int64"

definition ledger_ok :: "GroupState \<Rightarrow> bool" where
  "ledger_ok g \<longleftrightarrow> wf_map (gs_days g) \<and> (\<forall>k d. map_of (gs_days g) k = Some d \<longrightarrow> day_ok d)"

lemma new_day_ok [simp]: "day_ok (new_day scope gid date)"
  by (simp add: day_ok_def new_day_def)

lemma day_used_ok: "day_ok d \<Longrightarrow> day_used d = gd_raw d - gd_credit d \<and> 0 \<le> day_used d"
  by (simp add: day_ok_def day_used_def wrap64_id in_int64_def)

text \<open>What booking keeps of an entry: everything but the amounts and the counters.\<close>

definition same_entry :: "GroupDay \<Rightarrow> GroupDay \<Rightarrow> bool" where
  "same_entry d d' \<longleftrightarrow> gd_scope d' = gd_scope d \<and> gd_group d' = gd_group d \<and> gd_date d' = gd_date d \<and> gd_cutoff d' = gd_cutoff d"

lemma bumps:
  "same_entry d (bump_requests d)" "same_entry d (bump_tokens b d)"
  "gd_raw (bump_requests d) = gd_raw d" "gd_credit (bump_requests d) = gd_credit d"
  "gd_raw (bump_tokens b d) = gd_raw d" "gd_credit (bump_tokens b d) = gd_credit d"
  "day_ok d \<Longrightarrow> day_ok (bump_requests d)" "day_ok d \<Longrightarrow> day_ok (bump_tokens b d)"
  by (auto simp: bump_requests_def bump_tokens_def same_entry_def day_ok_def addGroupCount_Some split: option.splits)

lemma book_amount_ok:
  assumes "day_ok d" "book_amount t v d = (r, d')"
  shows "day_ok d' \<and> same_entry d d' \<and>
    (case r of
       Inr w \<Rightarrow> w = v \<and> gd_raw d' = gd_raw d + v \<and> gd_credit d' = gd_credit d + (if before_cutoff t d then v else 0)
     | Inl reason \<Rightarrow> gd_raw d' = gd_raw d \<and> gd_credit d' = gd_credit d \<and> gd_error d' = ''amount_overflow'')"
  using assms
  by (auto simp: book_amount_def day_ok_def same_entry_def addGroupCount_Some split: option.splits if_splits)

lemma book_usage_ok:
  assumes "day_ok d" "book_usage t source amount b d = (r, d')"
  shows "day_ok d' \<and> same_entry d d' \<and>
    (case r of
       Inr v \<Rightarrow> amount = Some v \<and> gd_raw d' = gd_raw d + v \<and> gd_credit d' = gd_credit d + (if before_cutoff t d then v else 0)
     | Inl reason \<Rightarrow> gd_raw d' = gd_raw d \<and> gd_credit d' = gd_credit d)"
proof -
  define step where "step = (case amount of
      None \<Rightarrow> (Inl ''amount_overflow'', d\<lparr>gd_error := ''amount_overflow''\<rparr>)
    | Some v \<Rightarrow> if source \<noteq> PriceSourceNone \<and> Billable b then book_amount t v d else (Inl ''usage_or_price_incomplete'', d))"
  obtain d1 where d1: "step = (r, d1)"
    and d': "d' = bump_tokens b (bump_requests (case r of Inl _ \<Rightarrow> d1\<lparr>gd_incomplete := wrap64 (gd_incomplete d1 + 1)\<rparr> | Inr _ \<Rightarrow> d1))"
    using assms(2) by (auto simp: book_usage_def step_def [symmetric] split: prod.splits)
  have m: "day_ok d1 \<and> same_entry d d1 \<and>
    (case r of
       Inr v \<Rightarrow> amount = Some v \<and> gd_raw d1 = gd_raw d + v \<and> gd_credit d1 = gd_credit d + (if before_cutoff t d then v else 0)
     | Inl reason \<Rightarrow> gd_raw d1 = gd_raw d \<and> gd_credit d1 = gd_credit d)"
  proof (cases amount)
    case None
    then show ?thesis using d1 assms(1) by (auto simp: step_def day_ok_def same_entry_def)
  next
    case (Some v)
    show ?thesis
    proof (cases "source \<noteq> PriceSourceNone \<and> Billable b")
      case True
      then have "book_amount t v d = (r, d1)" using d1 Some by (simp add: step_def)
      from book_amount_ok [OF assms(1) this] Some show ?thesis by (cases r) auto
    next
      case False
      then have "r = Inl ''usage_or_price_incomplete''" "d1 = d" using d1 Some by (auto simp: step_def)
      then show ?thesis using assms(1) by (simp add: same_entry_def)
    qed
  qed
  define d2 where "d2 = (case r of Inl _ \<Rightarrow> d1\<lparr>gd_incomplete := wrap64 (gd_incomplete d1 + 1)\<rparr> | Inr _ \<Rightarrow> d1)"
  have "day_ok d2 \<and> same_entry d1 d2 \<and> gd_raw d2 = gd_raw d1 \<and> gd_credit d2 = gd_credit d1"
    using m by (cases r) (auto simp: d2_def day_ok_def same_entry_def)
  moreover have "same_entry d2 d'" "gd_raw d' = gd_raw d2" "gd_credit d' = gd_credit d2" "day_ok d2 \<Longrightarrow> day_ok d'"
    unfolding d' d2_def [symmetric] using bumps by (auto simp: same_entry_def)
  ultimately show ?thesis using m by (cases r) (auto simp: same_entry_def)
qed

lemma accountGroupUsage_cases:
  assumes "accountGroupUsage st event entry ch = (True, st', entry', ch')"
  obtains (unclassified) b attr where
      "st' = put_binding (re_scope entry) (b\<lparr>kb_unclassified := wrap64 (kb_unclassified b + 1)\<rparr>) st"
      "b = lookup_binding (st_grouped st) (re_scope entry)" "map_of (gs_bindings (st_grouped st)) (re_scope entry) \<noteq> None"
      "ch' = ch\<lparr>ch_grouped_config := True\<rparr>" "re_group entry' = Some attr" "at_classification attr = ''unclassified''"
  | (booked) t group' fresh key r d attr where
      "requestModelOwner (st_grouped st) (if ue_route_model event = [] then ue_upstream event else ue_route_model event) t = Some group'"
      "t = ue_requested_at event" "\<not> IsZero t"
      "fresh = new_day (re_scope entry) (rg_id group') (groupDate t)" "key = GroupDay_Key fresh"
      "book_usage t (re_price_source entry) (costUSD (cst_total (re_cost entry))) (ue_breakdown event)
         (option_or (map_of (gs_days (st_grouped st)) key) fresh) = (r, d)"
      "st' = put_day key (d\<lparr>gd_updated_at := ue_at event\<rparr>) st" "ch' = add_group_day key ch"
      "re_group entry' = Some attr" "at_classification attr = ''grouped''" "at_group attr = rg_id group'"
      "at_date attr = groupDate t" "at_cost attr = (case r of Inr v \<Rightarrow> Some v | Inl _ \<Rightarrow> None)"
proof -
  define t where "t = (if IsZero (ue_requested_at event) then re_at entry else ue_requested_at event)"
  define model where "model = (if ue_route_model event = [] then ue_upstream event else ue_route_model event)"
  obtain b where g: "group_binding (st_grouped st) (re_scope entry) t = (b, True)"
    using assms by (auto simp: accountGroupUsage_def Let_def t_def split: prod.splits if_splits)
  then have "map_of (gs_bindings (st_grouped st)) (re_scope entry) \<noteq> None"
    by (auto simp: group_binding_def lookup_binding_def no_binding_def split: option.splits)
  show ?thesis
  proof (cases "if IsZero (ue_requested_at event) then None else requestModelOwner (st_grouped st) model t")
    case None
    show ?thesis
      by (rule unclassified [of _ "(attribute model t)\<lparr>at_reason := ''model_or_start_time_missing''\<rparr>"])
        (use assms g None in \<open>auto simp: accountGroupUsage_def Let_def attribute_def t_def [symmetric] model_def [symmetric] group_binding_def
          lookup_binding_def no_binding_def split: option.splits\<close>)
  next
    case (Some group')
    then have t: "t = ue_requested_at event" "\<not> IsZero t" "requestModelOwner (st_grouped st) model t = Some group'"
      by (auto simp: t_def split: if_splits)
    let ?fresh = "new_day (re_scope entry) (rg_id group') (groupDate t)"
    obtain r d where rd: "book_usage t (re_price_source entry) (costUSD (cst_total (re_cost entry))) (ue_breakdown event)
         (option_or (map_of (gs_days (st_grouped st)) (GroupDay_Key ?fresh)) ?fresh) = (r, d)"
      by (cases "book_usage t (re_price_source entry) (costUSD (cst_total (re_cost entry))) (ue_breakdown event)
         (option_or (map_of (gs_days (st_grouped st)) (GroupDay_Key ?fresh)) ?fresh)")
    let ?attr = "(attribute model t)\<lparr>at_group := rg_id group', at_classification := ''grouped'', at_published_at := rg_published_at group'\<rparr>"
    have "st' = put_day (GroupDay_Key ?fresh) (d\<lparr>gd_updated_at := ue_at event\<rparr>) st" "ch' = add_group_day (GroupDay_Key ?fresh) ch"
      "re_group entry' = Some (case r of Inr v \<Rightarrow> ?attr\<lparr>at_cost := Some v, at_pricing := ''priced''\<rparr> | Inl reason \<Rightarrow> ?attr\<lparr>at_reason := reason\<rparr>)"
      using assms g Some rd
      by (auto simp: accountGroupUsage_def Let_def t_def [symmetric] model_def [symmetric])
    then show ?thesis
      using booked [OF t(3) [unfolded model_def] t(1,2) refl refl rd]
      by (cases r) (simp_all add: attribute_def)
  qed
qed

lemma accountGroupUsage_False:
  "accountGroupUsage st event entry ch = (False, st', entry', ch') \<Longrightarrow> st' = st \<and> entry' = entry \<and> ch' = ch"
  by (auto simp: accountGroupUsage_def Let_def split: prod.splits option.splits if_splits)

lemma accountGroupUsage_ledger:
  assumes "ledger_ok (st_grouped st)" "accountGroupUsage st event entry ch = (g, st', entry', ch')"
  shows "ledger_ok (st_grouped st')"
proof (cases g)
  case False
  then show ?thesis using assms accountGroupUsage_False by metis
next
  case True
  with assms(2) have "accountGroupUsage st event entry ch = (True, st', entry', ch')" by simp
  then show ?thesis
  proof (cases rule: accountGroupUsage_cases)
    case (unclassified b attr)
    then show ?thesis using assms(1) by (simp add: ledger_ok_def put_binding_def)
  next
    case (booked t group' fresh key r d attr)
    have "day_ok (option_or (map_of (gs_days (st_grouped st)) key) fresh)"
      using assms(1) booked(4) by (auto simp: ledger_ok_def option_or_def split: option.splits)
    from book_usage_ok [OF this booked(6)] have "day_ok (d\<lparr>gd_updated_at := ue_at event\<rparr>)" by (simp add: day_ok_def)
    then show ?thesis using assms(1) booked(7) by (auto simp: ledger_ok_def put_day_def)
  qed
qed


text \<open>Booking is a sound step: it names the entry or the binding it changes, and keeps the keys of the maps.\<close>

lemma accountGroupUsage_sound:
  assumes "accountGroupUsage st event entry ch = (g, st', entry', ch')" "state_wf st"
  shows "sound_step st st' ch' \<and> st_keys st' = st_keys st \<and> st_plans st' = st_plans st"
proof (cases g)
  case False
  then have "accountGroupUsage st event entry ch = (False, st', entry', ch')" using assms(1) by simp
  from accountGroupUsage_False [OF this] show ?thesis by simp
next
  case True
  then have "accountGroupUsage st event entry ch = (True, st', entry', ch')" using assms(1) by simp
  then show ?thesis
  proof (cases rule: accountGroupUsage_cases)
    case (unclassified b attr)
    have "kb_scope b = re_scope entry"
      using unclassified(2,3) assms(2) keyedD [of kb_scope "gs_bindings (st_grouped st)"]
      by (auto simp: lookup_binding_def state_wf_def grouped_wf_def split: option.splits)
    then have "sound_step st st' ch'" unfolding unclassified(1) by (intro put_binding_sound) (simp_all add: unclassified(4))
    then show ?thesis by (simp add: unclassified(1) put_binding_def)
  next
    case (booked t group' fresh key r d attr)
    let ?old = "option_or (map_of (gs_days (st_grouped st)) key) fresh"
    have "GroupDay_Key ?old = key"
      using booked(5) assms(2) keyedD [of GroupDay_Key "gs_days (st_grouped st)"]
      by (auto simp: option_or_def state_wf_def grouped_wf_def split: option.splits)
    moreover have "same_entry ?old d"
      using booked(6) by (auto simp: book_usage_def book_amount_def same_entry_def bump_requests_def bump_tokens_def
          split: prod.splits option.splits sum.splits if_splits)
    ultimately have "GroupDay_Key (d\<lparr>gd_updated_at := ue_at event\<rparr>) = key" by (simp add: same_entry_def GroupDay_Key_def)
    then have "sound_step st st' ch'"
      unfolding booked(7) by (intro put_day_sound) (simp_all add: booked(8) add_group_day_def)
    then show ?thesis by (simp add: booked(7) put_day_def)
  qed
qed

section \<open>Examples\<close>

lemma group_store_binding: "group_binding (st_grouped (s_state group_store)) ''ab'' (env_clock calm 0) = (grouped_period, True)"
  using calm_positive by (simp add: group_binding_def lookup_binding_def group_store_state grouped_period_def in_period_def)

lemma group_store_owner: "requestModelOwner (st_grouped (s_state group_store)) ''n'' (env_clock calm 0) = Some open_group"
  using calm_positive
  by (simp add: requestModelOwner_def modelOwner_def Let_def group_store_state NewGroupState_def groupModel_def owns_def
      open_group_def draft_group_def no_group_def)

definition open_policy :: GroupPolicy where
  "open_policy = \<lparr>pol_group = ''g'', pol_enabled = True, pol_daily_limit = Some 1000000000, pol_concurrency_limit = Some 1\<rparr>"

lemma group_store_policy: "group_policy (st_grouped (s_state group_store)) ''p'' ''g'' = Some open_policy"
  by (simp add: group_policy_def group_store_state group_plan_def open_policy_def)

lemma open_group_fields [simp]: "rg_id open_group = ''g''" "rg_enabled open_group" "rg_status open_group = ''published''"
  by (simp_all add: open_group_def draft_group_def no_group_def)

lemma group_store_day: "lookup_day (st_grouped (s_state group_store)) ''ab'' ''g'' t = new_day [] [] []"
  by (simp add: lookup_day_def group_store_state NewGroupState_def)

lemma group_store_rest [simp]: "s_dirty group_store = no_changes" "s_group_slots group_store = []" "s_group_active group_store = []"
  "s_active_requests group_store = []" "s_repo group_store = None"
  by (simp_all add: group_store_def new_store_def)

lemma group_store_good: "store_synced group_store" "slots_ok group_store"
  using group_store_wf by (simp_all add: store_synced_def slots_ok_def group_store_def new_store_def)

lemma group_store_open:
  "group_gate (st_grouped (s_state group_store)) grouped_period (env_clock calm 0) ''ab'' ''n'' =
     Inr (no_decision\<lparr>gdn_handled := True, gdn_status := 403, gdn_group := ''g''\<rparr>, open_group, open_policy)"
  unfolding group_gate_Inr group_open_def
  using group_store_owner group_store_policy group_store_day
  by (simp add: grouped_period_def open_policy_def day_used_def new_day_def)

definition taken_store :: Store where
  "taken_store = take_group_slot ''r'' \<lparr>slot_scope = ''ab'', slot_group = ''g''\<rparr> group_store"

lemma group_store_admits:
  "AdmitGroup calm ''ab'' ''r'' ''n'' [] True group_store =
     (no_decision\<lparr>gdn_handled := True, gdn_status := 200, gdn_group := ''g'', gdn_allowed := True\<rparr>, taken_store)"
  by (simp add: AdmitGroup_def group_store_binding flush_pending_def asked_model_def group_store_open group_slot_gate_def Let_def
      has_key_def open_policy_def at_limit_def active_of_def taken_store_def)



definition sample_usage :: UsageEvent where
  "sample_usage = \<lparr>ue_scope = ''ab'', ue_key_preview = ''sk'', ue_auth_index = [], ue_provider = [], ue_executor = [],
     ue_auth_type = [], ue_account = [], ue_effort = [], ue_tier = [], ue_upstream = ''n'', ue_route_model = ''n'',
     ue_requested_at = env_clock calm 0, ue_latency = 0, ue_ttft = 0,
     ue_breakdown = \<lparr>tok_quality = TokenAccountingComplete, tok_total = 10,
       tok_input = \<lparr>tin_total = 10, tin_uncached = 10, tin_cache_read = 0, tin_cache_write = 0\<rparr>,
       tok_output = \<lparr>tout_total = 0, tout_non_reasoning = 0, tout_reasoning = 0\<rparr>, tok_unclassified = 0\<rparr>,
     ue_at = env_clock calm 0\<rparr>"

definition sample_entry :: RequestEvent where
  "sample_entry = \<lparr>re_group = None, re_at = env_clock calm 0, re_scope = ''ab'', re_auth_index = [], re_provider = [],
     re_account = [], re_executor = [], re_effort = [], re_tier = [], re_upstream = ''n'', re_billing_model = ''n'',
     re_failed = False, re_latency_ms = 0, re_ttft_ms = 0, re_quality = TokenAccountingComplete,
     re_price_source = PriceSourceCustom, re_cost = zero_cost\<lparr>cst_total := Fin (1 / 2)\<rparr>, re_reasoning = 0\<rparr>"

lemma sample_grouped: "fst (accountGroupUsage (s_state group_store) sample_usage sample_entry no_changes)"
  by (auto simp: accountGroupUsage_def Let_def sample_usage_def sample_entry_def group_store_binding split: prod.splits option.splits)


end
