(* ===== verification/Admission.thy ===== *)
theory Admission
  imports Concurrency
begin

text \<open>
  Admission by quota: \<^verbatim>\<open>internal/billing/enforce.go\<close> and the reporting of exhausted keys in
  \<^verbatim>\<open>admission_logs.go\<close>. Authorizing settles expired cycles, refuses when a window of the plan is used up,
  and opens the missing cycles otherwise. A log message keeps the key, the endpoint and the plan; the amounts and
  instants it also prints are left out.
\<close>

section \<open>Operations\<close>

record Decision =
  dec_allowed :: bool
  dec_plan_id :: string
  dec_plan_name :: string
  dec_view :: QuotaView

definition no_view :: QuotaView where
  "no_view = \<lparr>qv_unlimited = False, qv_blocked = False, qv_retry_at = 0, qv_windows = []\<rparr>"

definition allowed_decision :: Decision where
  "allowed_decision = \<lparr>dec_allowed = True, dec_plan_id = [], dec_plan_name = [], dec_view = no_view\<rparr>"

definition authorize_state :: "string \<Rightarrow> time \<Rightarrow> State \<Rightarrow> Decision \<times> Changes \<times> State" where
  "authorize_state scope instant st =
     (case lookup_key st scope of
        None \<Rightarrow> (allowed_decision, no_changes, st)
      | Some key \<Rightarrow>
          if ks_plan key = [] then (allowed_decision, no_changes, st)
          else
            let touched = no_changes\<lparr>ch_keys := [scope]\<rparr>
            in case FindPlan (st_plans st) (ks_plan key) of
                 None \<Rightarrow> (allowed_decision, touched, put_key scope (key\<lparr>ks_plan := [], ks_cycles := []\<rparr>) st)
               | Some plan \<Rightarrow>
                   (case settleExpiredCycles key instant of (settled, key1) \<Rightarrow>
                      let view1 = quotaView key1 plan instant;
                          (activated, key2) = (if \<not> qv_blocked view1 then activateCycles key1 plan instant else (False, key1));
                          changed = (if settled \<or> activated then touched else no_changes);
                          view = (if activated then quotaView key2 plan instant else view1)
                      in (\<lparr>dec_allowed = (\<not> qv_blocked view), dec_plan_id = pln_id plan, dec_plan_name = pln_name plan,
                           dec_view = view\<rparr>, changed, put_key scope key2 st)))"

definition Authorize :: "env \<Rightarrow> string \<Rightarrow> time \<Rightarrow> Store \<Rightarrow> Decision \<times> Store" where
  "Authorize E scope0 instant0 s =
     (let scope = TrimSpace scope0
      in if scope = [] then (allowed_decision, s)
         else
           let instant = (if IsZero instant0 then env_clock E 0 else instant0);
               (decision, s) = updateResult E (authorize_state scope instant) s
           in (decision, if dec_allowed decision then s\<lparr>s_blocked := blocked_clear (s_blocked s) scope\<rparr> else s))"

definition blockSignature :: "Decision \<Rightarrow> signature" where
  "blockSignature d =
     (dec_plan_id d,
      map (\<lambda>w. (qwv_id w, qwv_start w, map qb_metric (filter qb_blocked (qwv_dimensions w))))
        (filter qwv_blocked (qv_windows (dec_view d))))"

definition planName :: "Decision \<Rightarrow> string" where
  "planName d = (let n = TrimSpace (dec_plan_name d) in if n \<noteq> [] then n else TrimSpace (dec_plan_id d))"

definition block_message :: "string \<Rightarrow> string \<Rightarrow> Decision \<Rightarrow> string" where
  "block_message name endpoint d =
     ''quota block: '' @ name @ (if TrimSpace endpoint = [] then [] else '' to '' @ TrimSpace endpoint) @
     (if planName d = [] then [] else '', plan '' @ planName d)"

definition ReportQuotaBlock :: "string \<Rightarrow> string \<Rightarrow> Decision \<Rightarrow> Store \<Rightarrow> Store" where
  "ReportQuotaBlock scope0 endpoint d s =
     (let scope = TrimSpace scope0
      in if dec_allowed d \<or> scope = [] then s
         else case blocked_onset (s_blocked s) scope (blockSignature d) of (onset, b) \<Rightarrow>
           let s = s\<lparr>s_blocked := b\<rparr>
           in if \<not> onset then s
              else AddPluginLog PluginLogInfo (block_message (describeKey (s_state s) scope) endpoint d) s)"

section \<open>Lemmas\<close>

text \<open>The cycle a window currently runs on, when it has one.\<close>

definition live_cycle :: "KeyState \<Rightarrow> time \<Rightarrow> QuotaWindow \<Rightarrow> QuotaCycle option" where
  "live_cycle key now w =
     (case map_of (ks_cycles key) (win_id w) of
        None \<Rightarrow> None
      | Some c \<Rightarrow> if now < cyc_end c then Some c else None)"

definition exhausted :: "KeyState \<Rightarrow> time \<Rightarrow> QuotaWindow \<Rightarrow> bool" where
  "exhausted key now w \<longleftrightarrow> (\<exists>c. live_cycle key now w = Some c \<and> window_exhausted w c)"

lemma settle_lookup:
  assumes "settleExpiredCycles key now = (b, key1)" "wf_map (ks_cycles key)"
  shows "map_of (ks_cycles key1) k = (case map_of (ks_cycles key) k of None \<Rightarrow> None
      | Some c \<Rightarrow> if now < cyc_end c then Some c else None)"
    "ks_plan key1 = ks_plan key" "wf_map (ks_cycles key1)"
    "ValidateCycles key plan = Inr () \<Longrightarrow> ValidateCycles key1 plan = Inr ()"
proof -
  have k: "key1 = key\<lparr>ks_cycles := filter (\<lambda>(k, c). \<not> now \<ge> cyc_end c) (ks_cycles key)\<rparr>"
    using assms(1) by (simp add: settleExpiredCycles_def Let_def)
  show "map_of (ks_cycles key1) k = (case map_of (ks_cycles key) k of None \<Rightarrow> None
      | Some c \<Rightarrow> if now < cyc_end c then Some c else None)"
    using map_of_filter_wf [OF assms(2), of "\<lambda>k c. \<not> now \<ge> cyc_end c" k] by (simp add: k not_le cong: option.case_cong)
  show "ks_plan key1 = ks_plan key" "wf_map (ks_cycles key1)" using assms(2) by (simp_all add: k)
  have "cycle_invalid key1 = cycle_invalid key"
    by (intro ext) (simp add: k cycle_invalid_def cong: option.case_cong)
  then show "ValidateCycles key plan = Inr () \<Longrightarrow> ValidateCycles key1 plan = Inr ()"
    by (auto simp: ValidateCycles_iff k)
qed

lemma fresh_not_exhausted:
  "cyc_spent c = Fin 0 \<Longrightarrow> cyc_tokens c = 0 \<Longrightarrow> cyc_requests c = 0 \<Longrightarrow> \<not> window_exhausted w c"
  by (cases "win_amount w") (auto simp: window_exhausted_def fle_def feq_def)

lemma valid_start:
  "ValidateCycles key plan = Inr () \<Longrightarrow> map_of (ks_cycles key) k = Some c \<Longrightarrow> \<not> IsZero (cyc_start c)"
  by (auto simp: ValidateCycles_iff cycle_invalid_def dest!: map_of_SomeD split: option.splits)

definition all_live :: "KeyState \<Rightarrow> time \<Rightarrow> bool" where
  "all_live key now \<longleftrightarrow> (\<forall>k c. map_of (ks_cycles key) k = Some c \<longrightarrow> now < cyc_end c)"

text \<open>A view is blocked exactly by the used-up windows, when expired cycles have been settled.\<close>

lemma view_blocked_iff:
  assumes "plan_ok plan" "ValidateCycles key plan = Inr ()"
    "all_live key now"
  shows "qv_blocked (quotaView key plan now) \<longleftrightarrow> (\<exists>w \<in> set (pln_windows plan). exhausted key now w)"
proof -
  have "qwv_blocked (window_view w (current_cycle key plan now w)) \<longleftrightarrow> exhausted key now w"
    if w: "w \<in> set (pln_windows plan)" for w
  proof -
    have p: "\<not> invalidPrice (win_amount w)" using plan_okD(5) [OF assms(1) w] by (simp add: window_ok_def)
    show ?thesis
    proof (cases "map_of (ks_cycles key) (win_id w)")
      case None
      then have "\<not> window_exhausted w (current_cycle key plan now w)"
        by (intro fresh_not_exhausted) (simp_all add: current_cycle_def Let_def no_cycle_def)
      then show ?thesis using None by (simp add: qwv_blocked_iff [OF p] exhausted_def live_cycle_def)
    next
      case (Some c)
      then have "current_cycle key plan now w = c" "now < cyc_end c"
        using valid_start [OF assms(2) Some] assms(3) Some by (simp_all add: current_cycle_def Let_def all_live_def)
      then show ?thesis using Some by (simp add: qwv_blocked_iff [OF p] exhausted_def live_cycle_def)
    qed
  qed
  then show ?thesis by (simp add: quotaView_blocked)
qed

lemma activate_lookup:
  assumes "activateCycles key plan now = (b, key')" "plan_ok plan" "now_ok now"
    "all_live key now"
  shows "\<And>w. w \<in> set (pln_windows plan) \<Longrightarrow> \<exists>c. map_of (ks_cycles key') (win_id w) = Some c \<and> now < cyc_end c"
    "\<And>w. w \<in> set (pln_windows plan) \<Longrightarrow> exhausted key' now w \<longleftrightarrow> exhausted key now w"
    "all_live key' now" "\<not> b \<Longrightarrow> key' = key"
proof -
  obtain m where f: "foldl (activate_window (pln_id plan) now) (False, ks_cycles key) (pln_windows plan) = (b, m)"
    and k: "key' = key\<lparr>ks_cycles := m\<rparr>"
    using assms(1) by (auto simp: activateCycles_def split: prod.splits)
  note a = activate_fold [OF f]
  have new: "now < cyc_end (newCycle w (pln_id plan) now)" if "w \<in> set (pln_windows plan)" for w
    by (rule newCycle_spans(2)) (use that assms plan_okD(5) clock_ok_window in \<open>auto simp: now_ok_def\<close>)
  have live: "now < cyc_end c" "map_of (ks_cycles key) k = Some c \<or>
      (map_of (ks_cycles key) k = None \<and> (\<exists>w \<in> set (pln_windows plan). c = newCycle w (pln_id plan) now))"
    if "map_of m k = Some c" for k c
  proof -
    have old: "map_of (ks_cycles key) k = Some c" if "has_key (ks_cycles key) k"
      using a(2) [OF that] \<open>map_of m k = Some c\<close> by simp
    have "(k, c) \<in> set m" using that by (rule map_of_SomeD)
    then have "(k, c) \<in> set (ks_cycles key) \<or> (\<exists>w \<in> set (pln_windows plan). c = newCycle w (pln_id plan) now)"
      using a(1) by auto
    then have *: "map_of (ks_cycles key) k = Some c \<or>
      (map_of (ks_cycles key) k = None \<and> (\<exists>w \<in> set (pln_windows plan). c = newCycle w (pln_id plan) now))"
      using old by (cases "map_of (ks_cycles key) k") (auto simp: has_key_def map_of_eq_None_iff image_iff)
    then show "map_of (ks_cycles key) k = Some c \<or>
      (map_of (ks_cycles key) k = None \<and> (\<exists>w \<in> set (pln_windows plan). c = newCycle w (pln_id plan) now))" .
    then show "now < cyc_end c" using assms(4) new by (auto simp: all_live_def)
  qed
  show "\<exists>c. map_of (ks_cycles key') (win_id w) = Some c \<and> now < cyc_end c" if "w \<in> set (pln_windows plan)" for w
    using a(3) that live(1) by (auto simp: has_key_def k)
  show "exhausted key' now w \<longleftrightarrow> exhausted key now w" if "w \<in> set (pln_windows plan)" for w
  proof (cases "map_of (ks_cycles key) (win_id w)")
    case None
    have "has_key m (win_id w)" using a(3) that by blast
    then obtain c where c: "map_of m (win_id w) = Some c" by (auto simp: has_key_def)
    then obtain w' where "c = newCycle w' (pln_id plan) now" using live(2) [OF c] None by auto
    then have "\<not> window_exhausted w c" by (intro fresh_not_exhausted) simp_all
    then show ?thesis using c None by (simp add: exhausted_def live_cycle_def k)
  next
    case (Some c)
    then have "map_of m (win_id w) = Some c" using a(2) by (simp add: has_key_def)
    then show ?thesis using Some by (simp add: exhausted_def live_cycle_def k)
  qed
  show "all_live key' now" using live(1) by (simp add: k all_live_def)
  show "\<not> b \<Longrightarrow> key' = key" using a(6) by (simp add: k)
qed

lemma authorize_sound: "authorize_state scope instant st = (d, ch, st') \<Longrightarrow> sound_step st st' ch"
proof (cases "lookup_key st scope")
  case None
  then show "authorize_state scope instant st = (d, ch, st') \<Longrightarrow> sound_step st st' ch"
    by (simp add: authorize_state_def)
next
  case (Some key)
  assume a: "authorize_state scope instant st = (d, ch, st')"
  show ?thesis
  proof (cases "ks_plan key = []")
    case True
    then show ?thesis using a Some by (simp add: authorize_state_def)
  next
    case False
    show ?thesis
    proof (cases "FindPlan (st_plans st) (ks_plan key)")
      case None
      then have "st' = put_key scope (key\<lparr>ks_plan := [], ks_cycles := []\<rparr>) st" "ch = no_changes\<lparr>ch_keys := [scope]\<rparr>"
        using a Some False by (simp_all add: authorize_state_def)
      then show ?thesis by (simp add: sound_step_key covers_key_def)
    next
      case plan: (Some plan)
      obtain b key1 where s: "settleExpiredCycles key instant = (b, key1)" by (cases "settleExpiredCycles key instant")
      have same: "\<not> b \<Longrightarrow> key1 = key"
      proof -
        assume "\<not> b"
        then have "filter (\<lambda>(k, c). \<not> instant \<ge> cyc_end c) (ks_cycles key) = ks_cycles key"
          using s by (auto simp: settleExpiredCycles_def Let_def list_ex_iff filter_id_conv)
        then show "key1 = key" using s by (simp add: settleExpiredCycles_def Let_def)
      qed
      obtain c key2 where k: "(if \<not> qv_blocked (quotaView key1 plan instant) then activateCycles key1 plan instant
          else (False, key1)) = (c, key2)" by fastforce
      have "\<not> c \<Longrightarrow> key2 = key1"
      proof -
        assume "\<not> c"
        obtain m where f: "foldl (activate_window (pln_id plan) instant) (False, ks_cycles key1) (pln_windows plan) = m"
          by blast
        show "key2 = key1"
          using k \<open>\<not> c\<close> activate_fold(6) [of "pln_id plan" instant False "ks_cycles key1" "pln_windows plan" "fst m" "snd m"] f
          by (auto simp: activateCycles_def split: if_splits prod.splits)
      qed
      moreover have "st' = put_key scope key2 st" "ch = (if b \<or> c then no_changes\<lparr>ch_keys := [scope]\<rparr> else no_changes)"
        using a Some False plan s k by (simp_all add: authorize_state_def Let_def split: prod.splits)
      ultimately show ?thesis
        using same Some by (cases "b \<or> c") (auto simp: sound_step_key covers_key_def intro!: sound_step_flat)
    qed
  qed
qed

text \<open>A key on a plan, with the cycles it has stored, at an instant of the host's clock.\<close>

definition on_plan :: "State \<Rightarrow> string \<Rightarrow> KeyState \<Rightarrow> Plan \<Rightarrow> bool" where
  "on_plan st scope key plan \<longleftrightarrow>
     lookup_key st scope = Some key \<and> ks_plan key \<noteq> [] \<and> FindPlan (st_plans st) (ks_plan key) = Some plan \<and>
     ks_plan key = pln_id plan \<and> plan_ok plan \<and> ValidateCycles key plan = Inr () \<and> wf_map (ks_cycles key)"

lemma authorize_on_plan:
  assumes "on_plan st scope key plan" "now_ok instant" "authorize_state scope instant st = (d, ch, st')"
  shows "\<exists>key'. lookup_key st' scope = Some key' \<and> ValidateCycles key' plan = Inr () \<and>
    (dec_allowed d \<longleftrightarrow> (\<forall>w \<in> set (pln_windows plan). \<not> exhausted key instant w)) \<and>
    (dec_allowed d \<longrightarrow> (\<forall>w \<in> set (pln_windows plan). \<exists>c. live_cycle key' instant w = Some c)) \<and>
    (\<not> dec_allowed d \<longrightarrow> instant < qv_retry_at (dec_view d) \<and>
       (\<forall>w c. w \<in> set (pln_windows plan) \<longrightarrow> live_cycle key instant w = Some c \<longrightarrow> window_exhausted w c \<longrightarrow>
          cyc_end c \<le> qv_retry_at (dec_view d)))"
proof -
  have o: "lookup_key st scope = Some key" "ks_plan key \<noteq> []" "FindPlan (st_plans st) (ks_plan key) = Some plan"
    "ks_plan key = pln_id plan" "plan_ok plan" "ValidateCycles key plan = Inr ()" "wf_map (ks_cycles key)"
    using assms(1) by (auto simp: on_plan_def)
  obtain b key1 where s: "settleExpiredCycles key instant = (b, key1)" by (cases "settleExpiredCycles key instant")
  note k1 = settle_lookup [OF s o(7)]
  have v1: "ValidateCycles key1 plan = Inr ()" using k1(4) o(6) by blast
  have live1: "all_live key1 instant" by (auto simp: all_live_def k1(1) split: option.splits if_splits)
  have lc: "live_cycle key1 instant w = live_cycle key instant w" for w
    by (simp add: live_cycle_def k1(1) split: option.splits)
  then have ex: "exhausted key1 instant w = exhausted key instant w" for w by (simp add: exhausted_def)
  note blocked1 = view_blocked_iff [OF o(5) v1 live1, unfolded ex]
  show ?thesis
  proof (cases "qv_blocked (quotaView key1 plan instant)")
    case True
    then have d: "d = \<lparr>dec_allowed = False, dec_plan_id = pln_id plan, dec_plan_name = pln_name plan,
        dec_view = quotaView key1 plan instant\<rparr>" and st': "st' = put_key scope key1 st"
      using assms(3) o(1-4) s by (simp_all add: authorize_state_def Let_def)
    have end_le: "cyc_end c \<le> qv_retry_at (quotaView key1 plan instant)"
      if w: "w \<in> set (pln_windows plan)" "live_cycle key instant w = Some c" "window_exhausted w c" for w c
    proof -
      have m: "map_of (ks_cycles key1) (win_id w) = Some c"
        using w(2) unfolding lc [symmetric] by (auto simp: live_cycle_def split: option.splits if_splits)
      then have "current_cycle key1 plan instant w = c"
        using valid_start [OF v1 m] by (simp add: current_cycle_def Let_def)
      then show ?thesis
        using quotaView_retry [of w plan key1 instant] w plan_okD(5) [OF o(5) w(1)]
        by (simp add: qwv_blocked_iff window_ok_def)
    qed
    obtain w c where "w \<in> set (pln_windows plan)" "live_cycle key instant w = Some c" "window_exhausted w c"
      using True blocked1 by (auto simp: exhausted_def)
    moreover have "instant < cyc_end c" using \<open>live_cycle key instant w = Some c\<close>
      by (auto simp: live_cycle_def split: option.splits if_splits)
    ultimately have "instant < qv_retry_at (quotaView key1 plan instant)" using end_le by fastforce
    then show ?thesis using d st' end_le v1 True blocked1 by auto
  next
    case False
    obtain c key2 where a: "activateCycles key1 plan instant = (c, key2)" by (cases "activateCycles key1 plan instant")
    note k2 = activate_lookup [OF a o(5) assms(2) live1]
    have p2: "ks_plan key1 = pln_id plan" using k1(2) o(4) by simp
    have v2: "ValidateCycles key2 plan = Inr ()"
      using activateCycles_valid [OF o(5) p2 assms(2) v1] by (simp add: a)
    have "\<not> qv_blocked (quotaView key2 plan instant)"
      using False view_blocked_iff [OF o(5) v2 k2(3)] blocked1 k2(2) ex by blast
    then have d: "dec_allowed d" and st': "st' = put_key scope key2 st"
      using assms(3) o(1-4) s a False by (auto simp: authorize_state_def Let_def)
    have "\<exists>c. live_cycle key2 instant w = Some c" if "w \<in> set (pln_windows plan)" for w
      using k2(1) [OF that] by (auto simp: live_cycle_def)
    then show ?thesis using d st' v2 False blocked1 by auto
  qed
qed

lemma Authorize_unfold:
  "TrimSpace scope = scope \<Longrightarrow> scope \<noteq> [] \<Longrightarrow> Authorize E scope instant s = (d, s') \<Longrightarrow>
     \<exists>ch. authorize_state scope (if IsZero instant then env_clock E 0 else instant) (s_state s) = (d, ch, s_state s')"
proof -
  assume a: "TrimSpace scope = scope" "scope \<noteq> []" "Authorize E scope instant s = (d, s')"
  let ?f = "authorize_state scope (if IsZero instant then env_clock E 0 else instant)"
  obtain w ch st where f: "?f (s_state s) = (w, ch, st)" by (cases "?f (s_state s)")
  obtain v s1 where u: "updateResult E ?f s = (v, s1)" by (cases "updateResult E ?f s")
  then have "v = w \<and> s_state s1 = st" using updateResult_cases [of E ?f s v s1 w ch st] f by blast
  then show ?thesis using a u f by (auto simp: Authorize_def Let_def split: if_splits)
qed

lemma Authorize_synced: "store_synced s \<Longrightarrow> store_synced (snd (Authorize E scope instant s))"
proof -
  assume s: "store_synced s"
  let ?f = "authorize_state (TrimSpace scope) (if IsZero instant then env_clock E 0 else instant)"
  obtain w ch st where f: "?f (s_state s) = (w, ch, st)" by (cases "?f (s_state s)")
  have "store_synced (snd (updateResult E ?f s))"
    using updateResult_keeps_sync [of s ?f w ch st E, OF s f authorize_sound [OF f]] .
  then show ?thesis
    using s by (cases "updateResult E ?f s") (auto simp: Authorize_def Let_def store_synced_def split: option.splits)
qed

text \<open>C6: a request of a key on a plan is let through exactly when no window of the plan is used up in its current
  cycle. When it is let through, every window has a running cycle, so that its usage will be charged; when it is
  refused, the instant reported for a retry lies in the future and no used-up window ends later. The cycles stored
  stay valid.\<close>

theorem Authorize_ok:
  assumes "on_plan (s_state s) scope key plan" "TrimSpace scope = scope" "now_ok instant" "\<not> IsZero instant"
    "Authorize E scope instant s = (d, s')" "scope \<noteq> []"
  shows "\<exists>key'. lookup_key (s_state s') scope = Some key' \<and> ValidateCycles key' plan = Inr () \<and>
    (dec_allowed d \<longleftrightarrow> (\<forall>w \<in> set (pln_windows plan). \<not> exhausted key instant w)) \<and>
    (dec_allowed d \<longrightarrow> (\<forall>w \<in> set (pln_windows plan). \<exists>c. live_cycle key' instant w = Some c)) \<and>
    (\<not> dec_allowed d \<longrightarrow> instant < qv_retry_at (dec_view d) \<and>
       (\<forall>w c. w \<in> set (pln_windows plan) \<longrightarrow> live_cycle key instant w = Some c \<longrightarrow> window_exhausted w c \<longrightarrow>
          cyc_end c \<le> qv_retry_at (dec_view d)))"
proof -
  obtain ch where "authorize_state scope instant (s_state s) = (d, ch, s_state s')"
    using Authorize_unfold [OF assms(2,6,5)] assms(4) by auto
  from authorize_on_plan [OF assms(1,3) this] show ?thesis .
qed

lemma small_on_plan: "on_plan small_state ''ab'' bound_key free_plan"
  using free_plan_ok
  by (simp add: on_plan_def small_state_def lookup_key_def NewState_def bound_key_def FindPlan_def Let_def)
    (simp add: free_plan_def ValidateCycles_iff new_key_def)

theorem Authorize_ok_witness:
  "\<exists>d s' key'. Authorize calm ''ab'' (time_of_unix 1700000000) small_store = (d, s') \<and> dec_allowed d \<and>
     lookup_key (s_state s') ''ab'' = Some key' \<and> (\<exists>c. live_cycle key' (time_of_unix 1700000000) free_window = Some c)"
proof -
  obtain d s' where a: "Authorize calm ''ab'' (time_of_unix 1700000000) small_store = (d, s')"
    by (cases "Authorize calm ''ab'' (time_of_unix 1700000000) small_store")
  have n: "now_ok (time_of_unix 1700000000)" "\<not> IsZero (time_of_unix 1700000000)"
    by (simp_all add: now_ok_def clock_ok_def) (simp add: IsZero_def time_of_unix_def)
  have p: "on_plan (s_state small_store) ''ab'' bound_key free_plan" using small_on_plan by (simp add: small_store_def)
  from Authorize_ok [OF p _ n a] obtain key' where k:
    "lookup_key (s_state s') ''ab'' = Some key'"
    "dec_allowed d \<longleftrightarrow> (\<forall>w \<in> set (pln_windows free_plan). \<not> exhausted bound_key (time_of_unix 1700000000) w)"
    "dec_allowed d \<longrightarrow> (\<forall>w \<in> set (pln_windows free_plan). \<exists>c. live_cycle key' (time_of_unix 1700000000) w = Some c)"
    by auto
  moreover have "dec_allowed d"
    using k(2) by (simp add: exhausted_def live_cycle_def bound_key_def new_key_def)
  ultimately show ?thesis using a by (simp add: free_plan_def)
qed

end
