(* ===== verification/Integrity.thy ===== *)
theory Integrity
  imports Admission
begin

text \<open>
  The invariant every operation of the store keeps besides the sync of memory and database: \<open>state_ok\<close>. It says that the
  working set is in the form the store keeps it in (\<open>loadable\<close>), so that a restart reads it back: plans validate, have
  distinct trimmed identifiers and sorted windows, routes are normalised, every key has a preview, normalised bindings
  and cycles valid for the plan it is bound to. \<open>edit_keeps\<close> and \<open>update_keeps\<close> lift it through the store.
\<close>

definition cycles_sane :: "KeyState \<Rightarrow> bool" where
  "cycles_sane key \<longleftrightarrow> (\<forall>(k, c) \<in> set (ks_cycles key). cycle_typed c \<and> clock_ok (cyc_start c))"

lemma cycles_sane_typed: "cycles_sane key \<Longrightarrow> cycles_typed key"
  by (auto simp: cycles_sane_def cycles_typed_def)

definition key_ok :: "Plan list \<Rightarrow> string \<Rightarrow> KeyState \<Rightarrow> bool" where
  "key_ok plans scope key \<longleftrightarrow> key_loadable plans scope key \<and> cycles_sane key \<and> wf_map (ks_cycles key)"

definition plans_ok :: "Plan list \<Rightarrow> bool" where
  "plans_ok plans \<longleftrightarrow> distinct (map pln_id plans) \<and>
     (\<forall>p \<in> set plans. plan_ok p \<and> sorted (map win_period (pln_windows p)) \<and> TrimSpace (pln_id p) = pln_id p)"

definition routes_ok :: "Route list \<Rightarrow> bool" where
  "routes_ok routes \<longleftrightarrow> (\<forall>r \<in> set routes. NormalizeRoute r = Inr r)"

definition state_ok :: "State \<Rightarrow> bool" where
  "state_ok st \<longleftrightarrow> plans_ok (st_plans st) \<and> routes_ok (st_routes st) \<and>
     (\<forall>scope key. lookup_key st scope = Some key \<longrightarrow> key_ok (st_plans st) scope key)"

lemma state_ok_loadable: "state_ok st \<Longrightarrow> loadable st"
  by (simp add: state_ok_def loadable_def plans_ok_def routes_ok_def key_ok_def)

lemma state_ok_key: "state_ok st \<Longrightarrow> lookup_key st scope = Some key \<Longrightarrow> key_ok (st_plans st) scope key"
  by (simp add: state_ok_def)

lemma state_ok_put: "state_ok st \<Longrightarrow> key_ok (st_plans st) scope key \<Longrightarrow> state_ok (put_key scope key st)"
  by (simp add: state_ok_def)

lemma state_ok_cong:
  "st_plans st' = st_plans st \<Longrightarrow> st_routes st' = st_routes st \<Longrightarrow> st_keys st' = st_keys st \<Longrightarrow> state_ok st' = state_ok st"
  by (simp add: state_ok_def lookup_key_def)

text \<open>Clearing the cycles of a key, with or without its plan, keeps it in order.\<close>

lemma FindPlan_mem:
  "plans_ok plans \<Longrightarrow> p \<in> set plans \<Longrightarrow> FindPlan plans (pln_id p) = Some p"
proof -
  assume ok: "plans_ok plans" and p: "p \<in> set plans"
  then have t: "TrimSpace (pln_id p) = pln_id p" "pln_id p \<noteq> []" using plan_ok_id by (auto simp: plans_ok_def)
  have "find (\<lambda>q. pln_id q = pln_id p \<and> pln_id p \<noteq> []) plans = Some p"
    using ok p t(2) unfolding plans_ok_def by (induction plans) (auto simp: image_iff)
  then show ?thesis by (simp add: FindPlan_def t Let_def)
qed

lemma FindPlan_ok: "plans_ok plans \<Longrightarrow> FindPlan plans pid = Some p \<Longrightarrow> p \<in> set plans \<and> plan_ok p \<and> FindPlan plans (pln_id p) = Some p"
  using FindPlan_Some [of plans pid p] FindPlan_mem [of plans p] by (simp add: plans_ok_def)

text \<open>What \<open>key_ok\<close> asks of the cycles alone.\<close>

definition cycles_ok :: "Plan list \<Rightarrow> KeyState \<Rightarrow> bool" where
  "cycles_ok plans key \<longleftrightarrow>
     ValidateCycles key (case FindPlan plans (ks_plan key) of None \<Rightarrow> no_plan | Some p \<Rightarrow> p) = Inr () \<and>
     cycles_sane key \<and> wf_map (ks_cycles key)"

lemma key_ok_iff:
  "key_ok plans scope key \<longleftrightarrow> TrimSpace scope \<noteq> [] \<and> TrimSpace (ks_preview key) \<noteq> [] \<and> storable (ks_deleted_at key) \<and>
     NormalizeRouteBindings (ks_bindings key) = Inr (ks_bindings key) \<and> cycles_ok plans key"
  by (auto simp: key_ok_def key_loadable_def cycles_ok_def)

lemma cycles_ok_unbound: "ks_cycles key = [] \<Longrightarrow> ks_plan key = [] \<Longrightarrow> cycles_ok plans key"
  by (simp add: cycles_ok_def ValidateCycles_iff cycles_sane_def FindPlan_def Let_def)

lemma cycles_ok_fresh:
  "ks_cycles key = [] \<Longrightarrow> FindPlan plans (ks_plan key) = Some p \<Longrightarrow> pln_id p = ks_plan key \<Longrightarrow> cycles_ok plans key"
  by (simp add: cycles_ok_def ValidateCycles_iff cycles_sane_def)

lemma cycles_ok_cong:
  "ks_plan key' = ks_plan key \<Longrightarrow> ks_cycles key' = ks_cycles key \<Longrightarrow> cycles_ok plans key' = cycles_ok plans key"
proof -
  assume *: "ks_plan key' = ks_plan key" "ks_cycles key' = ks_cycles key"
  then have "cycle_invalid key' p = cycle_invalid key p" for p by (intro ext) (simp add: cycle_invalid_def cong: option.case_cong)
  with * show ?thesis by (simp add: cycles_ok_def ValidateCycles_iff cycles_sane_def)
qed

text \<open>A bound key of a state in order is on its plan.\<close>

lemma key_ok_bound:
  assumes "plans_ok plans" "key_ok plans scope key" "ks_plan key \<noteq> []"
  obtains plan where "FindPlan plans (ks_plan key) = Some plan" "pln_id plan = ks_plan key" "plan_ok plan"
    "ValidateCycles key plan = Inr ()"
proof -
  have v: "ValidateCycles key (case FindPlan plans (ks_plan key) of None \<Rightarrow> no_plan | Some p \<Rightarrow> p) = Inr ()"
    using assms(2) by (simp add: key_ok_iff cycles_ok_def)
  show ?thesis
  proof (cases "FindPlan plans (ks_plan key)")
    case None
    then show ?thesis using v assms(3) by (simp add: ValidateCycles_iff no_plan_def)
  next
    case (Some plan)
    then have "pln_id plan = ks_plan key" using v assms(3) by (auto simp: ValidateCycles_iff)
    moreover have "plan_ok plan" using FindPlan_ok [OF assms(1) Some] by blast
    ultimately show ?thesis using that Some v by simp
  qed
qed

section \<open>Settling and activating\<close>

lemma cycles_sane_filter: "cycles_sane key \<Longrightarrow> cycles_sane (key\<lparr>ks_cycles := filter P (ks_cycles key)\<rparr>)"
  by (auto simp: cycles_sane_def)

lemma ValidateCycles_subset:
  assumes "ValidateCycles key plan = Inr ()" "set m \<subseteq> set (ks_cycles key)"
  shows "ValidateCycles (key\<lparr>ks_cycles := m\<rparr>) plan = Inr ()"
proof -
  have "cycle_invalid (key\<lparr>ks_cycles := m\<rparr>) plan = cycle_invalid key plan"
    by (intro ext) (simp add: cycle_invalid_def cong: option.case_cong)
  then show ?thesis using assms by (auto simp: ValidateCycles_iff)
qed

lemma cycles_ok_filter: "cycles_ok plans key \<Longrightarrow> cycles_ok plans (key\<lparr>ks_cycles := filter P (ks_cycles key)\<rparr>)"
  by (auto simp: cycles_ok_def intro!: ValidateCycles_subset cycles_sane_filter)

lemma settle_ok: "key_ok plans scope key \<Longrightarrow> key_ok plans scope (snd (settleExpiredCycles key now))"
  using cycles_ok_filter [of plans key "\<lambda>(k, c). \<not> now \<ge> cyc_end c"]
  by (simp add: key_ok_iff settleExpiredCycles_def Let_def)

lemma newCycle_typed: "cycle_typed (newCycle w pid now)"
  by (simp only: cycle_typed_def newCycle_usage is_f64_0) (simp add: in_int64_def)

lemma activate_ok:
  assumes "plans_ok plans" "key_ok plans scope key" "FindPlan plans (ks_plan key) = Some plan" "pln_id plan = ks_plan key" "now_ok now"
  shows "key_ok plans scope (snd (activateCycles key plan now))"
proof -
  obtain b m where f: "foldl (activate_window (pln_id plan) now) (False, ks_cycles key) (pln_windows plan) = (b, m)"
    by (cases "foldl (activate_window (pln_id plan) now) (False, ks_cycles key) (pln_windows plan)")
  then have k: "snd (activateCycles key plan now) = key\<lparr>ks_cycles := m\<rparr>" by (simp add: activateCycles_def)
  note a = activate_fold [OF f]
  have c: "ValidateCycles key plan = Inr ()" "cycles_sane key" "wf_map (ks_cycles key)" "plan_ok plan"
    using assms(2,3) FindPlan_ok [OF assms(1,3)] by (auto simp: key_ok_iff cycles_ok_def)
  have sane: "cycle_typed c \<and> clock_ok (cyc_start c)" if "(k, c) \<in> set m" for k c
  proof -
    have "(k, c) \<in> set (ks_cycles key) \<or> (\<exists>w \<in> set (pln_windows plan). c = newCycle w (pln_id plan) now)"
      using a(1) that by auto
    then show ?thesis
      using c(2) newCycle_typed newCycle_start_late(2) [OF plan_okD(5) [OF c(4)] assms(5) clock_ok_window [OF c(4)]]
      by (auto simp: cycles_sane_def)
  qed
  have "ValidateCycles (key\<lparr>ks_cycles := m\<rparr>) plan = Inr ()"
    using activateCycles_valid [OF c(4) _ assms(5) c(1)] assms(4) by (simp add: k)
  moreover have "cycles_sane (key\<lparr>ks_cycles := m\<rparr>)" using sane by (auto simp: cycles_sane_def)
  moreover have "wf_map m" using c(3) a by (auto intro: a)
  ultimately show ?thesis using assms(2,3) by (simp add: k key_ok_iff cycles_ok_def)
qed

section \<open>Operations\<close>

text \<open>An edit keeps the order of the working set when its state change does; so does an update.\<close>

lemma edit_keeps:
  assumes "state_ok (s_state s)"
    "\<And>v ch st. fn (s_state s) = Inr (v, ch, st) \<Longrightarrow> state_ok st"
  shows "state_ok (s_state (snd (editConfiguration E fn s)))"
proof (cases "fst (editConfiguration E fn s)")
  case (Inl e)
  then have "editConfiguration E fn s = (Inl e, snd (editConfiguration E fn s))" by (metis prod.collapse)
  from edit_Inl [OF this] assms(1) show ?thesis by simp
next
  case (Inr v)
  then have "editConfiguration E fn s = (Inr v, snd (editConfiguration E fn s))" by (metis prod.collapse)
  from edit_Inr [OF this] assms(2) show ?thesis by blast
qed

lemma update_state: "s_state (snd (updateResult E fn s)) = snd (snd (fn (s_state s)))"
proof -
  obtain w cur st where f: "fn (s_state s) = (w, cur, st)" by (cases "fn (s_state s)")
  obtain v s' where u: "updateResult E fn s = (v, s')" by (cases "updateResult E fn s")
  from updateResult_cases [OF u f] show ?thesis by (simp add: u f)
qed

lemma update_keeps: "state_ok (snd (snd (fn (s_state s)))) \<Longrightarrow> state_ok (s_state (snd (updateResult E fn s)))"
  by (simp add: update_state)

lemma authorize_ok:
  assumes "state_ok st" "now_ok instant"
  shows "state_ok (snd (snd (authorize_state scope instant st)))"
proof (cases "lookup_key st scope")
  case None
  then show ?thesis using assms by (simp add: authorize_state_def)
next
  case (Some key)
  have k: "key_ok (st_plans st) scope key" and p: "plans_ok (st_plans st)"
    using assms(1) Some by (auto simp: state_ok_def)
  show ?thesis
  proof (cases "ks_plan key = []")
    case True
    then show ?thesis using Some assms(1) by (simp add: authorize_state_def)
  next
    case False
    obtain plan where plan: "FindPlan (st_plans st) (ks_plan key) = Some plan" "pln_id plan = ks_plan key"
      using key_ok_bound [OF p k False] by metis
    let ?key1 = "snd (settleExpiredCycles key instant)"
    have k1: "key_ok (st_plans st) scope ?key1" by (rule settle_ok [OF k])
    have p1: "ks_plan ?key1 = ks_plan key" by (simp add: settleExpiredCycles_def Let_def)
    have k2: "key_ok (st_plans st) scope (snd (activateCycles ?key1 plan instant))"
      by (rule activate_ok [OF p k1 _ _ assms(2)]) (use plan p1 in simp_all)
    have "\<exists>key2. snd (snd (authorize_state scope instant st)) = put_key scope key2 st \<and>
        (key2 = ?key1 \<or> key2 = snd (activateCycles ?key1 plan instant))"
      using Some False plan by (auto simp: authorize_state_def Let_def split: prod.splits)
    then show ?thesis using assms(1) k1 k2 by (auto intro: state_ok_put)
  qed
qed

lemma Authorize_keeps:
  assumes "state_ok (s_state s)" "now_ok (if IsZero instant then env_clock E 0 else instant)"
  shows "state_ok (s_state (snd (Authorize E scope instant s)))"
proof -
  let ?f = "authorize_state (TrimSpace scope) (if IsZero instant then env_clock E 0 else instant)"
  have "state_ok (s_state (snd (updateResult E ?f s)))"
    by (rule update_keeps) (rule authorize_ok [OF assms])
  then show ?thesis using assms(1) by (auto simp: Authorize_def Let_def split: prod.splits)
qed

end
