(* ===== verification/Keys.thy ===== *)
theory Keys
  imports Integrity "HOL-Library.Product_Lexorder"
begin

text \<open>
  Keys: \<^verbatim>\<open>internal/billing/keys.go\<close>. Views of the keys, binding to a plan, resets of the quota, labels, and the
  synchronisation with the list of keys the host holds. A loop over the map of keys is a pass over its association
  list; the views are sorted, so the order of the map does not show. \<open>SyncKeys_ok\<close> is the contract of the
  synchronisation, \<open>KeyViewForScope_agrees\<close> ties what a view shows to what \<open>Authorize\<close> decides.
\<close>

section \<open>Views\<close>

record KeyView =
  kv_scope :: string
  kv_preview :: string
  kv_label :: string
  kv_in_config :: bool
  kv_deleted_at :: time
  kv_plan :: string
  kv_plan_name :: string
  kv_limit :: int
  kv_active :: int
  kv_bindings :: RouteBindings
  kv_quota :: QuotaView

definition keyView :: "string \<Rightarrow> KeyState \<Rightarrow> Plan \<Rightarrow> int \<Rightarrow> time \<Rightarrow> KeyView" where
  "keyView scope key plan current now =
     \<lparr>kv_scope = scope, kv_preview = ks_preview key, kv_label = ks_label key, kv_in_config = ks_in_config key,
      kv_deleted_at = ks_deleted_at key, kv_plan = ks_plan key, kv_plan_name = pln_name plan, kv_limit = ks_limit key,
      kv_active = current, kv_bindings = ks_bindings key, kv_quota = quotaView key plan now\<rparr>"

definition settleKeyPlan :: "KeyState \<Rightarrow> Plan \<Rightarrow> time \<Rightarrow> bool \<times> KeyState" where
  "settleKeyPlan key plan now =
     (if ks_plan key = [] then (False, key)
      else if pln_id plan = ks_plan key then settleExpiredCycles key now
      else (True, key\<lparr>ks_plan := [], ks_cycles := []\<rparr>))"

text \<open>Blocked keys first, then by label and scope.\<close>

definition sortKeyViews :: "KeyView list \<Rightarrow> KeyView list" where
  "sortKeyViews views = sort_key (\<lambda>v. (\<not> qv_blocked (kv_quota v), ToLower (kv_label v), kv_scope v)) views"

text \<open>The map of plans by identifier: of two plans with one identifier the later stays.\<close>

definition plan_by_id :: "Plan list \<Rightarrow> string \<Rightarrow> Plan" where
  "plan_by_id plans pid = option_or (map_of (rev (map (\<lambda>p. (pln_id p, p)) plans)) pid) no_plan"

definition settle_listed :: "State \<Rightarrow> time \<Rightarrow> KeyState \<Rightarrow> bool \<times> KeyState" where
  "settle_listed st now key =
     (if IsZero (ks_deleted_at key) then settleKeyPlan key (plan_by_id (st_plans st) (ks_plan key)) now else (False, key))"

definition settle_keys :: "time \<Rightarrow> State \<Rightarrow> State" where
  "settle_keys now st = st\<lparr>st_keys := map_values (\<lambda>_ key. snd (settle_listed st now key)) (st_keys st)\<rparr>"

definition key_views :: "Store \<Rightarrow> time \<Rightarrow> State \<Rightarrow> KeyView list \<times> Changes \<times> State" where
  "key_views s now st =
     (let st' = settle_keys now st
      in (sortKeyViews (map (\<lambda>(scope, key). keyView scope key (plan_by_id (st_plans st) (ks_plan key))
            (active_of (s_active_by_scope s) scope) now) (st_keys st')),
          no_changes\<lparr>ch_keys := map fst (filter (\<lambda>(scope, key). fst (settle_listed st now key)) (st_keys st))\<rparr>, st'))"

definition KeyViews :: "env \<Rightarrow> Store \<Rightarrow> KeyView list \<times> Store" where
  "KeyViews E s = updateResult E (key_views s (env_clock E 0)) s"

definition key_view :: "Store \<Rightarrow> string \<Rightarrow> time \<Rightarrow> State \<Rightarrow> KeyView option \<times> Changes \<times> State" where
  "key_view s scope now st =
     (case liveKey st scope of
        None \<Rightarrow> (None, no_changes, st)
      | Some key \<Rightarrow>
          let plan = option_or (FindPlan (st_plans st) (ks_plan key)) no_plan
          in case settleKeyPlan key plan now of (settled, key') \<Rightarrow>
               (Some (keyView scope key' plan (active_of (s_active_by_scope s) scope) now),
                if settled then no_changes\<lparr>ch_keys := [scope]\<rparr> else no_changes, put_key scope key' st))"

definition KeyViewForScope :: "env \<Rightarrow> string \<Rightarrow> Store \<Rightarrow> KeyView option \<times> Store" where
  "KeyViewForScope E scope0 s =
     (let scope = normalizeScope scope0
      in if scope = [] then (None, s) else updateResult E (key_view s scope (env_clock E 0)) s)"

section \<open>Edits\<close>

text \<open>An edit of one key: nothing happens when the change is \<open>None\<close>.\<close>

definition bind_key :: "string \<Rightarrow> string \<Rightarrow> State \<Rightarrow> error + unit \<times> Changes \<times> State" where
  "bind_key scope planID st =
     (case FindPlan (st_plans st) planID of
        None \<Rightarrow> Inl (notFoundf ''the plan does not exist'')
      | Some plan \<Rightarrow>
          (case liveKey st scope of
             None \<Rightarrow> Inl (notFoundf ''the API key does not exist'')
           | Some key \<Rightarrow>
               if ks_plan key = pln_id plan then Inr ((), no_changes, st)
               else Inr ((), no_changes\<lparr>ch_keys := [scope]\<rparr>,
                         put_key scope (key\<lparr>ks_cycles := [], ks_plan := pln_id plan\<rparr>) st)))"

definition BindKey :: "env \<Rightarrow> string \<Rightarrow> string \<Rightarrow> Store \<Rightarrow> (error + unit) \<times> Store" where
  "BindKey E scope0 planID0 s =
     (let scope = normalizeScope scope0; planID = TrimSpace planID0
      in if scope = [] \<or> planID = [] then (Inl (invalidf ''scope and plan must not be empty''), s)
         else editConfiguration E (bind_key scope planID) s)"

definition unbind_key :: "string \<Rightarrow> State \<Rightarrow> error + unit \<times> Changes \<times> State" where
  "unbind_key scope st =
     (case liveKey st scope of
        None \<Rightarrow> Inr ((), no_changes, st)
      | Some key \<Rightarrow>
          if ks_plan key = [] then Inr ((), no_changes, st)
          else Inr ((), no_changes\<lparr>ch_keys := [scope]\<rparr>, put_key scope (key\<lparr>ks_plan := [], ks_cycles := []\<rparr>) st))"

definition UnbindKey :: "env \<Rightarrow> string \<Rightarrow> Store \<Rightarrow> (error + unit) \<times> Store" where
  "UnbindKey E scope0 s =
     (let scope = normalizeScope scope0
      in if scope = [] then (Inl (invalidf ''scope must not be empty''), s) else editConfiguration E (unbind_key scope) s)"

record ResetRequest =
  rq_mode :: string
  rq_scopes :: "string list"

record ResetResult =
  rs_keys :: nat
  rs_windows :: nat

definition resettable :: "State \<Rightarrow> string \<Rightarrow> bool" where
  "resettable st scope \<longleftrightarrow> (case liveKey st scope of None \<Rightarrow> False | Some key \<Rightarrow> ks_plan key \<noteq> [])"

definition cycle_count :: "State \<Rightarrow> string \<Rightarrow> nat" where
  "cycle_count st scope = (case lookup_key st scope of None \<Rightarrow> 0 | Some key \<Rightarrow> length (ks_cycles key))"

definition clear_cycles :: "State \<Rightarrow> string \<Rightarrow> State" where
  "clear_cycles st scope = (case lookup_key st scope of None \<Rightarrow> st | Some key \<Rightarrow> put_key scope (key\<lparr>ks_cycles := []\<rparr>) st)"

definition reset_quota :: "bool \<Rightarrow> string list \<Rightarrow> State \<Rightarrow> error + ResetResult \<times> Changes \<times> State" where
  "reset_quota everyone scopes0 st =
     (let scopes = (if everyone then scopes0 @ filter (resettable st) (mkeys (st_keys st)) else scopes0)
      in if \<not> list_all (resettable st) scopes then Inl (invalidf ''the API key does not exist or has no plan'')
         else let used = filter (\<lambda>scope. cycle_count st scope > 0) scopes
              in Inr (\<lparr>rs_keys = length used, rs_windows = sum_list (map (cycle_count st) used)\<rparr>,
                      no_changes\<lparr>ch_keys := used\<rparr>, foldl clear_cycles st scopes))"

definition ResetQuota :: "env \<Rightarrow> ResetRequest \<Rightarrow> Store \<Rightarrow> (error + ResetResult) \<times> Store" where
  "ResetQuota E req s =
     (let scopes = normalizeScopes (rq_scopes req)
      in if rq_mode req = ''global''
         then if scopes \<noteq> [] then (Inl (invalidf ''a global reset takes no keys''), s)
              else editConfiguration E (reset_quota True scopes) s
         else if rq_mode req = ''all''
         then if scopes = [] then (Inl (invalidf ''select the API keys to reset''), s)
              else editConfiguration E (reset_quota False scopes) s
         else (Inl (invalidf ''invalid reset mode''), s))"

definition set_label :: "string \<Rightarrow> string \<Rightarrow> State \<Rightarrow> error + unit \<times> Changes \<times> State" where
  "set_label scope label st =
     (case lookup_key st scope of
        None \<Rightarrow> Inl (notFoundf ''the API key does not exist'')
      | Some key \<Rightarrow> Inr ((), no_changes\<lparr>ch_keys := [scope]\<rparr>, put_key scope (key\<lparr>ks_label := label\<rparr>) st))"

definition SetLabel :: "env \<Rightarrow> string \<Rightarrow> string \<Rightarrow> Store \<Rightarrow> (error + unit) \<times> Store" where
  "SetLabel E scope0 label s =
     (let scope = normalizeScope scope0
      in if scope = [] then (Inl (invalidf ''scope must not be empty''), s)
         else editConfiguration E (set_label scope (TrimSpace label)) s)"

section \<open>Synchronisation\<close>

record SyncResult =
  sy_added :: nat
  sy_deleted :: nat

text \<open>The scopes of the listed keys with their previews; of two keys with one scope the later preview stays.\<close>

definition list_scope :: "string smap \<Rightarrow> string \<Rightarrow> string smap" where
  "list_scope m key = (let scope = CallerScope key in if scope = [] then m else AList.update scope (PreviewKey key) m)"

definition listed_scopes :: "string list \<Rightarrow> string smap" where
  "listed_scopes keys = foldl list_scope [] keys"

definition sync_listed :: "SyncResult \<times> bool \<times> State \<Rightarrow> string \<times> string \<Rightarrow> SyncResult \<times> bool \<times> State" where
  "sync_listed acc entry =
     (case acc of (res, changed, st) \<Rightarrow> case entry of (scope, preview) \<Rightarrow>
        let differs = (case lookup_key st scope of None \<Rightarrow> True | Some key \<Rightarrow> ks_preview key \<noteq> preview)
        in case ensureKey st scope preview of
             (None, st) \<Rightarrow> (res, changed, st)
           | (Some key, st) \<Rightarrow>
               (if ks_in_config key then res else res\<lparr>sy_added := sy_added res + 1\<rparr>,
                changed \<or> differs \<or> \<not> IsZero (ks_deleted_at key) \<or> \<not> ks_in_config key,
                put_key scope (key\<lparr>ks_preview := preview, ks_deleted_at := 0, ks_in_config := True\<rparr>) st))"

definition sync_missing :: "string smap \<Rightarrow> time \<Rightarrow> string \<Rightarrow> KeyState \<Rightarrow> KeyState" where
  "sync_missing scopes now scope key =
     (if \<not> has_key scopes scope \<and> ks_in_config key then key\<lparr>ks_in_config := False, ks_deleted_at := now\<rparr> else key)"

definition missing_count :: "string smap \<Rightarrow> State \<Rightarrow> nat" where
  "missing_count scopes st = length (filter (\<lambda>(scope, key). \<not> has_key scopes scope \<and> ks_in_config key) (st_keys st))"

definition sync_keys :: "string smap \<Rightarrow> time \<Rightarrow> State \<Rightarrow> error + SyncResult \<times> Changes \<times> State" where
  "sync_keys scopes now st =
     (case foldl sync_listed (\<lparr>sy_added = 0, sy_deleted = 0\<rparr>, False, st) scopes of (res, changed, st1) \<Rightarrow>
        let gone = missing_count scopes st1;
            st2 = st1\<lparr>st_keys := map_values (sync_missing scopes now) (st_keys st1)\<rparr>
        in Inr (res\<lparr>sy_deleted := gone\<rparr>, if changed \<or> gone > 0 then no_changes\<lparr>ch_all_keys := True\<rparr> else no_changes, st2))"

definition SyncKeys :: "env \<Rightarrow> string list \<Rightarrow> bool \<Rightarrow> Store \<Rightarrow> (error + SyncResult) \<times> Store" where
  "SyncKeys E keys allowEmpty s =
     (let scopes = listed_scopes keys
      in if scopes = [] \<and> \<not> allowEmpty then (Inl (invalidf ''the list of API keys is empty''), s)
         else editConfiguration E (sync_keys scopes (env_clock E 0)) s)"

section \<open>Lemmas\<close>

lemma put_key_twice [simp]: "put_key scope k2 (put_key scope k1 st) = put_key scope k2 st"
  by (simp add: put_key_def update_last)

lemma bind_key_sound: "bind_key scope planID st = Inr (v, ch, st') \<Longrightarrow> sound_step st st' ch"
  by (auto simp: bind_key_def covers_key_def intro!: sound_step_key split: option.splits if_splits)

lemma unbind_key_sound: "unbind_key scope st = Inr (v, ch, st') \<Longrightarrow> sound_step st st' ch"
  by (auto simp: unbind_key_def covers_key_def intro!: sound_step_key split: option.splits if_splits)

lemma set_label_sound: "set_label scope label st = Inr (v, ch, st') \<Longrightarrow> sound_step st st' ch"
  by (auto simp: set_label_def covers_key_def intro!: sound_step_key split: option.splits)

text \<open>Clearing cycles.\<close>

lemma clear_cycles_other [simp]:
  "st_plans (clear_cycles st scope) = st_plans st" "st_routes (clear_cycles st scope) = st_routes st"
  "st_grouped (clear_cycles st scope) = st_grouped st" "st_credentials (clear_cycles st scope) = st_credentials st"
  "wf_map (st_keys st) \<Longrightarrow> wf_map (st_keys (clear_cycles st scope))"
  by (simp_all add: clear_cycles_def split: option.splits)

lemma lookup_clear [simp]:
  "lookup_key (clear_cycles st scope) k =
     (if k = scope then map_option (\<lambda>key. key\<lparr>ks_cycles := []\<rparr>) (lookup_key st k) else lookup_key st k)"
  by (auto simp: clear_cycles_def split: option.splits)

lemma foldl_clear:
  "lookup_key (foldl clear_cycles st scopes) k =
     (if k \<in> set scopes then map_option (\<lambda>key. key\<lparr>ks_cycles := []\<rparr>) (lookup_key st k) else lookup_key st k)"
  "st_plans (foldl clear_cycles st scopes) = st_plans st" "st_routes (foldl clear_cycles st scopes) = st_routes st"
  "st_grouped (foldl clear_cycles st scopes) = st_grouped st" "st_credentials (foldl clear_cycles st scopes) = st_credentials st"
  "wf_map (st_keys st) \<Longrightarrow> wf_map (st_keys (foldl clear_cycles st scopes))"
  by (induction scopes arbitrary: st) (auto simp: option.map_comp comp_def)

lemma reset_quota_Inr:
  assumes "reset_quota everyone scopes0 st = Inr (v, ch, st')"
  obtains scopes where "scopes = (if everyone then scopes0 @ filter (resettable st) (mkeys (st_keys st)) else scopes0)"
    "list_all (resettable st) scopes" "st' = foldl clear_cycles st scopes"
    "ch = no_changes\<lparr>ch_keys := filter (\<lambda>scope. cycle_count st scope > 0) scopes\<rparr>"
    "rs_keys v = length (filter (\<lambda>scope. cycle_count st scope > 0) scopes)"
  using assms by (auto simp: reset_quota_def Let_def split: if_splits)

lemma reset_quota_sound: "reset_quota everyone scopes0 st = Inr (v, ch, st') \<Longrightarrow> sound_step st st' ch"
proof (elim reset_quota_Inr)
  fix scopes
  assume r: "list_all (resettable st) scopes" "st' = foldl clear_cycles st scopes"
    "ch = no_changes\<lparr>ch_keys := filter (\<lambda>scope. cycle_count st scope > 0) scopes\<rparr>"
  have "lookup_key st' k = lookup_key st k" if "\<not> covers_key ch k" for k
    using that by (auto simp: r foldl_clear covers_key_def cycle_count_def map_option_case split: option.splits)
  then show "sound_step st st' ch"
    by (intro sound_step_flat) (auto simp: r(2) foldl_clear)
qed

text \<open>Settling every key.\<close>

lemma settleKeyPlan_same: "\<not> fst (settleKeyPlan key plan now) \<Longrightarrow> snd (settleKeyPlan key plan now) = key"
proof -
  have "filter (\<lambda>(k, c). \<not> now \<ge> cyc_end c) (ks_cycles key) = ks_cycles key"
    if "\<not> list_ex (\<lambda>(k, c). now \<ge> cyc_end c) (ks_cycles key)"
    by (rule filter_True) (use that in \<open>auto simp: list_ex_iff\<close>)
  then show "\<not> fst (settleKeyPlan key plan now) \<Longrightarrow> snd (settleKeyPlan key plan now) = key"
    by (auto simp: settleKeyPlan_def settleExpiredCycles_def Let_def split: if_splits)
qed

lemma settle_keys_other [simp]:
  "st_plans (settle_keys now st) = st_plans st" "st_routes (settle_keys now st) = st_routes st"
  "st_grouped (settle_keys now st) = st_grouped st" "st_credentials (settle_keys now st) = st_credentials st"
  "wf_map (st_keys (settle_keys now st)) = wf_map (st_keys st)"
  by (simp_all add: settle_keys_def)

lemma sound_step_same_key: "lookup_key st scope = Some key \<Longrightarrow> sound_step st (put_key scope key st) ch"
  by (rule sound_step_flat) auto

lemma settle_listed_same: "\<not> fst (settle_listed st now key) \<Longrightarrow> snd (settle_listed st now key) = key"
  using settleKeyPlan_same by (auto simp: settle_listed_def split: if_splits)

lemma lookup_settle_keys: "lookup_key (settle_keys now st) k = map_option (\<lambda>key. snd (settle_listed st now key)) (lookup_key st k)"
  by (simp add: settle_keys_def lookup_key_def)

lemma key_views_sound:
  assumes "wf_map (st_keys st)" "key_views s now st = (v, ch, st')"
  shows "sound_step st st' ch"
proof -
  have st': "st' = settle_keys now st"
    and ch: "ch = no_changes\<lparr>ch_keys := map fst (filter (\<lambda>(scope, key). fst (settle_listed st now key)) (st_keys st))\<rparr>"
    using assms(2) by (auto simp: key_views_def Let_def)
  have "lookup_key st' k = lookup_key st k" if "\<not> covers_key ch k" for k
  proof (cases "lookup_key st k")
    case (Some key)
    then have "(k, key) \<in> set (st_keys st)" by (simp add: lookup_key_def map_of_SomeD)
    then have "\<not> fst (settle_listed st now key)" using that by (force simp: ch covers_key_def)
    then show ?thesis using Some settle_listed_same by (simp add: st' lookup_settle_keys)
  qed (simp add: st' lookup_settle_keys)
  then show ?thesis by (intro sound_step_flat) (auto simp: st' lookup_settle_keys)
qed

lemma key_view_sound: "key_view s scope now st = (v, ch, st') \<Longrightarrow> sound_step st st' ch"
proof (cases "liveKey st scope")
  case None
  then show "key_view s scope now st = (v, ch, st') \<Longrightarrow> sound_step st st' ch" by (simp add: key_view_def)
next
  case (Some key)
  assume "key_view s scope now st = (v, ch, st')"
  moreover obtain b key' where k: "settleKeyPlan key (option_or (FindPlan (st_plans st) (ks_plan key)) no_plan) now = (b, key')"
    by fastforce
  ultimately have "st' = put_key scope key' st" "ch = (if b then no_changes\<lparr>ch_keys := [scope]\<rparr> else no_changes)"
    using Some by (simp_all add: key_view_def Let_def)
  moreover have "\<not> b \<Longrightarrow> key' = key"
    using settleKeyPlan_same [of key "option_or (FindPlan (st_plans st) (ks_plan key)) no_plan" now] k by simp
  ultimately show ?thesis
    using Some by (cases b) (simp_all add: sound_step_key sound_step_same_key covers_key_def liveKey_Some)
qed

text \<open>One listed key, and the whole list.\<close>

definition synced_key :: "string \<Rightarrow> KeyState option \<Rightarrow> KeyState" where
  "synced_key preview old = (option_or old new_key)\<lparr>ks_preview := preview, ks_deleted_at := 0, ks_in_config := True\<rparr>"

definition in_config :: "KeyState option \<Rightarrow> bool" where
  "in_config old = (case old of None \<Rightarrow> False | Some key \<Rightarrow> ks_in_config key)"

definition up_to_date :: "string \<Rightarrow> KeyState option \<Rightarrow> bool" where
  "up_to_date preview old \<longleftrightarrow> old = Some (synced_key preview old)"

lemma sync_listed_eq:
  assumes "scope \<noteq> []"
  shows "sync_listed (res, changed, st) (scope, preview) =
    (if in_config (lookup_key st scope) then res else res\<lparr>sy_added := sy_added res + 1\<rparr>,
     changed \<or> \<not> up_to_date preview (lookup_key st scope), put_key scope (synced_key preview (lookup_key st scope)) st)"
proof (cases "lookup_key st scope")
  case None
  then show ?thesis
    using assms by (simp add: sync_listed_def ensureKey_def Let_def synced_key_def in_config_def up_to_date_def new_key_def option_or_def)
next
  case (Some key)
  then show ?thesis
    using assms by (cases key) (auto simp: sync_listed_def ensureKey_def Let_def synced_key_def in_config_def up_to_date_def
        option_or_def IsZero_def)
qed

lemma sync_fold:
  assumes "foldl sync_listed (res, changed, st) scopes = (res', changed', st')" "wf_map scopes" "\<not> has_key scopes []"
  shows "(\<forall>k. lookup_key st' k = (case map_of scopes k of None \<Rightarrow> lookup_key st k | Some p \<Rightarrow> Some (synced_key p (lookup_key st k)))) \<and>
    (changed' \<longleftrightarrow> changed \<or> (\<exists>(k, p) \<in> set scopes. \<not> up_to_date p (lookup_key st k))) \<and>
    sy_added res' = sy_added res + length (filter (\<lambda>(k, p). \<not> in_config (lookup_key st k)) scopes) \<and>
    st_plans st' = st_plans st \<and> st_routes st' = st_routes st \<and> st_grouped st' = st_grouped st \<and>
    st_credentials st' = st_credentials st \<and> (wf_map (st_keys st) \<longrightarrow> wf_map (st_keys st'))"
  using assms
proof (induction scopes arbitrary: res changed st)
  case Nil
  then show ?case by simp
next
  case (Cons e scopes)
  obtain scope preview where e: "e = (scope, preview)" by (cases e)
  have s: "scope \<noteq> []" "wf_map scopes" "\<not> has_key scopes []" "map_of scopes scope = None"
    using Cons.prems(2,3) by (auto simp: e wf_map_def has_key_def map_of_eq_None_iff split: if_splits)
  let ?st = "put_key scope (synced_key preview (lookup_key st scope)) st"
  have f: "foldl sync_listed (if in_config (lookup_key st scope) then res else res\<lparr>sy_added := sy_added res + 1\<rparr>,
      changed \<or> \<not> up_to_date preview (lookup_key st scope), ?st) scopes = (res', changed', st')"
    using Cons.prems(1) sync_listed_eq [OF s(1), of res changed st preview] by (simp add: e)
  have other: "k \<noteq> scope" if "(k, p) \<in> set scopes" for k p using s(4) that by (auto simp: map_of_eq_None_iff image_iff)
  have flt: "filter (\<lambda>(k, p). \<not> in_config (lookup_key ?st k)) scopes = filter (\<lambda>(k, p). \<not> in_config (lookup_key st k)) scopes"
    by (rule filter_cong) (auto dest: other)
  have ex: "(\<exists>(k, p) \<in> set scopes. \<not> up_to_date p (lookup_key ?st k)) \<longleftrightarrow> (\<exists>(k, p) \<in> set scopes. \<not> up_to_date p (lookup_key st k))"
    by (rule bex_cong) (auto dest: other)
  note IH = Cons.IH [OF f s(2,3), unfolded flt ex]
  have "lookup_key st' k = (case map_of (e # scopes) k of None \<Rightarrow> lookup_key st k | Some p \<Rightarrow> Some (synced_key p (lookup_key st k)))" for k
  proof (cases "k = scope")
    case True
    then show ?thesis using IH s(4) by (simp add: e)
  next
    case False
    then show ?thesis using IH by (cases "map_of scopes k") (simp_all add: e)
  qed
  then show ?case using IH by (simp add: e)
qed

lemma lookup_map_values: "lookup_key (st\<lparr>st_keys := map_values f (st_keys st)\<rparr>) k = map_option (f k) (lookup_key st k)"
  by (simp add: lookup_key_def)

lemma missing_count_eq:
  assumes "\<And>k. \<not> has_key scopes k \<Longrightarrow> map_of m k = map_of m' k" "wf_map m" "wf_map m'"
  shows "length (filter (\<lambda>(k, key). \<not> has_key scopes k \<and> P key) m) = length (filter (\<lambda>(k, key). \<not> has_key scopes k \<and> P key) m')"
proof -
  have d: "distinct (filter (\<lambda>(k, key). \<not> has_key scopes k \<and> P key) x)" if "wf_map x" for x
    using that by (auto simp: wf_map_def distinct_map intro: distinct_filter)
  have "set (filter (\<lambda>(k, key). \<not> has_key scopes k \<and> P key) m) = set (filter (\<lambda>(k, key). \<not> has_key scopes k \<and> P key) m')"
    using assms by (auto simp: wf_map_mem_iff)
  then show ?thesis using d assms(2,3) by (metis distinct_card)
qed

lemma sync_keys_Inr:
  assumes "sync_keys scopes now st = Inr (v, ch, st')" "wf_map scopes" "\<not> has_key scopes []" "wf_map (st_keys st)"
  shows "lookup_key st' k = (case map_of scopes k of
           Some p \<Rightarrow> Some (synced_key p (lookup_key st k))
         | None \<Rightarrow> map_option (\<lambda>key. if ks_in_config key then key\<lparr>ks_in_config := False, ks_deleted_at := now\<rparr> else key) (lookup_key st k))"
    "st_plans st' = st_plans st" "st_routes st' = st_routes st" "st_grouped st' = st_grouped st"
    "st_credentials st' = st_credentials st" "wf_map (st_keys st')"
    "sy_added v = length (filter (\<lambda>(k, p). \<not> in_config (lookup_key st k)) scopes)"
    "sy_deleted v = missing_count scopes st"
    "ch_all_keys ch \<longleftrightarrow> (\<exists>(k, p) \<in> set scopes. \<not> up_to_date p (lookup_key st k)) \<or> missing_count scopes st > 0"
    "\<not> ch_all_keys ch \<Longrightarrow> ch = no_changes"
proof -
  obtain res changed st1 where f: "foldl sync_listed (\<lparr>sy_added = 0, sy_deleted = 0\<rparr>, False, st) scopes = (res, changed, st1)"
    by (metis prod_cases3)
  note s = sync_fold [OF f assms(2,3)]
  have st': "st' = st1\<lparr>st_keys := map_values (sync_missing scopes now) (st_keys st1)\<rparr>"
    and v: "v = res\<lparr>sy_deleted := missing_count scopes st1\<rparr>"
    and ch: "ch = (if changed \<or> missing_count scopes st1 > 0 then no_changes\<lparr>ch_all_keys := True\<rparr> else no_changes)"
    using assms(1) by (auto simp: sync_keys_def f Let_def)
  have wf: "wf_map (st_keys st1)" using s assms(4) by blast
  have gone: "missing_count scopes st1 = missing_count scopes st"
    unfolding missing_count_def by (rule missing_count_eq) (use s wf assms(4) in \<open>auto simp: lookup_key_def has_key_def\<close>)
  show "lookup_key st' k = (case map_of scopes k of
           Some p \<Rightarrow> Some (synced_key p (lookup_key st k))
         | None \<Rightarrow> map_option (\<lambda>key. if ks_in_config key then key\<lparr>ks_in_config := False, ks_deleted_at := now\<rparr> else key) (lookup_key st k))"
    unfolding st' lookup_map_values using s
    by (cases "map_of scopes k") (auto simp: sync_missing_def has_key_def cong: map_option_cong)
  show "st_plans st' = st_plans st" "st_routes st' = st_routes st" "st_grouped st' = st_grouped st"
    "st_credentials st' = st_credentials st" "wf_map (st_keys st')"
    "sy_added v = length (filter (\<lambda>(k, p). \<not> in_config (lookup_key st k)) scopes)"
    "sy_deleted v = missing_count scopes st"
    using s wf gone by (simp_all add: st' v)
  show "ch_all_keys ch \<longleftrightarrow> (\<exists>(k, p) \<in> set scopes. \<not> up_to_date p (lookup_key st k)) \<or> missing_count scopes st > 0"
    "\<not> ch_all_keys ch \<Longrightarrow> ch = no_changes"
    using s by (auto simp: ch gone no_changes_def)
qed

lemma missing_count_0: "wf_map (st_keys st) \<Longrightarrow> missing_count scopes st = 0 \<Longrightarrow> lookup_key st k = Some key \<Longrightarrow>
    \<not> has_key scopes k \<Longrightarrow> \<not> ks_in_config key"
  by (auto simp: missing_count_def filter_empty_conv lookup_key_def dest: map_of_SomeD)

lemma sync_keys_sound:
  assumes "sync_keys scopes now st = Inr (v, ch, st')" "wf_map scopes" "\<not> has_key scopes []" "wf_map (st_keys st)"
  shows "sound_step st st' ch"
proof -
  note s = sync_keys_Inr [OF assms]
  have "lookup_key st' k = lookup_key st k" if "\<not> covers_key ch k" for k
  proof -
    have "\<not> ch_all_keys ch" using that by (simp add: covers_key_def)
    then have u: "\<And>p. map_of scopes k = Some p \<Longrightarrow> up_to_date p (lookup_key st k)" "missing_count scopes st = 0"
      using s(9) by (auto dest: map_of_SomeD)
    show ?thesis
    proof (cases "map_of scopes k")
      case (Some p)
      then show ?thesis using u(1) s(1) by (simp add: up_to_date_def)
    next
      case None
      then show ?thesis using s(1) missing_count_0 [OF assms(4) u(2), of k]
        by (cases "lookup_key st k") (simp_all add: has_key_def)
    qed
  qed
  then show ?thesis by (intro sound_step_flat) (auto simp: s split: option.splits)
qed

text \<open>The scopes of a list of keys.\<close>

lemma list_scope_props:
  "wf_map m \<Longrightarrow> wf_map (list_scope m key)" "has_key m k \<Longrightarrow> has_key (list_scope m key) k"
  "CallerScope key \<noteq> [] \<Longrightarrow> has_key (list_scope m key) (CallerScope key)"
  "map_of (list_scope m key) k = Some p \<Longrightarrow> map_of m k = Some p \<or> (k = CallerScope key \<and> k \<noteq> [] \<and> p = PreviewKey key)"
  by (auto simp: list_scope_def Let_def split: if_splits)

lemma listed_scopes_fold:
  "(wf_map m \<longrightarrow> wf_map (foldl list_scope m keys)) \<and>
    (\<forall>k p. map_of (foldl list_scope m keys) k = Some p \<longrightarrow>
       map_of m k = Some p \<or> (\<exists>key \<in> set keys. k = CallerScope key \<and> k \<noteq> [] \<and> p = PreviewKey key)) \<and>
    (\<forall>k. has_key m k \<longrightarrow> has_key (foldl list_scope m keys) k) \<and>
    (\<forall>key \<in> set keys. CallerScope key \<noteq> [] \<longrightarrow> has_key (foldl list_scope m keys) (CallerScope key))"
proof (induction keys arbitrary: m)
  case (Cons key keys)
  have "map_of (list_scope m key) k = Some p \<or> (\<exists>key \<in> set keys. k = CallerScope key \<and> k \<noteq> [] \<and> p = PreviewKey key)"
    if "map_of (foldl list_scope m (key # keys)) k = Some p" for k p using Cons that by simp
  then have "map_of m k = Some p \<or> (\<exists>key' \<in> set (key # keys). k = CallerScope key' \<and> k \<noteq> [] \<and> p = PreviewKey key')"
    if "map_of (foldl list_scope m (key # keys)) k = Some p" for k p
    using that list_scope_props(4) [of m key k p] by (metis list.set_intros)
  then show ?case using Cons [of "list_scope m key"] list_scope_props(1-3) [where m = m] by auto
qed auto

lemma listed_scopes_props:
  "wf_map (listed_scopes keys)" "\<not> has_key (listed_scopes keys) []"
  "map_of (listed_scopes keys) k = Some p \<Longrightarrow> \<exists>key \<in> set keys. k = CallerScope key \<and> k \<noteq> [] \<and> p = PreviewKey key"
  "key \<in> set keys \<Longrightarrow> CallerScope key \<noteq> [] \<Longrightarrow> has_key (listed_scopes keys) (CallerScope key)"
proof -
  note f = listed_scopes_fold [of "[]" keys, folded listed_scopes_def]
  show "wf_map (listed_scopes keys)" "key \<in> set keys \<Longrightarrow> CallerScope key \<noteq> [] \<Longrightarrow> has_key (listed_scopes keys) (CallerScope key)"
    using f by auto
  show *: "map_of (listed_scopes keys) k = Some p \<Longrightarrow> \<exists>key \<in> set keys. k = CallerScope key \<and> k \<noteq> [] \<and> p = PreviewKey key" for k p
    using f by auto
  show "\<not> has_key (listed_scopes keys) []" using * [of "[]"] by (cases "map_of (listed_scopes keys) []") (auto simp: has_key_def)
qed

section \<open>Keys stay in order\<close>

text \<open>Joining the ends of a trimmed string gives a trimmed string: white space is at most three bytes long.\<close>

lemma white_short: "w \<in> set white_space \<Longrightarrow> length w \<le> 3"
  by (auto simp: white_space_def)

lemma prefix_of_append: "prefix w (a @ m) \<Longrightarrow> length w \<le> length a \<Longrightarrow> prefix w a"
  by (auto simp: prefix_def append_eq_append_conv2)

lemma trimmed_ends:
  assumes "trimmed k" "prefix a k" "3 \<le> length a" "suffix b k" "3 \<le> length b"
  shows "trimmed (a @ m @ b)"
proof -
  have "\<not> prefix w (a @ m @ b)" if w: "w \<in> set white_space" "w \<noteq> []" for w
  proof
    assume "prefix w (a @ m @ b)"
    then have "prefix w a" using prefix_of_append white_short [OF w(1)] assms(3) by fastforce
    then have "prefix w k" using assms(2) by (rule prefix_order.trans)
    then show False using assms(1) w by (auto simp: trimmed_def front_clean_def)
  qed
  moreover have "\<not> prefix (rev w) (rev (a @ m @ b))" if w: "w \<in> set white_space" "w \<noteq> []" for w
  proof
    assume "prefix (rev w) (rev (a @ m @ b))"
    then have "prefix (rev w) (rev b)"
      using prefix_of_append [of "rev w" "rev b" "rev m @ rev a"] white_short [OF w(1)] assms(5) by simp
    then have "prefix (rev w) (rev k)" using assms(4) by (metis prefix_order.trans suffix_to_prefix)
    then show False using assms(1) w by (auto simp: trimmed_def front_clean_def)
  qed
  ultimately show ?thesis by (auto simp: trimmed_def front_clean_def)
qed

lemma PreviewKey_visible:
  assumes "TrimSpace key \<noteq> []"
  shows "TrimSpace (PreviewKey key) \<noteq> []"
proof (cases "length (TrimSpace key) \<le> 12")
  case True
  then have "PreviewKey key = replicate (length (TrimSpace key)) (CHR ''*'')" using assms by (simp add: PreviewKey_def Let_def)
  moreover have "list_all visible (replicate n (CHR ''*''))" for n by (simp add: list_all_iff visible_def)
  ultimately show ?thesis using assms TrimSpace_visible by fastforce
next
  case False
  let ?k = "TrimSpace key"
  have "trimmed (take 6 ?k @ [CHR 0xE2, CHR 0x80, CHR 0xA6] @ drop (length ?k - 4) ?k)"
    by (rule trimmed_ends [of ?k]) (use False in \<open>auto simp: take_is_prefix suffix_drop\<close>)
  then show ?thesis using False assms by (simp add: PreviewKey_def Let_def TrimSpace_id)
qed

lemma unbound_ok:
  "key_ok plans scope key \<Longrightarrow> key_ok plans scope (key\<lparr>ks_plan := [], ks_cycles := []\<rparr>)"
  by (simp add: key_ok_iff cycles_ok_unbound)

lemma cleared_ok:
  "plans_ok plans \<Longrightarrow> key_ok plans scope key \<Longrightarrow> key_ok plans scope (key\<lparr>ks_cycles := []\<rparr>)"
  using cycles_ok_filter [of plans key "\<lambda>_. False"] by (simp add: key_ok_iff)

lemma bind_key_ok:
  assumes "state_ok st" "bind_key scope planID st = Inr (v, ch, st')"
  shows "state_ok st'"
proof -
  obtain plan key where k: "FindPlan (st_plans st) planID = Some plan" "lookup_key st scope = Some key"
    "st' = st \<or> st' = put_key scope (key\<lparr>ks_cycles := [], ks_plan := pln_id plan\<rparr>) st"
    using assms(2) by (auto simp: bind_key_def liveKey_Some split: option.splits if_splits)
  have p: "plans_ok (st_plans st)" and o: "key_ok (st_plans st) scope key" using assms(1) k by (auto simp: state_ok_def)
  have "FindPlan (st_plans st) (pln_id plan) = Some plan" using FindPlan_ok [OF p k(1)] by blast
  then have "key_ok (st_plans st) scope (key\<lparr>ks_cycles := [], ks_plan := pln_id plan\<rparr>)"
    using o by (simp add: key_ok_iff cycles_ok_fresh)
  then show ?thesis using k(3) assms(1) by (auto intro: state_ok_put)
qed

lemma unbind_key_ok: "state_ok st \<Longrightarrow> unbind_key scope st = Inr (v, ch, st') \<Longrightarrow> state_ok st'"
  by (auto simp: unbind_key_def liveKey_Some split: option.splits if_splits
      intro: state_ok_put [OF _ unbound_ok [OF state_ok_key]])

lemma label_ok: "key_ok plans scope key \<Longrightarrow> key_ok plans scope (key\<lparr>ks_label := label\<rparr>)"
  using cycles_ok_cong [of "key\<lparr>ks_label := label\<rparr>" key plans] by (simp add: key_ok_iff)

lemma set_label_ok: "state_ok st \<Longrightarrow> set_label scope label st = Inr (v, ch, st') \<Longrightarrow> state_ok st'"
  by (auto simp: set_label_def split: option.splits intro: state_ok_put [OF _ label_ok [OF state_ok_key]])

lemma reset_quota_ok: "state_ok st \<Longrightarrow> reset_quota everyone scopes0 st = Inr (v, ch, st') \<Longrightarrow> state_ok st'"
  by (elim reset_quota_Inr) (auto simp: state_ok_def foldl_clear cleared_ok split: if_splits)

lemma settleKeyPlan_ok:
  "key_ok plans scope key \<Longrightarrow> key_ok plans scope (snd (settleKeyPlan key plan now))"
  by (auto simp: settleKeyPlan_def unbound_ok settle_ok)

lemma key_views_ok: "state_ok st \<Longrightarrow> state_ok (snd (snd (key_views s now st)))"
  by (auto simp: key_views_def Let_def state_ok_def lookup_settle_keys settle_listed_def settleKeyPlan_ok)

lemma key_view_ok: "state_ok st \<Longrightarrow> state_ok (snd (snd (key_view s scope now st)))"
proof (cases "liveKey st scope")
  case (Some key)
  assume ok: "state_ok st"
  let ?plan = "option_or (FindPlan (st_plans st) (ks_plan key)) no_plan"
  have "key_ok (st_plans st) scope (snd (settleKeyPlan key ?plan now))"
    using Some ok by (auto simp: liveKey_Some intro!: settleKeyPlan_ok state_ok_key)
  then show ?thesis using ok Some by (simp add: key_view_def Let_def split_def state_ok_put)
qed (simp add: key_view_def)

lemma normal_no_bindings: "NormalizeRouteBindings no_bindings = Inr no_bindings"
  by code_simp

lemma synced_ok:
  assumes "TrimSpace scope \<noteq> []" "TrimSpace p \<noteq> []" "\<And>key. old = Some key \<Longrightarrow> key_ok plans scope key"
  shows "key_ok plans scope (synced_key p old)"
proof (cases old)
  case None
  then show ?thesis
    using assms(1,2) cycles_ok_unbound [of "synced_key p None" plans] normal_no_bindings
    by (simp add: key_ok_iff synced_key_def option_or_def new_key_def storable_def IsZero_def)
next
  case (Some key)
  then show ?thesis
    using assms cycles_ok_cong [of "synced_key p old" key plans]
    by (simp add: key_ok_iff synced_key_def option_or_def storable_def IsZero_def)
qed

lemma missing_ok:
  "key_ok plans scope key \<Longrightarrow> storable now \<Longrightarrow> key_ok plans scope (key\<lparr>ks_in_config := False, ks_deleted_at := now\<rparr>)"
  using cycles_ok_cong [of "key\<lparr>ks_in_config := False, ks_deleted_at := now\<rparr>" key plans] by (simp add: key_ok_iff)

lemma sync_keys_ok:
  assumes "state_ok st" "storable now" "sync_keys (listed_scopes keys) now st = Inr (v, ch, st')" "wf_map (st_keys st)"
  shows "state_ok st'"
proof -
  note l = listed_scopes_props [where keys = keys]
  note s = sync_keys_Inr [OF assms(3) l(1,2) assms(4)]
  have "key_ok (st_plans st) k key'" if k: "lookup_key st' k = Some key'" for k key'
  proof (cases "map_of (listed_scopes keys) k")
    case (Some p)
    then obtain key where "k = CallerScope key" "k \<noteq> []" "p = PreviewKey key" using l(3) by blast
    moreover from this have "TrimSpace key \<noteq> []" by (auto simp: CallerScope_def)
    ultimately have "key_ok (st_plans st) k (synced_key p (lookup_key st k))"
      using assms(1) by (intro synced_ok) (auto simp: PreviewKey_visible intro: state_ok_key)
    then show ?thesis using s(1) Some k by simp
  next
    case None
    then obtain key where "lookup_key st k = Some key"
      "key' = (if ks_in_config key then key\<lparr>ks_in_config := False, ks_deleted_at := now\<rparr> else key)"
      using s(1) [of k] k None by (cases "lookup_key st k") simp_all
    then show ?thesis using assms(1,2) missing_ok by (auto dest: state_ok_key)
  qed
  then show ?thesis using assms(1) s(2,3) by (simp add: state_ok_def)
qed

section \<open>Properties\<close>

lemma SyncKeys_Inr:
  assumes "SyncKeys E keys allowEmpty s = (Inr v, s')"
  shows "\<exists>ch. sync_keys (listed_scopes keys) (env_clock E 0) (s_state s) = Inr (v, ch, s_state s')"
    "editConfiguration E (sync_keys (listed_scopes keys) (env_clock E 0)) s = (Inr v, s')"
proof -
  show e: "editConfiguration E (sync_keys (listed_scopes keys) (env_clock E 0)) s = (Inr v, s')"
    using assms by (auto simp: SyncKeys_def Let_def split: if_splits)
  from edit_Inr [OF e] show "\<exists>ch. sync_keys (listed_scopes keys) (env_clock E 0) (s_state s) = Inr (v, ch, s_state s')" .
qed

text \<open>An exhausted window blocks the settled key; admission shows that view.\<close>

lemma settled_blocked:
  assumes "on_plan st scope key plan"
  shows "qv_blocked (quotaView (snd (settleExpiredCycles key now)) plan now) \<longleftrightarrow> (\<exists>w \<in> set (pln_windows plan). exhausted key now w)"
proof -
  have o: "plan_ok plan" "ValidateCycles key plan = Inr ()" "wf_map (ks_cycles key)"
    using assms by (auto simp: on_plan_def)
  obtain b key1 where s: "settleExpiredCycles key now = (b, key1)" by (cases "settleExpiredCycles key now")
  note k1 = settle_lookup [OF s o(3)]
  have v1: "ValidateCycles key1 plan = Inr ()" using k1(4) o(2) by blast
  have live1: "all_live key1 now" by (auto simp: all_live_def k1(1) split: option.splits if_splits)
  have "exhausted key1 now w = exhausted key now w" for w
    by (simp add: exhausted_def live_cycle_def k1(1) split: option.splits)
  then show ?thesis using view_blocked_iff [OF o(1) v1 live1] by (simp add: s)
qed

lemma authorize_view:
  assumes "on_plan st scope key plan" "now_ok instant" "authorize_state scope instant st = (d, ch, st')"
  shows "(qv_blocked (quotaView (snd (settleExpiredCycles key instant)) plan instant) \<longleftrightarrow> \<not> dec_allowed d) \<and>
    (qv_blocked (quotaView (snd (settleExpiredCycles key instant)) plan instant) \<longrightarrow>
       dec_view d = quotaView (snd (settleExpiredCycles key instant)) plan instant)"
proof
  show "qv_blocked (quotaView (snd (settleExpiredCycles key instant)) plan instant) \<longleftrightarrow> \<not> dec_allowed d"
    using authorize_on_plan [OF assms] settled_blocked [OF assms(1)] by blast
  show "qv_blocked (quotaView (snd (settleExpiredCycles key instant)) plan instant) \<longrightarrow>
       dec_view d = quotaView (snd (settleExpiredCycles key instant)) plan instant"
    using assms by (auto simp: on_plan_def authorize_state_def Let_def split: prod.splits)
qed

text \<open>C31: after a synchronisation every listed key is live and in the configuration, with the plan, spent cycles, label,
  limit and bindings it had before, even if it had been deleted in between; a key an earlier synchronisation saw and
  this one does not list is marked deleted and keeps everything else; keys of other sources stay as they were.\<close>

theorem SyncKeys_ok:
  assumes "store_synced s" "state_ok (s_state s)" "storable (env_clock E 0)" "SyncKeys E keys allowEmpty s = (Inr v, s')"
  shows "store_synced s' \<and> state_ok (s_state s') \<and>
    (\<forall>key \<in> set keys. CallerScope key \<noteq> [] \<longrightarrow>
       (\<exists>k. lookup_key (s_state s') (CallerScope key) = Some k \<and> ks_in_config k \<and> IsZero (ks_deleted_at k) \<and>
          (let old = option_or (lookup_key (s_state s) (CallerScope key)) new_key
           in k = old\<lparr>ks_preview := ks_preview k, ks_deleted_at := 0, ks_in_config := True\<rparr>))) \<and>
    (\<forall>scope. scope \<notin> CallerScope ` set keys \<longrightarrow>
       lookup_key (s_state s') scope =
         map_option (\<lambda>key. if ks_in_config key then key\<lparr>ks_in_config := False, ks_deleted_at := env_clock E 0\<rparr> else key)
           (lookup_key (s_state s) scope))"
proof -
  let ?m = "listed_scopes keys"
  note l = listed_scopes_props [where keys = keys]
  have wf: "wf_map (st_keys (s_state s))" using assms(1) by (simp add: store_synced_def state_wf_def)
  obtain ch where f: "sync_keys ?m (env_clock E 0) (s_state s) = Inr (v, ch, s_state s')"
    using SyncKeys_Inr(1) [OF assms(4)] by blast
  note r = sync_keys_Inr(1) [OF f l(1,2) wf]
  have "store_synced (snd (editConfiguration E (sync_keys ?m (env_clock E 0)) s))"
    by (rule editConfiguration_keeps_sync [OF assms(1)]) (rule sync_keys_sound [OF _ l(1,2) wf])
  then have "store_synced s'" using SyncKeys_Inr(2) [OF assms(4)] by simp
  moreover have "state_ok (s_state s')" by (rule sync_keys_ok [OF assms(2,3) f wf])
  moreover have "\<exists>k. lookup_key (s_state s') (CallerScope key) = Some k \<and> ks_in_config k \<and> IsZero (ks_deleted_at k) \<and>
          (let old = option_or (lookup_key (s_state s) (CallerScope key)) new_key
           in k = old\<lparr>ks_preview := ks_preview k, ks_deleted_at := 0, ks_in_config := True\<rparr>)"
    if key: "key \<in> set keys" "CallerScope key \<noteq> []" for key
  proof -
    obtain p where "map_of ?m (CallerScope key) = Some p" using l(4) [OF key] by (auto simp: has_key_def)
    then show ?thesis using r [of "CallerScope key"] by (simp add: synced_key_def IsZero_def)
  qed
  moreover have "lookup_key (s_state s') scope =
         map_option (\<lambda>key. if ks_in_config key then key\<lparr>ks_in_config := False, ks_deleted_at := env_clock E 0\<rparr> else key)
           (lookup_key (s_state s) scope)" if "scope \<notin> CallerScope ` set keys" for scope
  proof -
    have "map_of ?m scope = None" using l(3) [of scope] that by (cases "map_of ?m scope") auto
    then show ?thesis using r [of scope] by simp
  qed
  ultimately show ?thesis by blast
qed

lemma normalized_scope: "normalizeScope scope = scope \<Longrightarrow> TrimSpace scope = scope"
  by (metis TrimSpace_id normalizeScope_def trimmed_TrimSpace trimmed_ToLower)

lemma key_view_settled:
  assumes "on_plan st scope key plan" "IsZero (ks_deleted_at key)"
  shows "\<exists>ch. key_view s scope now st =
    (Some (keyView scope (snd (settleExpiredCycles key now)) plan (active_of (s_active_by_scope s) scope) now), ch,
     put_key scope (snd (settleExpiredCycles key now)) st)"
proof -
  have "liveKey st scope = Some key" "option_or (FindPlan (st_plans st) (ks_plan key)) no_plan = plan"
    using assms by (auto simp: on_plan_def liveKey_Some)
  moreover have "settleKeyPlan key plan now = settleExpiredCycles key now"
    using assms by (auto simp: on_plan_def settleKeyPlan_def)
  ultimately show ?thesis by (auto simp: key_view_def Let_def split: prod.splits)
qed

text \<open>C32: what the view of a key says is what admission does. A live key on a plan is shown as blocked exactly when a
  request at that instant is refused, and the instant shown for the retry is the one the refusal carries.\<close>

theorem KeyViewForScope_agrees:
  assumes "on_plan (s_state s) scope key plan" "IsZero (ks_deleted_at key)" "normalizeScope scope = scope" "scope \<noteq> []"
    "now_ok (env_clock E 0)" "KeyViewForScope E scope s = (v, s1)" "Authorize E scope (env_clock E 0) s = (d, s2)"
  shows "\<exists>view. v = Some view \<and> kv_plan view = pln_id plan \<and> (qv_blocked (kv_quota view) \<longleftrightarrow> \<not> dec_allowed d) \<and>
    (qv_blocked (kv_quota view) \<longrightarrow> qv_retry_at (kv_quota view) = qv_retry_at (dec_view d))"
proof -
  let ?now = "env_clock E 0"
  let ?key1 = "snd (settleExpiredCycles key ?now)"
  obtain ch where kv: "key_view s scope ?now (s_state s) =
      (Some (keyView scope ?key1 plan (active_of (s_active_by_scope s) scope) ?now), ch, put_key scope ?key1 (s_state s))"
    using key_view_settled [OF assms(1,2)] by blast
  then have v: "v = Some (keyView scope ?key1 plan (active_of (s_active_by_scope s) scope) ?now)"
    using assms(3,4,6) updateResult_cases [where fn = "key_view s scope ?now", OF _ kv] by (simp add: KeyViewForScope_def Let_def)
  obtain ch' where a: "authorize_state scope ?now (s_state s) = (d, ch', s_state s2)"
    using Authorize_unfold [OF normalized_scope [OF assms(3)] assms(4,7)] by auto
  have "ks_plan ?key1 = pln_id plan" using assms(1) by (simp add: settleExpiredCycles_def Let_def on_plan_def)
  moreover have "qv_blocked (quotaView ?key1 plan ?now) \<longleftrightarrow> \<not> dec_allowed d"
    using authorize_view [OF assms(1,5) a] by blast
  moreover have "qv_blocked (quotaView ?key1 plan ?now) \<longrightarrow> dec_view d = quotaView ?key1 plan ?now"
    using authorize_view [OF assms(1,5) a] by blast
  ultimately show ?thesis using v by (auto simp: keyView_def)
qed


definition reset_target :: "ResetRequest \<Rightarrow> State \<Rightarrow> string \<Rightarrow> bool" where
  "reset_target req st scope \<longleftrightarrow>
     (if rq_mode req = ''global'' then resettable st scope else scope \<in> set (normalizeScopes (rq_scopes req)))"

lemma resettable_key: "resettable st scope \<Longrightarrow> scope \<in> set (mkeys (st_keys st))"
  by (force simp: resettable_def liveKey_def lookup_key_def split: option.splits if_splits dest: map_of_SomeD)

lemma ResetQuota_Inr:
  assumes "ResetQuota E req s = (Inr v, s')"
  shows "\<exists>everyone scopes ch. reset_quota everyone scopes (s_state s) = Inr (v, ch, s_state s') \<and>
      editConfiguration E (reset_quota everyone scopes) s = (Inr v, s') \<and>
      (\<forall>k. reset_target req (s_state s) k \<longleftrightarrow>
         k \<in> set (if everyone then scopes @ filter (resettable (s_state s)) (mkeys (st_keys (s_state s))) else scopes))"
proof -
  obtain everyone where e: "editConfiguration E (reset_quota everyone (normalizeScopes (rq_scopes req))) s = (Inr v, s')"
    "everyone = (rq_mode req = ''global'')" "everyone \<longrightarrow> normalizeScopes (rq_scopes req) = []"
    using assms by (auto simp: ResetQuota_def Let_def split: if_splits)
  moreover obtain ch where "reset_quota everyone (normalizeScopes (rq_scopes req)) (s_state s) = Inr (v, ch, s_state s')"
    using edit_Inr [OF e(1)] by blast
  ultimately show ?thesis
    using resettable_key by (intro exI [of _ everyone] exI [of _ "normalizeScopes (rq_scopes req)"] exI [of _ ch])
      (auto simp: reset_target_def)
qed

lemma fresh_key_admitted:
  assumes "on_plan st scope key plan" "ks_cycles key = []" "now_ok t" "authorize_state scope t st = (d, ch, st')"
  shows "dec_allowed d"
  using authorize_on_plan [OF assms(1,3,4)] assms(2) by (auto simp: exhausted_def live_cycle_def)

text \<open>A quota reset is all or nothing. When it fails nothing changes; when it succeeds, every key it names is live and
  on a plan, has no spent cycle left and is admitted by the next request, whatever it had used up; all other keys keep
  their cycles.\<close>

theorem ResetQuota_ok:
  assumes "store_synced s" "state_ok (s_state s)" "ResetQuota E req s = (r, s')"
  shows "store_synced s' \<and> state_ok (s_state s') \<and>
    (case r of
       Inl e \<Rightarrow> s_state s' = s_state s
     | Inr v \<Rightarrow> \<forall>scope.
         if reset_target req (s_state s) scope
         then resettable (s_state s) scope \<and>
           (\<forall>t d s2. now_ok t \<and> \<not> IsZero t \<and> TrimSpace scope = scope \<and> scope \<noteq> [] \<and> Authorize E scope t s' = (d, s2) \<longrightarrow> dec_allowed d)
         else lookup_key (s_state s') scope = lookup_key (s_state s) scope)"
proof (cases r)
  case (Inl e)
  have "s_state s' = s_state s \<and> s_repo s' = s_repo s \<and> s_dirty s' = s_dirty s"
    using assms(3) unfolding Inl by (auto simp: ResetQuota_def Let_def split: if_splits dest: edit_Inl)
  then show ?thesis using assms(1,2) Inl synced_cong [of s' s] by simp
next
  case (Inr v)
  obtain everyone scopes ch where f: "reset_quota everyone scopes (s_state s) = Inr (v, ch, s_state s')"
    "editConfiguration E (reset_quota everyone scopes) s = (Inr v, s')"
    "\<And>k. reset_target req (s_state s) k \<longleftrightarrow>
         k \<in> set (if everyone then scopes @ filter (resettable (s_state s)) (mkeys (st_keys (s_state s))) else scopes)"
    using ResetQuota_Inr [OF assms(3) [unfolded Inr]] by blast
  have "store_synced (snd (editConfiguration E (reset_quota everyone scopes) s))"
    by (rule editConfiguration_keeps_sync [OF assms(1)]) (rule reset_quota_sound)
  then have sync: "store_synced s'" by (simp add: f(2))
  have ok: "state_ok (s_state s')" by (rule reset_quota_ok [OF assms(2) f(1)])
  let ?all = "if everyone then scopes @ filter (resettable (s_state s)) (mkeys (st_keys (s_state s))) else scopes"
  have r: "list_all (resettable (s_state s)) ?all" "s_state s' = foldl clear_cycles (s_state s) ?all"
    using f(1) by (auto elim!: reset_quota_Inr)
  have named: "resettable (s_state s) scope \<and>
      (\<forall>t d s2. now_ok t \<and> \<not> IsZero t \<and> TrimSpace scope = scope \<and> scope \<noteq> [] \<and> Authorize E scope t s' = (d, s2) \<longrightarrow> dec_allowed d)"
    if t: "reset_target req (s_state s) scope" for scope
  proof -
    have m: "scope \<in> set ?all" using f(3) t by blast
    then have rs: "resettable (s_state s) scope" using r(1) by (auto simp: list_all_iff split: if_splits)
    then obtain key where key: "lookup_key (s_state s) scope = Some key" "ks_plan key \<noteq> []"
      by (auto simp: resettable_def liveKey_def split: option.splits if_splits)
    have k': "lookup_key (s_state s') scope = Some (key\<lparr>ks_cycles := []\<rparr>)"
      using m key(1) unfolding r(2) by (simp only: foldl_clear) simp
    have po: "plans_ok (st_plans (s_state s'))" using ok by (simp add: state_ok_def)
    obtain plan where plan: "FindPlan (st_plans (s_state s')) (ks_plan (key\<lparr>ks_cycles := []\<rparr>)) = Some plan"
      "pln_id plan = ks_plan (key\<lparr>ks_cycles := []\<rparr>)" "plan_ok plan" "ValidateCycles (key\<lparr>ks_cycles := []\<rparr>) plan = Inr ()"
      by (rule key_ok_bound [OF po state_ok_key [OF ok k']]) (use key(2) in auto)
    have on: "on_plan (s_state s') scope (key\<lparr>ks_cycles := []\<rparr>) plan"
      using k' key(2) plan by (simp add: on_plan_def)
    have "dec_allowed d" if a: "now_ok t" "\<not> IsZero t" "TrimSpace scope = scope" "scope \<noteq> []" "Authorize E scope t s' = (d, s2)" for t d s2
    proof -
      obtain ch2 where "authorize_state scope t (s_state s') = (d, ch2, s_state s2)"
        using Authorize_unfold [OF a(3,4,5)] a(2) by auto
      from fresh_key_admitted [OF on _ a(1) this] show ?thesis by simp
    qed
    then show ?thesis using rs by blast
  qed
  have other: "lookup_key (s_state s') scope = lookup_key (s_state s) scope" if "\<not> reset_target req (s_state s) scope" for scope
    using that f(3) [of scope] unfolding r(2) foldl_clear by simp
  show ?thesis unfolding Inr sum.case
    by (intro conjI sync ok allI if_bool_eq_conj [THEN iffD2]) (use named other in blast)+
qed

section \<open>Examples\<close>

definition memory_store :: Store where
  "memory_store = new_store\<lparr>s_state := small_state\<rparr>"

lemma memory_store_state [simp]: "s_state memory_store = small_state"
  by (simp add: memory_store_def)

lemma memory_store_synced: "store_synced memory_store"
  using small_store_synced by (simp add: store_synced_def memory_store_def small_store_def new_store_def)

lemma memory_store_edit: "fn small_state = Inr (v, ch, st) \<Longrightarrow> \<exists>s'. editConfiguration E fn memory_store = (Inr v, s')"
  by (simp add: editConfiguration_def memory_store_def new_store_def Let_def)

lemma small_lookup: "lookup_key small_state k = (if k = ''ab'' then Some bound_key else None)"
  by (auto simp: small_state_def lookup_key_def)

lemma small_state_ok: "state_ok small_state"
proof -
  have p: "plans_ok (st_plans small_state)"
    using free_plan_ok by (simp add: plans_ok_def small_state_def) (simp add: free_plan_def)
  moreover have "routes_ok (st_routes small_state)" using small_loadable by (simp add: routes_ok_def loadable_def)
  moreover have "key_ok (st_plans small_state) k key" if "lookup_key small_state k = Some key" for k key
    using small_loadable that by (auto simp: loadable_def key_ok_def small_lookup cycles_sane_def bound_key_def new_key_def split: if_splits)
  ultimately show ?thesis by (simp add: state_ok_def)
qed

theorem SyncKeys_ok_witness:
  "\<exists>v s' k old. SyncKeys calm [''k''] False memory_store = (Inr v, s') \<and>
     lookup_key (s_state s') (CallerScope ''k'') = Some k \<and> ks_in_config k \<and>
     lookup_key (s_state s') ''ab'' = Some old \<and> \<not> ks_in_config old \<and> ks_plan old = ''p''"
proof -
  have t: "TrimSpace ''k'' = ''k''" by (rule TrimSpace_visible) (simp add: visible_def)
  then have c: "CallerScope ''k'' \<noteq> []" by (auto simp: CallerScope_def simp flip: length_0_conv)
  then have l: "listed_scopes [''k''] \<noteq> []" by (simp add: listed_scopes_def list_scope_def Let_def)
  obtain v ch st where f: "sync_keys (listed_scopes [''k'']) (env_clock calm 0) small_state = Inr (v, ch, st)"
    by (simp add: sync_keys_def Let_def split_def)
  from memory_store_edit [of "sync_keys (listed_scopes [''k'']) (env_clock calm 0)", OF f] l obtain s' where
    s: "SyncKeys calm [''k''] False memory_store = (Inr v, s')" by (fastforce simp: SyncKeys_def Let_def)
  have "storable (env_clock calm 0)" by (simp add: storable_def calm_def time_of_unix_def IsZero_def)
  note r = SyncKeys_ok [OF memory_store_synced _ this s, simplified, OF small_state_ok]
  have "length (CallerScope ''k'') = 64" using c CallerScope_form [of "''k''"] by blast
  then have "''ab'' \<noteq> CallerScope ''k''" by (auto dest!: arg_cong [where f = length])
  with r c s show ?thesis by (auto simp: small_lookup bound_key_def new_key_def)
qed

theorem KeyViewForScope_agrees_witness:
  "\<exists>view s1 d s2. KeyViewForScope calm ''ab'' memory_store = (Some view, s1) \<and>
     Authorize calm ''ab'' (env_clock calm 0) memory_store = (d, s2) \<and> dec_allowed d \<and> \<not> qv_blocked (kv_quota view)"
proof -
  obtain v s1 where v: "KeyViewForScope calm ''ab'' memory_store = (v, s1)" by fastforce
  obtain d s2 where a: "Authorize calm ''ab'' (env_clock calm 0) memory_store = (d, s2)" by fastforce
  have n: "now_ok (env_clock calm 0)" by (simp add: now_ok_def clock_ok_def calm_def)
  have p: "on_plan (s_state memory_store) ''ab'' bound_key free_plan" using small_on_plan by simp
  have x: "IsZero (ks_deleted_at bound_key)" "normalizeScope ''ab'' = ''ab''"
    by (simp_all add: bound_key_def new_key_def IsZero_def normalizeScope_def ToLower_def lower_byte_def is_upper_def)
  obtain ch where "authorize_state ''ab'' (env_clock calm 0) small_state = (d, ch, s_state s2)"
    using Authorize_unfold [OF _ _ a] by auto
  then have "dec_allowed d"
    using fresh_key_admitted [OF p _ n] by (simp add: bound_key_def new_key_def)
  then show ?thesis using KeyViewForScope_agrees [OF p x _ n v a] v a by auto
qed

theorem ResetQuota_ok_witness:
  "\<exists>v s'. ResetQuota calm \<lparr>rq_mode = ''global'', rq_scopes = []\<rparr> memory_store = (Inr v, s') \<and> state_ok (s_state s') \<and>
     (\<forall>d s2. Authorize calm ''ab'' (env_clock calm 0) s' = (d, s2) \<longrightarrow> dec_allowed d)"
proof -
  let ?req = "\<lparr>rq_mode = ''global'', rq_scopes = []\<rparr>"
  have rs: "resettable small_state ''ab''"
    by (simp add: resettable_def liveKey_def small_lookup bound_key_def new_key_def IsZero_def)
  obtain v ch st where f: "reset_quota True [] small_state = Inr (v, ch, st)"
    by (auto simp: reset_quota_def Let_def list_all_iff)
  from memory_store_edit [of "reset_quota True []", OF f] obtain s' where
    s: "ResetQuota calm ?req memory_store = (Inr v, s')"
    by (fastforce simp: ResetQuota_def Let_def normalizeScopes_def dedupe_def)
  have n: "now_ok (env_clock calm 0)" "\<not> IsZero (env_clock calm 0)"
    by (simp_all add: now_ok_def clock_ok_def calm_def) (simp add: IsZero_def time_of_unix_def)
  have "reset_target ?req small_state ''ab''" using rs by (simp add: reset_target_def)
  with ResetQuota_ok [OF memory_store_synced _ s] small_state_ok n
  have "state_ok (s_state s') \<and> (TrimSpace ''ab'' = ''ab'' \<and> ''ab'' \<noteq> [] \<longrightarrow>
      (\<forall>d s2. Authorize calm ''ab'' (env_clock calm 0) s' = (d, s2) \<longrightarrow> dec_allowed d))"
    unfolding memory_store_state sum.case by meson
  then show ?thesis using s by simp
qed

end
