(* ===== verification/PlanOps.thy ===== *)
theory PlanOps
  imports Keys
begin

text \<open>
  The store's operations on subscription plans: \<open>Plans\<close>, \<open>CreatePlanWithBindings\<close>, \<open>UpdatePlanWithBindings\<close> and
  \<open>DeletePlan\<close> of \<^verbatim>\<open>internal/billing/plan.go\<close>. Each edit checks everything before it touches the state, so
  it either takes effect as a whole or not at all. \<open>rand_id\<close> answers \<open>rand.Read\<close> for the windows without an
  identifier; a free identifier that does not exist is an error of the model that \<open>freeID_plan\<close> rules out.
\<close>

section \<open>Operations\<close>

definition Plans :: "Store \<Rightarrow> Plan list" where
  "Plans s = st_plans (s_state s)"

definition plan_taken :: "State \<Rightarrow> string \<Rightarrow> bool" where
  "plan_taken st pid \<longleftrightarrow> FindPlan (st_plans st) pid \<noteq> None"

text \<open>A key a new plan may take: live, and on no plan yet.\<close>

definition check_unbound :: "State \<Rightarrow> string \<Rightarrow> error + unit" where
  "check_unbound st scope =
     (case liveKey st scope of
        None \<Rightarrow> Inl (notFoundf ''the API key does not exist'')
      | Some key \<Rightarrow> if ks_plan key \<noteq> [] then Inl (conflictf ''the API key is on another plan'') else Inr ())"

definition bind_scope :: "string \<Rightarrow> State \<Rightarrow> string \<Rightarrow> State" where
  "bind_scope pid st scope =
     (case lookup_key st scope of
        None \<Rightarrow> st
      | Some key \<Rightarrow> put_key scope (key\<lparr>ks_plan := pid, ks_cycles := []\<rparr>) st)"

definition create_plan ::
  "env \<Rightarrow> (nat \<Rightarrow> error + string) \<Rightarrow> Plan \<Rightarrow> string list \<Rightarrow> State \<Rightarrow> error + Plan \<times> Changes \<times> State" where
  "create_plan E rand_id plan0 scopes st =
     (case (if pln_id plan0 = [] then freeID (pln_name plan0) ''plan'' (plan_taken st) else Some (pln_id plan0)) of
        None \<Rightarrow> Inl (Plain_Error ''no free identifier'')
      | Some pid \<Rightarrow>
          try_bind (prepareWindows rand_id (pln_windows plan0) [] (env_clock E 0)) (\<lambda>windows.
          let plan1 = plan0\<lparr>pln_id := pid, pln_windows := windows\<rparr>
          in try_bind (Plan_Validate plan1) (\<lambda>_.
             if plan_taken st pid then Inl (conflictf ''the plan exists'')
             else
               let plan = (if pln_name plan1 = [] then plan1\<lparr>pln_name := pid\<rparr> else plan1)
               in try_bind (try_map (check_unbound st) scopes) (\<lambda>_.
                    Inr (plan, no_changes\<lparr>ch_plans := True, ch_keys := scopes\<rparr>,
                         foldl (bind_scope pid) (st\<lparr>st_plans := st_plans st @ [plan]\<rparr>) scopes)))))"

definition CreatePlanWithBindings ::
  "env \<Rightarrow> (nat \<Rightarrow> error + string) \<Rightarrow> Plan \<Rightarrow> string list \<Rightarrow> Store \<Rightarrow> (error + Plan) \<times> Store" where
  "CreatePlanWithBindings E rand_id plan scopes s =
     editConfiguration E (create_plan E rand_id
       (plan\<lparr>pln_id := TrimSpace (pln_id plan), pln_name := TrimSpace (pln_name plan)\<rparr>) (normalizeScopes scopes)) s"

record PlanPatch =
  ppt_id :: string
  ppt_name :: "string option"
  ppt_windows :: "QuotaWindow list option"

text \<open>A key an existing plan may take: on this plan, or live and on no plan.\<close>

definition check_selected :: "string \<Rightarrow> State \<Rightarrow> string \<Rightarrow> error + unit" where
  "check_selected pid st scope =
     (case lookup_key st scope of
        None \<Rightarrow> Inl (notFoundf ''the API key does not exist'')
      | Some key \<Rightarrow>
          if \<not> IsZero (ks_deleted_at key) \<and> ks_plan key \<noteq> pid then Inl (notFoundf ''the API key does not exist'')
          else if ks_plan key \<noteq> [] \<and> ks_plan key \<noteq> pid then Inl (conflictf ''the API key is on another plan'')
          else Inr ())"

text \<open>The windows whose running cycles an edit drops: gone, or on another schedule.\<close>

definition reset_windows :: "QuotaWindow list \<Rightarrow> QuotaWindow list \<Rightarrow> string list" where
  "reset_windows old new = map win_id (filter (\<lambda>w. \<not> list_ex (\<lambda>w'. win_id w' = win_id w \<and> sameSchedule w' w) new) old)"

definition rebind_key :: "string \<Rightarrow> string list option \<Rightarrow> string list \<Rightarrow> string \<Rightarrow> KeyState \<Rightarrow> KeyState" where
  "rebind_key pid selected resets scope key =
     (if ks_plan key \<noteq> pid then key
      else if (case selected of None \<Rightarrow> False | Some scopes \<Rightarrow> scope \<notin> set scopes) then key\<lparr>ks_plan := [], ks_cycles := []\<rparr>
      else key\<lparr>ks_cycles := foldl (\<lambda>m wid. AList.delete wid m) (ks_cycles key) resets\<rparr>)"

definition bind_selected :: "string \<Rightarrow> State \<Rightarrow> string \<Rightarrow> State" where
  "bind_selected pid st scope =
     (case lookup_key st scope of
        None \<Rightarrow> st
      | Some key \<Rightarrow> if ks_plan key = [] then put_key scope (key\<lparr>ks_plan := pid, ks_cycles := []\<rparr>) st else st)"

fun replace_plan :: "string \<Rightarrow> Plan \<Rightarrow> Plan list \<Rightarrow> Plan list" where
  "replace_plan pid plan [] = []"
| "replace_plan pid plan (p # ps) = (if pln_id p = pid then plan # ps else p # replace_plan pid plan ps)"

definition update_plan ::
  "env \<Rightarrow> (nat \<Rightarrow> error + string) \<Rightarrow> PlanPatch \<Rightarrow> string list option \<Rightarrow> State \<Rightarrow> error + Plan \<times> Changes \<times> State" where
  "update_plan E rand_id patch scopes st =
     (case find (\<lambda>p. pln_id p = ppt_id patch) (st_plans st) of
        None \<Rightarrow> Inl (notFoundf ''the plan does not exist'')
      | Some old \<Rightarrow>
          let named = (case ppt_name patch of None \<Rightarrow> old | Some name \<Rightarrow> old\<lparr>pln_name := TrimSpace name\<rparr>)
          in try_bind (case ppt_windows patch of
                         None \<Rightarrow> Inr (pln_windows old)
                       | Some ws \<Rightarrow> prepareWindows rand_id ws (pln_windows old) (env_clock E 0)) (\<lambda>windows.
             let updated = named\<lparr>pln_windows := windows\<rparr>
             in try_bind (Plan_Validate updated) (\<lambda>_.
                let selected = map_option normalizeScopes scopes
                in try_bind (case selected of None \<Rightarrow> Inr [] | Some l \<Rightarrow> try_map (check_selected (ppt_id patch) st) l) (\<lambda>_.
                   let resets = (if ppt_windows patch = None then [] else reset_windows (pln_windows old) windows);
                       st1 = st\<lparr>st_keys := map_values (rebind_key (ppt_id patch) selected resets) (st_keys st)\<rparr>;
                       st2 = foldl (bind_selected (ppt_id patch)) st1 (option_or selected [])
                   in Inr (updated, no_changes\<lparr>ch_plans := True, ch_all_keys := True\<rparr>,
                           st2\<lparr>st_plans := replace_plan (ppt_id patch) updated (st_plans st)\<rparr>)))))"

definition UpdatePlanWithBindings ::
  "env \<Rightarrow> (nat \<Rightarrow> error + string) \<Rightarrow> PlanPatch \<Rightarrow> string list option \<Rightarrow> Store \<Rightarrow> (error + Plan) \<times> Store" where
  "UpdatePlanWithBindings E rand_id patch0 scopes s =
     (let patch = patch0\<lparr>ppt_id := TrimSpace (ppt_id patch0)\<rparr>
      in if ppt_id patch = [] then (Inl (invalidf ''the plan id must not be empty''), s)
         else editConfiguration E (update_plan E rand_id patch scopes) s)"

fun delete_first :: "string \<Rightarrow> Plan list \<Rightarrow> Plan list" where
  "delete_first pid [] = []"
| "delete_first pid (p # ps) = (if pln_id p = pid then ps else p # delete_first pid ps)"

definition release_key :: "string \<Rightarrow> string \<Rightarrow> KeyState \<Rightarrow> KeyState" where
  "release_key pid scope key = (if ks_plan key = pid then key\<lparr>ks_plan := [], ks_cycles := []\<rparr> else key)"

definition delete_plan :: "string \<Rightarrow> State \<Rightarrow> error + nat \<times> Changes \<times> State" where
  "delete_plan pid st =
     (if find (\<lambda>p. pln_id p = pid) (st_plans st) = None then Inl (notFoundf ''the plan does not exist'')
      else Inr (length (filter (\<lambda>(scope, key). ks_plan key = pid) (st_keys st)),
                no_changes\<lparr>ch_plans := True, ch_all_keys := True\<rparr>,
                st\<lparr>st_plans := delete_first pid (st_plans st), st_keys := map_values (release_key pid) (st_keys st)\<rparr>))"

definition DeletePlan :: "env \<Rightarrow> string \<Rightarrow> Store \<Rightarrow> (error + nat) \<times> Store" where
  "DeletePlan E pid0 s =
     (let pid = TrimSpace pid0
      in if pid = [] then (Inl (invalidf ''the plan id must not be empty''), s) else editConfiguration E (delete_plan pid) s)"

section \<open>Schedules\<close>

lemma sameSchedule_refl [simp]: "sameSchedule w w"
  by (simp add: sameSchedule_def)

lemma sameSchedule_dvd: 
  assumes "sameSchedule w w'" "0 < win_period w" "clock_ok (win_anchor w)" "clock_ok (win_anchor w')"
  shows "win_period w dvd Unix (win_anchor w) - Unix (win_anchor w')"
proof -
  have "win_anchor w = win_anchor w' \<or> go_rem (wrap64 (Unix (win_anchor w) - Unix (win_anchor w'))) (win_period w) = 0"
    using assms(1) unfolding sameSchedule_def by (simp only: split: if_splits) blast
  then show ?thesis unfolding clock_ok_diff [OF assms(3,4)] go_rem_0_iff [OF assms(2)] by (elim disjE) simp_all
qed

lemma sameSchedule_grid:
  assumes "sameSchedule w w'" "0 < win_period w" "clock_ok (win_anchor w)" "clock_ok (win_anchor w')" "clock_ok t"
  shows "newCycle w pid t = newCycle w' pid t"
proof -
  have p: "win_period w' = win_period w" "IsZero (win_anchor w') = IsZero (win_anchor w)"
    using assms(1) by (simp_all add: sameSchedule_def split: if_splits)
  show ?thesis
  proof (cases "IsZero (win_anchor w)")
    case True
    then show ?thesis using p by (intro QuotaCycle.equality) (simp_all add: newCycle_end newCycle_since newCycle_free)
  next
    case False
    have "win_period w dvd Unix (win_anchor w) - Unix (win_anchor w')"
      by (rule sameSchedule_dvd [OF assms(1-4)])
    then have "(Unix t - Unix (win_anchor w')) mod win_period w = (Unix t - Unix (win_anchor w)) mod win_period w"
      unfolding mod_eq_dvd_iff by simp
    then have "cyc_start (newCycle w pid t) = cyc_start (newCycle w' pid t)"
      using newCycle_anchored [OF False assms(2,5,3)] newCycle_anchored [OF _ _ assms(5,4)] False p assms(2) by simp
    then show ?thesis using p by (intro QuotaCycle.equality) (simp_all add: newCycle_end newCycle_since)
  qed
qed

lemma sameSchedule_windows:
  assumes "sameSchedule w' w" "plan_ok p" "w \<in> set (pln_windows p)" "plan_ok p'" "w' \<in> set (pln_windows p')" "clock_ok t"
  shows "newCycle w' pid t = newCycle w pid t" "win_period w' = win_period w" "IsZero (win_anchor w') = IsZero (win_anchor w)"
proof -
  show "win_period w' = win_period w" "IsZero (win_anchor w') = IsZero (win_anchor w)"
    using assms(1) by (auto simp: sameSchedule_def split: if_splits)
  have "0 < win_period w'" using plan_okD(5) [OF assms(4,5)] by (simp add: window_ok_def)
  then show "newCycle w' pid t = newCycle w pid t"
    using assms(1,6) clock_ok_window [OF assms(4,5)] clock_ok_window [OF assms(2,3)] by (intro sameSchedule_grid)
qed

text \<open>Two windows are on the same schedule exactly when they open the same cycle at every instant, so that keeping the
  cycles of a window whose schedule an edit kept is right, and dropping the others is needed.\<close>

theorem sameSchedule_iff:
  assumes "plan_ok p" "w \<in> set (pln_windows p)" "plan_ok p'" "w' \<in> set (pln_windows p')"
  shows "sameSchedule w' w \<longleftrightarrow> (\<forall>t. now_ok t \<longrightarrow> newCycle w' pid t = newCycle w pid t)"
proof
  assume "sameSchedule w' w"
  then show "\<forall>t. now_ok t \<longrightarrow> newCycle w' pid t = newCycle w pid t"
    using sameSchedule_windows [OF _ assms(1,2,3,4)] by (simp add: now_ok_def)
next
  assume same: "\<forall>t. now_ok t \<longrightarrow> newCycle w' pid t = newCycle w pid t"
  let ?t = "time_of_unix 0"
  have t: "now_ok ?t" "clock_ok ?t" "\<not> IsZero ?t" "Unix ?t = 0"
    by (simp_all add: now_ok_def clock_ok_def) (simp add: IsZero_def time_of_unix_def)
  have eq: "newCycle w' pid ?t = newCycle w pid ?t" using same t by blast
  have ok: "window_ok w" "window_ok w'" "clock_ok (win_anchor w)" "clock_ok (win_anchor w')"
    "\<not> IsZero (win_anchor w) \<Longrightarrow> Nanosecond (win_anchor w) = 0" "\<not> IsZero (win_anchor w') \<Longrightarrow> Nanosecond (win_anchor w') = 0"
    using assms plan_okD(5,7) clock_ok_window by blast+
  have pos: "0 < win_period w" "win_period w \<le> max_period_seconds" "0 < win_period w'" "win_period w' \<le> max_period_seconds"
    using ok by (auto simp: window_ok_def)
  have z: "IsZero (win_anchor w') = IsZero (win_anchor w)"
    using arg_cong [OF eq, of cyc_since] t(3) by (auto simp: newCycle_since IsZero_def split: if_splits)
  have "seconds (win_period w') = seconds (win_period w)"
    using arg_cong [OF eq, of cyc_start] arg_cong [OF eq, of cyc_end] by (simp add: newCycle_end)
  then have p: "win_period w' = win_period w" using pos by (simp add: seconds_exact)
  show "sameSchedule w' w"
  proof (cases "IsZero (win_anchor w)")
    case True
    then show ?thesis using z p by (simp add: sameSchedule_def IsZero_def)
  next
    case False
    have "time_of_unix (0 - (0 - Unix (win_anchor w')) mod win_period w) = time_of_unix (0 - (0 - Unix (win_anchor w)) mod win_period w)"
      using newCycle_anchored [of w' ?t pid] newCycle_anchored [of w ?t pid] arg_cong [OF eq, of cyc_start] False z p pos ok t by simp
    then have "(0 - Unix (win_anchor w')) mod win_period w = (0 - Unix (win_anchor w)) mod win_period w"
      by (simp add: time_of_unix_def)
    then have "win_period w dvd Unix (win_anchor w') - Unix (win_anchor w)"
      unfolding mod_eq_dvd_iff by (simp add: dvd_diff_commute)
    then have "go_rem (wrap64 (Unix (win_anchor w') - Unix (win_anchor w))) (win_period w') = 0"
      using p pos clock_ok_diff [OF ok(4,3)] go_rem_0_iff by simp
    then show ?thesis using z p pos ok False by (simp add: sameSchedule_def)
  qed
qed

section \<open>Lists of plans\<close>

lemma lookup_key_plans [simp]: "lookup_key (st\<lparr>st_plans := ps\<rparr>) k = lookup_key st k"
  by (simp add: lookup_key_def)

lemma find_False: "find (\<lambda>x. False) xs = None"
  by (induction xs) auto

lemma find_appended: "find P (xs @ ys) = (case find P xs of None \<Rightarrow> find P ys | Some x \<Rightarrow> Some x)"
  by (induction xs) auto

lemma FindPlan_append:
  "FindPlan (ps @ [p]) x = (case FindPlan ps x of Some q \<Rightarrow> Some q
     | None \<Rightarrow> if pln_id p = TrimSpace x \<and> TrimSpace x \<noteq> [] then Some p else None)"
  by (auto simp: FindPlan_def Let_def find_appended split: option.split)

lemma key_ok_plans:
  "key_ok plans scope key \<Longrightarrow> FindPlan plans' (ks_plan key) = FindPlan plans (ks_plan key) \<Longrightarrow> key_ok plans' scope key"
  by (simp add: key_ok_iff cycles_ok_def)

lemma map_id_replace [simp]: "pln_id plan = pid \<Longrightarrow> map pln_id (replace_plan pid plan ps) = map pln_id ps"
  by (induction ps) auto

lemma set_replace: "set (replace_plan pid plan ps) \<subseteq> insert plan (set ps)"
  by (induction ps) auto

lemma FindPlan_replace:
  assumes "pln_id plan = pid"
  shows "FindPlan (replace_plan pid plan ps) x =
    (if TrimSpace x = pid then map_option (\<lambda>_. plan) (FindPlan ps x) else FindPlan ps x)"
proof (cases "TrimSpace x = []")
  case False
  then show ?thesis using assms by (induction ps) (auto simp: FindPlan_def Let_def)
qed (simp add: FindPlan_def Let_def find_False)

lemma set_delete_first: "set (delete_first pid ps) \<subseteq> set ps"
  by (induction ps) auto

lemma delete_first_ids: "distinct (map pln_id ps) \<Longrightarrow>
    distinct (map pln_id (delete_first pid ps)) \<and> set (map pln_id (delete_first pid ps)) = set (map pln_id ps) - {pid}"
  by (induction ps) (auto simp: image_iff)

lemma FindPlan_delete:
  "distinct (map pln_id ps) \<Longrightarrow> FindPlan (delete_first pid ps) x = (if TrimSpace x = pid then None else FindPlan ps x)"
proof (induction ps)
  case (Cons p ps)
  have "find (\<lambda>q. pln_id q = pid \<and> pid \<noteq> []) ps = None" if "pln_id p = pid"
    using Cons.prems that by (force simp: find_None_iff image_iff)
  with Cons show ?case by (auto simp: FindPlan_def Let_def)
qed (simp add: FindPlan_def Let_def)

lemma plans_okI:
  "distinct (map pln_id plans) \<Longrightarrow> (\<And>p. p \<in> set plans \<Longrightarrow> plan_ok p \<and> sorted (map win_period (pln_windows p)) \<and> TrimSpace (pln_id p) = pln_id p) \<Longrightarrow>
     plans_ok plans"
  by (simp add: plans_ok_def)

lemma plan_ok_name: "plan_ok (p\<lparr>pln_name := n\<rparr>) = plan_ok p"
  by (simp add: plan_ok_def Plan_Validate_def)

section \<open>Binding\<close>

lemma try_map_all: "try_map f xs = Inr ys \<Longrightarrow> x \<in> set xs \<Longrightarrow> \<exists>y. f x = Inr y"
  by (induction xs arbitrary: ys) auto

lemma prepareWindows_sorted: "prepareWindows rand_id ws old now = Inr out \<Longrightarrow> sorted (map win_period out)"
  by (auto simp: prepareWindows_def)

lemma check_unbound_Inr: "check_unbound st scope = Inr u \<longleftrightarrow> (\<exists>key. liveKey st scope = Some key \<and> ks_plan key = [])"
  by (auto simp: check_unbound_def split: option.splits)

lemma foldl_bind:
  "lookup_key (foldl (bind_scope pid) st scopes) k =
     (if k \<in> set scopes then map_option (\<lambda>key. key\<lparr>ks_plan := pid, ks_cycles := []\<rparr>) (lookup_key st k) else lookup_key st k)"
  "st_plans (foldl (bind_scope pid) st scopes) = st_plans st" "st_routes (foldl (bind_scope pid) st scopes) = st_routes st"
  "st_grouped (foldl (bind_scope pid) st scopes) = st_grouped st"
  "st_credentials (foldl (bind_scope pid) st scopes) = st_credentials st"
  "wf_map (st_keys st) \<Longrightarrow> wf_map (st_keys (foldl (bind_scope pid) st scopes))"
  by (induction scopes arbitrary: st) (auto simp: bind_scope_def option.map_comp comp_def split: option.splits)

text \<open>Everything a successful creation has checked and done.\<close>

lemma create_plan_Inr:
  assumes "create_plan E rand_id plan0 scopes st = Inr (plan, ch, st')"
  shows "st' = foldl (bind_scope (pln_id plan)) (st\<lparr>st_plans := st_plans st @ [plan]\<rparr>) scopes"
    "ch = no_changes\<lparr>ch_plans := True, ch_keys := scopes\<rparr>" "plan_ok plan"
    "\<exists>ws. prepareWindows rand_id (pln_windows plan0) [] (env_clock E 0) = Inr ws \<and> pln_windows plan = ws"
    "(if pln_id plan0 = [] then freeID (pln_name plan0) ''plan'' (plan_taken st) else Some (pln_id plan0)) = Some (pln_id plan)"
    "\<not> plan_taken st (pln_id plan)" "\<And>scope. scope \<in> set scopes \<Longrightarrow> \<exists>key. liveKey st scope = Some key \<and> ks_plan key = []"
proof -
  obtain pid ws us where c: "(if pln_id plan0 = [] then freeID (pln_name plan0) ''plan'' (plan_taken st) else Some (pln_id plan0)) = Some pid"
    "prepareWindows rand_id (pln_windows plan0) [] (env_clock E 0) = Inr ws"
    "Plan_Validate (plan0\<lparr>pln_id := pid, pln_windows := ws\<rparr>) = Inr ()" "\<not> plan_taken st pid"
    "try_map (check_unbound st) scopes = Inr us"
    "plan = (if pln_name (plan0\<lparr>pln_id := pid, pln_windows := ws\<rparr>) = [] then plan0\<lparr>pln_id := pid, pln_windows := ws, pln_name := pid\<rparr>
             else plan0\<lparr>pln_id := pid, pln_windows := ws\<rparr>)"
    "ch = no_changes\<lparr>ch_plans := True, ch_keys := scopes\<rparr>"
    "st' = foldl (bind_scope pid) (st\<lparr>st_plans := st_plans st @ [plan]\<rparr>) scopes"
    using assms unfolding create_plan_def by (auto simp: Let_def split: option.splits if_splits)
  have i: "pln_id plan = pid" "pln_windows plan = ws" using c(6) by auto
  show "st' = foldl (bind_scope (pln_id plan)) (st\<lparr>st_plans := st_plans st @ [plan]\<rparr>) scopes"
    "ch = no_changes\<lparr>ch_plans := True, ch_keys := scopes\<rparr>"
    "\<exists>ws. prepareWindows rand_id (pln_windows plan0) [] (env_clock E 0) = Inr ws \<and> pln_windows plan = ws"
    "(if pln_id plan0 = [] then freeID (pln_name plan0) ''plan'' (plan_taken st) else Some (pln_id plan0)) = Some (pln_id plan)"
    "\<not> plan_taken st (pln_id plan)"
    using c i by simp_all
  have "plan_ok (plan0\<lparr>pln_id := pid, pln_windows := ws\<rparr>)" using c(3) by (simp add: plan_ok_def)
  then show "plan_ok plan" unfolding c(6) using plan_ok_name [where p = "plan0\<lparr>pln_id := pid, pln_windows := ws\<rparr>" and n = pid] by simp
  show "\<exists>key. liveKey st scope = Some key \<and> ks_plan key = []" if "scope \<in> set scopes" for scope
    using try_map_all [OF c(5) that] check_unbound_Inr by blast
qed

lemma create_plan_sound: "create_plan E rand_id plan0 scopes st = Inr (plan, ch, st') \<Longrightarrow> sound_step st st' ch"
  using create_plan_Inr(1,2) [of E rand_id plan0 scopes st plan ch st']
  by (intro sound_step_flat) (auto simp: foldl_bind covers_key_def)

text \<open>A free identifier is visible text, hence trimmed.\<close>

lemma slug_visible: "slug_char c \<Longrightarrow> visible c"
  by (auto simp: slug_char_def is_lower_letter_def is_digit_def visible_def less_eq_char_def)

lemma visible_slug: "list_all visible (slugify v)"
  using slugify_form [of v] slug_visible by (auto simp: list_all_iff)

lemma visible_numbered: "list_all visible b \<Longrightarrow> list_all visible (numbered b i)"
  using itoa_digits [of i] by (auto simp: numbered_def list_all_iff is_digit_def visible_def less_eq_char_def)

lemma free_number_form: "free_number p taken i = Some new \<Longrightarrow> \<exists>j. new = numbered p j"
proof (induction rule: free_number.raw_induct [rotated 1, consumes 1, case_names step])
  case (step f pre taken i new)
  then show ?case by (auto split: if_splits)
qed

lemma freeID_trimmed: "freeID name ''plan'' taken = Some new \<Longrightarrow> TrimSpace new = new"
proof -
  assume "freeID name ''plan'' taken = Some new"
  then have "new = slugify name \<or> (\<exists>i. new = numbered (slugify name) i) \<or> (\<exists>i. new = numbered ''plan'' i)"
    using free_number_form [of "''plan''" taken 1 new] by (auto simp: freeID_def Let_def simp del: upt_rec_numeral split: if_splits option.splits)
  moreover have "list_all visible ''plan''" by (simp add: visible_def)
  ultimately show ?thesis using visible_slug visible_numbered TrimSpace_visible by metis
qed

text \<open>The search for a free identifier returns: only finitely many are taken.\<close>

lemma freeID_plan: "\<exists>new. freeID name ''plan'' (plan_taken st) = Some new"
proof -
  have v: "list_all visible ''plan''" by (simp add: visible_def)
  have "\<exists>k\<ge>1. \<not> plan_taken st (numbered ''plan'' k)"
  proof (rule ccontr)
    assume "\<not> ?thesis"
    then have taken: "plan_taken st (numbered ''plan'' k)" if "1 \<le> k" for k using that by blast
    have "numbered ''plan'' k \<in> pln_id ` set (st_plans st)" if k: "1 \<le> k" for k
    proof -
      obtain p where "FindPlan (st_plans st) (numbered ''plan'' k) = Some p" using taken [OF k] by (auto simp: plan_taken_def)
      then have "p \<in> set (st_plans st)" "pln_id p = numbered ''plan'' k"
        using FindPlan_Some TrimSpace_visible [OF visible_numbered [OF v, of k]] by fastforce+
      then show ?thesis by (metis imageI)
    qed
    then have "numbered ''plan'' ` {1..} \<subseteq> pln_id ` set (st_plans st)" by auto
    then have "finite (numbered ''plan'' ` {1..})" using finite_subset by blast
    then have "finite {1::nat..}" by (rule finite_imageD) (auto intro: inj_onI)
    then show False by (simp add: infinite_Ici)
  qed
  then obtain k where "1 \<le> k" "\<not> plan_taken st (numbered ''plan'' k)" by blast
  then have "\<exists>new. free_number ''plan'' (plan_taken st) 1 = Some new" using free_number_from by blast
  then show ?thesis by (auto simp: freeID_def Let_def simp del: upt_rec_numeral split: option.splits)
qed

lemma state_ok_create:
  assumes "state_ok st" "create_plan E rand_id plan0 scopes st = Inr (plan, ch, st')" "TrimSpace (pln_id plan) = pln_id plan"
  shows "state_ok st'"
proof -
  note c = create_plan_Inr [OF assms(2)]
  have po: "plans_ok (st_plans st)" using assms(1) by (simp add: state_ok_def)
  have fresh: "pln_id plan \<notin> set (map pln_id (st_plans st))"
    using c(6) FindPlan_mem [OF po] by (auto simp: plan_taken_def)
  obtain ws where "prepareWindows rand_id (pln_windows plan0) [] (env_clock E 0) = Inr ws" "pln_windows plan = ws"
    using c(4) by blast
  then have "sorted (map win_period (pln_windows plan))" using prepareWindows_sorted by blast
  then have plans: "plans_ok (st_plans st @ [plan])"
    using po fresh c(3) assms(3) by (auto simp: plans_ok_def)
  have keep: "FindPlan (st_plans st @ [plan]) (ks_plan key) = FindPlan (st_plans st) (ks_plan key)"
    if ok: "key_ok (st_plans st) k key" for k key
  proof (cases "ks_plan key = []")
    case False
    obtain p where "FindPlan (st_plans st) (ks_plan key) = Some p" using key_ok_bound [OF po ok False] by metis
    then show ?thesis by (simp add: FindPlan_append)
  qed (simp add: FindPlan_def Let_def find_False)
  have new: "FindPlan (st_plans st @ [plan]) (pln_id plan) = Some plan" by (rule FindPlan_mem [OF plans]) simp
  have "key_ok (st_plans st @ [plan]) k key'" if k': "lookup_key st' k = Some key'" for k key'
  proof -
    obtain key where key: "lookup_key st k = Some key"
      "key' = (if k \<in> set scopes then key\<lparr>ks_plan := pln_id plan, ks_cycles := []\<rparr> else key)"
      using k' unfolding c(1) foldl_bind by (auto split: if_splits)
    have ok: "key_ok (st_plans st) k key" using assms(1) key(1) by (rule state_ok_key)
    then have "key_ok (st_plans st @ [plan]) k key" using keep [OF ok] by (rule key_ok_plans)
    then show ?thesis using key(2) new by (auto simp: key_ok_iff intro!: cycles_ok_fresh)
  qed
  then show ?thesis using plans assms(1) by (simp add: state_ok_def c(1) foldl_bind)
qed

section \<open>Editing a plan\<close>

lemma lookup_rebind:
  "lookup_key (st\<lparr>st_keys := map_values f (st_keys st)\<rparr>) k = map_option (f k) (lookup_key st k)"
  by (simp add: lookup_key_def)

lemma lookup_bind_selected:
  "lookup_key (bind_selected pid st scope) k =
     map_option (\<lambda>key. if k = scope \<and> ks_plan key = [] then key\<lparr>ks_plan := pid, ks_cycles := []\<rparr> else key) (lookup_key st k)"
  by (cases "lookup_key st k") (auto simp: bind_selected_def split: option.splits)

lemma foldl_bind_selected:
  assumes "pid \<noteq> []"
  shows "lookup_key (foldl (bind_selected pid) st scopes) k =
     map_option (\<lambda>key. if k \<in> set scopes \<and> ks_plan key = [] then key\<lparr>ks_plan := pid, ks_cycles := []\<rparr> else key) (lookup_key st k)"
proof (induction scopes arbitrary: st)
  case Nil
  then show ?case by (cases "lookup_key st k") simp_all
next
  case (Cons scope scopes)
  then show ?case using assms by (cases "lookup_key st k") (auto simp: lookup_bind_selected)
qed

lemma foldl_bind_selected_other [simp]:
  "st_plans (foldl (bind_selected pid) st scopes) = st_plans st" "st_routes (foldl (bind_selected pid) st scopes) = st_routes st"
  "st_grouped (foldl (bind_selected pid) st scopes) = st_grouped st"
  "st_credentials (foldl (bind_selected pid) st scopes) = st_credentials st"
  "wf_map (st_keys st) \<Longrightarrow> wf_map (st_keys (foldl (bind_selected pid) st scopes))"
  by (induction scopes arbitrary: st) (auto simp: bind_selected_def split: option.splits)

lemma foldl_delete: "map_of (foldl (\<lambda>m wid. AList.delete wid m) m wids) k = (if k \<in> set wids then None else map_of m k)"
  "wf_map m \<Longrightarrow> wf_map (foldl (\<lambda>m wid. AList.delete wid m) m wids)"
  "set (foldl (\<lambda>m wid. AList.delete wid m) m wids) \<subseteq> {(k, c) \<in> set m. k \<notin> set wids}"
proof (induction wids arbitrary: m)
  case (Cons w wids)
  { case 1 show ?case using Cons(1) by simp
  next case 2 then show ?case using Cons(2) by simp
  next case 3
    have "set (AList.delete w m) \<subseteq> {(k, c) \<in> set m. k \<noteq> w}" by (auto simp: AList.delete_eq)
    then show ?case using Cons(3) [of "AList.delete w m"] by fastforce }
qed auto

text \<open>The keys after an edit.\<close>

definition stays :: "string list option \<Rightarrow> string \<Rightarrow> bool" where
  "stays selected scope \<longleftrightarrow> (case selected of None \<Rightarrow> True | Some scopes \<Rightarrow> scope \<in> set scopes)"

definition edited_key :: "string \<Rightarrow> string list option \<Rightarrow> string list \<Rightarrow> string \<Rightarrow> KeyState \<Rightarrow> KeyState" where
  "edited_key pid selected resets scope key =
     (if ks_plan key = pid
      then if stays selected scope then key\<lparr>ks_cycles := foldl (\<lambda>m wid. AList.delete wid m) (ks_cycles key) resets\<rparr>
           else key\<lparr>ks_plan := [], ks_cycles := []\<rparr>
      else if ks_plan key = [] \<and> selected \<noteq> None \<and> stays selected scope then key\<lparr>ks_plan := pid, ks_cycles := []\<rparr>
      else key)"

lemma update_plan_Inr:
  assumes "update_plan E rand_id patch scopes st = Inr (plan, ch, st')" "ppt_id patch \<noteq> []"
  obtains old resets where "old \<in> set (st_plans st)" "pln_id old = ppt_id patch" "pln_id plan = ppt_id patch" "plan_ok plan"
    "ch = no_changes\<lparr>ch_plans := True, ch_all_keys := True\<rparr>"
    "ppt_windows patch = None \<and> pln_windows plan = pln_windows old \<and> resets = [] \<or>
     (\<exists>ws. ppt_windows patch = Some ws \<and> prepareWindows rand_id ws (pln_windows old) (env_clock E 0) = Inr (pln_windows plan) \<and>
        resets = reset_windows (pln_windows old) (pln_windows plan))"
    "st_plans st' = replace_plan (ppt_id patch) plan (st_plans st)" "st_routes st' = st_routes st"
    "st_grouped st' = st_grouped st" "st_credentials st' = st_credentials st"
    "wf_map (st_keys st) \<Longrightarrow> wf_map (st_keys st')"
    "\<And>k. lookup_key st' k = map_option (edited_key (ppt_id patch) (map_option normalizeScopes scopes) resets k) (lookup_key st k)"
proof -
  obtain old where old: "find (\<lambda>p. pln_id p = ppt_id patch) (st_plans st) = Some old"
    using assms(1) by (auto simp: update_plan_def split: option.splits)
  define named where "named = (case ppt_name patch of None \<Rightarrow> old | Some name \<Rightarrow> old\<lparr>pln_name := TrimSpace name\<rparr>)"
  define sel where "sel = map_option normalizeScopes scopes"
  obtain windows us where c:
    "(case ppt_windows patch of None \<Rightarrow> Inr (pln_windows old)
      | Some ws \<Rightarrow> prepareWindows rand_id ws (pln_windows old) (env_clock E 0)) = Inr windows"
    "Plan_Validate (named\<lparr>pln_windows := windows\<rparr>) = Inr ()"
    "plan = named\<lparr>pln_windows := windows\<rparr>" "ch = no_changes\<lparr>ch_plans := True, ch_all_keys := True\<rparr>"
    "st' = (foldl (bind_selected (ppt_id patch))
        (st\<lparr>st_keys := map_values (rebind_key (ppt_id patch) sel
           (if ppt_windows patch = None then [] else reset_windows (pln_windows old) windows)) (st_keys st)\<rparr>) (option_or sel []))
        \<lparr>st_plans := replace_plan (ppt_id patch) plan (st_plans st)\<rparr>"
    using assms(1) by (auto simp: update_plan_def old Let_def named_def sel_def)
  let ?resets = "if ppt_windows patch = None then [] else reset_windows (pln_windows old) windows"
  have o: "old \<in> set (st_plans st)" "pln_id old = ppt_id patch" using find_Some_prop [OF old] by auto
  have n: "pln_id named = pln_id old" by (simp add: named_def split: option.splits)
  have p: "pln_id plan = ppt_id patch" "pln_windows plan = windows" "plan_ok plan"
    using c(2) o n by (simp_all add: c(3) plan_ok_def)
  have k: "lookup_key st' k = map_option (edited_key (ppt_id patch) sel ?resets k) (lookup_key st k)" for k
  proof (cases "lookup_key st k")
    case (Some key)
    then show ?thesis
      using assms(2) by (cases sel) (auto simp: c(5) foldl_bind_selected [OF assms(2)] lookup_rebind rebind_key_def edited_key_def stays_def)
  qed (simp add: c(5) foldl_bind_selected [OF assms(2)] lookup_rebind)
  have w: "ppt_windows patch = None \<and> pln_windows plan = pln_windows old \<and> ?resets = [] \<or>
     (\<exists>ws. ppt_windows patch = Some ws \<and> prepareWindows rand_id ws (pln_windows old) (env_clock E 0) = Inr (pln_windows plan) \<and>
        ?resets = reset_windows (pln_windows old) (pln_windows plan))"
    using c(1) p(2) by (cases "ppt_windows patch") simp_all
  show ?thesis
    by (rule that [OF o p(1,3) c(4) w _ _ _ _ _ k [unfolded sel_def]]) (simp_all add: c(5))
qed

text \<open>A cycle an edit keeps is valid for the edited plan.\<close>

lemma find_window_mem: "plan_ok p \<Longrightarrow> w \<in> set (pln_windows p) \<Longrightarrow> find_window p (win_id w) = Some w"
proof -
  assume p: "plan_ok p" and w: "w \<in> set (pln_windows p)"
  have "distinct (map win_id (pln_windows p))" using p by (rule plan_okD)
  moreover obtain w' where w': "find_window p (win_id w) = Some w'"
    using w by (cases "find_window p (win_id w)") (auto simp: find_window_def find_None_all)
  ultimately have "w' = w"
    using w find_Some_prop [of "\<lambda>w'. win_id w' = win_id w" "pln_windows p" w'] by (auto simp: find_window_def distinct_map inj_on_def)
  then show ?thesis using w' by simp
qed

lemma kept_cycle_valid:
  assumes "plan_ok old" "plan_ok new" "pln_id new = pln_id old" "\<not> cycle_invalid key old wid c" "clock_ok (cyc_start c)"
    "pln_windows new = pln_windows old \<or> wid \<notin> set (reset_windows (pln_windows old) (pln_windows new))" "ks_plan key' = ks_plan key"
  shows "\<not> cycle_invalid key' new wid c"
proof -
  obtain w where w: "find_window old wid = Some w" using assms(4) by (cases "find_window old wid") (simp_all add: cycle_invalid_def)
  then have mem: "w \<in> set (pln_windows old)" "win_id w = wid" using find_Some_prop by (fastforce simp: find_window_def)+
  have "\<exists>w' \<in> set (pln_windows new). win_id w' = wid \<and> sameSchedule w' w"
  proof (cases "pln_windows new = pln_windows old")
    case True
    then show ?thesis using mem by (intro bexI [of _ w]) simp_all
  next
    case False
    then have "wid \<notin> set (reset_windows (pln_windows old) (pln_windows new))" using assms(6) by simp
    then show ?thesis using mem by (auto simp: reset_windows_def list_ex_iff)
  qed
  then obtain w' where w': "w' \<in> set (pln_windows new)" "win_id w' = wid" "sameSchedule w' w" by blast
  have f: "find_window new wid = Some w'" using find_window_mem [OF assms(2) w'(1)] w'(2) by simp
  have same: "newCycle w' (pln_id new) (cyc_start c) = newCycle w (pln_id new) (cyc_start c)"
    "win_period w' = win_period w" "IsZero (win_anchor w') = IsZero (win_anchor w)"
    using sameSchedule_windows [OF w'(3) assms(1) mem(1) assms(2) w'(1) assms(5)] by blast+
  show ?thesis using assms(4) w by (simp add: cycle_invalid_def f same [unfolded assms(3)] assms(3,7))
qed

lemma state_ok_update:
  assumes "state_ok st" "update_plan E rand_id patch scopes st = Inr (plan, ch, st')" "ppt_id patch \<noteq> []"
  shows "state_ok st' \<and> FindPlan (st_plans st') (ppt_id patch) = Some plan"
proof -
  obtain old resets where u: "old \<in> set (st_plans st)" "pln_id old = ppt_id patch" "pln_id plan = ppt_id patch" "plan_ok plan"
    "ppt_windows patch = None \<and> pln_windows plan = pln_windows old \<and> resets = [] \<or>
     (\<exists>ws. ppt_windows patch = Some ws \<and> prepareWindows rand_id ws (pln_windows old) (env_clock E 0) = Inr (pln_windows plan) \<and>
        resets = reset_windows (pln_windows old) (pln_windows plan))"
    "st_plans st' = replace_plan (ppt_id patch) plan (st_plans st)" "st_routes st' = st_routes st"
    "\<And>k. lookup_key st' k = map_option (edited_key (ppt_id patch) (map_option normalizeScopes scopes) resets k) (lookup_key st k)"
    by (rule update_plan_Inr [OF assms(2,3)]) blast
  let ?pid = "ppt_id patch"
  have po: "plans_ok (st_plans st)" using assms(1) by (simp add: state_ok_def)
  then have old: "plan_ok old" "sorted (map win_period (pln_windows old))" "TrimSpace ?pid = ?pid" "FindPlan (st_plans st) ?pid = Some old"
    using u(1,2) FindPlan_mem [OF po u(1)] by (auto simp: plans_ok_def)
  have sorted: "sorted (map win_period (pln_windows plan))" using u(5) old(2) prepareWindows_sorted by auto
  have plans: "plans_ok (st_plans st')"
  proof (rule plans_okI)
    show "distinct (map pln_id (st_plans st'))" using po u(3) by (simp add: u(6) plans_ok_def)
    show "plan_ok p \<and> sorted (map win_period (pln_windows p)) \<and> TrimSpace (pln_id p) = pln_id p" if "p \<in> set (st_plans st')" for p
      using that po u(3,4) sorted old(3) set_replace [of ?pid plan "st_plans st"] by (auto simp: u(6) plans_ok_def)
  qed
  have found: "FindPlan (st_plans st') ?pid = Some plan" using old(3,4) u(3) by (simp add: u(6) FindPlan_replace)
  have "key_ok (st_plans st') k key'" if k': "lookup_key st' k = Some key'" for k key'
  proof -
    obtain key where key: "lookup_key st k = Some key" "key' = edited_key ?pid (map_option normalizeScopes scopes) resets k key"
      using k' by (auto simp: u(8))
    have ok: "key_ok (st_plans st) k key" using assms(1) key(1) by (rule state_ok_key)
    show ?thesis
    proof (cases "ks_plan key = ?pid")
      case True
      obtain p where "FindPlan (st_plans st) (ks_plan key) = Some p" "ValidateCycles key p = Inr ()"
        using key_ok_bound [OF po ok] True assms(3) by metis
      then have v: "ValidateCycles key old = Inr ()" using old(4) True by simp
      let ?m = "foldl (\<lambda>m wid. AList.delete wid m) (ks_cycles key) resets"
      have sane: "cycles_sane key" "wf_map (ks_cycles key)" using ok by (auto simp: key_ok_iff cycles_ok_def)
      have "\<not> cycle_invalid (key\<lparr>ks_cycles := ?m\<rparr>) plan wid c" if c: "(wid, c) \<in> set ?m" for wid c
      proof -
        have "(wid, c) \<in> set (ks_cycles key)" "wid \<notin> set resets" using c foldl_delete(3) [of "ks_cycles key" resets] by auto
        then show ?thesis
          using v sane(1) u(5) by (intro kept_cycle_valid [OF old(1) u(4)]) (auto simp: ValidateCycles_iff cycles_sane_def u(2,3))
      qed
      then have "ValidateCycles (key\<lparr>ks_cycles := ?m\<rparr>) plan = Inr ()" using u(3) True by (auto simp: ValidateCycles_iff)
      moreover have "cycles_sane (key\<lparr>ks_cycles := ?m\<rparr>)"
        using sane(1) foldl_delete(3) [of "ks_cycles key" resets] by (auto simp: cycles_sane_def)
      moreover have "wf_map ?m" by (rule foldl_delete(2) [OF sane(2)])
      ultimately have "cycles_ok (st_plans st') (key\<lparr>ks_cycles := ?m\<rparr>)" using found True by (simp add: cycles_ok_def)
      then show ?thesis using ok True by (simp add: key(2) edited_key_def key_ok_iff cycles_ok_unbound)
    next
      case False
      have same: "FindPlan (st_plans st') (ks_plan key) = FindPlan (st_plans st) (ks_plan key)"
      proof (cases "ks_plan key = []")
        case True
        then show ?thesis by (simp add: FindPlan_def Let_def find_False)
      next
        case ne: False
        obtain p where "FindPlan (st_plans st) (ks_plan key) = Some p" "pln_id p = ks_plan key"
          using key_ok_bound [OF po ok ne] by metis
        then have "TrimSpace (ks_plan key) = ks_plan key" using FindPlan_Some by fastforce
        then show ?thesis using False u(3) by (simp add: u(6) FindPlan_replace)
      qed
      have "cycles_ok (st_plans st') (key\<lparr>ks_plan := ?pid, ks_cycles := []\<rparr>)"
        by (rule cycles_ok_fresh) (use found u(3) in simp_all)
      then show ?thesis
        using key_ok_plans [OF ok same] False by (simp add: key(2) edited_key_def key_ok_iff)
    qed
  qed
  then show ?thesis using plans found assms(1) u(7) by (simp add: state_ok_def)
qed

lemma update_plan_sound:
  "update_plan E rand_id patch scopes st = Inr (plan, ch, st') \<Longrightarrow> ppt_id patch \<noteq> [] \<Longrightarrow> sound_step st st' ch"
  by (erule (1) update_plan_Inr) (intro sound_step_flat, auto simp: covers_key_def)

section \<open>Deleting a plan\<close>

lemma delete_plan_Inr:
  assumes "delete_plan pid st = Inr (n, ch, st')"
  shows "st_plans st' = delete_first pid (st_plans st)" "ch = no_changes\<lparr>ch_plans := True, ch_all_keys := True\<rparr>"
    "lookup_key st' k = map_option (release_key pid k) (lookup_key st k)"
    "n = length (filter (\<lambda>(scope, key). ks_plan key = pid) (st_keys st))"
    "st_routes st' = st_routes st" "st_grouped st' = st_grouped st" "st_credentials st' = st_credentials st"
    "wf_map (st_keys st) \<Longrightarrow> wf_map (st_keys st')"
  using assms by (auto simp: delete_plan_def lookup_key_def split: if_splits)

lemma delete_plan_sound: "delete_plan pid st = Inr (n, ch, st') \<Longrightarrow> sound_step st st' ch"
  by (frule delete_plan_Inr(2)) (intro sound_step_flat, auto simp: delete_plan_Inr covers_key_def)

lemma state_ok_delete:
  assumes "state_ok st" "delete_plan pid st = Inr (n, ch, st')" "TrimSpace pid = pid" "pid \<noteq> []"
  shows "state_ok st' \<and> FindPlan (st_plans st') pid = None"
proof -
  note d = delete_plan_Inr [OF assms(2)]
  have po: "plans_ok (st_plans st)" using assms(1) by (simp add: state_ok_def)
  then have dist: "distinct (map pln_id (st_plans st))" by (simp add: plans_ok_def)
  have plans: "plans_ok (st_plans st')"
    using po delete_first_ids [OF dist, of pid] set_delete_first [of pid "st_plans st"] by (auto simp: d(1) plans_ok_def)
  have "key_ok (st_plans st') k key'" if k': "lookup_key st' k = Some key'" for k key'
  proof -
    obtain key where key: "lookup_key st k = Some key" "key' = release_key pid k key" using k' by (auto simp: d(3))
    have ok: "key_ok (st_plans st) k key" using assms(1) key(1) by (rule state_ok_key)
    show ?thesis
    proof (cases "ks_plan key = pid")
      case True
      then show ?thesis using unbound_ok [OF ok] by (simp add: key(2) release_key_def key_ok_iff cycles_ok_unbound)
    next
      case False
      have "FindPlan (st_plans st') (ks_plan key) = FindPlan (st_plans st) (ks_plan key)"
      proof (cases "ks_plan key = []")
        case True
        then show ?thesis by (simp add: FindPlan_def Let_def find_False)
      next
        case ne: False
        obtain p where "FindPlan (st_plans st) (ks_plan key) = Some p" "pln_id p = ks_plan key"
          using key_ok_bound [OF po ok ne] by metis
        then have "TrimSpace (ks_plan key) = ks_plan key" using FindPlan_Some by fastforce
        then show ?thesis using False by (simp add: d(1) FindPlan_delete [OF dist])
      qed
      then show ?thesis using key_ok_plans [OF ok] False by (simp add: key(2) release_key_def)
    qed
  qed
  then show ?thesis using plans assms by (simp add: state_ok_def d(1,5) FindPlan_delete [OF dist])
qed

section \<open>Properties\<close>

lemma edit_step:
  assumes "store_synced s" "state_ok (s_state s)" "editConfiguration E fn s = (Inr v, s')"
    "\<And>v ch st. fn (s_state s) = Inr (v, ch, st) \<Longrightarrow> sound_step (s_state s) st ch"
    "\<And>v ch st. fn (s_state s) = Inr (v, ch, st) \<Longrightarrow> state_ok st"
  shows "store_synced s' \<and> state_ok (s_state s') \<and> (\<exists>ch. fn (s_state s) = Inr (v, ch, s_state s'))"
proof -
  have "store_synced (snd (editConfiguration E fn s))" by (rule editConfiguration_keeps_sync [OF assms(1)]) (rule assms(4))
  moreover have "state_ok (s_state (snd (editConfiguration E fn s)))" by (rule edit_keeps [OF assms(2)]) (rule assms(5))
  ultimately show ?thesis using edit_Inr [OF assms(3)] assms(3) by simp
qed


text \<open>A deleted plan is gone from the catalogue, every key that was on it is on no plan and has no cycle left, the
  number returned counts them, and keys on other plans are untouched.\<close>

theorem DeletePlan_ok:
  assumes "store_synced s" "state_ok (s_state s)" "DeletePlan E pid s = (Inr n, s')"
  shows "store_synced s' \<and> state_ok (s_state s') \<and> FindPlan (st_plans (s_state s')) pid = None \<and>
    n = length (filter (\<lambda>(scope, key). ks_plan key = TrimSpace pid) (st_keys (s_state s))) \<and>
    (\<forall>scope. lookup_key (s_state s') scope =
       map_option (\<lambda>key. if ks_plan key = TrimSpace pid then key\<lparr>ks_plan := [], ks_cycles := []\<rparr> else key) (lookup_key (s_state s) scope))"
proof -
  have ne: "TrimSpace pid \<noteq> []" and e: "editConfiguration E (delete_plan (TrimSpace pid)) s = (Inr n, s')"
    using assms(3) by (auto simp: DeletePlan_def Let_def split: if_splits)
  obtain ch where keeps: "store_synced s'" "state_ok (s_state s')" "delete_plan (TrimSpace pid) (s_state s) = Inr (n, ch, s_state s')"
    using edit_step [OF assms(1,2) e] delete_plan_sound state_ok_delete [OF assms(2) _ TrimSpace_idem ne] by blast
  have "FindPlan (st_plans (s_state s')) (TrimSpace pid) = None"
    using state_ok_delete [OF assms(2) keeps(3) TrimSpace_idem ne] by blast
  then have "FindPlan (st_plans (s_state s')) pid = None" by (simp add: FindPlan_def)
  then show ?thesis
    using keeps delete_plan_Inr(3,4) [OF keeps(3)] by (simp add: release_key_def cong: map_option_cong)
qed

text \<open>A created plan validates, has an identifier no plan had, and is in the catalogue with its windows by period. The keys
  it was created for were live and on no plan; they are on it now with no cycle, so that their first request is admitted.
  No other key and no other plan changes.\<close>

theorem CreatePlanWithBindings_ok:
  assumes "store_synced s" "state_ok (s_state s)" "CreatePlanWithBindings E rand_id plan0 scopes s = (Inr plan, s')"
  shows "store_synced s' \<and> state_ok (s_state s') \<and> plan_ok plan \<and>
    FindPlan (st_plans (s_state s)) (pln_id plan) = None \<and> st_plans (s_state s') = st_plans (s_state s) @ [plan] \<and>
    (\<forall>scope. if scope \<in> set (normalizeScopes scopes)
       then (\<exists>key. liveKey (s_state s) scope = Some key \<and> ks_plan key = [] \<and>
          on_plan (s_state s') scope (key\<lparr>ks_plan := pln_id plan, ks_cycles := []\<rparr>) plan)
       else lookup_key (s_state s') scope = lookup_key (s_state s) scope)"
proof -
  let ?plan0 = "plan0\<lparr>pln_id := TrimSpace (pln_id plan0), pln_name := TrimSpace (pln_name plan0)\<rparr>"
  let ?fn = "create_plan E rand_id ?plan0 (normalizeScopes scopes)"
  have e: "editConfiguration E ?fn s = (Inr plan, s')" using assms(3) by (simp add: CreatePlanWithBindings_def)
  have trimmed: "TrimSpace (pln_id v) = pln_id v" if f: "?fn (s_state s) = Inr (v, ch, st)" for v ch st
    using create_plan_Inr(5) [OF f] freeID_trimmed TrimSpace_idem [of "pln_id plan0"] by (auto split: if_splits simp del: TrimSpace_idem)
  obtain ch where keeps: "store_synced s'" "state_ok (s_state s')" "?fn (s_state s) = Inr (plan, ch, s_state s')"
    using edit_step [OF assms(1,2) e] create_plan_sound state_ok_create [OF assms(2)] trimmed by metis
  note c = create_plan_Inr [OF keeps(3)]
  have po: "plans_ok (st_plans (s_state s'))" using keeps(2) by (simp add: state_ok_def)
  have plans: "st_plans (s_state s') = st_plans (s_state s) @ [plan]" by (simp add: c(1) foldl_bind)
  have found: "FindPlan (st_plans (s_state s')) (pln_id plan) = Some plan" by (rule FindPlan_mem [OF po]) (simp add: plans)
  have "if scope \<in> set (normalizeScopes scopes)
       then (\<exists>key. liveKey (s_state s) scope = Some key \<and> ks_plan key = [] \<and>
          on_plan (s_state s') scope (key\<lparr>ks_plan := pln_id plan, ks_cycles := []\<rparr>) plan)
       else lookup_key (s_state s') scope = lookup_key (s_state s) scope" for scope
  proof (cases "scope \<in> set (normalizeScopes scopes)")
    case True
    then obtain key where k: "liveKey (s_state s) scope = Some key" "ks_plan key = []" using c(7) by blast
    have "on_plan (s_state s') scope (key\<lparr>ks_plan := pln_id plan, ks_cycles := []\<rparr>) plan"
      using True k found c(3) plan_ok_id [OF c(3)]
      by (simp add: on_plan_def ValidateCycles_iff liveKey_Some) (simp add: c(1) foldl_bind)
    then show ?thesis using True k by simp
  qed (simp add: c(1) foldl_bind)
  then show ?thesis using keeps(1,2) c(3,6) plans by (simp add: plan_taken_def)
qed

section \<open>Examples\<close>

theorem sameSchedule_iff_witness:
  "newCycle free_window ''p'' (time_of_unix 1700000000) = newCycle (free_window\<lparr>win_name := ''daily''\<rparr>) ''p'' (time_of_unix 1700000000)"
proof -
  have w: "free_window \<in> set (pln_windows free_plan)" by (simp add: free_plan_def)
  have n: "now_ok (time_of_unix 1700000000)" by (simp add: now_ok_def clock_ok_def)
  have "free_window\<lparr>win_name := ''daily''\<rparr> = free_window" by (simp add: free_window_def)
  then show ?thesis using sameSchedule_iff [OF free_plan_ok w free_plan_ok w, of "''p''"] n by simp
qed

definition rename_patch_plan :: PlanPatch where
  "rename_patch_plan = \<lparr>ppt_id = ''p'', ppt_name = Some ''daily'', ppt_windows = None\<rparr>"

lemma small_plans: "st_plans small_state = [free_plan]"
  by (simp add: small_state_def)


theorem DeletePlan_ok_witness:
  "\<exists>s'. DeletePlan calm ''p'' memory_store = (Inr 1, s') \<and> state_ok (s_state s') \<and> FindPlan (st_plans (s_state s')) ''p'' = None"
proof -
  obtain ch st where f: "delete_plan ''p'' small_state = Inr (1, ch, st)"
    by (simp add: delete_plan_def small_plans) (simp add: free_plan_def small_state_def bound_key_def)
  from memory_store_edit [of "delete_plan ''p''", OF f] obtain s' where s: "DeletePlan calm ''p'' memory_store = (Inr 1, s')"
    by (fastforce simp: DeletePlan_def Let_def)
  from DeletePlan_ok [OF memory_store_synced _ s] small_state_ok s show ?thesis by auto
qed

definition other_plan :: Plan where
  "other_plan = \<lparr>pln_id = ''r'', pln_name = [], pln_windows = [free_window\<lparr>win_id := []\<rparr>]\<rparr>"

theorem CreatePlanWithBindings_ok_witness:
  "\<exists>plan s'. CreatePlanWithBindings calm (\<lambda>_. Inr ''w'') other_plan [] memory_store = (Inr plan, s') \<and> plan_ok plan \<and>
     st_plans (s_state s') = [free_plan, plan]"
proof -
  have w: "prepareWindows (\<lambda>_. Inr ''w'') [free_window\<lparr>win_id := []\<rparr>] [] (env_clock calm 0) = Inr [free_window]"
    by (simp add: prepareWindows_def prepare_window_def prepare_anchor_def free_window_def IsZero_def)
  have "plan_ok (free_plan\<lparr>pln_id := ''r''\<rparr>)"
    using free_plan_ok by (simp add: plan_ok_def Plan_Validate_def free_plan_def)
  then have v: "Plan_Validate \<lparr>pln_id = ''r'', pln_name = [], pln_windows = [free_window]\<rparr> = Inr ()"
    by (simp add: plan_ok_def Plan_Validate_def free_plan_def)
  have t: "\<not> plan_taken small_state ''r''" by (simp add: plan_taken_def FindPlan_def small_plans) (simp add: free_plan_def)
  obtain plan ch st where f: "create_plan calm (\<lambda>_. Inr ''w'') other_plan [] small_state = Inr (plan, ch, st)"
    using w v t by (simp add: create_plan_def other_plan_def Let_def)
  have n: "other_plan\<lparr>pln_id := TrimSpace (pln_id other_plan), pln_name := TrimSpace (pln_name other_plan)\<rparr> = other_plan"
    by (simp add: other_plan_def)
  from memory_store_edit [of "create_plan calm (\<lambda>_. Inr ''w'') other_plan []", OF f] obtain s' where
    s: "CreatePlanWithBindings calm (\<lambda>_. Inr ''w'') other_plan [] memory_store = (Inr plan, s')"
    by (fastforce simp: CreatePlanWithBindings_def n normalizeScopes_def dedupe_def)
  from CreatePlanWithBindings_ok [OF memory_store_synced _ s] small_state_ok s show ?thesis by (auto simp: small_plans)
qed

end
