(* ===== verification/RouteOps.thy ===== *)
theory RouteOps
  imports PlanOps
begin

text \<open>
  The store's operations on routes and upstream credentials: the second half of
  \<^verbatim>\<open>internal/billing/routing.go\<close>. An edit of a route may also replace the set of keys bound to it; deleting
  a route takes it off every key, so that no key is left with a binding that resolves to nothing
  (\<open>routed_ok\<close>). A route map is the association list of its keys; \<open>maps.Equal\<close> compares lookups.
\<close>

section \<open>Reading\<close>

definition RouteOf :: "Store \<Rightarrow> string \<Rightarrow> Route option" where
  "RouteOf s rid = findRoute (st_routes (s_state s)) rid"

record RouteView =
  rvw_route :: Route
  rvw_bound :: nat
  rvw_deleted :: nat
  rvw_unrestricted :: nat

definition without_route :: "string \<Rightarrow> RouteBindings \<Rightarrow> RouteBindings" where
  "without_route rid b = b\<lparr>rb_route_ids := filter (\<lambda>i. i \<noteq> rid) (rb_route_ids b)\<rparr>"

definition route_view :: "State \<Rightarrow> Route \<Rightarrow> RouteView" where
  "route_view st route =
     (let bound = filter (\<lambda>(scope, key). rte_id route \<in> set (rb_route_ids (ks_bindings key))) (st_keys st);
          live = filter (\<lambda>(scope, key). IsZero (ks_deleted_at key)) bound
      in \<lparr>rvw_route = route, rvw_bound = length bound, rvw_deleted = length bound - length live,
          rvw_unrestricted = length (filter (\<lambda>(scope, key).
             \<not> routingRestricted (st_routes st) (without_route (rte_id route) (ks_bindings key))) live)\<rparr>)"

definition RouteViews :: "Store \<Rightarrow> RouteView list" where
  "RouteViews s = map (route_view (s_state s)) (st_routes (s_state s))"

definition ResolveRouting :: "Store \<Rightarrow> string \<Rightarrow> string \<Rightarrow> string \<Rightarrow> RoutingDecision" where
  "ResolveRouting s scope upstreamModel routeModel =
     (let st = s_state s
      in (resolveRoutingState (st_routes st) (map_option ks_bindings (lookup_key st (normalizeScope scope))))
           \<lparr>rd_model := TrimSpace (ResolveBillingModel (st_prices st) upstreamModel routeModel)\<rparr>)"

definition KeyDescription :: "Store \<Rightarrow> string \<Rightarrow> string" where
  "KeyDescription s scope = keyDescription (lookup_key (s_state s) (normalizeScope scope))"

definition ConfigCredentials :: "Store \<Rightarrow> ConfigCredential smap" where
  "ConfigCredentials s = st_credentials (s_state s)"

section \<open>Credentials\<close>

definition same_map :: "'v smap \<Rightarrow> 'v smap \<Rightarrow> bool" where
  "same_map m m' \<longleftrightarrow> length m = length m' \<and> list_all (\<lambda>(k, v). map_of m' k = Some v) m"

definition sync_credentials :: "ConfigCredential smap \<Rightarrow> State \<Rightarrow> error + unit \<times> Changes \<times> State" where
  "sync_credentials credentials st =
     (if same_map (st_credentials st) credentials then Inr ((), no_changes, st)
      else Inr ((), no_changes\<lparr>ch_credentials := True\<rparr>, st\<lparr>st_credentials := credentials\<rparr>))"

definition SyncConfigCredentials :: "env \<Rightarrow> ConfigCredential smap \<Rightarrow> Store \<Rightarrow> (error + unit) \<times> Store" where
  "SyncConfigCredentials E credentials s = editConfiguration E (sync_credentials credentials) s"

section \<open>Edits\<close>

definition check_live :: "State \<Rightarrow> string \<Rightarrow> error + unit" where
  "check_live st scope = (if liveKey st scope = None then Inl (notFoundf ''the API key does not exist'') else Inr ())"

definition add_route :: "string \<Rightarrow> KeyState \<Rightarrow> KeyState" where
  "add_route rid key = key\<lparr>ks_bindings := (ks_bindings key)\<lparr>rb_route_ids := rb_route_ids (ks_bindings key) @ [rid]\<rparr>\<rparr>"

definition drop_route :: "string \<Rightarrow> KeyState \<Rightarrow> KeyState" where
  "drop_route rid key = key\<lparr>ks_bindings := without_route rid (ks_bindings key)\<rparr>"

definition attach_route :: "string \<Rightarrow> State \<Rightarrow> string \<Rightarrow> State" where
  "attach_route rid st scope =
     (case lookup_key st scope of None \<Rightarrow> st | Some key \<Rightarrow> put_key scope (add_route rid key) st)"

definition route_taken :: "State \<Rightarrow> string \<Rightarrow> bool" where
  "route_taken st rid \<longleftrightarrow> findRoute (st_routes st) rid \<noteq> None"

definition create_route :: "Route \<Rightarrow> string list \<Rightarrow> State \<Rightarrow> error + Route \<times> Changes \<times> State" where
  "create_route route0 scopes st =
     try_bind (try_map (check_live st) scopes) (\<lambda>_.
       case (if TrimSpace (rte_id route0) = [] then freeID (rte_name route0) ''route'' (route_taken st)
             else Some (rte_id route0)) of
         None \<Rightarrow> Inl (Plain_Error ''no free identifier'')
       | Some rid \<Rightarrow>
           try_bind (NormalizeRoute (route0\<lparr>rte_id := rid\<rparr>)) (\<lambda>route.
             if route_taken st (rte_id route) then Inl (conflictf ''the route exists'')
             else Inr (route, no_changes\<lparr>ch_routes := True, ch_keys := scopes\<rparr>,
                       foldl (attach_route (rte_id route)) (st\<lparr>st_routes := st_routes st @ [route]\<rparr>) scopes)))"

definition CreateRoute :: "env \<Rightarrow> Route \<Rightarrow> string list \<Rightarrow> Store \<Rightarrow> (error + Route) \<times> Store" where
  "CreateRoute E route scopes s = editConfiguration E (create_route route (normalizeScopes scopes)) s"

record RoutePatch =
  rpt_id :: string
  rpt_name :: "string option"
  rpt_rule :: "RouteRule option"

definition has_route :: "string \<Rightarrow> KeyState \<Rightarrow> bool" where
  "has_route rid key \<longleftrightarrow> rid \<in> set (rb_route_ids (ks_bindings key))"

definition check_route_scope :: "string \<Rightarrow> State \<Rightarrow> string \<Rightarrow> error + unit" where
  "check_route_scope rid st scope =
     (case lookup_key st scope of
        None \<Rightarrow> Inl (notFoundf ''the API key does not exist'')
      | Some key \<Rightarrow>
          if \<not> IsZero (ks_deleted_at key) \<and> \<not> has_route rid key then Inl (notFoundf ''the API key does not exist'')
          else Inr ())"

text \<open>The keys of the route become the selected ones.\<close>

definition reroute_key :: "string \<Rightarrow> string list option \<Rightarrow> string \<Rightarrow> KeyState \<Rightarrow> KeyState" where
  "reroute_key rid selected scope key =
     (case selected of
        None \<Rightarrow> key
      | Some scopes \<Rightarrow>
          if scope \<in> set scopes \<and> \<not> has_route rid key then add_route rid key
          else if scope \<notin> set scopes \<and> has_route rid key then drop_route rid key
          else key)"

definition reroute_changed :: "string \<Rightarrow> string list option \<Rightarrow> string \<Rightarrow> KeyState \<Rightarrow> bool" where
  "reroute_changed rid selected scope key \<longleftrightarrow>
     (case selected of None \<Rightarrow> False | Some scopes \<Rightarrow> (scope \<in> set scopes) \<noteq> has_route rid key)"

definition update_route :: "RoutePatch \<Rightarrow> string list option \<Rightarrow> State \<Rightarrow> error + Route \<times> Changes \<times> State" where
  "update_route patch scopes st =
     (case findRouteIndex (st_routes st) (rpt_id patch) of
        None \<Rightarrow> Inl (notFoundf ''the route does not exist'')
      | Some i \<Rightarrow>
          let old = st_routes st ! i;
              named = (case rpt_name patch of None \<Rightarrow> old | Some name \<Rightarrow> old\<lparr>rte_name := name\<rparr>);
              patched = (case rpt_rule patch of None \<Rightarrow> named | Some rule \<Rightarrow> named\<lparr>rte_rule := rule\<rparr>)
          in try_bind (NormalizeRoute patched) (\<lambda>updated.
             let selected = map_option normalizeScopes scopes
             in try_bind (case selected of None \<Rightarrow> Inr [] | Some l \<Rightarrow> try_map (check_route_scope (rpt_id patch) st) l) (\<lambda>_.
                Inr (updated,
                     no_changes\<lparr>ch_routes := True,
                       ch_keys := map fst (filter (\<lambda>(scope, key). reroute_changed (rpt_id patch) selected scope key) (st_keys st))\<rparr>,
                     st\<lparr>st_routes := (st_routes st)[i := updated],
                       st_keys := map_values (reroute_key (rpt_id patch) selected) (st_keys st)\<rparr>))))"

definition UpdateRoute :: "env \<Rightarrow> RoutePatch \<Rightarrow> string list option \<Rightarrow> Store \<Rightarrow> (error + Route) \<times> Store" where
  "UpdateRoute E patch0 scopes s =
     (let patch = patch0\<lparr>rpt_id := TrimSpace (rpt_id patch0)\<rparr>
      in if rpt_id patch = [] then (Inl (invalidf ''the route id must not be empty''), s)
         else editConfiguration E (update_route patch scopes) s)"

definition set_key_routes :: "string \<Rightarrow> RouteBindings \<Rightarrow> State \<Rightarrow> error + unit \<times> Changes \<times> State" where
  "set_key_routes scope bindings st =
     (case liveKey st scope of
        None \<Rightarrow> Inl (notFoundf ''the API key does not exist'')
      | Some key \<Rightarrow>
          if \<not> list_all (route_taken st) (rb_route_ids bindings) then Inl (notFoundf ''the route does not exist'')
          else Inr ((), no_changes\<lparr>ch_keys := [scope]\<rparr>, put_key scope (key\<lparr>ks_bindings := bindings\<rparr>) st))"

definition SetKeyRoutes :: "env \<Rightarrow> string \<Rightarrow> RouteBindings \<Rightarrow> Store \<Rightarrow> (error + unit) \<times> Store" where
  "SetKeyRoutes E scope0 bindings0 s =
     (let scope = normalizeScope scope0
      in if scope = [] then (Inl (invalidf ''the scope must not be empty''), s)
         else case NormalizeRouteBindings bindings0 of
                Inl e \<Rightarrow> (Inl e, s)
              | Inr bindings \<Rightarrow> editConfiguration E (set_key_routes scope bindings) s)"

record RouteDeleteResult =
  rdl_deleted :: string
  rdl_affected :: nat
  rdl_deleted_keys :: nat
  rdl_unrestricted :: nat

text \<open>The counts are taken while the route is still in the list.\<close>

definition delete_route :: "string \<Rightarrow> State \<Rightarrow> error + RouteDeleteResult \<times> Changes \<times> State" where
  "delete_route rid st =
     (case findRouteIndex (st_routes st) rid of
        None \<Rightarrow> Inl (notFoundf ''the route does not exist'')
      | Some i \<Rightarrow>
          let affected = filter (\<lambda>(scope, key). has_route rid key) (st_keys st);
              live = filter (\<lambda>(scope, key). IsZero (ks_deleted_at key)) affected;
              free = filter (\<lambda>(scope, key). \<not> routingRestricted (st_routes st) (ks_bindings (drop_route rid key))) live
          in Inr (\<lparr>rdl_deleted = rid, rdl_affected = length affected, rdl_deleted_keys = length affected - length live,
                    rdl_unrestricted = length free\<rparr>,
                  no_changes\<lparr>ch_routes := True, ch_keys := map fst affected\<rparr>,
                  st\<lparr>st_routes := take i (st_routes st) @ drop (Suc i) (st_routes st),
                    st_keys := map_values (\<lambda>_. drop_route rid) (st_keys st)\<rparr>))"

definition DeleteRoute :: "env \<Rightarrow> string \<Rightarrow> Store \<Rightarrow> (error + RouteDeleteResult) \<times> Store" where
  "DeleteRoute E rid0 s =
     (let rid = TrimSpace rid0
      in if rid = [] then (Inl (invalidf ''the route id must not be empty''), s) else editConfiguration E (delete_route rid) s)"

section \<open>Lemmas on routes\<close>

lemma findRouteIndex_Some:
  "findRouteIndex routes rid = Some i \<Longrightarrow> i < length routes \<and> rte_id (routes ! i) = TrimSpace rid"
  by (auto simp: findRouteIndex_def Let_def dest!: find_Some_prop)

lemma findRouteIndex_None: "findRouteIndex routes rid = None \<longleftrightarrow> TrimSpace rid \<notin> rte_id ` set routes"
proof -
  have "findRouteIndex routes rid = None \<longleftrightarrow> (\<forall>r \<in> set routes. rte_id r \<noteq> TrimSpace rid)"
    by (auto simp: findRouteIndex_def Let_def find_None_all all_set_conv_all_nth)
  then show ?thesis unfolding image_iff by metis
qed

lemma findRoute_None: "findRoute routes rid = None \<longleftrightarrow> TrimSpace rid \<notin> rte_id ` set routes"
  by (simp add: findRoute_def findRouteIndex_None)

lemma findRoute_Some: "findRoute routes rid = Some r \<Longrightarrow> r \<in> set routes \<and> rte_id r = TrimSpace rid"
  by (auto simp: findRoute_def dest!: findRouteIndex_Some)

lemma findRoute_iff:
  "distinct (map rte_id routes) \<Longrightarrow> findRoute routes rid = Some r \<longleftrightarrow> r \<in> set routes \<and> rte_id r = TrimSpace rid"
proof
  assume d: "distinct (map rte_id routes)" and r: "r \<in> set routes \<and> rte_id r = TrimSpace rid"
  then have "TrimSpace rid \<in> rte_id ` set routes" by (metis imageI)
  then have "findRoute routes rid \<noteq> None" by (simp add: findRoute_None)
  then obtain r' where "findRoute routes rid = Some r'" by blast
  then show "findRoute routes rid = Some r"
    using findRoute_Some [of routes rid r'] d r by (auto simp: distinct_map inj_on_def)
qed (rule findRoute_Some)

lemma route_strings_iff: "normalizeRouteStrings vs = Inr vs \<longleftrightarrow> route_strings_ok vs"
  using normalizeRouteStrings_ok normalizeRouteStrings_id by blast

lemma bindings_normal_iff:
  "NormalizeRouteBindings b = Inr b \<longleftrightarrow> route_strings_ok (rb_route_ids b) \<and> NormalizeRouteRule (rb_rule b) = Inr (rb_rule b)"
  by (cases b) (auto simp: NormalizeRouteBindings_def route_strings_iff)

lemma NormalizeRouteBindings_idem: "NormalizeRouteBindings b = Inr b' \<Longrightarrow> NormalizeRouteBindings b' = Inr b'"
  by (auto simp: NormalizeRouteBindings_def bindings_normal_iff dest!: rule_normal_normalize normalizeRouteStrings_ok
      intro: normalize_rule_normal normalizeRouteStrings_id)

lemma NormalizeRoute_idem: "NormalizeRoute r = Inr r' \<Longrightarrow> NormalizeRoute r' = Inr r'"
  by (auto simp: NormalizeRoute_def Let_def split: if_splits dest!: rule_normal_normalize intro: normalize_rule_normal)

lemma NormalizeRoute_id: "NormalizeRoute r = Inr r' \<Longrightarrow> rte_id r' = TrimSpace (rte_id r) \<and> rte_id r' \<noteq> []"
  by (auto simp: NormalizeRoute_def Let_def split: if_splits)

lemma route_strings_ok_filter: "route_strings_ok vs \<Longrightarrow> route_strings_ok (filter P vs)"
  by (auto simp: route_strings_ok_def fold_distinct_def distinct_map inj_on_def)

section \<open>Every bound route exists\<close>

definition route_id_ok :: "string \<Rightarrow> bool" where
  "route_id_ok rid \<longleftrightarrow> TrimSpace rid = rid \<and> rid \<noteq> [] \<and> length rid \<le> maxRouteValueBytes \<and> ToLower rid = rid"

definition routed_ok :: "State \<Rightarrow> bool" where
  "routed_ok st \<longleftrightarrow> distinct (map rte_id (st_routes st)) \<and> (\<forall>r \<in> set (st_routes st). route_id_ok (rte_id r)) \<and>
     (\<forall>scope key. lookup_key st scope = Some key \<longrightarrow> set (rb_route_ids (ks_bindings key)) \<subseteq> rte_id ` set (st_routes st))"

lemma routedD:
  "routed_ok st \<Longrightarrow> lookup_key st scope = Some key \<Longrightarrow> i \<in> set (rb_route_ids (ks_bindings key)) \<Longrightarrow>
     i \<in> rte_id ` set (st_routes st) \<and> route_id_ok i"
  unfolding routed_ok_def by blast

lemma routed_exist:
  assumes "routed_ok st" "lookup_key st scope = Some key"
  shows "all_routes_exist (st_routes st) (ks_bindings key)"
proof -
  have "TrimSpace rid \<in> rte_id ` set (st_routes st)" if "rid \<in> set (rb_route_ids (ks_bindings key))" for rid
  proof -
    show ?thesis using routedD [OF assms that] by (simp add: route_id_ok_def)
  qed
  then show ?thesis unfolding all_routes_exist_def findRoute_None by blast
qed

text \<open>A step that keeps the routes and gives no key a binding it did not have.\<close>

lemma routed_ok_keys:
  assumes "routed_ok st" "st_routes st' = st_routes st"
    "\<And>k key'. lookup_key st' k = Some key' \<Longrightarrow>
       rb_route_ids (ks_bindings key') = [] \<or> (\<exists>key. lookup_key st k = Some key \<and> ks_bindings key' = ks_bindings key)"
  shows "routed_ok st'"
proof -
  have "set (rb_route_ids (ks_bindings key')) \<subseteq> rte_id ` set (st_routes st')" if "lookup_key st' k = Some key'" for k key'
    using assms(3) [OF that] routedD [OF assms(1)] unfolding assms(2) by fastforce
  then show ?thesis using assms(1) unfolding routed_ok_def assms(2) by blast
qed

lemma add_route_ok:
  assumes "key_ok plans scope key" "route_id_ok rid" "\<And>i. i \<in> set (rb_route_ids (ks_bindings key)) \<Longrightarrow> ToLower i = i \<and> i \<noteq> rid"
  shows "key_ok plans scope (add_route rid key)"
proof -
  have "route_strings_ok (rb_route_ids (ks_bindings key) @ [rid])"
    using assms by (force simp: key_ok_iff bindings_normal_iff route_strings_ok_def fold_distinct_def route_id_ok_def)
  then show ?thesis
    using assms(1) cycles_ok_cong [of "add_route rid key" key plans] by (simp add: add_route_def key_ok_iff bindings_normal_iff)
qed

lemma drop_route_ok: "key_ok plans scope key \<Longrightarrow> key_ok plans scope (drop_route rid key)"
  using cycles_ok_cong [of "drop_route rid key" key plans] route_strings_ok_filter
  by (simp add: drop_route_def without_route_def key_ok_iff bindings_normal_iff)

lemma routed_lower:
  "routed_ok st \<Longrightarrow> lookup_key st k = Some key \<Longrightarrow> i \<in> set (rb_route_ids (ks_bindings key)) \<Longrightarrow> ToLower i = i"
  using routedD by (auto simp: route_id_ok_def)

section \<open>Creating a route\<close>

lemma lookup_key_routes [simp]: "lookup_key (st\<lparr>st_routes := rs\<rparr>) k = lookup_key st k"
  by (simp add: lookup_key_def)

lemma add_route_other [simp]: "ks_plan (add_route rid key) = ks_plan key" "ks_cycles (add_route rid key) = ks_cycles key"
  "ks_deleted_at (add_route rid key) = ks_deleted_at key"
  "rb_route_ids (ks_bindings (add_route rid key)) = rb_route_ids (ks_bindings key) @ [rid]"
  by (simp_all add: add_route_def)

lemma drop_route_other [simp]: "ks_plan (drop_route rid key) = ks_plan key" "ks_cycles (drop_route rid key) = ks_cycles key"
  "ks_deleted_at (drop_route rid key) = ks_deleted_at key"
  "ks_bindings (drop_route rid key) = without_route rid (ks_bindings key)"
  by (simp_all add: drop_route_def)

lemma lookup_attach:
  "lookup_key (attach_route rid st scope) k = map_option (\<lambda>key. if k = scope then add_route rid key else key) (lookup_key st k)"
  by (cases "lookup_key st k") (auto simp: attach_route_def split: option.splits)

lemma foldl_attach:
  assumes "distinct scopes"
  shows "lookup_key (foldl (attach_route rid) st scopes) k =
     map_option (\<lambda>key. if k \<in> set scopes then add_route rid key else key) (lookup_key st k)"
  using assms
proof (induction scopes arbitrary: st)
  case Nil
  then show ?case by (cases "lookup_key st k") simp_all
next
  case (Cons scope scopes)
  then show ?case by (cases "lookup_key st k") (auto simp: lookup_attach)
qed

lemma foldl_attach_other [simp]:
  "st_routes (foldl (attach_route rid) st scopes) = st_routes st" "st_plans (foldl (attach_route rid) st scopes) = st_plans st"
  "st_grouped (foldl (attach_route rid) st scopes) = st_grouped st"
  "st_credentials (foldl (attach_route rid) st scopes) = st_credentials st"
  "wf_map (st_keys st) \<Longrightarrow> wf_map (st_keys (foldl (attach_route rid) st scopes))"
  by (induction scopes arbitrary: st) (auto simp: attach_route_def split: option.splits)

lemma create_route_Inr:
  assumes "create_route route0 scopes st = Inr (route, ch, st')"
  shows "st' = foldl (attach_route (rte_id route)) (st\<lparr>st_routes := st_routes st @ [route]\<rparr>) scopes"
    "ch = no_changes\<lparr>ch_routes := True, ch_keys := scopes\<rparr>" "NormalizeRoute route = Inr route"
    "rte_id route \<notin> rte_id ` set (st_routes st)" "TrimSpace (rte_id route) = rte_id route" "rte_id route \<noteq> []"
    "\<And>scope. scope \<in> set scopes \<Longrightarrow> liveKey st scope \<noteq> None"
    "TrimSpace (rte_id route0) = [] \<Longrightarrow> \<exists>rid. freeID (rte_name route0) ''route'' (route_taken st) = Some rid \<and> rte_id route = TrimSpace rid"
proof -
  obtain us rid where c: "try_map (check_live st) scopes = Inr us"
    "(if TrimSpace (rte_id route0) = [] then freeID (rte_name route0) ''route'' (route_taken st) else Some (rte_id route0)) = Some rid"
    "NormalizeRoute (route0\<lparr>rte_id := rid\<rparr>) = Inr route" "\<not> route_taken st (rte_id route)"
    "ch = no_changes\<lparr>ch_routes := True, ch_keys := scopes\<rparr>"
    "st' = foldl (attach_route (rte_id route)) (st\<lparr>st_routes := st_routes st @ [route]\<rparr>) scopes"
    using assms unfolding create_route_def by (auto split: option.splits if_splits)
  show "st' = foldl (attach_route (rte_id route)) (st\<lparr>st_routes := st_routes st @ [route]\<rparr>) scopes"
    "ch = no_changes\<lparr>ch_routes := True, ch_keys := scopes\<rparr>" by (fact c)+
  show "NormalizeRoute route = Inr route" using c(3) by (rule NormalizeRoute_idem)
  have "rte_id (route0\<lparr>rte_id := rid\<rparr>) = rid" by simp
  then have i: "rte_id route = TrimSpace rid" "rte_id route \<noteq> []" using NormalizeRoute_id [OF c(3)] by metis+
  show "TrimSpace (rte_id route) = rte_id route" using i(1) by simp
  show "rte_id route \<noteq> []" by (fact i)
  show "rte_id route \<notin> rte_id ` set (st_routes st)" using c(4) i(1) by (simp add: route_taken_def findRoute_None)
  show "liveKey st scope \<noteq> None" if "scope \<in> set scopes" for scope
    using try_map_all [OF c(1) that] by (auto simp: check_live_def split: if_splits)
  show "TrimSpace (rte_id route0) = [] \<Longrightarrow> \<exists>rid. freeID (rte_name route0) ''route'' (route_taken st) = Some rid \<and> rte_id route = TrimSpace rid"
    using c(2) i by auto
qed

lemma create_route_sound:
  assumes "create_route route0 scopes st = Inr (route, ch, st')" "distinct scopes"
  shows "sound_step st st' ch"
proof -
  note c = create_route_Inr [OF assms(1)]
  show ?thesis
    by (intro sound_step_flat) (auto simp: c(1,2) foldl_attach [OF assms(2)] covers_key_def option.map_ident)
qed

lemma routes_ok_append: "routes_ok rs \<Longrightarrow> NormalizeRoute r = Inr r \<Longrightarrow> routes_ok (rs @ [r])"
  by (simp add: routes_ok_def)

lemma create_route_ok:
  assumes "state_ok st" "routed_ok st" "create_route route0 scopes st = Inr (route, ch, st')" "distinct scopes" "route_id_ok (rte_id route)"
  shows "state_ok st' \<and> routed_ok st'"
proof -
  note c = create_route_Inr [OF assms(3)]
  have l: "lookup_key st' k = map_option (\<lambda>key. if k \<in> set scopes then add_route (rte_id route) key else key) (lookup_key st k)" for k
    by (simp add: c(1) foldl_attach [OF assms(4)])
  have "key_ok (st_plans st') k key'" if k': "lookup_key st' k = Some key'" for k key'
  proof -
    obtain key where key: "lookup_key st k = Some key" "key' = (if k \<in> set scopes then add_route (rte_id route) key else key)"
      using k' by (auto simp: l)
    have ok: "key_ok (st_plans st) k key" using assms(1) key(1) by (rule state_ok_key)
    have "ToLower i = i \<and> i \<noteq> rte_id route" if "i \<in> set (rb_route_ids (ks_bindings key))" for i
      using routedD [OF assms(2) key(1) that] c(4) unfolding route_id_ok_def by blast
    then show ?thesis using add_route_ok [OF ok assms(5)] ok key(2) by (simp add: c(1))
  qed
  moreover have "routes_ok (st_routes st')" using assms(1) c(3) routes_ok_append by (simp add: c(1) state_ok_def)
  ultimately have "state_ok st'" using assms(1) by (simp add: state_ok_def) (simp add: c(1))
  moreover have "set (rb_route_ids (ks_bindings key')) \<subseteq> rte_id ` set (st_routes st')" if k': "lookup_key st' k = Some key'" for k key'
  proof -
    obtain key where key: "lookup_key st k = Some key" "key' = (if k \<in> set scopes then add_route (rte_id route) key else key)"
      using k' by (auto simp: l)
    then show ?thesis using routedD [OF assms(2) key(1)] by (auto simp: c(1))
  qed
  then have "routed_ok st'"
    using assms(2,5) c(4) unfolding routed_ok_def by (simp add: c(1))
  ultimately show ?thesis by blast
qed

section \<open>Editing a route\<close>

lemma lookup_update_route:
  "lookup_key (st\<lparr>st_routes := rs, st_keys := map_values f (st_keys st)\<rparr>) k = map_option (f k) (lookup_key st k)"
  by (simp add: lookup_key_def)

lemma update_route_Inr:
  assumes "update_route patch scopes st = Inr (route, ch, st')" "TrimSpace (rpt_id patch) = rpt_id patch"
  obtains i where "i < length (st_routes st)" "rte_id (st_routes st ! i) = rpt_id patch" "NormalizeRoute route = Inr route"
    "rte_id route = rpt_id patch" "st_routes st' = (st_routes st)[i := route]"
    "\<And>k. lookup_key st' k = map_option (reroute_key (rpt_id patch) (map_option normalizeScopes scopes) k) (lookup_key st k)"
    "ch_routes ch" "\<not> ch_all_keys ch"
    "set (ch_keys ch) = {k. \<exists>key. (k, key) \<in> set (st_keys st) \<and> reroute_changed (rpt_id patch) (map_option normalizeScopes scopes) k key}"
    "st_plans st' = st_plans st" "st_grouped st' = st_grouped st" "st_credentials st' = st_credentials st"
    "wf_map (st_keys st') = wf_map (st_keys st)"
    "\<And>l scope. scopes = Some l \<Longrightarrow> scope \<in> set (normalizeScopes l) \<Longrightarrow> lookup_key st scope \<noteq> None"
proof -
  obtain i where i: "findRouteIndex (st_routes st) (rpt_id patch) = Some i"
    using assms(1) by (auto simp: update_route_def split: option.splits)
  define old where "old = st_routes st ! i"
  define patched where "patched = (case rpt_rule patch of
      None \<Rightarrow> (case rpt_name patch of None \<Rightarrow> old | Some name \<Rightarrow> old\<lparr>rte_name := name\<rparr>)
    | Some rule \<Rightarrow> (case rpt_name patch of None \<Rightarrow> old | Some name \<Rightarrow> old\<lparr>rte_name := name\<rparr>)\<lparr>rte_rule := rule\<rparr>)"
  define sel where "sel = map_option normalizeScopes scopes"
  obtain us where c: "NormalizeRoute patched = Inr route"
    "(case sel of None \<Rightarrow> Inr [] | Some l \<Rightarrow> try_map (check_route_scope (rpt_id patch) st) l) = Inr us"
    "ch = no_changes\<lparr>ch_routes := True,
        ch_keys := map fst (filter (\<lambda>(scope, key). reroute_changed (rpt_id patch) sel scope key) (st_keys st))\<rparr>"
    "st' = st\<lparr>st_routes := (st_routes st)[i := route], st_keys := map_values (reroute_key (rpt_id patch) sel) (st_keys st)\<rparr>"
    using assms(1) by (auto simp: update_route_def i Let_def old_def patched_def sel_def cong: option.case_cong)
  have o: "i < length (st_routes st)" "rte_id old = rpt_id patch"
    using findRouteIndex_Some [OF i] assms(2) by (simp_all add: old_def)
  have "rte_id patched = rte_id old" by (simp add: patched_def split: option.splits)
  then have r: "rte_id route = rpt_id patch" using NormalizeRoute_id [OF c(1)] o assms(2) by simp
  have named: "lookup_key st scope \<noteq> None" if "scopes = Some l" "scope \<in> set (normalizeScopes l)" for l scope
    using c(2) that try_map_all [of "check_route_scope (rpt_id patch) st" "normalizeScopes l" us scope]
    by (auto simp: sel_def check_route_scope_def split: option.splits)
  show ?thesis
    by (rule that [OF o(1) _ NormalizeRoute_idem [OF c(1)] r])
      (use o(2) named in \<open>auto simp: c(3,4) sel_def old_def no_changes_def lookup_update_route lookup_key_def image_iff\<close>)
qed

lemma reroute_unchanged: "\<not> reroute_changed rid sel k key \<Longrightarrow> reroute_key rid sel k key = key"
  by (auto simp: reroute_changed_def reroute_key_def split: option.splits)

lemma update_route_sound:
  assumes "update_route patch scopes st = Inr (route, ch, st')" "TrimSpace (rpt_id patch) = rpt_id patch"
  shows "sound_step st st' ch"
proof -
  obtain i where u: "st_routes st' = (st_routes st)[i := route]"
    "\<And>k. lookup_key st' k = map_option (reroute_key (rpt_id patch) (map_option normalizeScopes scopes) k) (lookup_key st k)"
    "ch_routes ch"
    "set (ch_keys ch) = {k. \<exists>key. (k, key) \<in> set (st_keys st) \<and> reroute_changed (rpt_id patch) (map_option normalizeScopes scopes) k key}"
    "st_plans st' = st_plans st" "st_grouped st' = st_grouped st" "st_credentials st' = st_credentials st"
    "wf_map (st_keys st') = wf_map (st_keys st)"
    by (rule update_route_Inr [OF assms]) blast
  have "lookup_key st' k = lookup_key st k" if "\<not> covers_key ch k" for k
  proof (cases "lookup_key st k")
    case (Some key)
    then have "(k, key) \<in> set (st_keys st)" by (simp add: lookup_key_def map_of_SomeD)
    then have "\<not> reroute_changed (rpt_id patch) (map_option normalizeScopes scopes) k key"
      using that u(4) by (auto simp: covers_key_def)
    then show ?thesis using Some by (simp add: u(2) reroute_unchanged)
  qed (simp add: u(2))
  then show ?thesis by (intro sound_step_flat) (auto simp: u(2,3,5-8))
qed

lemma reroute_ids: "set (rb_route_ids (ks_bindings (reroute_key rid sel k key))) \<subseteq> insert rid (set (rb_route_ids (ks_bindings key)))"
  by (auto simp: reroute_key_def without_route_def split: option.splits)

lemma update_route_ok:
  assumes "state_ok st" "routed_ok st" "update_route patch scopes st = Inr (route, ch, st')" "TrimSpace (rpt_id patch) = rpt_id patch"
  shows "state_ok st' \<and> routed_ok st'"
proof -
  obtain i where u: "i < length (st_routes st)" "rte_id (st_routes st ! i) = rpt_id patch" "NormalizeRoute route = Inr route"
    "rte_id route = rpt_id patch" "st_routes st' = (st_routes st)[i := route]"
    "\<And>k. lookup_key st' k = map_option (reroute_key (rpt_id patch) (map_option normalizeScopes scopes) k) (lookup_key st k)"
    "st_plans st' = st_plans st"
    by (rule update_route_Inr [OF assms(3,4)]) blast
  have ids: "map rte_id (st_routes st') = map rte_id (st_routes st)"
    using u(1,2,4) by (simp add: u(5) map_update list_update_same_conv)
  have "rte_id ` set (st_routes st') = set (map rte_id (st_routes st'))" by simp
  then have idset: "rte_id ` set (st_routes st') = rte_id ` set (st_routes st)" unfolding ids by simp
  have rid: "route_id_ok (rpt_id patch)" "rpt_id patch \<in> rte_id ` set (st_routes st)"
    using assms(2) u(2) nth_mem [OF u(1)] unfolding routed_ok_def by (metis, metis imageI)
  let ?f = "reroute_key (rpt_id patch) (map_option normalizeScopes scopes)"
  have "key_ok (st_plans st') k key'" if k': "lookup_key st' k = Some key'" for k key'
  proof -
    obtain key where key: "lookup_key st k = Some key" "key' = ?f k key" using k' by (auto simp: u(6))
    have ok: "key_ok (st_plans st) k key" using assms(1) key(1) by (rule state_ok_key)
    have "key_ok (st_plans st) k (add_route (rpt_id patch) key)" if "\<not> has_route (rpt_id patch) key"
      by (rule add_route_ok [OF ok rid(1)]) (use that routed_lower [OF assms(2) key(1)] in \<open>auto simp: has_route_def\<close>)
    then show ?thesis using ok drop_route_ok [OF ok] by (auto simp: key(2) u(7) reroute_key_def split: option.splits)
  qed
  moreover have "routes_ok (st_routes st')"
    using assms(1) u(3) set_update_subset_insert [of "st_routes st" i route] by (auto simp: u(5) state_ok_def routes_ok_def)
  ultimately have "state_ok st'" using assms(1) by (simp add: state_ok_def u(7))
  moreover have "set (rb_route_ids (ks_bindings key')) \<subseteq> rte_id ` set (st_routes st')" if k': "lookup_key st' k = Some key'" for k key'
  proof -
    obtain key where key: "lookup_key st k = Some key" "key' = ?f k key" using k' by (auto simp: u(6))
    then show ?thesis
      using routedD [OF assms(2) key(1)] rid(2) reroute_ids [of "rpt_id patch" "map_option normalizeScopes scopes" k key]
      unfolding idset by blast
  qed
  moreover have "\<forall>r \<in> set (st_routes st'). route_id_ok (rte_id r)"
    using assms(2) rid(1) set_update_subset_insert [of "st_routes st" i route] u(4) by (auto simp: u(5) routed_ok_def)
  ultimately show ?thesis using assms(2) ids by (simp add: routed_ok_def)
qed

section \<open>Setting the routes of a key\<close>

lemma set_key_routes_sound: "set_key_routes scope bindings st = Inr (v, ch, st') \<Longrightarrow> sound_step st st' ch"
  by (auto simp: set_key_routes_def covers_key_def intro!: sound_step_key split: option.splits if_splits)

lemma set_key_routes_ok:
  assumes "state_ok st" "routed_ok st" "set_key_routes scope bindings st = Inr (v, ch, st')" "NormalizeRouteBindings bindings = Inr bindings"
  shows "state_ok st' \<and> routed_ok st'"
proof -
  obtain key where k: "lookup_key st scope = Some key" "st' = put_key scope (key\<lparr>ks_bindings := bindings\<rparr>) st"
    "list_all (route_taken st) (rb_route_ids bindings)"
    using assms(3) by (auto simp: set_key_routes_def liveKey_Some split: option.splits if_splits)
  have "key_ok (st_plans st) scope (key\<lparr>ks_bindings := bindings\<rparr>)"
    using state_ok_key [OF assms(1) k(1)] assms(4) cycles_ok_cong [of "key\<lparr>ks_bindings := bindings\<rparr>" key "st_plans st"]
    by (simp add: key_ok_iff)
  then have "state_ok st'" using assms(1) k(2) state_ok_put by simp
  moreover have "i \<in> rte_id ` set (st_routes st)" if "i \<in> set (rb_route_ids bindings)" for i
  proof -
    have "TrimSpace i = i" using assms(4) that by (auto simp: bindings_normal_iff route_strings_ok_def)
    then show ?thesis using k(3) that unfolding list_all_iff route_taken_def findRoute_None by metis
  qed
  then have "routed_ok st'" using assms(2) by (auto simp: k(2) routed_ok_def)
  ultimately show ?thesis by blast
qed

section \<open>Deleting a route\<close>

lemma removed_split: "distinct (map f (ys @ z # zs)) \<Longrightarrow> distinct (map f (ys @ zs)) \<and> set (ys @ zs) = {x \<in> set (ys @ z # zs). f x \<noteq> f z}"
  by (auto simp: image_iff)

lemma removed_list:
  assumes "distinct (map f xs)" "i < length xs"
  shows "distinct (map f (take i xs @ drop (Suc i) xs))" "set (take i xs @ drop (Suc i) xs) = {x \<in> set xs. f x \<noteq> f (xs ! i)}"
proof -
  have "distinct (map f (take i xs @ xs ! i # drop (Suc i) xs))"
    using assms(1) id_take_nth_drop [OF assms(2)] by (rule subst [rotated])
  from removed_split [OF this]
  show "distinct (map f (take i xs @ drop (Suc i) xs))" "set (take i xs @ drop (Suc i) xs) = {x \<in> set xs. f x \<noteq> f (xs ! i)}"
    unfolding id_take_nth_drop [OF assms(2), symmetric] by blast+
qed

lemma option_eqI: "(\<And>r. a = Some r \<longleftrightarrow> b = Some r) \<Longrightarrow> a = b"
  by (cases a; cases b) auto

lemma delete_route_Inr:
  assumes "delete_route rid st = Inr (v, ch, st')" "TrimSpace rid = rid"
  obtains i where "i < length (st_routes st)" "rte_id (st_routes st ! i) = rid"
    "st_routes st' = take i (st_routes st) @ drop (Suc i) (st_routes st)"
    "\<And>k. lookup_key st' k = map_option (drop_route rid) (lookup_key st k)"
    "ch = no_changes\<lparr>ch_routes := True, ch_keys := map fst (filter (\<lambda>(scope, key). has_route rid key) (st_keys st))\<rparr>"
    "rdl_unrestricted v = length (filter (\<lambda>(scope, key). has_route rid key \<and> IsZero (ks_deleted_at key) \<and>
        \<not> routingRestricted (st_routes st) (ks_bindings (drop_route rid key))) (st_keys st))"
    "st_plans st' = st_plans st" "st_grouped st' = st_grouped st" "st_credentials st' = st_credentials st"
    "wf_map (st_keys st') = wf_map (st_keys st)"
proof -
  obtain i where i: "findRouteIndex (st_routes st) rid = Some i"
    using assms(1) by (auto simp: delete_route_def split: option.splits)
  have "st' = st\<lparr>st_routes := take i (st_routes st) @ drop (Suc i) (st_routes st), st_keys := map_values (\<lambda>_. drop_route rid) (st_keys st)\<rparr>"
    "ch = no_changes\<lparr>ch_routes := True, ch_keys := map fst (filter (\<lambda>(scope, key). has_route rid key) (st_keys st))\<rparr>"
    "rdl_unrestricted v = length (filter (\<lambda>(scope, key). has_route rid key \<and> IsZero (ks_deleted_at key) \<and>
        \<not> routingRestricted (st_routes st) (ks_bindings (drop_route rid key))) (st_keys st))"
    using assms(1) by (auto simp: delete_route_def i Let_def filter_filter split_def conj_ac)
  then show ?thesis
    using findRouteIndex_Some [OF i] assms(2) by (intro that [of i]) (simp_all add: lookup_update_route)
qed

lemma drop_route_same: "\<not> has_route rid key \<Longrightarrow> drop_route rid key = key"
proof -
  assume "\<not> has_route rid key"
  then have "filter (\<lambda>i. i \<noteq> rid) (rb_route_ids (ks_bindings key)) = rb_route_ids (ks_bindings key)"
    by (intro filter_True) (auto simp: has_route_def)
  then have "without_route rid (ks_bindings key) = ks_bindings key" by (simp add: without_route_def)
  then show "drop_route rid key = key" by (simp add: drop_route_def)
qed

lemma delete_route_sound:
  assumes "delete_route rid st = Inr (v, ch, st')" "TrimSpace rid = rid"
  shows "sound_step st st' ch"
proof -
  obtain i where d: "st_routes st' = take i (st_routes st) @ drop (Suc i) (st_routes st)"
    "\<And>k. lookup_key st' k = map_option (drop_route rid) (lookup_key st k)"
    "ch = no_changes\<lparr>ch_routes := True, ch_keys := map fst (filter (\<lambda>(scope, key). has_route rid key) (st_keys st))\<rparr>"
    "st_plans st' = st_plans st" "st_grouped st' = st_grouped st" "st_credentials st' = st_credentials st"
    "wf_map (st_keys st') = wf_map (st_keys st)"
    by (rule delete_route_Inr [OF assms]) blast
  have "lookup_key st' k = lookup_key st k" if "\<not> covers_key ch k" for k
  proof (cases "lookup_key st k")
    case (Some key)
    then have "(k, key) \<in> set (st_keys st)" by (simp add: lookup_key_def map_of_SomeD)
    then have "\<not> has_route rid key" using that by (force simp: d(3) covers_key_def)
    then show ?thesis using Some by (simp add: d(2) drop_route_same)
  qed (simp add: d(2))
  then show ?thesis by (intro sound_step_flat) (auto simp: d(2-7))
qed

lemma findRoute_removed:
  assumes "distinct (map rte_id rs)" "i < length rs" "TrimSpace x \<noteq> rte_id (rs ! i)"
  shows "findRoute (take i rs @ drop (Suc i) rs) x = findRoute rs x"
  by (rule option_eqI)
    (use assms removed_list [OF assms(1,2)] in \<open>auto simp: findRoute_iff\<close>)

lemma merge_routes_cong:
  "(\<And>x. x \<in> set ids \<Longrightarrow> findRoute rs' x = findRoute rs x) \<Longrightarrow> merge_routes rs' d ids = merge_routes rs d ids"
  by (induction ids arbitrary: d) (auto split: option.split)

lemma resolve_removed:
  assumes "distinct (map rte_id rs)" "i < length rs" "\<And>x. x \<in> set (rb_route_ids b) \<Longrightarrow> TrimSpace x \<noteq> rte_id (rs ! i)"
  shows "resolveRoutingState (take i rs @ drop (Suc i) rs) (Some b) = resolveRoutingState rs (Some b)"
  using merge_routes_cong [of "rb_route_ids b" "take i rs @ drop (Suc i) rs" rs empty_rule] findRoute_removed [OF assms(1,2)] assms(3)
  by (simp add: resolveRoutingState_def)

lemma delete_route_ok:
  assumes "state_ok st" "routed_ok st" "delete_route rid st = Inr (v, ch, st')" "TrimSpace rid = rid"
  shows "state_ok st' \<and> routed_ok st'"
proof -
  obtain i where d: "i < length (st_routes st)" "rte_id (st_routes st ! i) = rid"
    "st_routes st' = take i (st_routes st) @ drop (Suc i) (st_routes st)"
    "\<And>k. lookup_key st' k = map_option (drop_route rid) (lookup_key st k)" "st_plans st' = st_plans st"
    by (rule delete_route_Inr [OF assms(3,4)]) blast
  have dist: "distinct (map rte_id (st_routes st))" using assms(2) by (simp add: routed_ok_def)
  note r = removed_list [OF dist d(1), folded d(3), unfolded d(2)]
  have "key_ok (st_plans st') k key'" if "lookup_key st' k = Some key'" for k key'
    using that drop_route_ok state_ok_key [OF assms(1)] by (auto simp: d(4,5))
  then have "state_ok st'" using assms(1) r(2) by (auto simp: state_ok_def routes_ok_def d(5))
  moreover have "set (rb_route_ids (ks_bindings key')) \<subseteq> rte_id ` set (st_routes st')" if k': "lookup_key st' k = Some key'" for k key'
  proof -
    obtain key where key: "lookup_key st k = Some key" "key' = drop_route rid key" using k' by (auto simp: d(4))
    have "x \<in> rte_id ` set (st_routes st')" if x: "x \<in> set (rb_route_ids (ks_bindings key))" "x \<noteq> rid" for x
    proof -
      obtain r' where "r' \<in> set (st_routes st)" "rte_id r' = x" using routedD [OF assms(2) key(1) x(1)] by auto
      then show ?thesis using x(2) r(2) by blast
    qed
    then show ?thesis by (auto simp: key(2) without_route_def)
  qed
  moreover have "\<forall>x \<in> set (st_routes st'). route_id_ok (rte_id x)" using assms(2) r(2) by (auto simp: routed_ok_def)
  ultimately show ?thesis using r(1) by (simp add: routed_ok_def)
qed

section \<open>Properties\<close>

lemma edit_routed:
  assumes "store_synced s" "state_ok (s_state s)" "routed_ok (s_state s)" "editConfiguration E fn s = (Inr v, s')"
    "\<And>v ch st. fn (s_state s) = Inr (v, ch, st) \<Longrightarrow> sound_step (s_state s) st ch"
    "\<And>v ch st. fn (s_state s) = Inr (v, ch, st) \<Longrightarrow> state_ok st \<and> routed_ok st"
  shows "store_synced s' \<and> state_ok (s_state s') \<and> routed_ok (s_state s') \<and> (\<exists>ch. fn (s_state s) = Inr (v, ch, s_state s'))"
proof -
  have "store_synced s' \<and> state_ok (s_state s') \<and> (\<exists>ch. fn (s_state s) = Inr (v, ch, s_state s'))"
    by (rule edit_step [OF assms(1,2,4)]) (use assms(5,6) in blast)+
  then show ?thesis using assms(6) by blast
qed


text \<open>Deleting a route takes it off every key and changes nothing else: afterwards each key is governed by exactly the
  decision its remaining bindings gave before, every bound route still exists, and the number of keys reported as
  unrestricted counts the live keys that had the route and are unrestricted from then on.\<close>

theorem DeleteRoute_ok:
  assumes "store_synced s" "state_ok (s_state s)" "routed_ok (s_state s)" "DeleteRoute E rid s = (Inr v, s')"
  shows "store_synced s' \<and> state_ok (s_state s') \<and> routed_ok (s_state s') \<and>
    findRoute (st_routes (s_state s')) rid = None \<and>
    (\<forall>scope key. lookup_key (s_state s) scope = Some key \<longrightarrow>
       (\<exists>key'. lookup_key (s_state s') scope = Some key' \<and> ks_bindings key' = without_route (TrimSpace rid) (ks_bindings key) \<and>
          resolveRoutingState (st_routes (s_state s')) (Some (ks_bindings key')) =
            resolveRoutingState (st_routes (s_state s)) (Some (ks_bindings key')))) \<and>
    rdl_unrestricted v = length (filter (\<lambda>(scope, key). has_route (TrimSpace rid) key \<and> IsZero (ks_deleted_at key) \<and>
       \<not> routingRestricted (st_routes (s_state s')) (without_route (TrimSpace rid) (ks_bindings key))) (st_keys (s_state s)))"
proof -
  let ?rid = "TrimSpace rid"
  have e: "editConfiguration E (delete_route ?rid) s = (Inr v, s')"
    using assms(4) by (auto simp: DeleteRoute_def Let_def split: if_splits)
  obtain ch where keeps: "store_synced s'" "state_ok (s_state s')" "routed_ok (s_state s')"
    "delete_route ?rid (s_state s) = Inr (v, ch, s_state s')"
    using edit_routed [OF assms(1-3) e] delete_route_sound [OF _ TrimSpace_idem] delete_route_ok [OF assms(2,3) _ TrimSpace_idem] by metis
  obtain i where d: "i < length (st_routes (s_state s))" "rte_id (st_routes (s_state s) ! i) = ?rid"
    "st_routes (s_state s') = take i (st_routes (s_state s)) @ drop (Suc i) (st_routes (s_state s))"
    "\<And>k. lookup_key (s_state s') k = map_option (drop_route ?rid) (lookup_key (s_state s) k)"
    "rdl_unrestricted v = length (filter (\<lambda>(scope, key). has_route ?rid key \<and> IsZero (ks_deleted_at key) \<and>
        \<not> routingRestricted (st_routes (s_state s)) (ks_bindings (drop_route ?rid key))) (st_keys (s_state s)))"
    by (rule delete_route_Inr [OF keeps(4)]) auto
  have dist: "distinct (map rte_id (st_routes (s_state s)))" using assms(3) by (simp add: routed_ok_def)
  have same: "resolveRoutingState (st_routes (s_state s')) (Some (without_route ?rid (ks_bindings key))) =
      resolveRoutingState (st_routes (s_state s)) (Some (without_route ?rid (ks_bindings key)))"
    if "lookup_key (s_state s) scope = Some key" for scope key
    unfolding d(3) by (rule resolve_removed [OF dist d(1)])
      (use routedD [OF assms(3) that] in \<open>auto simp: d(2) without_route_def route_id_ok_def\<close>)
  have wf: "wf_map (st_keys (s_state s))" using assms(1) by (simp add: store_synced_def state_wf_def)
  have count: "filter (\<lambda>(scope, key). has_route ?rid key \<and> IsZero (ks_deleted_at key) \<and>
        \<not> routingRestricted (st_routes (s_state s)) (ks_bindings (drop_route ?rid key))) (st_keys (s_state s)) =
      filter (\<lambda>(scope, key). has_route ?rid key \<and> IsZero (ks_deleted_at key) \<and>
       \<not> routingRestricted (st_routes (s_state s')) (without_route ?rid (ks_bindings key))) (st_keys (s_state s))"
    by (rule filter_cong [OF refl])
      (use same wf in \<open>auto simp: routingRestricted_def Let_def wf_map_mem_iff lookup_key_def\<close>)
  have "findRoute (st_routes (s_state s')) rid = None"
    using removed_list(2) [OF dist d(1)] by (auto simp: d(2,3) findRoute_None)
  then show ?thesis using keeps(1-3) d(4,5) same count by auto
qed

text \<open>Editing a route replaces its rule and, when keys are named, makes exactly those the keys bound to it. No key gains or
  loses any other binding.\<close>

theorem UpdateRoute_ok:
  assumes "store_synced s" "state_ok (s_state s)" "routed_ok (s_state s)" "UpdateRoute E patch scopes s = (Inr route, s')"
    "lookup_key (s_state s) scope = Some key"
  shows "store_synced s' \<and> state_ok (s_state s') \<and> routed_ok (s_state s') \<and>
    findRoute (st_routes (s_state s')) (rte_id route) = Some route \<and>
    (\<exists>key'. lookup_key (s_state s') scope = Some key' \<and>
      (has_route (rte_id route) key' \<longleftrightarrow>
         (case scopes of None \<Rightarrow> has_route (rte_id route) key | Some l \<Rightarrow> scope \<in> set (normalizeScopes l))) \<and>
      without_route (rte_id route) (ks_bindings key') = without_route (rte_id route) (ks_bindings key))"
proof -
  let ?patch = "patch\<lparr>rpt_id := TrimSpace (rpt_id patch)\<rparr>"
  have t: "TrimSpace (rpt_id ?patch) = rpt_id ?patch" by simp
  have e: "editConfiguration E (update_route ?patch scopes) s = (Inr route, s')"
    using assms(4) by (auto simp: UpdateRoute_def Let_def split: if_splits)
  obtain ch where keeps: "store_synced s'" "state_ok (s_state s')" "routed_ok (s_state s')"
    "update_route ?patch scopes (s_state s) = Inr (route, ch, s_state s')"
    using edit_routed [OF assms(1-3) e] update_route_sound [OF _ t] update_route_ok [OF assms(2,3) _ t] by metis
  obtain i where u: "i < length (st_routes (s_state s))" "rte_id route = rpt_id ?patch"
    "st_routes (s_state s') = (st_routes (s_state s))[i := route]"
    "\<And>k. lookup_key (s_state s') k = map_option (reroute_key (rpt_id ?patch) (map_option normalizeScopes scopes) k) (lookup_key (s_state s) k)"
    by (rule update_route_Inr [OF keeps(4) t]) blast
  have "route \<in> set (st_routes (s_state s'))" using u(1) by (simp add: u(3) set_update_memI)
  moreover have "distinct (map rte_id (st_routes (s_state s')))" using keeps(3) by (simp add: routed_ok_def)
  moreover have "TrimSpace (rte_id route) = rte_id route" using u(2) by simp
  ultimately have "findRoute (st_routes (s_state s')) (rte_id route) = Some route" by (simp add: findRoute_iff)
  then show ?thesis
    using keeps(1-3) assms(5) unfolding u(2,4)
    by (cases scopes) (auto simp: reroute_key_def has_route_def without_route_def add_route_def)
qed

text \<open>Identifiers the store chooses for a route are lower case and short.\<close>

lemma freeID_form:
  assumes "freeID name p taken = Some new"
  shows "new = slugify name \<or> (\<exists>i<1000. new = numbered (slugify name) i) \<or> free_number p taken 1 = Some new"
proof (cases "find (\<lambda>i. \<not> taken (numbered (slugify name) i)) [2..<1000]")
  case None
  then show ?thesis using assms by (auto simp: freeID_def Let_def simp del: upt_rec_numeral split: if_splits)
next
  case (Some i)
  then have "i \<in> set [2..<1000]" using find_Some_prop by fast
  then have "i < 1000" by (simp only: set_upt atLeastLessThan_iff)
  then show ?thesis using assms Some by (auto simp: freeID_def Let_def simp del: upt_rec_numeral split: if_splits)
qed

lemma free_number_least:
  assumes "free_number p taken 1 = Some new" "\<not> taken (numbered p k)" "1 \<le> k"
  shows "\<exists>j\<le>k. new = numbered p j"
  using free_number_from [of taken p k 1] assms by auto

lemma ToLower_id: "list_all (\<lambda>c. \<not> is_upper c) s \<Longrightarrow> ToLower s = s"
  by (auto simp: ToLower_def list_all_iff lower_byte_other intro: map_idI)

lemma slug_char_lower: "slug_char c \<Longrightarrow> \<not> is_upper c"
  by (auto simp: slug_char_def is_lower_letter_def is_digit_def is_upper_def less_eq_char_def)

lemma numbered_lower: "list_all slug_char b \<Longrightarrow> ToLower (numbered b i) = numbered b i \<and> TrimSpace (numbered b i) = numbered b i"
proof -
  assume b: "list_all slug_char b"
  then have c: "list_all slug_char (numbered b i)"
    using itoa_digits [of i] by (auto simp: numbered_def list_all_iff slug_char_def)
  then have "list_all visible (numbered b i)" using slug_visible by (auto simp: list_all_iff)
  then show ?thesis using c slug_char_lower by (auto simp: list_all_iff intro!: ToLower_id TrimSpace_visible)
qed

lemma route_number_free:
  "\<exists>k. 1 \<le> k \<and> k \<le> Suc (length (st_routes st)) \<and> \<not> route_taken st (numbered ''route'' k)"
proof (rule ccontr)
  assume n: "\<not> ?thesis"
  have r: "list_all slug_char ''route''" by (simp add: slug_char_def is_lower_letter_def less_eq_char_def)
  have "numbered ''route'' k \<in> rte_id ` set (st_routes st)" if "k \<in> {1..Suc (length (st_routes st))}" for k
  proof -
    have "route_taken st (numbered ''route'' k)" using n that by auto
    then show ?thesis using numbered_lower [OF r, of k] by (auto simp: route_taken_def findRoute_None)
  qed
  then have "numbered ''route'' ` {1..Suc (length (st_routes st))} \<subseteq> rte_id ` set (st_routes st)" by blast
  then have "card (numbered ''route'' ` {1..Suc (length (st_routes st))}) \<le> card (rte_id ` set (st_routes st))"
    by (rule card_mono [rotated]) simp
  also have "\<dots> \<le> length (st_routes st)" using card_length [of "map rte_id (st_routes st)"] by simp
  finally show False by (simp add: card_image inj_on_def)
qed

lemma free_route_id:
  assumes "freeID name ''route'' (route_taken st) = Some rid" "rid \<noteq> []" "length (st_routes st) < 10 ^ 400"
  shows "route_id_ok rid"
proof -
  have r: "list_all slug_char ''route''" by (simp add: slug_char_def is_lower_letter_def less_eq_char_def)
  have s: "list_all slug_char (slugify name)" "length (slugify name) \<le> 48" using slugify_form by blast+
  have len: "length (numbered b i) = length b + 1 + length (itoa i)" for b i by (simp add: numbered_def)
  consider "rid = slugify name" | i where "i < 1000" "rid = numbered (slugify name) i"
    | "free_number ''route'' (route_taken st) 1 = Some rid" using freeID_form [OF assms(1)] by blast
  then show ?thesis
  proof cases
    case 1
    have "ToLower rid = rid" "TrimSpace rid = rid"
      using s(1) slug_char_lower slug_visible unfolding 1 by (auto simp: list_all_iff intro!: ToLower_id TrimSpace_visible)
    then show ?thesis using assms(2) s(2) 1 by (simp add: route_id_ok_def maxRouteValueBytes_def)
  next
    case 2
    have "length (itoa i) \<le> 3" using length_itoa_le [of i 2] 2(1) by (simp add: numeral_eq_Suc)
    then show ?thesis using numbered_lower [OF s(1), of i] assms(2) s(2) 2(2) len [of "slugify name" i]
      by (simp add: route_id_ok_def maxRouteValueBytes_def)
  next
    case 3
    obtain k where k: "1 \<le> k" "k \<le> Suc (length (st_routes st))" "\<not> route_taken st (numbered ''route'' k)"
      using route_number_free by blast
    obtain j where j: "j \<le> k" "rid = numbered ''route'' j" using free_number_least [OF 3 k(3,1)] by blast
    have "j < 10 ^ Suc 400" using j(1) k(2) assms(3) by (simp only: power_Suc)
    then have "length (itoa j) \<le> Suc 400" by (rule length_itoa_le)
    then show ?thesis using numbered_lower [OF r, of j] assms(2) j(2) len [of "''route''" j]
      by (simp add: route_id_ok_def maxRouteValueBytes_def)
  qed
qed

lemma freeID_route: "\<exists>rid. freeID name ''route'' (route_taken st) = Some rid"
proof -
  obtain k where "1 \<le> k" "\<not> route_taken st (numbered ''route'' k)" using route_number_free by blast
  then have "\<exists>new. free_number ''route'' (route_taken st) 1 = Some new" using free_number_from by blast
  then show ?thesis by (auto simp: freeID_def Let_def simp del: upt_rec_numeral split: option.splits)
qed

lemma dedupe_loop_distinct:
  "distinct (map ToLower (dedupe_loop seen vs)) \<and> set (map ToLower (dedupe_loop seen vs)) \<inter> set seen = {}"
  by (induction seen vs rule: dedupe_loop.induct) (auto simp: Let_def)

lemma distinct_normalizeScopes: "distinct (normalizeScopes scopes)"
  using dedupe_loop_distinct [of "[]" "map normalizeScope scopes"] by (simp add: normalizeScopes_def dedupe_def distinct_map)

lemma CreateRoute_keeps:
  assumes "store_synced s" "state_ok (s_state s)" "routed_ok (s_state s)" "TrimSpace (rte_id route0) = []"
    "length (st_routes (s_state s)) < 10 ^ 400" "CreateRoute E route0 scopes s = (Inr route, s')"
  shows "store_synced s' \<and> state_ok (s_state s') \<and> routed_ok (s_state s') \<and>
    findRoute (st_routes (s_state s')) (rte_id route) = Some route"
proof -
  let ?fn = "create_route route0 (normalizeScopes scopes)"
  have dist: "distinct (normalizeScopes scopes)" by (rule distinct_normalizeScopes)
  have e: "editConfiguration E ?fn s = (Inr route, s')" using assms(6) by (simp add: CreateRoute_def)
  have rid: "route_id_ok (rte_id v)" if f: "?fn (s_state s) = Inr (v, ch, st)" for v ch st
  proof -
    obtain rid where r: "freeID (rte_name route0) ''route'' (route_taken (s_state s)) = Some rid" "rte_id v = TrimSpace rid"
      using create_route_Inr(8) [OF f assms(4)] by blast
    have "rid \<noteq> []" using create_route_Inr(6) [OF f] r(2) by auto
    then have "route_id_ok rid" using free_route_id [OF r(1) _ assms(5)] by blast
    then show ?thesis using r(2) by (simp add: route_id_ok_def)
  qed
  obtain ch where keeps: "store_synced s'" "state_ok (s_state s')" "routed_ok (s_state s')" "?fn (s_state s) = Inr (route, ch, s_state s')"
    using edit_routed [OF assms(1-3) e] create_route_sound [OF _ dist] create_route_ok [OF assms(2,3) _ dist rid] by metis
  note c = create_route_Inr [OF keeps(4)]
  have "route \<in> set (st_routes (s_state s'))" by (simp add: c(1))
  then show ?thesis using keeps(1-3) c(5) by (simp add: routed_ok_def findRoute_iff)
qed

section \<open>Examples\<close>

lemma small_routed: "routed_ok small_state"
  by (simp add: routed_ok_def small_lookup route_id_ok_def maxRouteValueBytes_def)
    (simp add: small_state_def small_route_def bound_key_def new_key_def no_bindings_def ToLower_def lower_byte_def is_upper_def)


lemma small_route_found: "findRouteIndex (st_routes small_state) ''r'' = Some 0"
  by (simp add: findRouteIndex_def Let_def) (simp add: small_state_def small_route_def)

theorem DeleteRoute_ok_witness:
  "\<exists>v s'. DeleteRoute calm ''r'' memory_store = (Inr v, s') \<and> routed_ok (s_state s') \<and> findRoute (st_routes (s_state s')) ''r'' = None"
proof -
  obtain v ch st where f: "delete_route ''r'' small_state = Inr (v, ch, st)"
    by (simp add: delete_route_def small_route_found Let_def)
  from memory_store_edit [of "delete_route ''r''", OF f] obtain s' where s: "DeleteRoute calm ''r'' memory_store = (Inr v, s')"
    by (fastforce simp: DeleteRoute_def Let_def)
  from DeleteRoute_ok [OF memory_store_synced _ _ s] small_state_ok small_routed s show ?thesis by auto
qed

theorem UpdateRoute_ok_witness:
  "\<exists>route s' key'. UpdateRoute calm \<lparr>rpt_id = ''r'', rpt_name = None, rpt_rule = None\<rparr> (Some [''ab'']) memory_store = (Inr route, s') \<and>
     lookup_key (s_state s') ''ab'' = Some key' \<and> has_route ''r'' key'"
proof -
  let ?patch = "\<lparr>rpt_id = ''r'', rpt_name = None, rpt_rule = None\<rparr> :: RoutePatch"
  have r: "st_routes small_state ! 0 = small_route" by (simp add: small_state_def)
  have n: "NormalizeRoute small_route = Inr small_route" using small_loadable by (simp add: loadable_def small_state_def)
  have l: "normalizeScopes [''ab''] = [''ab'']"
    by (simp add: normalizeScopes_def normalizeScope_def dedupe_def Let_def ToLower_def lower_byte_def is_upper_def)
  have c: "check_route_scope ''r'' small_state ''ab'' = Inr ()"
    by (simp add: check_route_scope_def small_lookup bound_key_def new_key_def IsZero_def)
  obtain ch st where f: "update_route ?patch (Some [''ab'']) small_state = Inr (small_route, ch, st)"
    using n c by (simp add: update_route_def small_route_found Let_def r l)
  from memory_store_edit [of "update_route ?patch (Some [''ab''])", OF f] obtain s' where
    s: "UpdateRoute calm ?patch (Some [''ab'']) memory_store = (Inr small_route, s')" by (fastforce simp: UpdateRoute_def Let_def)
  have k: "lookup_key (s_state memory_store) ''ab'' = Some bound_key" by (simp add: small_lookup)
  have "rte_id small_route = ''r''" by (simp add: small_route_def)
  then show ?thesis using UpdateRoute_ok [OF memory_store_synced _ _ s k] small_state_ok small_routed s l by auto
qed

end
