(* ===== verification/ReferencePrices.thy ===== *)
theory ReferencePrices
  imports Store "HOL-Library.Product_Lexorder"
begin

text \<open>
  Reference prices: the data and the matching rules of \<^verbatim>\<open>internal/billing/reference_prices.go\<close>, the reading of the
  catalogue in \<^verbatim>\<open>models_dev_prices.go\<close>, and the two tables of \<^verbatim>\<open>internal/sqlite/reference_prices.go\<close>. A result
  \<open>(price, found)\<close> is an option. The text of the catalogue is decoded by the JSON package, a parameter; the maps it
  yields are lists in the order the code happens to visit them, and \<open>parseModelsDevPrices_order\<close> shows that the
  order does not matter. \<open>matchReferencePriceKey_Some\<close> says which price is chosen.
\<close>

section \<open>Prices\<close>

record ReferencePrice =
  rp_provider :: string
  rp_model :: string
  rp_canonical :: bool
  rp_rates :: "PriceRates option"

definition ReferencePrice_Validate :: "ReferencePrice \<Rightarrow> error + unit" where
  "ReferencePrice_Validate p =
     (if TrimSpace (rp_provider p) = [] \<or> TrimSpace (rp_model p) = []
      then Inl (invalidf ''provider id and model id of a reference price must not be empty'')
      else case rp_rates p of None \<Rightarrow> Inr () | Some r \<Rightarrow> rates_validate r)"

text \<open>What follows the last occurrence of a byte.\<close>

definition after_last :: "char \<Rightarrow> string \<Rightarrow> string" where
  "after_last c s = rev (takeWhile (\<lambda>x. x \<noteq> c) (rev s))"

definition ReferenceModelKey :: "string \<Rightarrow> string" where
  "ReferenceModelKey modelID = (let key = NormalizeModelID modelID in if CHR ''/'' \<in> set key then after_last (CHR ''/'') key else key)"

definition add_reference_key :: "string list \<Rightarrow> string \<Rightarrow> string list" where
  "add_reference_key keys base =
     (let key = ReferenceModelKey base in if key \<noteq> [] \<and> (keys = [] \<or> hd keys \<noteq> key) then keys @ [key] else keys)"

definition referencePriceKeys :: "string \<Rightarrow> string \<Rightarrow> string list" where
  "referencePriceKeys upstream requested =
     (let keys = add_reference_key [] (ModelWithoutThinkingSuffix upstream);
          base = ModelWithoutThinkingSuffix requested
      in if EqualFold base ''auto'' then keys else add_reference_key keys base)"

section \<open>Matching\<close>

fun match_loop :: "string \<Rightarrow> bool \<Rightarrow> ReferencePrice option \<Rightarrow> ReferencePrice list \<Rightarrow> ReferencePrice option" where
  "match_loop key canonical matched [] = matched"
| "match_loop key canonical matched (p # ps) =
     (if ReferenceModelKey (rp_model p) \<noteq> key \<or> (canonical \<and> \<not> rp_canonical p) then match_loop key canonical matched ps
      else case rp_rates p of
             None \<Rightarrow> None
           | Some r \<Rightarrow>
               (case matched of
                  None \<Rightarrow> match_loop key canonical (Some p) ps
                | Some m \<Rightarrow> if samePriceRates (the (rp_rates m)) r then match_loop key canonical matched ps else None))"

definition matchReferencePriceKey :: "string \<Rightarrow> ReferencePrice list \<Rightarrow> ReferencePrice option" where
  "matchReferencePriceKey key candidates =
     (if key = [] then None
      else match_loop key (\<exists>p\<in>set candidates. rp_canonical p \<and> ReferenceModelKey (rp_model p) = key) None candidates)"

fun matchReferencePriceKeys :: "ReferencePrice list \<Rightarrow> string list \<Rightarrow> ReferencePrice option" where
  "matchReferencePriceKeys prices [] = None"
| "matchReferencePriceKeys prices (key # keys) =
     (if \<exists>p\<in>set prices. ReferenceModelKey (rp_model p) = key then matchReferencePriceKey key prices
      else matchReferencePriceKeys prices keys)"

definition MatchReferencePrice :: "string \<Rightarrow> ReferencePrice list \<Rightarrow> ReferencePrice option" where
  "MatchReferencePrice modelID candidates =
     matchReferencePriceKey (ReferenceModelKey (ModelWithoutThinkingSuffix modelID)) candidates"

section \<open>The catalogue of models.dev\<close>

record modelsDevCostTier =
  mt_input :: "f64 option"
  mt_output :: "f64 option"
  mt_reasoning :: "f64 option"
  mt_cache_read :: "f64 option"
  mt_cache_write :: "f64 option"
  mt_input_audio :: "f64 option"
  mt_output_audio :: "f64 option"
  mt_type :: string
  mt_size :: int

record modelsDevCost =
  mc_input :: "f64 option"
  mc_output :: "f64 option"
  mc_reasoning :: "f64 option"
  mc_cache_read :: "f64 option"
  mc_cache_write :: "f64 option"
  mc_input_audio :: "f64 option"
  mc_output_audio :: "f64 option"
  mc_tiers :: "modelsDevCostTier list"

record modelsDevModel =
  md_id :: string
  md_cost :: "modelsDevCost option"

text \<open>A raw model is the text of its JSON value.\<close>

record modelsDevProvider =
  mpv_id :: string
  mpv_models :: "string smap"

record modelsDevResponse =
  mr_models :: "string smap"
  mr_providers :: "modelsDevProvider smap"

definition modelsDevID :: "string \<Rightarrow> string \<Rightarrow> string" where
  "modelsDevID i defaultID = (if TrimSpace i \<noteq> [] then i else defaultID)"

definition optionalPriceMatches :: "f64 option \<Rightarrow> f64 option \<Rightarrow> bool" where
  "optionalPriceMatches special standard \<longleftrightarrow>
     (case special of
        None \<Rightarrow> True
      | Some x \<Rightarrow> (case standard of None \<Rightarrow> False | Some y \<Rightarrow> feq x y))"

definition tier_rates :: "modelsDevCostTier \<Rightarrow> LongContextPrice option" where
  "tier_rates tier =
     (case (mt_input tier, mt_output tier) of
        (Some i, Some out) \<Rightarrow>
          if mt_type tier \<noteq> ''context'' \<or> mt_size tier \<le> 0 \<or>
             \<not> optionalPriceMatches (mt_reasoning tier) (mt_output tier) \<or>
             \<not> optionalPriceMatches (mt_input_audio tier) (mt_input tier) \<or>
             \<not> optionalPriceMatches (mt_output_audio tier) (mt_output tier)
          then None
          else Some \<lparr>lcp_threshold = mt_size tier, lcp_input = i, lcp_output = out,
                 lcp_cache_read = mt_cache_read tier, lcp_cache_write = mt_cache_write tier\<rparr>
      | _ \<Rightarrow> None)"

definition modelsDevPriceRates :: "modelsDevCost option \<Rightarrow> PriceRates option" where
  "modelsDevPriceRates value =
     (case value of
        None \<Rightarrow> None
      | Some c \<Rightarrow>
          (case (mc_input c, mc_output c) of
             (Some i, Some out) \<Rightarrow>
               if length (mc_tiers c) > 1 \<or>
                  \<not> optionalPriceMatches (mc_reasoning c) (mc_output c) \<or>
                  \<not> optionalPriceMatches (mc_input_audio c) (mc_input c) \<or>
                  \<not> optionalPriceMatches (mc_output_audio c) (mc_output c)
               then None
               else let rates = \<lparr>rt_input = i, rt_output = out, rt_cache_read = mc_cache_read c,
                          rt_cache_write = mc_cache_write c, rt_long = None\<rparr>
                    in (case mc_tiers c of
                          [] \<Rightarrow> Some rates
                        | tier # _ \<Rightarrow> map_option (\<lambda>l. rates\<lparr>rt_long := Some l\<rparr>) (tier_rates tier))
           | _ \<Rightarrow> None))"

text \<open>One model of the catalogue: its identity must be new; rates the billing cannot express are dropped.\<close>

type_synonym parse_state = "ReferencePrice list \<times> int \<times> string list"

definition price_identity :: "string \<Rightarrow> string \<Rightarrow> string" where
  "price_identity providerID modelID = providerID @ CHR 0x00 # modelID"

definition parsed_price :: "string list \<Rightarrow> string \<Rightarrow> string \<Rightarrow> modelsDevModel \<Rightarrow> ReferencePrice" where
  "parsed_price canonicalModels providerID modelID model =
     \<lparr>rp_provider = providerID, rp_model = modelID,
      rp_canonical = (NormalizeModelID (providerID @ ''/'' @ modelID) \<in> set canonicalModels),
      rp_rates = (case modelsDevPriceRates (md_cost model) of
                    Some rates \<Rightarrow> if isOk (rates_validate rates) then Some rates else None
                  | None \<Rightarrow> None)\<rparr>"

definition parse_model ::
  "(string \<Rightarrow> error + modelsDevModel) \<Rightarrow> string list \<Rightarrow> string \<times> string \<times> string \<Rightarrow> parse_state \<Rightarrow> error + parse_state" where
  "parse_model json_model canonicalModels entry acc =
     (case (entry, acc) of ((providerID, modelKey, raw), (prices, priced, seen)) \<Rightarrow>
        (case json_model raw of
           Inl e \<Rightarrow> Inl (wrap_error (''reading models.dev model '' @ providerID @ ''/'' @ modelKey @ '': '') e)
         | Inr model \<Rightarrow>
             let modelID = modelsDevID (md_id model) modelKey; identity = price_identity providerID modelID
             in if identity \<in> set seen then Inl (Plain_Error (''duplicate models.dev model: '' @ providerID @ ''/'' @ modelID))
                else let price = parsed_price canonicalModels providerID modelID model
                     in try_bind (ReferencePrice_Validate (price\<lparr>rp_rates := None\<rparr>))
                          (\<lambda>_. Inr (prices @ [price], (if rp_rates price = None then priced else priced + 1), identity # seen))))"

fun try_fold :: "('a \<Rightarrow> 'b \<Rightarrow> error + 'b) \<Rightarrow> 'a list \<Rightarrow> 'b \<Rightarrow> error + 'b" where
  "try_fold f [] acc = Inr acc"
| "try_fold f (x # xs) acc = try_bind (f x acc) (try_fold f xs)"

definition catalogue_entries :: "modelsDevProvider smap \<Rightarrow> (string \<times> string \<times> string) list" where
  "catalogue_entries providers =
     concat (map (\<lambda>(providerKey, provider).
       map (\<lambda>(modelKey, raw). (modelsDevID (mpv_id provider) providerKey, modelKey, raw)) (mpv_models provider)) providers)"

definition parseModelsDevPrices ::
  "(string \<Rightarrow> error + modelsDevResponse) \<Rightarrow> (string \<Rightarrow> error + modelsDevModel) \<Rightarrow> string \<Rightarrow> error + ReferencePrice list" where
  "parseModelsDevPrices json_document json_model raw =
     try_bind (json_document raw) (\<lambda>source.
       let canonicalModels = map (\<lambda>(name, _). NormalizeModelID name) (mr_models source)
       in try_bind (try_fold (parse_model json_model canonicalModels) (catalogue_entries (mr_providers source)) ([], 0, []))
            (\<lambda>(prices, priced, seen).
               if priced = 0 then Inl (Plain_Error ''models.dev returned no usable reference price'')
               else Inr (sort_key (\<lambda>p. (rp_provider p, rp_model p)) prices)))"

section \<open>The tables\<close>

text \<open>The columns of \<open>reference_prices_metadata\<close>; \<open>rm_usable\<close> and \<open>rm_refreshing\<close> are not stored.\<close>

record ReferencePriceMetadata =
  rm_source_url :: string
  rm_hash :: string
  rm_version :: int
  rm_fetched_at :: time
  rm_model_count :: int
  rm_usable :: bool
  rm_last_attempt :: time
  rm_retry_after :: time
  rm_last_error :: string
  rm_failures :: int
  rm_refreshing :: bool

definition no_metadata :: ReferencePriceMetadata where
  "no_metadata = \<lparr>rm_source_url = [], rm_hash = [], rm_version = 0, rm_fetched_at = 0, rm_model_count = 0,
     rm_usable = False, rm_last_attempt = 0, rm_retry_after = 0, rm_last_error = [], rm_failures = 0,
     rm_refreshing = False\<rparr>"

record reference_row =
  rr_key :: string
  rr_price :: ReferencePrice

record reference_db =
  rdb_meta :: "ReferencePriceMetadata option"
  rdb_rows :: "reference_row list"

definition LoadReferencePriceMetadata :: "error option \<Rightarrow> reference_db \<Rightarrow> error + ReferencePriceMetadata" where
  "LoadReferencePriceMetadata refuses d =
     (case refuses of
        Some e \<Rightarrow> Inl e
      | None \<Rightarrow>
          (case rdb_meta d of
             None \<Rightarrow> Inr no_metadata
           | Some m \<Rightarrow>
               Inr (m\<lparr>rm_usable := (rm_hash m \<noteq> [] \<and> int (length (rdb_rows d)) = rm_model_count m \<and>
                                    (\<exists>r\<in>set (rdb_rows d). rp_rates (rr_price r) \<noteq> None))\<rparr>)))"

text \<open>The primary key of a price is its provider and model.\<close>

definition insert_price :: "ReferencePrice \<Rightarrow> reference_row list \<Rightarrow> error + reference_row list" where
  "insert_price p rows =
     try_bind (ReferencePrice_Validate p) (\<lambda>_.
       if \<exists>r\<in>set rows. rp_provider (rr_price r) = rp_provider p \<and> rp_model (rr_price r) = rp_model p
       then Inl (Plain_Error (''saving reference price '' @ rp_provider p @ ''/'' @ rp_model p))
       else Inr (rows @ [\<lparr>rr_key = ReferenceModelKey (rp_model p), rr_price = p\<rparr>]))"

definition replaceReferencePrices :: "ReferencePrice list \<Rightarrow> error + reference_row list" where
  "replaceReferencePrices prices =
     (if prices = [] then Inl (Plain_Error ''reference prices must not be empty'') else try_fold insert_price prices [])"

definition metadata_row :: "ReferencePriceMetadata \<Rightarrow> ReferencePriceMetadata" where
  "metadata_row m = m\<lparr>rm_fetched_at := stored (rm_fetched_at m), rm_last_attempt := stored (rm_last_attempt m),
     rm_retry_after := stored (rm_retry_after m), rm_usable := False, rm_refreshing := False\<rparr>"

text \<open>\<open>None\<close> is the nil slice, which leaves the prices alone. A refused transaction changes nothing.\<close>

definition SaveReferencePrices ::
  "error option \<Rightarrow> ReferencePriceMetadata \<Rightarrow> ReferencePrice list option \<Rightarrow> reference_db \<Rightarrow> error + reference_db" where
  "SaveReferencePrices refuses m prices d =
     try_bind (case prices of None \<Rightarrow> Inr (rdb_rows d) | Some ps \<Rightarrow> replaceReferencePrices ps) (\<lambda>rows.
       case refuses of
         Some e \<Rightarrow> Inl e
       | None \<Rightarrow> Inr \<lparr>rdb_meta = Some (metadata_row m), rdb_rows = rows\<rparr>)"

definition by_identity :: "reference_row list \<Rightarrow> ReferencePrice list" where
  "by_identity rows = sort_key (\<lambda>p. (rp_provider p, rp_model p)) (map rr_price rows)"

definition ReferencePriceCandidates :: "error option \<Rightarrow> string list \<Rightarrow> reference_db \<Rightarrow> error + ReferencePrice list" where
  "ReferencePriceCandidates refuses keys d =
     (if \<exists>k\<in>set keys. length k > 1024 then Inl (Plain_Error ''model id too long'')
      else let arguments = filter (\<lambda>k. k \<noteq> []) keys
           in if arguments = [] then Inr []
              else case refuses of
                     Some e \<Rightarrow> Inl e
                   | None \<Rightarrow> Inr (by_identity (filter (\<lambda>r. rr_key r \<in> set arguments) (rdb_rows d))))"

text \<open>The search of the administration page: SQLite's \<open>lower\<close> folds ASCII only and \<open>instr\<close> finds a substring.\<close>

definition full_name :: "ReferencePrice \<Rightarrow> string" where
  "full_name p = ToLower (rp_provider p @ ''/'' @ rp_model p)"

definition search_rank :: "string \<Rightarrow> string \<Rightarrow> reference_row \<Rightarrow> nat \<times> bool \<times> string \<times> string" where
  "search_rank query key r =
     ((if full_name (rr_price r) = query then 0 else if rr_key r = key then 1 else 2),
      \<not> rp_canonical (rr_price r), rp_provider (rr_price r), rp_model (rr_price r))"

definition SearchReferencePrices_db :: "error option \<Rightarrow> string \<Rightarrow> int \<Rightarrow> reference_db \<Rightarrow> error + ReferencePrice list" where
  "SearchReferencePrices_db refuses text limit d =
     (let query = NormalizeModelID text
      in if query = [] then Inr []
         else let key = ReferenceModelKey (ModelWithoutThinkingSuffix query)
              in case refuses of
                   Some e \<Rightarrow> Inl e
                 | None \<Rightarrow>
                     Inr (map rr_price (take (nat limit) (sort_key (search_rank query key)
                       (filter (\<lambda>r. rp_rates (rr_price r) \<noteq> None \<and> (rr_key r = key \<or> sublist query (full_name (rr_price r))))
                          (rdb_rows d))))))"

section \<open>Which price is chosen\<close>

definition eligible :: "string \<Rightarrow> ReferencePrice list \<Rightarrow> ReferencePrice list" where
  "eligible key candidates =
     (let mine = filter (\<lambda>p. ReferenceModelKey (rp_model p) = key) candidates
      in if \<exists>p\<in>set mine. rp_canonical p then filter rp_canonical mine else mine)"

definition prices_agree :: "ReferencePrice \<Rightarrow> ReferencePrice list \<Rightarrow> bool" where
  "prices_agree p qs \<longleftrightarrow> rp_rates p \<noteq> None \<and>
     (\<forall>q\<in>set qs. rp_rates q \<noteq> None \<and> samePriceRates (the (rp_rates p)) (the (rp_rates q)))"

lemma match_loop_filter:
  "match_loop key canonical m ps =
     match_loop key canonical m (filter (\<lambda>p. ReferenceModelKey (rp_model p) = key \<and> (canonical \<longrightarrow> rp_canonical p)) ps)"
  by (induction ps arbitrary: m) (auto split: option.splits)

lemma match_loop_rest:
  assumes "\<forall>p\<in>set ps. ReferenceModelKey (rp_model p) = key \<and> (canonical \<longrightarrow> rp_canonical p)" "rp_rates m \<noteq> None"
  shows "match_loop key canonical (Some m) ps = (if prices_agree m ps then Some m else None)"
  using assms by (induction ps) (auto simp: prices_agree_def split: option.splits)

lemma match_loop_eq:
  assumes "\<forall>p\<in>set ps. ReferenceModelKey (rp_model p) = key \<and> (canonical \<longrightarrow> rp_canonical p)"
  shows "match_loop key canonical None ps =
     (case ps of [] \<Rightarrow> None | p # qs \<Rightarrow> if prices_agree p qs then Some p else None)"
proof (cases ps)
  case (Cons p qs)
  with assms have "\<forall>p\<in>set qs. ReferenceModelKey (rp_model p) = key \<and> (canonical \<longrightarrow> rp_canonical p)"
    and "ReferenceModelKey (rp_model p) = key \<and> (canonical \<longrightarrow> rp_canonical p)" by auto
  then show ?thesis using match_loop_rest [of qs key canonical p] Cons
    by (auto simp: prices_agree_def split: option.splits)
qed simp

lemma matchReferencePriceKey_eq:
  "matchReferencePriceKey key cs =
     (case eligible key cs of [] \<Rightarrow> None | p # qs \<Rightarrow> if key \<noteq> [] \<and> prices_agree p qs then Some p else None)"
proof -
  let ?can = "\<exists>p\<in>set cs. rp_canonical p \<and> ReferenceModelKey (rp_model p) = key"
  have e: "eligible key cs = filter (\<lambda>p. ReferenceModelKey (rp_model p) = key \<and> (?can \<longrightarrow> rp_canonical p)) cs"
    by (auto simp: eligible_def Let_def intro!: filter_cong)
  have "match_loop key ?can None cs = match_loop key ?can None (eligible key cs)"
    unfolding e by (rule match_loop_filter)
  also have "\<dots> = (case eligible key cs of [] \<Rightarrow> None | p # qs \<Rightarrow> if prices_agree p qs then Some p else None)"
    by (rule match_loop_eq) (auto simp: e)
  finally show ?thesis by (auto simp: matchReferencePriceKey_def split: list.splits)
qed

lemma set_eligible:
  "p \<in> set (eligible key cs) \<longleftrightarrow> p \<in> set cs \<and> ReferenceModelKey (rp_model p) = key \<and>
     ((\<exists>q\<in>set cs. rp_canonical q \<and> ReferenceModelKey (rp_model q) = key) \<longrightarrow> rp_canonical p)"
  by (auto simp: eligible_def Let_def)

lemma match_cong:
  "filter (\<lambda>p. ReferenceModelKey (rp_model p) = key) cs = filter (\<lambda>p. ReferenceModelKey (rp_model p) = key) cs' \<Longrightarrow>
     matchReferencePriceKey key cs = matchReferencePriceKey key cs'"
  by (simp add: matchReferencePriceKey_eq eligible_def)

definition references_ok :: "ReferencePrice list \<Rightarrow> bool" where
  "references_ok ps \<longleftrightarrow> (\<forall>p\<in>set ps. ReferencePrice_Validate p = Inr ())"

lemma reference_valid:
  "ReferencePrice_Validate p = Inr () \<longleftrightarrow> TrimSpace (rp_provider p) \<noteq> [] \<and> TrimSpace (rp_model p) \<noteq> [] \<and>
     (\<forall>r. rp_rates p = Some r \<longrightarrow> rates_validate r = Inr ())"
  by (auto simp: ReferencePrice_Validate_def split: option.splits)

lemma prices_agree_valid:
  assumes "references_ok (p # qs)"
  shows "prices_agree p qs \<longleftrightarrow> rp_rates p \<noteq> None \<and> (\<forall>q\<in>set qs. rp_rates q = rp_rates p)"
  using assms samePriceRates_valid by (fastforce simp: prices_agree_def references_ok_def reference_valid)

lemma match_Some_iff:
  assumes "references_ok cs"
  shows "(\<exists>p. matchReferencePriceKey key cs = Some p \<and> rp_rates p = Some r) \<longleftrightarrow>
     key \<noteq> [] \<and> eligible key cs \<noteq> [] \<and> (\<forall>q\<in>set (eligible key cs). rp_rates q = Some r)"
proof (cases "eligible key cs")
  case (Cons p qs)
  have "references_ok (p # qs)"
    using assms set_eligible [of _ key cs] unfolding references_ok_def Cons by blast
  then show ?thesis using prices_agree_valid [of p qs] by (auto simp: matchReferencePriceKey_eq Cons)
qed (simp add: matchReferencePriceKey_eq)

section \<open>The catalogue is read in any order\<close>

definition entry_model :: "(string \<Rightarrow> error + modelsDevModel) \<Rightarrow> string \<times> string \<times> string \<Rightarrow> modelsDevModel" where
  "entry_model jm e = (case jm (snd (snd e)) of Inr m \<Rightarrow> m | Inl _ \<Rightarrow> \<lparr>md_id = [], md_cost = None\<rparr>)"

definition entry_price ::
  "(string \<Rightarrow> error + modelsDevModel) \<Rightarrow> string list \<Rightarrow> string \<times> string \<times> string \<Rightarrow> ReferencePrice" where
  "entry_price jm can e =
     parsed_price can (fst e) (modelsDevID (md_id (entry_model jm e)) (fst (snd e))) (entry_model jm e)"

definition entry_ok :: "(string \<Rightarrow> error + modelsDevModel) \<Rightarrow> string list \<Rightarrow> string \<times> string \<times> string \<Rightarrow> bool" where
  "entry_ok jm can e \<longleftrightarrow> isOk (jm (snd (snd e))) \<and> ReferencePrice_Validate ((entry_price jm can e)\<lparr>rp_rates := None\<rparr>) = Inr ()"

abbreviation identity_of :: "ReferencePrice \<Rightarrow> string" where
  "identity_of p \<equiv> price_identity (rp_provider p) (rp_model p)"

lemma parsed_fields [simp]:
  "rp_provider (parsed_price can pid mid m) = pid" "rp_model (parsed_price can pid mid m) = mid"
  by (simp_all add: parsed_price_def)

lemma parsed_valid:
  "ReferencePrice_Validate ((parsed_price can pid mid m)\<lparr>rp_rates := None\<rparr>) = Inr () \<Longrightarrow>
     ReferencePrice_Validate (parsed_price can pid mid m) = Inr ()"
  by (auto simp: reference_valid parsed_price_def isOk_iff split: option.splits if_splits)

lemma parse_model_Inr:
  "parse_model jm can e (ps, n, seen) = Inr acc \<longleftrightarrow>
     entry_ok jm can e \<and> identity_of (entry_price jm can e) \<notin> set seen \<and>
     acc = (ps @ [entry_price jm can e], (if rp_rates (entry_price jm can e) = None then n else n + 1),
            identity_of (entry_price jm can e) # seen)"
  by (cases e; cases "jm (snd (snd e))")
    (auto simp: parse_model_def entry_ok_def entry_price_def entry_model_def Let_def)

lemma parse_fold_Inr:
  "try_fold (parse_model jm can) es (ps, n, seen) = Inr acc \<longleftrightarrow>
     (\<forall>e\<in>set es. entry_ok jm can e) \<and> distinct (map (identity_of \<circ> entry_price jm can) es) \<and>
     set (map (identity_of \<circ> entry_price jm can) es) \<inter> set seen = {} \<and>
     acc = (ps @ map (entry_price jm can) es,
            n + int (length (filter (\<lambda>p. rp_rates p \<noteq> None) (map (entry_price jm can) es))),
            rev (map (identity_of \<circ> entry_price jm can) es) @ seen)"
proof (induction es arbitrary: ps n seen)
  case (Cons e es)
  show ?case
    by (simp del: entry_ok_def add: parse_model_Inr Cons.IH) auto
qed auto

lemma distinct_identity_pairs:
  "distinct (map identity_of ps) \<Longrightarrow> inj_on (\<lambda>p. (rp_provider p, rp_model p)) (set ps)"
  by (rule inj_onI) (simp add: distinct_map inj_on_def)

lemma entry_price_canonical: "set can = set can' \<Longrightarrow> entry_price jm can = entry_price jm can'"
  by (rule ext) (simp add: entry_price_def parsed_price_def)

definition price_row :: "ReferencePrice \<Rightarrow> reference_row" where
  "price_row p = \<lparr>rr_key = ReferenceModelKey (rp_model p), rr_price = p\<rparr>"

lemma price_row_simps [simp]: "rr_price (price_row p) = p" "rr_key (price_row p) = ReferenceModelKey (rp_model p)"
  by (simp_all add: price_row_def)

abbreviation pair_of :: "ReferencePrice \<Rightarrow> string \<times> string" where
  "pair_of p \<equiv> (rp_provider p, rp_model p)"

lemma insert_price_Inr:
  "insert_price p rows = Inr rows' \<longleftrightarrow>
     ReferencePrice_Validate p = Inr () \<and> pair_of p \<notin> pair_of ` rr_price ` set rows \<and> rows' = rows @ [price_row p]"
  by (auto simp: insert_price_def price_row_def image_iff) metis

lemma insert_fold_Inr:
  "try_fold insert_price ps rows = Inr rows' \<longleftrightarrow>
     references_ok ps \<and> distinct (map pair_of ps) \<and> pair_of ` set ps \<inter> pair_of ` rr_price ` set rows = {} \<and>
     rows' = rows @ map price_row ps"
proof (induction ps arbitrary: rows)
  case (Cons p ps)
  show ?case
    by (simp add: insert_price_Inr Cons.IH references_ok_def image_iff) (auto simp: image_iff)
qed (auto simp: references_ok_def)

lemma replace_Inr:
  "replaceReferencePrices ps = Inr rows \<longleftrightarrow>
     ps \<noteq> [] \<and> references_ok ps \<and> distinct (map pair_of ps) \<and> rows = map price_row ps"
  by (simp add: replaceReferencePrices_def insert_fold_Inr)


lemma parse_Inr:
  "parseModelsDevPrices jd jm raw = Inr out \<longleftrightarrow>
     (\<exists>src. jd raw = Inr src \<and>
        (let can = map (\<lambda>(name, _). NormalizeModelID name) (mr_models src);
             es = catalogue_entries (mr_providers src); ps = map (entry_price jm can) es
         in (\<forall>e\<in>set es. entry_ok jm can e) \<and> distinct (map identity_of ps) \<and>
            (\<exists>p\<in>set ps. rp_rates p \<noteq> None) \<and> out = sort_key pair_of ps))"
proof (cases "jd raw")
  case (Inr src)
  let ?can = "map (\<lambda>(name, _). NormalizeModelID name) (mr_models src)"
  let ?es = "catalogue_entries (mr_providers src)"
  let ?ps = "map (entry_price jm ?can) ?es"
  let ?n = "int (length (filter (\<lambda>p. rp_rates p \<noteq> None) ?ps))"
  let ?good = "(\<forall>e\<in>set ?es. entry_ok jm ?can e) \<and> distinct (map identity_of ?ps)"
  define fold where "fold = try_fold (parse_model jm ?can) ?es ([], 0, [])"
  have parse: "parseModelsDevPrices jd jm raw =
      try_bind fold (\<lambda>(prices, priced, seen).
        if priced = 0 then Inl (Plain_Error ''models.dev returned no usable reference price'')
        else Inr (sort_key pair_of prices))"
    by (simp add: parseModelsDevPrices_def Inr Let_def fold_def)
  have priced: "?n = 0 \<longleftrightarrow> \<not> (\<exists>p\<in>set ?ps. rp_rates p \<noteq> None)"
    by (simp only: of_nat_eq_0_iff length_0_conv filter_empty_conv) blast
  have folded: "fold = Inr acc \<longleftrightarrow> ?good \<and> acc = (?ps, ?n, rev (map (identity_of \<circ> entry_price jm ?can) ?es))" for acc
    unfolding fold_def parse_fold_Inr by simp
  have "parseModelsDevPrices jd jm raw = Inr out \<longleftrightarrow>
      ?good \<and> (\<exists>p\<in>set ?ps. rp_rates p \<noteq> None) \<and> out = sort_key pair_of ?ps"
  proof (cases ?good)
    case True
    then have "fold = Inr (?ps, ?n, rev (map (identity_of \<circ> entry_price jm ?can) ?es))" using folded by blast
    then show ?thesis using True priced unfolding parse by auto
  next
    case False
    then have "fold \<noteq> Inr acc" for acc using folded by blast
    then obtain e where "fold = Inl e" by (cases fold) blast+
    then show ?thesis using False unfolding parse by auto
  qed
  then show ?thesis using Inr by (simp add: Let_def)
qed (simp add: parseModelsDevPrices_def)

lemma entry_ok_canonical: "set can = set can' \<Longrightarrow> entry_ok jm can = entry_ok jm can'"
  by (rule ext) (simp add: entry_ok_def entry_price_canonical [of can can'])

text \<open>The catalogue of models.dev is read independently of the order in which its maps are visited: two readings of
  the same entries give the same list, sorted by identity, with at least one priced model, every price valid, and the
  table of reference prices accepts it.\<close>

theorem parseModelsDevPrices_order:
  assumes parsed: "parseModelsDevPrices jd jm raw = Inr prices"
    and docs: "jd raw = Inr src" "jd raw' = Inr src'"
    and models: "fst ` set (mr_models src) = fst ` set (mr_models src')"
    and entries: "mset (catalogue_entries (mr_providers src)) = mset (catalogue_entries (mr_providers src'))"
  shows "parseModelsDevPrices jd jm raw' = Inr prices \<and> references_ok prices \<and> sorted (map pair_of prices) \<and>
    (\<exists>p\<in>set prices. rp_rates p \<noteq> None) \<and> replaceReferencePrices prices = Inr (map price_row prices)"
proof -
  let ?c = "\<lambda>s. map (\<lambda>(name, _). NormalizeModelID name) (mr_models s)"
  let ?es = "\<lambda>s. catalogue_entries (mr_providers s)"
  define ps where "ps = (\<lambda>s :: modelsDevResponse. map (entry_price jm (?c s)) (?es s))"
  have can: "set (?c src) = set (?c src')"
    using arg_cong [OF models, of "(`) NormalizeModelID"] by (simp add: image_image case_prod_beta)
  have good: "\<forall>e\<in>set (?es src). entry_ok jm (?c src) e" "distinct (map identity_of (ps src))"
    "\<exists>p\<in>set (ps src). rp_rates p \<noteq> None" and out: "prices = sort_key pair_of (ps src)"
    using parsed docs(1) unfolding parse_Inr ps_def by (auto simp: Let_def)
  have perm: "mset (ps src) = mset (ps src')"
    unfolding ps_def entry_price_canonical [OF can] mset_map entries ..
  have same: "sort_key pair_of (ps src') = sort_key pair_of (ps src)"
    by (rule sort_key_inj_key_eq)
      (use perm distinct_identity_pairs [OF good(2)] in \<open>simp_all flip: set_mset_mset\<close>)
  have "distinct (map identity_of (ps src'))"
    using good(2) perm by (metis mset_map mset_eq_imp_distinct_iff)
  moreover have "\<forall>e\<in>set (?es src'). entry_ok jm (?c src') e"
    using good(1) mset_eq_setD [OF entries] entry_ok_canonical [OF can] by simp
  moreover have "\<exists>p\<in>set (ps src'). rp_rates p \<noteq> None"
    using good(3) mset_eq_setD [OF perm] by simp
  ultimately have same_list: "parseModelsDevPrices jd jm raw' = Inr prices"
    using docs(2) same out unfolding parse_Inr ps_def Let_def by auto
  have ok: "references_ok prices"
    using good(1) parsed_valid unfolding out references_ok_def ps_def by (auto simp: entry_ok_def entry_price_def)
  have srt: "sorted (map pair_of prices)" by (simp add: out)
  have priced: "\<exists>p\<in>set prices. rp_rates p \<noteq> None" using good(3) by (simp add: out)
  have "distinct (map pair_of prices)"
    using distinct_identity_pairs [OF good(2)] good(2) by (simp add: out distinct_map)
  then have "replaceReferencePrices prices = Inr (map price_row prices)"
    using ok priced unfolding replace_Inr by auto
  then show ?thesis using same_list ok srt priced by blast
qed


definition sample_catalogue :: "bool \<Rightarrow> modelsDevResponse" where
  "sample_catalogue flipped =
     (let a = (''openai'', \<lparr>mpv_id = ''openai'', mpv_models = [(''gpt-a'', ''1''), (''gpt-b'', ''0'')]\<rparr>);
          b = (''relay'', \<lparr>mpv_id = [], mpv_models = [(''gpt-a'', ''1'')]\<rparr>)
      in \<lparr>mr_models = [(''openai/gpt-a'', '''')], mr_providers = (if flipped then [b, a] else [a, b])\<rparr>)"

definition sample_json :: "string \<Rightarrow> error + modelsDevModel" where
  "sample_json raw = Inr \<lparr>md_id = [], md_cost =
     (if raw = ''1''
      then Some \<lparr>mc_input = Some (Fin 1), mc_output = Some (Fin 2), mc_reasoning = None, mc_cache_read = None,
             mc_cache_write = None, mc_input_audio = None, mc_output_audio = None, mc_tiers = []\<rparr>
      else None)\<rparr>"

lemma sample_trims:
  "TrimSpace ''openai'' = ''openai''" "TrimSpace ''relay'' = ''relay''" "TrimSpace ''gpt-a'' = ''gpt-a''"
  "TrimSpace ''gpt-b'' = ''gpt-b''" "TrimSpace [] = []"
  by (simp_all add: TrimSpace_visible visible_def)

lemma sample_parses:
  "\<exists>prices. parseModelsDevPrices (\<lambda>raw. Inr (sample_catalogue (raw = ''b''))) sample_json ''a'' = Inr prices"
  unfolding parse_Inr
  by (auto simp: sample_catalogue_def sample_json_def catalogue_entries_def modelsDevID_def sample_trims Let_def entry_ok_def
      entry_price_def entry_model_def parsed_price_def reference_valid modelsDevPriceRates_def optionalPriceMatches_def
      price_identity_def isOk_iff rates_validate_ok invalidPrice_def invalid_opt_def IsNaN_def IsInf_def)

theorem parseModelsDevPrices_order_witness:
  "\<exists>prices. parseModelsDevPrices (\<lambda>raw. Inr (sample_catalogue (raw = ''b''))) sample_json ''b'' = Inr prices \<and>
     replaceReferencePrices prices = Inr (map price_row prices)"
proof -
  obtain prices where p: "parseModelsDevPrices (\<lambda>raw. Inr (sample_catalogue (raw = ''b''))) sample_json ''a'' = Inr prices"
    using sample_parses by blast
  from parseModelsDevPrices_order [OF p, of "sample_catalogue False" "''b''" "sample_catalogue True"]
  show ?thesis by (auto simp: sample_catalogue_def catalogue_entries_def Let_def)
qed

section \<open>The table of prices\<close>

definition table_ok :: "reference_db \<Rightarrow> bool" where
  "table_ok d \<longleftrightarrow> references_ok (map rr_price (rdb_rows d)) \<and> distinct (map (pair_of \<circ> rr_price) (rdb_rows d)) \<and>
     (\<forall>r\<in>set (rdb_rows d). rr_key r = ReferenceModelKey (rp_model (rr_price r)))"

text \<open>All prices of the table, in the order every query returns them.\<close>

definition table_prices :: "reference_db \<Rightarrow> ReferencePrice list" where
  "table_prices d = by_identity (rdb_rows d)"

lemma set_by_identity [simp]: "set (by_identity rows) = rr_price ` set rows"
  by (simp add: by_identity_def)

lemma table_references: "table_ok d \<Longrightarrow> references_ok (table_prices d)"
  by (simp add: table_ok_def references_ok_def table_prices_def)

lemma table_saved:
  assumes "SaveReferencePrices refuses m prices d = Inr d'" "table_ok d"
  shows "table_ok d' \<and> rdb_meta d' = Some (metadata_row m) \<and>
     rdb_rows d' = (case prices of None \<Rightarrow> rdb_rows d | Some ps \<Rightarrow> map price_row ps)"
  using assms by (auto simp: SaveReferencePrices_def replace_Inr table_ok_def o_def split: option.splits)

text \<open>A stable sort commutes with filtering, so a query for some keys lists the table's prices with those keys.\<close>

lemma filter_by_identity:
  "filter P (by_identity rows) = by_identity (filter (\<lambda>r. P (rr_price r)) rows)"
  by (simp add: by_identity_def filter_sort filter_map o_def)

lemma candidates_eq:
  assumes "table_ok d" "ReferencePriceCandidates refuses keys d = Inr ps"
  shows "ps = filter (\<lambda>p. ReferenceModelKey (rp_model p) \<in> set keys - {[]}) (table_prices d)"
proof -
  have "filter (\<lambda>r. rr_key r \<in> set keys - {[]}) (rdb_rows d) =
      filter (\<lambda>r. ReferenceModelKey (rp_model (rr_price r)) \<in> set keys - {[]}) (rdb_rows d)"
    using assms(1) by (auto simp: table_ok_def intro!: filter_cong)
  moreover have "ps = by_identity (filter (\<lambda>r. rr_key r \<in> set (filter (\<lambda>k. k \<noteq> []) keys)) (rdb_rows d))"
    using assms(2) by (cases "filter (\<lambda>k. k \<noteq> []) keys = []")
      (auto simp: ReferencePriceCandidates_def Let_def by_identity_def split: if_splits option.splits)
  moreover have "set (filter (\<lambda>k. k \<noteq> []) keys) = set keys - {[]}" by auto
  ultimately show ?thesis by (simp only: table_prices_def filter_by_identity)
qed

text \<open>Matching sees only the candidates of its keys.\<close>

lemma match_keys_restrict:
  assumes "set keys \<subseteq> K" "[] \<notin> K"
  shows "matchReferencePriceKeys (filter (\<lambda>p. ReferenceModelKey (rp_model p) \<in> K) ps) keys = matchReferencePriceKeys ps keys"
  using assms
proof (induction keys)
  case (Cons k keys)
  have "filter (\<lambda>p. ReferenceModelKey (rp_model p) = k) (filter (\<lambda>p. ReferenceModelKey (rp_model p) \<in> K) ps) =
      filter (\<lambda>p. ReferenceModelKey (rp_model p) = k) ps"
    using Cons.prems by (auto intro: filter_cong)
  then have "matchReferencePriceKey k (filter (\<lambda>p. ReferenceModelKey (rp_model p) \<in> K) ps) = matchReferencePriceKey k ps"
    by (rule match_cong)
  then show ?case using Cons by auto
qed simp

lemma match_keys_Some:
  assumes "references_ok ps" "matchReferencePriceKeys ps keys = Some p"
  shows "p \<in> set ps \<and> ReferenceModelKey (rp_model p) \<in> set keys \<and> (\<exists>r. rp_rates p = Some r \<and> rates_validate r = Inr ())"
  using assms(2)
proof (induction keys)
  case (Cons k keys)
  show ?case
  proof (cases "\<exists>q\<in>set ps. ReferenceModelKey (rp_model q) = k")
    case True
    then have m: "matchReferencePriceKey k ps = Some p" using Cons.prems by simp
    then obtain qs where "eligible k ps = p # qs" "prices_agree p qs"
      by (auto simp: matchReferencePriceKey_eq split: list.splits if_splits)
    then have "p \<in> set (eligible k ps)" "rp_rates p \<noteq> None" by (auto simp: prices_agree_def)
    then show ?thesis using assms(1) by (auto simp: set_eligible references_ok_def reference_valid)
  qed (use Cons in auto)
qed simp

lemma referencePriceKeys_props:
  "[] \<notin> set (referencePriceKeys u r)" "length (referencePriceKeys u r) \<le> 2"
  by (auto simp: referencePriceKeys_def add_reference_key_def Let_def)

end
