(* ===== verification/ReferenceCache.thy ===== *)
theory ReferenceCache
  imports ReferencePrices
begin

text \<open>
  The manager of reference prices (\<^verbatim>\<open>internal/billing/reference_prices.go\<close>) and the operations that use it
  (\<^verbatim>\<open>prices.go\<close>): a cache of the 1024 most recently used lookups over the table, the refresh from models.dev with
  its back-off, batched lookups for display, and the price of a request. A refresh is one step: the mutexes of the
  source serialise it, and the result of a refresh somebody else is running is a parameter. The map of cache entries
  and the list that orders them by use are one list, most recent first. \<open>ResolveModelPrice_ok\<close> shows that neither
  the cache nor a refresh, failed or not, changes what a request is priced with.
\<close>

section \<open>The cache\<close>

definition referencePriceCacheCapacity :: nat where
  "referencePriceCacheCapacity = 1024"

type_synonym price_cache = "(string \<times> ReferencePrice option) list"

text \<open>A hit moves its entry to the front; a new entry goes to the front and may push out the last one.\<close>

definition cache_get :: "price_cache \<Rightarrow> string \<Rightarrow> (ReferencePrice option \<times> price_cache) option" where
  "cache_get es key = map_option (\<lambda>v. (v, (key, v) # AList.delete key es)) (map_of es key)"

definition cache_put :: "string \<Rightarrow> ReferencePrice option \<Rightarrow> price_cache \<Rightarrow> price_cache" where
  "cache_put key v es =
     (let es = (key, v) # AList.delete key es in if length es > referencePriceCacheCapacity then butlast es else es)"

section \<open>The manager\<close>

datatype refresh_error = Storage_Error error | Other_Error error

fun refresh_cause :: "refresh_error \<Rightarrow> error" where
  "refresh_cause (Storage_Error e) = e"
| "refresh_cause (Other_Error e) = e"

text \<open>\<open>mg_refreshing\<close> is \<open>refreshDone != nil\<close>; \<open>mg_logs\<close> are the entries handed to the plugin log.\<close>

record referencePriceManager =
  mg_db :: reference_db
  mg_closed :: bool
  mg_meta :: ReferencePriceMetadata
  mg_sequence :: int
  mg_refreshing :: bool
  mg_last_error :: "refresh_error option"
  mg_entries :: price_cache
  mg_logs :: "(PluginLogLevel \<times> string) list"

text \<open>What a refresh finds outside: the clock, the downloaded text, the JSON package, an expired context, the
  statements the database refuses, a \<open>close\<close> during the download, and the refresh it may join.\<close>

record refs_env =
  rv_clock :: "nat \<Rightarrow> time"
  rv_download :: "error + string"
  rv_document :: "string \<Rightarrow> error + modelsDevResponse"
  rv_model :: "string \<Rightarrow> error + modelsDevModel"
  rv_expired :: "error option"
  rv_load :: "error option"
  rv_closed :: bool
  rv_save :: "error option"
  rv_retry_save :: "error option"
  rv_joined :: "error + referencePriceManager"

definition openReferencePrices :: "error + reference_db \<Rightarrow> error option \<Rightarrow> error + referencePriceManager" where
  "openReferencePrices opened refuses =
     try_bind opened (\<lambda>d. try_bind (LoadReferencePriceMetadata refuses d) (\<lambda>m.
       Inr \<lparr>mg_db = d, mg_closed = False, mg_meta = m, mg_sequence = 0, mg_refreshing = False, mg_last_error = None,
            mg_entries = [], mg_logs = []\<rparr>))"

definition close_references :: "referencePriceManager option \<Rightarrow> referencePriceManager option" where
  "close_references refs = map_option (\<lambda>mg. mg\<lparr>mg_closed := True\<rparr>) refs"

definition references_status :: "referencePriceManager option \<Rightarrow> ReferencePriceMetadata \<times> int" where
  "references_status refs =
     (case refs of
        None \<Rightarrow> (no_metadata, 0)
      | Some mg \<Rightarrow> ((mg_meta mg)\<lparr>rm_refreshing := mg_refreshing mg\<rparr>, mg_sequence mg))"

definition ReferencePriceMetadata_of :: "referencePriceManager option \<Rightarrow> ReferencePriceMetadata" where
  "ReferencePriceMetadata_of refs = fst (references_status refs)"

section \<open>Looking up\<close>

record referencePriceMatch =
  pm_price :: "ReferencePrice option"
  pm_meta :: ReferencePriceMetadata
  pm_sequence :: int

definition join_keys :: "string list \<Rightarrow> string" where
  "join_keys keys = (case keys of [] \<Rightarrow> [] | [k] \<Rightarrow> k | k # k' # _ \<Rightarrow> k @ CHR 0x00 # k')"

definition switched_error :: error where
  "switched_error = Plain_Error ''the reference price database was switched''"

definition match_now :: "ReferencePrice option \<Rightarrow> referencePriceManager \<Rightarrow> referencePriceMatch" where
  "match_now p mg = \<lparr>pm_price = p, pm_meta = mg_meta mg, pm_sequence = mg_sequence mg\<rparr>"

definition lookup_reference ::
  "error option \<Rightarrow> string \<Rightarrow> string \<Rightarrow> referencePriceManager \<Rightarrow> (error + referencePriceMatch) \<times> referencePriceManager" where
  "lookup_reference refuses upstream model mg =
     (let keys = referencePriceKeys upstream model; key = join_keys keys
      in case cache_get (mg_entries mg) key of
           Some (p, es) \<Rightarrow> (Inr (match_now p mg), mg\<lparr>mg_entries := es\<rparr>)
         | None \<Rightarrow>
             if mg_closed mg then (Inl switched_error, mg)
             else if \<not> rm_usable (mg_meta mg) then (Inr (match_now None mg), mg)
             else (case ReferencePriceCandidates refuses keys (mg_db mg) of
                     Inl e \<Rightarrow> (Inl e, mg)
                   | Inr prices \<Rightarrow>
                       let p = matchReferencePriceKeys prices keys
                       in (Inr (match_now p mg), mg\<lparr>mg_entries := cache_put key p (mg_entries mg)\<rparr>)))"

text \<open>Before a database is configured there is no manager.\<close>

definition lookup_opt ::
  "error option \<Rightarrow> string \<Rightarrow> string \<Rightarrow> referencePriceManager option \<Rightarrow> (error + referencePriceMatch) \<times> referencePriceManager option" where
  "lookup_opt refuses upstream model refs =
     (case refs of
        None \<Rightarrow> (Inr \<lparr>pm_price = None, pm_meta = no_metadata, pm_sequence = 0\<rparr>, None)
      | Some mg \<Rightarrow> map_prod id Some (lookup_reference refuses upstream model mg))"

section \<open>Refreshing\<close>

definition referencePricesNeedRefresh :: "ReferencePriceMetadata \<Rightarrow> bool \<Rightarrow> time \<Rightarrow> bool" where
  "referencePricesNeedRefresh m found now \<longleftrightarrow>
     \<not> rm_usable m \<or> IsZero (rm_fetched_at m) \<or>
     (let age = time_sub now (rm_fetched_at m) in age > 24 * hour \<or> (\<not> found \<and> age > hour))"

definition ModelsDevPricesURL :: string where
  "ModelsDevPricesURL = ''https://models.dev/catalog.json''"

text \<open>One minute, doubling with every failure in a row, at most an hour.\<close>

definition retry_delay :: "int \<Rightarrow> duration" where
  "retry_delay failures = min (60 * second * 2 ^ nat (min (failures - 1) 6)) hour"

definition committed_metadata :: "time \<Rightarrow> string \<Rightarrow> ReferencePrice list option \<Rightarrow> ReferencePriceMetadata \<Rightarrow> ReferencePriceMetadata" where
  "committed_metadata now hash prices current =
     (let next = (case prices of
                    None \<Rightarrow> current
                  | Some ps \<Rightarrow> current\<lparr>rm_version := (rm_version current + 1) mod 2 ^ 64, rm_model_count := int (length ps),
                                 rm_hash := hash, rm_usable := True\<rparr>)
      in next\<lparr>rm_source_url := ModelsDevPricesURL, rm_fetched_at := now, rm_last_attempt := now, rm_last_error := [],
              rm_failures := 0, rm_retry_after := 0\<rparr>)"

definition downloadAndCommit ::
  "refs_env \<Rightarrow> referencePriceManager \<Rightarrow> (refresh_error + ReferencePriceMetadata) \<times> referencePriceManager" where
  "downloadAndCommit E mg =
     (case rv_download E of
        Inl e \<Rightarrow> (Inl (Other_Error e), mg)
      | Inr raw \<Rightarrow>
          if mg_closed mg then (Inl (Other_Error switched_error), mg)
          else case LoadReferencePriceMetadata (rv_load E) (mg_db mg) of
                 Inl e \<Rightarrow> (Inl (Storage_Error e), mg)
               | Inr current \<Rightarrow>
                   let hash = sha256_hex raw; unchanged = (rm_usable current \<and> hash = rm_hash current);
                       parsed = (if unchanged then Inr None
                                 else try_bind (parseModelsDevPrices (rv_document E) (rv_model E) raw) (\<lambda>ps.
                                        case rv_expired E of Some e \<Rightarrow> Inl e | None \<Rightarrow> Inr (Some ps)))
                   in case parsed of
                        Inl e \<Rightarrow> (Inl (Other_Error e), mg)
                      | Inr prices \<Rightarrow>
                          let next = committed_metadata (rv_clock E 2) hash prices current
                          in if rv_closed E then (Inl (Other_Error switched_error), mg\<lparr>mg_closed := True\<rparr>)
                             else case SaveReferencePrices (rv_save E) next prices (mg_db mg) of
                                    Inl e \<Rightarrow> (Inl (Storage_Error e), mg)
                                  | Inr d \<Rightarrow>
                                      (Inr next, mg\<lparr>mg_db := d, mg_meta := next,
                                         mg_entries := (if unchanged then mg_entries mg else [])\<rparr>))"

datatype refresh_decision =
  Wait_For_Refresh
| Answer_Now ReferencePriceMetadata "refresh_error option"
| Run_Refresh

definition refresh_decide :: "refs_env \<Rightarrow> bool \<Rightarrow> int \<Rightarrow> bool \<Rightarrow> referencePriceManager \<Rightarrow> refresh_decision" where
  "refresh_decide E force observed found mg =
     (if mg_refreshing mg then Wait_For_Refresh
      else if observed \<noteq> mg_sequence mg then Answer_Now (mg_meta mg) (mg_last_error mg)
      else if \<not> force \<and> (\<not> referencePricesNeedRefresh (mg_meta mg) found (rv_clock E 0) \<or>
                         rv_clock E 1 < rm_retry_after (mg_meta mg))
      then Answer_Now (mg_meta mg) None
      else Run_Refresh)"

definition failed_metadata :: "refs_env \<Rightarrow> refresh_error \<Rightarrow> ReferencePriceMetadata \<Rightarrow> ReferencePriceMetadata" where
  "failed_metadata E e previous =
     previous\<lparr>rm_source_url := ModelsDevPricesURL, rm_last_attempt := rv_clock E 3,
       rm_failures := rm_failures previous + 1,
       rm_retry_after := rv_clock E 4 + retry_delay (rm_failures previous + 1),
       rm_last_error := Error_msg (refresh_cause e)\<rparr>"

definition refresh_log :: "ReferencePriceMetadata \<Rightarrow> ReferencePriceMetadata \<Rightarrow> refresh_error option \<Rightarrow> PluginLogLevel \<times> string" where
  "refresh_log previous next err =
     (case err of
        Some e \<Rightarrow> (PluginLogError, ''synchronising reference prices failed: '' @ Error_msg (refresh_cause e))
      | None \<Rightarrow>
          if rm_version next = rm_version previous then (PluginLogInfo, ''reference prices unchanged'')
          else (PluginLogInfo, ''reference prices updated''))"

definition finish_refresh ::
  "ReferencePriceMetadata \<Rightarrow> ReferencePriceMetadata \<Rightarrow> refresh_error option \<Rightarrow> referencePriceManager \<Rightarrow> referencePriceManager" where
  "finish_refresh previous next err mg =
     mg\<lparr>mg_meta := next, mg_last_error := err, mg_sequence := (mg_sequence mg + 1) mod 2 ^ 64, mg_refreshing := False,
        mg_logs := mg_logs mg @ [refresh_log previous next err]\<rparr>"

text \<open>The retry metadata of a failed refresh is saved unless the manager was closed.\<close>

definition save_failure ::
  "refs_env \<Rightarrow> ReferencePriceMetadata \<Rightarrow> refresh_error \<Rightarrow> referencePriceManager \<Rightarrow> refresh_error \<times> referencePriceManager" where
  "save_failure E next e mg =
     (if mg_closed mg then (e, mg)
      else case SaveReferencePrices (rv_retry_save E) next None (mg_db mg) of
             Inl se \<Rightarrow> (Storage_Error se, mg)
           | Inr d \<Rightarrow> (e, mg\<lparr>mg_db := d\<rparr>))"

definition run_refresh ::
  "refs_env \<Rightarrow> referencePriceManager \<Rightarrow> (ReferencePriceMetadata \<times> refresh_error option) \<times> referencePriceManager" where
  "run_refresh E mg =
     (let previous = mg_meta mg;
          started = mg\<lparr>mg_refreshing := True, mg_logs := mg_logs mg @ [(PluginLogInfo, ''synchronising reference prices'')]\<rparr>
      in case downloadAndCommit E started of
           (Inr next, mg') \<Rightarrow> ((next, None), finish_refresh previous next None mg')
         | (Inl e, mg') \<Rightarrow>
             let next = failed_metadata E e previous; (err, mg'') = save_failure E next e mg'
             in ((next, Some err), finish_refresh previous next (Some err) mg''))"

definition refresh_references ::
  "refs_env \<Rightarrow> bool \<Rightarrow> int \<Rightarrow> bool \<Rightarrow> referencePriceManager option \<Rightarrow>
     (ReferencePriceMetadata \<times> refresh_error option) \<times> referencePriceManager option" where
  "refresh_references E force observed found refs =
     (case refs of
        None \<Rightarrow> ((no_metadata, Some (Other_Error (Plain_Error ''the reference price database is not ready''))), None)
      | Some mg \<Rightarrow>
          (case refresh_decide E force observed found mg of
             Wait_For_Refresh \<Rightarrow>
               (case rv_joined E of
                  Inr mg' \<Rightarrow> ((mg_meta mg', mg_last_error mg'), Some mg')
                | Inl e \<Rightarrow> ((no_metadata, Some (Other_Error e)), Some mg))
           | Answer_Now m err \<Rightarrow> ((m, err), Some mg)
           | Run_Refresh \<Rightarrow> map_prod id Some (run_refresh E mg)))"

definition EnsureReferencePrices ::
  "refs_env \<Rightarrow> referencePriceManager option \<Rightarrow> (ReferencePriceMetadata \<times> refresh_error option) \<times> referencePriceManager option" where
  "EnsureReferencePrices E refs = refresh_references E False (snd (references_status refs)) True refs"

record ReferencePriceRefreshResult =
  rrr_meta :: ReferencePriceMetadata
  rrr_changed :: bool

definition RefreshReferencePrices ::
  "refs_env \<Rightarrow> referencePriceManager option \<Rightarrow> (ReferencePriceRefreshResult \<times> refresh_error option) \<times> referencePriceManager option" where
  "RefreshReferencePrices E refs =
     (let (before, observed) = references_status refs; ((m, err), refs') = refresh_references E True observed True refs
      in ((\<lparr>rrr_meta = m, rrr_changed = (rm_version before \<noteq> rm_version m)\<rparr>, err), refs'))"

section \<open>Searching and batched lookups\<close>

definition SearchReferencePrices ::
  "error option \<Rightarrow> string \<Rightarrow> int \<Rightarrow> referencePriceManager option \<Rightarrow> error + ReferencePrice list" where
  "SearchReferencePrices refuses query limit refs =
     (case refs of
        None \<Rightarrow> Inr []
      | Some mg \<Rightarrow>
          if mg_closed mg then Inl switched_error
          else SearchReferencePrices_db refuses query (min (max limit 1) 50) (mg_db mg))"

definition model_key :: "string \<Rightarrow> string" where
  "model_key model = ReferenceModelKey (ModelWithoutThinkingSuffix model)"

definition batch_matches :: "ReferencePrice list \<Rightarrow> string list \<Rightarrow> ReferencePrice smap \<Rightarrow> ReferencePrice smap" where
  "batch_matches prices batch matched =
     fold (\<lambda>model m.
       let key = model_key model
       in case matchReferencePriceKey key (filter (\<lambda>p. ReferenceModelKey (rp_model p) = key) prices) of
            Some p \<Rightarrow> AList.update model p m
          | None \<Rightarrow> m) batch matched"

definition lookup_batch_size :: nat where
  "lookup_batch_size = 128"

function lookup_batches ::
  "(nat \<Rightarrow> error option) \<Rightarrow> reference_db \<Rightarrow> string list \<Rightarrow> ReferencePrice smap \<Rightarrow> error + ReferencePrice smap" where
  "lookup_batches refuses d models matched =
     (if models = [] then Inr matched
      else let batch = take lookup_batch_size models;
               keys = first_seen [] (filter (\<lambda>k. k \<noteq> []) (map model_key batch))
           in try_bind (ReferencePriceCandidates (refuses (length models)) keys d) (\<lambda>prices.
                lookup_batches refuses d (drop lookup_batch_size models) (batch_matches prices batch matched)))"
  by pat_completeness auto
termination
  by (relation "measure (\<lambda>(_, _, models, _). length models)") (auto simp: lookup_batch_size_def)

declare lookup_batches.simps [simp del]

definition lookupModels ::
  "(nat \<Rightarrow> error option) \<Rightarrow> string list \<Rightarrow> referencePriceManager option \<Rightarrow> error + ReferencePrice smap" where
  "lookupModels refuses models refs =
     (case refs of
        None \<Rightarrow> Inr []
      | Some mg \<Rightarrow>
          if models = [] then Inr []
          else if mg_closed mg then Inl switched_error
          else if \<not> rm_usable (fst (references_status refs)) then Inr []
          else lookup_batches refuses (mg_db mg) models [])"

section \<open>Prices for display\<close>

record PriceRow =
  row_model :: string
  row_rates :: PriceRates
  row_source :: PriceSource
  row_in_models :: bool
  row_custom_model :: string

definition zero_rates :: PriceRates where
  "zero_rates = \<lparr>rt_input = Fin 0, rt_output = Fin 0, rt_cache_read = None, rt_cache_write = None, rt_long = None\<rparr>"

type_synonym rows_state = "PriceRow list \<times> string list \<times> string list"

text \<open>One name of the list: the rows so far, the models seen, and the names left to the reference prices.\<close>

definition price_row_of :: "CustomPrice smap \<Rightarrow> string list \<Rightarrow> string \<Rightarrow> PriceRow" where
  "price_row_of custom available name =
     (let row = \<lparr>row_model = name, row_rates = zero_rates, row_source = PriceSourceNone,
            row_in_models = (NormalizeModelID name \<in> set available), row_custom_model = []\<rparr>;
          billingModel = ResolveBillingModel custom name name
      in case map_of custom (NormalizeModelID billingModel) of
           Some price \<Rightarrow> row\<lparr>row_rates := cp_rates price, row_source := PriceSourceCustom, row_custom_model := cp_model price\<rparr>
         | None \<Rightarrow>
             (case resolveBuiltinRates billingModel of
                Some rates \<Rightarrow> row\<lparr>row_rates := rates, row_source := PriceSourceBuiltin\<rparr>
              | None \<Rightarrow> row))"

definition add_price_row :: "CustomPrice smap \<Rightarrow> string list \<Rightarrow> string \<Rightarrow> rows_state \<Rightarrow> error + rows_state" where
  "add_price_row custom available raw acc =
     (case acc of (rows, seen, missing) \<Rightarrow>
        let name = TrimSpace raw; key = NormalizeModelID name
        in if name = [] \<or> key \<in> set seen then Inr acc
           else if length name > 1024 then Inl (invalidf ''model id too long'')
           else let row = price_row_of custom available name
                in Inr (rows @ [row], key # seen, if row_source row = PriceSourceNone then missing @ [name] else missing))"

definition ModelPriceRows ::
  "(nat \<Rightarrow> error option) \<Rightarrow> string list \<Rightarrow> bool \<Rightarrow> CustomPrice smap \<Rightarrow> referencePriceManager option \<Rightarrow> error + PriceRow list" where
  "ModelPriceRows refuses models includeCustom custom refs =
     (let names = models @ (if includeCustom then sort (map (\<lambda>(_, price). cp_model price) custom) else []);
          available = map NormalizeModelID models
      in try_bind (try_fold (add_price_row custom available) names ([], [], [])) (\<lambda>(rows, seen, missing).
           try_bind (lookupModels refuses missing refs) (\<lambda>matched.
             Inr (map (\<lambda>row. case map_of matched (row_model row) of
                               Some price \<Rightarrow> row\<lparr>row_rates := the (rp_rates price), row_source := PriceSourceReference\<rparr>
                             | None \<Rightarrow> row) rows))))"

section \<open>The price of a request\<close>

text \<open>
  Custom prices come before builtin ones, builtin ones before reference prices. \<open>before\<close> and \<open>after\<close> are the custom
  prices the two reads under the store's lock find, \<open>switched\<close> whether the manager was replaced between them; the
  refusals belong to the first and the second lookup.
\<close>

definition local_price :: "CustomPrice smap \<Rightarrow> string \<Rightarrow> Price" where
  "local_price custom model =
     (let price = ResolveCustomPrice custom model
      in if prc_source price = PriceSourceNone then ResolveBuiltinPrice model else price)"

definition lookup_refreshed ::
  "refs_env \<Rightarrow> error option \<Rightarrow> error option \<Rightarrow> string \<Rightarrow> string \<Rightarrow> bool \<Rightarrow> time \<Rightarrow> referencePriceManager option \<Rightarrow>
     (error + referencePriceMatch) \<times> referencePriceManager option" where
  "lookup_refreshed E refuses1 refuses2 upstream requested refresh now refs =
     (case lookup_opt refuses1 upstream requested refs of
        (Inl e, refs) \<Rightarrow> (Inl e, refs)
      | (Inr found, refs) \<Rightarrow>
          if refresh \<and> referencePricesNeedRefresh (pm_meta found) (pm_price found \<noteq> None) now
          then (case refresh_references E False (pm_sequence found) (pm_price found \<noteq> None) refs of
                  ((_, None), refs) \<Rightarrow> lookup_opt refuses2 upstream requested refs
                | ((_, Some (Storage_Error e)), refs) \<Rightarrow> (if pm_price found = None then Inl e else Inr found, refs)
                | ((_, Some (Other_Error e)), refs) \<Rightarrow> (Inr found, refs))
          else (Inr found, refs))"

definition ResolveModelPrice ::
  "refs_env \<Rightarrow> error option \<Rightarrow> error option \<Rightarrow> time \<Rightarrow> CustomPrice smap \<Rightarrow> CustomPrice smap \<Rightarrow> bool \<Rightarrow>
     string \<Rightarrow> string \<Rightarrow> bool \<Rightarrow> referencePriceManager option \<Rightarrow> (Price \<times> string \<times> error option) \<times> referencePriceManager option" where
  "ResolveModelPrice E refuses1 refuses2 now before after switched upstream requested refresh refs =
     (let model = ResolveBillingModel before upstream requested; price = local_price before model
      in if prc_source price \<noteq> PriceSourceNone then ((price, model, None), refs)
         else case lookup_refreshed E refuses1 refuses2 upstream requested refresh now refs of (match, refs) \<Rightarrow>
                let model = ResolveBillingModel after upstream requested; price = local_price after model
                in (if switched then (no_price, model, Some switched_error)
                    else if prc_source price \<noteq> PriceSourceNone then (price, model, None)
                    else case match of
                           Inl e \<Rightarrow> (price, model, Some e)
                         | Inr found \<Rightarrow>
                             (case pm_price found of
                                Some p \<Rightarrow> (rates_resolve (the (rp_rates p)) PriceSourceReference, model, None)
                              | None \<Rightarrow> (price, model, None)), refs))"

section \<open>A cache of a function\<close>

text \<open>
  What a lookup needs of the cache: a hit is something that was stored, storing adds one entry, and nothing appears
  by itself. Then a cache that agrees with a function keeps doing so, however it evicts.
\<close>

definition coherent :: "('k \<times> 'v) set \<Rightarrow> ('k \<Rightarrow> 'v) \<Rightarrow> bool" where
  "coherent entries f \<longleftrightarrow> (\<forall>(k, v)\<in>entries. f k = v)"

locale memo_cache =
  fixes get :: "'c \<Rightarrow> 'k \<Rightarrow> ('v \<times> 'c) option"
    and put :: "'k \<Rightarrow> 'v \<Rightarrow> 'c \<Rightarrow> 'c"
    and entries :: "'c \<Rightarrow> ('k \<times> 'v) set"
    and valid :: "'c \<Rightarrow> bool"
  assumes get_entry: "get c k = Some (v, c') \<Longrightarrow> (k, v) \<in> entries c \<and> entries c' \<subseteq> entries c"
    and put_entry: "entries (put k v c) \<subseteq> insert (k, v) (entries c)"
    and get_valid: "valid c \<Longrightarrow> get c k = Some (v, c') \<Longrightarrow> valid c'"
    and put_valid: "valid c \<Longrightarrow> valid (put k v c)"
begin

lemma hit: "coherent (entries c) f \<Longrightarrow> get c k = Some (v, c') \<Longrightarrow> v = f k \<and> coherent (entries c') f"
  using get_entry [of c k v c'] by (auto simp: coherent_def)

lemma miss: "coherent (entries c) f \<Longrightarrow> coherent (entries (put k (f k) c)) f"
  using put_entry [of k "f k" c] by (auto simp: coherent_def)

end

definition cache_valid :: "price_cache \<Rightarrow> bool" where
  "cache_valid es \<longleftrightarrow> distinct (map fst es) \<and> length es \<le> referencePriceCacheCapacity"

lemma length_delete_hit: "map_of es k = Some v \<Longrightarrow> length (AList.delete k es) < length es"
proof (induction es)
  case (Cons e es)
  then show ?case using AList.length_delete_le [of k es] by (cases e) (auto simp: less_Suc_eq_le)
qed simp

lemma distinct_front: "distinct (map fst es) \<Longrightarrow> distinct (map fst ((k, v) # AList.delete k es))"
  using AList.distinct_delete [of es k] AList.delete_notin_dom [of k es] by simp


lemma cache_get_Some: "cache_get c k = Some (v, c') \<longleftrightarrow> map_of c k = Some v \<and> c' = (k, v) # AList.delete k c"
  unfolding cache_get_def by (cases "map_of c k") auto

lemma front_subset: "map_of c k = Some v \<Longrightarrow> insert (k, v) (set (AList.delete k c)) \<subseteq> set c"
  using set_delete_subset [of k c] by (meson insert_subset map_of_SomeD)

lemma front_valid:
  assumes "cache_valid c" "map_of c k = Some v"
  shows "cache_valid ((k, v) # AList.delete k c)"
proof -
  have "length ((k, v) # AList.delete k c) \<le> length c" using length_delete_hit [OF assms(2)] by simp
  moreover have "distinct (map fst ((k, v) # AList.delete k c))"
    by (rule distinct_front) (use assms(1) in \<open>simp add: cache_valid_def\<close>)
  moreover have "length c \<le> referencePriceCacheCapacity" using assms(1) by (simp add: cache_valid_def)
  ultimately show ?thesis unfolding cache_valid_def by (meson order_trans)
qed

lemma evicted_valid:
  "length es \<le> Suc referencePriceCacheCapacity \<Longrightarrow> distinct (map fst es) \<Longrightarrow>
     cache_valid (if length es > referencePriceCacheCapacity then butlast es else es)"
  using distinct_butlast [of "map fst es"] by (auto simp: cache_valid_def map_butlast)

lemma evicted_subset: "set (if length es > referencePriceCacheCapacity then butlast es else es) \<subseteq> set es"
  using in_set_butlastD [of _ es] by auto

interpretation lru: memo_cache cache_get cache_put set cache_valid
proof
  fix c c' :: price_cache and k v
  assume g: "cache_get c k = Some (v, c')"
  show "(k, v) \<in> set c \<and> set c' \<subseteq> set c"
    using g front_subset [of c k v] unfolding cache_get_Some by simp
  show "cache_valid c'" if "cache_valid c"
    using g front_valid [OF that] unfolding cache_get_Some by simp
next
  fix c :: price_cache and k v
  have "set ((k, v) # AList.delete k c) \<subseteq> insert (k, v) (set c)" using set_delete_subset [of k c] by auto
  then show "set (cache_put k v c) \<subseteq> insert (k, v) (set c)"
    using evicted_subset [of "(k, v) # AList.delete k c"] unfolding cache_put_def Let_def by (rule order_trans [rotated])
  show "cache_valid (cache_put k v c)" if "cache_valid c"
    unfolding cache_put_def Let_def
  proof (rule evicted_valid)
    show "length ((k, v) # AList.delete k c) \<le> Suc referencePriceCacheCapacity"
      using that AList.length_delete_le [of k c] by (simp add: cache_valid_def)
    show "distinct (map fst ((k, v) # AList.delete k c))"
      by (rule distinct_front) (use that in \<open>simp add: cache_valid_def\<close>)
  qed
qed

section \<open>A lookup answers from the table\<close>

definition cached_answer :: "reference_db \<Rightarrow> string \<Rightarrow> ReferencePrice option" where
  "cached_answer d key = matchReferencePriceKeys (table_prices d) (split_at_byte (CHR 0x00) key)"

definition manager_ok :: "referencePriceManager \<Rightarrow> bool" where
  "manager_ok mg \<longleftrightarrow> table_ok (mg_db mg) \<and> coherent (set (mg_entries mg)) (cached_answer (mg_db mg)) \<and>
     cache_valid (mg_entries mg) \<and> \<not> mg_refreshing mg \<and> (mg_entries mg \<noteq> [] \<longrightarrow> rm_usable (mg_meta mg))"

definition reference_for :: "referencePriceManager \<Rightarrow> string \<Rightarrow> string \<Rightarrow> ReferencePrice option" where
  "reference_for mg upstream model =
     (if rm_usable (mg_meta mg) then matchReferencePriceKeys (table_prices (mg_db mg)) (referencePriceKeys upstream model)
      else None)"

definition nul_free :: "string \<Rightarrow> bool" where
  "nul_free s \<longleftrightarrow> CHR 0x00 \<notin> set s"

lemma lower_byte_nul: "lower_byte c = CHR 0x00 \<longleftrightarrow> c = CHR 0x00"
proof (cases "is_upper c")
  case True
  have "(of_char (lower_byte c) :: nat) \<noteq> of_char (CHR 0x00)" using lower_byte_upper [OF True] by simp
  moreover have "c \<noteq> CHR 0x00" using is_upper_bounds [OF True] by auto
  ultimately show ?thesis by metis
qed (simp add: lower_byte_other)

lemma nul_free_key: "nul_free m \<Longrightarrow> nul_free (ReferenceModelKey m)"
proof -
  assume m: "nul_free m"
  then have "CHR 0x00 \<notin> set (TrimSpace m)" using set_TrimSpace [of m] by (auto simp: nul_free_def)
  then have "CHR 0x00 \<notin> set (NormalizeModelID m)"
    unfolding NormalizeModelID_def ToLower_def set_map using lower_byte_nul by (metis imageE)
  then show ?thesis
    by (auto simp: nul_free_def ReferenceModelKey_def Let_def after_last_def dest: set_takeWhileD)
qed

lemma nul_free_suffix: "nul_free m \<Longrightarrow> nul_free (ModelWithoutThinkingSuffix m)"
proof -
  assume m: "nul_free m"
  have trim: "set (TrimSpace s) \<subseteq> set s" for s by (rule set_TrimSpace)
  have "set (before_last c s) \<subseteq> set s" for c s
  proof -
    have "set (tl xs) \<subseteq> set xs" for xs :: string by (cases xs) auto
    then have "set (tl (dropWhile (\<lambda>x. x \<noteq> c) (rev s))) \<subseteq> set (rev s)" by (meson set_dropWhileD subset_iff)
    then show ?thesis by (simp add: before_last_def)
  qed
  then show ?thesis
    using m trim unfolding nul_free_def ModelWithoutThinkingSuffix_def Let_def by (auto split: if_splits) blast+
qed

lemma nul_free_keys:
  assumes "nul_free u" "nul_free r" "k \<in> set (referencePriceKeys u r)"
  shows "CHR 0x00 \<notin> set k"
proof -
  have "nul_free (ReferenceModelKey (ModelWithoutThinkingSuffix m))" if "nul_free m" for m
    using that by (intro nul_free_key nul_free_suffix)
  then show ?thesis using assms
    by (auto simp: referencePriceKeys_def add_reference_key_def Let_def nul_free_def split: if_splits)
qed

lemma match_split_join:
  assumes "length keys \<le> 2" "\<forall>k\<in>set keys. CHR 0x00 \<notin> set k"
  shows "matchReferencePriceKeys ps (split_at_byte (CHR 0x00) (join_keys keys)) = matchReferencePriceKeys ps keys"
proof -
  consider "keys = []" | k where "keys = [k]" | k k' where "keys = [k, k']"
    using assms(1) by (cases keys; cases "tl keys") (auto simp: length_Suc_conv)
  then show ?thesis
    using assms(2) by cases (simp_all add: join_keys_def matchReferencePriceKey_def split_at_byte_none split_at_byte_append)
qed

lemma same_entries: "\<exists>es. mg = mg\<lparr>mg_entries := es\<rparr>"
  by (rule exI [where x = "mg_entries mg"]) simp

lemma lookup_reference_ok:
  assumes ok: "manager_ok mg" and free: "nul_free u" "nul_free r"
    and l: "lookup_reference refuses u r mg = (res, mg')"
  shows "manager_ok mg' \<and> (\<exists>es. mg' = mg\<lparr>mg_entries := es\<rparr>) \<and> (\<forall>m. res = Inr m \<longrightarrow> m = match_now (reference_for mg u r) mg)"
proof -
  let ?keys = "referencePriceKeys u r" and ?f = "cached_answer (mg_db mg)"
  have answer: "?f (join_keys ?keys) = matchReferencePriceKeys (table_prices (mg_db mg)) ?keys"
    unfolding cached_answer_def
    by (rule match_split_join) (use referencePriceKeys_props nul_free_keys [OF free] in auto)
  show ?thesis
  proof (cases "cache_get (mg_entries mg) (join_keys ?keys)")
    case (Some hit)
    obtain p es where h: "hit = (p, es)" by (cases hit)
    have "mg_entries mg \<noteq> []" using Some by (auto simp: cache_get_def)
    moreover have "p = ?f (join_keys ?keys) \<and> coherent (set es) ?f"
      by (rule lru.hit) (use ok Some h in \<open>auto simp: manager_ok_def\<close>)
    moreover have "cache_valid es" by (rule lru.get_valid) (use ok Some h in \<open>auto simp: manager_ok_def\<close>)
    ultimately show ?thesis
      using l ok answer Some h by (auto simp: lookup_reference_def Let_def manager_ok_def reference_for_def)
  next
    case None
    show ?thesis
    proof (cases "\<not> mg_closed mg \<and> rm_usable (mg_meta mg) \<and> isOk (ReferencePriceCandidates refuses ?keys (mg_db mg))")
      case True
      then obtain ps where ps: "ReferencePriceCandidates refuses ?keys (mg_db mg) = Inr ps" by (auto simp: isOk_iff)
      have K: "set ?keys - {[]} = set ?keys" using referencePriceKeys_props by blast
      have "matchReferencePriceKeys ps ?keys = ?f (join_keys ?keys)"
        unfolding answer candidates_eq [OF _ ps, unfolded K] using ok
        by (subst candidates_eq [OF _ ps]) (simp_all add: manager_ok_def K match_keys_restrict referencePriceKeys_props)
      moreover have "coherent (set (cache_put (join_keys ?keys) (?f (join_keys ?keys)) (mg_entries mg))) ?f"
        by (rule lru.miss) (use ok in \<open>simp add: manager_ok_def\<close>)
      moreover have "cache_valid (cache_put (join_keys ?keys) (?f (join_keys ?keys)) (mg_entries mg))"
        by (rule lru.put_valid) (use ok in \<open>simp add: manager_ok_def\<close>)
      ultimately show ?thesis
        using l ok answer None ps True by (auto simp: lookup_reference_def Let_def manager_ok_def reference_for_def)
    next
      case False
      then show ?thesis
        using l ok None same_entries by (auto simp: lookup_reference_def Let_def reference_for_def isOk_def split: if_splits sum.splits)
    qed
  qed
qed

section \<open>A refresh keeps answers right\<close>

lemma table_prices_rows: "rdb_rows d = rdb_rows d' \<Longrightarrow> table_prices d = table_prices d' \<and> cached_answer d = cached_answer d'"
  by (auto simp: table_prices_def cached_answer_def)

lemma commit_ok:
  assumes ok: "table_ok (mg_db mg)" "coherent (set (mg_entries mg)) (cached_answer (mg_db mg))" "cache_valid (mg_entries mg)"
    and c: "downloadAndCommit E mg = (out, mg')"
  shows "table_ok (mg_db mg') \<and> coherent (set (mg_entries mg')) (cached_answer (mg_db mg')) \<and> cache_valid (mg_entries mg') \<and>
     (\<forall>m. out = Inr m \<longrightarrow> rm_usable m \<and> mg_meta mg' = m) \<and>
     (\<forall>e. out = Inl e \<longrightarrow> mg_db mg' = mg_db mg \<and> mg_entries mg' = mg_entries mg \<and> mg_meta mg' = mg_meta mg) \<and>
     mg_sequence mg' = mg_sequence mg"
proof (cases "\<exists>m. out = Inr m")
  case False
  then show ?thesis using ok c
    by (auto simp: downloadAndCommit_def Let_def split: sum.splits if_splits)
next
  case True
  then obtain m where out: "out = Inr m" by blast
  obtain raw current where down: "rv_download E = Inr raw"
      "LoadReferencePriceMetadata (rv_load E) (mg_db mg) = Inr current"
    using c out by (auto simp: downloadAndCommit_def split: sum.splits if_splits)
  let ?same = "rm_usable current \<and> sha256_hex raw = rm_hash current"
  obtain prices d where p: "?same \<longleftrightarrow> prices = None" "m = committed_metadata (rv_clock E 2) (sha256_hex raw) prices current"
      "SaveReferencePrices (rv_save E) m prices (mg_db mg) = Inr d"
      "mg' = mg\<lparr>mg_db := d, mg_meta := m, mg_entries := (if ?same then mg_entries mg else [])\<rparr>"
    using c out down
    by (cases ?same) (auto simp: downloadAndCommit_def Let_def split: sum.splits if_splits option.splits)
  have d: "table_ok d" "rdb_rows d = (case prices of None \<Rightarrow> rdb_rows (mg_db mg) | Some ps \<Rightarrow> map price_row ps)"
    using table_saved [OF p(3) ok(1)] by auto
  have "rm_usable m" using p(1,2) by (cases prices) (auto simp: committed_metadata_def)
  moreover have "coherent (set (mg_entries mg')) (cached_answer d)"
    using ok(2) p(1,4) d(2) table_prices_rows [of d "mg_db mg"] by (cases prices) (auto simp: coherent_def)
  ultimately show ?thesis using d p(4) out ok(3) by (auto simp: cache_valid_def)
qed

lemma save_failure_ok:
  assumes "table_ok (mg_db mg)" "save_failure E next e mg = (err, mg')"
  shows "table_ok (mg_db mg') \<and> rdb_rows (mg_db mg') = rdb_rows (mg_db mg) \<and> (\<exists>d. mg' = mg\<lparr>mg_db := d\<rparr>)"
proof -
  have same: "\<exists>d. mg = mg\<lparr>mg_db := d\<rparr>" by (rule exI [where x = "mg_db mg"]) simp
  show ?thesis
  proof (cases "mg_closed mg \<or> \<not> isOk (SaveReferencePrices (rv_retry_save E) next None (mg_db mg))")
    case True
    then show ?thesis using assms same by (auto simp: save_failure_def isOk_def split: sum.splits if_splits)
  next
    case False
    then obtain d where d: "SaveReferencePrices (rv_retry_save E) next None (mg_db mg) = Inr d" by (auto simp: isOk_iff)
    then show ?thesis using False assms table_saved [OF d assms(1)] by (auto simp: save_failure_def)
  qed
qed

text \<open>The table a failed refresh leaves is the one it found.\<close>

lemma run_refresh_ok:
  assumes ok: "manager_ok mg" and r: "run_refresh E mg = ((next, err), mg')"
  shows "manager_ok mg' \<and> mg_meta mg' = next \<and> mg_last_error mg' = err \<and>
     mg_sequence mg' = (mg_sequence mg + 1) mod 2 ^ 64 \<and> (err = None \<longrightarrow> rm_usable next) \<and>
     (err \<noteq> None \<longrightarrow> rdb_rows (mg_db mg') = rdb_rows (mg_db mg) \<and> rm_usable next = rm_usable (mg_meta mg))"
proof -
  define start where "start = mg\<lparr>mg_refreshing := True, mg_logs := mg_logs mg @ [(PluginLogInfo, ''synchronising reference prices'')]\<rparr>"
  obtain out mg1 where c: "downloadAndCommit E start = (out, mg1)" by (cases "downloadAndCommit E start")
  have "table_ok (mg_db start)" "coherent (set (mg_entries start)) (cached_answer (mg_db start))" "cache_valid (mg_entries start)"
    using ok by (auto simp: manager_ok_def start_def)
  note k = commit_ok [OF this c]
  show ?thesis
  proof (cases out)
    case (Inr m)
    then show ?thesis using r c k by (auto simp: run_refresh_def start_def Let_def finish_refresh_def manager_ok_def)
  next
    case (Inl e)
    obtain e' mg2 where f: "save_failure E (failed_metadata E e (mg_meta mg)) e mg1 = (e', mg2)"
      by (cases "save_failure E (failed_metadata E e (mg_meta mg)) e mg1")
    have s: "table_ok (mg_db mg2)" "rdb_rows (mg_db mg2) = rdb_rows (mg_db mg1)" "\<exists>d. mg2 = mg1\<lparr>mg_db := d\<rparr>"
      using save_failure_ok [OF _ f] k by auto
    have u: "rm_usable (failed_metadata E e (mg_meta mg)) = rm_usable (mg_meta mg)" by (simp add: failed_metadata_def)
    show ?thesis
      using r c k s u f Inl ok table_prices_rows [OF s(2)]
      by (auto simp: run_refresh_def start_def Let_def finish_refresh_def manager_ok_def)
  qed
qed

text \<open>The back-off after a failure lies between a minute and an hour and never shrinks while failures go on.\<close>

lemma retry_delay_bounds:
  "60 * second \<le> retry_delay n" "retry_delay n \<le> hour" "m \<le> n \<Longrightarrow> retry_delay m \<le> retry_delay n"
proof -
  show "60 * second \<le> retry_delay n" "retry_delay n \<le> hour" by (auto simp: retry_delay_def)
  assume "m \<le> n"
  then have "(2::int) ^ nat (min (m - 1) 6) \<le> 2 ^ nat (min (n - 1) 6)" by (intro power_increasing) auto
  then show "retry_delay m \<le> retry_delay n" unfolding retry_delay_def by (intro min.mono mult_left_mono) auto
qed

section \<open>What a request is priced with\<close>

definition refs_ok :: "referencePriceManager option \<Rightarrow> bool" where
  "refs_ok refs \<longleftrightarrow> (\<forall>mg. refs = Some mg \<longrightarrow> manager_ok mg)"

definition reference_of :: "referencePriceManager option \<Rightarrow> string \<Rightarrow> string \<Rightarrow> ReferencePrice option" where
  "reference_of refs upstream model = (case refs of None \<Rightarrow> None | Some mg \<Rightarrow> reference_for mg upstream model)"

text \<open>The price the current catalogues give: custom, else builtin, else the matching entry of the table.\<close>

definition listed_price :: "CustomPrice smap \<Rightarrow> referencePriceManager option \<Rightarrow> string \<Rightarrow> string \<Rightarrow> Price" where
  "listed_price custom refs upstream requested =
     (let price = local_price custom (ResolveBillingModel custom upstream requested)
      in if prc_source price \<noteq> PriceSourceNone then price
         else case reference_of refs upstream requested of
                Some p \<Rightarrow> rates_resolve (the (rp_rates p)) PriceSourceReference
              | None \<Rightarrow> no_price)"

lemma reference_for_entries: "reference_for (mg\<lparr>mg_entries := es\<rparr>) u r = reference_for mg u r"
  by (simp add: reference_for_def)

lemma lookup_opt_ok:
  assumes "refs_ok refs" "nul_free u" "nul_free r" "lookup_opt refuses u r refs = (res, refs')"
  shows "refs_ok refs' \<and> (\<forall>m. res = Inr m \<longrightarrow> pm_price m = reference_of refs' u r) \<and>
     reference_of refs' u r = reference_of refs u r \<and> (refs = None \<longleftrightarrow> refs' = None)"
proof (cases refs)
  case (Some mg)
  obtain mg' where l: "lookup_reference refuses u r mg = (res, mg')" and refs': "refs' = Some mg'"
    using assms(4) Some by (cases "lookup_reference refuses u r mg") (auto simp: lookup_opt_def)
  have "manager_ok mg" using assms(1) Some by (simp add: refs_ok_def)
  from lookup_reference_ok [OF this assms(2,3) l] show ?thesis
    by (auto simp: Some refs' refs_ok_def reference_of_def reference_for_entries match_now_def)
qed (use assms in \<open>auto simp: lookup_opt_def reference_of_def refs_ok_def\<close>)

lemma refresh_references_ok:
  assumes "refs_ok refs" "refresh_references E force observed found refs = ((m, err), refs')"
  shows "refs_ok refs' \<and> (err \<noteq> None \<longrightarrow> reference_of refs' u r = reference_of refs u r)"
proof (cases refs)
  case (Some mg)
  then have ok: "manager_ok mg" using assms(1) by (simp add: refs_ok_def)
  show ?thesis
  proof (cases "refresh_decide E force observed found mg")
    case Wait_For_Refresh
    then show ?thesis using ok by (auto simp: refresh_decide_def manager_ok_def split: if_splits)
  next
    case (Answer_Now m' err')
    then show ?thesis using assms Some by (auto simp: refresh_references_def)
  next
    case Run_Refresh
    then obtain mg' where run: "run_refresh E mg = ((m, err), mg')" and refs': "refs' = Some mg'"
      using assms(2) Some by (cases "run_refresh E mg") (auto simp: refresh_references_def)
    from run_refresh_ok [OF ok run] table_prices_rows [of "mg_db mg'" "mg_db mg"] show ?thesis
      by (auto simp: Some refs' refs_ok_def reference_of_def reference_for_def)
  qed
qed (use assms in \<open>auto simp: refresh_references_def reference_of_def refs_ok_def\<close>)

lemma lookup_refreshed_ok:
  assumes ok: "refs_ok refs" and free: "nul_free u" "nul_free r"
    and l: "lookup_refreshed E r1 r2 u r refresh now refs = (res, refs')"
  shows "refs_ok refs' \<and> (\<forall>m. res = Inr m \<longrightarrow> pm_price m = reference_of refs' u r)"
proof -
  obtain res1 refs1 where l1: "lookup_opt r1 u r refs = (res1, refs1)" by (cases "lookup_opt r1 u r refs")
  note k1 = lookup_opt_ok [OF ok free l1]
  then have ok1: "refs_ok refs1" by blast
  show ?thesis
  proof (cases res1)
    case (Inl e)
    then show ?thesis using l l1 k1 by (auto simp: lookup_refreshed_def)
  next
    case (Inr found)
    let ?refresh = "refresh_references E False (pm_sequence found) (pm_price found \<noteq> None) refs1"
    show ?thesis
    proof (cases "refresh \<and> referencePricesNeedRefresh (pm_meta found) (pm_price found \<noteq> None) now")
      case False
      then show ?thesis using l l1 k1 Inr by (auto simp: lookup_refreshed_def)
    next
      case True
      obtain m err refs2 where f: "?refresh = ((m, err), refs2)" by (metis surj_pair)
      note k2 = refresh_references_ok [OF ok1 f, of u r]
      show ?thesis
      proof (cases err)
        case None
        then have "lookup_opt r2 u r refs2 = (res, refs')" using l l1 Inr f True by (simp add: lookup_refreshed_def)
        from lookup_opt_ok [OF _ free this] show ?thesis using k2 by blast
      next
        case (Some e)
        have "refs' = refs2" "res = Inr found \<or> \<not> isOk res"
          using l l1 Inr f True Some by (cases e; auto simp: lookup_refreshed_def split: if_splits)+
        then show ?thesis using k1 k2 Inr Some by auto
      qed
    qed
  qed
qed

lemma builtin_valid: "map_of builtinPrices k = Some p \<Longrightarrow> rates_validate (cp_rates p) = Inr ()"
  by (auto simp: builtinPrices_def rates_validate_ok invalidPrice_def invalid_opt_def IsNaN_def IsInf_def split: if_splits)

lemma local_price_ok:
  assumes "prices_ok custom"
  shows "price_ok (local_price custom model)"
proof -
  have "price_ok no_price" by (simp add: no_price_def price_ok_def rate_ok_def)
  moreover have "price_ok (ResolveBuiltinPrice model)"
    using builtin_valid calculation
    by (auto simp: ResolveBuiltinPrice_def resolveBuiltinRates_def intro: resolve_price_ok split: option.splits)
  moreover have "price_ok (ResolveCustomPrice custom model)"
    using prices_okD [OF assms] CustomPrice_Validate_rates calculation(1)
    by (auto simp: ResolveCustomPrice_def intro: resolve_price_ok split: option.splits)
  ultimately show ?thesis by (simp add: local_price_def Let_def)
qed

lemma local_price_none: "prc_source (local_price custom model) = PriceSourceNone \<Longrightarrow> local_price custom model = no_price"
  by (auto simp: local_price_def Let_def ResolveBuiltinPrice_def ResolveCustomPrice_def rates_resolve_def no_price_def
      split: option.splits)

text \<open>All entries that count for a key carry these rates: the canonical ones where there are any, else every provider's.\<close>

definition agreed_rates :: "string \<Rightarrow> ReferencePrice list \<Rightarrow> PriceRates \<Rightarrow> bool" where
  "agreed_rates key prices rates \<longleftrightarrow> eligible key prices \<noteq> [] \<and> (\<forall>q\<in>set (eligible key prices). rp_rates q = Some rates)"

lemma match_keys_found: "matchReferencePriceKeys ps keys = Some p \<Longrightarrow> \<exists>k\<in>set keys. matchReferencePriceKey k ps = Some p"
  by (induction keys) (auto split: if_splits)

lemma reference_price_ok:
  assumes "refs_ok refs" "reference_of refs u r = Some p"
  shows "\<exists>mg key rates. refs = Some mg \<and> key \<in> set (referencePriceKeys u r) \<and> agreed_rates key (table_prices (mg_db mg)) rates \<and>
     rp_rates p = Some rates \<and> rates_validate rates = Inr ()"
proof -
  obtain mg where mg: "refs = Some mg" "reference_for mg u r = Some p"
    using assms(2) by (auto simp: reference_of_def split: option.splits)
  let ?ps = "table_prices (mg_db mg)"
  have m: "references_ok ?ps" "matchReferencePriceKeys ?ps (referencePriceKeys u r) = Some p"
    using mg assms(1) table_references by (auto simp: refs_ok_def manager_ok_def reference_for_def split: if_splits)
  obtain rates where rates: "rp_rates p = Some rates" "rates_validate rates = Inr ()" using match_keys_Some [OF m] by blast
  obtain k where k: "k \<in> set (referencePriceKeys u r)" "matchReferencePriceKey k ?ps = Some p"
    using match_keys_found [OF m(2)] by blast
  then have "agreed_rates k ?ps rates" using match_Some_iff [OF m(1)] rates unfolding agreed_rates_def by blast
  then show ?thesis using mg(1) rates k(1) by blast
qed

lemma local_not_reference: "prc_source (local_price custom model) \<noteq> PriceSourceReference"
  by (auto simp: local_price_def Let_def ResolveBuiltinPrice_def ResolveCustomPrice_def rates_resolve_def no_price_def
      split: option.splits)

lemma ResolveModelPrice_facts:
  assumes "refs_ok refs" "nul_free upstream" "nul_free requested" "prices_ok before" "prices_ok after"
    and r: "ResolveModelPrice E r1 r2 now before after switched upstream requested refresh refs = ((price, model, err), refs')"
  shows "refs_ok refs' \<and> price_ok price \<and>
    (\<exists>custom\<in>{before, after}. model = ResolveBillingModel custom upstream requested \<and>
       (err = None \<longrightarrow> price = listed_price custom refs' upstream requested) \<and>
       (err \<noteq> None \<longrightarrow> price = no_price \<and> (prc_source (local_price custom model) = PriceSourceNone \<or> switched))) \<and>
    (prc_source price = PriceSourceReference \<longrightarrow>
       (\<exists>mg key rates. refs' = Some mg \<and> key \<in> set (referencePriceKeys upstream requested) \<and>
          agreed_rates key (table_prices (mg_db mg)) rates \<and> price = rates_resolve rates PriceSourceReference))"
proof -
  let ?m = "\<lambda>custom. ResolveBillingModel custom upstream requested"
  have no: "price_ok no_price" by (simp add: no_price_def price_ok_def rate_ok_def)
  have none: "prc_source no_price = PriceSourceNone" by (simp add: no_price_def)
  show ?thesis
  proof (cases "prc_source (local_price before (?m before)) = PriceSourceNone")
    case False
    then show ?thesis using assms local_price_ok [of before] local_not_reference [of before] by (auto simp: ResolveModelPrice_def listed_price_def Let_def)
  next
    case True
    obtain match refs1 where l: "lookup_refreshed E r1 r2 upstream requested refresh now refs = (match, refs1)"
      by (cases "lookup_refreshed E r1 r2 upstream requested refresh now refs")
    note k = lookup_refreshed_ok [OF assms(1-3) l]
    have refs': "refs' = refs1" using r True l by (auto simp: ResolveModelPrice_def Let_def)
    have ok: "refs_ok refs1" using k by blast
    let ?p = "local_price after (?m after)"
    show ?thesis
    proof (cases "switched \<or> prc_source ?p \<noteq> PriceSourceNone \<or> \<not> isOk match")
      case False
      then obtain found where found: "match = Inr found" "pm_price found = reference_of refs1 upstream requested"
        using k by (auto simp: isOk_iff)
      have out: "model = ?m after" "err = None" "price = listed_price after refs1 upstream requested"
        using r True l found False local_price_none [of after "?m after"]
        by (auto simp: ResolveModelPrice_def Let_def listed_price_def split: option.splits)
      have src: "prc_source ?p = PriceSourceNone" using False by blast
      show ?thesis
      proof (cases "reference_of refs1 upstream requested")
        case None
        then have "price = no_price" using out(3) src by (simp add: listed_price_def)
        then show ?thesis using out ok refs' none no by auto
      next
        case (Some p)
        obtain mg key rates where p: "refs1 = Some mg" "key \<in> set (referencePriceKeys upstream requested)"
            "agreed_rates key (table_prices (mg_db mg)) rates" "rp_rates p = Some rates" "rates_validate rates = Inr ()"
          using reference_price_ok [OF ok Some] by blast
        then have "price = rates_resolve rates PriceSourceReference" using out(3) src Some by (simp add: listed_price_def)
        then show ?thesis using out ok refs' p resolve_price_ok by auto
      qed
    next
      case bad: True
      then show ?thesis
        using r True l ok refs' no local_price_ok [OF assms(5), of "?m after"] local_price_none [of after "?m after"] local_not_reference [of after]
        by (auto simp: ResolveModelPrice_def Let_def listed_price_def isOk_def none split: if_splits sum.splits)
    qed
  qed
qed


section \<open>Batched lookups agree with single ones\<close>

lemma batch_matches_lookup:
  "map_of (batch_matches ps batch matched) m =
     (case if m \<in> set batch then matchReferencePriceKey (model_key m) (filter (\<lambda>p. ReferenceModelKey (rp_model p) = model_key m) ps)
           else None of
        Some p \<Rightarrow> Some p
      | None \<Rightarrow> map_of matched m)"
proof (induction batch arbitrary: matched)
  case (Cons b batch)
  have step: "batch_matches ps (b # batch) matched = batch_matches ps batch
      (case matchReferencePriceKey (model_key b) (filter (\<lambda>p. ReferenceModelKey (rp_model p) = model_key b) ps) of
         Some p \<Rightarrow> AList.update b p matched | None \<Rightarrow> matched)"
    by (simp add: batch_matches_def Let_def)
  show ?case unfolding step Cons.IH by (auto simp: map_of_update split: option.splits)
qed (simp add: batch_matches_def)

lemma lookup_batches_ok:
  assumes "table_ok d" "lookup_batches refuses d models matched = Inr out"
    "\<And>m p. map_of matched m = Some p \<Longrightarrow> matchReferencePriceKey (model_key m) (table_prices d) = Some p"
  shows "(\<forall>m\<in>set models. map_of out m = matchReferencePriceKey (model_key m) (table_prices d)) \<and>
     (\<forall>m p. map_of out m = Some p \<longrightarrow> matchReferencePriceKey (model_key m) (table_prices d) = Some p) \<and>
     (\<forall>m p. map_of matched m = Some p \<longrightarrow> map_of out m = Some p)"
  using assms(2,3)
proof (induction "length models" arbitrary: models matched rule: less_induct)
  case less
  show ?case
  proof (cases "models = []")
    case True
    then have "matched = out" using less.prems(1) by (simp add: lookup_batches.simps [of refuses d "[]"])
    then show ?thesis using less.prems(2) True by auto
  next
    case False
    define batch where "batch = take lookup_batch_size models"
    define keys where "keys = first_seen [] (filter (\<lambda>k. k \<noteq> []) (map model_key batch))"
    obtain ps where ps: "ReferencePriceCandidates (refuses (length models)) keys d = Inr ps"
        and rest: "lookup_batches refuses d (drop lookup_batch_size models) (batch_matches ps batch matched) = Inr out"
      using less.prems(1) False by (auto simp: lookup_batches.simps [of refuses d models] batch_def keys_def Let_def)
    have found: "matchReferencePriceKey (model_key m) (filter (\<lambda>p. ReferenceModelKey (rp_model p) = model_key m) ps) =
        matchReferencePriceKey (model_key m) (table_prices d)" if "m \<in> set batch" for m
    proof (cases "model_key m = []")
      case False
      then have "model_key m \<in> set keys - {[]}" using that by (auto simp: keys_def set_first_seen)
      then show ?thesis unfolding candidates_eq [OF assms(1) ps] by (intro match_cong) (auto intro: filter_cong)
    qed (simp add: matchReferencePriceKey_def)
    have right: "matchReferencePriceKey (model_key m) (table_prices d) = Some p"
      if "map_of (batch_matches ps batch matched) m = Some p" for m p
      using that found [of m] less.prems(2) by (auto simp: batch_matches_lookup split: if_splits option.splits)
    have shorter: "length (drop lookup_batch_size models) < length models" using False by (simp add: lookup_batch_size_def)
    have all: "(\<forall>m\<in>set (drop lookup_batch_size models). map_of out m = matchReferencePriceKey (model_key m) (table_prices d)) \<and>
      (\<forall>m p. map_of out m = Some p \<longrightarrow> matchReferencePriceKey (model_key m) (table_prices d) = Some p) \<and>
      (\<forall>m p. map_of (batch_matches ps batch matched) m = Some p \<longrightarrow> map_of out m = Some p)"
      by (rule less.hyps [OF shorter rest]) (rule right)
    note ih = all [THEN conjunct1] all [THEN conjunct2, THEN conjunct1] all [THEN conjunct2, THEN conjunct2]
    have "map_of out m = matchReferencePriceKey (model_key m) (table_prices d)" if "m \<in> set batch" for m
    proof (cases "matchReferencePriceKey (model_key m) (table_prices d)")
      case None
      then show ?thesis using ih(2) by (cases "map_of out m") auto
    next
      case (Some p)
      then have "map_of (batch_matches ps batch matched) m = Some p" using found [OF that] that by (simp add: batch_matches_lookup)
      then show ?thesis using ih(3) Some by simp
    qed
    moreover have "set models = set batch \<union> set (drop lookup_batch_size models)"
      by (metis append_take_drop_id batch_def set_append)
    moreover have "map_of out m = Some p" if "map_of matched m = Some p" for m p
    proof -
      have "map_of (batch_matches ps batch matched) m = Some p"
        using that found [of m] less.prems(2) [OF that] by (simp add: batch_matches_lookup)
      then show ?thesis using ih(3) by blast
    qed
    ultimately show ?thesis using ih(1,2) by blast
  qed
qed

lemma lookupModels_agrees:
  assumes "manager_ok mg" "rm_usable (mg_meta mg)" "lookupModels refuses models (Some mg) = Inr out" "m \<in> set models"
  shows "map_of out m = MatchReferencePrice m (table_prices (mg_db mg))"
proof -
  have t: "table_ok (mg_db mg)" using assms(1) by (simp add: manager_ok_def)
  have "models \<noteq> []" using assms(4) by auto
  then have "lookup_batches refuses (mg_db mg) models [] = Inr out"
    using assms(2,3) by (simp add: lookupModels_def references_status_def split: if_splits)
  then have "\<forall>m\<in>set models. map_of out m = matchReferencePriceKey (model_key m) (table_prices (mg_db mg))"
    by (rule lookup_batches_ok [OF t, THEN conjunct1]) simp
  then show ?thesis using assms(4) by (simp add: MatchReferencePrice_def model_key_def)
qed

section \<open>Samples\<close>

definition sample_reference :: ReferencePrice where
  "sample_reference = \<lparr>rp_provider = ''openai'', rp_model = ''gpt-a'', rp_canonical = True, rp_rates = Some sample_rates\<rparr>"

definition sample_manager :: referencePriceManager where
  "sample_manager = \<lparr>mg_db = \<lparr>rdb_meta = None, rdb_rows = [price_row sample_reference]\<rparr>, mg_closed = False,
     mg_meta = no_metadata\<lparr>rm_usable := True, rm_hash := ''x'', rm_model_count := 1\<rparr>, mg_sequence = 0, mg_refreshing = False,
     mg_last_error = None, mg_entries = [], mg_logs = []\<rparr>"

definition sample_refs_env :: refs_env where
  "sample_refs_env = \<lparr>rv_clock = (\<lambda>_. 0), rv_download = Inl (Plain_Error ''offline''), rv_document = (\<lambda>_. Inr (sample_catalogue False)),
     rv_model = sample_json, rv_expired = None, rv_load = None, rv_closed = False, rv_save = None, rv_retry_save = None,
     rv_joined = Inl (Plain_Error ''cancelled'')\<rparr>"

lemma sample_manager_ok: "manager_ok sample_manager"
  by (simp add: manager_ok_def sample_manager_def table_ok_def references_ok_def sample_reference_def reference_valid sample_trims
      sample_rates_valid coherent_def cache_valid_def)

lemma key_gpt:
  "ModelWithoutThinkingSuffix ''gpt-a'' = ''gpt-a''" "ReferenceModelKey ''gpt-a'' = ''gpt-a''" "ToLower ''gpt-a'' = ''gpt-a''"
  "EqualFold ''gpt-a'' ''auto'' = False" "NormalizeModelID ''gpt-a'' = ''gpt-a''"
  by (simp_all add: ModelWithoutThinkingSuffix_def ReferenceModelKey_def NormalizeModelID_def sample_trims ToLower_def lower_byte_def
      is_upper_def EqualFold_def less_eq_char_def Let_def)

lemma sample_resolves:
  "\<exists>refs'. ResolveModelPrice sample_refs_env None None 0 [] [] False ''gpt-a'' ''gpt-a'' False (Some sample_manager) =
     ((rates_resolve sample_rates PriceSourceReference, ''gpt-a'', None), refs')"
  by (simp add: ResolveModelPrice_def lookup_refreshed_def lookup_opt_def lookup_reference_def referencePriceKeys_def
      add_reference_key_def key_gpt sample_manager_def cache_get_def join_keys_def ReferencePriceCandidates_def by_identity_def
      matchReferencePriceKey_def sample_reference_def match_now_def ResolveBillingModel_def sample_trims local_price_def
      ResolveCustomPrice_def no_price_def ResolveBuiltinPrice_def resolveBuiltinRates_def builtinPrices_def Let_def
      NormalizeModelID_def TrimSpace_visible visible_def ToLower_def lower_byte_def is_upper_def less_eq_char_def)


text \<open>The cache key of two model keys is the key of one model that contains a zero byte, so such a model's answer is
  served to the pair.\<close>

lemma cache_keys_collide:
  "join_keys (referencePriceKeys (''a'' @ CHR 0x00 # ''b'') []) = join_keys (referencePriceKeys ''a'' ''b'') \<and>
   referencePriceKeys (''a'' @ CHR 0x00 # ''b'') [] \<noteq> referencePriceKeys ''a'' ''b''"
proof -
  have t: "TrimSpace [CHR ''a'', CHR 0x00, CHR ''b''] = [CHR ''a'', CHR 0x00, CHR ''b'']" "TrimSpace ''a'' = ''a''" "TrimSpace ''b'' = ''b''"
    by code_simp+
  show ?thesis
    by (simp add: referencePriceKeys_def add_reference_key_def ModelWithoutThinkingSuffix_def ReferenceModelKey_def NormalizeModelID_def t
        ToLower_def lower_byte_def is_upper_def less_eq_char_def EqualFold_def Let_def join_keys_def)
qed

end
