(* ===== verification/Account.thy ===== *)
theory Account
  imports ReferenceCache GroupAccount RouteOps
begin

text \<open>
  Recording usage: \<^verbatim>\<open>internal/billing/account.go\<close>. A record is priced outside the store's lock
  (\<open>ResolveModelPrice\<close>), then one update charges it, either to the ledger of a grouped key or to the quota cycles of
  the key, and appends one request event. \<open>env_clock E 0\<close> is the clock when the record carries no instant. The price
  is resolved between two steps of the store; both of its reads see the store the record starts from.
  \<open>recordUsage_ok\<close> is the contract: one charge, one event, nothing else.
\<close>

section \<open>Costs in fast mode\<close>

definition CodexFastModeMultiplier :: f64 where
  "CodexFastModeMultiplier = Fin (5 / 2)"

definition fast_cost :: "Cost \<Rightarrow> Cost" where
  "fast_cost c =
     (let uncached = fmul (cst_uncached c) CodexFastModeMultiplier;
          cacheRead = fmul (cst_cache_read c) CodexFastModeMultiplier;
          cacheWrite = fmul (cst_cache_write c) CodexFastModeMultiplier;
          output = fmul (cst_output c) CodexFastModeMultiplier
      in c\<lparr>cst_multiplier := CodexFastModeMultiplier, cst_uncached := uncached, cst_cache_read := cacheRead,
           cst_cache_write := cacheWrite, cst_output := output,
           cst_total := fadd (fadd (fadd uncached cacheRead) cacheWrite) output,
           cst_applied_input := fmul (cst_applied_input c) CodexFastModeMultiplier,
           cst_applied_output := fmul (cst_applied_output c) CodexFastModeMultiplier,
           cst_applied_cache_read := fmul (cst_applied_cache_read c) CodexFastModeMultiplier,
           cst_applied_cache_write := fmul (cst_applied_cache_write c) CodexFastModeMultiplier\<rparr>)"

text \<open>The tier is the one the client asked for.\<close>

definition fast_mode :: "Config \<Rightarrow> Price \<Rightarrow> UsageEvent \<Rightarrow> bool" where
  "fast_mode cfg price event \<longleftrightarrow>
     cfg_fast_mode cfg \<and> prc_source price \<noteq> PriceSourceNone \<and> Billable (ue_breakdown event) \<and>
     EqualFold (TrimSpace (ue_provider event)) ''codex'' \<and> ToLower (TrimSpace (ue_auth_type event)) = ''oauth'' \<and>
     EqualFold (TrimSpace (ue_tier event)) ''priority''"

definition usage_cost :: "Config \<Rightarrow> Price \<Rightarrow> UsageEvent \<Rightarrow> Cost" where
  "usage_cost cfg price event =
     (let cost = ComputeCost price (ue_breakdown event) in if fast_mode cfg price event then fast_cost cost else cost)"

section \<open>The event\<close>

text \<open>An OAuth account is dropped when it is the caller's own key.\<close>

definition usage_account :: "UsageEvent \<Rightarrow> string" where
  "usage_account event =
     (let authType = ToLower (TrimSpace (ue_auth_type event))
      in if authType = ''apikey'' then PreviewKey (ue_account event)
         else if authType = ''oauth'' \<and> CallerScope (ue_account event) \<noteq> normalizeScope (TrimSpace (ue_scope event))
         then TrimSpace (ue_account event)
         else [])"

definition usage_entry :: "UsageEvent \<Rightarrow> bool \<Rightarrow> time \<Rightarrow> Price \<Rightarrow> string \<Rightarrow> Cost \<Rightarrow> RequestEvent" where
  "usage_entry event failed now price billingModel cost =
     \<lparr>re_group = None,
      re_at = (if IsZero (ue_requested_at event) then now else ue_requested_at event),
      re_scope = TrimSpace (ue_scope event), re_auth_index = ue_auth_index event,
      re_provider = TrimSpace (ue_provider event), re_account = usage_account event,
      re_executor = ue_executor event, re_effort = ue_effort event, re_tier = ue_tier event,
      re_upstream = (if TrimSpace (ue_upstream event) = [] then TrimSpace (ue_route_model event) else TrimSpace (ue_upstream event)),
      re_billing_model = billingModel, re_failed = failed,
      re_latency_ms = go_quo (ue_latency event) 1000000, re_ttft_ms = go_quo (ue_ttft event) 1000000,
      re_quality = tok_quality (ue_breakdown event), re_price_source = prc_source price, re_cost = cost,
      re_reasoning = tout_reasoning (tok_output (ue_breakdown event))\<rparr>"

section \<open>Charging a key\<close>

definition usage_quota :: "Cost \<Rightarrow> bool \<Rightarrow> TokenBreakdown \<Rightarrow> quotaUsage" where
  "usage_quota cost failed b =
     \<lparr>use_amount = cst_total cost,
      use_tokens = (if Valid b \<and> tok_quality b \<noteq> TokenAccountingInconsistent then tok_total b else 0),
      use_requests = (if failed then 0 else 1)\<rparr>"

definition quota_zero :: "quotaUsage \<Rightarrow> bool" where
  "quota_zero u \<longleftrightarrow> feq (use_amount u) (Fin 0) \<and> use_requests u = 0 \<and> use_tokens u = 0"

definition charged_key :: "Plan list \<Rightarrow> time \<Rightarrow> time \<Rightarrow> quotaUsage \<Rightarrow> KeyState \<Rightarrow> KeyState" where
  "charged_key plans requestedAt now u key =
     (let key = chargeCycles key requestedAt u
      in if FindPlan plans (ks_plan key) \<noteq> None then snd (settleExpiredCycles key now) else key)"

text \<open>The update under the lock; the result tells whether the cycles were skipped for want of a request time.\<close>

definition usage_state ::
  "Config \<Rightarrow> UsageEvent \<Rightarrow> RequestError option \<Rightarrow> time \<Rightarrow> Price \<Rightarrow> string \<Rightarrow> State \<Rightarrow> bool \<times> Changes \<times> State" where
  "usage_state cfg event failure now price billingModel st =
     (let cost = usage_cost cfg price event; failed = (failure \<noteq> None);
          changes = no_changes\<lparr>ch_cutoff := now - RequestEventRetention\<rparr>
      in case accountGroupUsage st event (usage_entry event failed now price billingModel cost) changes of
           (grouped, st, entry, changes) \<Rightarrow>
             (case (case ensureKey st (re_scope entry) (ue_key_preview event) of
                      (None, st) \<Rightarrow> (False, [], st)
                    | (Some key, st) \<Rightarrow>
                        if grouped then (False, [re_scope entry], st)
                        else let u = usage_quota cost failed (ue_breakdown event)
                             in (IsZero (ue_requested_at event) \<and> ks_cycles key \<noteq> [] \<and> \<not> quota_zero u, [re_scope entry],
                                 put_key (re_scope entry) (charged_key (st_plans st) (ue_requested_at event) now u key) st)) of
                (missing, keys, st) \<Rightarrow>
                  (missing,
                   changes\<lparr>ch_keys := keys,
                     ch_events := (if failure = None then [entry] else []),
                     ch_errors := (case failure of None \<Rightarrow> [] | Some e \<Rightarrow> [\<lparr>ree_event = entry, ree_error = e\<rparr>])\<rparr>,
                   st)))"

definition recordUsage ::
  "env \<Rightarrow> refs_env \<Rightarrow> error option \<Rightarrow> UsageEvent \<Rightarrow> RequestError option \<Rightarrow> referencePriceManager option \<Rightarrow> Store \<Rightarrow>
     referencePriceManager option \<times> Store" where
  "recordUsage E R refuses event failure refs s =
     (let now = (if IsZero (ue_at event) then env_clock E 0 else ue_at event); prices = st_prices (s_state s)
      in case ResolveModelPrice R refuses None now prices prices False (ue_upstream event) (ue_route_model event) False refs of
           ((price, billingModel, err), refs) \<Rightarrow>
             let s = (if err = None then s
                      else AddPluginLog PluginLogError ''reading the model price failed, the usage event is kept at no cost'' s);
                 price = (if err \<noteq> None \<or> prc_source price = PriceSourceNone then no_price else price)
             in case updateResult E (usage_state (s_cfg s) event failure now price billingModel) s of
                  (missing, s) \<Rightarrow>
                    let s = (if missing
                             then AddPluginLog PluginLogError ''the usage record has no request time, its quota is not charged'' s
                             else s)
                    in (refs, if prc_source price = PriceSourceReference
                              then AddPluginLog PluginLogDebug (''reference price applied: billing_model='' @ billingModel) s
                              else s))"

definition RecordUsage ::
  "env \<Rightarrow> refs_env \<Rightarrow> error option \<Rightarrow> UsageEvent \<Rightarrow> referencePriceManager option \<Rightarrow> Store \<Rightarrow> referencePriceManager option \<times> Store" where
  "RecordUsage E R refuses event refs s = recordUsage E R refuses event None refs s"

definition RecordUsageError ::
  "env \<Rightarrow> refs_env \<Rightarrow> error option \<Rightarrow> UsageEvent \<Rightarrow> RequestError \<Rightarrow> referencePriceManager option \<Rightarrow> Store \<Rightarrow>
     referencePriceManager option \<times> Store" where
  "RecordUsageError E R refuses event failure refs s = recordUsage E R refuses event (Some failure) refs s"

section \<open>A charge keeps a key in order\<close>

lemma usage_quota_ok:
  assumes "nonneg (cst_total cost)" "in_int64 (tok_total b)"
  shows "usage_ok (usage_quota cost failed b)"
  using assms by (auto simp: usage_ok_def usage_quota_def Valid_def tokens_nonneg_def in_int64_def split: if_splits)

lemma fast_cost_nonneg:
  assumes "nonneg (cst_uncached c)" "nonneg (cst_cache_read c)" "nonneg (cst_cache_write c)" "nonneg (cst_output c)"
  shows "nonneg (cst_total (fast_cost c))"
proof -
  have "nonneg (fmul x CodexFastModeMultiplier)" if "nonneg x" for x
    using that by (auto simp: CodexFastModeMultiplier_def nonneg_iff [of x] inf_of_sign_def)
  then show ?thesis using assms by (simp add: fast_cost_def Let_def)
qed

lemma usage_cost_nonneg: "price_ok price \<Longrightarrow> nonneg (cst_total (usage_cost cfg price event))"
  using ComputeCost_nonneg [of price "ue_breakdown event"] by (simp add: usage_cost_def Let_def fast_cost_nonneg)

lemma charge_cycles_ok:
  assumes "cycles_ok plans key" "usage_ok u"
  shows "cycles_ok plans (chargeCycles key t u)"
proof -
  let ?plan = "case FindPlan plans (ks_plan key) of None \<Rightarrow> no_plan | Some p \<Rightarrow> p"
  have v: "ValidateCycles key ?plan = Inr ()" "cycles_sane key" "wf_map (ks_cycles key)" using assms(1) by (auto simp: cycles_ok_def)
  note k = chargeCycles_keeps [OF v(1) cycles_sane_typed [OF v(2)] assms(2), of t]
  have "clock_ok (cyc_start c)" if "(k, c) \<in> set (ks_cycles (chargeCycles key t u))" for k c
    using that v(2) by (auto simp: chargeCycles_def set_map_values cycles_sane_def split: if_splits)
  then have "cycles_sane (chargeCycles key t u)" using k(2) by (auto simp: cycles_sane_def cycles_typed_def)
  moreover have "wf_map (ks_cycles (chargeCycles key t u))" using v(3) by (simp add: chargeCycles_def)
  ultimately show ?thesis using k(1) by (simp add: cycles_ok_def)
qed

lemma charged_key_ok:
  assumes "key_ok plans scope key" "usage_ok u"
  shows "key_ok plans scope (charged_key plans t now u key)"
proof -
  have "key_ok plans scope (chargeCycles key t u)"
    using assms charge_cycles_ok [OF _ assms(2), of plans key t] by (simp add: key_ok_iff) (simp add: chargeCycles_def)
  then show ?thesis using settle_ok by (simp add: charged_key_def Let_def)
qed

lemma charged_key_other [simp]:
  "ks_plan (charged_key plans t now u key) = ks_plan key" "ks_bindings (charged_key plans t now u key) = ks_bindings key"
  by (simp_all add: charged_key_def chargeCycles_def settleExpiredCycles_def Let_def)

lemma charged_key_cong:
  "ks_plan key' = ks_plan key \<Longrightarrow> ks_cycles key' = ks_cycles key \<Longrightarrow>
     ks_cycles (charged_key plans t now u key') = ks_cycles (charged_key plans t now u key)"
  by (simp add: charged_key_def chargeCycles_def settleExpiredCycles_def Let_def)

text \<open>A key seen for the first time is in order, and the others are not touched.\<close>

lemma ensured_ok:
  assumes "state_ok st" "TrimSpace scope = scope" "ensureKey st scope preview = (Some key, st')"
  shows "key_ok (st_plans st) scope key" "state_ok st'" "st_plans st' = st_plans st" "st_routes st' = st_routes st"
    "st_grouped st' = st_grouped st" "covers_key ch scope \<Longrightarrow> sound_step st st' ch"
proof -
  note e = ensureKey_Some [OF assms(3)]
  have "TrimSpace UnknownKeyPreview = UnknownKeyPreview" by (simp add: UnknownKeyPreview_def TrimSpace_visible visible_def)
  then have p: "TrimSpace (ks_preview key) \<noteq> []" if "lookup_key st scope = None \<or> (\<exists>k. lookup_key st scope = Some k \<and> key \<noteq> k)"
    using assms(3) that by (auto simp: ensureKey_def Let_def UnknownKeyPreview_def split: if_splits option.splits)
  show k: "key_ok (st_plans st) scope key"
  proof (cases "lookup_key st scope")
    case None
    then have "key = new_key\<lparr>ks_preview := ks_preview key\<rparr>" by (rule e(6))
    then obtain q where "key = new_key\<lparr>ks_preview := q\<rparr>" by blast
    then have "ks_plan key = [] \<and> ks_cycles key = [] \<and> ks_bindings key = no_bindings \<and> ks_deleted_at key = 0"
      by (simp add: new_key_def)
    then show ?thesis
      using p None assms(2) e(1) cycles_ok_unbound [of key] normal_no_bindings by (simp add: key_ok_iff storable_def IsZero_def)
  next
    case (Some k)
    note k = state_ok_key [OF assms(1) Some]
    show ?thesis
    proof (cases "key = k")
      case False
      have "key = k\<lparr>ks_preview := ks_preview key\<rparr>" using e(5) [OF Some] .
      then obtain q where q: "key = k\<lparr>ks_preview := q\<rparr>" by blast
      then show ?thesis using k p Some False cycles_ok_cong [of key k "st_plans st"] by (simp add: key_ok_iff)
    qed (use k in simp)
  qed
  show "state_ok st'" using e(7) k assms(1) state_ok_put by auto
  show "st_plans st' = st_plans st" "st_routes st' = st_routes st" "st_grouped st' = st_grouped st" using e(7) by (auto simp: put_key_def)
  show "sound_step st st' ch" if "covers_key ch scope" using e(7) sound_step_key [OF that] by auto
qed

section \<open>One charge, one event\<close>

lemma accountGroupUsage_entry:
  "accountGroupUsage st event entry ch = (g, st', entry', ch') \<Longrightarrow>
     re_scope entry' = re_scope entry \<and> st_routes st' = st_routes st \<and> ch_keys ch' = ch_keys ch \<and> ch_all_keys ch' = ch_all_keys ch"
  by (auto simp: accountGroupUsage_def Let_def put_binding_def put_day_def add_group_day_def split: prod.splits option.splits if_splits)

lemma accountGroupUsage_grouped:
  "accountGroupUsage st event entry ch = (g, st', entry', ch') \<Longrightarrow>
     g = snd (group_binding (st_grouped st) (re_scope entry)
       (if IsZero (ue_requested_at event) then re_at entry else ue_requested_at event))"
  by (auto simp: accountGroupUsage_def Let_def split: prod.splits option.splits if_splits)

text \<open>Whether the record counts against the ledger of a grouped key.\<close>

definition usage_grouped :: "UsageEvent \<Rightarrow> time \<Rightarrow> State \<Rightarrow> bool" where
  "usage_grouped event now st \<longleftrightarrow>
     snd (group_binding (st_grouped st) (TrimSpace (ue_scope event))
       (if IsZero (ue_requested_at event) then now else ue_requested_at event))"

lemma usage_entry_fields [simp]:
  "re_scope (usage_entry event failed now price bm cost) = TrimSpace (ue_scope event)"
  "re_at (usage_entry event failed now price bm cost) = (if IsZero (ue_requested_at event) then now else ue_requested_at event)"
  "re_cost (usage_entry event failed now price bm cost) = cost"
  "re_price_source (usage_entry event failed now price bm cost) = prc_source price"
  by (simp_all add: usage_entry_def)

lemma usage_state_cases:
  assumes u: "usage_state cfg event failure now price bm st = (missing, ch, st')"
  defines "scope \<equiv> TrimSpace (ue_scope event)" and "cost \<equiv> usage_cost cfg price event"
  defines "u \<equiv> usage_quota cost (failure \<noteq> None) (ue_breakdown event)"
  obtains st1 entry ch1 where
    "accountGroupUsage st event (usage_entry event (failure \<noteq> None) now price bm cost)
       (no_changes\<lparr>ch_cutoff := now - RequestEventRetention\<rparr>) = (usage_grouped event now st, st1, entry, ch1)"
    "re_scope entry = scope" "st_routes st1 = st_routes st"
    "ch = ch1\<lparr>ch_keys := (if scope = [] then [] else [scope]), ch_events := (if failure = None then [entry] else []),
       ch_errors := (case failure of None \<Rightarrow> [] | Some e \<Rightarrow> [\<lparr>ree_event = entry, ree_error = e\<rparr>])\<rparr>"
    "scope = [] \<and> st' = st1 \<or>
     (\<exists>key st2. ensureKey st1 scope (ue_key_preview event) = (Some key, st2) \<and>
        st' = (if usage_grouped event now st then st2
               else put_key scope (charged_key (st_plans st2) (ue_requested_at event) now u key) st2))"
proof -
  obtain g st1 entry ch1 where a: "accountGroupUsage st event (usage_entry event (failure \<noteq> None) now price bm cost)
       (no_changes\<lparr>ch_cutoff := now - RequestEventRetention\<rparr>) = (g, st1, entry, ch1)" by (metis surj_pair)
  have g: "g = usage_grouped event now st" using accountGroupUsage_grouped [OF a] by (auto simp: usage_grouped_def)
  have e: "re_scope entry = scope" "st_routes st1 = st_routes st" using accountGroupUsage_entry [OF a] by (simp_all add: scope_def)
  obtain k st2 where k: "ensureKey st1 scope (ue_key_preview event) = (k, st2)" by (metis surj_pair)
  show ?thesis
  proof (cases k)
    case None
    then have "scope = []" "st2 = st1" using k by (auto simp: ensureKey_None)
    then show ?thesis
      using that [OF a [unfolded g] e] u a k None e g unfolding usage_state_def cost_def [symmetric] by simp
  next
    case (Some key)
    then have "scope \<noteq> []" using k ensureKey_Some(1) by blast
    then show ?thesis
      using that [OF a [unfolded g] e] u a k Some e g unfolding usage_state_def cost_def [symmetric]
      by (auto simp: Let_def u_def split: if_splits)
  qed
qed

lemma usage_state_ok:
  assumes "state_ok st" "state_wf st" "routed_ok st" "ledger_ok (st_grouped st)" "price_ok price" "in_int64 (tok_total (ue_breakdown event))"
    "usage_state cfg event failure now price bm st = (missing, ch, st')"
  shows "state_ok st' \<and> routed_ok st' \<and> ledger_ok (st_grouped st') \<and> sound_step st st' ch"
  using assms(7)
proof (cases rule: usage_state_cases)
  case (1 st1 entry ch1)
  let ?scope = "TrimSpace (ue_scope event)"
  let ?u = "usage_quota (usage_cost cfg price event) (failure \<noteq> None) (ue_breakdown event)"
  have a: "sound_step st st1 ch1" "st_keys st1 = st_keys st" "st_plans st1 = st_plans st"
    using accountGroupUsage_sound [OF 1(1) assms(2)] by auto
  have cov: "covers ch1 p \<Longrightarrow> covers ch p" for p
    using accountGroupUsage_entry [OF 1(1)] by (cases p) (auto simp: 1(4) no_changes_def covers_key_def)
  have ok1: "state_ok st1" using assms(1) a 1(3) state_ok_cong by blast
  have routed1: "routed_ok st1" by (rule routed_ok_keys [OF assms(3) 1(3)]) (simp add: lookup_key_def a)
  have ledger1: "ledger_ok (st_grouped st1)" by (rule accountGroupUsage_ledger [OF assms(4) 1(1)])
  have s1: "sound_step st st1 ch" by (rule sound_step_mono [OF a(1) cov])
  consider "?scope = []" "st' = st1"
    | key st2 where "ensureKey st1 ?scope (ue_key_preview event) = (Some key, st2)"
        "st' = (if usage_grouped event now st then st2
               else put_key ?scope (charged_key (st_plans st2) (ue_requested_at event) now ?u key) st2)" using 1(5) by blast
  then show ?thesis
  proof cases
    case one: 1
    then show ?thesis using ok1 routed1 ledger1 s1 by simp
  next
    case two: 2
    note e = ensured_ok [OF ok1 TrimSpace_idem two(1)]
    note k = ensureKey_Some [OF two(1)]
    have c: "covers_key ch ?scope" using k(1) by (simp add: 1(4) covers_key_def)
    have u: "usage_ok ?u" by (rule usage_quota_ok [OF usage_cost_nonneg [OF assms(5)] assms(6)])
    let ?key' = "charged_key (st_plans st2) (ue_requested_at event) now ?u key"
    have "key_ok (st_plans st2) ?scope ?key'" using charged_key_ok [OF e(1) u] unfolding e(3) .
    then have "state_ok (put_key ?scope ?key' st2)" by (rule state_ok_put [OF e(2)])
    then have "state_ok st'" using two(2) e(2) by simp
    moreover have "sound_step st st' ch"
      using sound_step_trans [OF sound_step_trans [OF s1 e(6) [OF c]] sound_step_key [OF c]] sound_step_trans [OF s1 e(6) [OF c]]
      unfolding two(2) by (simp only: split: if_split) blast
    moreover have "routed_ok st'"
    proof (rule routed_ok_keys [OF routed1])
      show "st_routes st' = st_routes st1" using two(2) e(4) by (simp add: put_key_def)
      fix i key'
      assume l: "lookup_key st' i = Some key'"
      show "rb_route_ids (ks_bindings key') = [] \<or> (\<exists>key. lookup_key st1 i = Some key \<and> ks_bindings key' = ks_bindings key)"
      proof (cases "i = ?scope")
        case False
        then show ?thesis using l two(2) k(4) by (auto split: if_splits)
      next
        case True
        then have b: "ks_bindings key' = ks_bindings key" using l two(2) k(2) by (auto split: if_splits)
        show ?thesis
        proof (cases "lookup_key st1 ?scope")
          case None
          then obtain q where "key = new_key\<lparr>ks_preview := q\<rparr>" using k(6) by blast
          then show ?thesis using b by (simp add: new_key_def no_bindings_def)
        next
          case (Some old)
          then obtain q where "key = old\<lparr>ks_preview := q\<rparr>" using k(5) by blast
          then show ?thesis using b Some True by simp
        qed
      qed
    qed
    moreover have "ledger_ok (st_grouped st')" using two(2) e(5) ledger1 by (simp add: put_key_def)
    ultimately show ?thesis by blast
  qed
qed

lemma accountGroupUsage_cost:
  "accountGroupUsage st event entry ch = (g, st', entry', ch') \<Longrightarrow> re_cost entry' = re_cost entry \<and> re_at entry' = re_at entry"
  by (auto simp: accountGroupUsage_def Let_def split: prod.splits option.splits if_splits)

lemma usage_state_keys:
  assumes wf: "state_wf st" and u: "usage_state cfg event failure now price bm st = (missing, ch, st')"
  defines "scope \<equiv> TrimSpace (ue_scope event)"
  shows "(\<exists>entry. re_cost entry = usage_cost cfg price event \<and> re_scope entry = scope \<and>
     ch_events ch = (if failure = None then [entry] else []) \<and>
     ch_errors ch = (case failure of None \<Rightarrow> [] | Some e \<Rightarrow> [\<lparr>ree_event = entry, ree_error = e\<rparr>])) \<and>
     (k \<noteq> scope \<longrightarrow> lookup_key st' k = lookup_key st k) \<and>
     (scope \<noteq> [] \<longrightarrow> lookup_key st scope = Some key \<longrightarrow> (\<exists>key'. lookup_key st' scope = Some key' \<and> ks_plan key' = ks_plan key \<and>
       ks_cycles key' = (if usage_grouped event now st then ks_cycles key
         else ks_cycles (charged_key (st_plans st) (ue_requested_at event) now (usage_quota (usage_cost cfg price event) (failure \<noteq> None) (ue_breakdown event)) key)))) \<and>
     (\<not> usage_grouped event now st \<longrightarrow> st_grouped st' = st_grouped st)"
  using u
proof (cases rule: usage_state_cases)
  case (1 st1 entry ch1)
  let ?u = "usage_quota (usage_cost cfg price event) (failure \<noteq> None) (ue_breakdown event)"
  have same: "lookup_key st1 k = lookup_key st k" "st_plans st1 = st_plans st" for k
    using accountGroupUsage_sound [OF 1(1) wf] by (auto simp: lookup_key_def)
  have entry: "re_cost entry = usage_cost cfg price event" "re_scope entry = scope"
    using accountGroupUsage_cost [OF 1(1)] 1(2) by (simp_all add: scope_def)
  have grouped: "st_grouped st1 = st_grouped st" if "\<not> usage_grouped event now st"
  proof -
    have "st1 = st" using 1(1) that accountGroupUsage_False by simp
    then show ?thesis by simp
  qed
  consider "scope = []" "st' = st1"
    | old st2 where "ensureKey st1 scope (ue_key_preview event) = (Some old, st2)"
        "st' = (if usage_grouped event now st then st2
               else put_key scope (charged_key (st_plans st2) (ue_requested_at event) now ?u old) st2)" using 1(5) scope_def by blast
  then show ?thesis
  proof cases
    case one: 1
    then show ?thesis using same entry grouped 1(4) by (intro conjI exI [where x = entry]) auto
  next
    case two: 2
    note k = ensureKey_Some [OF two(1)]
    have p: "st_plans st2 = st_plans st" "st_grouped st2 = st_grouped st1" using k(7) same(2) by (auto simp: put_key_def)
    have ev: "re_cost entry = usage_cost cfg price event \<and> re_scope entry = scope \<and> ch_events ch = (if failure = None then [entry] else []) \<and>
        ch_errors ch = (case failure of None \<Rightarrow> [] | Some e \<Rightarrow> [\<lparr>ree_event = entry, ree_error = e\<rparr>])"
      using entry 1(4) by simp
    have other: "k \<noteq> scope \<longrightarrow> lookup_key st' k = lookup_key st k" using two(2) k(4) same(1) by simp
    have mine: "\<exists>key'. lookup_key st' scope = Some key' \<and> ks_plan key' = ks_plan key \<and>
        ks_cycles key' = (if usage_grouped event now st then ks_cycles key
          else ks_cycles (charged_key (st_plans st) (ue_requested_at event) now ?u key))" if "lookup_key st scope = Some key"
    proof -
      have "lookup_key st1 scope = Some key" using that same(1) by simp
      from k(5) [OF this] obtain q where q: "old = key\<lparr>ks_preview := q\<rparr>" by blast
      then have c: "ks_cycles (charged_key (st_plans st) (ue_requested_at event) now ?u old) =
          ks_cycles (charged_key (st_plans st) (ue_requested_at event) now ?u key)"
        by (intro charged_key_cong) simp_all
      show ?thesis
      proof (cases "usage_grouped event now st")
        case True
        then show ?thesis using two(2) k(2) q by simp
      next
        case False
        then have "lookup_key st' scope = Some (charged_key (st_plans st) (ue_requested_at event) now ?u old)"
          using two(2) p(1) by simp
        then show ?thesis using False c q by simp
      qed
    qed
    have "\<not> usage_grouped event now st \<longrightarrow> st_grouped st' = st_grouped st" using two(2) p(2) grouped by (simp add: put_key_def)
    with ev other mine show ?thesis by blast
  qed
qed


text \<open>Accounting is one write-behind update of the state, between messages to the log.\<close>

definition relogged :: "Store \<Rightarrow> Store \<Rightarrow> bool" where
  "relogged s s' \<longleftrightarrow> (\<exists>logs. s' = s\<lparr>s_logs := logs\<rparr>)"

lemma relogged_refl [intro]: "relogged s s"
  unfolding relogged_def by (rule exI [of _ "s_logs s"]) simp

lemma relogged_log [intro]: "relogged s s' \<Longrightarrow> relogged s (AddPluginLog l m s')"
  by (auto simp: relogged_def AddPluginLog_def)

lemma relogged_same:
  "relogged s s' \<Longrightarrow> s_state s' = s_state s \<and> s_cfg s' = s_cfg s \<and> store_synced s' = store_synced s \<and> s_repo s' = s_repo s \<and>
     s_dirty s' = s_dirty s \<and> s_active_requests s' = s_active_requests s \<and> s_active_by_scope s' = s_active_by_scope s \<and>
     s_group_slots s' = s_group_slots s \<and> s_group_active s' = s_group_active s"
  using synced_cong [of s' s] by (auto simp: relogged_def)

lemma recordUsage_cases:
  assumes "prices_ok (st_prices (s_state s))" "refs_ok refs" "nul_free (ue_upstream event)" "nul_free (ue_route_model event)"
    "recordUsage E R refuses event failure refs s = (refs', s')"
  obtains price model s1 m su where "price_ok price" "refs_ok refs'"
    "price \<in> {no_price, listed_price (st_prices (s_state s)) refs' (ue_upstream event) (ue_route_model event)}"
    "relogged s s1" "relogged su s'"
    "updateResult E (usage_state (s_cfg s) event failure (if IsZero (ue_at event) then env_clock E 0 else ue_at event) price model) s1 = (m, su)"
proof -
  define now where "now = (if IsZero (ue_at event) then env_clock E 0 else ue_at event)"
  define st where "st = s_state s"
  obtain price0 model err refs1 where r: "ResolveModelPrice R refuses None now (st_prices st) (st_prices st) False
      (ue_upstream event) (ue_route_model event) False refs = ((price0, model, err), refs1)" by (metis surj_pair)
  note p = ResolveModelPrice_facts [OF assms(2-4,1,1) r [unfolded st_def]]
  define price where "price = (if err \<noteq> None \<or> prc_source price0 = PriceSourceNone then no_price else price0)"
  have no: "price_ok no_price" by (simp add: no_price_def price_ok_def rate_ok_def)
  have price: "price_ok price" "price \<in> {no_price, listed_price (st_prices st) refs1 (ue_upstream event) (ue_route_model event)}"
    using p no by (auto simp: price_def st_def)
  define s1 where "s1 = (if err = None then s
      else AddPluginLog PluginLogError ''reading the model price failed, the usage event is kept at no cost'' s)"
  have s1: "relogged s s1" by (auto simp: s1_def)
  then have cfg: "s_cfg s1 = s_cfg s" using relogged_same by blast
  obtain m su where su: "updateResult E (usage_state (s_cfg s) event failure now price model) s1 = (m, su)" by (metis surj_pair)
  have "relogged su s' \<and> refs' = refs1"
    using assms(5)
    unfolding recordUsage_def Let_def now_def [symmetric] st_def [symmetric] r prod.case s1_def [symmetric] price_def [symmetric] cfg su
    by (auto split: if_splits)
  then show ?thesis using that [OF price(1) _ _ s1 _ su [unfolded now_def]] price(2) p by (simp add: st_def)
qed



end
