(* ===== verification/PriceTable.thy ===== *)
theory PriceTable
  imports Store
begin

text \<open>
  Custom prices in memory and in the database (\<^verbatim>\<open>internal/billing/prices.go\<close>, \<^verbatim>\<open>internal/sqlite/prices.go\<close>). Prices are written at
  once, one statement per edit, outside the changes a store collects; \<open>refused\<close> is the error of the engine, if any.
\<close>

section \<open>The table\<close>

text \<open>The column of the model compares without case, and an update keeps the row's position and spelling.\<close>

definition put_price_row :: "CustomPrice \<Rightarrow> CustomPrice list \<Rightarrow> CustomPrice list" where
  "put_price_row p rows =
     (if list_ex (\<lambda>r. EqualFold (cp_model r) (cp_model p)) rows
      then map (\<lambda>r. if EqualFold (cp_model r) (cp_model p) then r\<lparr>cp_rates := cp_rates p\<rparr> else r) rows
      else rows @ [p])"

definition db_UpsertPrice :: "error option \<Rightarrow> CustomPrice \<Rightarrow> disk \<Rightarrow> error + disk" where
  "db_UpsertPrice refused p d =
     try_bind (CustomPrice_Validate p) (\<lambda>_.
       case refused of
         Some e \<Rightarrow> Inl e
       | None \<Rightarrow> Inr (d\<lparr>dk_prices := put_price_row p (dk_prices d)\<rparr>))"

definition db_DeletePrice :: "error option \<Rightarrow> string \<Rightarrow> disk \<Rightarrow> error + disk" where
  "db_DeletePrice refused model d =
     (case refused of
        Some e \<Rightarrow> Inl e
      | None \<Rightarrow> Inr (d\<lparr>dk_prices := filter (\<lambda>r. \<not> EqualFold (cp_model r) model) (dk_prices d)\<rparr>))"

section \<open>The store\<close>

definition Store_UpsertPrice :: "error option \<Rightarrow> CustomPrice \<Rightarrow> Store \<Rightarrow> (error + CustomPrice) \<times> Store" where
  "Store_UpsertPrice refused price0 s =
     (let price = price0\<lparr>cp_model := TrimSpace (cp_model price0)\<rparr>
      in case CustomPrice_Validate price of
           Inl e \<Rightarrow> (Inl e, s)
         | Inr _ \<Rightarrow>
             let prices = st_prices (s_state s);
                 key = NormalizeModelID (cp_model price);
                 price = (case map_of prices key of Some existing \<Rightarrow> price\<lparr>cp_model := cp_model existing\<rparr> | None \<Rightarrow> price);
                 published = s\<lparr>s_state := (s_state s)\<lparr>st_prices := AList.update key price prices\<rparr>\<rparr>
             in case s_repo s of
                  None \<Rightarrow> (Inr price, published)
                | Some d \<Rightarrow>
                    (case db_UpsertPrice refused price d of
                       Inl e \<Rightarrow> (Inl e, s)
                     | Inr d' \<Rightarrow> (Inr price, published\<lparr>s_repo := Some d'\<rparr>)))"

definition Store_DeletePrice :: "error option \<Rightarrow> string \<Rightarrow> Store \<Rightarrow> (error + unit) \<times> Store" where
  "Store_DeletePrice refused model s =
     (let prices = st_prices (s_state s); key = NormalizeModelID model
      in case map_of prices key of
           None \<Rightarrow> (Inl (notFoundf ''custom price does not exist''), s)
         | Some price \<Rightarrow>
             let published = s\<lparr>s_state := (s_state s)\<lparr>st_prices := AList.delete key prices\<rparr>\<rparr>
             in case s_repo s of
                  None \<Rightarrow> (Inr (), published)
                | Some d \<Rightarrow>
                    (case db_DeletePrice refused (cp_model price) d of
                       Inl e \<Rightarrow> (Inl e, s)
                     | Inr d' \<Rightarrow> (Inr (), published\<lparr>s_repo := Some d'\<rparr>)))"

section \<open>The table holds the prices in memory\<close>

definition price_rows_ok :: "CustomPrice list \<Rightarrow> CustomPrice smap \<Rightarrow> bool" where
  "price_rows_ok rows prices \<longleftrightarrow> distinct (map (\<lambda>r. NormalizeModelID (cp_model r)) rows) \<and> set rows = snd ` set prices"

lemma price_rows_same:
  assumes "prices_ok prices" "price_rows_ok rows prices" "map_of prices k = Some p"
  shows "p \<in> set rows \<and> (\<forall>r \<in> set rows. NormalizeModelID (cp_model r) = k \<longleftrightarrow> r = p)"
proof -
  have p: "p \<in> set rows" using assms(2) map_of_SomeD [OF assms(3)] by (force simp: price_rows_ok_def)
  moreover have "NormalizeModelID (cp_model p) = k" using prices_okD [OF assms(1,3)] by blast
  ultimately show ?thesis
    using assms(2) unfolding price_rows_ok_def distinct_map by (metis inj_onD)
qed

lemma price_rows_trimmed:
  assumes "prices_ok prices" "price_rows_ok rows prices" "r \<in> set rows"
  shows "TrimSpace (cp_model r) = cp_model r \<and> map_of prices (NormalizeModelID (cp_model r)) = Some r"
proof -
  obtain k where k: "(k, r) \<in> set prices" using assms(2,3) by (auto simp: price_rows_ok_def)
  then have "map_of prices k = Some r" using assms(1) by (simp add: prices_ok_def wf_map_mem_iff)
  then show ?thesis using prices_okD [OF assms(1)] by blast
qed

text \<open>Reading the table back gives the prices in memory.\<close>

lemma map_of_load:
  "distinct (map f rows) \<Longrightarrow> (\<And>r. r \<in> set rows \<Longrightarrow> map_of m (f r) = None) \<Longrightarrow>
     map_of (foldl (\<lambda>m r. AList.update (f r) r m) m rows) k =
       (case find (\<lambda>r. f r = k) rows of Some r \<Rightarrow> Some r | None \<Rightarrow> map_of m k)"
proof (induction rows arbitrary: m)
  case (Cons a rows)
  have "map_of (AList.update (f a) a m) (f r) = None" if "r \<in> set rows" for r
  proof -
    have "f r \<in> f ` set rows" using that by (rule imageI)
    then have "f r \<noteq> f a" using Cons.prems(1) by auto
    then show ?thesis using Cons.prems(2) that by simp
  qed
  then have IH: "map_of (foldl (\<lambda>m r. AList.update (f r) r m) m (a # rows)) k =
      (case find (\<lambda>r. f r = k) rows of Some r \<Rightarrow> Some r | None \<Rightarrow> map_of (AList.update (f a) a m) k)"
    using Cons.IH [of "AList.update (f a) a m"] Cons.prems(1) by simp
  show ?case
  proof (cases "f a = k")
    case True
    have "f r \<noteq> k" if "r \<in> set rows" for r using Cons.prems(1) True imageI [OF that, of f] by auto
    then have "\<forall>r \<in> set rows. f r \<noteq> k" by blast
    then have "find (\<lambda>r. f r = k) rows = None" by (simp add: find_None_all)
    with IH True show ?thesis by simp
  qed (use IH in \<open>simp split: option.split\<close>)
qed simp

lemma loadPrices_ok:
  assumes "prices_ok prices" "price_rows_ok (dk_prices d) prices"
  shows "map_of (loadPrices d) k = map_of prices k"
proof -
  let ?f = "\<lambda>r. NormalizeModelID (cp_model r)"
  have l: "map_of (loadPrices d) k = (case find (\<lambda>r. ?f r = k) (dk_prices d) of Some r \<Rightarrow> Some r | None \<Rightarrow> None)"
    unfolding loadPrices_def using map_of_load [of ?f "dk_prices d" "[]" k] assms(2) by (simp add: price_rows_ok_def split: option.split)
  show ?thesis
  proof (cases "find (\<lambda>r. ?f r = k) (dk_prices d)")
    case None
    then have "map_of prices k = None" using price_rows_same [OF assms] by (cases "map_of prices k") (auto simp: find_None_all)
    then show ?thesis by (simp add: l None)
  next
    case (Some r)
    then have "r \<in> set (dk_prices d) \<and> ?f r = k" using find_Some_prop by fast
    then show ?thesis using price_rows_trimmed [OF assms] by (auto simp: l Some)
  qed
qed

text \<open>One row is updated in place, or one is added.\<close>

lemma put_price_row_ok:
  assumes ok: "prices_ok prices" "price_rows_ok rows prices" and p: "TrimSpace (cp_model p) = cp_model p"
    and k: "k = NormalizeModelID (cp_model p)" and same: "\<And>old. map_of prices k = Some old \<Longrightarrow> cp_model p = cp_model old"
  shows "price_rows_ok (put_price_row p rows) (AList.update k p prices)"
proof -
  have wf: "wf_map prices" using ok(1) by (simp add: prices_ok_def)
  have vals: "r \<in> snd ` set m \<longleftrightarrow> (\<exists>j. map_of m j = Some r)" if "wf_map m" for r and m :: "CustomPrice smap"
    using wf_map_mem_iff [OF that] by force
  have upd: "snd ` set (AList.update k p prices) = insert p {r. \<exists>j. j \<noteq> k \<and> map_of prices j = Some r}"
    using wf by (intro set_eqI) (auto simp: vals split: if_splits)
  have fold: "EqualFold (cp_model r) (cp_model p) \<longleftrightarrow> NormalizeModelID (cp_model r) = k" if "r \<in> set rows" for r
    using NormalizeModelID_fold price_rows_trimmed [OF ok that] p k by blast
  have mem: "r \<in> set rows \<longleftrightarrow> map_of prices (NormalizeModelID (cp_model r)) = Some r" for r
    using price_rows_trimmed [OF ok] price_rows_same [OF ok] by blast
  show ?thesis
  proof (cases "map_of prices k")
    case None
    then have none: "NormalizeModelID (cp_model r) \<noteq> k" if "r \<in> set rows" for r using price_rows_trimmed [OF ok that] by auto
    then have "put_price_row p rows = rows @ [p]" using fold by (auto simp: put_price_row_def list_ex_iff)
    moreover have "set rows = {r. \<exists>j. j \<noteq> k \<and> map_of prices j = Some r}"
    proof (rule set_eqI)
      fix r
      have "r \<in> set rows \<longleftrightarrow> (\<exists>j. map_of prices j = Some r)" using ok(2) vals [OF wf] by (simp add: price_rows_ok_def)
      also have "\<dots> \<longleftrightarrow> (\<exists>j. j \<noteq> k \<and> map_of prices j = Some r)" using None by (metis option.distinct(1))
      finally show "r \<in> set rows \<longleftrightarrow> r \<in> {r. \<exists>j. j \<noteq> k \<and> map_of prices j = Some r}" by simp
    qed
    ultimately have "set (put_price_row p rows) = snd ` set (AList.update k p prices)" by (simp add: upd)
    moreover have "distinct (map (\<lambda>r. NormalizeModelID (cp_model r)) (put_price_row p rows))"
    proof -
      have "NormalizeModelID (cp_model p) \<notin> (\<lambda>r. NormalizeModelID (cp_model r)) ` set rows"
      proof
        assume "NormalizeModelID (cp_model p) \<in> (\<lambda>r. NormalizeModelID (cp_model r)) ` set rows"
        then obtain r where "r \<in> set rows" "NormalizeModelID (cp_model p) = NormalizeModelID (cp_model r)" by (rule imageE)
        then show False using none [of r] by (simp add: k)
      qed
      then show ?thesis using ok(2) by (simp add: \<open>put_price_row p rows = rows @ [p]\<close> price_rows_ok_def)
    qed
    ultimately show ?thesis by (simp add: price_rows_ok_def)
  next
    case (Some old)
    note s = price_rows_same [OF ok Some]
    have m: "cp_model p = cp_model old" by (rule same [OF Some])
    then have rates: "old\<lparr>cp_rates := cp_rates p\<rparr> = p" by (cases old; cases p) simp
    have put: "put_price_row p rows = map (\<lambda>r. if r = old then p else r) rows"
      using s fold rates by (auto simp: put_price_row_def list_ex_iff)
    have key: "NormalizeModelID (cp_model (if r = old then p else r)) = NormalizeModelID (cp_model r)" for r using m by simp
    have "set (put_price_row p rows) = insert p (set rows - {old})" using s by (auto simp: put)
    moreover have "set rows - {old} = {r. \<exists>j. j \<noteq> k \<and> map_of prices j = Some r}"
    proof (rule set_eqI)
      fix r
      have "r \<in> set rows \<longleftrightarrow> (\<exists>j. map_of prices j = Some r)" using ok(2) vals [OF wf] by (simp add: price_rows_ok_def)
      moreover have "j = k" if "map_of prices j = Some old" for j
        using prices_okD [OF ok(1) that] prices_okD [OF ok(1) Some] by simp
      moreover have "map_of prices j = Some r \<longleftrightarrow> j = k \<and> r = old \<or> j \<noteq> k \<and> map_of prices j = Some r" for j using Some by auto
      ultimately show "r \<in> set rows - {old} \<longleftrightarrow> r \<in> {r. \<exists>j. j \<noteq> k \<and> map_of prices j = Some r}" by simp blast
    qed
    ultimately show ?thesis using ok(2) by (simp add: price_rows_ok_def upd put key comp_def)
  qed
qed

section \<open>Saving leaves the prices alone\<close>

lemma saveKeys_wf: "saveKeys st ks d = Inr d' \<Longrightarrow> wf_map (dk_keys d) \<Longrightarrow> wf_map (dk_keys d')"
proof (induction ks arbitrary: d)
  case (Cons k ks)
  then obtain d1 where d1: "saveKey k (lookup_key st k) d = Inr d1" "saveKeys st ks d1 = Inr d'" by auto
  have "wf_map (dk_keys d1)" using d1(1) Cons.prems(2) by (auto simp: saveKey_def split: option.splits if_splits)
  with Cons.IH d1(2) show ?case by blast
qed simp

lemma foldl_save_group_other:
  "dk_keys (foldl (\<lambda>d i. save_group d (f i)) d is) = dk_keys d" "dk_prices (foldl (\<lambda>d i. save_group d (f i)) d is) = dk_prices d"
  by (induction "is" arbitrary: d) (simp_all add: save_group_def)

lemma saveGroupDays_other: "saveGroupDays st ks d = Inr d' \<Longrightarrow> dk_keys d' = dk_keys d \<and> dk_prices d' = dk_prices d"
  by (induction ks arbitrary: d) (auto split: option.splits)

lemma saveGroupedConfig_other:
  "dk_keys (saveGroupedConfig st d) = dk_keys d" "dk_prices (saveGroupedConfig st d) = dk_prices d"
  by (simp_all add: saveGroupedConfig_def Let_def foldl_save_group_plan foldl_save_binding foldl_save_group_other)

lemma Save_frame:
  assumes "Save refuses st ch d = Inr d'"
  shows "dk_prices d' = dk_prices d \<and> (wf_map (dk_keys d) \<longrightarrow> wf_map (dk_keys d'))"
proof -
  have ev: "dk_prices (foldl (\<lambda>d e. snd (appendRequestEvent d (f e))) d es) = dk_prices d"
    "dk_keys (foldl (\<lambda>d e. snd (appendRequestEvent d (f e))) d es) = dk_keys d" for f d es
    by (induction es arbitrary: d) (simp_all add: appendRequestEvent_def Let_def)
  have er: "dk_prices (foldl appendRequestErrorEvent d es) = dk_prices d" "dk_keys (foldl appendRequestErrorEvent d es) = dk_keys d" for d es
    by (induction es arbitrary: d) (simp_all add: appendRequestErrorEvent_def appendRequestEvent_def Let_def)
  have pr: "dk_prices (pruneRequestEvents t d) = dk_prices d" for t d by (simp add: pruneRequestEvents_def Let_def)
  obtain d1 where d1: "saveStateTables st ch d = Inr d1" "dk_prices d' = dk_prices d1" "dk_keys d' = dk_keys d1"
    using assms by (auto simp: Save_def Let_def ev er pr split: option.splits)
  obtain d2 d3 d4 where s: "saveKeys st (if ch_all_keys ch then mkeys (st_keys st) else ch_keys ch) d = Inr d2"
    "(if ch_plans ch then replacePlans st d2 else Inr d2) = Inr d3"
    "d4 = (let d = (if ch_routes ch then replaceRoutes st d3 else d3)
           in if ch_credentials ch then replaceConfigCredentials st d else d)"
    "saveGroupedState st ch d4 = Inr d1"
    using d1(1) unfolding saveStateTables_def Let_def try_bind_eq_Inr by blast
  have p2: "dk_prices d2 = dk_prices d" using saveKeys_Inr [OF s(1)] by auto
  have k3: "dk_keys d3 = dk_keys d2" "dk_prices d3 = dk_prices d2"
    using s(2) by (auto simp: replacePlans_def split: if_splits)
  have k4: "dk_keys d4 = dk_keys d3" "dk_prices d4 = dk_prices d3"
    by (simp_all add: s(3) Let_def replaceRoutes_def replaceConfigCredentials_def)
  have "dk_keys d1 = dk_keys d4 \<and> dk_prices d1 = dk_prices d4"
  proof -
    obtain d5 where d5: "saveGroupDays st (ch_group_days ch) (if ch_grouped_config ch then saveGroupedConfig st d4 else d4) = Inr d5"
      "dk_keys d1 = dk_keys d5" "dk_prices d1 = dk_prices d5"
      using s(4) unfolding saveGroupedState_def Let_def try_bind_eq_Inr by auto
    from saveGroupDays_other [OF d5(1)] d5(2,3) show ?thesis by (simp add: saveGroupedConfig_other split: if_splits)
  qed
  then show ?thesis using d1(2,3) p2 k3 k4 saveKeys_wf [OF s(1)] by simp
qed

text \<open>The database in order, beside the parts that are in sync: its keys are distinct, its prices are those in memory.\<close>

definition db_ok :: "Store \<Rightarrow> bool" where
  "db_ok s \<longleftrightarrow> (\<forall>d. s_repo s = Some d \<longrightarrow> wf_map (dk_keys d) \<and> price_rows_ok (dk_prices d) (st_prices (s_state s)))"

lemma db_ok_saved:
  assumes "db_ok s" "st_prices (s_state s') = st_prices (s_state s)"
    "s_repo s' = s_repo s \<or> (\<exists>refuses st ch d d'. s_repo s = Some d \<and> Save refuses st ch d = Inr d' \<and> s_repo s' = Some d')"
  shows "db_ok s'"
  using assms(3)
proof
  assume "s_repo s' = s_repo s"
  then show ?thesis using assms(1,2) by (simp add: db_ok_def)
next
  assume "\<exists>refuses st ch d d'. s_repo s = Some d \<and> Save refuses st ch d = Inr d' \<and> s_repo s' = Some d'"
  then show ?thesis using assms(1,2) Save_frame by (fastforce simp: db_ok_def)
qed

lemma updateResult_repo:
  "s_repo (snd (updateResult E fn s)) = s_repo s \<or>
   (\<exists>refuses st ch d d'. s_repo s = Some d \<and> Save refuses st ch d = Inr d' \<and> s_repo (snd (updateResult E fn s)) = Some d')"
  by (auto simp: updateResult_def Let_def split: prod.splits option.splits sum.splits)

lemma editConfiguration_repo:
  "s_repo (snd (editConfiguration E fn s)) = s_repo s \<or>
   (\<exists>refuses st ch d d'. s_repo s = Some d \<and> Save refuses st ch d = Inr d' \<and> s_repo (snd (editConfiguration E fn s)) = Some d')"
  by (auto simp: editConfiguration_def Let_def split: prod.splits option.splits sum.splits)

section \<open>Edits of prices\<close>

definition price_edit :: "Store \<Rightarrow> Store \<Rightarrow> bool" where
  "price_edit s s' \<longleftrightarrow>
     (\<exists>prices d. s' = s\<lparr>s_state := (s_state s)\<lparr>st_prices := prices\<rparr>, s_repo := d\<rparr> \<and>
       (d = s_repo s \<or> (\<exists>d0 rows. s_repo s = Some d0 \<and> d = Some (d0\<lparr>dk_prices := rows\<rparr>))))"

lemma price_editI:
  "price_edit s s" "s' = s\<lparr>s_state := (s_state s)\<lparr>st_prices := prices\<rparr>\<rparr> \<Longrightarrow> price_edit s s'"
  "s_repo s = Some d \<Longrightarrow> s' = s\<lparr>s_state := (s_state s)\<lparr>st_prices := prices\<rparr>, s_repo := Some (d\<lparr>dk_prices := rows\<rparr>)\<rparr> \<Longrightarrow> price_edit s s'"
proof -
  have same: "s = s\<lparr>s_state := (s_state s)\<lparr>st_prices := st_prices (s_state s)\<rparr>, s_repo := s_repo s\<rparr>" by simp
  then show "price_edit s s" unfolding price_edit_def by blast
  assume "s' = s\<lparr>s_state := (s_state s)\<lparr>st_prices := prices\<rparr>\<rparr>"
  then have "s' = s\<lparr>s_state := (s_state s)\<lparr>st_prices := prices\<rparr>, s_repo := s_repo s\<rparr>" by simp
  then show "price_edit s s'" unfolding price_edit_def by blast
next
  assume "s_repo s = Some d" "s' = s\<lparr>s_state := (s_state s)\<lparr>st_prices := prices\<rparr>, s_repo := Some (d\<lparr>dk_prices := rows\<rparr>)\<rparr>"
  then show "price_edit s s'" unfolding price_edit_def by blast
qed

text \<open>Prices are no part of the state that is saved, so an edit of them leaves the rest in step.\<close>

lemma price_edit_synced:
  assumes "price_edit s s'" "store_synced s"
  shows "store_synced s'"
proof -
  obtain prices d where s': "s' = s\<lparr>s_state := (s_state s)\<lparr>st_prices := prices\<rparr>, s_repo := d\<rparr>"
    and d: "d = s_repo s \<or> (\<exists>d0 rows. s_repo s = Some d0 \<and> d = Some (d0\<lparr>dk_prices := rows\<rparr>))"
    using assms(1) unfolding price_edit_def by blast
  have m: "in_memory (s_state s') p = in_memory (s_state s) p" for p by (cases p) (simp_all add: s' lookup_key_def)
  have k: "on_disk (d0\<lparr>dk_prices := rows\<rparr>) p = on_disk d0 p" for d0 rows p by (rule on_disk_cong) simp_all
  have "state_wf (s_state s') = state_wf (s_state s)" by (simp add: s' state_wf_def)
  moreover have "s_dirty s' = s_dirty s" "s_repo s' = d" by (simp_all add: s')
  ultimately show ?thesis
    using assms(2) d unfolding store_synced_def in_sync_def m by (elim disjE exE) (auto simp: k split: option.splits)
qed

text \<open>An edit of a price is in memory and in the table, or in neither.\<close>

lemma Store_UpsertPrice_ok:
  assumes "prices_ok (st_prices (s_state s))" "db_ok s" "Store_UpsertPrice refused price0 s = (r, s')"
  shows "prices_ok (st_prices (s_state s')) \<and> db_ok s' \<and> price_edit s s'"
proof -
  define price where "price = price0\<lparr>cp_model := TrimSpace (cp_model price0)\<rparr>"
  define prices where "prices = st_prices (s_state s)"
  define key where "key = NormalizeModelID (cp_model price)"
  define p where "p = (case map_of prices key of Some existing \<Rightarrow> price\<lparr>cp_model := cp_model existing\<rparr> | None \<Rightarrow> price)"
  show ?thesis
  proof (cases "CustomPrice_Validate price = Inr ()")
    case False
    then have "s' = s" using assms(3) by (auto simp: Store_UpsertPrice_def price_def Let_def split: sum.splits)
    then show ?thesis using assms(1,2) price_editI(1) by simp
  next
    case True
    have p: "NormalizeModelID (cp_model p) = key" "TrimSpace (cp_model p) = cp_model p" "CustomPrice_Validate p = Inr ()"
      using assms(1) True by (auto simp: p_def price_def key_def prices_def CustomPrice_Validate_def Let_def
          dest!: prices_okD split: option.splits if_splits)
    have ok: "prices_ok (AList.update key p prices)" using assms(1) p by (auto simp: prices_ok_def prices_def)
    have U: "Store_UpsertPrice refused price0 s =
      (let published = s\<lparr>s_state := (s_state s)\<lparr>st_prices := AList.update key p prices\<rparr>\<rparr>
       in case s_repo s of
            None \<Rightarrow> (Inr p, published)
          | Some d \<Rightarrow> (case db_UpsertPrice refused p d of Inl e \<Rightarrow> (Inl e, s) | Inr d' \<Rightarrow> (Inr p, published\<lparr>s_repo := Some d'\<rparr>)))"
      unfolding Store_UpsertPrice_def Let_def price_def [symmetric] True sum.case prices_def [symmetric] key_def [symmetric]
        p_def [symmetric] ..
    show ?thesis
    proof (cases "s_repo s")
      case None
      then have "s' = s\<lparr>s_state := (s_state s)\<lparr>st_prices := AList.update key p prices\<rparr>\<rparr>" using assms(3) by (simp add: U)
      then show ?thesis using ok None price_editI(2) by (simp add: db_ok_def)
    next
      case (Some d)
      show ?thesis
      proof (cases "db_UpsertPrice refused p d")
        case (Inl e)
        then have "s' = s" using assms(3) Some by (simp add: U)
        then show ?thesis using assms(1,2) price_editI(1) by simp
      next
        case (Inr d')
        then have d': "d' = d\<lparr>dk_prices := put_price_row p (dk_prices d)\<rparr>"
          by (auto simp: db_UpsertPrice_def split: option.splits)
        have s': "s' = s\<lparr>s_state := (s_state s)\<lparr>st_prices := AList.update key p prices\<rparr>, s_repo := Some d'\<rparr>"
          using assms(3) Some Inr by (simp add: U)
        have rows: "wf_map (dk_keys d)" "price_rows_ok (dk_prices d) prices" using assms(2) Some by (simp_all add: db_ok_def prices_def)
        have spell: "cp_model p = cp_model old" if "map_of prices key = Some old" for old using that by (simp add: p_def)
        have "price_rows_ok (put_price_row p (dk_prices d)) (AList.update key p prices)"
          by (rule put_price_row_ok [OF assms(1) [folded prices_def] rows(2) p(2) p(1) [symmetric] spell])
        then have "db_ok s'" using rows(1) by (simp add: db_ok_def s' d')
        moreover have "price_edit s s'" by (rule price_editI(3) [OF Some s' [unfolded d']])
        ultimately show ?thesis using ok by (simp add: s')
      qed
    qed
  qed
qed

lemma delete_price_rows_ok:
  assumes ok: "prices_ok prices" "price_rows_ok rows prices" and p: "map_of prices k = Some p"
  shows "price_rows_ok (filter (\<lambda>r. \<not> EqualFold (cp_model r) (cp_model p)) rows) (AList.delete k prices)"
proof -
  have wf: "wf_map prices" "wf_map (AList.delete k prices)" using ok(1) by (auto simp: prices_ok_def)
  have vals: "r \<in> snd ` set m \<longleftrightarrow> (\<exists>j. map_of m j = Some r)" if "wf_map m" for r and m :: "CustomPrice smap"
    using wf_map_mem_iff [OF that] by force
  have d: "NormalizeModelID (cp_model p) = k" "TrimSpace (cp_model p) = cp_model p" using prices_okD [OF ok(1) p] by simp_all
  have fold: "EqualFold (cp_model r) (cp_model p) \<longleftrightarrow> NormalizeModelID (cp_model r) = k" if "r \<in> set rows" for r
  proof -
    have "TrimSpace (cp_model r) = cp_model r" using price_rows_trimmed [OF ok that] by (rule conjunct1)
    from NormalizeModelID_fold [OF this d(2)] show ?thesis unfolding d(1) by (rule sym)
  qed
  have key: "NormalizeModelID (cp_model r) = j" if "map_of prices j = Some r" for r j using prices_okD [OF ok(1) that] by simp
  have rows: "r \<in> set rows \<longleftrightarrow> (\<exists>j. map_of prices j = Some r)" for r
    using ok(2) vals [OF wf(1), of r] by (simp add: price_rows_ok_def)
  have left: "map_of (AList.delete k prices) j = Some r \<longleftrightarrow> j \<noteq> k \<and> map_of prices j = Some r" for j r
    by (simp add: delete_conv')
  have "r \<in> set (filter (\<lambda>r. \<not> EqualFold (cp_model r) (cp_model p)) rows) \<longleftrightarrow> r \<in> snd ` set (AList.delete k prices)" for r
  proof
    assume "r \<in> set (filter (\<lambda>r. \<not> EqualFold (cp_model r) (cp_model p)) rows)"
    then have r: "r \<in> set rows" "\<not> EqualFold (cp_model r) (cp_model p)" by simp_all
    then obtain j where j: "map_of prices j = Some r" using rows by blast
    have "j \<noteq> k" using fold [OF r(1)] r(2) key [OF j] by simp
    with j have "map_of (AList.delete k prices) j = Some r" by (simp only: left simp_thms)
    then show "r \<in> snd ` set (AList.delete k prices)" unfolding vals [OF wf(2)] by (rule exI)
  next
    assume "r \<in> snd ` set (AList.delete k prices)"
    then obtain j where "map_of (AList.delete k prices) j = Some r" unfolding vals [OF wf(2)] by (rule exE)
    then have j: "j \<noteq> k" "map_of prices j = Some r" unfolding left by simp_all
    then have "r \<in> set rows" unfolding rows by (intro exI)
    moreover have "\<not> EqualFold (cp_model r) (cp_model p)" using fold [OF calculation] key [OF j(2)] j(1) by simp
    ultimately show "r \<in> set (filter (\<lambda>r. \<not> EqualFold (cp_model r) (cp_model p)) rows)" by simp
  qed
  then have "set (filter (\<lambda>r. \<not> EqualFold (cp_model r) (cp_model p)) rows) = snd ` set (AList.delete k prices)" by (rule set_eqI)
  moreover have "distinct (map (\<lambda>r. NormalizeModelID (cp_model r)) (filter (\<lambda>r. \<not> EqualFold (cp_model r) (cp_model p)) rows))"
    by (rule distinct_map_filter) (use ok(2) in \<open>simp add: price_rows_ok_def\<close>)
  ultimately show ?thesis unfolding price_rows_ok_def by blast
qed

lemma Store_DeletePrice_ok:
  assumes "prices_ok (st_prices (s_state s))" "db_ok s" "Store_DeletePrice refused model s = (r, s')"
  shows "prices_ok (st_prices (s_state s')) \<and> db_ok s' \<and> price_edit s s'"
proof -
  define prices where "prices = st_prices (s_state s)"
  define key where "key = NormalizeModelID model"
  have D: "Store_DeletePrice refused model s =
      (case map_of prices key of
         None \<Rightarrow> (Inl (notFoundf ''custom price does not exist''), s)
       | Some price \<Rightarrow>
           let published = s\<lparr>s_state := (s_state s)\<lparr>st_prices := AList.delete key prices\<rparr>\<rparr>
           in case s_repo s of
                None \<Rightarrow> (Inr (), published)
              | Some d \<Rightarrow> (case db_DeletePrice refused (cp_model price) d of Inl e \<Rightarrow> (Inl e, s) | Inr d' \<Rightarrow> (Inr (), published\<lparr>s_repo := Some d'\<rparr>)))"
    unfolding Store_DeletePrice_def Let_def prices_def key_def by (rule refl)
  have ok: "prices_ok (AList.delete key prices)" using assms(1) by (auto simp: prices_ok_def prices_def split: if_splits)
  show ?thesis
  proof (cases "s' = s")
    case False
    then obtain price where p: "map_of prices key = Some price" using assms(3) by (auto simp: D split: option.splits)
    show ?thesis
    proof (cases "s_repo s")
      case None
      then have "s' = s\<lparr>s_state := (s_state s)\<lparr>st_prices := AList.delete key prices\<rparr>\<rparr>" using assms(3) p by (simp add: D)
      then show ?thesis using ok None price_editI(2) by (simp add: db_ok_def)
    next
      case (Some d)
      let ?rows = "filter (\<lambda>r. \<not> EqualFold (cp_model r) (cp_model price)) (dk_prices d)"
      have s': "s' = s\<lparr>s_state := (s_state s)\<lparr>st_prices := AList.delete key prices\<rparr>, s_repo := Some (d\<lparr>dk_prices := ?rows\<rparr>)\<rparr>"
        using assms(3) p Some False by (auto simp: D db_DeletePrice_def split: option.splits)
      have "wf_map (dk_keys d)" "price_rows_ok (dk_prices d) prices" using assms(2) Some by (simp_all add: db_ok_def prices_def)
      then have "db_ok s'"
        using delete_price_rows_ok [OF assms(1) [folded prices_def] _ p] by (simp add: db_ok_def s')
      then show ?thesis using ok price_editI(3) [OF Some s'] by (simp add: s')
    qed
  qed (use assms price_editI(1) in simp)
qed

end
