(* ===== verification/Edits.thy ===== *)
theory Edits
  imports GroupAccount RouteOps Account PriceTable
begin

text \<open>
  The contract every operation of \<^verbatim>\<open>internal/billing\<close> keeps, whatever part of the state it edits: a state in order stays in
  order, and the changes the operation reports cover what it altered. The contract is a locale with one interpretation
  per operation; what a store makes of such an edit is proved once, inside the locale.
\<close>

section \<open>A state in order\<close>

definition good :: "State \<Rightarrow> bool" where
  "good st \<longleftrightarrow> state_wf st \<and> state_ok st \<and> routed_ok st \<and> ledger_ok (st_grouped st) \<and> groups_ok (st_grouped st) \<and>
     prices_ok (st_prices st)"

lemma goodD:
  assumes "good st"
  shows "state_wf st" "state_ok st" "routed_ok st" "ledger_ok (st_grouped st)" "groups_ok (st_grouped st)" "prices_ok (st_prices st)"
    "wf_map (st_keys st)" "grouped_wf (st_grouped st)"
  using assms by (simp_all add: good_def state_wf_def)

lemma state_wf_step: "state_wf st \<Longrightarrow> sound_step st st' ch \<Longrightarrow> state_wf st'"
  by (simp add: sound_step_def)

text \<open>An edit of keys and plans leaves the groups, the prices, the routes and the bindings to routes alone.\<close>

definition key_edit :: "State \<Rightarrow> State \<Rightarrow> bool" where
  "key_edit st st' \<longleftrightarrow> st_grouped st' = st_grouped st \<and> st_prices st' = st_prices st \<and> st_routes st' = st_routes st \<and>
     (\<forall>k key'. lookup_key st' k = Some key' \<longrightarrow>
        rb_route_ids (ks_bindings key') = [] \<or> (\<exists>key. lookup_key st k = Some key \<and> ks_bindings key' = ks_bindings key))"

lemma key_edit_refl [intro]: "key_edit st st"
  by (auto simp: key_edit_def)

lemma key_edit_trans: "key_edit st st1 \<Longrightarrow> key_edit st1 st2 \<Longrightarrow> key_edit st st2"
  unfolding key_edit_def by metis

lemma key_edit_foldl: "(\<And>st x. key_edit st (f st x)) \<Longrightarrow> key_edit st (foldl f st xs)"
  by (induction xs arbitrary: st) (auto intro: key_edit_trans)

lemma key_edit_put:
  "lookup_key st k = Some key \<Longrightarrow> ks_bindings key' = ks_bindings key \<Longrightarrow> key_edit st (put_key k key' st)"
  by (auto simp: key_edit_def)

lemma key_edit_map:
  "(\<And>k key. ks_bindings (f k key) = ks_bindings key) \<Longrightarrow> key_edit st (st\<lparr>st_keys := map_values f (st_keys st)\<rparr>)"
  by (auto simp: key_edit_def lookup_rebind)

lemma key_edit_plans: "key_edit (st\<lparr>st_plans := ps\<rparr>) st' \<Longrightarrow> key_edit st st'" "key_edit st st' \<Longrightarrow> key_edit st (st'\<lparr>st_plans := ps\<rparr>)"
  by (auto simp: key_edit_def)

lemma liveKey_lookup: "liveKey st k = Some key \<Longrightarrow> lookup_key st k = Some key"
  by (auto simp: liveKey_def split: option.splits if_splits)

lemma good_key_edit:
  assumes "good st" "key_edit st st'" "state_ok st'" "sound_step st st' ch"
  shows "good st'"
  using assms state_wf_step [OF _ assms(4)] routed_ok_keys [of st st'] unfolding good_def key_edit_def by metis

text \<open>An edit of routes and of the bindings to them leaves the groups and the prices alone.\<close>

lemma good_route_edit:
  assumes "good st" "st_grouped st' = st_grouped st" "st_prices st' = st_prices st" "state_ok st' \<and> routed_ok st'" "sound_step st st' ch"
  shows "good st'"
  using assms state_wf_step [OF _ assms(5)] by (simp add: good_def)

text \<open>An edit of the groups leaves the rest alone.\<close>

lemma good_group_edit:
  assumes "good st" "st' = st\<lparr>st_grouped := g\<rparr>" "ledger_ok g" "groups_ok g" "sound_step st st' ch"
  shows "good st'"
proof -
  have "state_ok st' = state_ok st" by (rule state_ok_cong) (simp_all add: assms(2))
  moreover have "routed_ok st' = routed_ok st" by (simp add: assms(2) routed_ok_def lookup_key_def)
  ultimately show ?thesis using assms state_wf_step [OF _ assms(5)] by (simp add: good_def)
qed

section \<open>The contract of an operation\<close>

text \<open>A store in order is in step with its database, keeps its state in order and counts its slots.\<close>

definition in_order :: "Store \<Rightarrow> bool" where
  "in_order s \<longleftrightarrow> store_synced s \<and> good (s_state s) \<and> db_ok s \<and> slots_ok s"

text \<open>\<open>pre\<close> is what the operation needs of the state besides: nothing, for most.\<close>

locale safe_edit =
  fixes fn :: "State \<Rightarrow> error + 'a \<times> Changes \<times> State" and pre :: "State \<Rightarrow> bool"
  assumes sound: "good st \<Longrightarrow> pre st \<Longrightarrow> fn st = Inr (v, ch, st') \<Longrightarrow> sound_step st st' ch"
    and keeps: "good st \<Longrightarrow> pre st \<Longrightarrow> fn st = Inr (v, ch, st') \<Longrightarrow> good st'"
    and prices: "good st \<Longrightarrow> pre st \<Longrightarrow> fn st = Inr (v, ch, st') \<Longrightarrow> st_prices st' = st_prices st"
begin

text \<open>Published with the write or not at all, the store stays in order.\<close>

lemma edit_in_order:
  assumes "in_order s" "pre (s_state s)"
  shows "in_order (snd (editConfiguration E fn s))"
proof -
  obtain r s' where e: "editConfiguration E fn s = (r, s')" by (cases "editConfiguration E fn s")
  have s: "store_synced s" "good (s_state s)" "db_ok s" "slots_ok s" using assms(1) by (simp_all add: in_order_def)
  have st: "good (s_state s') \<and> st_prices (s_state s') = st_prices (s_state s)"
  proof (cases r)
    case (Inl err)
    then show ?thesis using edit_Inl [of E fn s err s'] e s(2) by simp
  next
    case (Inr v)
    then obtain ch where f: "fn (s_state s) = Inr (v, ch, s_state s')" using edit_Inr [of E fn s v s'] e by blast
    show ?thesis using keeps [OF s(2) assms(2) f] prices [OF s(2) assms(2) f] by simp
  qed
  have "db_ok s'" using db_ok_saved [OF s(3), of s'] st editConfiguration_repo [of E fn s] e by simp
  moreover have "slots_ok s'" using edit_slots [OF e] by (intro slots_cong [OF _ _ _ _ s(4)]) auto
  moreover have "store_synced s'" using editConfiguration_keeps_sync [of s fn E] s sound [OF s(2) assms(2)] e by simp
  ultimately show ?thesis using st e by (simp add: in_order_def)
qed

end

text \<open>An operation that cannot be refused writes behind: what the database refuses stays pending.\<close>

locale safe_update =
  fixes fn :: "State \<Rightarrow> 'a \<times> Changes \<times> State" and pre :: "State \<Rightarrow> bool"
  assumes sound: "good st \<Longrightarrow> pre st \<Longrightarrow> fn st = (v, ch, st') \<Longrightarrow> sound_step st st' ch"
    and keeps: "good st \<Longrightarrow> pre st \<Longrightarrow> fn st = (v, ch, st') \<Longrightarrow> good st'"
    and prices: "good st \<Longrightarrow> pre st \<Longrightarrow> fn st = (v, ch, st') \<Longrightarrow> st_prices st' = st_prices st"
begin

lemma update_in_order:
  assumes "in_order s" "pre (s_state s)"
  shows "in_order (snd (updateResult E fn s))"
proof -
  have s: "store_synced s" "good (s_state s)" "db_ok s" "slots_ok s" using assms(1) by (simp_all add: in_order_def)
  obtain v ch st where f: "fn (s_state s) = (v, ch, st)" by (cases "fn (s_state s)") auto
  obtain w s' where u: "updateResult E fn s = (w, s')" by (cases "updateResult E fn s")
  note c = updateResult_cases [OF u f]
  have st: "good (s_state s') \<and> st_prices (s_state s') = st_prices (s_state s)"
    using keeps [OF s(2) assms(2) f] prices [OF s(2) assms(2) f] c by simp
  have "db_ok s'" using db_ok_saved [OF s(3), of s'] st updateResult_repo [of E fn s] u by simp
  moreover have "slots_ok s'" using c by (intro slots_cong [OF _ _ _ _ s(4)]) auto
  moreover have "store_synced s'"
    using updateResult_keeps_sync [of s fn v ch st E] sound [OF s(2) assms(2) f] s(1) f u by simp
  ultimately show ?thesis using st u by (simp add: in_order_def)
qed

end

text \<open>Writing behind is an edit that always succeeds.\<close>

sublocale safe_update \<subseteq> edit: safe_edit "\<lambda>st. Inr (fn st)" pre
proof
  fix st v ch st' assume s: "good st" "pre st" "(Inr (fn st) :: error + _) = Inr (v, ch, st')"
  have f: "fn st = (v, ch, st')" using s(3) by (rule sum.inject(2) [THEN iffD1])
  show "sound_step st st' ch" by (rule sound [OF s(1,2) f])
  show "good st'" by (rule keeps [OF s(1,2) f])
  show "st_prices st' = st_prices st" by (rule prices [OF s(1,2) f])
qed

section \<open>Keys and plans\<close>

text \<open>An operation on keys keeps the contract when it is sound, keeps the keys in order and is an edit of keys.\<close>

lemma safe_key_edit:
  assumes "\<And>v ch st st'. good st \<Longrightarrow> pre st \<Longrightarrow> fn st = Inr (v, ch, st') \<Longrightarrow> sound_step st st' ch"
    "\<And>v ch st st'. good st \<Longrightarrow> pre st \<Longrightarrow> fn st = Inr (v, ch, st') \<Longrightarrow> state_ok st'"
    "\<And>v ch st st'. good st \<Longrightarrow> pre st \<Longrightarrow> fn st = Inr (v, ch, st') \<Longrightarrow> key_edit st st'"
  shows "safe_edit fn pre"
proof
  fix st v ch st' assume s: "good st" "pre st" "fn st = Inr (v, ch, st')"
  show "sound_step st st' ch" by (rule assms(1) [OF s])
  then show "good st'" by (rule good_key_edit [OF s(1) assms(3) [OF s] assms(2) [OF s]])
  show "st_prices st' = st_prices st" using assms(3) [OF s] by (simp add: key_edit_def)
qed

lemma safe_key_update:
  assumes "\<And>v ch st st'. good st \<Longrightarrow> pre st \<Longrightarrow> fn st = (v, ch, st') \<Longrightarrow> sound_step st st' ch"
    "\<And>st. good st \<Longrightarrow> pre st \<Longrightarrow> state_ok (snd (snd (fn st)))"
    "\<And>v ch st st'. good st \<Longrightarrow> pre st \<Longrightarrow> fn st = (v, ch, st') \<Longrightarrow> key_edit st st'"
  shows "safe_update fn pre"
proof
  fix st v ch st' assume s: "good st" "pre st" "fn st = (v, ch, st')"
  show "sound_step st st' ch" using assms(1) s by blast
  then show "good st'" using good_key_edit [OF s(1) assms(3) [OF s]] assms(2) [OF s(1,2)] s(3) by simp
  show "st_prices st' = st_prices st" using assms(3) [OF s] by (simp add: key_edit_def)
qed

abbreviation always :: "State \<Rightarrow> bool" where
  "always \<equiv> \<lambda>_. True"

interpretation bind: safe_edit "bind_key scope planID" always for scope planID
proof (rule safe_key_edit)
  fix v ch st st' assume "bind_key scope planID st = Inr (v, ch, st')"
  then show "key_edit st st'" by (auto simp: bind_key_def intro!: key_edit_put dest!: liveKey_lookup split: option.splits if_splits)
qed (auto intro: bind_key_sound bind_key_ok dest: goodD(2))

interpretation unbind: safe_edit "unbind_key scope" always for scope
proof (rule safe_key_edit)
  fix v ch st st' assume "unbind_key scope st = Inr (v, ch, st')"
  then show "key_edit st st'" by (auto simp: unbind_key_def intro!: key_edit_put dest!: liveKey_lookup split: option.splits if_splits)
qed (auto intro: unbind_key_sound unbind_key_ok dest: goodD(2))

interpretation label: safe_edit "set_label scope name" always for scope name
proof (rule safe_key_edit)
  fix v ch st st' assume "set_label scope name st = Inr (v, ch, st')"
  then show "key_edit st st'" by (auto simp: set_label_def intro!: key_edit_put split: option.splits)
qed (auto intro: set_label_sound set_label_ok dest: goodD(2))

lemma clear_cycles_edit: "key_edit st (clear_cycles st scope)"
  by (auto simp: clear_cycles_def intro!: key_edit_put split: option.split)

interpretation reset: safe_edit "reset_quota everyone scopes" always for everyone scopes
proof (rule safe_key_edit)
  fix v ch st st' assume "reset_quota everyone scopes st = Inr (v, ch, st')"
  then show "key_edit st st'" by (rule reset_quota_Inr) (simp add: key_edit_foldl clear_cycles_edit)
qed (auto intro: reset_quota_sound reset_quota_ok dest: goodD(2))

lemma settled_bindings: "ks_bindings (snd (settleKeyPlan key plan now)) = ks_bindings key"
  by (simp add: settleKeyPlan_def settleExpiredCycles_def Let_def)

interpretation views: safe_update "key_views s now" always for s now
proof (rule safe_key_update)
  fix v ch st st' assume "key_views s now st = (v, ch, st')"
  then have "st' = settle_keys now st" by (simp add: key_views_def Let_def)
  then show "key_edit st st'"
    by (simp add: settle_keys_def key_edit_map settle_listed_def settled_bindings)
qed (auto simp: key_views_sound key_views_ok goodD)

interpretation view: safe_update "key_view s scope now" always for s scope now
proof (rule safe_key_update)
  fix v ch st st' assume "key_view s scope now st = (v, ch, st')"
  then show "key_edit st st'"
    using settled_bindings
    by (auto simp: key_view_def Let_def intro!: key_edit_put dest!: liveKey_lookup split: option.splits prod.splits) (metis snd_conv)
qed (auto simp: key_view_sound key_view_ok goodD)

interpretation authorize: safe_update "authorize_state scope instant" "\<lambda>_. now_ok instant" for scope instant
proof (rule safe_key_update)
  fix v ch st st' assume "authorize_state scope instant st = (v, ch, st')"
  then show "key_edit st st'"
    by (auto simp: authorize_state_def Let_def settleExpiredCycles_def activateCycles_def intro!: key_edit_put
        split: option.splits prod.splits if_splits)
qed (auto simp: authorize_sound authorize_ok goodD)

interpretation limit: safe_edit "limit_key scope limit" always for scope limit
proof (rule safe_key_edit)
  fix v ch st st' assume l: "limit_key scope limit st = Inr (v, ch, st')"
  then show "key_edit st st'" by (auto simp: limit_key_def intro!: key_edit_put dest!: liveKey_lookup split: option.splits if_splits)
  show "sound_step st st' ch" by (rule limit_key_sound [OF l])
  assume g: "good st"
  have "key_ok (st_plans st) scope (key\<lparr>ks_limit := limit\<rparr>)" if "lookup_key st scope = Some key" for key
    using state_ok_key [OF goodD(2) [OF g] that] cycles_ok_cong [of "key\<lparr>ks_limit := limit\<rparr>" key "st_plans st"] by (simp add: key_ok_iff)
  then show "state_ok st'"
    using l goodD(2) [OF g] by (auto simp: limit_key_def state_ok_put dest!: liveKey_lookup split: option.splits if_splits)
qed

lemma sync_listed_prices: "st_prices (snd (snd (foldl sync_listed acc scopes))) = st_prices (snd (snd acc))"
  by (induction scopes arbitrary: acc)
    (auto simp: sync_listed_def ensureKey_def Let_def split: prod.splits option.splits if_splits)

interpretation sync: safe_edit "sync_keys (listed_scopes keys) now" "\<lambda>_. storable now" for keys now
proof (rule safe_key_edit)
  fix v ch st st'
  assume g: "good st" and n: "storable now" and s: "sync_keys (listed_scopes keys) now st = Inr (v, ch, st')"
  note i = sync_keys_Inr [OF s listed_scopes_props(1,2) goodD(7) [OF g]]
  show "sound_step st st' ch" by (rule sync_keys_sound [OF s listed_scopes_props(1,2) goodD(7) [OF g]])
  show "state_ok st'" by (rule sync_keys_ok [OF goodD(2) [OF g] n s goodD(7) [OF g]])
  have "st_prices st' = st_prices st"
    using s sync_listed_prices [of "(\<lparr>sy_added = 0, sy_deleted = 0\<rparr>, False, st)" "listed_scopes keys"]
    by (auto simp: sync_keys_def Let_def split: prod.splits)
  moreover have "rb_route_ids (ks_bindings key') = [] \<or> (\<exists>key. lookup_key st k = Some key \<and> ks_bindings key' = ks_bindings key)"
    if "lookup_key st' k = Some key'" for k key'
    using that i(1) [of k] 
    by (cases "lookup_key st k"; cases "map_of (listed_scopes keys) k")
      (auto simp: synced_key_def option_or_def new_key_def no_bindings_def)
  ultimately show "key_edit st st'" using i(3,4) by (simp add: key_edit_def)
qed

text \<open>A plan's identifier is trimmed before it is looked up.\<close>

lemma bind_scope_edit: "key_edit st (bind_scope pid st scope)"
  by (auto simp: bind_scope_def intro!: key_edit_put split: option.split)

interpretation create_plan: safe_edit
  "create_plan E rand_id (plan\<lparr>pln_id := TrimSpace (pln_id plan), pln_name := TrimSpace (pln_name plan)\<rparr>) scopes" always
  for E rand_id plan scopes
proof (rule safe_key_edit)
  fix v ch st st'
  let ?plan = "plan\<lparr>pln_id := TrimSpace (pln_id plan), pln_name := TrimSpace (pln_name plan)\<rparr>"
  assume f: "create_plan E rand_id ?plan scopes st = Inr (v, ch, st')"
  note c = create_plan_Inr [OF f]
  have "TrimSpace (pln_id v) = pln_id v"
    using c(5) freeID_trimmed TrimSpace_idem [of "pln_id plan"] by (auto split: if_splits simp del: TrimSpace_idem)
  then show "state_ok st'" if "good st" using state_ok_create [OF goodD(2) [OF that] f] by blast
  show "sound_step st st' ch" by (rule create_plan_sound [OF f])
  show "key_edit st st'" unfolding c(1) by (rule key_edit_plans(1)) (rule key_edit_foldl, rule bind_scope_edit)
qed

lemma bind_selected_edit: "key_edit st (bind_selected pid st scope)"
  by (auto simp: bind_selected_def intro!: key_edit_put split: option.split)

interpretation update_plan: safe_edit "update_plan E rand_id patch scopes" "\<lambda>_. ppt_id patch \<noteq> []" for E rand_id patch scopes
proof (rule safe_key_edit)
  fix v ch st st'
  assume g: "good st" and n: "ppt_id patch \<noteq> []" and f: "update_plan E rand_id patch scopes st = Inr (v, ch, st')"
  show "sound_step st st' ch" by (rule update_plan_sound [OF f n])
  show "state_ok st'" using state_ok_update [OF goodD(2) [OF g] f n] by blast
  have r: "key_edit st (st\<lparr>st_keys := map_values (rebind_key (ppt_id patch) selected resets) (st_keys st)\<rparr>)" for selected resets
    by (rule key_edit_map) (simp add: rebind_key_def)
  show "key_edit st st'"
    using f unfolding update_plan_def Let_def
    by (auto split: option.splits intro!: key_edit_plans(2) r key_edit_trans [OF r key_edit_foldl] bind_selected_edit)
qed

interpretation delete_plan: safe_edit "delete_plan pid" "\<lambda>_. TrimSpace pid = pid \<and> pid \<noteq> []" for pid
proof (rule safe_key_edit)
  fix v ch st st'
  assume g: "good st" and n: "TrimSpace pid = pid \<and> pid \<noteq> []" and f: "delete_plan pid st = Inr (v, ch, st')"
  show "sound_step st st' ch" by (rule delete_plan_sound [OF f])
  show "state_ok st'" using state_ok_delete [OF goodD(2) [OF g] f] n by blast
  have "key_edit st (st\<lparr>st_keys := map_values (release_key pid) (st_keys st)\<rparr>)" by (rule key_edit_map) (simp add: release_key_def)
  moreover have "st' = st\<lparr>st_keys := map_values (release_key pid) (st_keys st)\<rparr>\<lparr>st_plans := delete_first pid (st_plans st)\<rparr>"
    using f by (auto simp: delete_plan_def split: if_splits)
  ultimately show "key_edit st st'" using key_edit_plans(2) by blast
qed

section \<open>Routes and credentials\<close>

lemma safe_route_edit:
  assumes "\<And>v ch st st'. good st \<Longrightarrow> pre st \<Longrightarrow> fn st = Inr (v, ch, st') \<Longrightarrow> sound_step st st' ch"
    "\<And>v ch st st'. good st \<Longrightarrow> pre st \<Longrightarrow> fn st = Inr (v, ch, st') \<Longrightarrow> state_ok st' \<and> routed_ok st'"
    "\<And>v ch st st'. good st \<Longrightarrow> pre st \<Longrightarrow> fn st = Inr (v, ch, st') \<Longrightarrow> st_grouped st' = st_grouped st \<and> st_prices st' = st_prices st"
  shows "safe_edit fn pre"
proof
  fix st v ch st' assume s: "good st" "pre st" "fn st = Inr (v, ch, st')"
  show "sound_step st st' ch" by (rule assms(1) [OF s])
  then show "good st'" "st_prices st' = st_prices st" using good_route_edit [OF s(1) _ _ assms(2) [OF s]] assms(3) [OF s] by blast+
qed

text \<open>
  A route created without an identifier takes a free one, which fits the limit on identifiers unless the state has more
  routes than any memory holds.
\<close>

definition routes_fit :: "State \<Rightarrow> bool" where
  "routes_fit st \<longleftrightarrow> length (st_routes st) < 10 ^ 400"

lemma foldl_attach_prices [simp]: "st_prices (foldl (attach_route rid) st scopes) = st_prices st"
  by (induction scopes arbitrary: st) (auto simp: attach_route_def split: option.splits)

interpretation create_route: safe_edit "create_route route (normalizeScopes scopes)" "\<lambda>st. TrimSpace (rte_id route) = [] \<and> routes_fit st"
  for route scopes
proof (rule safe_route_edit)
  fix v ch st st'
  assume g: "good st" and p: "TrimSpace (rte_id route) = [] \<and> routes_fit st"
    and f: "create_route route (normalizeScopes scopes) st = Inr (v, ch, st')"
  have d: "distinct (normalizeScopes scopes)" by (rule distinct_normalizeScopes)
  show "sound_step st st' ch" by (rule create_route_sound [OF f d])
  obtain rid where r: "freeID (rte_name route) ''route'' (route_taken st) = Some rid" "rte_id v = TrimSpace rid"
    using create_route_Inr(8) [OF f] p by blast
  have "rid \<noteq> []" using create_route_Inr(6) [OF f] r(2) by auto
  then have "route_id_ok (rte_id v)" using free_route_id [OF r(1)] p r(2) by (simp add: routes_fit_def route_id_ok_def)
  then show "state_ok st' \<and> routed_ok st'" by (rule create_route_ok [OF goodD(2,3) [OF g] f d])
  show "st_grouped st' = st_grouped st \<and> st_prices st' = st_prices st" by (simp add: create_route_Inr(1) [OF f])
qed

interpretation update_route: safe_edit "update_route patch scopes" "\<lambda>_. TrimSpace (rpt_id patch) = rpt_id patch" for patch scopes
proof (rule safe_route_edit)
  fix v ch st st' assume "update_route patch scopes st = Inr (v, ch, st')"
  then show "st_grouped st' = st_grouped st \<and> st_prices st' = st_prices st"
    by (auto simp: update_route_def Let_def split: option.splits)
qed ((rule update_route_sound update_route_ok [OF goodD(2) goodD(3)]; assumption)+)

interpretation key_routes: safe_edit "set_key_routes scope bindings" "\<lambda>_. NormalizeRouteBindings bindings = Inr bindings" for scope bindings
proof (rule safe_route_edit)
  fix v ch st st' assume "set_key_routes scope bindings st = Inr (v, ch, st')"
  then show "st_grouped st' = st_grouped st \<and> st_prices st' = st_prices st"
    by (auto simp: set_key_routes_def split: option.splits if_splits)
qed ((rule set_key_routes_sound set_key_routes_ok [OF goodD(2) goodD(3)]; assumption)+)

interpretation delete_route: safe_edit "delete_route rid" "\<lambda>_. TrimSpace rid = rid" for rid
proof (rule safe_route_edit)
  fix v ch st st' assume "delete_route rid st = Inr (v, ch, st')"
  then show "st_grouped st' = st_grouped st \<and> st_prices st' = st_prices st"
    by (auto simp: delete_route_def Let_def split: option.splits)
qed ((rule delete_route_sound delete_route_ok [OF goodD(2) goodD(3)]; assumption)+)

interpretation credentials: safe_edit "sync_credentials credentials" always for credentials
proof (rule safe_route_edit)
  fix v ch st st' assume f: "sync_credentials credentials st = Inr (v, ch, st')"
  show "sound_step st st' ch"
    by (rule sound_step_flat) (use f in \<open>auto simp: sync_credentials_def lookup_key_def split: if_splits\<close>)
  show "st_grouped st' = st_grouped st \<and> st_prices st' = st_prices st" using f by (auto simp: sync_credentials_def split: if_splits)
  have s: "st_keys st' = st_keys st" "st_plans st' = st_plans st" "st_routes st' = st_routes st"
    using f by (auto simp: sync_credentials_def split: if_splits)
  assume "good st"
  then show "state_ok st' \<and> routed_ok st'"
    using state_ok_cong [OF s(2,3,1)] s by (simp add: good_def routed_ok_def lookup_key_def)
qed

section \<open>Groups\<close>

lemma safe_group_edit:
  assumes "\<And>v ch st st'. good st \<Longrightarrow> pre st \<Longrightarrow> fn st = Inr (v, ch, st') \<Longrightarrow> sound_step st st' ch"
    "\<And>v ch st st'. good st \<Longrightarrow> pre st \<Longrightarrow> fn st = Inr (v, ch, st') \<Longrightarrow>
       \<exists>g. st' = st\<lparr>st_grouped := g\<rparr> \<and> ledger_ok g \<and> groups_ok g"
  shows "safe_edit fn pre"
proof
  fix st v ch st' assume s: "good st" "pre st" "fn st = Inr (v, ch, st')"
  obtain g where g: "st' = st\<lparr>st_grouped := g\<rparr>" "ledger_ok g" "groups_ok g" using assms(2) [OF s] by blast
  show "sound_step st st' ch" by (rule assms(1) [OF s])
  then show "good st'" by (rule good_group_edit [OF s(1) g])
  show "st_prices st' = st_prices st" by (simp add: g(1))
qed

lemma ledger_groups:
  "ledger_ok (g\<lparr>gs_groups := m\<rparr>) = ledger_ok g" "ledger_ok (g\<lparr>gs_plans := ps\<rparr>) = ledger_ok g"
  "ledger_ok (g\<lparr>gs_bindings := bs\<rparr>) = ledger_ok g" "ledger_ok (g\<lparr>gs_labels := ls\<rparr>) = ledger_ok g"
  "groups_ok (g\<lparr>gs_plans := ps\<rparr>) = groups_ok g" "groups_ok (g\<lparr>gs_bindings := bs\<rparr>) = groups_ok g"
  "groups_ok (g\<lparr>gs_labels := ls\<rparr>) = groups_ok g" "groups_ok (g\<lparr>gs_days := ds\<rparr>) = groups_ok g"
  by (simp_all add: ledger_ok_def groups_ok_def)

interpretation create_group: safe_edit "create_group E grp" "\<lambda>_. normalizeGroup input = Inr grp" for E input grp
proof (rule safe_group_edit)
  fix v ch st st' assume g: "good st" and n: "normalizeGroup input = Inr grp" and f: "create_group E grp st = Inr (v, ch, st')"
  have "st' = put_group v st" "groups_ok (st_grouped st')" using create_group_Inr [OF goodD(1,5) [OF g] n f] by auto
  then show "\<exists>g. st' = st\<lparr>st_grouped := g\<rparr> \<and> ledger_ok g \<and> groups_ok g"
    using goodD(4) [OF g] by (auto simp: put_group_def ledger_groups)
qed (rule create_group_sound; assumption)

interpretation update_group: safe_edit "update_group E patch" always for E patch
proof (rule safe_group_edit)
  fix v ch st st' assume g: "good st" and f: "update_group E patch st = Inr (v, ch, st')"
  have "st' = put_group v st \<and> groups_ok (st_grouped st')" by (rule update_group_Inr [OF goodD(1,5) [OF g] f]) blast
  then show "\<exists>g. st' = st\<lparr>st_grouped := g\<rparr> \<and> ledger_ok g \<and> groups_ok g"
    using goodD(4) [OF g] by (auto simp: put_group_def ledger_groups)
qed (rule update_group_sound; assumption)

text \<open>Publication dates a group, so it relies on a clock that does not go back.\<close>

interpretation publish_group: safe_edit "publish_group E gid revision reason archive" "\<lambda>st. clock_after E (st_grouped st)"
  for E gid revision reason archive
proof (rule safe_group_edit)
  fix v ch st st'
  assume g: "good st" and c: "clock_after E (st_grouped st)" and f: "publish_group E gid revision reason archive st = Inr (v, ch, st')"
  have "groups_ok (st_grouped st')" by (rule publish_group_ok [OF goodD(1,5) [OF g] c f])
  moreover have "\<exists>m. st' = st\<lparr>st_grouped := (st_grouped st)\<lparr>gs_groups := m\<rparr>\<rparr>" by (rule publish_group_Inr [OF f]) blast
  ultimately show "\<exists>g. st' = st\<lparr>st_grouped := g\<rparr> \<and> ledger_ok g \<and> groups_ok g"
    using goodD(4) [OF g] by (auto simp: ledger_groups)
qed (rule publish_group_sound; assumption)

interpretation save_plan: safe_edit "save_plan E plan expected reason" always for E plan expected reason
proof (rule safe_group_edit)
  fix v ch st st' assume g: "good st" and f: "save_plan E plan expected reason st = Inr (v, ch, st')"
  then have "\<exists>p. st' = put_group_plan p st" by (auto simp: save_plan_def Let_def split: option.splits if_splits)
  then show "\<exists>g. st' = st\<lparr>st_grouped := g\<rparr> \<and> ledger_ok g \<and> groups_ok g"
    using goodD(4,5) [OF g] by (auto simp: put_group_plan_def ledger_groups)
qed (rule save_plan_sound; assumption)

interpretation schedule: safe_edit "schedule_binding E scope mode pid expected reason" always for E scope mode pid expected reason
proof (rule safe_group_edit)
  fix v ch st st' assume g: "good st" and f: "schedule_binding E scope mode pid expected reason st = Inr (v, ch, st')"
  then have "\<exists>b. st' = put_binding scope b st" using schedule_Inr [OF f] by blast
  then show "\<exists>g. st' = st\<lparr>st_grouped := g\<rparr> \<and> ledger_ok g \<and> groups_ok g"
    using goodD(4,5) [OF g] by (auto simp: put_binding_def ledger_groups)
qed (rule schedule_sound; assumption)

interpretation reset_day: safe_edit "reset_day E scope gid reason" always for E scope gid reason
proof (rule safe_group_edit)
  fix v ch st st' assume g: "good st" and f: "reset_day E scope gid reason st = Inr (v, ch, st')"
  show "sound_step st st' ch" by (rule reset_day_sound [OF goodD(1) [OF g] f])
  from f show "\<exists>g. st' = st\<lparr>st_grouped := g\<rparr> \<and> ledger_ok g \<and> groups_ok g"
  proof (rule reset_day_Inr)
    let ?k = "GroupDay_Key (new_day scope gid (groupDate (env_clock E 0)))"
    fix old
    assume o: "old = (case map_of (gs_days (st_grouped st)) ?k of Some o' \<Rightarrow> o' | None \<Rightarrow> new_day scope gid (groupDate (env_clock E 0)))"
      and s: "st' = put_day ?k (old\<lparr>gd_credit := gd_raw old, gd_cutoff := Some (env_clock E 0), gd_updated_at := env_clock E 0\<rparr>) st"
    have "day_ok old" using o goodD(4) [OF g] by (auto simp: ledger_ok_def split: option.splits)
    then have "day_ok (old\<lparr>gd_credit := gd_raw old, gd_cutoff := Some (env_clock E 0), gd_updated_at := env_clock E 0\<rparr>)"
      by (simp add: day_ok_def)
    then have "ledger_ok ((st_grouped st)\<lparr>gs_days := AList.update ?k
        (old\<lparr>gd_credit := gd_raw old, gd_cutoff := Some (env_clock E 0), gd_updated_at := env_clock E 0\<rparr>) (gs_days (st_grouped st))\<rparr>)"
      using goodD(4) [OF g] by (auto simp: ledger_ok_def)
    then show ?thesis unfolding s put_day_def using goodD(5) [OF g] ledger_groups(8) by blast
  qed
qed

interpretation labels: safe_edit "cache_labels ins ls" always for ins ls
proof (rule safe_group_edit)
  fix v ch st st' assume g: "good st" and f: "cache_labels ins ls st = Inr (v, ch, st')"
  then show "\<exists>g. st' = st\<lparr>st_grouped := g\<rparr> \<and> ledger_ok g \<and> groups_ok g"
    using goodD(4,5) [OF g] by (auto simp: cache_labels_def Let_def ledger_groups)
qed (rule cache_labels_sound; assumption)

section \<open>Usage\<close>

lemma accountGroupUsage_frame:
  assumes "accountGroupUsage st event entry ch = (g, st', entry', ch')"
  shows "st_prices st' = st_prices st \<and> groups_ok (st_grouped st') = groups_ok (st_grouped st)"
  using assms
  by (auto simp: accountGroupUsage_def Let_def put_binding_def put_day_def ledger_groups split: prod.splits option.splits if_splits)

lemma ensureKey_aside: "ensureKey st scope preview = (k, st') \<Longrightarrow> st_prices st' = st_prices st \<and> st_grouped st' = st_grouped st"
  by (auto simp: ensureKey_def Let_def split: if_splits option.splits)

interpretation usage: safe_update "usage_state cfg event failure now price bm"
  "\<lambda>_. price_ok price \<and> in_int64 (tok_total (ue_breakdown event))" for cfg event failure now price bm
proof
  fix st missing ch st'
  assume g: "good st" and p: "price_ok price \<and> in_int64 (tok_total (ue_breakdown event))"
    and u: "usage_state cfg event failure now price bm st = (missing, ch, st')"
  have ok: "state_ok st' \<and> routed_ok st' \<and> ledger_ok (st_grouped st') \<and> sound_step st st' ch"
    using usage_state_ok [OF goodD(2,1,3,4) [OF g] _ _ u] p by blast
  then show "sound_step st st' ch" by blast
  from u have "st_prices st' = st_prices st \<and> groups_ok (st_grouped st') = groups_ok (st_grouped st)"
  proof (cases rule: usage_state_cases)
    case (1 st1 entry ch1)
    have a: "st_prices st1 = st_prices st \<and> groups_ok (st_grouped st1) = groups_ok (st_grouped st)"
      by (rule accountGroupUsage_frame [OF 1(1)])
    from 1(5) show ?thesis
    proof
      assume "TrimSpace (ue_scope event) = [] \<and> st' = st1"
      then show ?thesis using a by simp
    next
      assume "\<exists>key st2. ensureKey st1 (TrimSpace (ue_scope event)) (ue_key_preview event) = (Some key, st2) \<and>
        st' = (if usage_grouped event now st then st2
               else put_key (TrimSpace (ue_scope event)) (charged_key (st_plans st2) (ue_requested_at event) now
                 (usage_quota (usage_cost cfg price event) (failure \<noteq> None) (ue_breakdown event)) key) st2)"
      then obtain key st2 where k: "ensureKey st1 (TrimSpace (ue_scope event)) (ue_key_preview event) = (Some key, st2)"
        and s: "st' = st2 \<or> (\<exists>k. st' = put_key (TrimSpace (ue_scope event)) k st2)" by (metis (full_types))
      from s ensureKey_aside [OF k] a show ?thesis by (elim disjE exE) simp_all
    qed
  qed
  then show "good st'" "st_prices st' = st_prices st" using ok g state_wf_step [of st st' ch] by (simp_all add: good_def)
qed

end
