(* ===== verification/System.thy ===== *)
theory System
  imports Edits
begin

text \<open>
  The store as a whole: every operation the plugin calls, in any order, on a store that starts empty, opens a database and
  may lose any write. A \<open>request\<close> is one call of an exported method of \<^verbatim>\<open>internal/billing\<close> that changes state; \<open>serve\<close> runs it. The
  errors of the engine, the clock and the random identifiers are those of the environment of each step.
\<close>

section \<open>Requests\<close>

datatype request =
    Bind_Key string string | Unbind_Key string | Set_Label string string | Set_Limit string int
  | Reset_Quota ResetRequest | Sync_Keys "string list" bool | View_Keys | View_Key string
  | Create_Plan Plan "string list" | Update_Plan PlanPatch "string list option" | Delete_Plan string
  | Create_Route Route "string list" | Update_Route RoutePatch "string list option" | Set_Routes string RouteBindings
  | Delete_Route string | Sync_Credentials "ConfigCredential smap"
  | Create_Group ResourceGroup | Update_Group GroupPatch | Publish_Group string int string bool
  | Save_Plan GroupPlan int string | Schedule string string "string option" int string
  | Reset_Day string string string | Cache_Labels string "SharedLabel list"
  | Upsert_Price CustomPrice | Delete_Price string
  | Authorize_Request string time | Report_Block string string Decision
  | Admit_Group string string string string bool | Acquire_Slot string string | Release_Slot string
  | Add_Log PluginLogLevel string

text \<open>\<open>rand_id\<close> draws the identifiers of windows, \<open>refused\<close> is the error of the engine for an edit of a price.\<close>

fun serve :: "env \<Rightarrow> (nat \<Rightarrow> error + string) \<Rightarrow> error option \<Rightarrow> request \<Rightarrow> Store \<Rightarrow> Store" where
  "serve E rand_id refused (Bind_Key scope pid) s = snd (BindKey E scope pid s)"
| "serve E rand_id refused (Unbind_Key scope) s = snd (UnbindKey E scope s)"
| "serve E rand_id refused (Set_Label scope label) s = snd (SetLabel E scope label s)"
| "serve E rand_id refused (Set_Limit scope limit) s = snd (SetConcurrencyLimit E scope limit s)"
| "serve E rand_id refused (Reset_Quota req) s = snd (ResetQuota E req s)"
| "serve E rand_id refused (Sync_Keys keys allow) s = snd (SyncKeys E keys allow s)"
| "serve E rand_id refused View_Keys s = snd (KeyViews E s)"
| "serve E rand_id refused (View_Key scope) s = snd (KeyViewForScope E scope s)"
| "serve E rand_id refused (Create_Plan plan scopes) s = snd (CreatePlanWithBindings E rand_id plan scopes s)"
| "serve E rand_id refused (Update_Plan patch scopes) s = snd (UpdatePlanWithBindings E rand_id patch scopes s)"
| "serve E rand_id refused (Delete_Plan pid) s = snd (DeletePlan E pid s)"
| "serve E rand_id refused (Create_Route route scopes) s = snd (CreateRoute E route scopes s)"
| "serve E rand_id refused (Update_Route patch scopes) s = snd (UpdateRoute E patch scopes s)"
| "serve E rand_id refused (Set_Routes scope bindings) s = snd (SetKeyRoutes E scope bindings s)"
| "serve E rand_id refused (Delete_Route rid) s = snd (DeleteRoute E rid s)"
| "serve E rand_id refused (Sync_Credentials credentials) s = snd (SyncConfigCredentials E credentials s)"
| "serve E rand_id refused (Create_Group input) s = snd (CreateResourceGroup E input s)"
| "serve E rand_id refused (Update_Group patch) s = snd (UpdateResourceGroup E patch s)"
| "serve E rand_id refused (Publish_Group gid revision reason archive) s = snd (PublishResourceGroup E gid revision reason archive s)"
| "serve E rand_id refused (Save_Plan plan expected reason) s = snd (SaveGroupPlan E plan expected reason s)"
| "serve E rand_id refused (Schedule scope mode pid expected reason) s = snd (ScheduleGroupBinding E scope mode pid expected reason s)"
| "serve E rand_id refused (Reset_Day scope gid reason) s = snd (ResetGroupDay E scope gid reason s)"
| "serve E rand_id refused (Cache_Labels ins labels) s = snd (CacheSharedLabels E ins labels s)"
| "serve E rand_id refused (Upsert_Price price) s = snd (Store_UpsertPrice refused price s)"
| "serve E rand_id refused (Delete_Price model) s = snd (Store_DeletePrice refused model s)"
| "serve E rand_id refused (Authorize_Request scope instant) s = snd (Authorize E scope instant s)"
| "serve E rand_id refused (Report_Block scope endpoint d) s = ReportQuotaBlock scope endpoint d s"
| "serve E rand_id refused (Admit_Group scope rid model requested generate) s = snd (AdmitGroup E scope rid model requested generate s)"
| "serve E rand_id refused (Acquire_Slot scope rid) s = snd (AcquireSlot scope rid s)"
| "serve E rand_id refused (Release_Slot rid) s = snd (ReleaseSlot rid s)"
| "serve E rand_id refused (Add_Log level msg) s = AddPluginLog level msg s"

text \<open>
  What a request relies on: a clock that does not go back past a publication, instants the arithmetic of quota windows
  covers, and an administrator that leaves the identifier of a new route to the store, as the management API does.
\<close>

fun admissible :: "env \<Rightarrow> request \<Rightarrow> State \<Rightarrow> bool" where
  "admissible E (Publish_Group gid revision reason archive) st = clock_after E (st_grouped st)"
| "admissible E (Create_Route route scopes) st = (TrimSpace (rte_id route) = [] \<and> routes_fit st)"
| "admissible E (Sync_Keys keys allow) st = storable (env_clock E 0)"
| "admissible E (Authorize_Request scope instant) st = now_ok (if IsZero instant then env_clock E 0 else instant)"
| "admissible E rq st = True"

section \<open>A request keeps the store in order\<close>

lemma in_order_cong:
  assumes "in_order s" "s_state s' = s_state s" "s_repo s' = s_repo s" "s_dirty s' = s_dirty s"
    "s_active_requests s' = s_active_requests s" "s_active_by_scope s' = s_active_by_scope s"
    "s_group_slots s' = s_group_slots s" "s_group_active s' = s_group_active s"
  shows "in_order s'"
  using assms synced_cong [of s' s] slots_cong [of s' s] by (simp add: in_order_def db_ok_def)

lemma in_order_slots:
  assumes "in_order s" "s_state s' = s_state s" "s_repo s' = s_repo s" "s_dirty s' = s_dirty s" "slots_ok s'"
  shows "in_order s'"
  using assms synced_cong [of s' s] by (simp add: in_order_def db_ok_def)

lemma AcquireSlot_in_order: "in_order s \<Longrightarrow> in_order (snd (AcquireSlot scope rid s))"
proof -
  assume o: "in_order s"
  obtain d s' where a: "AcquireSlot scope rid s = (d, s')" by (cases "AcquireSlot scope rid s")
  have ok: "slots_ok s" using o by (simp add: in_order_def)
  from a have "in_order s'"
  proof (cases rule: AcquireSlot_cases)
    case acquired
    show ?thesis unfolding acquired(1) by (rule in_order_slots [OF o]) (simp_all add: slots_take_key [OF ok acquired(6,7)])
  qed (use o in simp)
  then show ?thesis by (simp add: a)
qed

lemma ReleaseSlot_in_order: "in_order s \<Longrightarrow> in_order (snd (ReleaseSlot rid s))"
proof -
  assume o: "in_order s"
  obtain b s' where r: "ReleaseSlot rid s = (b, s')" by (cases "ReleaseSlot rid s")
  have ok: "slots_ok s" using o by (simp add: in_order_def)
  from r have "in_order s'"
  proof (cases rule: ReleaseSlot_cases)
    case (key scope)
    show ?thesis unfolding key(4) by (rule in_order_slots [OF o]) (simp_all add: slots_drop_key [OF ok key(2)])
  next
    case (group slot)
    show ?thesis unfolding group(5) by (rule in_order_slots [OF o]) (simp_all add: slots_drop_group [OF ok group(4)])
  qed (use o in simp)
  then show ?thesis by (simp add: r)
qed

lemma flush_in_order:
  assumes "in_order s" "flush_pending E s = Some s'"
  shows "in_order s'"
proof -
  note f = flush_pending_Some [OF assms(2)]
  have "s_repo s' = s_repo s \<or> (\<exists>refuses st ch d d'. s_repo s = Some d \<and> Save refuses st ch d = Inr d' \<and> s_repo s' = Some d')"
    using assms(2) by (auto simp: flush_pending_def split: if_splits option.splits sum.splits)
  then have "db_ok s'" using db_ok_saved [of s s'] f assms(1) by (simp add: in_order_def)
  moreover have "slots_ok s'" using f assms(1) slots_cong [of s' s] by (simp add: in_order_def)
  ultimately show ?thesis using f assms(1) by (simp add: in_order_def)
qed

lemma AdmitGroup_in_order:
  assumes "in_order s"
  shows "in_order (snd (AdmitGroup E scope rid model requested generate s))"
proof -
  obtain d s' where a: "AdmitGroup E scope rid model requested generate s = (d, s')"
    by (cases "AdmitGroup E scope rid model requested generate s")
  obtain b grouped where g: "group_binding (st_grouped (s_state s)) scope (env_clock E 0) = (b, grouped)" by (metis surj_pair)
  from a g have "in_order s'"
  proof (cases rule: AdmitGroup_cases)
    case refused
    then show ?thesis using flush_in_order [OF assms] by blast
  next
    case (looked group' policy)
    then show ?thesis using flush_in_order [OF assms] by blast
  next
    case (slot decision group' policy s1)
    have o: "in_order s1" by (rule flush_in_order [OF assms slot(2)])
    have na: "\<not> gdn_allowed decision" using slot(6) by (simp add: no_decision_def)
    show ?thesis
    proof (rule group_slot_gate_cases [OF slot(7) na], goal_cases)
      case 3
      have "slots_ok s1" using o by (simp add: in_order_def)
      then show ?case unfolding 3(2) by (intro in_order_slots [OF o]) (simp_all add: slots_take_group [OF _ 3(5,4)])
    qed (use o in simp_all)
  qed (use assms in simp_all)
  then show ?thesis by (simp add: a)
qed

lemma Authorize_in_order:
  assumes "in_order s" "now_ok (if IsZero instant then env_clock E 0 else instant)"
  shows "in_order (snd (Authorize E scope instant s))"
proof -
  let ?u = "updateResult E (authorize_state (TrimSpace scope) (if IsZero instant then env_clock E 0 else instant)) s"
  have o: "in_order (snd ?u)" by (rule authorize.update_in_order [OF assms])
  obtain d s1 where u: "?u = (d, s1)" by (cases ?u)
  then have o1: "in_order s1" using o by simp
  then have "in_order (s1\<lparr>s_blocked := b\<rparr>)" for b by (rule in_order_cong) simp_all
  then show ?thesis using o1 u assms(1) by (simp add: Authorize_def Let_def)
qed

lemma price_edit_in_order:
  assumes "in_order s" "prices_ok (st_prices (s_state s'))" "db_ok s'" "price_edit s s'"
  shows "in_order s'"
proof -
  obtain prices d where s': "s' = s\<lparr>s_state := (s_state s)\<lparr>st_prices := prices\<rparr>, s_repo := d\<rparr>"
    using assms(4) unfolding price_edit_def by blast
  have "state_ok (s_state s') = state_ok (s_state s)" by (rule state_ok_cong) (simp_all add: s')
  moreover have "routed_ok (s_state s') = routed_ok (s_state s)" by (simp add: s' routed_ok_def lookup_key_def)
  moreover have "state_wf (s_state s') = state_wf (s_state s)" by (simp add: s' state_wf_def)
  ultimately have "good (s_state s')" using assms(1,2) by (simp add: in_order_def good_def) (simp add: s')
  moreover have "slots_ok s'" using assms(1) slots_cong [of s' s] by (simp add: in_order_def s')
  moreover have "store_synced s'" using price_edit_synced [OF assms(4)] assms(1) by (simp add: in_order_def)
  ultimately show ?thesis using assms(3) by (simp add: in_order_def)
qed

lemma prices_in_order:
  assumes "in_order s"
  shows "in_order (snd (Store_UpsertPrice refused price s))" "in_order (snd (Store_DeletePrice refused model s))"
proof -
  have p: "prices_ok (st_prices (s_state s))" "db_ok s" using assms by (simp_all add: in_order_def good_def)
  obtain r s' where u: "Store_UpsertPrice refused price s = (r, s')" by (cases "Store_UpsertPrice refused price s")
  show "in_order (snd (Store_UpsertPrice refused price s))"
    using Store_UpsertPrice_ok [OF p u] price_edit_in_order [OF assms] by (simp add: u)
  obtain q s' where d: "Store_DeletePrice refused model s = (q, s')" by (cases "Store_DeletePrice refused model s")
  show "in_order (snd (Store_DeletePrice refused model s))"
    using Store_DeletePrice_ok [OF p d] price_edit_in_order [OF assms] by (simp add: d)
qed

lemma ReportQuotaBlock_in_order: "in_order s \<Longrightarrow> in_order (ReportQuotaBlock scope endpoint d s)"
  by (rule in_order_cong [of s]) (auto simp: ReportQuotaBlock_def Let_def split: prod.split)

lemma AddPluginLog_in_order: "in_order s \<Longrightarrow> in_order (AddPluginLog level msg s)"
  by (rule in_order_cong [of s]) (simp_all add: AddPluginLog_def)

text \<open>
  An operation that only validates its input before the edit leaves the store alone when it refuses; the interpretations
  of the contract settle the edit itself.
\<close>

lemmas edits_in_order = bind.edit_in_order unbind.edit_in_order label.edit_in_order limit.edit_in_order reset.edit_in_order
  create_plan.edit_in_order update_plan.edit_in_order delete_plan.edit_in_order update_route.edit_in_order
  key_routes.edit_in_order delete_route.edit_in_order credentials.edit_in_order update_group.edit_in_order save_plan.edit_in_order
  schedule.edit_in_order reset_day.edit_in_order labels.edit_in_order views.update_in_order view.update_in_order

lemmas operation_defs = BindKey_def UnbindKey_def SetLabel_def SetConcurrencyLimit_def ResetQuota_def KeyViews_def
  KeyViewForScope_def CreatePlanWithBindings_def UpdatePlanWithBindings_def DeletePlan_def UpdateRoute_def SetKeyRoutes_def
  DeleteRoute_def SyncConfigCredentials_def UpdateResourceGroup_def SaveGroupPlan_def ScheduleGroupBinding_def
  ResetGroupDay_def CacheSharedLabels_def

lemma serve_in_order:
  assumes "in_order s" "admissible E rq (s_state s)"
  shows "in_order (serve E rand_id refused rq s)"
proof (cases rq)
  case (Create_Route route scopes)
  then show ?thesis using create_route.edit_in_order [OF assms(1)] assms(2) by (simp add: CreateRoute_def)
next
  case (Create_Group input)
  then show ?thesis
    using create_group.edit_in_order [OF assms(1)] assms(1) by (cases "normalizeGroup input") (simp_all add: CreateResourceGroup_def)
next
  case (Publish_Group gid revision reason archive)
  then show ?thesis
    using publish_group.edit_in_order [OF assms(1)] assms
    by (cases "groupReason reason") (simp_all add: PublishResourceGroup_def)
next
  case (Sync_Keys keys allow)
  then show ?thesis using sync.edit_in_order [OF assms(1)] assms by (simp add: SyncKeys_def Let_def)
next
  case (Set_Routes scope bindings)
  then show ?thesis
    using key_routes.edit_in_order [OF assms(1)] assms(1) NormalizeRouteBindings_idem
    by (cases "NormalizeRouteBindings bindings") (simp_all add: SetKeyRoutes_def Let_def)
next
  case (Authorize_Request scope instant)
  then show ?thesis using Authorize_in_order assms by simp
qed (use assms(1) in \<open>auto simp: operation_defs Let_def edits_in_order AdmitGroup_in_order AcquireSlot_in_order
    ReleaseSlot_in_order prices_in_order ReportQuotaBlock_in_order AddPluginLog_in_order split: sum.splits\<close>)

section \<open>Steps\<close>

text \<open>
  The plugin: the store and the reference prices behind it. Beside requests, it records usage, resolves prices (which
  may download a catalogue), refreshes the catalogue when asked to, is configured and is closed.
\<close>

record system =
  sys_store :: Store
  sys_refs :: "referencePriceManager option"

definition new_system :: system where
  "new_system = \<lparr>sys_store = new_store, sys_refs = None\<rparr>"

text \<open>The catalogue of a database just created: no metadata and no rows.\<close>

definition new_references :: referencePriceManager where
  "new_references =
     \<lparr>mg_db = \<lparr>rdb_meta = None, rdb_rows = []\<rparr>, mg_closed = False, mg_meta = no_metadata, mg_sequence = 0, mg_refreshing = False,
      mg_last_error = None, mg_entries = [], mg_logs = []\<rparr>"

lemma new_references_open: "openReferencePrices (Inr \<lparr>rdb_meta = None, rdb_rows = []\<rparr>) None = Inr new_references"
  by (simp add: openReferencePrices_def LoadReferencePriceMetadata_def new_references_def)

text \<open>Configuring reads a new database, unless the path is that of the open one; the catalogue is swapped with it.\<close>

inductive step :: "system \<Rightarrow> system \<Rightarrow> bool" where
  Request: "admissible E rq (s_state (sys_store sys)) \<Longrightarrow>
    step sys (sys\<lparr>sys_store := serve E rand_id refused rq (sys_store sys)\<rparr>)"
| Usage: "recordUsage E R refuses event failure (sys_refs sys) (sys_store sys) = (refs, s) \<Longrightarrow>
    nul_free (ue_upstream event) \<Longrightarrow> nul_free (ue_route_model event) \<Longrightarrow> in_int64 (tok_total (ue_breakdown event)) \<Longrightarrow>
    step sys \<lparr>sys_store = s, sys_refs = refs\<rparr>"
| Price: "ResolveModelPrice R refuses1 refuses2 now (st_prices (s_state (sys_store sys))) (st_prices (s_state (sys_store sys))) switched
      upstream requested refresh (sys_refs sys) = (result, refs) \<Longrightarrow> nul_free upstream \<Longrightarrow> nul_free requested \<Longrightarrow>
    step sys (sys\<lparr>sys_refs := refs\<rparr>)"
| Ensure: "EnsureReferencePrices R (sys_refs sys) = (result, refs) \<Longrightarrow> step sys (sys\<lparr>sys_refs := refs\<rparr>)"
| Refresh: "RefreshReferencePrices R (sys_refs sys) = (result', refs) \<Longrightarrow> step sys (sys\<lparr>sys_refs := refs\<rparr>)"
| Configured: "Configure E abs_path (\<lambda>_. Inr new_disk) references_error cfg (sys_store sys) = (r, s) \<Longrightarrow>
    refs = (if s_path s = s_path (sys_store sys) then sys_refs sys else Some new_references) \<Longrightarrow>
    step sys \<lparr>sys_store = s, sys_refs = refs\<rparr>"
| Closed: "step sys \<lparr>sys_store = Close (sys_store sys), sys_refs = None\<rparr>"

inductive reachable :: "system \<Rightarrow> bool" where
  Start: "reachable new_system"
| Step: "reachable sys \<Longrightarrow> step sys sys' \<Longrightarrow> reachable sys'"

section \<open>The invariant\<close>

lemma new_state_good: "good NewState"
  by (simp add: good_def NewState_def NewGroupState_def state_wf_def grouped_wf_def wf_map_Nil state_ok_def plans_ok_def routes_ok_def
      routed_ok_def lookup_key_def ledger_ok_def groups_ok_def prices_ok_def)

lemma new_store_in_order: "in_order new_store"
  using new_state_good
  by (simp add: in_order_def new_store_def store_synced_def db_ok_def slots_ok_def good_def)

lemma Load_new: "Load cutoff new_disk = Inr (NewState, 0, new_disk)"
  by (simp add: Load_def Let_def fill_previews_def pruneRequestEvents_def loadPlans_def loadPrices_def loadGroupedState_def
      new_disk_def NewState_def NewGroupState_def map_values_def)

lemma new_disk_synced: "on_disk new_disk p = in_memory NewState p"
  by (cases p) (simp_all add: new_disk_def NewState_def NewGroupState_def lookup_key_def label_rows_def)

lemma opened_in_order:
  assumes "in_order s" "s_state s' = NewState" "s_repo s' = Some new_disk" "s_dirty s' = no_changes"
    "s_active_requests s' = s_active_requests s" "s_active_by_scope s' = s_active_by_scope s"
    "s_group_slots s' = s_group_slots s" "s_group_active s' = s_group_active s"
  shows "in_order s'"
proof -
  have "store_synced s'" using assms(2-4) new_state_good new_disk_synced by (simp add: store_synced_def in_sync_def good_def)
  moreover have "db_ok s'" using assms(2,3) by (simp add: db_ok_def new_disk_def price_rows_ok_def NewState_def wf_map_Nil)
  moreover have "slots_ok s'" using assms slots_cong [of s' s] by (simp add: in_order_def)
  ultimately show ?thesis using assms(2) new_state_good by (simp add: in_order_def)
qed

lemma Configure_cases:
  assumes "Configure E abs_path (\<lambda>_. Inr new_disk) references_error cfg s = (r, s')"
  obtains (kept) "s_state s' = s_state s" "s_repo s' = s_repo s" "s_dirty s' = s_dirty s"
  | (opened) "s_state s' = NewState" "s_repo s' = Some new_disk" "s_dirty s' = no_changes"
proof (cases "abs_path (cfg_state_file (config_normalized cfg))")
  case (Inl e)
  then show ?thesis using assms kept by (simp add: Configure_def Let_def)
next
  case (Inr path)
  show ?thesis
  proof (cases "s_path s = path")
    case True
    then show ?thesis using assms Inr kept by (auto simp: Configure_def Let_def split: if_splits)
  next
    case False
    show ?thesis
    proof (cases references_error)
      case None
      then show ?thesis using assms Inr False opened by (auto simp: Configure_def Let_def Load_new)
    next
      case (Some e)
      then show ?thesis using assms Inr False kept by (simp add: Configure_def Let_def Load_new)
    qed
  qed
qed

lemma Configure_slots:
  assumes "Configure E abs_path open_db references_error cfg s = (r, s')"
  shows "s_active_requests s' = s_active_requests s \<and> s_active_by_scope s' = s_active_by_scope s \<and>
    s_group_slots s' = s_group_slots s \<and> s_group_active s' = s_group_active s"
  using assms by (auto simp: Configure_def Let_def split: sum.splits if_splits option.splits prod.splits)

lemma Configure_in_order:
  assumes "in_order s" "Configure E abs_path (\<lambda>_. Inr new_disk) references_error cfg s = (r, s')"
  shows "in_order s'"
proof -
  note slots = Configure_slots [OF assms(2)]
  from assms(2) show ?thesis
  proof (cases rule: Configure_cases)
    case kept
    then show ?thesis using slots by (intro in_order_cong [OF assms(1)]) simp_all
  next
    case opened
    then show ?thesis using slots by (intro opened_in_order [OF assms(1)]) simp_all
  qed
qed

lemma Close_in_order: "in_order s \<Longrightarrow> in_order (Close s)"
  by (simp add: in_order_def Close_def store_synced_def db_ok_def slots_ok_def)

lemma recordUsage_in_order:
  assumes "in_order s" "refs_ok refs" "recordUsage E R refuses event failure refs s = (refs', s')"
    "nul_free (ue_upstream event)" "nul_free (ue_route_model event)" "in_int64 (tok_total (ue_breakdown event))"
  shows "in_order s' \<and> refs_ok refs'"
proof -
  have p: "prices_ok (st_prices (s_state s))" using assms(1) by (simp add: in_order_def good_def)
  obtain price model s1 m su where c: "price_ok price" "refs_ok refs'" "relogged s s1" "relogged su s'"
    "updateResult E (usage_state (s_cfg s) event failure (if IsZero (ue_at event) then env_clock E 0 else ue_at event) price model) s1 = (m, su)"
    by (rule recordUsage_cases [OF p assms(2,4,5,3)])
  have o: "in_order s1" using relogged_same [OF c(3)] by (intro in_order_cong [OF assms(1)]) simp_all
  have "in_order (snd (updateResult E (usage_state (s_cfg s) event failure
      (if IsZero (ue_at event) then env_clock E 0 else ue_at event) price model) s1))"
    by (rule usage.update_in_order [OF o, where price = price and event = event]) (rule conjI [OF c(1) assms(6)])
  then have u: "in_order su" by (simp add: c(5))
  have "in_order s'" using relogged_same [OF c(4)] by (intro in_order_cong [OF u]) simp_all
  then show ?thesis using c(2) by blast
qed

lemma new_references_ok: "refs_ok (Some new_references)"
  by (simp add: refs_ok_def manager_ok_def new_references_def table_ok_def references_ok_def coherent_def cache_valid_def)

lemma step_keeps:
  assumes "step sys sys'" "in_order (sys_store sys)" "refs_ok (sys_refs sys)"
  shows "in_order (sys_store sys') \<and> refs_ok (sys_refs sys')"
  using assms
proof (induction rule: step.induct)
  case (Request E rq sys rand_id refused)
  have "in_order (serve E rand_id refused rq (sys_store sys))" by (rule serve_in_order [OF Request(2,1)])
  then show ?case using Request(3) by simp
next
  case (Usage E R refuses event failure sys refs s)
  from recordUsage_in_order [OF Usage(5,6,1-4)] show ?case by simp
next
  case (Price R refuses1 refuses2 now sys switched upstream requested refresh result refs)
  have p: "prices_ok (st_prices (s_state (sys_store sys)))" using Price(4) by (simp add: in_order_def good_def)
  obtain price model err where e: "result = (price, model, err)" by (cases result)
  from ResolveModelPrice_facts [OF Price(5,2,3) p p Price(1) [unfolded e]] have "refs_ok refs" by (rule conjunct1)
  then show ?case using Price(4) by simp
next
  case (Ensure R sys result refs)
  obtain m err where "result = (m, err)" by (cases result)
  then have "refresh_references R False (snd (references_status (sys_refs sys))) True (sys_refs sys) = ((m, err), refs)"
    using Ensure(1) by (simp add: EnsureReferencePrices_def)
  from refresh_references_ok [OF Ensure(3) this] have "refs_ok refs" by (rule conjunct1)
  then show ?case using Ensure(2) by simp
next
  case (Refresh R sys result' refs)
  obtain before observed where st: "references_status (sys_refs sys) = (before, observed)" by (cases "references_status (sys_refs sys)")
  obtain m err refs' where r: "refresh_references R True observed True (sys_refs sys) = ((m, err), refs')" by (metis surj_pair)
  have "refs' = refs" using Refresh(1) by (simp add: RefreshReferencePrices_def st r Let_def)
  with r have "refresh_references R True observed True (sys_refs sys) = ((m, err), refs)" by simp
  from refresh_references_ok [OF Refresh(3) this] have "refs_ok refs" by (rule conjunct1)
  then show ?case using Refresh(2) by simp
next
  case (Configured E abs_path references_error cfg sys r s refs)
  have "in_order s" by (rule Configure_in_order [OF Configured(3,1)])
  then show ?case using Configured(2,4) new_references_ok by simp
next
  case (Closed sys)
  then show ?case using Close_in_order by (simp add: refs_ok_def)
qed

lemma reachable_in_order: "reachable sys \<Longrightarrow> in_order (sys_store sys) \<and> refs_ok (sys_refs sys)"
proof (induction rule: reachable.induct)
  case Start
  then show ?case using new_store_in_order by (simp add: new_system_def refs_ok_def)
next
  case (Step sys sys')
  then show ?case using step_keeps by blast
qed

section \<open>Every reachable state\<close>


text \<open>A plugin that was configured and given a price.\<close>

definition opened_store :: Store where
  "opened_store = snd (Configure calm Inr (\<lambda>_. Inr new_disk) None DefaultConfig new_store)"

lemma opened_step: "step new_system \<lparr>sys_store = opened_store, sys_refs = Some new_references\<rparr>"
proof (rule Configured [where E = calm and abs_path = Inr and references_error = None and cfg = DefaultConfig])
  show "Configure calm Inr (\<lambda>_. Inr new_disk) None DefaultConfig (sys_store new_system) = (Inr (), opened_store)"
    by (simp add: opened_store_def new_system_def Configure_def Let_def Load_new new_store_def config_normalized_def DefaultConfig_def
        DefaultStateFile_def)
qed (simp add: opened_store_def new_system_def Configure_def Let_def Load_new new_store_def config_normalized_def DefaultConfig_def
        DefaultStateFile_def)

lemma opened_fields: "s_state opened_store = NewState" "s_repo opened_store = Some new_disk" "s_dirty opened_store = no_changes"
  by (simp_all add: opened_store_def Configure_def Let_def Load_new new_store_def config_normalized_def DefaultConfig_def
      DefaultStateFile_def)

lemma opened_upsert: "Store_UpsertPrice None sample_price opened_store =
    (Inr sample_price, opened_store\<lparr>s_state := NewState\<lparr>st_prices := [(NormalizeModelID ''gpt'', sample_price)]\<rparr>,
       s_repo := Some (new_disk\<lparr>dk_prices := [sample_price]\<rparr>)\<rparr>)"
proof -
  have v: "CustomPrice_Validate sample_price = Inr ()"
    by (simp add: CustomPrice_Validate_def TrimSpace_gpt sample_rates_valid sample_price_def)
  have "sample_price\<lparr>cp_model := TrimSpace (cp_model sample_price)\<rparr> = sample_price" "cp_model sample_price = ''gpt''"
    by (simp_all add: TrimSpace_gpt sample_price_def)
  then show ?thesis
    using v by (simp add: Store_UpsertPrice_def Let_def opened_fields NewState_def db_UpsertPrice_def put_price_row_def new_disk_def)
qed


end
