(* ===== verification/Credentials.thy ===== *)
theory Credentials
  imports HostText Scheduler System
begin

text \<open>
  The plugin's state (\<^verbatim>\<open>internal/plugin/app.go\<close>) and the part of it that knows the upstream credentials:
  the inventory of \<^verbatim>\<open>routing_credentials.go\<close>, keyed by the fingerprint of a credential and never by its raw
  identifier, and the pending route logs of \<^verbatim>\<open>routing_logs.go\<close>. Go maps are association lists with distinct
  keys; a pointer stored in a map is the entry itself. What the host answers (the list of credential files, a decoded
  request) is an argument.
\<close>

section \<open>The state of the plugin\<close>

record credentialView =
  cv_ref :: string
  cv_source :: string
  cv_provider :: string
  cv_name :: string
  cv_status :: string
  cv_disabled :: bool
  cv_unavailable :: bool

record pendingRouteLog =
  prl_sequence :: int
  prl_key :: string
  prl_model :: string
  prl_model_restricted :: bool
  prl_model_denied :: bool
  prl_credential_restricted :: bool
  prl_configuration_error :: bool
  prl_selected :: string

record requestAdmission =
  adm_calls :: int
  adm_completed :: bool

record App =
  app_sys :: system
  app_admissions :: "requestAdmission smap"
  app_credentials :: "credentialView smap"
  app_raw :: "string smap"
  app_index :: "string smap"
  app_scheduler :: scheduler
  app_pending :: "pendingRouteLog smap"
  app_sequence :: int

definition newApp :: App where
  "newApp = \<lparr>app_sys = new_system, app_admissions = [], app_credentials = [], app_raw = [], app_index = [],
     app_scheduler = [], app_pending = [], app_sequence = 0\<rparr>"

abbreviation app_store :: "App \<Rightarrow> Store" where
  "app_store a \<equiv> sys_store (app_sys a)"

definition set_store :: "Store \<Rightarrow> App \<Rightarrow> App" where
  "set_store s a = a\<lparr>app_sys := (app_sys a)\<lparr>sys_store := s\<rparr>\<rparr>"

section \<open>Where a credential comes from\<close>

definition CredentialSourceAuthFiles :: string where "CredentialSourceAuthFiles = ''auth-files''"
definition CredentialSourceAIProviders :: string where "CredentialSourceAIProviders = ''ai-providers''"

lemmas source_defs = CredentialSourceAuthFiles_def CredentialSourceAIProviders_def

record hostAuthFile =
  haf_id :: string
  haf_auth_index :: string
  haf_name :: string
  haf_type :: string
  haf_provider :: string
  haf_label :: string
  haf_status :: string
  haf_source :: string
  haf_path :: string
  haf_account :: string
  haf_disabled :: bool
  haf_unavailable :: bool
  haf_email :: string
  haf_project_id :: string
  haf_account_type :: string
  haf_runtime_only :: bool
  haf_modtime :: time

definition credentialSourceFromHost :: "hostAuthFile \<Rightarrow> string" where
  "credentialSourceFromHost f =
     (let source = ToLower (TrimSpace (haf_source f))
      in if haf_runtime_only f \<or> source = ''memory'' \<or> source = ''config'' \<or> prefix ''config:'' source
         then CredentialSourceAIProviders
         else if source = ''file'' \<or> TrimSpace (haf_path f) \<noteq> [] then CredentialSourceAuthFiles
         else [])"

definition credentialSourceFromCandidate :: "SchedulerAuthCandidate \<Rightarrow> string" where
  "credentialSourceFromCandidate c =
     (let backend = ToLower (TrimSpace (cand_attribute c ''source_backend''));
          source = ToLower (TrimSpace (cand_attribute c ''source''));
          runtimeOnly = EqualFold (TrimSpace (cand_attribute c ''runtime_only'')) ''true''
      in if backend \<in> {''config'', ''memory''} \<or> runtimeOnly \<or> prefix ''config:'' source \<or>
            source \<in> {''memory'', ''runtime'', ''runtime_only''}
         then CredentialSourceAIProviders
         else if backend \<in> {''file'', ''git'', ''objectstore'', ''postgres''} \<or> TrimSpace (cand_attribute c ''path'') \<noteq> [] \<or>
            source \<in> {''file'', ''filesystem'', ''git'', ''objectstore'', ''postgres''}
         then CredentialSourceAuthFiles
         else [])"

definition routingAllowsCredential :: "string \<Rightarrow> string \<Rightarrow> string \<Rightarrow> RoutingDecision \<Rightarrow> bool" where
  "routingAllowsCredential rawID source provider d =
     (let raw = TrimSpace rawID
      in AllowsCredential d (if raw = [] then [] else CredentialFingerprint raw) source provider)"

definition candidateAllowed :: "SchedulerAuthCandidate \<Rightarrow> RoutingDecision \<Rightarrow> bool" where
  "candidateAllowed c d = routingAllowsCredential (cand_id c) (credentialSourceFromCandidate c) (cand_provider c) d"

definition routingAllowsAuthFile :: "hostAuthFile \<Rightarrow> RoutingDecision \<Rightarrow> bool" where
  "routingAllowsAuthFile f d =
     (let source = credentialSourceFromHost f
      in if source = CredentialSourceAIProviders then False
         else routingAllowsCredential (haf_id f) (if source = [] then CredentialSourceAuthFiles else source)
                (if TrimSpace (haf_provider f) = [] then haf_type f else haf_provider f) d)"

section \<open>The inventory\<close>

text \<open>Labels shown in place of a name; the source writes them in Chinese, here byte for byte.\<close>

definition no_email_label :: string where
  "no_email_label = [CHR 0xE6, CHR 0x9C, CHR 0xAA, CHR 0xE6, CHR 0x8F, CHR 0x90, CHR 0xE4, CHR 0xBE, CHR 0x9B, CHR 0xE9, CHR 0x82, CHR 0xAE, CHR 0xE7, CHR 0xAE, CHR 0xB1]"

definition configured_label :: string where
  "configured_label = [CHR 0xE9, CHR 0x85, CHR 0x8D, CHR 0xE7, CHR 0xBD, CHR 0xAE, CHR 0xE5, CHR 0x87, CHR 0xAD, CHR 0xE8, CHR 0xAF, CHR 0x81, CHR 0x20]"

definition no_key_label :: string where
  "no_key_label = [CHR 0xE6, CHR 0x9C, CHR 0xAA, CHR 0xE9, CHR 0x85, CHR 0x8D, CHR 0xE7, CHR 0xBD, CHR 0xAE, CHR 0x20, CHR 0x41, CHR 0x50, CHR 0x49, CHR 0x20, CHR 0x4B, CHR 0x65, CHR 0x79]"

definition credentialDisplayName :: "hostAuthFile \<Rightarrow> string \<Rightarrow> string \<Rightarrow> string \<Rightarrow> string" where
  "credentialDisplayName f source provider ref =
     (if source = CredentialSourceAuthFiles
      then let email = cleanText (haf_email f) in if email = [] then no_email_label else email
      else safeCredentialName (if TrimSpace (haf_label f) = [] then haf_name f else haf_label f) (haf_account f) provider ref)"

definition host_entry :: "hostAuthFile \<Rightarrow> (string \<times> credentialView) option" where
  "host_entry f =
     (let ident = TrimSpace (haf_id f);
          ref = CredentialFingerprint ident;
          provider0 = ToLower (TrimSpace (haf_provider f));
          provider = (if provider0 = [] then ToLower (TrimSpace (haf_type f)) else provider0);
          source = credentialSourceFromHost f
      in if ident = [] \<or> source = [] then None
         else Some (ident, \<lparr>cv_ref = ref, cv_source = source, cv_provider = provider,
                cv_name = credentialDisplayName f source provider ref, cv_status = haf_status f,
                cv_disabled = haf_disabled f, cv_unavailable = haf_unavailable f\<rparr>))"

fun list_host :: "hostAuthFile list \<Rightarrow> credentialView smap \<times> string smap \<Rightarrow> credentialView smap \<times> string smap" where
  "list_host [] acc = acc"
| "list_host (f # fs) (views, raw) =
     (case host_entry f of
        None \<Rightarrow> list_host fs (views, raw)
      | Some (ident, v) \<Rightarrow> list_host fs (AList.update (cv_ref v) v views, AList.update ident (cv_ref v) raw))"

definition keep_configured :: "credentialView smap \<Rightarrow> credentialView smap \<Rightarrow> credentialView smap" where
  "keep_configured old views =
     fold (\<lambda>(ref, item) m. if cv_source item = CredentialSourceAIProviders \<and> \<not> has_key m ref then AList.update ref item m else m)
       old views"

definition keep_raw :: "credentialView smap \<Rightarrow> string smap \<Rightarrow> string smap \<Rightarrow> string smap" where
  "keep_raw views old raw =
     fold (\<lambda>(ident, ref) m. if has_key views ref then AList.update ident ref m else m) old raw"

definition refreshCredentialInventory :: "error + hostAuthFile list \<Rightarrow> App \<Rightarrow> (error + unit) \<times> App" where
  "refreshCredentialInventory files a =
     (case files of
        Inl e \<Rightarrow> (Inl e, a)
      | Inr files \<Rightarrow>
          (case list_host files ([], []) of
             (views, raw) \<Rightarrow>
               let views = keep_configured (app_credentials a) views
               in (Inr (), a\<lparr>app_credentials := views, app_raw := keep_raw views (app_raw a) raw\<rparr>)))"

definition observe_candidate :: "SchedulerAuthCandidate \<Rightarrow> App \<Rightarrow> App" where
  "observe_candidate c a =
     (let ident = TrimSpace (cand_id c);
          ref = CredentialFingerprint ident;
          source = credentialSourceFromCandidate c;
          provider = ToLower (TrimSpace (cand_provider c));
          name0 = (if source = CredentialSourceAuthFiles then no_email_label
                   else configured_label @ shortCredentialRef ref);
          name = (case map_of (app_credentials a) ref of
                    Some existing \<Rightarrow> (if cv_name existing \<noteq> [] then cv_name existing else name0)
                  | None \<Rightarrow> name0)
      in if ident = [] \<or> source = [] then a
         else a\<lparr>app_credentials := AList.update ref \<lparr>cv_ref = ref, cv_source = source, cv_provider = provider, cv_name = name,
                    cv_status = cand_status c, cv_disabled = False, cv_unavailable = False\<rparr> (app_credentials a),
                app_raw := AList.update ident ref (app_raw a)\<rparr>)"

definition observeCandidates :: "SchedulerAuthCandidate list \<Rightarrow> App \<Rightarrow> App" where
  "observeCandidates cs a = fold observe_candidate cs a"

definition observeCredentialUsage :: "string \<Rightarrow> string \<Rightarrow> string \<Rightarrow> string \<Rightarrow> App \<Rightarrow> App" where
  "observeCredentialUsage authIndex authType source scope a =
     (if \<not> EqualFold (TrimSpace authType) ''apikey'' then a
      else if CallerScope source = TrimSpace scope then a
      else if PreviewKey source = [] then a
      else let ref = (case map_of (app_index a) (TrimSpace authIndex) of None \<Rightarrow> [] | Some r \<Rightarrow> r)
           in case map_of (app_credentials a) ref of
                None \<Rightarrow> a
              | Some credential \<Rightarrow>
                  if cv_source credential \<noteq> CredentialSourceAIProviders then a
                  else a\<lparr>app_credentials := AList.update ref (credential\<lparr>cv_name := PreviewKey source\<rparr>) (app_credentials a)\<rparr>)"

section \<open>Configured credentials\<close>

record synced_item =
  syn_ref :: string
  syn_provider :: string
  syn_name :: string
  syn_disabled :: bool

definition synced_view :: "string \<Rightarrow> ConfigCredential \<Rightarrow> credentialView" where
  "synced_view ref item =
     \<lparr>cv_ref = ref, cv_source = CredentialSourceAIProviders, cv_provider = cc_provider item,
      cv_name = (if cc_key_preview item = [] then no_key_label else cc_key_preview item),
      cv_status = (if cc_disabled item then ''disabled'' else ''active''),
      cv_disabled = cc_disabled item, cv_unavailable = False\<rparr>"

definition replaceSyncedCredentials :: "ConfigCredential smap \<Rightarrow> ConfigCredential smap \<Rightarrow> App \<Rightarrow> App" where
  "replaceSyncedCredentials previous next' a =
     a\<lparr>app_raw := filter (\<lambda>(ident, ref). \<not> has_key previous ref) (app_raw a),
       app_credentials :=
         fold (\<lambda>(ref, item). AList.update ref (synced_view ref item)) next'
           (filter (\<lambda>(ref, v). \<not> has_key previous ref) (app_credentials a))\<rparr>"

fun synced_credentials :: "synced_item list \<Rightarrow> ConfigCredential smap \<Rightarrow> ConfigCredential smap option" where
  "synced_credentials [] m = Some m"
| "synced_credentials (i # is) m =
     (let ref = ToLower (TrimSpace (syn_ref i));
          provider = ToLower (TrimSpace (syn_provider i));
          preview = cleanText (syn_name i)
      in if \<not> ValidCredentialFingerprint ref \<or> provider = [] \<or> length provider > 160 \<or> cleanText provider \<noteq> provider then None
         else synced_credentials is
                (AList.update ref \<lparr>cc_provider = provider, cc_key_preview = PreviewKey (if preview = no_key_label then [] else preview),
                   cc_disabled = syn_disabled i\<rparr> m))"

text \<open>A management answer: its status, and its code when it is an error.\<close>

definition errorResponse :: "error \<Rightarrow> int \<times> string" where
  "errorResponse e =
     (case KindOf e of
        Some KindInvalid \<Rightarrow> (400, ''invalid'')
      | Some KindNotFound \<Rightarrow> (404, ''not_found'')
      | Some KindConflict \<Rightarrow> (409, ''conflict'')
      | None \<Rightarrow> (500, ''internal_error''))"

definition syncConfiguredCredentials :: "env \<Rightarrow> error + synced_item list \<Rightarrow> App \<Rightarrow> (int \<times> string) \<times> App" where
  "syncConfiguredCredentials E body a =
     (case body of
        Inl e \<Rightarrow> (errorResponse e, a)
      | Inr items \<Rightarrow>
          if length items > 4096 then ((400, ''invalid''), a)
          else case synced_credentials items [] of
                 None \<Rightarrow> ((400, ''invalid''), a)
               | Some next' \<Rightarrow>
                   let previous = ConfigCredentials (app_store a)
                   in case SyncConfigCredentials E next' (app_store a) of
                        (Inl e, s) \<Rightarrow> (errorResponse e, set_store s a)
                      | (Inr _, s) \<Rightarrow> ((200, []), replaceSyncedCredentials previous next' (set_store s a)))"

definition inventory_key :: "credentialView \<Rightarrow> string list" where
  "inventory_key v = [cv_source v, cv_provider v, cv_name v]"

definition credentialInventory :: "App \<Rightarrow> credentialView list" where
  "credentialInventory a = sort_key inventory_key (map snd (app_credentials a))"

definition credentialLabels :: "string list \<Rightarrow> App \<Rightarrow> string smap" where
  "credentialLabels refs a =
     fold (\<lambda>ref m. case map_of (app_credentials a) ref of
                     None \<Rightarrow> m
                   | Some item \<Rightarrow> AList.update ref (cv_provider item @ [CHR 0x20, CHR 0xC2, CHR 0xB7, CHR 0x20] @ cv_name item) m) refs []"

definition credentialByRawID :: "string \<Rightarrow> App \<Rightarrow> credentialView option" where
  "credentialByRawID ident a =
     (case map_of (app_raw a) (TrimSpace ident) of
        None \<Rightarrow> None
      | Some ref \<Rightarrow> map_of (app_credentials a) ref)"

fun missingCredentialRef :: "string list \<Rightarrow> App \<Rightarrow> string" where
  "missingCredentialRef [] a = []"
| "missingCredentialRef (ref # refs) a =
     (if \<not> has_key (app_credentials a) (ToLower (TrimSpace ref)) then ref else missingCredentialRef refs a)"

section \<open>Route logs\<close>

definition maxPendingRouteLogs :: nat where "maxPendingRouteLogs = 4096"

definition credentialLogName :: "credentialView \<Rightarrow> string" where
  "credentialLogName v =
     (if cv_source v = CredentialSourceAuthFiles
      then let value = cleanText (cv_name v)
           in if length value > 512 then take 512 value else cv_provider v @ [CHR 0x20, CHR 0xC2, CHR 0xB7, CHR 0x20] @ value
      else boundedLogValue (cv_provider v @ [CHR 0x20, CHR 0xC2, CHR 0xB7, CHR 0x20] @ cv_name v) 512)"

definition oldest_pending :: "pendingRouteLog smap \<Rightarrow> string" where
  "oldest_pending m =
     fst (fold (\<lambda>(ident, item) (oldestID, oldest).
            if oldestID = [] \<or> prl_sequence item < oldest then (ident, prl_sequence item) else (oldestID, oldest)) m ([], 0))"

definition beginRouteLog :: "string \<Rightarrow> string \<Rightarrow> RoutingDecision \<Rightarrow> App \<Rightarrow> App" where
  "beginRouteLog requestID scope d a =
     (let rid = TrimSpace requestID
      in if rid = [] \<or> (\<not> RestrictsModels d \<and> \<not> RestrictsCredentials d \<and> rd_error d = []) then a
         else let pending = (if length (app_pending a) \<ge> maxPendingRouteLogs
                             then AList.delete (oldest_pending (app_pending a)) (app_pending a) else app_pending a);
                  sequence = (app_sequence a + 1) mod 18446744073709551616
              in a\<lparr>app_sequence := sequence,
                   app_pending := AList.update rid
                     \<lparr>prl_sequence = sequence, prl_key = boundedLogValue (KeyDescription (app_store a) scope) 256,
                      prl_model = boundedLogValue (rd_model d) 512, prl_model_restricted = RestrictsModels d,
                      prl_model_denied = (RestrictsModels d \<and> \<not> AllowsModel d),
                      prl_credential_restricted = RestrictsCredentials d, prl_configuration_error = (rd_error d \<noteq> []),
                      prl_selected = []\<rparr> pending\<rparr>)"

definition observeRouteCredential :: "string \<Rightarrow> string \<Rightarrow> string \<Rightarrow> App \<Rightarrow> App" where
  "observeRouteCredential requestID credentialID credentialIndex a =
     (let rid = TrimSpace requestID; cid = TrimSpace credentialID; index = TrimSpace credentialIndex
      in if cid = [] then a
         else let a1 = (case map_of (app_raw a) cid of
                          Some ref \<Rightarrow> (if ref \<noteq> [] \<and> index \<noteq> [] then a\<lparr>app_index := AList.update index ref (app_index a)\<rparr> else a)
                        | None \<Rightarrow> a)
              in if rid = [] then a1
                 else case map_of (app_pending a1) rid of
                        None \<Rightarrow> a1
                      | Some pending \<Rightarrow>
                          a1\<lparr>app_pending := AList.update rid (pending\<lparr>prl_selected := cid\<rparr>) (app_pending a1)\<rparr>)"

definition noRoutedCredentialMessage :: string where
  "noRoutedCredentialMessage = [CHR 0xE5, CHR 0xBD, CHR 0x93, CHR 0xE5, CHR 0x89, CHR 0x8D, CHR 0xE6, CHR 0xB2, CHR 0xA1, CHR 0xE6, CHR 0x9C, CHR 0x89, CHR 0xE7, CHR 0xAC, CHR 0xA6, CHR 0xE5, CHR 0x90, CHR 0x88, CHR 0xE8, CHR 0xB7, CHR 0xAF, CHR 0xE7, CHR 0x94, CHR 0xB1, CHR 0xE8, CHR 0xA7, CHR 0x84, CHR 0xE5, CHR 0x88, CHR 0x99, CHR 0xE4, CHR 0xB8, CHR 0x94, CHR 0xE5, CHR 0x8F, CHR 0xAF, CHR 0xE7, CHR 0x94, CHR 0xA8, CHR 0xE7, CHR 0x9A, CHR 0x84, CHR 0xE4, CHR 0xB8, CHR 0x8A, CHR 0xE6, CHR 0xB8, CHR 0xB8, CHR 0xE5, CHR 0x87, CHR 0xAD, CHR 0xE8, CHR 0xAF, CHR 0x81]"

definition credential_row :: "RequestCompletion \<Rightarrow> pendingRouteLog \<Rightarrow> App \<Rightarrow> (string \<times> json) list" where
  "credential_row c p a =
     (let restricted = (if prl_credential_restricted p then [(''credential_policy'', JStr ''restricted'')]
                        else [(''credential_policy'', JStr ''unrestricted'')])
      in restricted @
         (if prl_configuration_error p then [(''credential_result'', JStr ''configuration_error'')]
          else if prl_model_denied p then [(''credential_result'', JStr ''not_reached'')]
          else if \<not> prl_credential_restricted p then [(''credential_result'', JStr ''unrestricted'')]
          else if prl_selected p \<noteq> []
            then [(''credential_result'', JStr ''selected''),
                  (''selected_credential'',
                     JStr (case credentialByRawID (prl_selected p) a of
                             Some v \<Rightarrow> credentialLogName v
                           | None \<Rightarrow> [CHR 0xE6, CHR 0x9C, CHR 0xAA, CHR 0xE7, CHR 0x9F, CHR 0xA5, CHR 0xE4, CHR 0xB8, CHR 0x8A, CHR 0xE6, CHR 0xB8, CHR 0xB8, CHR 0xE5, CHR 0x87, CHR 0xAD, CHR 0xE8, CHR 0xAF, CHR 0x81, CHR 0x20, CHR 0xC2, CHR 0xB7, CHR 0x20] @ shortCredentialRef (CredentialFingerprint (prl_selected p))))]
          else if rc_status c = 503 \<and> contains_str (rc_error c) noRoutedCredentialMessage
            then [(''credential_result'', JStr ''no_match'')]
          else [(''credential_result'', JStr ''not_observed'')]))"

definition route_row :: "RequestCompletion \<Rightarrow> pendingRouteLog \<Rightarrow> App \<Rightarrow> json" where
  "route_row c p a =
     JObj (sort_key fst
       ([(''key'', JStr (prl_key p)), (''model'', JStr (prl_model p)),
         (''model_policy'', JStr (if prl_model_restricted p then ''restricted'' else ''unrestricted'')),
         (''model_result'', JStr (if prl_configuration_error p then ''configuration_error''
                                  else if prl_model_denied p then ''deny'' else ''allow'')),
         (''outcome'', JStr (boundedLogValue (rc_outcome c) 64))] @
        credential_row c p a @ (if rc_status c > 0 then [(''status'', JNum (rc_status c))] else [])))"

definition finishRouteLog :: "RequestCompletion \<Rightarrow> App \<Rightarrow> App" where
  "finishRouteLog c a =
     (case map_of (app_pending a) (TrimSpace (rc_id c)) of
        None \<Rightarrow> a
      | Some p \<Rightarrow>
          let a1 = a\<lparr>app_pending := AList.delete (TrimSpace (rc_id c)) (app_pending a)\<rparr>
          in set_store (AddPluginLog PluginLogDebug (''route '' @ marshal (route_row c p a1)) (app_store a1)) a1)"

section \<open>The inventory is well-formed\<close>

definition entry_ok :: "string \<Rightarrow> credentialView \<Rightarrow> bool" where
  "entry_ok ref v \<longleftrightarrow> cv_ref v = ref \<and> ValidCredentialFingerprint ref \<and>
     cv_source v \<in> {CredentialSourceAuthFiles, CredentialSourceAIProviders} \<and> ToLower (cv_provider v) = cv_provider v \<and> cv_name v \<noteq> []"

definition views_ok :: "credentialView smap \<Rightarrow> bool" where
  "views_ok m \<longleftrightarrow> wf_map m \<and> (\<forall>ref v. map_of m ref = Some v \<longrightarrow> entry_ok ref v)"

definition raw_ok :: "credentialView smap \<Rightarrow> string smap \<Rightarrow> bool" where
  "raw_ok views m \<longleftrightarrow> wf_map m \<and>
     (\<forall>ident ref. map_of m ident = Some ref \<longrightarrow> ident \<noteq> [] \<and> ref = CredentialFingerprint ident \<and> has_key views ref)"

definition inventory_ok :: "App \<Rightarrow> bool" where
  "inventory_ok a \<longleftrightarrow> views_ok (app_credentials a) \<and> raw_ok (app_credentials a) (app_raw a)"

lemma views_ok_update: "views_ok m \<Longrightarrow> entry_ok ref v \<Longrightarrow> views_ok (AList.update ref v m)"
  by (simp add: views_ok_def)

lemma views_ok_filter: "views_ok m \<Longrightarrow> views_ok (filter P m)"
  by (auto simp: views_ok_def) (metis filter_is_subset map_of_SomeD subsetD wf_map_filter wf_map_mem_iff)

lemma raw_ok_mono: "raw_ok views m \<Longrightarrow> (\<And>ref. has_key views ref \<Longrightarrow> has_key views' ref) \<Longrightarrow> raw_ok views' m"
  by (simp add: raw_ok_def)

lemma raw_ok_update:
  "raw_ok views m \<Longrightarrow> ident \<noteq> [] \<Longrightarrow> has_key views (CredentialFingerprint ident) \<Longrightarrow> raw_ok views (AList.update ident (CredentialFingerprint ident) m)"
  by (simp add: raw_ok_def)

lemma raw_ok_add: "raw_ok views m \<Longrightarrow> raw_ok (AList.update ref v views) m"
  by (erule raw_ok_mono) simp

lemma label_texts: "no_email_label \<noteq> []" "configured_label \<noteq> []" "no_key_label \<noteq> []"
  by (simp_all add: no_email_label_def configured_label_def no_key_label_def)

lemma safeCredentialName_nonempty: "safeCredentialName raw account provider ref \<noteq> []"
  by (simp add: safeCredentialName_def Let_def upstream_credential_text_def)

lemma host_entry_ok: "host_entry f = Some (ident, v) \<Longrightarrow> entry_ok (cv_ref v) v \<and> ident \<noteq> [] \<and> cv_ref v = CredentialFingerprint ident"
  by (auto simp: host_entry_def Let_def entry_ok_def CredentialFingerprint_valid credentialSourceFromHost_def credentialDisplayName_def
      label_texts safeCredentialName_nonempty split: if_splits)

lemma list_host_ok:
  assumes "list_host fs (views, raw) = (views', raw')" "views_ok views" "raw_ok views raw"
  shows "views_ok views' \<and> raw_ok views' raw'"
  using assms
proof (induction fs "(views, raw)" arbitrary: views raw rule: list_host.induct)
  case (2 f fs views raw)
  show ?case
  proof (cases "host_entry f")
    case None
    then show ?thesis using 2 by simp
  next
    case (Some p)
    obtain ident v where p: "p = (ident, v)" by fastforce
    have e: "entry_ok (cv_ref v) v" "ident \<noteq> []" "cv_ref v = CredentialFingerprint ident"
      using host_entry_ok Some p by blast+
    have "views_ok (AList.update (cv_ref v) v views)" by (rule views_ok_update [OF 2(4) e(1)])
    moreover have "raw_ok (AList.update (cv_ref v) v views) (AList.update ident (cv_ref v) raw)"
      unfolding e(3) by (rule raw_ok_update [OF raw_ok_add [OF 2(5)] e(2)]) simp
    ultimately show ?thesis using 2(2) [OF Some p [symmetric]] 2(3) Some p by simp
  qed
qed simp

lemma keep_configured_ok:
  assumes "\<forall>(ref, v) \<in> set old. entry_ok ref v" "views_ok views"
  shows "views_ok (keep_configured old views) \<and> (\<forall>ref. has_key views ref \<longrightarrow> has_key (keep_configured old views) ref)"
  using assms
proof (induction old arbitrary: views)
  case (Cons p old)
  obtain ref v where p: "p = (ref, v)" by fastforce
  let ?m = "if cv_source v = CredentialSourceAIProviders \<and> \<not> has_key views ref then AList.update ref v views else views"
  have "views_ok ?m" using Cons.prems by (simp add: p views_ok_update)
  then have "views_ok (keep_configured old ?m) \<and> (\<forall>r. has_key ?m r \<longrightarrow> has_key (keep_configured old ?m) r)"
    using Cons by simp
  then show ?case by (auto simp: p keep_configured_def split: if_splits)
qed (simp add: keep_configured_def)

lemma keep_raw_ok:
  assumes "\<forall>(ident, ref) \<in> set old. ident \<noteq> [] \<and> ref = CredentialFingerprint ident" "raw_ok views raw"
  shows "raw_ok views (keep_raw views old raw)"
  using assms
proof (induction old arbitrary: raw)
  case (Cons p old)
  obtain ident ref where p: "p = (ident, ref)" by fastforce
  have "raw_ok views (if has_key views ref then AList.update ident ref raw else raw)"
    using Cons.prems by (auto simp: p raw_ok_update)
  then have "raw_ok views (keep_raw views old (if has_key views ref then AList.update ident ref raw else raw))"
    by (intro Cons.IH) (use Cons.prems in auto)
  then show ?case by (simp add: p keep_raw_def)
qed (simp add: keep_raw_def)

lemma refresh_inventory_ok:
  assumes "inventory_ok a" "refreshCredentialInventory files a = (r, a')"
  shows "inventory_ok a'"
proof (cases files)
  case (Inl e)
  then show ?thesis using assms by (simp add: refreshCredentialInventory_def)
next
  case (Inr fs)
  obtain views raw where l: "list_host fs ([], []) = (views, raw)" by fastforce
  have lr: "views_ok views" "raw_ok views raw"
    using list_host_ok [OF l] by (simp_all add: views_ok_def raw_ok_def)
  have old1: "entry_ok ref v" if "(ref, v) \<in> set (app_credentials a)" for ref v
    using that assms(1) by (simp add: inventory_ok_def views_ok_def wf_map_mem_iff)
  have old2: "ident \<noteq> [] \<and> ref = CredentialFingerprint ident" if "(ident, ref) \<in> set (app_raw a)" for ident ref
    using that assms(1) by (simp add: inventory_ok_def raw_ok_def wf_map_mem_iff)
  have old: "\<forall>(ref, v) \<in> set (app_credentials a). entry_ok ref v"
    "\<forall>(ident, ref) \<in> set (app_raw a). ident \<noteq> [] \<and> ref = CredentialFingerprint ident"
    using old1 old2 by blast+
  note k = keep_configured_ok [OF old(1) lr(1)]
  have "raw_ok (keep_configured (app_credentials a) views) raw" by (rule raw_ok_mono [OF lr(2)]) (use k in blast)
  then show ?thesis
    using assms(2) k keep_raw_ok [OF old(2)] by (auto simp: refreshCredentialInventory_def Inr l inventory_ok_def Let_def)
qed

lemma candidate_source: "credentialSourceFromCandidate c \<in> {[], CredentialSourceAuthFiles, CredentialSourceAIProviders}"
  unfolding credentialSourceFromCandidate_def Let_def by (simp split: if_split)

lemma observe_inventory_ok: "inventory_ok a \<Longrightarrow> inventory_ok (observe_candidate c a)"
proof -
  assume ok: "inventory_ok a"
  define ref where "ref = CredentialFingerprint (TrimSpace (cand_id c))"
  define source where "source = credentialSourceFromCandidate c"
  define name0 where "name0 = (if source = CredentialSourceAuthFiles then no_email_label else configured_label @ shortCredentialRef ref)"
  define name where "name = (case map_of (app_credentials a) ref of
      Some existing \<Rightarrow> (if cv_name existing \<noteq> [] then cv_name existing else name0) | None \<Rightarrow> name0)"
  define v where "v = \<lparr>cv_ref = ref, cv_source = source, cv_provider = ToLower (TrimSpace (cand_provider c)), cv_name = name,
      cv_status = cand_status c, cv_disabled = False, cv_unavailable = False\<rparr>"
  have shape: "observe_candidate c a = (if TrimSpace (cand_id c) = [] \<or> source = [] then a
      else a\<lparr>app_credentials := AList.update ref v (app_credentials a), app_raw := AList.update (TrimSpace (cand_id c)) ref (app_raw a)\<rparr>)"
    unfolding observe_candidate_def Let_def v_def name_def name0_def source_def ref_def by (rule refl)
  show ?thesis
  proof (cases "TrimSpace (cand_id c) = [] \<or> source = []")
    case True
    then show ?thesis using ok by (simp add: shape)
  next
    case False
    have "name0 \<noteq> []" by (simp add: name0_def label_texts)
    then have "name \<noteq> []" by (auto simp: name_def split: option.splits)
    then have e: "entry_ok ref v"
      using candidate_source [of c] False by (simp add: entry_ok_def v_def ref_def source_def CredentialFingerprint_valid)
    have "views_ok (AList.update ref v (app_credentials a))" using ok e by (simp add: inventory_ok_def views_ok_update)
    moreover have "raw_ok (AList.update ref v (app_credentials a)) (AList.update (TrimSpace (cand_id c)) ref (app_raw a))"
      unfolding ref_def by (rule raw_ok_update [OF raw_ok_add]) (use ok False in \<open>simp_all add: inventory_ok_def\<close>)
    ultimately show ?thesis using False by (simp add: shape inventory_ok_def)
  qed
qed

lemma observeCandidates_ok: "inventory_ok a \<Longrightarrow> inventory_ok (observeCandidates cs a)"
  unfolding observeCandidates_def by (induction cs arbitrary: a) (simp_all add: observe_inventory_ok)

lemma observeCredentialUsage_ok: "inventory_ok a \<Longrightarrow> inventory_ok (observeCredentialUsage i t source scope a)"
  by (auto simp: observeCredentialUsage_def Let_def inventory_ok_def views_ok_def entry_ok_def
      intro: raw_ok_add split: option.splits)

lemma synced_credentials_ok:
  "synced_credentials items m = Some m' \<Longrightarrow> (\<forall>(ref, c) \<in> set m. ValidCredentialFingerprint ref \<and> ToLower (cc_provider c) = cc_provider c) \<Longrightarrow>
     \<forall>(ref, c) \<in> set m'. ValidCredentialFingerprint ref \<and> ToLower (cc_provider c) = cc_provider c"
proof (induction items arbitrary: m)
  case (Cons i items)
  let ?ref = "ToLower (TrimSpace (syn_ref i))" and ?provider = "ToLower (TrimSpace (syn_provider i))"
  obtain c where r: "synced_credentials items (AList.update ?ref c m) = Some m'" and v: "ValidCredentialFingerprint ?ref"
    "cc_provider c = ?provider"
    using Cons.prems(1) by (auto simp: Let_def split: if_splits)
  have "\<forall>(ref, c) \<in> set (AList.update ?ref c m). ValidCredentialFingerprint ref \<and> ToLower (cc_provider c) = cc_provider c"
    using Cons.prems(2) v set_update_subset [of ?ref c m] by auto
  then show ?case by (rule Cons.IH [OF r])
qed simp

lemma replaceSynced_ok:
  assumes "inventory_ok a" "\<forall>(ref, c) \<in> set next'. ValidCredentialFingerprint ref \<and> ToLower (cc_provider c) = cc_provider c"
  shows "inventory_ok (replaceSyncedCredentials previous next' a)"
proof -
  let ?kept = "filter (\<lambda>(ref, v). \<not> has_key previous ref) (app_credentials a)"
  let ?raw = "filter (\<lambda>(ident, ref). \<not> has_key previous ref) (app_raw a)"
  have k: "views_ok ?kept" using assms(1) by (simp add: inventory_ok_def views_ok_filter)
  have fold_ok: "views_ok (fold (\<lambda>(ref, item). AList.update ref (synced_view ref item)) xs m) \<and>
      (\<forall>r. has_key m r \<longrightarrow> has_key (fold (\<lambda>(ref, item). AList.update ref (synced_view ref item)) xs m) r)"
    if "set xs \<subseteq> set next'" "views_ok m" for xs m
    using that
  proof (induction xs arbitrary: m)
    case (Cons x xs)
    obtain ref c where x: "x = (ref, c)" by fastforce
    have "entry_ok ref (synced_view ref c)"
      using assms(2) Cons.prems(1) by (auto simp: x entry_ok_def synced_view_def label_texts)
    then have "views_ok (AList.update ref (synced_view ref c) m)" using Cons.prems(2) by (simp add: views_ok_update)
    then have "views_ok (fold (\<lambda>(ref, item). AList.update ref (synced_view ref item)) xs (AList.update ref (synced_view ref c) m)) \<and>
      (\<forall>r. has_key (AList.update ref (synced_view ref c) m) r \<longrightarrow>
        has_key (fold (\<lambda>(ref, item). AList.update ref (synced_view ref item)) xs (AList.update ref (synced_view ref c) m)) r)"
      by (intro Cons.IH) (use Cons.prems in auto)
    then show ?case by (auto simp: x)
  qed simp
  have "has_key ?kept ref" if "map_of ?raw ident = Some ref" for ident ref
  proof -
    have wf: "wf_map (app_raw a)" using assms(1) by (simp add: inventory_ok_def raw_ok_def)
    have "map_of (app_raw a) ident = Some ref" "\<not> has_key previous ref"
      using that map_of_filter_wf [OF wf, of "\<lambda>ident ref. \<not> has_key previous ref" ident] by (auto split: option.splits if_splits)
    then have "has_key (app_credentials a) ref" using assms(1) by (auto simp: inventory_ok_def raw_ok_def)
    then show ?thesis using \<open>\<not> has_key previous ref\<close>
        map_of_filter_key [of "\<lambda>ref. \<not> has_key previous ref" "app_credentials a" ref] by (simp add: has_key_def)
  qed
  moreover have "wf_map ?raw" "\<And>ident ref. map_of ?raw ident = Some ref \<Longrightarrow> map_of (app_raw a) ident = Some ref"
    using assms(1) by (auto simp: inventory_ok_def raw_ok_def map_of_filter_wf split: option.splits if_splits)
  ultimately have "raw_ok ?kept ?raw" using assms(1) by (simp add: inventory_ok_def raw_ok_def)
  then show ?thesis
    using fold_ok [of next' ?kept] k raw_ok_mono by (auto simp: inventory_ok_def replaceSyncedCredentials_def)
qed

lemma inventory_ok_cong: "app_credentials a' = app_credentials a \<Longrightarrow> app_raw a' = app_raw a \<Longrightarrow> inventory_ok a' = inventory_ok a"
  by (simp add: inventory_ok_def)

lemma syncConfigured_ok: "inventory_ok a \<Longrightarrow> inventory_ok (snd (syncConfiguredCredentials E body a))"
proof -
  assume ok: "inventory_ok a"
  have "inventory_ok (set_store s a)" for s using ok by (simp add: set_store_def inventory_ok_def)
  moreover have "inventory_ok (replaceSyncedCredentials previous next' (set_store s a))"
    if "synced_credentials items [] = Some next'" for previous items next' s
    by (rule replaceSynced_ok) (use synced_credentials_ok [OF that] calculation in auto)
  ultimately show ?thesis using ok
    by (auto simp: syncConfiguredCredentials_def Let_def split: sum.splits option.splits prod.splits)
qed

section \<open>The pending route logs are bounded\<close>

definition pending_ok :: "App \<Rightarrow> bool" where
  "pending_ok a \<longleftrightarrow> [] \<notin> set (mkeys (app_pending a)) \<and> length (app_pending a) \<le> maxPendingRouteLogs"

lemma length_update: "length (AList.update k v m) = (if has_key m k then length m else Suc (length m))"
  by (induction m) (auto simp: has_key_def)

lemma mkeys_update: "fst ` set (AList.update k v m) = insert k (fst ` set m)"
  by (induction m) auto

lemma oldest_is_key:
  assumes "[] \<notin> set (mkeys m)" "m \<noteq> []"
  shows "oldest_pending m \<in> set (mkeys m)"
proof -
  let ?f = "\<lambda>(ident, item) (oldestID, oldest).
    if oldestID = [] \<or> prl_sequence item < oldest then (ident, prl_sequence item) else (oldestID, oldest)"
  have step: "fst (fold ?f xs acc) \<in> insert (fst acc) (set (mkeys xs))" for xs :: "pendingRouteLog smap" and acc
  proof (induction xs arbitrary: acc)
    case (Cons x xs)
    then show ?case by (cases x; cases acc) (fastforce split: if_splits)
  qed simp
  obtain ident item rest where m: "m = (ident, item) # rest" using assms(2) by (metis list.exhaust surj_pair)
  have "oldest_pending m = fst (fold ?f rest (ident, prl_sequence item))" by (simp add: oldest_pending_def m)
  then show ?thesis using step [of rest "(ident, prl_sequence item)"] by (simp add: m)
qed

lemma delete_shorter: "k \<in> set (mkeys m) \<Longrightarrow> length (AList.delete k m) < length m"
  unfolding AList.delete_eq by (induction m) (auto simp: le_imp_less_Suc)

lemma mkeys_delete: "fst ` set (AList.delete k m) \<subseteq> fst ` set m"
  by (auto simp: AList.delete_eq)

lemma beginRouteLog_pending: "pending_ok a \<Longrightarrow> pending_ok (beginRouteLog requestID scope d a)"
proof -
  assume ok: "pending_ok a"
  show ?thesis
  proof (cases "TrimSpace requestID = [] \<or> (\<not> RestrictsModels d \<and> \<not> RestrictsCredentials d \<and> rd_error d = [])")
    case True
    then show ?thesis using ok by (simp add: beginRouteLog_def Let_def)
  next
    case False
    define p where "p = (if length (app_pending a) \<ge> maxPendingRouteLogs
        then AList.delete (oldest_pending (app_pending a)) (app_pending a) else app_pending a)"
    obtain v where v: "app_pending (beginRouteLog requestID scope d a) = AList.update (TrimSpace requestID) v p"
      using False by (auto simp: beginRouteLog_def Let_def p_def)
    have keys: "fst ` set p \<subseteq> fst ` set (app_pending a)" by (simp add: p_def mkeys_delete)
    have "length p < maxPendingRouteLogs"
    proof (cases "length (app_pending a) \<ge> maxPendingRouteLogs")
      case True
      then have "app_pending a \<noteq> []" by (auto simp: maxPendingRouteLogs_def)
      then have "length p < length (app_pending a)"
        using ok True oldest_is_key [of "app_pending a"]
          delete_shorter [of "oldest_pending (app_pending a)" "app_pending a"] by (simp add: p_def pending_ok_def)
      then show ?thesis using ok by (simp add: pending_ok_def)
    qed (simp add: p_def)
    then show ?thesis using ok keys False unfolding pending_ok_def v by (auto simp only: length_update set_map mkeys_update split: if_splits)
  qed
qed

lemma observeRoute_pending: "pending_ok a \<Longrightarrow> pending_ok (observeRouteCredential r c i a)"
proof -
  assume ok: "pending_ok a"
  have "pending_ok b" if "app_pending b = AList.update (TrimSpace r) v (app_pending a)" "map_of (app_pending a) (TrimSpace r) = Some w"
    for b v w
  proof -
    have "has_key (app_pending a) (TrimSpace r)" using that(2) by (simp add: has_key_def)
    moreover have "TrimSpace r \<in> fst ` set (app_pending a)" using calculation by (simp only: has_key_iff set_map)
    ultimately show ?thesis using ok that(1) unfolding pending_ok_def by (auto simp only: length_update set_map mkeys_update if_True)
  qed
  moreover have "pending_ok b" if "app_pending b = app_pending a" for b using ok that by (simp add: pending_ok_def)
  ultimately show ?thesis by (auto simp: observeRouteCredential_def Let_def split: option.splits)
qed

lemma finishRoute_pending: "pending_ok a \<Longrightarrow> pending_ok (finishRouteLog c a)"
proof -
  assume ok: "pending_ok a"
  have "pending_ok b" if "app_pending b = AList.delete (TrimSpace (rc_id c)) (app_pending a)" for b
    using ok that mkeys_delete [of "TrimSpace (rc_id c)" "app_pending a"] length_filter_le
    by (auto simp: pending_ok_def AList.delete_eq intro: order_trans [OF length_filter_le])
  then show ?thesis using ok by (auto simp: finishRouteLog_def set_store_def Let_def split: option.splits)
qed

text \<open>Which operation touches which table.\<close>

lemma route_inventory:
  "inventory_ok (beginRouteLog r scope d a) = inventory_ok a"
  "inventory_ok (finishRouteLog c a) = inventory_ok a"
  "inventory_ok (observeRouteCredential r cid i a) = inventory_ok a"
  by (rule inventory_ok_cong; simp add: beginRouteLog_def finishRouteLog_def observeRouteCredential_def set_store_def Let_def
      split: option.split)+

lemma observe_pending [simp]: "app_pending (observe_candidate c a) = app_pending a"
  by (simp add: observe_candidate_def Let_def)

lemma inventory_pending:
  "app_pending (observeCandidates cs a) = app_pending a"
  "app_pending (observeCredentialUsage i t source scope a) = app_pending a"
  "app_pending (snd (refreshCredentialInventory files a)) = app_pending a"
  "app_pending (snd (syncConfiguredCredentials E body a)) = app_pending a"
proof -
  show "app_pending (observeCandidates cs a) = app_pending a"
    unfolding observeCandidates_def by (induction cs arbitrary: a) simp_all
qed (auto simp: observeCredentialUsage_def refreshCredentialInventory_def syncConfiguredCredentials_def replaceSyncedCredentials_def
    set_store_def Let_def split: option.splits sum.splits prod.splits)


lemma newApp_tables: "inventory_ok newApp" "pending_ok newApp"
  by (simp_all add: inventory_ok_def views_ok_def raw_ok_def pending_ok_def newApp_def)


end
