(* ===== verification/UsageFailure.thy ===== *)
theory UsageFailure
  imports HostText GoJson
begin

text \<open>
  \<^verbatim>\<open>internal/plugin/usage_failure.go\<close>: what is kept of a failed request. The upstream's answer is decoded by
  \<^verbatim>\<open>encoding/json\<close> with numbers left as text; the decoder is the parameter \<open>decode\<close> (the first JSON value of
  a text, when it is an object). Only a status, a type, a code and a message survive.
\<close>

datatype jvalue =
  VNull | VBool bool | VNumber string | VString string | VList "jvalue list" | VObj "(string \<times> jvalue) list"

type_synonym jobject = "(string \<times> jvalue) list"

definition maxFailureReason :: nat where "maxFailureReason = 300"

record usageFailureView =
  fv_status :: int
  fv_type :: string
  fv_reason :: string
  fv_body :: string

record normalizedFailure =
  nf_message :: string
  nf_type :: string
  nf_code :: string
  nf_status :: int

definition no_failure :: normalizedFailure where
  "no_failure = \<lparr>nf_message = [], nf_type = [], nf_code = [], nf_status = 0\<rparr>"

definition validFailureStatus :: "int \<Rightarrow> int" where
  "validFailureStatus status = (if status < 100 \<or> status > 599 then 0 else status)"

definition failureStatus :: "jvalue option \<Rightarrow> int" where
  "failureStatus v =
     (let parse = (\<lambda>raw. case ParseInt raw of None \<Rightarrow> 0 | Some n \<Rightarrow> validFailureStatus n)
      in case v of
           Some (VNumber n) \<Rightarrow> parse n
         | Some (VString s) \<Rightarrow> parse (TrimSpace s)
         | _ \<Rightarrow> 0)"

definition failureString :: "jvalue option \<Rightarrow> string" where
  "failureString v =
     (case v of
        Some (VString s) \<Rightarrow> TrimSpace s
      | Some (VNumber n) \<Rightarrow> n
      | _ \<Rightarrow> [])"

fun failureObjectAt :: "jobject \<Rightarrow> string list \<Rightarrow> jobject option" where
  "failureObjectAt doc [] = Some doc"
| "failureObjectAt doc (key # path) =
     (case map_of doc key of
        Some (VObj object') \<Rightarrow> failureObjectAt object' path
      | _ \<Rightarrow> None)"

definition from_brace :: "string \<Rightarrow> string" where
  "from_brace raw = (if CHR 0x7B \<in> set raw then dropWhile (\<lambda>c. c \<noteq> CHR 0x7B) raw else raw)"

fun first_some :: "'a option list \<Rightarrow> 'a option" where
  "first_some [] = None"
| "first_some (Some x # xs) = Some x"
| "first_some (None # xs) = first_some xs"

text \<open>The object that describes the failure, its message, and whether it is the root of the answer.\<close>

definition failure_node :: "jobject \<Rightarrow> (jobject \<times> string \<times> bool) option" where
  "failure_node doc =
     (case first_some (map (failureObjectAt doc) [[''error''], [''response'', ''error''], [''body'', ''error'']]) of
        Some node \<Rightarrow> Some (node, failureString (map_of node ''message''), False)
      | None \<Rightarrow>
          if failureString (map_of doc ''error'') \<noteq> [] then Some (doc, failureString (map_of doc ''error''), True)
          else if failureString (map_of doc ''message'') \<noteq> [] then Some (doc, failureString (map_of doc ''message''), True)
          else None)"

definition node_failure :: "jobject \<times> string \<times> bool \<Rightarrow> normalizedFailure \<times> string" where
  "node_failure n =
     (case n of (node, message, rootNode) \<Rightarrow>
        let type0 = failureString (map_of node ''type'');
            code = failureString (map_of node ''code'');
            status = failureString (map_of node ''status'');
            unnamed = (rootNode \<and> EqualFold type0 ''error'');
            errorType = (if unnamed then [] else type0);
            qualifier = (if unnamed then code
                         else if type0 = [] then (if status = [] then code else status) else type0)
        in (\<lparr>nf_message = message, nf_type = errorType, nf_code = code, nf_status = failureStatus (map_of node ''status'')\<rparr>, qualifier))"

definition parseJSONFailure :: "(string \<Rightarrow> jobject option) \<Rightarrow> string \<Rightarrow> normalizedFailure \<times> string" where
  "parseJSONFailure decode raw =
     (if raw = [] then (no_failure, [])
      else case decode (from_brace raw) of
             None \<Rightarrow> (no_failure, [])
           | Some doc \<Rightarrow>
               (case failure_node doc of
                  None \<Rightarrow> (no_failure, [])
                | Some n \<Rightarrow> node_failure n))"

definition marshalNormalizedFailure :: "normalizedFailure \<Rightarrow> string" where
  "marshalNormalizedFailure f =
     (if f = no_failure then []
      else marshal (JObj [(''error'', JObj (
             (if nf_message f = [] then [] else [(''message'', JStr (nf_message f))]) @
             (if nf_type f = [] then [] else [(''type'', JStr (nf_type f))]) @
             (if nf_code f = [] then [] else [(''code'', JStr (nf_code f))]) @
             (if nf_status f = 0 then [] else [(''status'', JNum (nf_status f))])))]))"

definition wide_colon :: string where "wide_colon = [CHR 0xEF, CHR 0xBC, CHR 0x9A]"
definition ellipsis :: string where "ellipsis = [CHR 0xE2, CHR 0x80, CHR 0xA6]"

definition stripFailureStatus :: "string \<Rightarrow> int \<Rightarrow> string" where
  "stripFailureStatus message statusCode =
     (let p1 = ''HTTP '' @ FormatInt statusCode @ wide_colon; p2 = ''HTTP '' @ FormatInt statusCode @ '':''
      in if statusCode = 0 then message
         else if prefix p1 message then TrimSpace (drop (length p1) message)
         else if prefix p2 message then TrimSpace (drop (length p2) message)
         else message)"

definition rune_text :: "piece list \<Rightarrow> string" where
  "rune_text ps = map char_of (concat (map (\<lambda>(r, bs). if r = 65533 then replacement_bytes else bs) ps))"

definition truncateFailureReason :: "string \<Rightarrow> string" where
  "truncateFailureReason reason0 =
     (let reason = TrimSpace reason0; ps = pieces reason
      in if length ps \<le> maxFailureReason then reason
         else TrimSpace (rune_text (take maxFailureReason ps)) @ ellipsis)"

definition formatFailureReason :: "int \<Rightarrow> string \<Rightarrow> string" where
  "formatFailureReason statusCode message =
     (let status = (if statusCode \<noteq> 0 then ''HTTP '' @ FormatInt statusCode else [])
      in if message = [] then status
         else if status = [] \<or> contains_str message status then truncateFailureReason message
         else truncateFailureReason (status @ wide_colon @ message))"

definition qualifyFailure :: "string \<Rightarrow> string \<Rightarrow> string" where
  "qualifyFailure message code =
     (if message = [] \<or> code = [] \<or> contains_str message code then message
      else message @ [CHR 0xEF, CHR 0xBC, CHR 0x88] @ code @ [CHR 0xEF, CHR 0xBC, CHR 0x89])"

definition usageFailureDetails :: "(string \<Rightarrow> jobject option) \<Rightarrow> UsageFailure \<Rightarrow> usageFailureView" where
  "usageFailureDetails decode failure =
     (let statusCode = validFailureStatus (uf_status failure); raw = TrimSpace (uf_body failure)
      in case parseJSONFailure decode raw of
           (parsed, qualifier) \<Rightarrow>
             let n1 = (if parsed = no_failure then no_failure\<lparr>nf_message := raw\<rparr> else parsed);
                 reason = formatFailureReason statusCode (qualifyFailure (nf_message n1) qualifier);
                 n2 = n1\<lparr>nf_message := truncateFailureReason (stripFailureStatus (nf_message n1) statusCode)\<rparr>;
                 n3 = (if statusCode \<noteq> 0 then n2\<lparr>nf_status := statusCode\<rparr> else n2)
             in \<lparr>fv_status = statusCode, fv_type = (if nf_code n3 = [] then nf_type n3 else nf_code n3),
                 fv_reason = reason, fv_body = marshalNormalizedFailure n3\<rparr>)"

section \<open>Bounds\<close>

lemma pieces_short: "list_all (\<lambda>p. length (snd p) \<le> 4) (cut_pieces bs)" (is "?P bs")
proof (induction "length bs" arbitrary: bs rule: less_induct)
  case less
  show ?case
  proof (cases bs)
    case (Cons a rest)
    have tails: "rest = b # r2 \<Longrightarrow> ?P r2" "rest = b # c # r3 \<Longrightarrow> ?P r3" "rest = b # c # d # r4 \<Longrightarrow> ?P r4" "?P rest" for b c d r2 r3 r4
      using less Cons by simp_all
    show ?thesis unfolding Cons cut_pieces.simps(2) [of a rest]
      using tails by (auto split: list.split simp del: cut_pieces.simps)
  qed simp
qed

lemma piece_length: "(r, bs) \<in> set (cut_pieces xs) \<Longrightarrow> length bs \<le> 4"
  using pieces_short [of xs] by (fastforce simp: list_all_iff)

lemma rune_text_length: "(\<And>r bs. (r, bs) \<in> set ps \<Longrightarrow> length bs \<le> 4) \<Longrightarrow> length (rune_text ps) \<le> 4 * length ps"
proof (induction ps)
  case (Cons p ps)
  obtain r bs where p: "p = (r, bs)" by fastforce
  have "length bs \<le> 4" using Cons.prems [of r bs] p by simp
  moreover have "length (rune_text ps) \<le> 4 * length ps" by (rule Cons.IH) (use Cons.prems in auto)
  ultimately show ?case by (simp add: p rune_text_def replacement_bytes_def)
qed (simp add: rune_text_def)

lemma pieces_length: "length s \<le> 4 * length (pieces s)"
proof -
  have "length (concat (map snd ps)) \<le> 4 * length ps" if "\<forall>(r, bs) \<in> set ps. length bs \<le> 4" for ps :: "piece list"
    using that by (induction ps) auto
  moreover have "\<forall>(r, bs) \<in> set (pieces s). length bs \<le> 4" using piece_length by (auto simp: pieces_def)
  ultimately have "length (concat (map snd (pieces s))) \<le> 4 * length (pieces s)" by blast
  then show ?thesis by (simp add: pieces_def cut_pieces_bytes)
qed

lemma truncate_length: "length (truncateFailureReason s) \<le> 1203"
proof (cases "length (pieces (TrimSpace s)) \<le> maxFailureReason")
  case True
  then show ?thesis using pieces_length [of "TrimSpace s"] by (simp add: truncateFailureReason_def Let_def maxFailureReason_def)
next
  case False
  have "length (rune_text (take maxFailureReason (pieces (TrimSpace s)))) \<le> 4 * length (take maxFailureReason (pieces (TrimSpace s)))"
    by (rule rune_text_length) (auto simp: pieces_def piece_length dest!: in_set_takeD)
  also have "\<dots> \<le> 1200" by (simp add: maxFailureReason_def)
  finally show ?thesis
    using False length_TrimSpace [of "rune_text (take maxFailureReason (pieces (TrimSpace s)))"]
    by (simp add: truncateFailureReason_def Let_def ellipsis_def)
qed

lemma validFailureStatus_range: "validFailureStatus n = 0 \<or> (100 \<le> validFailureStatus n \<and> validFailureStatus n \<le> 599)"
  by (simp add: validFailureStatus_def)

lemma status_text_length:
  assumes "0 \<le> n" "n \<le> 599"
  shows "length (FormatInt n) \<le> 3"
proof -
  have 1: "length (itoa k) \<le> 1" if "k < 10" for k using that by (simp add: itoa.simps [of k])
  have 2: "length (itoa k) \<le> 2" if "k < 100" for k
    using 1 [of "k div 10"] that by (subst itoa.simps) (simp add: less_mult_imp_div_less)
  have "length (itoa k) \<le> 3" if "k < 1000" for k
    using 2 [of "k div 10"] that by (subst itoa.simps) (simp add: less_mult_imp_div_less)
  then show ?thesis using assms by (simp add: FormatInt_def)
qed

lemma format_length: "n = 0 \<or> (100 \<le> n \<and> n \<le> 599) \<Longrightarrow> length (formatFailureReason n m) \<le> 1203"
  using truncate_length status_text_length [of n] by (auto simp: formatFailureReason_def Let_def)



end
