(* ===== verification/Gateway.thy ===== *)
theory Gateway
  imports Credentials UsageFailure
begin

text \<open>
  The calls the proxy makes for a client request: \<^verbatim>\<open>internal/plugin/intercept.go\<close> (admission before and
  after a credential is chosen, completion, usage) and \<open>pickCredential\<close> of \<^verbatim>\<open>scheduler.go\<close>. An admission
  is cut where other calls may come between: \<open>beginAdmission\<close>, the checks and the price, which may download a
  catalogue (\<open>check_request\<close>), the commit under the lock of admissions (\<open>commit_request\<close>) and
  \<open>endAdmission\<close>; \<open>interceptBeforeAuth\<close> is their composition. The pointer to an admission is the entry under
  its trimmed identifier: it is in the map from the first call to the end of the last one. Decoding of a
  request is an argument (\<open>Inl\<close> when it failed). Messages the source words in Chinese are glossed in English.
\<close>

section \<open>What a call finds outside\<close>

text \<open>
  The environment of the store's operations in order, that of the reference prices, the readings of the clock,
  \<open>strconv.Quote\<close>, the text of a float and its \<open>%.4f\<close>, and the RFC 3339 form of an instant.
\<close>

record host_env =
  he_env :: "nat \<Rightarrow> env"
  he_refs :: refs_env
  he_refuses1 :: "error option"
  he_refuses2 :: "error option"
  he_switched :: bool
  he_clock :: "nat \<Rightarrow> time"
  he_wall :: time
  he_quote :: "string \<Rightarrow> string"
  he_float :: "f64 \<Rightarrow> string"
  he_money :: "f64 \<Rightarrow> string"
  he_rfc3339 :: "time \<Rightarrow> string"

section \<open>Refusals\<close>

record RequestInterceptResponse =
  rsp_terminate :: bool
  rsp_status :: int
  rsp_headers :: "(string \<times> string) list"
  rsp_body :: string

definition pass :: RequestInterceptResponse where
  "pass = \<lparr>rsp_terminate = False, rsp_status = 0, rsp_headers = [], rsp_body = []\<rparr>"

record refusal =
  rf_anthropic :: string
  rf_openai :: string
  rf_code :: string

definition quotaExhaustedError :: refusal where
  "quotaExhaustedError = \<lparr>rf_anthropic = ''rate_limit_error'', rf_openai = ''rate_limit_error'', rf_code = ''rate_limit_exceeded''\<rparr>"

definition modelForbiddenError :: refusal where
  "modelForbiddenError = \<lparr>rf_anthropic = ''permission_error'', rf_openai = ''permission_error'', rf_code = ''insufficient_quota''\<rparr>"

definition refusalBody :: "string \<Rightarrow> refusal \<Rightarrow> string \<Rightarrow> string" where
  "refusalBody sourceFormat kind message =
     (let normalized = ToLower (TrimSpace sourceFormat)
      in marshal
           (if contains_str normalized ''claude'' \<or> contains_str normalized ''anthropic''
            then JObj [(''error'', JObj [(''code'', JStr (rf_code kind)), (''message'', JStr message), (''type'', JStr (rf_anthropic kind))]),
                       (''type'', JStr ''error'')]
            else JObj [(''error'', JObj [(''code'', JStr (rf_code kind)), (''message'', JStr message), (''type'', JStr (rf_openai kind))])]))"

definition maxRetryAfterSeconds :: int where "maxRetryAfterSeconds = 3600"

fun fceil :: "f64 \<Rightarrow> int" where
  "fceil (Fin x) = \<lceil>x\<rceil>"
| "fceil _ = 0"

text \<open>\<open>Duration.Seconds()\<close> adds the whole seconds and the rest in \<open>float64\<close>.\<close>

definition duration_seconds :: "duration \<Rightarrow> f64" where
  "duration_seconds d = fadd (f64_of_int (go_quo d second)) (fdiv (f64_of_int (go_rem d second)) (Fin (of_int second)))"

definition retryAfterSeconds :: "time \<Rightarrow> time \<Rightarrow> int" where
  "retryAfterSeconds resetAt now =
     (if IsZero resetAt then 0
      else let remaining = time_sub resetAt now
           in if remaining \<le> 0 then 1
              else let s = fceil (duration_seconds remaining)
                   in if s > maxRetryAfterSeconds then maxRetryAfterSeconds else s)"

definition json_header :: "string \<times> string" where
  "json_header = (''Content-Type'', ''application/json; charset=utf-8'')"

definition routingConfigurationResponse :: "string \<Rightarrow> string \<Rightarrow> RequestInterceptResponse" where
  "routingConfigurationResponse sourceFormat message =
     \<lparr>rsp_terminate = True, rsp_status = 503, rsp_headers = [json_header],
      rsp_body = refusalBody sourceFormat \<lparr>rf_anthropic = ''api_error'', rf_openai = ''server_error'', rf_code = ''routing_configuration_error''\<rparr> message\<rparr>"

definition priceRefusal :: "string \<Rightarrow> string \<Rightarrow> string \<Rightarrow> RequestInterceptResponse" where
  "priceRefusal format code message =
     \<lparr>rsp_terminate = True, rsp_status = 503, rsp_headers = [(''Content-Type'', ''application/json'')],
      rsp_body = refusalBody format \<lparr>rf_anthropic = ''cpa_key_billing_error'', rf_openai = ''cpa_key_billing_error'', rf_code = code\<rparr> message\<rparr>"

definition groupRefusal :: "host_env \<Rightarrow> string \<Rightarrow> GroupDecision \<Rightarrow> RequestInterceptResponse" where
  "groupRefusal H format d =
     (let r = (priceRefusal format (gdn_code d) (gdn_message d))\<lparr>rsp_status := gdn_status d\<rparr>;
          r1 = (if gdn_group d \<noteq> [] then r\<lparr>rsp_headers := rsp_headers r @ [(''X-Cpa-Billing-Group'', gdn_group d)]\<rparr> else r)
      in if \<not> IsZero (gdn_retry_at d)
         then r1\<lparr>rsp_headers := rsp_headers r1 @ [(''Retry-After'', FormatInt (retryAfterSeconds (gdn_retry_at d) (he_wall H)))]\<rparr>
         else r1)"

fun metric_name :: "QuotaMetric \<Rightarrow> string" where
  "metric_name QuotaAmount = ''amount_usd''"
| "metric_name QuotaTokens = ''tokens''"
| "metric_name QuotaRequests = ''requests''"

fun number_text :: "(f64 \<Rightarrow> string) \<Rightarrow> json_number \<Rightarrow> string" where
  "number_text show_float (JInt n) = FormatInt n"
| "number_text show_float (JFloat x) = show_float x"

fun number_float :: "json_number \<Rightarrow> f64" where
  "number_float (JInt n) = f64_of_int n"
| "number_float (JFloat x) = x"

definition Description :: "host_env \<Rightarrow> QuotaBalance \<Rightarrow> string" where
  "Description H b =
     (if qb_metric b = QuotaAmount
      then ''$'' @ he_money H (number_float (qb_used b)) @ '' / $'' @ he_money H (number_float (qb_limit b))
      else metric_name (qb_metric b) @ '' '' @ number_text (he_float H) (qb_used b) @ '' / '' @ number_text (he_float H) (qb_limit b))"

definition quotaExhaustedMessage :: "host_env \<Rightarrow> Decision \<Rightarrow> string" where
  "quotaExhaustedMessage H d =
     (let plan = (if TrimSpace (dec_plan_name d) = [] then TrimSpace (dec_plan_id d) else TrimSpace (dec_plan_name d));
          retryAt = qv_retry_at (dec_view d)
      in ''API key subscription quota exhausted:'' @
         concat (map (\<lambda>w. concat (map (\<lambda>b. '' '' @ he_quote H (qwv_name w) @ '' '' @ Description H b @ '', resets at '' @
             he_rfc3339 H (qwv_end w) @ '';'') (filter qb_blocked (qwv_dimensions w)))) (qv_windows (dec_view d))) @
         (if plan \<noteq> [] then '' on plan '' @ he_quote H plan else []) @ ''.'' @
         (if \<not> IsZero retryAt then '' Quota resets at '' @ he_rfc3339 H retryAt @ ''.'' else []))"

definition quotaExhaustedResponse :: "host_env \<Rightarrow> string \<Rightarrow> Decision \<Rightarrow> time \<Rightarrow> RequestInterceptResponse" where
  "quotaExhaustedResponse H sourceFormat d now =
     (let retryAfter = retryAfterSeconds (qv_retry_at (dec_view d)) now
      in \<lparr>rsp_terminate = True, rsp_status = 429,
          rsp_headers = json_header # (if retryAfter > 0 then [(''Retry-After'', FormatInt retryAfter)] else []),
          rsp_body = refusalBody sourceFormat quotaExhaustedError (quotaExhaustedMessage H d)\<rparr>)"

definition concurrencyLimitResponse :: "string \<Rightarrow> SlotDecision \<Rightarrow> RequestInterceptResponse" where
  "concurrencyLimitResponse sourceFormat d =
     \<lparr>rsp_terminate = True, rsp_status = 429, rsp_headers = [json_header, (''Retry-After'', ''1'')],
      rsp_body = refusalBody sourceFormat quotaExhaustedError
        (''API key concurrency limit reached: '' @ FormatInt (sd_active d) @ '' active requests of '' @ FormatInt (sd_limit d) @ '' allowed.'')\<rparr>"

fun join_comma :: "string list \<Rightarrow> string" where
  "join_comma [] = []"
| "join_comma [x] = x"
| "join_comma (x # y # rest) = x @ '', '' @ join_comma (y # rest)"

definition modelForbiddenMessage :: "host_env \<Rightarrow> RoutingDecision \<Rightarrow> string" where
  "modelForbiddenMessage H d =
     (let start = ''API key is not allowed to use model '' @ he_quote H (rd_model d)
      in if \<exists>m \<in> set (rr_denied_models (rd_rule d)). EqualFold m (rd_model d)
         then start @ ''. The model is denied by a routing rule.''
         else let allowed = filter (\<lambda>m. AllowsModel (d\<lparr>rd_model := m\<rparr>)) (rr_models (rd_rule d));
                  shown = min (length allowed) 5;
                  omitted = length allowed - shown
              in if allowed = [] then start @ ''. No models are allowed by the routing rules.''
                 else start @ ''. Allowed models: '' @ join_comma (take shown allowed) @
                      (if omitted > 0 then '' and '' @ FormatInt (int omitted) @ '' more'' else []) @ ''.'')"

definition modelForbiddenResponse :: "host_env \<Rightarrow> string \<Rightarrow> RoutingDecision \<Rightarrow> RequestInterceptResponse" where
  "modelForbiddenResponse H sourceFormat d =
     \<lparr>rsp_terminate = True, rsp_status = 403, rsp_headers = [json_header],
      rsp_body = refusalBody sourceFormat modelForbiddenError (modelForbiddenMessage H d)\<rparr>"

section \<open>Admission\<close>

definition beginAdmission :: "string \<Rightarrow> App \<Rightarrow> App" where
  "beginAdmission requestID a =
     (let rid = TrimSpace requestID
      in if rid = [] then a
         else let e = (case map_of (app_admissions a) rid of None \<Rightarrow> \<lparr>adm_calls = 0, adm_completed = False\<rparr> | Some e \<Rightarrow> e)
              in a\<lparr>app_admissions := AList.update rid (e\<lparr>adm_calls := adm_calls e + 1\<rparr>) (app_admissions a)\<rparr>)"

definition endAdmission :: "string \<Rightarrow> App \<Rightarrow> App" where
  "endAdmission requestID a =
     (let rid = TrimSpace requestID
      in if rid = [] then a
         else case map_of (app_admissions a) rid of
                None \<Rightarrow> a
              | Some e \<Rightarrow>
                  if adm_calls e - 1 = 0 then a\<lparr>app_admissions := AList.delete rid (app_admissions a)\<rparr>
                  else a\<lparr>app_admissions := AList.update rid (e\<lparr>adm_calls := adm_calls e - 1\<rparr>) (app_admissions a)\<rparr>)"

definition is_helper :: "RequestInterceptRequest \<Rightarrow> bool" where
  "is_helper req \<longleftrightarrow> metadataString (rq_meta req) ''source'' = ''plugin_host_model_callback''"

definition caller_scope :: "metadata \<Rightarrow> string" where
  "caller_scope m = metadataString m ''caller_scope''"

definition wants_generate :: "RequestInterceptRequest \<Rightarrow> bool" where
  "wants_generate req = (case map_of (rq_meta req) ''generate'' of Some (MetaBool b) \<Rightarrow> b | _ \<Rightarrow> True)"

definition check_routing :: "host_env \<Rightarrow> RequestInterceptRequest \<Rightarrow> App \<Rightarrow> RequestInterceptResponse option \<times> App" where
  "check_routing H req a =
     (let scope = caller_scope (rq_meta req);
          routing = ResolveRouting (app_store a) scope (rq_model req) (rq_requested req);
          a1 = beginRouteLog (rq_id req) scope routing a
      in (if rd_error routing \<noteq> [] then Some (routingConfigurationResponse (rq_format req) (rd_error routing))
          else if RestrictsModels routing \<and> \<not> AllowsModel routing then Some (modelForbiddenResponse H (rq_format req) routing)
          else None, a1))"

definition check_price :: "host_env \<Rightarrow> RequestInterceptRequest \<Rightarrow> App \<Rightarrow> RequestInterceptResponse option \<times> App" where
  "check_price H req a =
     (let prices = st_prices (s_state (app_store a))
      in case ResolveModelPrice (he_refs H) (he_refuses1 H) (he_refuses2 H) (he_clock H 0) prices prices (he_switched H)
                (rq_model req) (rq_requested req) True (sys_refs (app_sys a)) of
           ((price, model, err), refs) \<Rightarrow>
             (if err \<noteq> None then Some (priceRefusal (rq_format req) ''price_storage_error'' ''reading the model price failed'')
              else if prc_source price = PriceSourceNone
                then Some (priceRefusal (rq_format req) ''model_price_error'' (''the model '' @ model @ '' has no price''))
              else None, a\<lparr>app_sys := (app_sys a)\<lparr>sys_refs := refs\<rparr>\<rparr>))"

definition group_answer :: "host_env \<Rightarrow> string \<Rightarrow> GroupDecision \<Rightarrow> RequestInterceptResponse" where
  "group_answer H format d = (if gdn_handled d \<and> \<not> gdn_allowed d then groupRefusal H format d else pass)"

definition check_request :: "host_env \<Rightarrow> RequestInterceptRequest \<Rightarrow> App \<Rightarrow> RequestInterceptResponse option \<times> App" where
  "check_request H req a =
     (if \<not> Enabled (app_store a) then (Some pass, a)
      else case (if is_helper req then (None, a) else check_routing H req a) of
             (Some r, a1) \<Rightarrow> (Some r, a1)
           | (None, a1) \<Rightarrow>
               (case check_price H req a1 of
                  (Some r, a2) \<Rightarrow> (Some r, a2)
                | (None, a2) \<Rightarrow>
                    if is_helper req
                    then (case AdmitGroup (he_env H 0) (caller_scope (rq_meta req)) [] (rq_model req) (rq_requested req) False (app_store a2) of
                            (d, s) \<Rightarrow> (Some (group_answer H (rq_format req) d), set_store s a2))
                    else (None, a2)))"

definition admit_key :: "host_env \<Rightarrow> RequestInterceptRequest \<Rightarrow> Store \<Rightarrow> RequestInterceptResponse \<times> Store" where
  "admit_key H req s =
     (let scope = caller_scope (rq_meta req)
      in case (if wants_generate req then AcquireSlot scope (rq_id req) s
               else (\<lparr>sd_allowed = True, sd_acquired = False, sd_limit = 0, sd_active = 0\<rparr>, s)) of
           (slot, s1) \<Rightarrow>
             if \<not> sd_allowed slot then (concurrencyLimitResponse (rq_format req) slot, s1)
             else case Authorize (he_env H 1) scope (he_clock H 1) s1 of
                    (d, s2) \<Rightarrow>
                      if \<not> dec_allowed d
                      then let s3 = ReportQuotaBlock scope (metadataString (rq_meta req) ''request_path'') d s2
                           in (quotaExhaustedResponse H (rq_format req) d (he_clock H 1),
                               if sd_acquired slot then snd (ReleaseSlot (rq_id req) s3) else s3)
                      else (pass, s2))"

definition completed_early :: "RequestInterceptRequest \<Rightarrow> App \<Rightarrow> bool" where
  "completed_early req a \<longleftrightarrow> TrimSpace (rq_id req) \<noteq> [] \<and>
     (case map_of (app_admissions a) (TrimSpace (rq_id req)) of None \<Rightarrow> False | Some e \<Rightarrow> adm_completed e)"

definition commit_request :: "host_env \<Rightarrow> RequestInterceptRequest \<Rightarrow> App \<Rightarrow> RequestInterceptResponse \<times> App" where
  "commit_request H req a =
     (if completed_early req a then (priceRefusal (rq_format req) ''request_completed'' ''the request has ended'', a)
      else case AdmitGroup (he_env H 0) (caller_scope (rq_meta req)) (rq_id req) (rq_model req) (rq_requested req)
                  (wants_generate req) (app_store a) of
             (d, s) \<Rightarrow>
               if gdn_handled d then (group_answer H (rq_format req) d, set_store s a)
               else case admit_key H req s of (r, s1) \<Rightarrow> (r, set_store s1 a))"

definition interceptBeforeAuth :: "host_env \<Rightarrow> error + RequestInterceptRequest \<Rightarrow> App \<Rightarrow> (error + RequestInterceptResponse) \<times> App" where
  "interceptBeforeAuth H raw a =
     (case raw of
        Inl e \<Rightarrow> (Inl e, a)
      | Inr req \<Rightarrow>
          let a1 = (if is_helper req then a else beginAdmission (rq_id req) a)
          in case (case check_request H req a1 of
                     (Some r, a2) \<Rightarrow> (r, a2)
                   | (None, a2) \<Rightarrow> commit_request H req a2) of
               (r, a3) \<Rightarrow> (Inr r, if is_helper req then a3 else endAdmission (rq_id req) a3))"

definition interceptAfterAuth :: "error + RequestInterceptRequest \<Rightarrow> App \<Rightarrow> (error + RequestInterceptResponse) \<times> App" where
  "interceptAfterAuth raw a =
     (case raw of
        Inl e \<Rightarrow> (Inl e, a)
      | Inr req \<Rightarrow> (Inr pass, observeRouteCredential (rq_id req) (metadataString (rq_meta req) ''selected_auth_id'')
                               (metadataString (rq_meta req) ''selected_auth_index'') a))"

definition mark_completed :: "string \<Rightarrow> App \<Rightarrow> App" where
  "mark_completed rid a =
     (case map_of (app_admissions a) rid of
        None \<Rightarrow> a
      | Some e \<Rightarrow> a\<lparr>app_admissions := AList.update rid (e\<lparr>adm_completed := True\<rparr>) (app_admissions a)\<rparr>)"

definition completeRequest :: "error + RequestCompletion \<Rightarrow> App \<Rightarrow> (error + unit) \<times> App" where
  "completeRequest raw a =
     (case raw of
        Inl e \<Rightarrow> (Inl e, a)
      | Inr c \<Rightarrow>
          let a1 = mark_completed (TrimSpace (rc_id c)) a;
              a2 = set_store (snd (ReleaseSlot (rc_id c) (app_store a1))) a1
          in (Inr (), finishRouteLog c a2))"

section \<open>Choosing a credential\<close>

datatype pick_answer =
    Unhandled
  | Picked string
  | Pick_Error string string int

definition pickCredential :: "host_env \<Rightarrow> error + SchedulerPickRequest \<Rightarrow> App \<Rightarrow> (error + pick_answer) \<times> App" where
  "pickCredential H raw a =
     (case raw of
        Inl e \<Rightarrow> (Inl e, a)
      | Inr req \<Rightarrow>
          let scope = caller_scope (pick_meta req)
          in if \<not> Enabled (app_store a) then (Inr Unhandled, a)
             else if metadataString (pick_meta req) ''source'' = ''plugin_host_model_callback'' \<and>
                     \<not> IsGrouped (s_state (app_store a)) scope (he_clock H 0) then (Inr Unhandled, a)
             else
               let a1 = observeCandidates (pick_candidates req) a
               in if scope = [] then (Inr Unhandled, a1)
                  else
                    let asked = metadataString (pick_meta req) ''requested_model'';
                        requested = (if asked = [] then pick_model req else asked);
                        d = ResolveRouting (app_store a1) scope (pick_model req) requested
                    in case GroupCredentialPolicy (he_env H 0) scope (pick_model req) requested (s_state (app_store a1)) of
                         (pool, grouped, groupAllowed) \<Rightarrow>
                           if grouped \<and> \<not> groupAllowed
                             then (Inr (Pick_Error ''group_disabled'' ''the group is not available or not in the plan'' 403), a1)
                           else if rd_error d \<noteq> []
                             then (Inr (Pick_Error ''routing_configuration_error'' (rd_error d) 503), a1)
                           else if \<not> RestrictsCredentials d \<and> \<not> grouped then (Inr Unhandled, a1)
                           else
                             let allowed = filter (\<lambda>c. candidateAllowed c d \<and>
                                   (\<not> grouped \<or> candidateAllowed c \<lparr>rd_rule = pool_Rule pool, rd_model = [], rd_error = []\<rparr>))
                                   (pick_candidates req)
                             in if allowed = []
                                then (Inr (Pick_Error (if grouped then ''group_no_available_credentials'' else ''no_routed_credential'')
                                            noRoutedCredentialMessage 503), a1)
                                else if length allowed = length (pick_candidates req) then (Inr Unhandled, a1)
                                else case pick scope (routingPoolKey (rd_model d) d) allowed (app_scheduler a1) of
                                       (ident, sched) \<Rightarrow>
                                         let a2 = a1\<lparr>app_scheduler := sched\<rparr>
                                         in if ident = [] then (Inr (Pick_Error ''no_routed_credential'' noRoutedCredentialMessage 503), a2)
                                            else (Inr (Picked ident), a2))"

section \<open>Usage\<close>

definition usage_event :: "host_env \<Rightarrow> UsageRecord \<Rightarrow> UsageEvent" where
  "usage_event H r =
     \<lparr>ue_scope = CallerScope (ur_api_key r), ue_key_preview = PreviewKey (ur_api_key r), ue_auth_index = ur_auth_index r,
      ue_provider = ur_provider r, ue_executor = ur_executor r, ue_auth_type = ur_auth_type r, ue_account = ur_source r,
      ue_effort = ur_reasoning_effort r, ue_tier = ur_service_tier r, ue_upstream = ur_model r, ue_route_model = ur_alias r,
      ue_requested_at = ur_requested_at r, ue_latency = ur_latency r, ue_ttft = ur_ttft r,
      ue_breakdown = usageBreakdown r, ue_at = he_clock H 0\<rparr>"

definition usage_error :: "(string \<Rightarrow> jobject option) \<Rightarrow> UsageRecord \<Rightarrow> RequestError" where
  "usage_error decode r =
     (let v = usageFailureDetails decode (ur_failure r)
      in \<lparr>rer_status = fv_status v, rer_type = fv_type v, rer_reason = fv_reason v, rer_body = fv_body v\<rparr>)"

definition handleUsage :: "host_env \<Rightarrow> (string \<Rightarrow> jobject option) \<Rightarrow> error + UsageRecord \<Rightarrow> App \<Rightarrow> (error + unit) \<times> App" where
  "handleUsage H decode raw a =
     (case raw of
        Inl e \<Rightarrow> (Inl e, a)
      | Inr r \<Rightarrow>
          if \<not> Enabled (app_store a) then (Inr (), a)
          else case (if ur_failed r
                     then RecordUsageError (he_env H 0) (he_refs H) (he_refuses1 H) (usage_event H r) (usage_error decode r)
                            (sys_refs (app_sys a)) (app_store a)
                     else RecordUsage (he_env H 0) (he_refs H) (he_refuses1 H) (usage_event H r)
                            (sys_refs (app_sys a)) (app_store a)) of
                 (refs, s) \<Rightarrow>
                   (Inr (), observeCredentialUsage (ur_auth_index r) (ur_auth_type r) (ur_source r) (CallerScope (ur_api_key r))
                              (a\<lparr>app_sys := \<lparr>sys_store = s, sys_refs = refs\<rparr>\<rparr>)))"

section \<open>Every call is a run of the store's steps\<close>

abbreviation moves :: "system \<Rightarrow> system \<Rightarrow> bool" where
  "moves \<equiv> step\<^sup>*\<^sup>*"

lemma serve_moves:
  "admissible E rq (s_state (app_store a)) \<Longrightarrow> s = serve E (\<lambda>_. Inr []) None rq (app_store a) \<Longrightarrow> moves (app_sys a) (app_sys (set_store s a))"
  using step.Request [of E rq "app_sys a" "\<lambda>_. Inr []" None] by (simp add: set_store_def)

lemma moves_admit: "moves (app_sys a) (app_sys (set_store (snd (AdmitGroup E scope rid model requested g (app_store a))) a))"
  by (rule serve_moves [of E "Admit_Group scope rid model requested g"]) simp_all

lemma moves_acquire: "moves (app_sys a) (app_sys (set_store (snd (AcquireSlot scope rid (app_store a))) a))"
  by (rule serve_moves [of undefined "Acquire_Slot scope rid"]) simp_all

lemma moves_release: "moves (app_sys a) (app_sys (set_store (snd (ReleaseSlot rid (app_store a))) a))"
  by (rule serve_moves [of undefined "Release_Slot rid"]) simp_all

lemma moves_authorize:
  "now_ok (if IsZero instant then env_clock E 0 else instant) \<Longrightarrow>
   moves (app_sys a) (app_sys (set_store (snd (Authorize E scope instant (app_store a))) a))"
  by (rule serve_moves [of E "Authorize_Request scope instant"]) simp_all

lemma moves_report: "moves (app_sys a) (app_sys (set_store (ReportQuotaBlock scope endpoint d (app_store a)) a))"
  by (rule serve_moves [of undefined "Report_Block scope endpoint d"]) simp_all

lemma moves_log: "moves (app_sys a) (app_sys (set_store (AddPluginLog level msg (app_store a)) a))"
  by (rule serve_moves [of undefined "Add_Log level msg"]) simp_all

lemma set_store_set [simp]: "set_store s (set_store t a) = set_store s a" "app_store (set_store s a) = s"
  "set_store (app_store a) a = a"
  by (simp_all add: set_store_def)

lemma set_store_tables [simp]:
  "app_admissions (set_store s a) = app_admissions a" "app_credentials (set_store s a) = app_credentials a"
  "app_raw (set_store s a) = app_raw a" "app_pending (set_store s a) = app_pending a" "app_scheduler (set_store s a) = app_scheduler a"
  "sys_refs (app_sys (set_store s a)) = sys_refs (app_sys a)"
  by (simp_all add: set_store_def)

lemma route_log_sys [simp]:
  "app_sys (beginRouteLog r scope d a) = app_sys a" "app_sys (observeRouteCredential r c i a) = app_sys a"
  "app_admissions (beginRouteLog r scope d a) = app_admissions a" "app_admissions (observeRouteCredential r c i a) = app_admissions a"
  by (simp_all add: beginRouteLog_def observeRouteCredential_def Let_def split: option.split)

lemma admission_sys [simp]:
  "app_sys (beginAdmission r a) = app_sys a" "app_sys (endAdmission r a) = app_sys a" "app_sys (mark_completed r a) = app_sys a"
  by (simp_all add: beginAdmission_def endAdmission_def mark_completed_def Let_def split: option.split)

definition models_ok :: "RequestInterceptRequest \<Rightarrow> bool" where
  "models_ok req \<longleftrightarrow> nul_free (rq_model req) \<and> nul_free (rq_requested req)"

definition clock_fits :: "host_env \<Rightarrow> bool" where
  "clock_fits H \<longleftrightarrow> now_ok (if IsZero (he_clock H 1) then env_clock (he_env H 1) 0 else he_clock H 1)"

lemma check_routing_sys: "check_routing H req a = (r, a') \<Longrightarrow> app_sys a' = app_sys a \<and> app_admissions a' = app_admissions a"
  by (auto simp: check_routing_def Let_def)

lemma check_price_moves:
  assumes "models_ok req" "check_price H req a = (r, a')"
  shows "moves (app_sys a) (app_sys a') \<and> app_store a' = app_store a \<and> app_admissions a' = app_admissions a"
proof -
  obtain result refs where p: "ResolveModelPrice (he_refs H) (he_refuses1 H) (he_refuses2 H) (he_clock H 0)
      (st_prices (s_state (app_store a))) (st_prices (s_state (app_store a))) (he_switched H)
      (rq_model req) (rq_requested req) True (sys_refs (app_sys a)) = (result, refs)" by fastforce
  have a': "a' = a\<lparr>app_sys := (app_sys a)\<lparr>sys_refs := refs\<rparr>\<rparr>"
    using assms(2) by (cases result) (auto simp: check_price_def p Let_def)
  have "step (app_sys a) ((app_sys a)\<lparr>sys_refs := refs\<rparr>)"
    by (rule step.Price [OF p]) (use assms(1) in \<open>simp_all add: models_ok_def\<close>)
  then show ?thesis by (simp add: a')
qed

section \<open>Who holds a slot\<close>

definition holds :: "Store \<Rightarrow> string \<Rightarrow> bool" where
  "holds s rid \<longleftrightarrow> has_key (s_active_requests s) rid \<or> has_key (s_group_slots s) rid"

definition same_slots :: "Store \<Rightarrow> Store \<Rightarrow> bool" where
  "same_slots s s' \<longleftrightarrow> s_active_requests s' = s_active_requests s \<and> s_group_slots s' = s_group_slots s"

lemma same_slots_refl [simp]: "same_slots s s"
  by (simp add: same_slots_def)

lemma same_slots_holds: "same_slots s s' \<Longrightarrow> holds s' = holds s"
  by (auto simp: same_slots_def holds_def fun_eq_iff)

lemma AdmitGroup_slots:
  assumes "AdmitGroup E scope rid model requested g s = (d, s')"
  shows "(\<forall>r. r \<noteq> TrimSpace rid \<longrightarrow> holds s' r = holds s r) \<and>
    (\<not> g \<or> \<not> gdn_handled d \<or> \<not> gdn_allowed d \<longrightarrow> holds s' = holds s) \<and>
    (TrimSpace rid = [] \<longrightarrow> holds s' = holds s)"
proof -
  obtain b grouped where b: "group_binding (st_grouped (s_state s)) scope (env_clock E 0) = (b, grouped)" by (metis surj_pair)
  have flushed: "holds s1 = holds s" if "flush_pending E s = Some s1" for s1
    by (rule same_slots_holds) (use flush_pending_Some [OF that] in \<open>simp add: same_slots_def\<close>)
  from assms b show ?thesis
  proof (cases rule: AdmitGroup_cases)
    case (slot decision group' policy s1)
    have na: "\<not> gdn_allowed decision" using slot(6) by (simp add: no_decision_def)
    from slot(7) na show ?thesis
    proof (cases rule: group_slot_gate_cases)
      case denied
      then show ?thesis using flushed [OF slot(2)] by simp
    next
      case repeated
      then show ?thesis using flushed [OF slot(2)] slot(7)
        by (auto simp: group_slot_gate_def Let_def deny_group_def na split: if_splits)
    next
      case taken
      have "holds s' r = (r = TrimSpace rid \<or> holds s1 r)" for r by (auto simp: holds_def taken(2))
      then show ?thesis using taken slot flushed [OF slot(2)] by auto
    qed
  qed (use flushed in auto)
qed

lemma Authorize_slots: "same_slots s (snd (Authorize E scope instant s))"
proof -
  define u where "u = updateResult E (authorize_state (TrimSpace scope) (if IsZero instant then env_clock E 0 else instant)) s"
  obtain d s1 where us: "u = (d, s1)" by fastforce
  obtain w cur st where f: "authorize_state (TrimSpace scope) (if IsZero instant then env_clock E 0 else instant) (s_state s) = (w, cur, st)"
    by (metis prod_cases3)
  from updateResult_cases [OF us [unfolded u_def] f]
  have "same_slots s s1" by (simp add: same_slots_def)
  then show ?thesis using us by (simp add: Authorize_def Let_def same_slots_def flip: u_def)
qed

lemma ReportQuotaBlock_slots: "same_slots s (ReportQuotaBlock scope endpoint d s)"
  by (simp add: ReportQuotaBlock_def AddPluginLog_def Let_def same_slots_def split: prod.split)

lemma ReleaseSlot_holds:
  assumes "slots_ok s"
  shows "holds (snd (ReleaseSlot rid s)) r \<longleftrightarrow> holds s r \<and> (r \<noteq> TrimSpace rid \<or> TrimSpace rid = [])"
proof -
  obtain b s' where r: "ReleaseSlot rid s = (b, s')" by fastforce
  have disjoint: "\<And>r. map_of (s_active_requests s) r = None \<or> map_of (s_group_slots s) r = None"
    using assms by (simp add: slots_ok_def)
  from r show ?thesis
  proof (cases rule: ReleaseSlot_cases)
    case unknown
    then show ?thesis by (auto simp: r holds_def has_key_def)
  next
    case (key scope)
    then have "map_of (s_group_slots s) (TrimSpace rid) = None" using disjoint [of "TrimSpace rid"] by auto
    then show ?thesis using key by (auto simp: r holds_def has_key_def)
  next
    case (group slot)
    then show ?thesis by (auto simp: r holds_def has_key_def)
  qed
qed

lemma admit_key_slots:
  assumes "admit_key H req s = (r, s')"
  shows "(\<forall>x. x \<noteq> TrimSpace (rq_id req) \<longrightarrow> holds s' x = holds s x) \<and>
    (rsp_terminate r \<or> TrimSpace (rq_id req) = [] \<or> \<not> wants_generate req \<longrightarrow> holds s' = holds s) \<and> (\<not> rsp_terminate r \<longrightarrow> r = pass)"
proof -
  let ?scope = "caller_scope (rq_meta req)" and ?rid = "TrimSpace (rq_id req)"
  obtain slot s1 where a: "(if wants_generate req then AcquireSlot ?scope (rq_id req) s
      else (\<lparr>sd_allowed = True, sd_acquired = False, sd_limit = 0, sd_active = 0\<rparr>, s)) = (slot, s1)" by fastforce
  obtain d s2 where d: "Authorize (he_env H 1) ?scope (he_clock H 1) s1 = (d, s2)" by fastforce
  define s3 where "s3 = ReportQuotaBlock ?scope (metadataString (rq_meta req) ''request_path'') d s2"
  have h2: "s_active_requests s2 = s_active_requests s1 \<and> s_group_slots s2 = s_group_slots s1"
    using Authorize_slots [of s1 "he_env H 1" ?scope "he_clock H 1"] d by (simp add: same_slots_def)
  have h3: "s_active_requests s3 = s_active_requests s1 \<and> s_group_slots s3 = s_group_slots s1"
    using ReportQuotaBlock_slots [of s2] h2 by (simp add: same_slots_def s3_def)
  have res: "(r, s') = (if \<not> sd_allowed slot then (concurrencyLimitResponse (rq_format req) slot, s1)
      else if \<not> dec_allowed d then (quotaExhaustedResponse H (rq_format req) d (he_clock H 1), if sd_acquired slot then snd (ReleaseSlot (rq_id req) s3) else s3)
      else (pass, s2))"
    using assms unfolding admit_key_def Let_def a prod.case d s3_def by (simp split: if_splits)
  have resp: "rsp_terminate (concurrencyLimitResponse f sl)" "rsp_terminate (quotaExhaustedResponse H f d t)" "\<not> rsp_terminate pass" for f sl t
    by (simp_all add: concurrencyLimitResponse_def quotaExhaustedResponse_def pass_def Let_def)
  consider (unchanged) "s1 = s" "\<not> sd_acquired slot"
    | (acquired) "wants_generate req" "s1 = take_key_slot ?rid (TrimSpace ?scope) s" "sd_acquired slot" "sd_allowed slot" "?rid \<noteq> []"
        "map_of (s_active_requests s) ?rid = None" "map_of (s_group_slots s) ?rid = None"
  proof (cases "wants_generate req")
    case True
    then have "AcquireSlot ?scope (rq_id req) s = (slot, s1)" using a by simp
    then show ?thesis by (cases rule: AcquireSlot_cases) (use unchanged acquired True in auto)
  next
    case False
    then show ?thesis using a unchanged by auto
  qed
  then show ?thesis
  proof cases
    case unchanged
    then have "holds s' = holds s" using res h2 h3 by (auto simp: holds_def fun_eq_iff split: if_splits)
    then show ?thesis using res resp by (auto split: if_splits)
  next
    case acquired
    have taken: "holds x y = (y = ?rid \<or> holds s y)" if "s_active_requests x = s_active_requests s1" "s_group_slots x = s_group_slots s1" for x y
      using that by (auto simp: holds_def acquired(2))
    have free: "\<not> holds s ?rid" using acquired(6,7) by (simp add: holds_def has_key_def)
    show ?thesis
    proof (cases "dec_allowed d")
      case True
      then have "r = pass" "s' = s2" using res acquired(4) by simp_all
      then show ?thesis using taken [of s2] h2 acquired(1,5) resp by simp
    next
      case False
      then have r: "rsp_terminate r" and s': "s' = snd (ReleaseSlot (rq_id req) s3)" using res acquired(3,4) resp by simp_all
      have "map_of (s_active_requests s3) ?rid = Some (TrimSpace ?scope)" using h3 by (simp add: acquired(2))
      then have "s' = drop_key_slot ?rid (TrimSpace ?scope) s3" using s' acquired(5) by (simp add: ReleaseSlot_def Let_def)
      then have "holds s' y = (holds s3 y \<and> y \<noteq> ?rid)" for y
        using h3 acquired(7) by (auto simp: holds_def has_key_def acquired(2))
      then have "holds s' = holds s" using taken [of s3] h3 free by (auto simp: fun_eq_iff)
      then show ?thesis using r by simp
    qed
  qed
qed

section \<open>What the rest of a call does\<close>

lemma check_request_moves:
  assumes "models_ok req" "check_request H req a = (r, a')"
  shows "moves (app_sys a) (app_sys a') \<and> holds (app_store a') = holds (app_store a) \<and> app_admissions a' = app_admissions a"
proof (cases "Enabled (app_store a)")
  case False
  then show ?thesis using assms(2) by (simp add: check_request_def)
next
  case True
  obtain r1 a1 where c1: "(if is_helper req then (None, a) else check_routing H req a) = (r1, a1)" by fastforce
  have s1: "app_sys a1 = app_sys a \<and> app_admissions a1 = app_admissions a"
  proof (cases "is_helper req")
    case False
    then show ?thesis using c1 check_routing_sys [of H req a r1 a1] by simp
  qed (use c1 in simp)
  obtain r2 a2 where c2: "check_price H req a1 = (r2, a2)" by fastforce
  note p = check_price_moves [OF assms(1) c2]
  obtain d s where g: "AdmitGroup (he_env H 0) (caller_scope (rq_meta req)) [] (rq_model req) (rq_requested req) False (app_store a2) = (d, s)"
    by fastforce
  have res: "(r, a') = (case r1 of Some x \<Rightarrow> (Some x, a1) | None \<Rightarrow>
      (case r2 of Some x \<Rightarrow> (Some x, a2) | None \<Rightarrow>
         if is_helper req then (Some (group_answer H (rq_format req) d), set_store s a2) else (None, a2)))"
    using assms(2) True unfolding check_request_def c1 prod.case c2 g by (cases r1; cases r2) simp_all
  have h: "holds s = holds (app_store a2)" using AdmitGroup_slots [OF g] by simp
  have m: "moves (app_sys a2) (app_sys (set_store s a2))" using moves_admit [of a2] g by (metis snd_conv)
  consider "a' = a1" | "a' = a2" | "a' = set_store s a2" using res by (auto split: option.splits if_splits)
  then show ?thesis
  proof cases
    case 3
    then show ?thesis using p s1 h m rtranclp_trans [of step "app_sys a1"] by auto
  qed (use p s1 in simp_all)
qed

lemma admit_key_moves:
  assumes "clock_fits H" "admit_key H req (app_store a) = (r, s')"
  shows "moves (app_sys a) (app_sys (set_store s' a))"
proof -
  let ?scope = "caller_scope (rq_meta req)"
  obtain slot s1 where x: "(if wants_generate req then AcquireSlot ?scope (rq_id req) (app_store a)
      else (\<lparr>sd_allowed = True, sd_acquired = False, sd_limit = 0, sd_active = 0\<rparr>, app_store a)) = (slot, s1)" by fastforce
  obtain d s2 where d: "Authorize (he_env H 1) ?scope (he_clock H 1) s1 = (d, s2)" by fastforce
  define s3 where "s3 = ReportQuotaBlock ?scope (metadataString (rq_meta req) ''request_path'') d s2"
  have m1: "moves (app_sys a) (app_sys (set_store s1 a))"
  proof (cases "wants_generate req")
    case True
    then show ?thesis using x moves_acquire [of a ?scope "rq_id req"] by simp
  qed (use x in auto)
  have m2: "moves (app_sys (set_store s1 a)) (app_sys (set_store s2 a))"
    using moves_authorize [of "he_clock H 1" "he_env H 1" "set_store s1 a" ?scope] assms(1) d by (simp add: clock_fits_def)
  have m3: "moves (app_sys (set_store s2 a)) (app_sys (set_store s3 a))"
    using moves_report [of "set_store s2 a" ?scope _ d] by (simp add: s3_def)
  have m4: "moves (app_sys (set_store s3 a)) (app_sys (set_store (snd (ReleaseSlot (rq_id req) s3)) a))"
    using moves_release [of "set_store s3 a" "rq_id req"] by simp
  have "s' \<in> {s1, s2, s3, snd (ReleaseSlot (rq_id req) s3)}"
    using assms(2) unfolding admit_key_def Let_def x prod.case d s3_def by (auto split: if_splits)
  moreover note rtranclp_trans [OF m1 m2] rtranclp_trans [OF rtranclp_trans [OF m1 m2] m3]
  ultimately show ?thesis using m1 rtranclp_trans [OF _ m4] by auto
qed

lemma commit_request_effect:
  assumes "clock_fits H" "commit_request H req a = (r, a')"
  shows "moves (app_sys a) (app_sys a') \<and> app_admissions a' = app_admissions a \<and>
    (\<forall>x. x \<noteq> TrimSpace (rq_id req) \<longrightarrow> holds (app_store a') x = holds (app_store a) x) \<and>
    (rsp_terminate r \<or> TrimSpace (rq_id req) = [] \<or> \<not> wants_generate req \<or> completed_early req a \<longrightarrow>
       holds (app_store a') = holds (app_store a)) \<and> (\<not> rsp_terminate r \<longrightarrow> r = pass)"
proof (cases "completed_early req a")
  case True
  then show ?thesis using assms(2) by (auto simp: commit_request_def priceRefusal_def)
next
  case False
  let ?scope = "caller_scope (rq_meta req)"
  obtain d s where g: "AdmitGroup (he_env H 0) ?scope (rq_id req) (rq_model req) (rq_requested req) (wants_generate req) (app_store a) = (d, s)"
    by fastforce
  have m: "moves (app_sys a) (app_sys (set_store s a))" using moves_admit [of a] g by (metis snd_conv)
  have refusal: "rsp_terminate (groupRefusal H f d)" for f by (simp add: groupRefusal_def priceRefusal_def Let_def)
  show ?thesis
  proof (cases "gdn_handled d")
    case True
    then have r: "r = group_answer H (rq_format req) d" "a' = set_store s a"
      using assms(2) False by (simp_all add: commit_request_def g)
    show ?thesis using AdmitGroup_slots [OF g] m refusal False by (auto simp: r group_answer_def pass_def)
  next
    case unhandled: False
    obtain s' where k: "admit_key H req s = (r, s')" and a': "a' = set_store s' a"
      using assms(2) False unhandled by (simp add: commit_request_def g split: prod.splits)
    have "moves (app_sys (set_store s a)) (app_sys (set_store s' a))"
      using admit_key_moves [OF assms(1), of req "set_store s a" r s'] k by simp
    then have "moves (app_sys a) (app_sys a')" using m a' by simp
    then show ?thesis using AdmitGroup_slots [OF g] admit_key_slots [OF k] False unhandled by (auto simp: a')
  qed
qed

end
