(* ===== verification/Picks.thy ===== *)
theory Picks
  imports Gateway
begin

text \<open>
  The credential the proxy is told to use (\<open>pickCredential\<close> of \<^verbatim>\<open>internal/plugin/scheduler.go\<close>): every way a pick can
  be answered, and that a picked credential is one the routing rules of the key, and the pool of its group
  when it has one, allow.
\<close>

section \<open>The answers\<close>

definition pick_requested :: "SchedulerPickRequest \<Rightarrow> string" where
  "pick_requested req =
     (let asked = metadataString (pick_meta req) ''requested_model'' in if asked = [] then pick_model req else asked)"

definition pool_allows :: "SchedulerAuthCandidate \<Rightarrow> GroupPool \<Rightarrow> bool" where
  "pool_allows c pool = candidateAllowed c \<lparr>rd_rule = pool_Rule pool, rd_model = [], rd_error = []\<rparr>"

text \<open>Every answer: the plugin leaves the choice to the proxy, refuses with a code, or picks one of the candidates left.\<close>

lemma pickCredential_cases:
  fixes req :: SchedulerPickRequest and a :: App
  defines "scope \<equiv> caller_scope (pick_meta req)" and "a1 \<equiv> observeCandidates (pick_candidates req) a"
  defines "d \<equiv> ResolveRouting (app_store a1) scope (pick_model req) (pick_requested req)"
  assumes "pickCredential H (Inr req) a = (r, a')"
    "GroupCredentialPolicy (he_env H 0) scope (pick_model req) (pick_requested req) (s_state (app_store a1)) = (pool, grouped, ok)"
  defines "allowed \<equiv> filter (\<lambda>c. candidateAllowed c d \<and> (\<not> grouped \<or> pool_allows c pool)) (pick_candidates req)"
  obtains (off) "r = Inr Unhandled" "a' = a"
  | (unlimited) "r = Inr Unhandled" "a' = a1" "scope = [] \<or> (\<not> grouped \<or> ok) \<and> rd_error d = [] \<and>
      (\<not> RestrictsCredentials d \<and> \<not> grouped \<or> allowed \<noteq> [] \<and> length allowed = length (pick_candidates req))"
  | (group) "r = Inr (Pick_Error ''group_disabled'' ''the group is not available or not in the plan'' 403)" "a' = a1" "grouped" "\<not> ok"
  | (configuration) "r = Inr (Pick_Error ''routing_configuration_error'' (rd_error d) 503)" "a' = a1" "rd_error d \<noteq> []"
  | (none) code sched where "r = Inr (Pick_Error code noRoutedCredentialMessage 503)" "a' = a1\<lparr>app_scheduler := sched\<rparr>" "rd_error d = []"
      "allowed = [] \<or> fst (pick scope (routingPoolKey (rd_model d) d) allowed (app_scheduler a1)) = []"
  | (picked) ident sched where "r = Inr (Picked ident)" "a' = a1\<lparr>app_scheduler := sched\<rparr>" "ident \<noteq> []" "rd_error d = []"
      "\<not> grouped \<or> ok" "allowed \<noteq> []"
      "pick scope (routingPoolKey (rd_model d) d) allowed (app_scheduler a1) = (ident, sched)"
proof -
  define off where "off \<longleftrightarrow> \<not> Enabled (app_store a)"
  define nested where "nested \<longleftrightarrow> metadataString (pick_meta req) ''source'' = ''plugin_host_model_callback'' \<and>
      \<not> IsGrouped (s_state (app_store a)) scope (he_clock H 0)"
  define p where "p = pick scope (routingPoolKey (rd_model d) d) allowed (app_scheduler a1)"
  obtain ident sched where i: "p = (ident, sched)" by fastforce
  have shape: "pickCredential H (Inr req) a =
      (if off then (Inr Unhandled, a) else if nested then (Inr Unhandled, a)
       else if scope = [] then (Inr Unhandled, a1)
       else case GroupCredentialPolicy (he_env H 0) scope (pick_model req) (pick_requested req) (s_state (app_store a1)) of
         (pool, grouped, ok) \<Rightarrow>
           if grouped \<and> \<not> ok then (Inr (Pick_Error ''group_disabled'' ''the group is not available or not in the plan'' 403), a1)
           else if rd_error d \<noteq> [] then (Inr (Pick_Error ''routing_configuration_error'' (rd_error d) 503), a1)
           else if \<not> RestrictsCredentials d \<and> \<not> grouped then (Inr Unhandled, a1)
           else let allowed = filter (\<lambda>c. candidateAllowed c d \<and> (\<not> grouped \<or> pool_allows c pool)) (pick_candidates req)
             in if allowed = [] then (Inr (Pick_Error (if grouped then ''group_no_available_credentials'' else ''no_routed_credential'')
                     noRoutedCredentialMessage 503), a1)
                else if length allowed = length (pick_candidates req) then (Inr Unhandled, a1)
                else case pick scope (routingPoolKey (rd_model d) d) allowed (app_scheduler a1) of
                  (ident, sched) \<Rightarrow>
                    let a2 = a1\<lparr>app_scheduler := sched\<rparr>
                    in if ident = [] then (Inr (Pick_Error ''no_routed_credential'' noRoutedCredentialMessage 503), a2)
                       else (Inr (Picked ident), a2))"
    unfolding pickCredential_def sum.case Let_def off_def nested_def a1_def d_def scope_def pick_requested_def pool_allows_def
    by (rule refl)
  have res: "(r, a') =
      (if off \<or> nested then (Inr Unhandled, a) else if scope = [] then (Inr Unhandled, a1)
       else if grouped \<and> \<not> ok then (Inr (Pick_Error ''group_disabled'' ''the group is not available or not in the plan'' 403), a1)
       else if rd_error d \<noteq> [] then (Inr (Pick_Error ''routing_configuration_error'' (rd_error d) 503), a1)
       else if \<not> RestrictsCredentials d \<and> \<not> grouped then (Inr Unhandled, a1)
       else if allowed = [] then (Inr (Pick_Error (if grouped then ''group_no_available_credentials'' else ''no_routed_credential'')
              noRoutedCredentialMessage 503), a1)
       else if length allowed = length (pick_candidates req) then (Inr Unhandled, a1)
       else if ident = [] then (Inr (Pick_Error ''no_routed_credential'' noRoutedCredentialMessage 503), a1\<lparr>app_scheduler := sched\<rparr>)
       else (Inr (Picked ident), a1\<lparr>app_scheduler := sched\<rparr>))"
    using assms(4) unfolding shape assms(5) prod.case Let_def allowed_def [symmetric] p_def [symmetric] i
    by (auto split: if_splits)
  show ?thesis
  proof (cases "off \<or> nested \<or> scope = []")
    case True
    then show ?thesis using res off unlimited by (cases "off \<or> nested") simp_all
  next
    case False
    note asked = this
    show ?thesis
    proof (cases "grouped \<and> \<not> ok \<or> rd_error d \<noteq> []")
      case True
      then show ?thesis using res asked group configuration by (cases "grouped \<and> \<not> ok") (simp_all split: if_splits)
    next
      case False
      note open_group = this
      show ?thesis
      proof (cases "\<not> RestrictsCredentials d \<and> \<not> grouped \<or> allowed \<noteq> [] \<and> length allowed = length (pick_candidates req)")
        case True
        then have "(r, a') = (Inr Unhandled, a1)" using res asked open_group by (simp split: if_splits)
        then show ?thesis using unlimited True open_group by simp
      next
        case False
        note limited = this
        show ?thesis
        proof (cases "allowed = []")
          case True
          then have "\<exists>code. (r, a') = (Inr (Pick_Error code noRoutedCredentialMessage 503), a1\<lparr>app_scheduler := app_scheduler a1\<rparr>)"
            using res asked open_group limited by (simp split: if_splits)
          then obtain code where "r = Inr (Pick_Error code noRoutedCredentialMessage 503)" "a' = a1\<lparr>app_scheduler := app_scheduler a1\<rparr>" by blast
          then show ?thesis using none True open_group by blast
        next
          case False
          then have "(r, a') = (if ident = [] then (Inr (Pick_Error ''no_routed_credential'' noRoutedCredentialMessage 503), a1\<lparr>app_scheduler := sched\<rparr>)
              else (Inr (Picked ident), a1\<lparr>app_scheduler := sched\<rparr>))"
            using res asked open_group limited by (simp split: if_splits)
          moreover have "rd_error d = []" "\<not> grouped \<or> ok" using open_group by simp_all
          moreover note i [unfolded p_def]
          ultimately show ?thesis
            using none [of "''no_routed_credential''" sched] picked [of ident sched] False by (cases "ident = []") simp_all
        qed
      qed
    qed
  qed
qed

lemma observe_candidates_other [simp]:
  "app_sys (observeCandidates cs a) = app_sys a" "app_admissions (observeCandidates cs a) = app_admissions a"
proof -
  have "app_sys (observeCandidates cs a) = app_sys a \<and> app_admissions (observeCandidates cs a) = app_admissions a"
  proof (induction cs arbitrary: a)
    case (Cons c cs)
    have "app_sys (observe_candidate c a) = app_sys a \<and> app_admissions (observe_candidate c a) = app_admissions a"
      by (simp add: observe_candidate_def Let_def)
    then show ?case using Cons.IH [of "observe_candidate c a"] by (simp add: observeCandidates_def)
  qed (simp add: observeCandidates_def)
  then show "app_sys (observeCandidates cs a) = app_sys a" "app_admissions (observeCandidates cs a) = app_admissions a" by simp_all
qed

lemma pick_other: "pickCredential H raw a = (r, a') \<Longrightarrow> app_sys a' = app_sys a \<and> app_admissions a' = app_admissions a"
proof (cases raw)
  case (Inr req)
  assume p: "pickCredential H raw a = (r, a')"
  obtain pool grouped ok where "GroupCredentialPolicy (he_env H 0) (caller_scope (pick_meta req)) (pick_model req) (pick_requested req)
      (s_state (app_store (observeCandidates (pick_candidates req) a))) = (pool, grouped, ok)" by (metis prod_cases3)
  with p [unfolded Inr] show ?thesis by (cases rule: pickCredential_cases) simp_all
qed (simp add: pickCredential_def)

section \<open>What is picked\<close>

lemma pick_loop_mem: "fst (pick_loop ws is selected highest tot cur) \<in> insert selected (set is)"
proof (induction "is" arbitrary: selected highest tot cur)
  case (Cons i "is")
  show ?case
    using Cons.IH [of i "add64 (credit cur i) (credit ws i)"] Cons.IH [of selected highest] by (simp add: Let_def) blast
qed simp

text \<open>The scheduler picks an identifier of a candidate of positive weight, or none when there is none.\<close>

lemma pick_mem:
  assumes "pick scope pool cands s = (ident, s')"
  shows "ident = [] \<or> ident \<in> cand_id ` set (positive_candidates cands)"
proof -
  consider "positive_candidates cands = []" | c where "positive_candidates cands = [c]"
    | c d ps where "positive_candidates cands = c # d # ps" by (metis list.exhaust)
  then show ?thesis
  proof cases
    case 1
    then show ?thesis using assms by (simp add: pick_def)
  next
    case 2
    then show ?thesis using assms by (simp add: pick_def)
  next
    case 3
    have state: "fst (pick_state ids weights st) \<in> insert [] (set ids)" for ids weights st
    proof -
      have "\<exists>ws cur. fst (pick_state ids weights st) = fst (pick_loop ws ids [] 0 0 cur)"
        unfolding pick_state_def Let_def case_prod_unfold fst_conv by (rule exI, rule exI, rule refl)
      then obtain ws cur where "fst (pick_state ids weights st) = fst (pick_loop ws ids [] 0 0 cur)" by blast
      then show ?thesis using pick_loop_mem [of ws ids "[]" 0 0 cur] by simp
    qed
    have "\<exists>st. fst (pick scope pool cands s) = fst (pick_state (sort (map cand_id (positive_candidates cands))) (set_weights (positive_candidates cands) []) st)"
      unfolding pick_def Let_def 3 list.case case_prod_unfold fst_conv by (rule exI, rule refl)
    then show ?thesis using state assms by (metis empty_iff fst_conv image_set insert_iff list.set(1) set_sort)
  qed
qed

lemma all_kept: "length (filter P xs) = length xs \<Longrightarrow> x \<in> set xs \<Longrightarrow> P x"
  using length_filter_less [of x xs P] by auto


section \<open>An example\<close>

text \<open>A key denied one provider, and two candidates.\<close>

definition sample_host :: host_env where
  "sample_host = \<lparr>he_env = (\<lambda>_. calm), he_refs = sample_refs_env, he_refuses1 = None, he_refuses2 = None, he_switched = False,
     he_clock = (\<lambda>_. time_of_unix 1700000000), he_wall = time_of_unix 1700000000, he_quote = (\<lambda>s. s), he_float = (\<lambda>_. []), he_money = (\<lambda>_. []), he_rfc3339 = (\<lambda>_. [])\<rparr>"

definition denied_app :: App where
  "denied_app = set_store (new_store\<lparr>s_cfg := DefaultConfig\<lparr>cfg_enabled := True\<rparr>, s_state := small_state\<lparr>st_keys := [(''ab'', bound_key\<lparr>ks_bindings :=
     no_bindings\<lparr>rb_rule := empty_rule\<lparr>rr_denied_credential_providers := [Selector ''ai-providers'' ''y'']\<rparr>\<rparr>\<rparr>)]\<rparr>\<rparr>) newApp"

definition provided :: "string \<Rightarrow> string \<Rightarrow> SchedulerAuthCandidate" where
  "provided i p = \<lparr>cand_id = i, cand_provider = p, cand_status = [], cand_attrs = [(''source'', ''memory''), (''weight'', ''1'')]\<rparr>"

definition sample_pick :: SchedulerPickRequest where
  "sample_pick = \<lparr>pick_model = [], pick_meta = [(''caller_scope'', MetaString ''ab'')], pick_candidates = [provided ''a'' ''x'', provided ''b'' ''y'']\<rparr>"

lemma provided_weight: "candidateWeight (provided i p) = 1"
  by (simp add: candidateWeight_def cand_attribute_def provided_def TrimSpace_visible visible_def ParseInt_def is_digit_def digits_val_def
      digit_val_def in_int64_def)

lemma sample_pick_scope: "caller_scope (pick_meta sample_pick) = ''ab''" "pick_requested sample_pick = []"
  by (simp_all add: caller_scope_def metadataString_def sample_pick_def pick_requested_def TrimSpace_visible visible_def Let_def)

lemma denied_routing: "ResolveRouting (app_store denied_app) ''ab'' [] [] =
    \<lparr>rd_rule = empty_rule\<lparr>rr_denied_credential_providers := [Selector ''ai-providers'' ''y'']\<rparr>, rd_model = [], rd_error = []\<rparr>"
  by (simp add: ResolveRouting_def denied_app_def lookup_key_def normalizeScope_def TrimSpace_visible visible_def resolveRoutingState_def
      bound_key_def no_bindings_def merge_rule_def empty_rule_def tidy_strings_def tidy_selectors_def Let_def ResolveBillingModel_def
      small_state_def NewState_def ToLower_def lower_byte_def is_upper_def ModelWithoutThinkingSuffix_def)

lemma provided_allowed:
  "candidateAllowed (provided i p) \<lparr>rd_rule = empty_rule\<lparr>rr_denied_credential_providers := [Selector ''ai-providers'' ''y'']\<rparr>, rd_model = [], rd_error = []\<rparr>
     \<longleftrightarrow> ToLower (TrimSpace p) \<notin> {[], ''y''}"
  by (auto simp: candidateAllowed_def routingAllowsCredential_def AllowsCredential_def containsRouteValue_def empty_rule_def Let_def
      normalized_selector_def denied_matches_def provided_def credentialSourceFromCandidate_def cand_attribute_def CredentialSourceAIProviders_def
      TrimSpace_visible visible_def ToLower_def lower_byte_def is_upper_def)


end
