(* ===== verification/Refusals.thy ===== *)
theory Refusals
  imports Picks
begin

text \<open>
  What an admission answers (\<open>interceptBeforeAuth\<close> of \<^verbatim>\<open>internal/plugin/intercept.go\<close>, when no other call comes
  between): every refusal carries its status and takes no slot, an admitted request passed each gate in
  order, and the table of admissions is as it was. The hint to retry lies between one second and an hour.
\<close>

section \<open>The gates\<close>

lemma group_gate_status: "group_gate g b now scope requested = Inl d \<Longrightarrow> gdn_status d \<in> {403, 429, 503}"
  by (auto simp: group_gate_def deny_group_def no_decision_def Let_def split: option.splits if_splits)

lemma group_slot_gate_status:
  "group_slot_gate scope rid decision group' policy s = (d, s') \<Longrightarrow> \<not> gdn_allowed d \<Longrightarrow> gdn_status d \<in> {403, 429, 503}"
  by (auto simp: group_slot_gate_def Let_def deny_group_def split: option.splits if_splits)

lemma AdmitGroup_status:
  assumes "AdmitGroup E scope rid model requested g s = (d, s')" "gdn_handled d" "\<not> gdn_allowed d"
  shows "gdn_status d \<in> {403, 429, 503}"
proof -
  obtain b grouped where b: "group_binding (st_grouped (s_state s)) scope (env_clock E 0) = (b, grouped)" by (metis surj_pair)
  have grouped using assms(1,2) b by (cases grouped) (auto simp: AdmitGroup_def no_decision_def)
  show ?thesis
  proof (cases "flush_pending E s")
    case None
    then show ?thesis using assms(1) b \<open>grouped\<close> by (auto simp: AdmitGroup_def deny_group_def)
  next
    case (Some s1)
    show ?thesis
    proof (cases "group_gate (st_grouped (s_state s1)) b (env_clock E 0) scope (asked_model model requested)")
      case (Inl d')
      then show ?thesis using assms(1) b \<open>grouped\<close> Some group_gate_status [OF Inl] by (simp add: AdmitGroup_def)
    next
      case (Inr x)
      obtain decision group' policy where x: "x = (decision, group', policy)" by (cases x)
      show ?thesis
      proof (cases g)
        case True
        then have "group_slot_gate scope rid decision group' policy s1 = (d, s')"
          using assms(1) b \<open>grouped\<close> Some Inr by (simp add: AdmitGroup_def x)
        from group_slot_gate_status [OF this assms(3)] show ?thesis .
      next
        case False
        then show ?thesis using assms(1,3) b \<open>grouped\<close> Some Inr by (auto simp: AdmitGroup_def x)
      qed
    qed
  qed
qed

text \<open>What a refusal looks like.\<close>

definition refused_with :: "RequestInterceptResponse \<Rightarrow> bool" where
  "refused_with r \<longleftrightarrow> rsp_terminate r \<and> rsp_status r \<in> {403, 429, 503}"

lemma refusals [simp]:
  "refused_with (routingConfigurationResponse f m)" "refused_with (priceRefusal f code m)"
  "refused_with (modelForbiddenResponse H f d)" "refused_with (quotaExhaustedResponse H f dec now)"
  "refused_with (concurrencyLimitResponse f sd)"
  by (simp_all add: refused_with_def routingConfigurationResponse_def priceRefusal_def modelForbiddenResponse_def
      quotaExhaustedResponse_def concurrencyLimitResponse_def Let_def)

lemma not_refused_pass [simp]: "\<not> refused_with pass"
  by (simp add: refused_with_def pass_def)

lemma group_refusal: "gdn_status d \<in> {403, 429, 503} \<Longrightarrow> refused_with (groupRefusal H f d)"
  by (auto simp: groupRefusal_def refused_with_def priceRefusal_def Let_def)

text \<open>The model of a request has a price, in the custom table or the catalogue.\<close>

definition priced :: "host_env \<Rightarrow> RequestInterceptRequest \<Rightarrow> App \<Rightarrow> bool" where
  "priced H req a \<longleftrightarrow>
     (case ResolveModelPrice (he_refs H) (he_refuses1 H) (he_refuses2 H) (he_clock H 0) (st_prices (s_state (app_store a)))
          (st_prices (s_state (app_store a))) (he_switched H) (rq_model req) (rq_requested req) True (sys_refs (app_sys a)) of
        ((price, model, err), refs) \<Rightarrow> err = None \<and> prc_source price \<noteq> PriceSourceNone)"

definition model_permitted :: "RequestInterceptRequest \<Rightarrow> Store \<Rightarrow> bool" where
  "model_permitted req s \<longleftrightarrow>
     (let d = ResolveRouting s (caller_scope (rq_meta req)) (rq_model req) (rq_requested req)
      in rd_error d = [] \<and> (RestrictsModels d \<longrightarrow> AllowsModel d))"

lemma check_routing_answer:
  assumes "check_routing H req a = (r, a')"
  shows "r = None \<and> model_permitted req (app_store a) \<or> (\<exists>x. r = Some x \<and> refused_with x)"
  using assms by (auto simp: check_routing_def model_permitted_def Let_def split: if_splits)

lemma check_price_answer:
  assumes "check_price H req a = (r, a')"
  shows "r = None \<and> priced H req a \<or> (\<exists>x. r = Some x \<and> refused_with x)"
  using assms by (auto simp: check_price_def priced_def Let_def split: if_splits prod.splits)

lemma check_request_answer:
  assumes "\<not> is_helper req" "models_ok req" "check_request H req a = (r, a')"
  shows "app_store a' = app_store a \<and> app_admissions a' = app_admissions a \<and>
    (if \<not> Enabled (app_store a) then r = Some pass \<and> a' = a
     else r = None \<and> model_permitted req (app_store a) \<and> priced H req a \<or> (\<exists>x. r = Some x \<and> refused_with x))"
proof (cases "Enabled (app_store a)")
  case False
  then show ?thesis using assms(3) by (simp add: check_request_def)
next
  case True
  obtain r1 a1 where c1: "check_routing H req a = (r1, a1)" by fastforce
  obtain r2 a2 where c2: "check_price H req a1 = (r2, a2)" by fastforce
  note s1 = check_routing_sys [OF c1] and s2 = check_price_moves [OF assms(2) c2]
  have "(r, a') = (case r1 of Some x \<Rightarrow> (Some x, a1) | None \<Rightarrow> (case r2 of Some x \<Rightarrow> (Some x, a2) | None \<Rightarrow> (None, a2)))"
    using assms(3) unfolding check_request_def by (cases r1; cases r2; auto simp: c1 c2 assms(1) True)
  moreover have "priced H req a1 = priced H req a" using s1 by (simp add: priced_def)
  ultimately show ?thesis
    using check_routing_answer [OF c1] check_price_answer [OF c2] s1 s2 True by (cases r1; cases r2) auto
qed

text \<open>The gates of the commit, in order: the group of a grouped key, or the slots and the quota of the key.\<close>

definition gates_passed :: "host_env \<Rightarrow> RequestInterceptRequest \<Rightarrow> Store \<Rightarrow> Store \<Rightarrow> bool" where
  "gates_passed H req s s' \<longleftrightarrow>
     (case AdmitGroup (he_env H 0) (caller_scope (rq_meta req)) (rq_id req) (rq_model req) (rq_requested req) (wants_generate req) s of
        (d, s1) \<Rightarrow>
          if gdn_handled d then gdn_allowed d \<and> s' = s1
          else \<exists>slot s2 dec.
            (if wants_generate req then AcquireSlot (caller_scope (rq_meta req)) (rq_id req) s1 = (slot, s2) \<and> sd_allowed slot else s2 = s1) \<and>
            Authorize (he_env H 1) (caller_scope (rq_meta req)) (he_clock H 1) s2 = (dec, s') \<and> dec_allowed dec)"

lemma admit_key_answer:
  assumes "admit_key H req s = (r, s')"
  shows "refused_with r \<or> r = pass \<and> (\<exists>slot s2 dec.
    (if wants_generate req then AcquireSlot (caller_scope (rq_meta req)) (rq_id req) s = (slot, s2) \<and> sd_allowed slot else s2 = s) \<and>
    Authorize (he_env H 1) (caller_scope (rq_meta req)) (he_clock H 1) s2 = (dec, s') \<and> dec_allowed dec)"
proof -
  let ?scope = "caller_scope (rq_meta req)"
  obtain slot s1 where a: "(if wants_generate req then AcquireSlot ?scope (rq_id req) s
      else (\<lparr>sd_allowed = True, sd_acquired = False, sd_limit = 0, sd_active = 0\<rparr>, s)) = (slot, s1)" by fastforce
  obtain d s2 where d: "Authorize (he_env H 1) ?scope (he_clock H 1) s1 = (d, s2)" by fastforce
  have taken: "if wants_generate req then AcquireSlot ?scope (rq_id req) s = (slot, s1) \<and> sd_allowed slot else s1 = s" if "sd_allowed slot"
    using a that by (cases "wants_generate req") auto
  show ?thesis
  proof (cases "sd_allowed slot \<and> dec_allowed d")
    case True
    then have "r = pass" "s' = s2" using assms unfolding admit_key_def Let_def a prod.case d by simp_all
    then show ?thesis using taken d True by blast
  next
    case False
    then show ?thesis using assms unfolding admit_key_def Let_def a prod.case d by (auto split: if_splits)
  qed
qed

lemma commit_answer:
  assumes "commit_request H req a = (r, a')"
  shows "refused_with r \<or> r = pass \<and> \<not> completed_early req a \<and> gates_passed H req (app_store a) (app_store a')"
proof (cases "completed_early req a")
  case True
  then show ?thesis using assms by (auto simp: commit_request_def)
next
  case False
  obtain d s where g: "AdmitGroup (he_env H 0) (caller_scope (rq_meta req)) (rq_id req) (rq_model req) (rq_requested req)
      (wants_generate req) (app_store a) = (d, s)" by fastforce
  show ?thesis
  proof (cases "gdn_handled d")
    case True
    then have "r = group_answer H (rq_format req) d" "a' = set_store s a" using assms False by (simp_all add: commit_request_def g)
    then show ?thesis using AdmitGroup_status [OF g] True False group_refusal by (auto simp: group_answer_def gates_passed_def g)
  next
    case unhandled: False
    obtain s' where k: "admit_key H req s = (r, s')" and a': "a' = set_store s' a"
      using assms False unhandled by (simp add: commit_request_def g split: prod.splits)
    show ?thesis using admit_key_answer [OF k] False unhandled by (simp add: gates_passed_def g a')
  qed
qed

section \<open>An admission on its own\<close>

lemma admissions_restored:
  assumes "app_admissions b = app_admissions (beginAdmission rid a)"
    "\<forall>e. map_of (app_admissions a) (TrimSpace rid) = Some e \<longrightarrow> 0 < adm_calls e"
  shows "map_of (app_admissions (endAdmission rid b)) k = map_of (app_admissions a) k"
proof (cases "TrimSpace rid = []")
  case True
  then show ?thesis using assms(1) by (simp add: beginAdmission_def endAdmission_def)
next
  case False
  show ?thesis
  proof (cases "map_of (app_admissions a) (TrimSpace rid)")
    case None
    then have "app_admissions b = AList.update (TrimSpace rid) \<lparr>adm_calls = 1, adm_completed = False\<rparr> (app_admissions a)"
      using assms(1) False by (simp add: beginAdmission_def Let_def)
    then show ?thesis using False None by (simp add: endAdmission_def Let_def delete_conv' update_conv')
  next
    case (Some e)
    then have "app_admissions b = AList.update (TrimSpace rid) (e\<lparr>adm_calls := adm_calls e + 1\<rparr>) (app_admissions a)" "adm_calls e \<noteq> 0"
      using assms False by (auto simp: beginAdmission_def Let_def)
    then show ?thesis using False Some by (simp add: endAdmission_def Let_def update_conv')
  qed
qed

text \<open>C3: An admission no other call interferes with answers in one of two ways. It refuses with status 403, 429 or 503 and leaves
  every slot as it was; or it lets the request through: the plugin is off, or the model is permitted and priced, the request is not completed,
  and the gates of group, slots and quota were passed in order. Either way only the request's own slot can change, and the table
  of admissions is restored.\<close>

theorem interceptBeforeAuth_ok:
  fixes req :: RequestInterceptRequest and a :: App
  defines "s \<equiv> app_store a" and "s' \<equiv> \<lambda>a'. app_store a'"
  assumes "\<not> is_helper req" "models_ok req" "clock_fits H"
    "\<forall>e. map_of (app_admissions a) (TrimSpace (rq_id req)) = Some e \<longrightarrow> 0 < adm_calls e"
    "interceptBeforeAuth H (Inr req) a = (answer, a')"
  shows "\<exists>r. answer = Inr r \<and>
    (rsp_terminate r \<and> rsp_status r \<in> {403, 429, 503} \<and> holds (s' a') = holds s \<or>
     r = pass \<and> (Enabled s \<longrightarrow> model_permitted req s \<and> priced H req a \<and> gates_passed H req s (s' a') \<and>
       (TrimSpace (rq_id req) \<noteq> [] \<longrightarrow> (\<forall>e. map_of (app_admissions a) (TrimSpace (rq_id req)) = Some e \<longrightarrow> \<not> adm_completed e)))) \<and>
    (\<not> Enabled s \<longrightarrow> r = pass \<and> s' a' = s) \<and> (\<forall>x. x \<noteq> TrimSpace (rq_id req) \<longrightarrow> holds (s' a') x = holds s x) \<and>
    (\<forall>k. map_of (app_admissions a') k = map_of (app_admissions a) k)"
proof -
  define a1 where "a1 = beginAdmission (rq_id req) a"
  obtain x a2 where c: "check_request H req a1 = (x, a2)" by fastforce
  obtain r a3 where r: "(case x of Some r \<Rightarrow> (r, a2) | None \<Rightarrow> commit_request H req a2) = (r, a3)" by fastforce
  have res: "answer = Inr r" "a' = endAdmission (rq_id req) a3"
    using assms(3,7) c r by (auto simp: interceptBeforeAuth_def Let_def a1_def split: option.splits prod.splits)
  have st1: "app_store a1 = s" by (simp add: a1_def s_def)
  have p1: "priced H req a1 = priced H req a" by (simp add: priced_def a1_def)
  note chk = check_request_answer [OF assms(3,4) c]
  have early: "\<not> adm_completed e" if "\<not> completed_early req a2" "TrimSpace (rq_id req) \<noteq> []"
    "map_of (app_admissions a) (TrimSpace (rq_id req)) = Some e" for e
    using that chk by (simp add: completed_early_def a1_def beginAdmission_def Let_def update_conv')
  show ?thesis
  proof (cases x)
    case (Some y)
    then have "r = y" "a3 = a2" using r by simp_all
    then have "holds (s' a') = holds s" "s' a' = s" "app_admissions a3 = app_admissions a1"
      using chk st1 res by (simp_all add: s'_def)
    moreover have "refused_with r \<or> r = pass \<and> \<not> Enabled s" using chk Some \<open>r = y\<close> st1 by (auto split: if_splits)
    moreover have "\<not> Enabled s \<Longrightarrow> r = pass" using chk Some \<open>r = y\<close> st1 by (auto split: if_splits)
    moreover note admissions_restored [OF \<open>app_admissions a3 = app_admissions a1\<close> [unfolded a1_def] assms(6)]
    ultimately show ?thesis using res by (auto simp: refused_with_def)
  next
    case None
    then have k: "commit_request H req a2 = (r, a3)" using r by simp
    have on: "Enabled s" "model_permitted req s" "priced H req a" "app_store a2 = s" "app_admissions a2 = app_admissions a1"
      using chk None st1 p1 by (auto split: if_splits)
    note e = commit_request_effect [OF assms(5) k] and ans = commit_answer [OF k]
    have store: "s' a' = app_store a3" using res by (simp add: s'_def)
    have "app_admissions a3 = app_admissions a1" using e on by simp
    note adm = admissions_restored [OF this [unfolded a1_def] assms(6)]
    have others: "\<forall>y. y \<noteq> TrimSpace (rq_id req) \<longrightarrow> holds (s' a') y = holds s y" using e on(4) store by simp
    have "refused_with r \<and> holds (s' a') = holds s \<or>
        r = pass \<and> \<not> completed_early req a2 \<and> gates_passed H req s (s' a')"
      using ans e on(4) store by (auto simp: refused_with_def)
    then show ?thesis
      using on(1-3) others adm early res by (intro exI [of _ r]) (auto simp: refused_with_def)
  qed
qed

text \<open>A model without a price, while the database is being replaced.\<close>

definition unpriced_host :: host_env where
  "unpriced_host = sample_host\<lparr>he_switched := True\<rparr>"

definition asking :: RequestInterceptRequest where
  "asking = \<lparr>rq_id = ''r'', rq_format = ''openai'', rq_model = ''m'', rq_requested = [], rq_meta = [(''caller_scope'', MetaString ''ab'')]\<rparr>"

lemma asking_unpriced: "\<not> priced unpriced_host asking denied_app"
proof -
  have st: "st_prices (s_state (app_store denied_app)) = []" by (simp add: denied_app_def small_state_def NewState_def)
  have m: "TrimSpace ''m'' = ''m''" "ToLower ''m'' = ''m''"
    by (simp_all add: TrimSpace_visible visible_def ToLower_def lower_byte_def is_upper_def)
  have b: "ToLower (TrimSpace ''gpt-image-1.5'') \<noteq> ''m''" "ToLower (TrimSpace ''codex-auto-review'') \<noteq> ''m''"
    by (simp_all add: TrimSpace_visible visible_def ToLower_def)
  have "prc_source (local_price [] (ResolveBillingModel [] ''m'' [])) = PriceSourceNone"
    by (simp add: ResolveBillingModel_def ModelWithoutThinkingSuffix_def m local_price_def ResolveCustomPrice_def no_price_def Let_def
        ResolveBuiltinPrice_def resolveBuiltinRates_def NormalizeModelID_def builtinPrices_def b b [symmetric])
  then show ?thesis by (simp add: priced_def st ResolveModelPrice_def unpriced_host_def asking_def Let_def split: prod.split)
qed

theorem interceptBeforeAuth_ok_witness:
  "\<exists>r a'. interceptBeforeAuth unpriced_host (Inr asking) denied_app = (Inr r, a') \<and> rsp_terminate r \<and> rsp_status r \<in> {403, 429, 503} \<and>
     holds (app_store a') = holds (app_store denied_app)"
proof -
  obtain answer a' where i: "interceptBeforeAuth unpriced_host (Inr asking) denied_app = (answer, a')" by fastforce
  have n: "now_ok (time_of_unix 1700000000)" "\<not> IsZero (time_of_unix 1700000000)"
    by (simp_all add: now_ok_def clock_ok_def) (simp add: IsZero_def time_of_unix_def)
  have h: "\<not> is_helper asking" "models_ok asking" "clock_fits unpriced_host" "Enabled (app_store denied_app)" "app_admissions denied_app = []"
    using n by (simp_all add: is_helper_def metadataString_def asking_def models_ok_def nul_free_def clock_fits_def unpriced_host_def
        sample_host_def Enabled_def denied_app_def newApp_def)
  from interceptBeforeAuth_ok [OF h(1-3) _ i] show ?thesis using asking_unpriced h(4,5) i by auto
qed

section \<open>The hint to retry\<close>

lemma small_bound: "(x :: rat) \<le> 2 ^ 40 \<Longrightarrow> x < f64_bound"
proof -
  assume x: "x \<le> 2 ^ 40"
  have "(2 :: rat) powi 40 < 2 powi 1024" by (simp only: powi_2_strict)
  also have "(2 :: rat) powi 40 = 2 ^ 40" by (simp add: power_int_def)
  finally show ?thesis using x by (simp add: f64_bound_def)
qed

lemma round64_small: "0 \<le> x \<Longrightarrow> round_rat x \<le> 2 ^ 40 \<Longrightarrow> round64 x = Fin (round_rat x)"
  using round64_nonneg_cases [of x] small_bound [of "round_rat x"] by auto

lemma round_small_int: "0 \<le> n \<Longrightarrow> n \<le> 2 ^ 40 \<Longrightarrow> round_rat (of_int n) = of_int n"
  by (rule round_rat_int) simp_all

text \<open>The seconds and the rest of a duration add up to a number whose ceiling, below an hour, is that of the duration.\<close>

lemma fraction_rounds:
  assumes "0 < r" "r < 1000000000"
  shows "1 / 2 ^ 30 \<le> round_rat (of_int r / 1000000000) \<and> round_rat (of_int r / 1000000000) \<le> 1"
proof -
  have p: "(2 :: rat) powi (-30) = 1 / 2 ^ 30" by (simp add: power_int_def power_one_over inverse_eq_divide)
  have "round_rat (1 / 2 ^ 30) = 1 / 2 ^ 30"
    using round_pos_power [of "-30"] by (simp add: round_rat_def flip: p)
  moreover have "1 / 2 ^ 30 \<le> (of_int r / 1000000000 :: rat)"
  proof -
    have "(1 :: rat) \<le> of_int r" using assms(1) by simp
    then show ?thesis by simp
  qed
  moreover have "(of_int r / 1000000000 :: rat) \<le> of_int 1"
  proof -
    have "(of_int r :: rat) \<le> of_int 1000000000" using assms(2) by (simp only: of_int_le_iff)
    then show ?thesis by simp
  qed
  moreover have "round_rat (of_int 1) = of_int 1" by (rule round_small_int) simp_all
  moreover have "round_rat (1 / 2 ^ 30) \<le> round_rat (of_int r / 1000000000)"
    by (rule round_rat_mono) (simp, fact)
  moreover have "round_rat (of_int r / 1000000000) \<le> round_rat (of_int 1)"
    by (rule round_rat_mono) (use assms in simp, fact)
  ultimately show ?thesis by (simp only: of_int_1)
qed

lemma seconds_round:
  assumes "0 \<le> q" "0 < x" "1 / 2 ^ 30 \<le> x" "x \<le> 1" "q \<le> 3600"
  shows "\<lceil>round_rat (of_int q + x)\<rceil> = q + 1"
proof -
  have p: "(2 :: rat) powi (-30) = 1 / 2 ^ 30" by (simp add: power_int_def power_one_over inverse_eq_divide)
  let ?m = "q * 2 ^ 30 + 1"
  have g: "(of_int q :: rat) + 1 / 2 ^ 30 = of_int ?m * 2 powi (-30)" by (simp add: p field_simps)
  have "?m \<le> 3600 * 2 ^ 30 + 1" using assms(5) by simp
  then have "round_pos (of_int ?m * 2 powi (-30)) = of_int ?m * 2 powi (-30)" using assms(1) by (intro round_pos_exact) simp_all
  moreover have "0 < of_int ?m * (2 :: rat) powi (-30)" using assms(1) by (intro mult_pos_pos) simp_all
  ultimately have low: "round_rat (of_int q + 1 / 2 ^ 30) = of_int q + 1 / 2 ^ 30" unfolding g by (simp add: round_rat_def)
  have high: "round_rat (of_int (q + 1)) = of_int (q + 1)" using assms(1,5) by (intro round_small_int) simp_all
  have "round_rat (of_int q + 1 / 2 ^ 30) \<le> round_rat (of_int q + x)" using assms(1,3) by (intro round_rat_mono) simp_all
  moreover have "round_rat (of_int q + x) \<le> round_rat (of_int (q + 1))" using assms(1,2,4) by (intro round_rat_mono) simp_all
  ultimately have "of_int q + 1 / 2 ^ 30 \<le> round_rat (of_int q + x)" "round_rat (of_int q + x) \<le> of_int q + 1" using low high by simp_all
  then show ?thesis by (simp add: ceiling_eq_iff)
qed

lemma parts_ceiling:
  assumes "0 \<le> q" "q \<le> 2 ^ 39" "0 \<le> r" "r < 1000000000"
  shows "min 3600 (fceil (fadd (f64_of_int q) (fdiv (f64_of_int r) (Fin 1000000000)))) = min 3600 (if r = 0 then q else q + 1)"
proof -
  define x :: rat where "x = round_rat (of_int r / 1000000000)"
  have x: "0 \<le> x" "x \<le> 1" "r = 0 \<Longrightarrow> x = 0" "r \<noteq> 0 \<Longrightarrow> 1 / 2 ^ 30 \<le> x"
    using fraction_rounds [of r] assms(3,4) by (cases "r = 0"; simp add: x_def round_rat_nonneg)+
  have whole: "f64_of_int q = Fin (of_int q)" "f64_of_int r = Fin (of_int r)"
    using round64_small [of "of_int q"] round64_small [of "of_int r"] round_small_int [of q] round_small_int [of r] assms
    by (simp_all add: f64_of_int_def)
  have "round64 (of_int r / 1000000000) = Fin x"
    unfolding x_def using x(2) assms(3) by (intro round64_small) (auto simp: x_def)
  then have rest: "fdiv (Fin (of_int r)) (Fin 1000000000) = Fin x" by simp
  define z where "z = round_rat (of_int q + x)"
  have bound: "of_int q \<le> z" "z \<le> of_int (q + 1)"
    using round_rat_mono [of "of_int q" "of_int q + x"] round_rat_mono [of "of_int q + x" "of_int (q + 1)"]
      round_small_int [of q] round_small_int [of "q + 1"] assms(1,2) x(1,2) by (simp_all add: z_def)
  have "of_int (q + 1) \<le> (of_int (2 ^ 40) :: rat)" unfolding of_int_le_iff using assms(2) by simp
  then have top: "z \<le> 2 ^ 40" using order_trans [OF bound(2)] by simp
  have "0 \<le> of_int q + x" using assms(1) x(1) by simp
  then have sum': "fadd (Fin (of_int q)) (Fin x) = Fin z" using round64_small top by (simp add: z_def)
  have "min 3600 \<lceil>z\<rceil> = min 3600 (if r = 0 then q else q + 1)"
  proof (cases "q \<le> 3600")
    case True
    have "\<lceil>z\<rceil> = (if r = 0 then q else q + 1)"
    proof (cases "r = 0")
      case True
      then show ?thesis using x(3) round_small_int [of q] assms(1,2) by (simp add: z_def)
    next
      case False
      then have "0 < x" using less_le_trans [of 0 "1 / 2 ^ 30" x] x(4) by simp
      then show ?thesis using seconds_round [OF assms(1) _ x(4) x(2) True] False by (simp add: z_def)
    qed
    then show ?thesis by simp
  next
    case False
    have "q \<le> \<lceil>z\<rceil>" using bound(1) by (metis ceiling_mono ceiling_of_int)
    then show ?thesis using False by simp
  qed
  then show ?thesis by (simp only: whole rest sum' fceil.simps)
qed

lemma duration_ceiling:
  assumes "0 < d" "d \<le> max_int64"
  shows "min 3600 (fceil (duration_seconds d)) = min 3600 ((d + 999999999) div 1000000000)"
proof -
  define q r where "q = d div 1000000000" and "r = d mod 1000000000"
  have "0 \<le> q" "q \<le> 2 ^ 39" "0 \<le> r" "r < 1000000000" using assms by (simp_all add: q_def r_def)
  note parts = parts_ceiling [OF this]
  have d: "d = 1000000000 * q + r" by (simp add: q_def r_def)
  have "(d + 999999999) div 1000000000 = (if r = 0 then q else q + 1)"
  proof (cases "r = 0")
    case False
    then have "d + 999999999 = (r - 1) + 1000000000 * (q + 1)" by (simp add: d)
    moreover have "((r - 1) + 1000000000 * (q + 1)) div 1000000000 = (q + 1) + (r - 1) div 1000000000" by (rule div_mult_self2) simp
    moreover have "(r - 1) div 1000000000 = 0" using False \<open>0 \<le> r\<close> \<open>r < 1000000000\<close> by simp
    ultimately show ?thesis using False by simp
  qed (simp add: d)
  moreover have "duration_seconds d = fadd (f64_of_int q) (fdiv (f64_of_int r) (Fin 1000000000))"
    using assms(1) by (simp add: duration_seconds_def q_def r_def go_quo_def)
  ultimately show ?thesis by (simp only: parts)
qed

text \<open>C37: The hint to retry a refused request is the time to the reset in whole seconds, rounded up, though it is
  computed in floating point; it is one second for a reset that has passed and an hour at most.\<close>

theorem retryAfterSeconds_ok:
  "retryAfterSeconds resetAt now =
     (if IsZero resetAt then 0
      else let remaining = time_sub resetAt now
           in if remaining \<le> 0 then 1 else min 3600 ((remaining + 999999999) div 1000000000)) \<and>
   (IsZero resetAt \<or> 1 \<le> retryAfterSeconds resetAt now \<and> retryAfterSeconds resetAt now \<le> 3600)"
proof -
  let ?d = "time_sub resetAt now" and ?s = "\<lambda>d :: int. (d + 999999999) div 1000000000"
  have cap: "(if s > 3600 then 3600 else s) = min 3600 s" for s :: int by (simp add: min_def)
  have "?d \<le> max_int64" by (simp add: time_sub_def)
  then have exact: "0 < ?d \<Longrightarrow> min 3600 (fceil (duration_seconds ?d)) = min 3600 (?s ?d)" by (intro duration_ceiling)
  have positive: "1 \<le> ?s n" if "0 < n" for n using that by simp
  show ?thesis
  proof (cases "IsZero resetAt \<or> ?d \<le> 0")
    case True
    then show ?thesis by (auto simp: retryAfterSeconds_def Let_def)
  next
    case False
    then have "retryAfterSeconds resetAt now = min 3600 (fceil (duration_seconds ?d))"
      unfolding retryAfterSeconds_def maxRetryAfterSeconds_def Let_def cap by simp
    then have "retryAfterSeconds resetAt now = min 3600 (?s ?d)" using exact False by simp
    then show ?thesis using False positive [of ?d] by (simp add: Let_def)
  qed
qed

end
