(* ===== verification/Calls.thy ===== *)
theory Calls
  imports Picks
begin

text \<open>
  The plugin under concurrent calls of the proxy: the life cycle of \<^verbatim>\<open>internal/plugin/app.go\<close> (configuring and
  shutting down) and the interleavings of every call of \<^verbatim>\<open>intercept.go\<close>, \<^verbatim>\<open>scheduler.go\<close> and
  \<^verbatim>\<open>routing_credentials.go\<close>. An admission is four steps (it begins, checks, commits under the lock of the admissions
  and leaves); between them any other call may run, the completion of the same request among them. Two ghost
  sets remember which requests have begun and which are done: the proxy begins no call for a request
  after its completion.
\<close>

section \<open>The life cycle\<close>

text \<open>
  The configuration is decoded (\<open>raw\<close> is the YAML text of a decoded life-cycle request), the Keeper client is
  built when it names one (\<open>keeper\<close> is its error), the store configured, the credentials it loaded replace those of the
  database before, and the reference prices are looked up, or fetched when there are none; that
  result is dropped. \<open>references\<close> is what opening the reference prices of a new database gives.
\<close>

definition configure ::
  "env \<Rightarrow> refs_env \<Rightarrow> (string \<Rightarrow> Config \<Rightarrow> error + Config) \<Rightarrow> (Config \<Rightarrow> error option) \<Rightarrow> (string \<Rightarrow> error + string) \<Rightarrow>
     (string \<Rightarrow> error + disk) \<Rightarrow> error + referencePriceManager \<Rightarrow> error + string \<Rightarrow> App \<Rightarrow> (error + unit) \<times> App" where
  "configure E R yaml keeper abs_path open_db references raw a =
     (case try_bind raw (DecodeConfig yaml) of
        Inl e \<Rightarrow> (Inl e, a)
      | Inr cfg \<Rightarrow>
          (case (if cfg_keeper_url cfg = [] then None else keeper cfg) of
             Some e \<Rightarrow> (Inl e, a)
           | None \<Rightarrow>
               let previous = ConfigCredentials (app_store a);
                   references_error = (case references of Inl e \<Rightarrow> Some e | Inr _ \<Rightarrow> None)
               in case Configure E abs_path open_db references_error cfg (app_store a) of
                    (Inl e, s) \<Rightarrow> (Inl e, set_store s a)
                  | (Inr _, s) \<Rightarrow>
                      let refs = (if s_path s = s_path (app_store a) then sys_refs (app_sys a)
                                  else case references of Inl e \<Rightarrow> sys_refs (app_sys a) | Inr r \<Rightarrow> Some r);
                          a1 = a\<lparr>app_sys := \<lparr>sys_store = s, sys_refs = refs\<rparr>\<rparr>;
                          loaded = ConfigCredentials s;
                          a2 = (if same_map previous loaded then a1 else replaceSyncedCredentials previous loaded a1)
                      in (Inr (), a2\<lparr>app_sys := (app_sys a2)\<lparr>sys_refs := snd (EnsureReferencePrices R (sys_refs (app_sys a2)))\<rparr>\<rparr>)))"

text \<open>\<open>handleMethod\<close> logs a configuration that failed.\<close>

definition register :: "(error + unit) \<times> App \<Rightarrow> (error + unit) \<times> App" where
  "register result =
     (case result of
        (Inl e, a) \<Rightarrow> (Inl e, set_store (AddPluginLog PluginLogError (''configuring the plugin failed: '' @ Error_msg e) (app_store a)) a)
      | (Inr u, a) \<Rightarrow> (Inr u, a))"

definition Shutdown :: "App \<Rightarrow> App" where
  "Shutdown a = a\<lparr>app_sys := \<lparr>sys_store = Close (app_store a), sys_refs = None\<rparr>\<rparr>"

section \<open>Calls in flight\<close>

datatype phase = Checking | Committing | Leaving

record gateway =
  gw_app :: App
  gw_calls :: "(RequestInterceptRequest \<times> phase) list"
  gw_begun :: "string set"
  gw_done :: "string set"

definition request_id :: "RequestInterceptRequest \<Rightarrow> string" where
  "request_id req = TrimSpace (rq_id req)"

text \<open>The calls in flight for a request.\<close>

definition in_flight :: "string \<Rightarrow> (RequestInterceptRequest \<times> phase) list \<Rightarrow> nat" where
  "in_flight rid calls = length (filter (\<lambda>c. request_id (fst c) = rid) calls)"

text \<open>The requests of the management pages: all but those only an admission or a completion makes.\<close>

fun slot_request :: "request \<Rightarrow> bool" where
  "slot_request (Acquire_Slot scope rid) = True"
| "slot_request (Release_Slot rid) = True"
| "slot_request (Admit_Group scope rid model requested generate) = True"
| "slot_request rq = False"

definition usage_fits :: "UsageRecord \<Rightarrow> bool" where
  "usage_fits r \<longleftrightarrow> nul_free (ur_model r) \<and> nul_free (ur_alias r) \<and> detail_in_range (ur_detail r)"

inductive gstep :: "gateway \<Rightarrow> gateway \<Rightarrow> bool" where
  Arrive: "\<not> is_helper req \<Longrightarrow> models_ok req \<Longrightarrow> request_id req = [] \<or> request_id req \<notin> gw_done g \<Longrightarrow>
    gstep g (g\<lparr>gw_app := beginAdmission (rq_id req) (gw_app g), gw_calls := (req, Checking) # gw_calls g,
               gw_begun := insert (request_id req) (gw_begun g)\<rparr>)"
| Check: "gw_calls g = cs @ (req, Checking) # ds \<Longrightarrow> check_request H req (gw_app g) = (r, a) \<Longrightarrow>
    gstep g (g\<lparr>gw_app := a, gw_calls := cs @ (req, if r = None then Committing else Leaving) # ds\<rparr>)"
| Commit: "gw_calls g = cs @ (req, Committing) # ds \<Longrightarrow> clock_fits H \<Longrightarrow> commit_request H req (gw_app g) = (r, a) \<Longrightarrow>
    gstep g (g\<lparr>gw_app := a, gw_calls := cs @ (req, Leaving) # ds\<rparr>)"
| Leave: "gw_calls g = cs @ (req, Leaving) # ds \<Longrightarrow>
    gstep g (g\<lparr>gw_app := endAdmission (rq_id req) (gw_app g), gw_calls := cs @ ds\<rparr>)"
| Helper: "is_helper req \<Longrightarrow> models_ok req \<Longrightarrow> clock_fits H \<Longrightarrow> interceptBeforeAuth H (Inr req) (gw_app g) = (r, a) \<Longrightarrow>
    gstep g (g\<lparr>gw_app := a\<rparr>)"
| After: "interceptAfterAuth raw (gw_app g) = (r, a) \<Longrightarrow> gstep g (g\<lparr>gw_app := a\<rparr>)"
| Complete: "completeRequest (Inr c) (gw_app g) = (r, a) \<Longrightarrow>
    gstep g (g\<lparr>gw_app := a, gw_done := insert (TrimSpace (rc_id c)) (gw_done g)\<rparr>)"
| Pick: "pickCredential H raw (gw_app g) = (r, a) \<Longrightarrow> gstep g (g\<lparr>gw_app := a\<rparr>)"
| Usage: "usage_fits u \<Longrightarrow> handleUsage H decode (Inr u) (gw_app g) = (r, a) \<Longrightarrow> gstep g (g\<lparr>gw_app := a\<rparr>)"
| Inventory: "refreshCredentialInventory files (gw_app g) = (r, a) \<Longrightarrow> gstep g (g\<lparr>gw_app := a\<rparr>)"
| Sync: "syncConfiguredCredentials E body (gw_app g) = (r, a) \<Longrightarrow> gstep g (g\<lparr>gw_app := a\<rparr>)"
| Manage: "\<not> slot_request rq \<Longrightarrow> admissible E rq (s_state (app_store (gw_app g))) \<Longrightarrow>
    gstep g (g\<lparr>gw_app := set_store (serve E rand_id refused rq (app_store (gw_app g))) (gw_app g)\<rparr>)"
| Prune: "gstep g (g\<lparr>gw_app := (gw_app g)\<lparr>app_scheduler := prune live (app_scheduler (gw_app g))\<rparr>\<rparr>)"
| Configured: "register (configure E R yaml keeper abs_path (\<lambda>_. Inr new_disk) (Inr new_references) raw (gw_app g)) = (r, a) \<Longrightarrow>
    gstep g (g\<lparr>gw_app := a\<rparr>)"
| Stopped: "gstep g (g\<lparr>gw_app := Shutdown (gw_app g)\<rparr>)"

definition new_gateway :: gateway where
  "new_gateway = \<lparr>gw_app = newApp, gw_calls = [], gw_begun = {}, gw_done = {}\<rparr>"

inductive gateway_run :: "gateway \<Rightarrow> bool" where
  Start: "gateway_run new_gateway"
| Step: "gateway_run g \<Longrightarrow> gstep g g' \<Longrightarrow> gateway_run g'"

section \<open>What a call leaves alone\<close>

text \<open>Requests of the management pages take and release no slot.\<close>

lemma edit_same_slots: "same_slots s (snd (editConfiguration E fn s))"
  using edit_slots [of E fn s] by (cases "editConfiguration E fn s") (simp add: same_slots_def)

lemma update_same_slots: "same_slots s (snd (updateResult E fn s))"
proof -
  obtain v s' where u: "updateResult E fn s = (v, s')" by fastforce
  obtain w cur st where f: "fn (s_state s) = (w, cur, st)" by (metis prod_cases3)
  show ?thesis using updateResult_cases [OF u f] by (simp add: u same_slots_def)
qed

lemma log_same_slots: "same_slots s (AddPluginLog l m t) = same_slots s t"
  by (simp add: same_slots_def)

lemma price_same_slots:
  "same_slots s (snd (Store_UpsertPrice refused price s))" "same_slots s (snd (Store_DeletePrice refused model s))"
  by (simp_all add: Store_UpsertPrice_def Store_DeletePrice_def Let_def same_slots_def split: sum.splits option.splits)

lemma serve_same_slots: "\<not> slot_request rq \<Longrightarrow> same_slots s (serve E rand_id refused rq s)"
proof (cases rq)
  case (Sync_Keys keys allow)
  then show ?thesis by (simp add: SyncKeys_def Let_def edit_same_slots)
next
  case (Authorize_Request scope instant)
  then show ?thesis by (simp add: Authorize_slots)
qed (auto simp: operation_defs Let_def edit_same_slots update_same_slots price_same_slots log_same_slots
    ReportQuotaBlock_slots CreateRoute_def CreateResourceGroup_def PublishResourceGroup_def split: sum.splits)

lemma log_same_slots_left: "same_slots (AddPluginLog l m s) t = same_slots s t"
  by (simp add: same_slots_def)

lemma recordUsage_same_slots:
  assumes "recordUsage E R refuses event failure refs s = (refs', s')"
  shows "same_slots s s'"
proof -
  have "updateResult E fn t = (v, t') \<Longrightarrow> same_slots t t'" for E t v t' and fn :: "State \<Rightarrow> bool \<times> Changes \<times> State"
    using update_same_slots [of t E fn] by simp
  note slots = this
  from assms show ?thesis
    unfolding recordUsage_def Let_def
    by (auto simp: log_same_slots log_same_slots_left split: prod.splits if_splits dest!: slots)
qed

section \<open>The effect of each call\<close>

text \<open>A call that takes and releases no slot: a run of the store's steps that keeps the slots and the admissions.\<close>

definition quiet :: "App \<Rightarrow> App \<Rightarrow> bool" where
  "quiet a a' \<longleftrightarrow> moves (app_sys a) (app_sys a') \<and> same_slots (app_store a) (app_store a') \<and> app_admissions a' = app_admissions a"

lemma quietI: "moves (app_sys a) (app_sys a') \<Longrightarrow> same_slots (app_store a) (app_store a') \<Longrightarrow> app_admissions a' = app_admissions a \<Longrightarrow> quiet a a'"
  by (simp add: quiet_def)

lemma quiet_same: "app_sys a' = app_sys a \<Longrightarrow> app_admissions a' = app_admissions a \<Longrightarrow> quiet a a'"
  by (simp add: quiet_def)

lemma quiet_trans: "quiet a b \<Longrightarrow> quiet b c \<Longrightarrow> quiet a c"
  by (auto simp: quiet_def same_slots_def intro: rtranclp_trans)

lemma quiet_serve:
  assumes "\<not> slot_request rq" "admissible E rq (s_state (app_store a))"
  shows "quiet a (set_store (serve E rand_id refused rq (app_store a)) a)"
proof (rule quietI)
  show "moves (app_sys a) (app_sys (set_store (serve E rand_id refused rq (app_store a)) a))"
    using step.Request [of E rq "app_sys a" rand_id refused] assms(2) by (simp add: set_store_def)
qed (use assms(1) in \<open>simp_all add: serve_same_slots\<close>)

lemma quiet_log: "quiet a (set_store (AddPluginLog l m (app_store a)) a)"
  using quiet_serve [of "Add_Log l m" undefined a "\<lambda>_. Inr []" None] by simp

lemma quiet_pick: "pickCredential H raw a = (r, a') \<Longrightarrow> quiet a a'"
  using pick_other [of H raw a] by (intro quiet_same) simp_all

lemma quiet_inventory: "refreshCredentialInventory files a = (r, a') \<Longrightarrow> quiet a a'"
  by (rule quiet_same) (auto simp: refreshCredentialInventory_def Let_def split: sum.splits prod.splits)

lemma quiet_after: "interceptAfterAuth raw a = (r, a') \<Longrightarrow> quiet a a'"
  by (rule quiet_same) (auto simp: interceptAfterAuth_def split: sum.splits)

lemma replaceSynced_other [simp]:
  "app_sys (replaceSyncedCredentials p n a) = app_sys a" "app_admissions (replaceSyncedCredentials p n a) = app_admissions a"
  by (simp_all add: replaceSyncedCredentials_def)

lemma quiet_sync:
  assumes "syncConfiguredCredentials E body a = (r, a')"
  shows "quiet a a'"
proof -
  have q: "quiet a (set_store (snd (SyncConfigCredentials E m (app_store a))) a)" for m
    using quiet_serve [of "Sync_Credentials m" E a "\<lambda>_. Inr []" None] by simp
  have extend: "quiet a (replaceSyncedCredentials p m b)" if "quiet a b" for p m b
    using that by (simp add: quiet_def)
  show ?thesis
  proof (cases body)
    case (Inl e)
    then show ?thesis using assms by (simp add: syncConfiguredCredentials_def quiet_same)
  next
    case (Inr items)
    note body = this
    show ?thesis
    proof (cases "length items > 4096 \<or> synced_credentials items [] = None")
      case True
      then show ?thesis using assms body by (auto simp: syncConfiguredCredentials_def quiet_same split: if_splits)
    next
      case False
      then obtain m where m: "\<not> length items > 4096" "synced_credentials items [] = Some m" by auto
      obtain x s where c: "SyncConfigCredentials E m (app_store a) = (x, s)" by fastforce
      have "quiet a (set_store s a)" using q [of m] by (simp add: c)
      then show ?thesis
        using assms m(1) extend by (cases x) (auto simp: syncConfiguredCredentials_def body m(2) c Let_def)
    qed
  qed
qed

lemma quiet_usage:
  assumes "usage_fits u" "handleUsage H decode (Inr u) a = (r, a')"
  shows "quiet a a'"
proof (cases "Enabled (app_store a)")
  case False
  then show ?thesis using assms(2) by (simp add: handleUsage_def quiet_same)
next
  case True
  let ?failure = "if ur_failed u then Some (usage_error decode u) else None"
  obtain refs s where u: "recordUsage (he_env H 0) (he_refs H) (he_refuses1 H) (usage_event H u) ?failure (sys_refs (app_sys a)) (app_store a) = (refs, s)"
    by fastforce
  define b where "b = a\<lparr>app_sys := \<lparr>sys_store = s, sys_refs = refs\<rparr>\<rparr>"
  have fits: "nul_free (ue_upstream (usage_event H u))" "nul_free (ue_route_model (usage_event H u))"
    "in_int64 (tok_total (ue_breakdown (usage_event H u)))"
    using assms(1) usageBreakdown_total [of u] by (simp_all add: usage_fits_def usage_event_def)
  have "quiet a b"
    using step.Usage [OF u fits] recordUsage_same_slots [OF u] by (intro quietI) (simp_all add: b_def)
  moreover have "quiet b (observeCredentialUsage i t source scope b)" for i t source scope
    by (rule quiet_same) (simp_all add: observeCredentialUsage_def Let_def split: option.split)
  moreover have "a' = observeCredentialUsage (ur_auth_index u) (ur_auth_type u) (ur_source u) (CallerScope (ur_api_key u)) b"
    using assms(2) True u by (simp add: handleUsage_def RecordUsage_def RecordUsageError_def b_def split: if_splits)
  ultimately show ?thesis using quiet_trans by blast
qed

lemma Configure_Inl: "Configure E abs_path open_db references_error cfg s = (Inl e, s') \<Longrightarrow> s' = s"
  by (auto simp: Configure_def Let_def split: sum.splits if_splits option.splits prod.splits)

lemma quiet_configure:
  assumes "configure E R yaml keeper abs_path (\<lambda>_. Inr new_disk) (Inr new_references) raw a = (r, a')"
  shows "quiet a a'"
proof (cases "try_bind raw (DecodeConfig yaml)")
  case (Inl e)
  then show ?thesis using assms by (simp add: configure_def quiet_same)
next
  case (Inr cfg)
  obtain x s where c: "Configure E abs_path (\<lambda>_. Inr new_disk) None cfg (app_store a) = (x, s)" by fastforce
  show ?thesis
  proof (cases "(if cfg_keeper_url cfg = [] then None else keeper cfg) = None \<and> (\<exists>y. x = Inr y)")
    case False
    then have "a' = a \<or> a' = set_store (app_store a) a"
      using assms Inr c Configure_Inl [of E abs_path "\<lambda>_. Inr new_disk" None cfg "app_store a" _ s]
      by (cases x) (auto simp: configure_def Let_def split: option.splits)
    then show ?thesis by (auto intro: quiet_same)
  next
    case True
    define refs where "refs = (if s_path s = s_path (app_store a) then sys_refs (app_sys a) else Some new_references)"
    define b where "b = a\<lparr>app_sys := \<lparr>sys_store = s, sys_refs = refs\<rparr>\<rparr>"
    define d where "d = (if same_map (ConfigCredentials (app_store a)) (ConfigCredentials s) then b
        else replaceSyncedCredentials (ConfigCredentials (app_store a)) (ConfigCredentials s) b)"
    have "quiet a b"
      using step.Configured [OF c, of refs] Configure_slots [OF c] by (intro quietI) (simp_all add: b_def refs_def same_slots_def)
    moreover have "quiet b d" by (rule quiet_same) (simp_all add: d_def)
    moreover have "quiet d (d\<lparr>app_sys := (app_sys d)\<lparr>sys_refs := snd (EnsureReferencePrices R (sys_refs (app_sys d)))\<rparr>\<rparr>)"
      using step.Ensure [OF prod.collapse [symmetric], where R = R and sys = "app_sys d"] by (intro quietI) simp_all
    moreover have "a' = d\<lparr>app_sys := (app_sys d)\<lparr>sys_refs := snd (EnsureReferencePrices R (sys_refs (app_sys d)))\<rparr>\<rparr>"
    proof -
      obtain y where y: "x = Inr y" using True by blast
      show ?thesis
        using assms True
        unfolding configure_def Inr sum.case Let_def c prod.case y d_def b_def refs_def by (simp only: option.case prod.inject)
    qed
    ultimately show ?thesis using quiet_trans by metis
  qed
qed

lemma quiet_register:
  assumes "register (configure E R yaml keeper abs_path (\<lambda>_. Inr new_disk) (Inr new_references) raw a) = (r, a')"
  shows "quiet a a'"
proof -
  obtain x b where c: "configure E R yaml keeper abs_path (\<lambda>_. Inr new_disk) (Inr new_references) raw a = (x, b)" by fastforce
  have "a' = b \<or> (\<exists>m. a' = set_store (AddPluginLog PluginLogError m (app_store b)) b)"
    using assms by (cases x) (auto simp: register_def c)
  then show ?thesis using quiet_configure [OF c] quiet_trans [OF _ quiet_log] by auto
qed

lemma helper_effect:
  assumes "is_helper req" "models_ok req" "interceptBeforeAuth H (Inr req) a = (r, a')"
  shows "moves (app_sys a) (app_sys a') \<and> holds (app_store a') = holds (app_store a) \<and> app_admissions a' = app_admissions a"
proof -
  obtain x b where c: "check_request H req a = (x, b)" by fastforce
  have "x \<noteq> None" using c assms(1)
    by (auto simp: check_request_def split: if_splits option.splits prod.splits)
  then have "a' = b" using assms(1,3) c by (auto simp: interceptBeforeAuth_def)
  then show ?thesis using check_request_moves [OF assms(2) c] by simp
qed

lemma complete_effect:
  assumes "completeRequest (Inr c) a = (r, a')" "slots_ok (app_store a)"
  shows "moves (app_sys a) (app_sys a') \<and> app_admissions a' = app_admissions (mark_completed (TrimSpace (rc_id c)) a) \<and>
    (\<forall>x. holds (app_store a') x \<longleftrightarrow> holds (app_store a) x \<and> (x \<noteq> TrimSpace (rc_id c) \<or> TrimSpace (rc_id c) = []))"
proof -
  define a1 where "a1 = mark_completed (TrimSpace (rc_id c)) a"
  define a2 where "a2 = set_store (snd (ReleaseSlot (rc_id c) (app_store a1))) a1"
  have a': "a' = finishRouteLog c a2" using assms(1) by (simp add: completeRequest_def a1_def a2_def Let_def)
  have "app_sys a1 = app_sys a" by (simp add: a1_def)
  then have m: "moves (app_sys a) (app_sys a2)" using moves_release [of a1 "rc_id c"] by (simp add: a2_def)
  have h: "holds (app_store a2) x \<longleftrightarrow> holds (app_store a) x \<and> (x \<noteq> TrimSpace (rc_id c) \<or> TrimSpace (rc_id c) = [])" for x
    using ReleaseSlot_holds [OF assms(2)] \<open>app_sys a1 = app_sys a\<close> by (simp add: a2_def)
  have q: "quiet a2 (finishRouteLog c a2)"
  proof (cases "map_of (app_pending a2) (TrimSpace (rc_id c))")
    case (Some p)
    define b where "b = a2\<lparr>app_pending := AList.delete (TrimSpace (rc_id c)) (app_pending a2)\<rparr>"
    have "quiet a2 b" by (rule quiet_same) (simp_all add: b_def)
    moreover have "finishRouteLog c a2 = set_store (AddPluginLog PluginLogDebug (''route '' @ marshal (route_row c p b)) (app_store b)) b"
      by (simp add: finishRouteLog_def Some Let_def b_def)
    ultimately show ?thesis using quiet_trans [OF _ quiet_log] by metis
  qed (simp add: finishRouteLog_def quiet_same)
  have "app_admissions a2 = app_admissions a1" by (simp add: a2_def)
  moreover have "holds (app_store (finishRouteLog c a2)) = holds (app_store a2)"
    using q same_slots_holds by (simp add: quiet_def)
  ultimately show ?thesis using m q h by (auto simp: a' quiet_def a1_def)
qed

section \<open>The invariant\<close>

text \<open>
  The entry of a request counts its calls in flight and is marked once the request is done; every slot is held for
  a request that has begun and is not done.
\<close>

fun entry_fits :: "requestAdmission option \<Rightarrow> nat \<Rightarrow> bool \<Rightarrow> bool" where
  "entry_fits None n ended \<longleftrightarrow> n = 0"
| "entry_fits (Some e) n ended \<longleftrightarrow> adm_calls e = int n \<and> 0 < n \<and> (adm_completed e \<longleftrightarrow> ended)"

definition call_ok :: "string set \<Rightarrow> RequestInterceptRequest \<Rightarrow> bool" where
  "call_ok begun req \<longleftrightarrow> \<not> is_helper req \<and> models_ok req \<and> request_id req \<in> begun"

definition slots_live :: "gateway \<Rightarrow> bool" where
  "slots_live g \<longleftrightarrow> (\<forall>rid. holds (app_store (gw_app g)) rid \<longrightarrow> rid \<noteq> [] \<and> rid \<in> gw_begun g \<and> rid \<notin> gw_done g)"

definition books_ok :: "gateway \<Rightarrow> bool" where
  "books_ok g \<longleftrightarrow> distinct (map fst (app_admissions (gw_app g))) \<and> map_of (app_admissions (gw_app g)) [] = None \<and>
     (\<forall>rid. rid \<noteq> [] \<longrightarrow> entry_fits (map_of (app_admissions (gw_app g)) rid) (in_flight rid (gw_calls g)) (rid \<in> gw_done g)) \<and>
     (\<forall>r \<in> fst ` set (gw_calls g). call_ok (gw_begun g) r) \<and> slots_live g"

lemma booksD:
  assumes "books_ok g"
  shows "distinct (map fst (app_admissions (gw_app g)))" "map_of (app_admissions (gw_app g)) [] = None"
    "rid \<noteq> [] \<Longrightarrow> entry_fits (map_of (app_admissions (gw_app g)) rid) (in_flight rid (gw_calls g)) (rid \<in> gw_done g)"
    "r \<in> fst ` set (gw_calls g) \<Longrightarrow> call_ok (gw_begun g) r" "slots_live g"
  using assms unfolding books_ok_def by blast+

lemma in_flight_simps [simp]:
  "in_flight rid [] = 0" "in_flight rid (c # cs) = (if request_id (fst c) = rid then 1 else 0) + in_flight rid cs"
  "in_flight rid (cs @ ds) = in_flight rid cs + in_flight rid ds"
  by (simp_all add: in_flight_def)

lemma in_flight_cong: "map fst cs = map fst ds \<Longrightarrow> in_flight rid cs = in_flight rid ds"
proof -
  have "in_flight rid calls = length (filter (\<lambda>r. request_id r = rid) (map fst calls))" for calls
    by (simp add: in_flight_def filter_map comp_def)
  then show "map fst cs = map fst ds \<Longrightarrow> in_flight rid cs = in_flight rid ds" by metis
qed

text \<open>A step that keeps the admissions, the calls up to their phase and the slots keeps the books.\<close>

lemma books_kept:
  assumes "books_ok g" "app_admissions (gw_app g') = app_admissions (gw_app g)" "map fst (gw_calls g') = map fst (gw_calls g)"
    "gw_begun g' = gw_begun g" "gw_done g' = gw_done g"
    "\<And>rid. holds (app_store (gw_app g')) rid \<Longrightarrow> holds (app_store (gw_app g)) rid \<or> rid \<noteq> [] \<and> rid \<in> gw_begun g \<and> rid \<notin> gw_done g"
  shows "books_ok g'"
proof -
  have "fst ` set (gw_calls g') = fst ` set (gw_calls g)" using assms(3) by (metis list.set_map)
  then show ?thesis
    using assms(1,2,4,5,6) in_flight_cong [OF assms(3)] unfolding books_ok_def slots_live_def by metis
qed

lemma books_arrive:
  assumes "books_ok g" "\<not> is_helper req" "models_ok req" "request_id req = [] \<or> request_id req \<notin> gw_done g"
  shows "books_ok (g\<lparr>gw_app := beginAdmission (rq_id req) (gw_app g), gw_calls := (req, Checking) # gw_calls g,
    gw_begun := insert (request_id req) (gw_begun g)\<rparr>)" (is "books_ok ?g")
proof -
  let ?rid = "request_id req" and ?adm = "app_admissions (gw_app g)"
  note b = booksD [OF assms(1)]
  have slots: "slots_live ?g" using b(5) by (auto simp: slots_live_def)
  have calls: "\<forall>r \<in> fst ` set (gw_calls ?g). call_ok (gw_begun ?g) r" using b(4) assms(2,3) by (auto simp: call_ok_def)
  define e where "e = (case map_of ?adm ?rid of None \<Rightarrow> \<lparr>adm_calls = 0, adm_completed = False\<rparr> | Some e \<Rightarrow> e)"
  have adm: "app_admissions (gw_app ?g) = (if ?rid = [] then ?adm else AList.update ?rid (e\<lparr>adm_calls := adm_calls e + 1\<rparr>) ?adm)"
    by (simp add: beginAdmission_def request_id_def Let_def e_def)
  have "entry_fits (map_of (app_admissions (gw_app ?g)) rid) (in_flight rid (gw_calls ?g)) (rid \<in> gw_done ?g)" if "rid \<noteq> []" for rid
  proof (cases "rid = ?rid")
    case True
    have "adm_calls e = int (in_flight ?rid (gw_calls g)) \<and> (adm_completed e \<longleftrightarrow> ?rid \<in> gw_done g)"
      using b(3) [of ?rid] assms(4) True that by (cases "map_of ?adm ?rid") (simp_all add: e_def)
    then show ?thesis using True that unfolding adm by (simp add: update_conv')
  next
    case False
    then have "?rid = rid \<longleftrightarrow> False" by simp
    then show ?thesis using b(3) [OF that] False unfolding adm by (simp add: update_conv')
  qed
  moreover have "distinct (map fst (app_admissions (gw_app ?g)))" "map_of (app_admissions (gw_app ?g)) [] = None"
    using b(1,2) unfolding adm by (simp_all add: distinct_update update_conv')
  ultimately show ?thesis unfolding books_ok_def using slots calls by blast
qed

lemma books_leave:
  assumes "books_ok g" "gw_calls g = cs @ (req, Leaving) # ds"
  shows "books_ok (g\<lparr>gw_app := endAdmission (rq_id req) (gw_app g), gw_calls := cs @ ds\<rparr>)" (is "books_ok ?g")
proof -
  let ?rid = "request_id req" and ?adm = "app_admissions (gw_app g)"
  note b = booksD [OF assms(1)]
  have slots: "slots_live ?g" using b(5) by (simp add: slots_live_def)
  have calls: "\<forall>r \<in> fst ` set (gw_calls ?g). call_ok (gw_begun ?g) r" using b(4) assms(2) by auto
  have flight: "in_flight rid (gw_calls g) = (if ?rid = rid then 1 else 0) + in_flight rid (cs @ ds)" for rid by (simp add: assms(2))
  have left: "(?rid = [] \<and> app_admissions (gw_app ?g) = ?adm) \<or>
    (\<exists>e. ?rid \<noteq> [] \<and> adm_completed e = (?rid \<in> gw_done g) \<and> app_admissions (gw_app ?g) =
       (if in_flight ?rid (cs @ ds) = 0 then AList.delete ?rid ?adm
        else AList.update ?rid (e\<lparr>adm_calls := int (in_flight ?rid (cs @ ds))\<rparr>) ?adm))"
  proof (cases "?rid = []")
    case True
    then show ?thesis by (simp add: endAdmission_def request_id_def)
  next
    case False
    obtain e where m: "map_of ?adm ?rid = Some e"
      using b(3) [OF False] flight [of ?rid] by (cases "map_of ?adm ?rid") simp_all
    then have "adm_calls e = 1 + int (in_flight ?rid (cs @ ds))" "adm_completed e = (?rid \<in> gw_done g)"
      using b(3) [OF False] flight [of ?rid] by (simp_all add: m del: in_flight_simps)
    then show ?thesis using False m by (intro disjI2 exI [of _ e]) (simp add: endAdmission_def request_id_def Let_def del: in_flight_simps)
  qed
  have "entry_fits (map_of (app_admissions (gw_app ?g)) rid) (in_flight rid (gw_calls ?g)) (rid \<in> gw_done ?g)" if "rid \<noteq> []" for rid
    using left b(3) [OF that] flight [of rid] that by (elim disjE exE conjE) (auto simp: update_conv' delete_conv' simp del: in_flight_simps)
  moreover have "distinct (map fst (app_admissions (gw_app ?g)))" "map_of (app_admissions (gw_app ?g)) [] = None"
    using left b(1,2) by (elim disjE exE conjE; simp add: distinct_update distinct_delete update_conv' delete_conv' del: in_flight_simps)+
  ultimately show ?thesis unfolding books_ok_def using slots calls by blast
qed

lemma books_complete:
  assumes "books_ok g" "slots_ok (app_store (gw_app g))" "completeRequest (Inr c) (gw_app g) = (r, a)"
  shows "books_ok (g\<lparr>gw_app := a, gw_done := insert (TrimSpace (rc_id c)) (gw_done g)\<rparr>)" (is "books_ok ?g")
proof -
  let ?rid = "TrimSpace (rc_id c)" and ?adm = "app_admissions (gw_app g)"
  note b = booksD [OF assms(1)] and e = complete_effect [OF assms(3,2)]
  have slots: "slots_live ?g" using b(5) e by (auto simp: slots_live_def)
  have adm: "app_admissions (gw_app ?g) = (case map_of ?adm ?rid of None \<Rightarrow> ?adm | Some e \<Rightarrow> AList.update ?rid (e\<lparr>adm_completed := True\<rparr>) ?adm)"
    using e by (simp add: mark_completed_def split: option.split)
  have "entry_fits (map_of (app_admissions (gw_app ?g)) rid) (in_flight rid (gw_calls ?g)) (rid \<in> gw_done ?g)" if "rid \<noteq> []" for rid
    using b(3) [OF that] unfolding adm by (cases "rid = ?rid"; cases "map_of ?adm ?rid") (simp_all add: update_conv')
  moreover have "distinct (map fst (app_admissions (gw_app ?g)))" "map_of (app_admissions (gw_app ?g)) [] = None"
    using b(1,2) unfolding adm by (cases "map_of ?adm ?rid"; auto simp: distinct_update update_conv')+
  moreover have "\<forall>r \<in> fst ` set (gw_calls ?g). call_ok (gw_begun ?g) r" using b(4) by simp
  ultimately show ?thesis unfolding books_ok_def using slots by blast
qed

text \<open>The commit is where a slot is taken: for a request that has begun, and not for one that is done.\<close>

lemma books_commit:
  assumes "books_ok g" "gw_calls g = cs @ (req, Committing) # ds" "clock_fits H" "commit_request H req (gw_app g) = (r, a)"
  shows "books_ok (g\<lparr>gw_app := a, gw_calls := cs @ (req, Leaving) # ds\<rparr>)"
proof (rule books_kept [OF assms(1)])
  let ?rid = "request_id req"
  note b = booksD [OF assms(1)] and e = commit_request_effect [OF assms(3,4)]
  have begun: "?rid \<in> gw_begun g" using b(4) [of req] assms(2) by (simp add: call_ok_def)
  have early: "completed_early req (gw_app g)" if "?rid \<noteq> []" "?rid \<in> gw_done g"
    using b(3) [OF that(1)] that assms(2)
    by (cases "map_of (app_admissions (gw_app g)) ?rid") (auto simp: completed_early_def request_id_def)
  fix rid
  assume h: "holds (app_store (gw_app (g\<lparr>gw_app := a, gw_calls := cs @ (req, Leaving) # ds\<rparr>))) rid"
  show "holds (app_store (gw_app g)) rid \<or> rid \<noteq> [] \<and> rid \<in> gw_begun g \<and> rid \<notin> gw_done g"
  proof (cases "rid = ?rid")
    case True
    then show ?thesis using e h begun early by (auto simp: request_id_def)
  next
    case False
    then show ?thesis using e h by (auto simp: request_id_def)
  qed
qed (use assms(2) commit_request_effect [OF assms(3,4)] in simp_all)

lemma quiet_keeps:
  assumes "books_ok g" "quiet (gw_app g) a"
  shows "moves (app_sys (gw_app g)) (app_sys (gw_app (g\<lparr>gw_app := a\<rparr>))) \<and> books_ok (g\<lparr>gw_app := a\<rparr>)"
proof -
  have "books_ok (g\<lparr>gw_app := a\<rparr>)"
    using assms(2) same_slots_holds [of "app_store (gw_app g)" "app_store a"]
    by (intro books_kept [OF assms(1)]) (simp_all add: quiet_def)
  then show ?thesis using assms(2) by (simp add: quiet_def)
qed

text \<open>Every step is a run of the store's steps, and keeps the books.\<close>

lemma gstep_keeps:
  assumes "gstep g g'" "books_ok g" "slots_ok (app_store (gw_app g))"
  shows "moves (app_sys (gw_app g)) (app_sys (gw_app g')) \<and> books_ok g'"
  using assms
proof (cases rule: gstep.cases)
  case (Arrive req)
  then show ?thesis using books_arrive [OF assms(2), of req] by simp
next
  case (Check cs req ds H r a)
  have "models_ok req" using booksD(4) [OF assms(2), of req] Check(2) by (simp add: call_ok_def)
  from check_request_moves [OF this Check(3)] show ?thesis
    unfolding Check(1) using Check(2) books_kept [OF assms(2), of "g\<lparr>gw_app := a, gw_calls := cs @ (req, if r = None then Committing else Leaving) # ds\<rparr>"]
    by simp
next
  case (Commit cs req ds H r a)
  then show ?thesis using books_commit [OF assms(2) Commit(2-4)] commit_request_effect [OF Commit(3,4)] by simp
next
  case (Leave cs req ds)
  then show ?thesis using books_leave [OF assms(2) Leave(2)] by simp
next
  case (Helper req H r a)
  from helper_effect [OF Helper(2,3,5)] show ?thesis
    unfolding Helper(1) using books_kept [OF assms(2), of "g\<lparr>gw_app := a\<rparr>"] by simp
next
  case (Complete c r a)
  then show ?thesis using books_complete [OF assms(2,3) Complete(2)] complete_effect [OF Complete(2) assms(3)] by simp
next
  case (After raw r a)
  then show ?thesis using quiet_keeps [OF assms(2) quiet_after] by blast
next
  case (Pick H raw r a)
  then show ?thesis using quiet_keeps [OF assms(2) quiet_pick] by blast
next
  case (Usage u H decode r a)
  then show ?thesis using quiet_keeps [OF assms(2) quiet_usage] by blast
next
  case (Inventory files r a)
  then show ?thesis using quiet_keeps [OF assms(2) quiet_inventory] by blast
next
  case (Sync E body r a)
  then show ?thesis using quiet_keeps [OF assms(2) quiet_sync] by blast
next
  case (Manage rq E rand_id refused)
  then show ?thesis using quiet_keeps [OF assms(2) quiet_serve] by blast
next
  case (Prune live)
  have "quiet (gw_app g) ((gw_app g)\<lparr>app_scheduler := prune live (app_scheduler (gw_app g))\<rparr>)" by (rule quiet_same) simp_all
  then show ?thesis using quiet_keeps [OF assms(2)] Prune by blast
next
  case (Configured E R yaml keeper abs_path raw r a)
  then show ?thesis using quiet_keeps [OF assms(2) quiet_register] by blast
next
  case Stopped
  have "moves (app_sys (gw_app g)) (app_sys (gw_app g'))" using step.Closed [of "app_sys (gw_app g)"] by (simp add: Stopped Shutdown_def)
  moreover have "books_ok g'"
    unfolding Stopped by (rule books_kept [OF assms(2)]) (simp_all add: Shutdown_def Close_def holds_def has_key_def)
  ultimately show ?thesis by blast
qed

lemma reachable_moves: "moves sys sys' \<Longrightarrow> reachable sys \<Longrightarrow> reachable sys'"
  by (induction rule: rtranclp_induct) (auto intro: reachable.Step)

lemma new_books: "books_ok new_gateway"
  by (simp add: books_ok_def new_gateway_def newApp_def slots_live_def holds_def has_key_def new_system_def new_store_def)

lemma run_keeps: "gateway_run g \<Longrightarrow> reachable (app_sys (gw_app g)) \<and> books_ok g"
proof (induction rule: gateway_run.induct)
  case Start
  then show ?case using new_books by (simp add: new_gateway_def newApp_def reachable.Start)
next
  case (Step g g')
  then have "slots_ok (app_store (gw_app g))" using reachable_in_order by (simp add: in_order_def)
  with Step show ?case using gstep_keeps reachable_moves by blast
qed

section \<open>Any order of calls\<close>


lemma no_keys: "\<forall>k. \<not> has_key m k \<Longrightarrow> m = []"
  by (cases m) (auto simp: has_key_def split: if_splits)

text \<open>C1: However admissions and completions interleave, a slot belongs to a request that has begun and is not completed; the
  table of admissions holds exactly the requests with a call in flight, counts them and marks the completed ones; and
  once every request that began is completed no slot is taken and every count is back to zero.\<close>

theorem no_slot_outlives_its_request:
  fixes g :: gateway
  defines "s \<equiv> app_store (gw_app g)" and "admissions \<equiv> app_admissions (gw_app g)"
  assumes "gateway_run g"
  shows "(\<forall>rid. holds s rid \<longrightarrow> rid \<in> gw_begun g \<and> rid \<notin> gw_done g) \<and>
    (\<forall>rid e. map_of admissions rid = Some e \<longrightarrow>
       0 < adm_calls e \<and> adm_calls e = int (in_flight rid (gw_calls g)) \<and> (adm_completed e \<longleftrightarrow> rid \<in> gw_done g)) \<and>
    (\<forall>rid. rid \<noteq> [] \<and> 0 < in_flight rid (gw_calls g) \<longrightarrow> has_key admissions rid) \<and>
    (gw_begun g \<subseteq> gw_done g \<longrightarrow> s_active_requests s = [] \<and> s_group_slots s = [] \<and>
       (\<forall>k. active_of (s_active_by_scope s) k = 0 \<and> active_of (s_group_active s) k = 0))"
proof -
  have run: "reachable (app_sys (gw_app g))" "books_ok g" using run_keeps [OF assms(3)] by simp_all
  have ok: "slots_ok s" using reachable_in_order [OF run(1)] by (simp add: in_order_def s_def)
  note b = booksD [OF run(2), folded admissions_def]
  have live: "holds s rid \<Longrightarrow> rid \<in> gw_begun g \<and> rid \<notin> gw_done g" for rid using b(5) by (simp add: slots_live_def s_def)
  have entry: "0 < adm_calls e \<and> adm_calls e = int (in_flight rid (gw_calls g)) \<and> (adm_completed e \<longleftrightarrow> rid \<in> gw_done g)"
    if "map_of admissions rid = Some e" for rid e
    using b(3) [of rid] b(2) that by (cases "rid = []") simp_all
  have known: "has_key admissions rid" if "rid \<noteq> []" "0 < in_flight rid (gw_calls g)" for rid
    using b(3) [OF that(1)] that(2) by (cases "map_of admissions rid") (simp_all add: has_key_def)
  have quiet: "s_active_requests s = [] \<and> s_group_slots s = [] \<and>
      (\<forall>k. active_of (s_active_by_scope s) k = 0 \<and> active_of (s_group_active s) k = 0)" if "gw_begun g \<subseteq> gw_done g"
  proof -
    have "\<not> holds s rid" for rid using live [of rid] that by blast
    then have "\<forall>rid. \<not> has_key (s_active_requests s) rid" "\<forall>rid. \<not> has_key (s_group_slots s) rid" by (simp_all add: holds_def)
    then have "s_active_requests s = []" "s_group_slots s = []" using no_keys by blast+
    then show ?thesis using ok by (simp add: slots_ok_def counted_def slot_count_def)
  qed
  show ?thesis using live entry known quiet by blast
qed

section \<open>An example\<close>

text \<open>A request whose completion arrives while its admission is still checking.\<close>

definition sample_request :: RequestInterceptRequest where
  "sample_request = \<lparr>rq_id = ''r'', rq_format = ''openai'', rq_model = ''m'', rq_requested = [], rq_meta = []\<rparr>"

definition sample_completion :: RequestCompletion where
  "sample_completion = \<lparr>rc_id = ''r'', rc_outcome = ''client_closed'', rc_status = 0, rc_error = []\<rparr>"

lemma sample_request_facts: "request_id sample_request = ''r''" "\<not> is_helper sample_request" "models_ok sample_request"
  "TrimSpace (rc_id sample_completion) = ''r''"
  by (simp_all add: request_id_def sample_request_def sample_completion_def is_helper_def metadataString_def models_ok_def nul_free_def)

definition overtaken :: gateway where
  "overtaken = \<lparr>gw_app = snd (completeRequest (Inr sample_completion) (beginAdmission ''r'' newApp)),
     gw_calls = [(sample_request, Checking)], gw_begun = {''r''}, gw_done = {''r''}\<rparr>"

lemma overtaken_run: "gateway_run overtaken"
proof -
  have id: "rq_id sample_request = ''r''" by (simp add: sample_request_def)
  have "gateway_run (new_gateway\<lparr>gw_app := beginAdmission (rq_id sample_request) (gw_app new_gateway),
      gw_calls := (sample_request, Checking) # gw_calls new_gateway, gw_begun := insert (request_id sample_request) (gw_begun new_gateway)\<rparr>)"
    by (intro gateway_run.Step [OF gateway_run.Start] gstep.Arrive) (simp_all add: sample_request_facts new_gateway_def)
  from gateway_run.Step [OF this gstep.Complete [OF prod.collapse [symmetric], where c = sample_completion]]
  show ?thesis by (simp add: overtaken_def new_gateway_def sample_request_facts id)
qed


theorem no_slot_outlives_its_request_witness:
  "\<exists>e. map_of (app_admissions (gw_app overtaken)) ''r'' = Some e \<and> adm_calls e = 1 \<and> adm_completed e \<and>
     s_active_requests (app_store (gw_app overtaken)) = []"
proof -
  have "in_flight ''r'' (gw_calls overtaken) = 1" "gw_begun overtaken \<subseteq> gw_done overtaken" "''r'' \<in> gw_done overtaken"
    by (simp_all add: overtaken_def sample_request_facts)
  note facts = this
  note t = no_slot_outlives_its_request [OF overtaken_run]
  have "has_key (app_admissions (gw_app overtaken)) ''r''" using t facts(1) by simp
  then obtain e where e: "map_of (app_admissions (gw_app overtaken)) ''r'' = Some e" by (auto simp: has_key_def)
  have "adm_calls e = 1 \<and> adm_completed e" using t facts e by auto
  then show ?thesis using t facts(2) e by blast
qed

end
