(* ===== verification/Keeper.thy ===== *)
theory Keeper
  imports HostText GroupTypes
begin

text \<open>
  The client of Usage Keeper, the service that owns the labels of keys and credentials: \<^verbatim>\<open>internal/keeper/client.go\<close>.
  The service is arbitrary: what it answers may depend on every exchange before, so the state of an operation is the list
  of exchanges. It may not answer in time, refuse the session, or answer anything. \<open>Update_ok\<close> says what a caller
  may conclude from a result; Keeper has no compare-and-swap, so the expected value is checked on a fresh snapshot.
\<close>

section \<open>Exchanges\<close>

datatype keeper_error = Keeper_Error (keeper_code: string) (keeper_status: int)

record keeper_request =
  kq_method :: string
  kq_path :: string
  kq_payload :: "(string \<times> string) option"

text \<open>No answer at all, or a status and a body; the body is \<open>None\<close> when it cannot be read or exceeds 8 MiB.\<close>

datatype keeper_answer = Unreachable | Answered int "string option"

type_synonym exchanges = "(keeper_request \<times> keeper_answer) list"

record keeper_key =
  kk_id :: string
  kk_api_key :: string
  kk_alias :: string

record keeper_identity =
  ki_id :: string
  ki_auth_type :: int
  ki_identity :: string
  ki_alias :: "string option"
  ki_note :: "string option"
  ki_deleted :: bool

text \<open>
  \<open>ke_keys\<close> and \<open>ke_identities\<close> decode a body: \<open>None\<close> when it is not of the form, \<open>Some None\<close> when its list is missing.
  \<open>ke_password\<close> is the value of the configured environment variable.
\<close>

record keeper_env =
  ke_instance :: string
  ke_password :: string
  ke_answer :: "exchanges \<Rightarrow> keeper_request \<Rightarrow> keeper_answer"
  ke_keys :: "string \<Rightarrow> keeper_key list option option"
  ke_identities :: "string \<Rightarrow> keeper_identity list option option"
  ke_now :: "exchanges \<Rightarrow> time"

definition outcome_unknown :: string where "outcome_unknown = ''write_outcome_unknown''"

text \<open>What an answer means; a change that may have happened is told apart from one that was refused.\<close>

definition read_answer :: "keeper_request \<Rightarrow> keeper_answer \<Rightarrow> keeper_error + string" where
  "read_answer q a =
     (let patch = (kq_method q = ''PATCH'')
      in case a of
           Unreachable \<Rightarrow> Inl (Keeper_Error (if patch then outcome_unknown else ''unavailable'') 503)
         | Answered status body \<Rightarrow>
             if status < 200 \<or> status \<ge> 300
             then let denied = (status = 401 \<or> status = 403)
                  in Inl (Keeper_Error
                       (if patch \<and> status \<ge> 500 then outcome_unknown else if denied then ''authentication_failed'' else ''remote_rejected'')
                       (if denied then 503 else 502))
             else (case body of
                     None \<Rightarrow> Inl (Keeper_Error (if patch then outcome_unknown else ''invalid_response'') 502)
                   | Some raw \<Rightarrow> Inr raw))"

definition exchange :: "keeper_env \<Rightarrow> keeper_request \<Rightarrow> exchanges \<Rightarrow> keeper_answer \<times> exchanges" where
  "exchange K q h = (let a = ke_answer K h q in (a, h @ [(q, a)]))"

definition request_once :: "keeper_env \<Rightarrow> keeper_request \<Rightarrow> exchanges \<Rightarrow> (keeper_error + string) \<times> exchanges" where
  "request_once K q h = (case exchange K q h of (a, h1) \<Rightarrow> (read_answer q a, h1))"

definition login_request :: "keeper_env \<Rightarrow> keeper_request" where
  "login_request K = \<lparr>kq_method = ''POST'', kq_path = ''/auth/login'', kq_payload = Some (''password'', ke_password K)\<rparr>"

text \<open>A request whose session has expired logs in once and is sent again.\<close>

definition keeper_send :: "keeper_env \<Rightarrow> keeper_request \<Rightarrow> exchanges \<Rightarrow> (keeper_error + string) \<times> exchanges" where
  "keeper_send K q h =
     (case exchange K q h of
        (a, h1) \<Rightarrow>
          if (case a of Answered status _ \<Rightarrow> status = 401 | Unreachable \<Rightarrow> False)
          then if ke_password K = [] then (Inl (Keeper_Error ''password_env_missing'' 503), h1)
               else case request_once K (login_request K) h1 of
                      (Inl e, h2) \<Rightarrow> (Inl e, h2)
                    | (Inr _, h2) \<Rightarrow> request_once K q h2
          else (read_answer q a, h1))"

definition keeper_get :: "keeper_env \<Rightarrow> string \<Rightarrow> (string \<Rightarrow> 'a option) \<Rightarrow> exchanges \<Rightarrow> (keeper_error + 'a) \<times> exchanges" where
  "keeper_get K path decode h =
     (case keeper_send K \<lparr>kq_method = ''GET'', kq_path = path, kq_payload = None\<rparr> h of
        (Inl e, h1) \<Rightarrow> (Inl e, h1)
      | (Inr raw, h1) \<Rightarrow> (case decode raw of None \<Rightarrow> (Inl (Keeper_Error ''invalid_response'' 502), h1) | Some v \<Rightarrow> (Inr v, h1)))"

section \<open>Snapshots\<close>

definition validID :: "string \<Rightarrow> bool" where
  "validID i \<longleftrightarrow> 1 \<le> length i \<and> length i \<le> 19 \<and> list_all is_digit i \<and> (case ParseInt i of None \<Rightarrow> False | Some n \<Rightarrow> n > 0)"

definition numericID :: "string \<Rightarrow> int" where
  "numericID i = (case ParseInt i of None \<Rightarrow> 0 | Some n \<Rightarrow> n)"

text \<open>The same subject twice makes the whole snapshot ambiguous.\<close>

definition add_label :: "SharedLabel \<Rightarrow> SharedLabel list \<Rightarrow> keeper_error + SharedLabel list" where
  "add_label l acc =
     (if \<exists>o' \<in> set acc. sl_kind o' = sl_kind l \<and> sl_subject o' = sl_subject l
      then Inl (Keeper_Error ''ambiguous_identity'' 409) else Inr (acc @ [l]))"

fun add_labels :: "SharedLabel list \<Rightarrow> SharedLabel list \<Rightarrow> keeper_error + SharedLabel list" where
  "add_labels [] acc = Inr acc"
| "add_labels (l # ls) acc = (case add_label l acc of Inl e \<Rightarrow> Inl e | Inr acc' \<Rightarrow> add_labels ls acc')"

definition key_label :: "keeper_env \<Rightarrow> time \<Rightarrow> keeper_key \<Rightarrow> SharedLabel option" where
  "key_label K now k =
     (let scope = CallerScope (kk_api_key k)
      in if scope = [] \<or> \<not> validID (kk_id k) then None
         else Some \<lparr>sl_instance = ke_instance K, sl_kind = ''downstream_key'', sl_subject = scope, sl_external = numericID (kk_id k),
                sl_value = kk_alias k, sl_source_note = None, sl_fetched_at = now\<rparr>)"

type_synonym resolver = "int \<Rightarrow> string \<Rightarrow> string option"

definition text_or_empty :: "string option \<Rightarrow> string" where
  "text_or_empty v = (case v of None \<Rightarrow> [] | Some s \<Rightarrow> s)"

definition identity_label :: "keeper_env \<Rightarrow> resolver \<Rightarrow> time \<Rightarrow> keeper_identity \<Rightarrow> SharedLabel option" where
  "identity_label K resolve now v =
     (if ki_deleted v \<or> \<not> validID (ki_id v) then None
      else case resolve (ki_auth_type v) (ki_identity v) of
             None \<Rightarrow> None
           | Some ref \<Rightarrow>
               Some \<lparr>sl_instance = ke_instance K, sl_kind = ''upstream_identity'', sl_subject = ref, sl_external = numericID (ki_id v),
                 sl_value = text_or_empty (ki_alias v), sl_source_note = Some (text_or_empty (ki_note v)), sl_fetched_at = now\<rparr>)"

definition snapshot :: "keeper_env \<Rightarrow> resolver \<Rightarrow> exchanges \<Rightarrow> (keeper_error + SharedLabel list) \<times> exchanges" where
  "snapshot K resolve h =
     (case keeper_get K ''/usage/api-keys/settings'' (ke_keys K) h of
        (Inl e, h1) \<Rightarrow> (Inl e, h1)
      | (Inr None, h1) \<Rightarrow> (Inl (Keeper_Error ''incompatible_api_keys_response'' 502), h1)
      | (Inr (Some keys), h1) \<Rightarrow>
          let now = ke_now K h1
          in case add_labels (List.map_filter (key_label K now) keys) [] of
               Inl e \<Rightarrow> (Inl e, h1)
             | Inr labels \<Rightarrow>
                 (case keeper_get K ''/usage/identities'' (ke_identities K) h1 of
                    (Inl e, h2) \<Rightarrow> (Inl e, h2)
                  | (Inr None, h2) \<Rightarrow> (Inl (Keeper_Error ''incompatible_identities_response'' 502), h2)
                  | (Inr (Some identities), h2) \<Rightarrow>
                      (add_labels (List.map_filter (identity_label K resolve now) identities) labels, h2)))"

section \<open>Updates\<close>

text \<open>The format characters (category Cf) of Unicode 15.\<close>

definition is_format :: "nat \<Rightarrow> bool" where
  "is_format r \<longleftrightarrow> r \<in> {173, 1564, 1757, 1807, 2274, 6158, 65279, 69821, 69837, 917505} \<or>
     list_ex (\<lambda>(a, b). a \<le> r \<and> r \<le> b)
       [(1536, 1541), (2192, 2193), (8203, 8207), (8234, 8238), (8288, 8292), (8294, 8303), (65529, 65531), (78896, 78911),
        (113824, 113827), (119155, 119162), (917536, 917631)]"

definition check_label :: "string \<Rightarrow> string \<Rightarrow> keeper_error option" where
  "check_label kind value =
     (if kind \<noteq> ''upstream_identity'' \<and> kind \<noteq> ''downstream_key'' then Some (Keeper_Error ''invalid_subject_kind'' 400)
      else if length (runes value) > (if kind = ''upstream_identity'' then 50 else 128) then Some (Keeper_Error ''label_too_long'' 400)
      else if list_ex (\<lambda>r. IsControl r \<or> is_format r) (runes value) then Some (Keeper_Error ''invalid_label'' 400)
      else None)"

definition names :: "string \<Rightarrow> string \<Rightarrow> SharedLabel \<Rightarrow> bool" where
  "names kind subject l \<longleftrightarrow> sl_kind l = kind \<and> sl_subject l = subject"

definition patch_request :: "string \<Rightarrow> SharedLabel \<Rightarrow> string \<Rightarrow> keeper_request" where
  "patch_request kind l value =
     (let (path, field) = (if kind = ''upstream_identity'' then (''/usage/identities/'', ''alias'') else (''/usage/api-keys/'', ''keyAlias''))
      in \<lparr>kq_method = ''PATCH'', kq_path = path @ FormatInt (sl_external l), kq_payload = Some (field, value)\<rparr>)"

text \<open>The last matching label of a snapshot is the selected one; after the write a new snapshot must show the value.\<close>

definition Update ::
  "keeper_env \<Rightarrow> string \<Rightarrow> string \<Rightarrow> string \<Rightarrow> string option \<Rightarrow> resolver \<Rightarrow> exchanges \<Rightarrow> (keeper_error + SharedLabel list) \<times> exchanges" where
  "Update K kind subject value0 expected resolve h =
     (let value = TrimSpace value0
      in case check_label kind value of
           Some e \<Rightarrow> (Inl e, h)
         | None \<Rightarrow>
             (case snapshot K resolve h of
                (Inl e, h1) \<Rightarrow> (Inl e, h1)
              | (Inr current, h1) \<Rightarrow>
                  (case find (names kind subject) (rev current) of
                     None \<Rightarrow> (Inl (Keeper_Error ''mapping_not_found'' 409), h1)
                   | Some l \<Rightarrow>
                       if expected \<noteq> None \<and> expected \<noteq> Some (sl_value l) then (Inl (Keeper_Error ''label_conflict'' 409), h1)
                       else case keeper_send K (patch_request kind l value) h1 of
                              (Inl e, h2) \<Rightarrow> (Inl e, h2)
                            | (Inr _, h2) \<Rightarrow>
                                (case snapshot K resolve h2 of
                                   (Inl _, h3) \<Rightarrow> (Inl (Keeper_Error outcome_unknown 503), h3)
                                 | (Inr labels, h3) \<Rightarrow>
                                     if \<exists>l' \<in> set labels. names kind subject l' \<and> sl_value l' = value then (Inr labels, h3)
                                     else (Inl (Keeper_Error outcome_unknown 503), h3)))))"

section \<open>What goes over the wire\<close>

text \<open>The writes among some exchanges, and those of them that may have taken effect.\<close>

definition patches :: "exchanges \<Rightarrow> exchanges" where
  "patches h = filter (\<lambda>(q, a). kq_method q = ''PATCH'') h"

fun may_land :: "keeper_answer \<Rightarrow> bool" where
  "may_land Unreachable \<longleftrightarrow> True"
| "may_land (Answered status body) \<longleftrightarrow> 200 \<le> status \<and> status < 300 \<or> 500 \<le> status"

definition landed :: "exchanges \<Rightarrow> exchanges" where
  "landed h = filter (\<lambda>(q, a). may_land a) (patches h)"

lemma patches_simps [simp]:
  "patches [] = []" "patches (x # h) = (if kq_method (fst x) = ''PATCH'' then x # patches h else patches h)"
  "patches (h @ h') = patches h @ patches h'"
  by (auto simp: patches_def split: prod.splits)

lemma landed_simps [simp]:
  "landed [] = []" "landed (x # h) = (if kq_method (fst x) = ''PATCH'' \<and> may_land (snd x) then x # landed h else landed h)"
  "landed (h @ h') = landed h @ landed h'"
  by (auto simp: landed_def split: prod.splits)

lemma landed_no_patches: "patches h = [] \<Longrightarrow> landed h = []"
  by (simp add: landed_def)

lemma login_no_patch [simp]: "kq_method (login_request K) = ''POST''"
  by (simp add: login_request_def)

text \<open>A write that is refused for certain did not land.\<close>

lemma read_answer_refused:
  "read_answer q a = Inl e \<Longrightarrow> kq_method q = ''PATCH'' \<Longrightarrow> keeper_code e \<noteq> outcome_unknown \<Longrightarrow> \<not> may_land a"
  by (cases a) (auto simp: read_answer_def Let_def split: if_split_asm option.split_asm)

lemma read_answer_accepted:
  "read_answer q a = Inr raw \<Longrightarrow> \<exists>status. a = Answered status (Some raw) \<and> 200 \<le> status \<and> status < 300"
  by (cases a) (auto simp: read_answer_def Let_def split: if_split_asm option.split_asm)

text \<open>The ways a request can go: once, or denied and, after a login, once more.\<close>

lemma keeper_send_cases:
  assumes "keeper_send K q h = (r, h')"
  obtains (once) a where "h' = h @ [(q, a)]" "r = read_answer q a"
  | (no_password) body where "h' = h @ [(q, Answered 401 body)]" "r = Inl (Keeper_Error ''password_env_missing'' 503)"
  | (no_login) body b e where "h' = h @ [(q, Answered 401 body), (login_request K, b)]" "r = Inl e"
  | (again) body b a where "h' = h @ [(q, Answered 401 body), (login_request K, b), (q, a)]" "r = read_answer q a"
proof (cases "ke_answer K h q")
  case Unreachable
  show ?thesis
    by (rule once [of Unreachable]) (use assms Unreachable in \<open>simp_all add: keeper_send_def exchange_def Let_def\<close>)
next
  case (Answered status body)
  show ?thesis
  proof (cases "status = 401")
    case False
    show ?thesis
      by (rule once [of "Answered status body"]) (use assms Answered False in \<open>simp_all add: keeper_send_def exchange_def Let_def\<close>)
  next
    case True
    define b where "b = ke_answer K (h @ [(q, Answered 401 body)]) (login_request K)"
    define a where "a = ke_answer K (h @ [(q, Answered 401 body), (login_request K, b)]) q"
    note defs = keeper_send_def exchange_def request_once_def Let_def b_def [symmetric] a_def [symmetric]
    show ?thesis
    proof (cases "ke_password K = []")
      case no: True
      show ?thesis by (rule no_password [of body]) (use assms True Answered no in \<open>simp_all add: defs\<close>)
    next
      case pw: False
      show ?thesis
      proof (cases "read_answer (login_request K) b")
        case (Inl e)
        show ?thesis by (rule no_login [of body b e]) (use assms True Answered pw Inl in \<open>simp_all add: defs\<close>)
      next
        case (Inr v)
        show ?thesis by (rule again [of body b a]) (use assms True Answered pw Inr in \<open>simp_all add: defs\<close>)
      qed
    qed
  qed
qed

lemma keeper_send_new:
  assumes "keeper_send K q h = (r, h')"
  obtains new where "h' = h @ new" "length new \<le> 3" "\<forall>x \<in> set new. fst x = q \<or> fst x = login_request K"
  using assms by (cases rule: keeper_send_cases) auto

lemma keeper_send_patch:
  assumes "keeper_send K q h = (r, h')" "kq_method q = ''PATCH''"
  obtains new where "h' = h @ new" "length new \<le> 3" "\<forall>x \<in> set (patches new). fst x = q" "length (landed new) \<le> 1"
    "\<And>e. r = Inl e \<Longrightarrow> keeper_code e \<noteq> outcome_unknown \<Longrightarrow> landed new = []"
    "\<And>raw. r = Inr raw \<Longrightarrow> \<exists>status. (q, Answered status (Some raw)) \<in> set (landed new) \<and> 200 \<le> status \<and> status < 300"
  using assms(1)
proof (cases rule: keeper_send_cases)
  case (once a)
  show ?thesis
    using once assms(2) by (intro that [of "[(q, a)]"]) (auto dest: read_answer_refused [OF sym] read_answer_accepted [OF sym])
next
  case (no_password body)
  then show ?thesis using assms(2) by (intro that [of "[(q, Answered 401 body)]"]) auto
next
  case (no_login body b e)
  then show ?thesis using assms(2) by (intro that [of "[(q, Answered 401 body), (login_request K, b)]"]) auto
next
  case (again body b a)
  show ?thesis
    using again assms(2)
    by (intro that [of "[(q, Answered 401 body), (login_request K, b), (q, a)]"]) (auto dest: read_answer_refused [OF sym] read_answer_accepted [OF sym])
qed

lemma keeper_get_new:
  assumes "keeper_get K path decode h = (r, h')"
  obtains new where "h' = h @ new" "length new \<le> 3" "patches new = []"
proof -
  obtain r0 where s: "keeper_send K \<lparr>kq_method = ''GET'', kq_path = path, kq_payload = None\<rparr> h = (r0, h')"
    using assms by (auto simp: keeper_get_def split: prod.split_asm sum.split_asm option.split_asm)
  show ?thesis using s
  proof (rule keeper_send_new)
    fix new assume n: "h' = h @ new" "length new \<le> 3"
      "\<forall>x \<in> set new. fst x = \<lparr>kq_method = ''GET'', kq_path = path, kq_payload = None\<rparr> \<or> fst x = login_request K"
    have "kq_method (fst x) \<noteq> ''PATCH''" if "x \<in> set new" for x
      using n(3) that by (elim ballE disjE) auto
    then have "patches new = []" by (auto simp: patches_def filter_empty_conv)
    then show ?thesis using that n by blast
  qed
qed

section \<open>Snapshots\<close>

definition label_ok :: "keeper_env \<Rightarrow> SharedLabel \<Rightarrow> bool" where
  "label_ok K l \<longleftrightarrow> sl_instance l = ke_instance K \<and> sl_kind l \<in> {''downstream_key'', ''upstream_identity''} \<and> 0 < sl_external l"

definition labels_ok :: "keeper_env \<Rightarrow> SharedLabel list \<Rightarrow> bool" where
  "labels_ok K ls \<longleftrightarrow> distinct (map (\<lambda>l. (sl_kind l, sl_subject l)) ls) \<and> (\<forall>l \<in> set ls. label_ok K l)"

lemma numericID_pos: "validID i \<Longrightarrow> 0 < numericID i"
  by (auto simp: validID_def numericID_def split: option.splits)

lemma key_label_ok: "key_label K now k = Some l \<Longrightarrow> label_ok K l"
  by (auto simp: key_label_def label_ok_def Let_def numericID_pos split: if_split_asm)

lemma identity_label_ok: "identity_label K resolve now v = Some l \<Longrightarrow> label_ok K l"
  by (auto simp: identity_label_def label_ok_def numericID_pos split: if_split_asm option.split_asm)

lemma add_labels_ok:
  "add_labels ls acc = Inr out \<Longrightarrow> labels_ok K acc \<Longrightarrow> \<forall>l \<in> set ls. label_ok K l \<Longrightarrow> labels_ok K out"
proof (induction ls acc rule: add_labels.induct)
  case (2 l ls acc)
  from 2(2) obtain acc' where acc': "add_label l acc = Inr acc'" "add_labels ls acc' = Inr out"
    by (auto split: sum.split_asm)
  then have "labels_ok K acc'"
    using 2(3,4) by (auto simp: add_label_def labels_ok_def image_iff split: if_split_asm) blast
  then show ?case using 2(1) [OF acc'(1,2)] 2(4) by simp
qed simp

lemma map_filter_ball: "(\<And>x y. f x = Some y \<Longrightarrow> P y) \<Longrightarrow> \<forall>y \<in> set (List.map_filter f xs). P y"
  by (auto simp: map_filter_def)

text \<open>
  Taking a snapshot of Keeper ends after at most six exchanges and writes nothing; the labels it gives are of the
  configured instance and name every key and credential once, so a label never belongs to two subjects.
\<close>

lemma snapshot_effect:
  assumes "snapshot K resolve h = (r, h')"
  obtains new where "h' = h @ new" "length new \<le> 6" "patches new = []" "\<And>ls. r = Inr ls \<Longrightarrow> labels_ok K ls"
proof -
  note result = that
  obtain r1 h1 where g1: "keeper_get K ''/usage/api-keys/settings'' (ke_keys K) h = (r1, h1)" by fastforce
  obtain new1 where n1: "h1 = h @ new1" "length new1 \<le> 3" "patches new1 = []" using keeper_get_new [OF g1] by blast
  have early: thesis if "h' = h1" "\<And>ls. r \<noteq> Inr ls"
    using result [of new1] n1 that by simp
  show thesis
  proof (cases "\<exists>e. r1 = Inl e \<or> r1 = Inr None \<or>
      (\<exists>keys. r1 = Inr (Some keys) \<and> add_labels (List.map_filter (key_label K (ke_now K h1)) keys) [] = Inl e)")
    case True
    then have "h' = h1 \<and> (\<exists>e. r = Inl e)"
      using assms g1 by (elim exE disjE conjE) (auto simp: snapshot_def Let_def, metis)
    then show thesis by (intro early) auto
  next
    case False
    then obtain keys labels where k: "r1 = Inr (Some keys)"
      "add_labels (List.map_filter (key_label K (ke_now K h1)) keys) [] = Inr labels"
      by (metis option.exhaust sum.exhaust)
    have lok: "labels_ok K labels"
      by (rule add_labels_ok [OF k(2)]) (auto simp: labels_ok_def dest: key_label_ok intro!: map_filter_ball)
    obtain r2 h2 where g2: "keeper_get K ''/usage/identities'' (ke_identities K) h1 = (r2, h2)" by fastforce
    obtain new2 where n2: "h2 = h1 @ new2" "length new2 \<le> 3" "patches new2 = []" using keeper_get_new [OF g2] by blast
    have h': "h' = h2" using assms g1 g2 k by (auto simp: snapshot_def Let_def split: sum.split_asm option.split_asm)
    have "labels_ok K ls" if ls: "r = Inr ls" for ls
    proof -
      obtain ids where "add_labels (List.map_filter (identity_label K resolve (ke_now K h1)) ids) labels = Inr ls"
        using assms g1 g2 k ls by (auto simp: snapshot_def Let_def split: sum.split_asm option.split_asm)
      then show ?thesis by (rule add_labels_ok [OF _ lok]) (auto dest: identity_label_ok intro!: map_filter_ball)
    qed
    then show thesis using result [of "new1 @ new2"] n1 n2 h' by simp
  qed
qed

section \<open>Updates\<close>

lemma find_rev_mem: "find P (rev xs) = Some x \<Longrightarrow> x \<in> set xs \<and> P x"
  by (metis find_Some_iff nth_mem set_rev)

text \<open>Every way an update can end.\<close>

lemma Update_cases:
  assumes "Update K kind subject value expected resolve h = (r, h')"
  obtains (refused) e where "r = Inl e" "h' = h" "keeper_code e \<noteq> outcome_unknown"
  | (unread) r1 e where "snapshot K resolve h = (r1, h')" "r = Inl e"
  | (unwritten) labels l h1 e where "snapshot K resolve h = (Inr labels, h1)" "l \<in> set labels" "names kind subject l"
      "expected = None \<or> expected = Some (sl_value l)"
      "keeper_send K (patch_request kind l (TrimSpace value)) h1 = (Inl e, h')" "r = Inl e"
  | (written) labels l h1 raw h2 r3 where "snapshot K resolve h = (Inr labels, h1)" "l \<in> set labels" "names kind subject l"
      "expected = None \<or> expected = Some (sl_value l)"
      "keeper_send K (patch_request kind l (TrimSpace value)) h1 = (Inr raw, h2)" "snapshot K resolve h2 = (r3, h')"
      "r = Inl (Keeper_Error outcome_unknown 503) \<or>
       (\<exists>ls. r3 = Inr ls \<and> r = Inr ls \<and> (\<exists>l' \<in> set ls. names kind subject l' \<and> sl_value l' = TrimSpace value))"
proof (cases "check_label kind (TrimSpace value)")
  case (Some e)
  then have "keeper_code e \<noteq> outcome_unknown" by (auto simp: check_label_def outcome_unknown_def split: if_split_asm)
  then show ?thesis by (intro refused [of e]) (use assms Some in \<open>simp_all add: Update_def Let_def\<close>)
next
  case ok: None
  obtain r1 h1 where s1: "snapshot K resolve h = (r1, h1)" by fastforce
  show ?thesis
  proof (cases r1)
    case (Inl e)
    then show ?thesis by (intro unread [of r1 e]) (use s1 assms ok Inl in \<open>simp_all add: Update_def Let_def\<close>)
  next
    case (Inr labels)
    show ?thesis
    proof (cases "find (names kind subject) (rev labels)")
      case None
      then show ?thesis by (intro unread [of r1 "Keeper_Error ''mapping_not_found'' 409"]) (use s1 assms ok Inr in \<open>simp_all add: Update_def Let_def\<close>)
    next
      case (Some l)
      note l = find_rev_mem [OF Some]
      show ?thesis
      proof (cases "expected = None \<or> expected = Some (sl_value l)")
        case False
        then show ?thesis by (intro unread [of r1 "Keeper_Error ''label_conflict'' 409"]) (use s1 assms ok Inr Some in \<open>simp_all add: Update_def Let_def\<close>)
      next
        case fresh: True
        obtain r2 h2 where p: "keeper_send K (patch_request kind l (TrimSpace value)) h1 = (r2, h2)" by fastforce
        show ?thesis
        proof (cases r2)
          case (Inl e)
          then show ?thesis by (intro unwritten [of labels h1 l e]) (use s1 assms ok Inr Some fresh p l in \<open>auto simp: Update_def Let_def\<close>)
        next
          case raw: (Inr raw)
          obtain r3 h3 where s3: "snapshot K resolve h2 = (r3, h3)" by fastforce
          have "h' = h3 \<and> (r = Inl (Keeper_Error outcome_unknown 503) \<or>
              (\<exists>ls. r3 = Inr ls \<and> r = Inr ls \<and> (\<exists>l' \<in> set ls. names kind subject l' \<and> sl_value l' = TrimSpace value)))"
            using s1 assms ok Inr Some fresh p raw s3
            by (auto simp: Update_def Let_def split: sum.split_asm if_split_asm)
          then show ?thesis using written [of labels h1 l raw h2 r3] s1 Inr l fresh p raw s3 by simp
        qed
      qed
    qed
  qed
qed

lemma patch_request_method [simp]: "kq_method (patch_request kind l value) = ''PATCH''"
  by (simp add: patch_request_def split: prod.splits)

text \<open>What an update sends and what its result means.\<close>

lemma Update_effect:
  assumes "Update K kind subject value expected resolve h = (r, h')"
  shows "\<exists>new. h' = h @ new \<and> length new \<le> 15 \<and> length (landed new) \<le> 1 \<and>
    (patches new \<noteq> [] \<longrightarrow> (\<exists>labels h1 l. snapshot K resolve h = (Inr labels, h1) \<and> l \<in> set labels \<and> names kind subject l \<and>
       (\<forall>l' \<in> set labels. names kind subject l' \<longrightarrow> l' = l) \<and> (expected = None \<or> expected = Some (sl_value l)) \<and>
       (\<forall>x \<in> set (patches new). fst x = patch_request kind l (TrimSpace value)))) \<and>
    (\<forall>e. r = Inl e \<and> keeper_code e \<noteq> outcome_unknown \<longrightarrow> landed new = []) \<and>
    (\<forall>ls. r = Inr ls \<longrightarrow> landed new \<noteq> [] \<and> (\<exists>l' \<in> set ls. names kind subject l' \<and> sl_value l' = TrimSpace value))"
proof -
  have only: "\<forall>l' \<in> set labels. names kind subject l' \<longrightarrow> l' = l"
    if "labels_ok K labels" "l \<in> set labels" "names kind subject l" for labels l
    using that inj_onD [of "\<lambda>l. (sl_kind l, sl_subject l)" "set labels"] by (auto simp: labels_ok_def distinct_map names_def)
  show ?thesis using assms
  proof (cases rule: Update_cases)
    case (refused e)
    then show ?thesis by (intro exI [of _ "[]"]) simp
  next
    case (unread r1 e)
    obtain new where "h' = h @ new" "length new \<le> 6" "patches new = []" using snapshot_effect [OF unread(1)] by blast
    then show ?thesis using unread by (intro exI [of _ new]) (simp add: landed_no_patches)
  next
    case (unwritten labels l h1 e)
    obtain new1 where n1: "h1 = h @ new1" "length new1 \<le> 6" "patches new1 = []" "labels_ok K labels"
      using snapshot_effect [OF unwritten(1)] by (metis (no_types))
    obtain new2 where n2: "h' = h1 @ new2" "length new2 \<le> 3" "\<forall>x \<in> set (patches new2). fst x = patch_request kind l (TrimSpace value)"
      "length (landed new2) \<le> 1" "keeper_code e \<noteq> outcome_unknown \<Longrightarrow> landed new2 = []"
    proof (rule keeper_send_patch [OF unwritten(5) patch_request_method])
      fix new assume a: "h' = h1 @ new" "length new \<le> 3" "\<forall>x \<in> set (patches new). fst x = patch_request kind l (TrimSpace value)"
        "length (landed new) \<le> 1" "\<And>e'. (Inl e :: keeper_error + string) = Inl e' \<Longrightarrow> keeper_code e' \<noteq> outcome_unknown \<Longrightarrow> landed new = []"
      show thesis by (rule that [OF a(1-4)]) (rule a(5) [OF refl])
    qed
    show ?thesis
    proof (intro exI [of _ "new1 @ new2"] conjI impI allI)
      show "h' = h @ new1 @ new2" "length (new1 @ new2) \<le> 15" "length (landed (new1 @ new2)) \<le> 1"
        using n1 n2 by (simp_all add: landed_no_patches)
      show "\<exists>labels h1 l. snapshot K resolve h = (Inr labels, h1) \<and> l \<in> set labels \<and> names kind subject l \<and>
          (\<forall>l' \<in> set labels. names kind subject l' \<longrightarrow> l' = l) \<and> (expected = None \<or> expected = Some (sl_value l)) \<and>
          (\<forall>x \<in> set (patches (new1 @ new2)). fst x = patch_request kind l (TrimSpace value))"
        by (intro exI [of _ labels] exI [of _ h1] exI [of _ l] conjI unwritten(1-4) only [OF n1(4) unwritten(2,3)])
          (use n1(3) n2(3) in simp)
      fix e' assume "r = Inl e' \<and> keeper_code e' \<noteq> outcome_unknown"
      then show "landed (new1 @ new2) = []" using n1(3) n2(5) unwritten(6) by (simp add: landed_no_patches)
    next
      fix ls assume "r = Inr ls"
      then show "landed (new1 @ new2) \<noteq> []" "\<exists>l' \<in> set ls. names kind subject l' \<and> sl_value l' = TrimSpace value"
        using unwritten(6) by simp_all
    qed
  next
    case (written labels l h1 raw h2 r3)
    obtain new1 where n1: "h1 = h @ new1" "length new1 \<le> 6" "patches new1 = []" "labels_ok K labels"
      using snapshot_effect [OF written(1)] by (metis (no_types))
    obtain new2 where n2: "h2 = h1 @ new2" "length new2 \<le> 3" "\<forall>x \<in> set (patches new2). fst x = patch_request kind l (TrimSpace value)"
      "length (landed new2) \<le> 1" "landed new2 \<noteq> []"
    proof (rule keeper_send_patch [OF written(5) patch_request_method])
      fix new assume a: "h2 = h1 @ new" "length new \<le> 3" "\<forall>x \<in> set (patches new). fst x = patch_request kind l (TrimSpace value)"
        "length (landed new) \<le> 1" "\<And>raw'. (Inr raw :: keeper_error + string) = Inr raw' \<Longrightarrow>
           \<exists>status. (patch_request kind l (TrimSpace value), Answered status (Some raw')) \<in> set (landed new) \<and> 200 \<le> status \<and> status < 300"
      have "landed new \<noteq> []" using a(5) [OF refl] by auto
      then show thesis by (rule that [OF a(1-4)])
    qed
    obtain new3 where n3: "h' = h2 @ new3" "length new3 \<le> 6" "patches new3 = []"
      using snapshot_effect [OF written(6)] by blast
    show ?thesis
    proof (intro exI [of _ "new1 @ new2 @ new3"] conjI impI allI)
      show "h' = h @ new1 @ new2 @ new3" "length (new1 @ new2 @ new3) \<le> 15" "length (landed (new1 @ new2 @ new3)) \<le> 1"
        using n1 n2 n3 by (simp_all add: landed_no_patches)
      show "\<exists>labels h1 l. snapshot K resolve h = (Inr labels, h1) \<and> l \<in> set labels \<and> names kind subject l \<and>
          (\<forall>l' \<in> set labels. names kind subject l' \<longrightarrow> l' = l) \<and> (expected = None \<or> expected = Some (sl_value l)) \<and>
          (\<forall>x \<in> set (patches (new1 @ new2 @ new3)). fst x = patch_request kind l (TrimSpace value))"
        by (intro exI [of _ labels] exI [of _ h1] exI [of _ l] conjI written(1-4) only [OF n1(4) written(2,3)])
          (use n1(3) n2(3) n3(3) in simp)
      fix e' assume "r = Inl e' \<and> keeper_code e' \<noteq> outcome_unknown"
      then show "landed (new1 @ new2 @ new3) = []" using written(7) by auto
    next
      fix ls assume ls: "r = Inr ls"
      show "landed (new1 @ new2 @ new3) \<noteq> []" using n2(5) by simp
      show "\<exists>l' \<in> set ls. names kind subject l' \<and> sl_value l' = TrimSpace value" using written(7) ls by auto
    qed
  qed
qed

text \<open>C0: changing a label of Keeper ends after at most fifteen exchanges and sends at most one write that can take effect:
  the write of the new value to the one account a snapshot taken in this call gives for the subject, and only when that
  snapshot shows the expected value. An error other than \<open>write_outcome_unknown\<close> means that no write took effect, and
  success means that a write was accepted and that a later snapshot shows the value.\<close>

theorem Update_ok:
  assumes "Update K kind subject value expected resolve h = (r, h')"
  shows "\<exists>new. h' = h @ new \<and> length new \<le> 15 \<and> length (landed new) \<le> 1 \<and>
    (patches new \<noteq> [] \<longrightarrow> (\<exists>labels h1 l. snapshot K resolve h = (Inr labels, h1) \<and> l \<in> set labels \<and> names kind subject l \<and>
       (\<forall>l' \<in> set labels. names kind subject l' \<longrightarrow> l' = l) \<and> (expected = None \<or> expected = Some (sl_value l)) \<and>
       (\<forall>x \<in> set (patches new). fst x = patch_request kind l (TrimSpace value)))) \<and>
    (\<forall>e. r = Inl e \<and> keeper_code e \<noteq> outcome_unknown \<longrightarrow> landed new = []) \<and>
    (\<forall>ls. r = Inr ls \<longrightarrow> landed new \<noteq> [] \<and> (\<exists>l' \<in> set ls. names kind subject l' \<and> sl_value l' = TrimSpace value))"
  by (rule Update_effect [OF assms])

section \<open>Statuses\<close>

definition error_status :: "keeper_error \<Rightarrow> bool" where
  "error_status e \<longleftrightarrow> keeper_status e \<in> {400, 409, 502, 503}"

lemma read_answer_status: "read_answer q a = Inl e \<Longrightarrow> error_status e"
  by (cases a) (auto simp: read_answer_def error_status_def Let_def split: if_split_asm option.split_asm)

lemma keeper_send_status: "keeper_send K q h = (Inl e, h') \<Longrightarrow> error_status e"
  by (auto simp: keeper_send_def request_once_def Let_def error_status_def [of "Keeper_Error _ _"] dest: read_answer_status
      split: prod.split_asm if_split_asm sum.split_asm)

lemma keeper_get_status: "keeper_get K path decode h = (Inl e, h') \<Longrightarrow> error_status e"
  by (auto simp: keeper_get_def error_status_def [of "Keeper_Error _ _"] dest: keeper_send_status
      split: prod.split_asm sum.split_asm option.split_asm)

lemma add_labels_status: "add_labels ls acc = Inl e \<Longrightarrow> error_status e"
  by (induction ls acc rule: add_labels.induct) (auto simp: add_label_def error_status_def split: sum.split_asm if_split_asm)

lemma snapshot_status: "snapshot K resolve h = (Inl e, h') \<Longrightarrow> error_status e"
  by (auto simp: snapshot_def Let_def error_status_def [of "Keeper_Error _ _"] dest: keeper_get_status add_labels_status
      split: prod.split_asm sum.split_asm option.split_asm)

lemma Update_status: "Update K kind subject value expected resolve h = (Inl e, h') \<Longrightarrow> error_status e"
  by (auto simp: Update_def Let_def check_label_def error_status_def [of "Keeper_Error _ _"] dest: snapshot_status keeper_send_status
      split: prod.split_asm sum.split_asm option.split_asm if_split_asm)

section \<open>An example\<close>

definition sample_keeper :: keeper_env where
  "sample_keeper = \<lparr>ke_instance = ''i'', ke_password = [],
     ke_answer = (\<lambda>h q. Answered 200 (Some (if patches h = [] then ''old'' else ''new''))),
     ke_keys = (\<lambda>_. Some (Some [])),
     ke_identities = (\<lambda>alias. Some (Some [\<lparr>ki_id = ''7'', ki_auth_type = 2, ki_identity = ''x'', ki_alias = Some alias, ki_note = None, ki_deleted = False\<rparr>])),
     ke_now = (\<lambda>_. 0)\<rparr>"

definition shown_label :: "string \<Rightarrow> SharedLabel" where
  "shown_label alias = \<lparr>sl_instance = ''i'', sl_kind = ''upstream_identity'', sl_subject = ''ref'', sl_external = 7, sl_value = alias,
     sl_source_note = Some [], sl_fetched_at = 0\<rparr>"

lemma sample_snapshot:
  assumes "resolve 2 ''x'' = Some ''ref''"
  shows "\<exists>new. snapshot sample_keeper resolve h = (Inr [shown_label (if patches h = [] then ''old'' else ''new'')], h @ new) \<and> patches new = []"
  using assms
  by (simp add: snapshot_def keeper_get_def keeper_send_def exchange_def read_answer_def sample_keeper_def Let_def
      identity_label_def validID_def numericID_def ParseInt_def is_digit_def digits_val_def digit_val_def in_int64_def add_label_def
      text_or_empty_def shown_label_def List.map_filter_simps)

lemma sample_update:
  assumes "resolve 2 ''x'' = Some ''ref''"
  shows "\<exists>h'. Update sample_keeper ''upstream_identity'' ''ref'' ''new'' (Some ''old'') resolve [] = (Inr [shown_label ''new''], h')"
proof -
  have trims: "TrimSpace ''new'' = ''new''" by (simp add: TrimSpace_visible visible_def)
  have check: "check_label ''upstream_identity'' ''new'' = None"
    by (simp add: check_label_def runes_def IsControl_def is_format_def)
  obtain new1 where s1: "snapshot sample_keeper resolve [] = (Inr [shown_label ''old''], new1)" "patches new1 = []"
    using sample_snapshot [of resolve "[]", OF assms] by auto
  define q where "q = patch_request ''upstream_identity'' (shown_label ''old'') ''new''"
  have q: "kq_method q = ''PATCH''" by (simp add: q_def)
  define h2 where "h2 = new1 @ [(q, Answered 200 (Some ''old''))]"
  have s2: "keeper_send sample_keeper q new1 = (Inr ''old'', h2)"
    using s1(2) by (simp add: keeper_send_def exchange_def read_answer_def sample_keeper_def Let_def h2_def)
  have "patches h2 \<noteq> []" using q by (simp add: h2_def)
  then obtain new3 where s3: "snapshot sample_keeper resolve h2 = (Inr [shown_label ''new''], h2 @ new3)"
    using sample_snapshot [of resolve h2, OF assms] by auto
  show ?thesis
    using s2 unfolding q_def by (simp add: Update_def Let_def trims check s1(1) s3 names_def shown_label_def)
qed

theorem Update_ok_witness:
  "\<exists>ls h'. Update sample_keeper ''upstream_identity'' ''ref'' ''new'' (Some ''old'') (\<lambda>_ _. Some ''ref'') [] = (Inr ls, h') \<and>
     length (landed h') \<le> 1 \<and> landed h' \<noteq> []"
proof -
  obtain h' where u: "Update sample_keeper ''upstream_identity'' ''ref'' ''new'' (Some ''old'') (\<lambda>_ _. Some ''ref'') [] = (Inr [shown_label ''new''], h')"
    using sample_update [of "\<lambda>_ _. Some ''ref''"] by auto
  show ?thesis using Update_ok [OF u] u by auto
qed

end
