(* ===== verification/HostValues.thy ===== *)
theory HostValues
  imports HostText GoJson GoFloat GoTime
begin

text \<open>
  Values of decoded JSON objects (\<open>map[string]any\<close>) and how \<^verbatim>\<open>internal/plugin/auth_files.go\<close> reads them: a nil map is
  \<open>None\<close>, numbers are \<open>float64\<close>. Parsing of floats and instants, and their printing, are arguments (\<open>value_env\<close>).
\<close>

section \<open>Words\<close>

text \<open>\<open>strings.Fields\<close>: the words between runs of white space; \<open>skip\<close> bytes belong to white space already seen.\<close>

definition space_length :: "string \<Rightarrow> nat" where
  "space_length s = (case find (\<lambda>w. prefix w s) white_space of None \<Rightarrow> 0 | Some w \<Rightarrow> length w)"

definition flush_word :: "string \<Rightarrow> string list" where
  "flush_word word = (if word = [] then [] else [word])"

fun fields_from :: "nat \<Rightarrow> string \<Rightarrow> string \<Rightarrow> string list" where
  "fields_from skip word [] = flush_word word"
| "fields_from (Suc skip) word (c # s) = fields_from skip word s"
| "fields_from 0 word (c # s) =
     (case space_length (c # s) of
        0 \<Rightarrow> fields_from 0 (word @ [c]) s
      | Suc n \<Rightarrow> flush_word word @ fields_from n [] s)"

definition Fields :: "string \<Rightarrow> string list" where
  "Fields s = fields_from 0 [] s"

fun join_words :: "string list \<Rightarrow> string" where
  "join_words [] = []"
| "join_words [w] = w"
| "join_words (w # v # ws) = w @ '' '' @ join_words (v # ws)"

definition one_line :: "string \<Rightarrow> string" where
  "one_line s = join_words (Fields s)"

section \<open>Values\<close>

datatype hvalue = HNull | HBool bool | HNum f64 | HStr string | HArr "hvalue list" | HObj "(string \<times> hvalue) list"

type_synonym hobject = "(string \<times> hvalue) list"

record value_env =
  ve_parse_float :: "string \<Rightarrow> f64 option"
  ve_parse_time :: "string \<Rightarrow> time option"
  ve_rfc3339 :: "time \<Rightarrow> string"
  ve_rfc3339nano :: "time \<Rightarrow> string"

fun object_of :: "hvalue option \<Rightarrow> hobject option" where
  "object_of (Some (HObj m)) = Some m"
| "object_of _ = None"

fun slice_of :: "hvalue option \<Rightarrow> hvalue list option" where
  "slice_of (Some (HArr xs)) = Some xs"
| "slice_of _ = None"

definition entry :: "hobject option \<Rightarrow> string \<Rightarrow> hvalue option" where
  "entry m key = (case m of None \<Rightarrow> None | Some m \<Rightarrow> map_of m key)"

text \<open>The first key of the list for which a reading succeeds.\<close>

fun first_of :: "('k \<Rightarrow> 'v option) \<Rightarrow> 'k list \<Rightarrow> 'v option" where
  "first_of f [] = None"
| "first_of f (k # ks) = (case f k of Some v \<Rightarrow> Some v | None \<Rightarrow> first_of f ks)"

definition objectMap :: "hobject option \<Rightarrow> string list \<Rightarrow> hobject option" where
  "objectMap m keys = first_of (\<lambda>k. object_of (entry m k)) keys"

definition objectSlice :: "hobject option \<Rightarrow> string list \<Rightarrow> hvalue list" where
  "objectSlice m keys = (case first_of (\<lambda>k. slice_of (entry m k)) keys of None \<Rightarrow> [] | Some xs \<Rightarrow> xs)"

definition text_of :: "hvalue option \<Rightarrow> string option" where
  "text_of v = (case v of Some (HStr s) \<Rightarrow> (if TrimSpace s = [] then None else Some (TrimSpace s)) | _ \<Rightarrow> None)"

definition firstString :: "hobject option \<Rightarrow> string list \<Rightarrow> string" where
  "firstString m keys = (case first_of (\<lambda>k. text_of (entry m k)) keys of None \<Rightarrow> [] | Some s \<Rightarrow> s)"

fun firstNonEmptyString :: "string list \<Rightarrow> string" where
  "firstNonEmptyString [] = []"
| "firstNonEmptyString (s # ss) = (if TrimSpace s = [] then firstNonEmptyString ss else TrimSpace s)"

text \<open>
  The first value of a number or a text decides: a text that is no number ends the search without a value.
\<close>

fun floatValue_in :: "value_env \<Rightarrow> hobject option \<Rightarrow> string list \<Rightarrow> f64 option" where
  "floatValue_in V m [] = None"
| "floatValue_in V m (k # ks) =
     (case entry m k of
        Some (HNum x) \<Rightarrow> Some x
      | Some (HStr s) \<Rightarrow> ve_parse_float V s
      | _ \<Rightarrow> floatValue_in V m ks)"

definition floatValue :: "value_env \<Rightarrow> hobject option \<Rightarrow> string list \<Rightarrow> f64 option" where
  "floatValue V m keys = (case m of None \<Rightarrow> None | Some _ \<Rightarrow> floatValue_in V m keys)"

text \<open>\<open>int64(x)\<close> truncates; what it gives out of range is left open by Go, and is \<open>-2^63\<close> on amd64.\<close>

definition trunc_int64 :: "f64 \<Rightarrow> int" where
  "trunc_int64 x =
     (case x of
        Fin r \<Rightarrow> (let n = (if r < 0 then - \<lfloor>- r\<rfloor> else \<lfloor>r\<rfloor>) in if in_int64 n then n else min_int64)
      | _ \<Rightarrow> min_int64)"

definition intValue :: "value_env \<Rightarrow> hobject option \<Rightarrow> string list \<Rightarrow> int option" where
  "intValue V m keys = map_option trunc_int64 (floatValue V m keys)"

definition true_words :: "string list" where "true_words = [''true'', ''1'', ''yes'', ''y'', ''on'']"
definition false_words :: "string list" where "false_words = [''false'', ''0'', ''no'', ''n'', ''off'']"

definition bool_of :: "hvalue option \<Rightarrow> bool option" where
  "bool_of v =
     (case v of
        Some (HBool b) \<Rightarrow> Some b
      | Some (HNum x) \<Rightarrow> Some (\<not> feq x (Fin 0))
      | Some (HStr s) \<Rightarrow>
          (let w = ToLower (TrimSpace s) in if w \<in> set true_words then Some True else if w \<in> set false_words then Some False else None)
      | _ \<Rightarrow> None)"

definition boolValue :: "hobject option \<Rightarrow> string list \<Rightarrow> bool option" where
  "boolValue m keys = first_of (\<lambda>k. bool_of (entry m k)) keys"

section \<open>Percentages and instants\<close>

definition remainingPercent :: "f64 \<Rightarrow> f64" where
  "remainingPercent v = fmax (Fin 0) (fmin (Fin 100) v)"

definition resetAtAfter :: "value_env \<Rightarrow> time \<Rightarrow> int \<Rightarrow> string" where
  "resetAtAfter V fetchedAt secs =
     (if IsZero fetchedAt \<or> secs < 0 then [] else ve_rfc3339 V (fetchedAt + seconds secs))"

fun quotaResetAt :: "value_env \<Rightarrow> string list \<Rightarrow> string" where
  "quotaResetAt V [] = []"
| "quotaResetAt V (s # ss) =
     (case ve_parse_time V (TrimSpace s) of Some t \<Rightarrow> ve_rfc3339 V t | None \<Rightarrow> quotaResetAt V ss)"

fun usdValue :: "value_env \<Rightarrow> hobject option \<Rightarrow> string list \<Rightarrow> f64 option" where
  "usdValue V m [] = None"
| "usdValue V m (k # ks) =
     (case objectMap m [k] of
        Some nested \<Rightarrow> map_option (\<lambda>v. fdiv v (Fin 100)) (floatValue V (Some nested) [''val''])
      | None \<Rightarrow>
          (case floatValue V m [k] of
             Some v \<Rightarrow> Some (fdiv v (Fin 100))
           | None \<Rightarrow> usdValue V m ks))"

definition upper_byte :: "char \<Rightarrow> char" where
  "upper_byte c = (if CHR ''a'' \<le> c \<and> c \<le> CHR ''z'' then char_of (of_char c - 32 :: nat) else c)"

fun split_on :: "char \<Rightarrow> string \<Rightarrow> string list" where
  "split_on sep [] = [[]]"
| "split_on sep (c # s) =
     (if c = sep then [] # split_on sep s else case split_on sep s of [] \<Rightarrow> [[c]] | p # ps \<Rightarrow> (c # p) # ps)"

definition camelKey :: "string \<Rightarrow> string" where
  "camelKey s =
     (case split_on (CHR ''_'') s of
        [] \<Rightarrow> []
      | p # ps \<Rightarrow> p @ concat (map (\<lambda>q. case q of [] \<Rightarrow> [] | c # cs \<Rightarrow> upper_byte c # cs) ps))"

section \<open>The records of a credential\<close>

definition nested_keys :: "string list" where
  "nested_keys = [''metadata'', ''attributes'', ''oauth'', ''raw'', ''credential'', ''auth'', ''token'', ''installed'', ''web'', ''user'']"

text \<open>\<open>visit\<close>: a record and the objects under its known keys, two levels down; \<open>left\<close> is the levels that remain.\<close>

fun visit_records :: "nat \<Rightarrow> hobject \<Rightarrow> hobject list" where
  "visit_records left record =
     record # (case left of
                 0 \<Rightarrow> []
               | Suc n \<Rightarrow> concat (map (\<lambda>k. case object_of (entry (Some record) k) of None \<Rightarrow> [] | Some m \<Rightarrow> visit_records n m) nested_keys))"

definition credentialRecords :: "hobject option \<Rightarrow> hobject list" where
  "credentialRecords credential = (case credential of None \<Rightarrow> [] | Some m \<Rightarrow> visit_records 2 m)"

definition credentialString :: "hobject option \<Rightarrow> string list \<Rightarrow> string" where
  "credentialString credential keys =
     (case first_of (\<lambda>r. let s = firstString (Some r) keys in if s = [] then None else Some s) (credentialRecords credential) of
        None \<Rightarrow> []
      | Some s \<Rightarrow> s)"

definition credentialToken :: "hobject option \<Rightarrow> string" where
  "credentialToken credential =
     credentialString credential [''access_token'', ''accessToken'', ''token'', ''id_token'', ''idToken'', ''cookie'']"

definition credentialUsesAPIKey :: "hobject option \<Rightarrow> bool" where
  "credentialUsesAPIKey credential \<longleftrightarrow>
     credentialString credential [''api_key'', ''apiKey''] \<noteq> [] \<or>
     (\<exists>r \<in> set (credentialRecords credential). boolValue (Some r) [''using_api'', ''usingApi''] = Some True)"

definition redactSecret :: "string \<Rightarrow> string \<Rightarrow> string" where
  "redactSecret value secret = (if secret = [] then value else ReplaceAll value secret ''[REDACTED]'')"

end
