(* ===== verification/AuthQuota.thy ===== *)
theory AuthQuota
  imports HostValues Credentials
begin

text \<open>
  The limits of an upstream account, \<^verbatim>\<open>internal/plugin/auth_files.go\<close>: the requests to the provider of a
  credential file and the rows made of its answers. The host (reading a credential, sending a request), the JSON and
  base64 decoders and the clock are arguments. Messages the source words in Chinese are glossed in English, labels are kept
  byte for byte.
\<close>

section \<open>Rows\<close>

record quotaRow =
  qr_label :: string
  qr_group :: string
  qr_remaining :: "f64 option"
  qr_used :: "f64 option"
  qr_limit :: "f64 option"
  qr_currency :: string
  qr_reset :: string
  qr_seconds :: int

definition quota_row :: "string \<Rightarrow> string \<Rightarrow> quotaRow" where
  "quota_row label reset = \<lparr>qr_label = label, qr_group = [], qr_remaining = None, qr_used = None, qr_limit = None,
     qr_currency = [], qr_reset = reset, qr_seconds = 0\<rparr>"

record authQuotaResponse =
  aq_revision :: string
  aq_fetched :: time
  aq_plan :: string
  aq_reset_credits :: "int option"
  aq_quota :: "quotaRow list"

definition add_row :: "quotaRow \<Rightarrow> authQuotaResponse \<Rightarrow> authQuotaResponse" where
  "add_row row r = r\<lparr>aq_quota := aq_quota r @ [row]\<rparr>"

definition five_hours :: string where "five_hours = [CHR 0x35, CHR 0x20, CHR 0xE5, CHR 0xB0, CHR 0x8F, CHR 0xE6, CHR 0x97, CHR 0xB6, CHR 0xE9, CHR 0x99, CHR 0x90, CHR 0xE9, CHR 0xA2, CHR 0x9D]"
definition weekly_label :: string where "weekly_label = [CHR 0xE5, CHR 0x91, CHR 0xA8, CHR 0xE9, CHR 0x99, CHR 0x90, CHR 0xE9, CHR 0xA2, CHR 0x9D]"
definition monthly_label :: string where "monthly_label = [CHR 0xE6, CHR 0x9C, CHR 0x88, CHR 0xE9, CHR 0x99, CHR 0x90, CHR 0xE9, CHR 0xA2, CHR 0x9D]"
definition limit_label :: string where "limit_label = [CHR 0xE9, CHR 0x99, CHR 0x90, CHR 0xE9, CHR 0xA2, CHR 0x9D]"

definition meaningfulQuotaValues :: "value_env \<Rightarrow> hobject option \<Rightarrow> bool" where
  "meaningfulQuotaValues V m \<longleftrightarrow> (\<exists>k \<in> {''used'', ''limit'', ''remaining''}. floatValue V m [k] \<noteq> None)"

definition fillQuotaValues :: "value_env \<Rightarrow> hobject option \<Rightarrow> quotaRow \<Rightarrow> quotaRow" where
  "fillQuotaValues V m row =
     (let used0 = floatValue V m [''used'']; limit = floatValue V m [''limit'']; remaining = floatValue V m [''remaining''];
          used = (case (used0, limit) of
                    (None, Some l) \<Rightarrow> Some (case remaining of None \<Rightarrow> Fin 0 | Some r \<Rightarrow> fsub l r)
                  | _ \<Rightarrow> used0);
          row1 = row\<lparr>qr_used := (if used = None then qr_used row else used), qr_limit := (if limit = None then qr_limit row else limit)\<rparr>
      in case (limit, used) of
           (Some l, Some u) \<Rightarrow>
             (if flt (Fin 0) l
              then row1\<lparr>qr_remaining := Some (remainingPercent (fmul (fsub (Fin 1) (fdiv u l)) (Fin 100)))\<rparr>
              else row1)
         | _ \<Rightarrow> row1)"

definition windowLabel :: "int \<Rightarrow> string" where
  "windowLabel secs =
     (if secs = 18000 then five_hours else if secs = 604800 then weekly_label else if secs = 2592000 then monthly_label else [])"

definition resetSeconds :: "value_env \<Rightarrow> hobject option list \<Rightarrow> int option" where
  "resetSeconds V ms =
     first_of (\<lambda>m. case floatValue V m [''reset_in'', ''resetIn'', ''ttl''] of
                      Some x \<Rightarrow> (if fle (Fin 0) x then Some (trunc_int64 x) else None)
                    | None \<Rightarrow> None) ms"

section \<open>Codex\<close>

definition codex_month :: "int \<Rightarrow> bool" where
  "codex_month secs \<longleftrightarrow> secs \<ge> 28 * 24 * 60 * 60 \<and> secs \<le> 31 * 24 * 60 * 60"

definition codexWindowOrder :: "int \<Rightarrow> bool \<Rightarrow> int" where
  "codexWindowOrder secs primary =
     (if secs = 5 * 60 * 60 then 0
      else if secs = 7 * 24 * 60 * 60 \<or> codex_month secs then 1
      else if primary then 2 else 3)"

text \<open>A window of the answer: whether it is the primary one, its object and its length.\<close>

definition codex_windows :: "value_env \<Rightarrow> hobject \<Rightarrow> (bool \<times> hobject option \<times> int) list" where
  "codex_windows V info =
     sort_key (\<lambda>(primary, value, secs). codexWindowOrder secs primary)
       (map (\<lambda>(key, primary).
          let value = objectMap (Some info) [key, camelKey key]
          in (primary, value, case intValue V value [''limit_window_seconds'', ''limitWindowSeconds''] of None \<Rightarrow> 0 | Some n \<Rightarrow> n))
          [(''primary_window'', True), (''secondary_window'', False)])"

definition codex_row :: "value_env \<Rightarrow> time \<Rightarrow> string \<Rightarrow> hobject \<Rightarrow> bool \<times> hobject \<times> int \<Rightarrow> quotaRow" where
  "codex_row V fetched labelPrefix info w =
     (case w of (primary, value, secs) \<Rightarrow>
        let label = (if secs = 5 * 60 * 60 then five_hours else if secs = 7 * 24 * 60 * 60 then weekly_label
                     else if codex_month secs then monthly_label else if primary then five_hours else weekly_label);
            spent = (boolValue (Some info) [''limit_reached'', ''limitReached''] = Some True \<or> boolValue (Some info) [''allowed''] = Some False);
            remaining = (case floatValue V (Some value) [''used_percent'', ''usedPercent''] of
                           Some used \<Rightarrow> Some (remainingPercent (fsub (Fin 100) used))
                         | None \<Rightarrow> if spent then Some (remainingPercent (Fin 0)) else None);
            after = (case intValue V (Some value) [''reset_after_seconds'', ''resetAfterSeconds''] of
                       Some n \<Rightarrow> resetAtAfter V fetched n | None \<Rightarrow> []);
            reset = (case intValue V (Some value) [''reset_at'', ''resetAt''] of
                       Some n \<Rightarrow> (if n > 0 then ve_rfc3339 V (time_of_unix n) else after)
                     | None \<Rightarrow> after)
        in (quota_row (labelPrefix @ label) reset)\<lparr>qr_remaining := remaining\<rparr>)"

definition appendCodexRateLimit :: "value_env \<Rightarrow> string \<Rightarrow> hobject option \<Rightarrow> authQuotaResponse \<Rightarrow> authQuotaResponse" where
  "appendCodexRateLimit V labelPrefix info r =
     (case info of
        None \<Rightarrow> r
      | Some i \<Rightarrow>
          fold (\<lambda>(primary, value, secs) r.
                  case value of None \<Rightarrow> r | Some v \<Rightarrow> add_row (codex_row V (aq_fetched r) labelPrefix i (primary, v, secs)) r)
            (codex_windows V i) r)"

definition normalizeCodexPlan :: "string \<Rightarrow> string" where
  "normalizeCodexPlan plan =
     (let display = TrimSpace plan; low = ToLower display
      in if low = ''pro'' then ''pro-20x''
         else if low \<in> {''prolite'', ''pro-lite'', ''pro_lite''} then ''pro-5x''
         else if low \<in> {''free'', ''plus'', ''team'', ''pro-5x'', ''pro-20x'', ''enterprise''} then low
         else display)"

section \<open>Requests\<close>

record hostHTTPRequest =
  hr_callback :: string
  hr_method :: string
  hr_url :: string
  hr_headers :: "(string \<times> string) list"
  hr_body :: "hvalue option"

record hostHTTPResponse =
  hp_status :: int
  hp_body :: string

text \<open>
  \<open>qe_http\<close> is \<open>Inl\<close> when the call failed and \<open>Inr (Inl e)\<close> when its answer is no response; \<open>qe_auth\<close> reads a credential;
  \<open>qe_decode\<close> is \<open>json.Unmarshal\<close> into a map, \<open>None\<close> on an error and for null; \<open>qe_claims\<close> decodes base64 and JSON.
\<close>

record quota_env = value_env +
  qe_http :: "hostHTTPRequest \<Rightarrow> error + (error + hostHTTPResponse)"
  qe_auth :: "string \<Rightarrow> error + hobject option"
  qe_decode :: "string \<Rightarrow> hobject option"
  qe_claims :: "string \<Rightarrow> hobject option"
  qe_status_text :: "int \<Rightarrow> string"
  qe_now :: time

definition set_header :: "string \<Rightarrow> string \<Rightarrow> (string \<times> string) list \<Rightarrow> (string \<times> string) list" where
  "set_header k v hs = AList.update k v hs"

definition upstreamErrorMessage :: "hobject option \<Rightarrow> string" where
  "upstreamErrorMessage m =
     (let message0 = firstString m [''message'', ''error_description''];
          message1 = (case objectMap m [''error''] of
                        None \<Rightarrow> message0
                      | Some nested \<Rightarrow> firstNonEmptyString [firstString (Some nested) [''message'', ''detail''], message0]);
          message = one_line message1
      in if length message > 500 then take 500 message @ [CHR 0xE2, CHR 0x80, CHR 0xA6] else message)"

definition upstream ::
  "quota_env \<Rightarrow> string \<Rightarrow> string \<Rightarrow> string \<Rightarrow> string \<Rightarrow> (string \<times> string) list \<Rightarrow> hvalue option \<Rightarrow> error + hobject" where
  "upstream Q callback meth url token headers body =
     (let hs = set_header ''Authorization'' (''Bearer '' @ token) headers;
          hs = (if body = None then hs else set_header ''Content-Type'' ''application/json'' hs)
      in case qe_http Q \<lparr>hr_callback = callback, hr_method = meth, hr_url = url, hr_headers = hs, hr_body = body\<rparr> of
           Inl e \<Rightarrow> Inl (Plain_Error (''the quota request failed: '' @ redactSecret (Error_msg e) token))
         | Inr (Inl e) \<Rightarrow> Inl (wrap_error ''parsing the quota response failed: '' e)
         | Inr (Inr response) \<Rightarrow>
             (let obj = (if hp_body response = [] then None else qe_decode Q (hp_body response))
              in if hp_status response < 200 \<or> hp_status response \<ge> 300
                 then let m0 = upstreamErrorMessage obj;
                          m1 = (if hp_status response = 401
                                then (if m0 \<noteq> [] then ''the credential is invalid or expired: '' @ m0 else ''the credential is invalid or expired'')
                                else m0);
                          m2 = (if m1 = [] then qe_status_text Q (hp_status response) else m1)
                      in Inl (Plain_Error (''the upstream answered HTTP '' @ FormatInt (hp_status response) @ '': '' @ redactSecret m2 token))
                 else case obj of None \<Rightarrow> Inl (Plain_Error ''the upstream response has an unexpected format'') | Some m \<Rightarrow> Inr m))"

section \<open>The providers\<close>

definition get_request :: "quota_env \<Rightarrow> string \<Rightarrow> string \<Rightarrow> string \<Rightarrow> (string \<times> string) list \<Rightarrow> error + hobject" where
  "get_request Q callback url token headers = upstream Q callback ''GET'' url token headers None"

fun append_additional :: "quota_env \<Rightarrow> hvalue list \<Rightarrow> authQuotaResponse \<Rightarrow> authQuotaResponse" where
  "append_additional Q [] r = r"
| "append_additional Q (HObj m # rest) r =
     (let name = firstString (Some m) [''limit_name'', ''limitName'']
      in append_additional Q rest
           (appendCodexRateLimit (value_env.truncate Q) ((if name = [] then ''Additional'' else name) @ '' '')
              (objectMap (Some m) [''rate_limit'', ''rateLimit'']) r))"
| "append_additional Q (_ # rest) r = append_additional Q rest r"

definition fetchCodexQuota :: "quota_env \<Rightarrow> string \<Rightarrow> string \<Rightarrow> string \<Rightarrow> authQuotaResponse \<Rightarrow> error option \<times> authQuotaResponse" where
  "fetchCodexQuota Q callback token accountID r =
     (let V = value_env.truncate Q;
          headers = [(''User-Agent'', ''codex_cli_rs/0.76.0''), (''Content-Type'', ''application/json'')];
          headers = (if accountID \<noteq> [] then set_header ''Chatgpt-Account-Id'' accountID headers else headers)
      in case get_request Q callback ''https://chatgpt.com/backend-api/wham/usage'' token headers of
           Inl e \<Rightarrow> (Some e, r)
         | Inr m \<Rightarrow>
             let plan = firstString (Some m) [''plan_type'', ''planType''];
                 r1 = (if plan \<noteq> [] then r\<lparr>aq_plan := normalizeCodexPlan plan\<rparr> else r);
                 r2 = appendCodexRateLimit V [] (objectMap (Some m) [''rate_limit'', ''rateLimit'']) r1;
                 r3 = appendCodexRateLimit V ''Code Review '' (objectMap (Some m) [''code_review_rate_limit'', ''codeReviewRateLimit'']) r2;
                 r4 = append_additional Q (objectSlice (Some m) [''additional_rate_limits'', ''additionalRateLimits'']) r3
             in (None, case objectMap (Some m) [''rate_limit_reset_credits'', ''rateLimitResetCredits''] of
                         None \<Rightarrow> r4
                       | Some credits \<Rightarrow>
                           (case intValue V (Some credits) [''available_count'', ''availableCount''] of
                              None \<Rightarrow> r4
                            | Some n \<Rightarrow> r4\<lparr>aq_reset_credits := Some n\<rparr>)))"

text \<open>A weekly limit of one model: the active one, or else the first.\<close>

fun fable_limits :: "value_env \<Rightarrow> hvalue list \<Rightarrow> hobject list" where
  "fable_limits V [] = []"
| "fable_limits V (HObj m # rest) =
     (let name = ToLower (firstString (objectMap (objectMap (Some m) [''scope'']) [''model'']) [''display_name'', ''displayName''])
      in if EqualFold (firstString (Some m) [''kind'']) ''weekly_scoped'' \<and> name \<in> {''fable'', ''fable 5''} \<and>
            floatValue V (Some m) [''percent''] \<noteq> None
         then m # fable_limits V rest else fable_limits V rest)"
| "fable_limits V (_ # rest) = fable_limits V rest"

definition claudeFableLimit :: "value_env \<Rightarrow> hobject \<Rightarrow> hobject option" where
  "claudeFableLimit V usage =
     (let limits = fable_limits V (objectSlice (Some usage) [''limits''])
      in case find (\<lambda>m. boolValue (Some m) [''is_active'', ''isActive''] = Some True) limits of
           Some m \<Rightarrow> Some m
         | None \<Rightarrow> (case limits of [] \<Rightarrow> None | m # _ \<Rightarrow> Some m))"

definition claude_windows :: "(string \<times> string) list" where
  "claude_windows =
     [(''five_hour'', five_hours), (''seven_day'', weekly_label), (''seven_day_oauth_apps'', ''OAuth Apps '' @ weekly_label),
      (''seven_day_opus'', ''Opus '' @ weekly_label), (''seven_day_sonnet'', ''Sonnet '' @ weekly_label),
      (''seven_day_cowork'', ''Cowork '' @ weekly_label), (''iguana_necktie'', ''Iguana Necktie'')]"

definition claude_window_row :: "value_env \<Rightarrow> hobject \<Rightarrow> hobject option \<Rightarrow> string \<times> string \<Rightarrow> quotaRow option" where
  "claude_window_row V usage fable w =
     (case w of (key, label) \<Rightarrow>
        if key = ''iguana_necktie'' \<and> fable \<noteq> None then None
        else case objectMap (Some usage) [key, camelKey key] of
               None \<Rightarrow> None
             | Some value \<Rightarrow>
                 Some ((quota_row label (quotaResetAt V [firstString (Some value) [''resets_at'', ''resetsAt'']]))
                   \<lparr>qr_remaining := map_option (\<lambda>p. remainingPercent (fsub (Fin 100) p)) (floatValue V (Some value) [''utilization''])\<rparr>))"

definition claude_extra_row :: "value_env \<Rightarrow> hobject \<Rightarrow> quotaRow option" where
  "claude_extra_row V usage =
     (case objectMap (Some usage) [''extra_usage'', ''extraUsage''] of
        None \<Rightarrow> None
      | Some extra \<Rightarrow>
          if boolValue (Some extra) [''is_enabled'', ''isEnabled''] = Some False then None
          else Some ((quota_row [CHR 0xE9, CHR 0xA2, CHR 0x9D, CHR 0xE5, CHR 0xA4, CHR 0x96, CHR 0xE7, CHR 0x94, CHR 0xA8, CHR 0xE9, CHR 0x87, CHR 0x8F] [])
            \<lparr>qr_currency := ''USD'', qr_used := usdValue V (Some extra) [''used_credits'', ''usedCredits''],
             qr_limit := usdValue V (Some extra) [''monthly_limit'', ''monthlyLimit''],
             qr_remaining := map_option (\<lambda>p. remainingPercent (fsub (Fin 100) p)) (floatValue V (Some extra) [''utilization''])\<rparr>))"

definition claude_plan :: "hobject \<Rightarrow> string" where
  "claude_plan profile =
     (let account = objectMap (Some profile) [''account'']; organization = objectMap (Some profile) [''organization''];
          is_max = boolValue account [''has_claude_max'', ''hasClaudeMax'']; is_pro = boolValue account [''has_claude_pro'', ''hasClaudePro'']
      in if is_max = Some True then ''Max'' else if is_pro = Some True then ''Pro''
         else if EqualFold (firstString organization [''organization_type'', ''organizationType'']) ''claude_team'' \<and>
                 EqualFold (firstString organization [''subscription_status'', ''subscriptionStatus'']) ''active'' then ''Team''
         else if is_max = Some False \<and> is_pro = Some False then ''Free'' else [])"

definition fetchClaudeQuota :: "quota_env \<Rightarrow> string \<Rightarrow> string \<Rightarrow> authQuotaResponse \<Rightarrow> error option \<times> authQuotaResponse" where
  "fetchClaudeQuota Q callback token r =
     (let V = value_env.truncate Q;
          headers = [(''Anthropic-Beta'', ''oauth-2025-04-20''), (''Content-Type'', ''application/json'')]
      in case get_request Q callback ''https://api.anthropic.com/api/oauth/usage'' token headers of
           Inl e \<Rightarrow> (Some e, r)
         | Inr usage \<Rightarrow>
             let fable = claudeFableLimit V usage;
                 fable_rows = (case fable of None \<Rightarrow> []
                   | Some m \<Rightarrow> [(quota_row (''Fable '' @ weekly_label) (quotaResetAt V [firstString (Some m) [''resets_at'', ''resetsAt'']]))
                       \<lparr>qr_remaining := Some (remainingPercent (fsub (Fin 100)
                          (case floatValue V (Some m) [''percent''] of None \<Rightarrow> Fin 0 | Some p \<Rightarrow> p)))\<rparr>]);
                 rows = List.map_filter (claude_window_row V usage fable) claude_windows @ fable_rows @
                   (case claude_extra_row V usage of None \<Rightarrow> [] | Some row \<Rightarrow> [row]);
                 plan = (case get_request Q callback ''https://api.anthropic.com/api/oauth/profile'' token headers of
                           Inl _ \<Rightarrow> [] | Inr profile \<Rightarrow> claude_plan profile)
             in (None, r\<lparr>aq_quota := aq_quota r @ rows, aq_plan := (if plan \<noteq> [] then plan else aq_plan r)\<rparr>))"

section \<open>Kimi\<close>

definition kimi_units :: "(string \<times> int) list" where
  "kimi_units =
     [(''s'', 1), (''second'', 1), (''seconds'', 1), (''m'', 60), (''minute'', 60), (''minutes'', 60), (''h'', 3600), (''hour'', 3600),
      (''hours'', 3600), (''d'', 86400), (''day'', 86400), (''days'', 86400), (''w'', 604800), (''week'', 604800), (''weeks'', 604800)]"

definition TrimPrefix :: "string \<Rightarrow> string \<Rightarrow> string" where
  "TrimPrefix s p = (if prefix p s then drop (length p) s else s)"

text \<open>An unknown unit counts as minutes; the product wraps as \<open>int64\<close> does.\<close>

definition kimiWindowSeconds :: "value_env \<Rightarrow> hobject \<Rightarrow> int" where
  "kimiWindowSeconds V limit =
     (let window = objectMap (Some limit) [''window'']; detail = objectMap (Some limit) [''detail'']
      in case first_of (\<lambda>m. intValue V m [''duration'']) [window, Some limit, detail] of
           None \<Rightarrow> 0
         | Some duration \<Rightarrow>
             let unit = firstNonEmptyString (map (\<lambda>m. firstString m [''timeUnit'', ''time_unit'']) [window, Some limit, detail])
             in wrap64 (duration * (case map_of kimi_units (TrimPrefix (ToLower unit) ''time_unit_'') of None \<Rightarrow> 60 | Some n \<Rightarrow> n)))"

definition kimi_reset :: "value_env \<Rightarrow> time \<Rightarrow> hobject option list \<Rightarrow> quotaRow \<Rightarrow> quotaRow" where
  "kimi_reset V fetched ms row =
     (if qr_reset row = []
      then (case resetSeconds V ms of None \<Rightarrow> row | Some n \<Rightarrow> row\<lparr>qr_reset := resetAtAfter V fetched n\<rparr>)
      else row)"

definition reset_text :: "value_env \<Rightarrow> hobject option list \<Rightarrow> string" where
  "reset_text V ms = quotaResetAt V (map (\<lambda>m. firstString m [''reset_at'', ''resetAt'', ''resetTime'']) ms)"

definition kimi_limit_row :: "value_env \<Rightarrow> time \<Rightarrow> hobject \<Rightarrow> quotaRow" where
  "kimi_limit_row V fetched limit =
     (let detail = objectMap (Some limit) [''detail''];
          values = (if meaningfulQuotaValues V detail then detail else Some limit);
          label = firstNonEmptyString [firstString (Some limit) [''name'', ''title''], firstString detail [''name'', ''title''],
                    windowLabel (kimiWindowSeconds V limit), limit_label]
      in kimi_reset V fetched [Some limit, detail]
           (fillQuotaValues V values (quota_row label (reset_text V [Some limit, detail]))))"

definition kimi_summary_row :: "value_env \<Rightarrow> time \<Rightarrow> hobject option \<Rightarrow> quotaRow" where
  "kimi_summary_row V fetched summary =
     kimi_reset V fetched [summary]
       (fillQuotaValues V summary
          (quota_row (firstNonEmptyString [firstString summary [''title''], weekly_label]) (reset_text V [summary])))"

fun objects_in :: "hvalue list \<Rightarrow> hobject list" where
  "objects_in [] = []"
| "objects_in (HObj m # vs) = m # objects_in vs"
| "objects_in (_ # vs) = objects_in vs"

definition fetchKimiQuota :: "quota_env \<Rightarrow> string \<Rightarrow> string \<Rightarrow> authQuotaResponse \<Rightarrow> error option \<times> authQuotaResponse" where
  "fetchKimiQuota Q callback token r =
     (let V = value_env.truncate Q
      in case get_request Q callback ''https://api.kimi.com/coding/v1/usages'' token [] of
           Inl e \<Rightarrow> (Some e, r)
         | Inr usage \<Rightarrow>
             let rows = map (kimi_limit_row V (aq_fetched r)) (objects_in (objectSlice (Some usage) [''limits'']));
                 summary = objectMap (Some usage) [''usage'']
             in (None, r\<lparr>aq_quota := aq_quota r @ rows @
                  (if meaningfulQuotaValues V summary then [kimi_summary_row V (aq_fetched r) summary] else [])\<rparr>))"

section \<open>xAI\<close>

definition xaiResetAt :: "value_env \<Rightarrow> hobject option \<Rightarrow> string" where
  "xaiResetAt V config =
     quotaResetAt V [firstString (objectMap config [''currentPeriod'', ''current_period'']) [''end''],
                     firstString config [''billingPeriodEnd'', ''billing_period_end'']]"

definition xai_config :: "error + hobject \<Rightarrow> hobject option" where
  "xai_config answer =
     (let m = (case answer of Inl _ \<Rightarrow> None | Inr m \<Rightarrow> Some m)
      in case objectMap m [''config''] of
           Some c \<Rightarrow> Some c
         | None \<Rightarrow> objectMap (objectMap m [''body'']) [''config''])"

definition xai_month_reset :: "value_env \<Rightarrow> hobject option \<Rightarrow> string" where
  "xai_month_reset V monthly = quotaResetAt V [firstString monthly [''billingPeriodEnd'', ''billing_period_end'']]"

definition left_percent :: "f64 \<Rightarrow> f64 \<Rightarrow> f64" where
  "left_percent used limit = remainingPercent (fmul (fsub (Fin 1) (fdiv used limit)) (Fin 100))"

definition xai_month_row :: "value_env \<Rightarrow> hobject option \<Rightarrow> f64 option \<Rightarrow> f64 option \<Rightarrow> quotaRow" where
  "xai_month_row V monthly limit used =
     (let included = (case used of None \<Rightarrow> None
             | Some u \<Rightarrow> Some (case limit of None \<Rightarrow> u | Some l \<Rightarrow> fmin u (fmax (Fin 0) l)))
      in (quota_row [CHR 0xE6, CHR 0x9C, CHR 0x88, CHR 0xE5, CHR 0xBA, CHR 0xA6, CHR 0xE9, CHR 0xA2, CHR 0x9D, CHR 0xE5, CHR 0xBA, CHR 0xA6] (xai_month_reset V monthly))
           \<lparr>qr_currency := ''USD'', qr_limit := limit, qr_used := included,
            qr_remaining := (case (included, limit) of
              (Some i, Some l) \<Rightarrow> (if flt (Fin 0) l then Some (left_percent i l) else None) | _ \<Rightarrow> None)\<rparr>)"

definition xai_demand_row :: "value_env \<Rightarrow> hobject option \<Rightarrow> f64 \<Rightarrow> f64 option \<Rightarrow> quotaRow" where
  "xai_demand_row V monthly cap used =
     (quota_row [CHR 0xE6, CHR 0x8C, CHR 0x89, CHR 0xE9, CHR 0x87, CHR 0x8F, CHR 0xE4, CHR 0xBB, CHR 0x98, CHR 0xE8, CHR 0xB4, CHR 0xB9, CHR 0xE9, CHR 0xA2, CHR 0x9D, CHR 0xE5, CHR 0xBA, CHR 0xA6] (xai_month_reset V monthly))
       \<lparr>qr_currency := ''USD'', qr_limit := Some cap, qr_used := used,
        qr_remaining := map_option (\<lambda>u. left_percent u cap) used\<rparr>"

definition xai_money_rows :: "value_env \<Rightarrow> hobject option \<Rightarrow> quotaRow list" where
  "xai_money_rows V monthly =
     (let limit = usdValue V monthly [''monthlyLimit'', ''monthly_limit''];
          used = usdValue V monthly [''used''];
          cap = usdValue V monthly [''onDemandCap'', ''on_demand_cap''];
          demand0 = usdValue V monthly [''onDemandUsed'', ''on_demand_used''];
          demand = (case (demand0, used, limit) of
                      (None, Some u, Some l) \<Rightarrow> Some (fmax (Fin 0) (fsub u l)) | _ \<Rightarrow> demand0)
      in (if limit \<noteq> None \<or> used \<noteq> None then [xai_month_row V monthly limit used] else []) @
         (case cap of
            Some c \<Rightarrow> (if flt (Fin 0) c then [xai_demand_row V monthly c demand] else [])
          | None \<Rightarrow> []))"

text \<open>The products by their lower-case name, the first highest percentage of each.\<close>

fun xai_products :: "value_env \<Rightarrow> hobject list \<Rightarrow> (string \<times> (string \<times> f64)) list \<Rightarrow> (string \<times> (string \<times> f64)) list" where
  "xai_products V [] acc = acc"
| "xai_products V (product # ps) acc =
     (let name = one_line (firstString (Some product) [''product'']); normalized = ToLower name
      in case floatValue V (Some product) [''usagePercent'', ''usage_percent''] of
           None \<Rightarrow> xai_products V ps acc
         | Some percent \<Rightarrow>
             if name = [] then xai_products V ps acc
             else (case map_of acc normalized of
                     None \<Rightarrow> xai_products V ps (AList.update normalized (name, percent) acc)
                   | Some (shown, most) \<Rightarrow>
                       if flt most percent then xai_products V ps (AList.update normalized (name, percent) acc)
                       else xai_products V ps acc))"

definition xai_product_rows :: "value_env \<Rightarrow> hobject option \<Rightarrow> quotaRow list" where
  "xai_product_rows V weekly =
     map (\<lambda>(normalized, name, percent).
            (quota_row (name @ [CHR 0x20, CHR 0xE7, CHR 0x94, CHR 0xA8, CHR 0xE9, CHR 0x87, CHR 0x8F]) (xaiResetAt V weekly))\<lparr>qr_remaining := Some (remainingPercent (fsub (Fin 100) percent))\<rparr>)
       (sort_key fst (xai_products V (objects_in (objectSlice weekly [''productUsage'', ''product_usage''])) []))"

definition xai_week_rows :: "value_env \<Rightarrow> hobject option \<Rightarrow> quotaRow list" where
  "xai_week_rows V weekly =
     (case floatValue V weekly [''creditUsagePercent'', ''credit_usage_percent''] of
        None \<Rightarrow> []
      | Some percent \<Rightarrow> [(quota_row weekly_label (xaiResetAt V weekly))\<lparr>qr_remaining := Some (remainingPercent (fsub (Fin 100) percent))\<rparr>])"

definition fetchXAIQuota :: "quota_env \<Rightarrow> string \<Rightarrow> string \<Rightarrow> string \<Rightarrow> authQuotaResponse \<Rightarrow> error option \<times> authQuotaResponse" where
  "fetchXAIQuota Q callback token userID r =
     (let V = value_env.truncate Q;
          headers = [(''X-Xai-Token-Auth'', ''xai-grok-cli''), (''X-Grok-Client-Version'', ''0.2.93''),
                     (''User-Agent'', ''grok-pager/0.2.93 grok-shell/0.2.93''), (''Accept'', ''*/*'')];
          headers = (if userID \<noteq> [] then set_header ''X-Userid'' userID headers else headers);
          weekly = get_request Q callback ''https://cli-chat-proxy.grok.com/v1/billing?format=credits'' token headers;
          monthly = get_request Q callback ''https://cli-chat-proxy.grok.com/v1/billing'' token headers
      in case (weekly, monthly) of
           (Inl e, Inl _) \<Rightarrow> (Some e, r)
         | _ \<Rightarrow>
             (None, r\<lparr>aq_quota := aq_quota r @ xai_week_rows V (xai_config weekly) @ xai_money_rows V (xai_config monthly) @
                xai_product_rows V (xai_config weekly)\<rparr>))"

section \<open>Antigravity\<close>

definition quotaWindowOrder :: "int \<Rightarrow> int" where
  "quotaWindowOrder secs = (if secs = 18000 then 0 else if secs = 604800 then 1 else 2)"

definition antigravity_summaries :: "string list" where
  "antigravity_summaries =
     [''https://daily-cloudcode-pa.googleapis.com/v1internal:retrieveUserQuotaSummary'',
      ''https://daily-cloudcode-pa.sandbox.googleapis.com/v1internal:retrieveUserQuotaSummary'',
      ''https://cloudcode-pa.googleapis.com/v1internal:retrieveUserQuotaSummary'']"

definition antigravity_headers :: "(string \<times> string) list" where
  "antigravity_headers = [(''User-Agent'', ''antigravity/cli/1.0.13'')]"

definition has_groups :: "hobject \<Rightarrow> bool" where
  "has_groups m \<longleftrightarrow> objectSlice (Some m) [''groups''] \<noteq> []"

text \<open>The endpoints in turn until one lists groups; an answer without groups is kept in case no later one answers.\<close>

fun antigravity_summary ::
  "quota_env \<Rightarrow> string \<Rightarrow> string \<Rightarrow> hvalue \<Rightarrow> string list \<Rightarrow> hobject option \<Rightarrow> error option \<Rightarrow> hobject option \<times> error option" where
  "antigravity_summary Q callback token body [] quota lastErr = (quota, lastErr)"
| "antigravity_summary Q callback token body (url # urls) quota lastErr =
     (case upstream Q callback ''POST'' url token antigravity_headers (Some body) of
        Inl e \<Rightarrow> antigravity_summary Q callback token body urls quota (Some e)
      | Inr v0 \<Rightarrow>
          let v = (if \<not> has_groups v0 then (case objectMap (Some v0) [''body''] of Some b \<Rightarrow> b | None \<Rightarrow> v0) else v0)
          in if has_groups v then (Some v, lastErr) else antigravity_summary Q callback token body urls (Some v) lastErr)"

definition antigravity_row :: "value_env \<Rightarrow> string \<Rightarrow> hobject \<Rightarrow> quotaRow option" where
  "antigravity_row V groupLabel bucket =
     (case floatValue V (Some bucket) [''remainingFraction'', ''remaining_fraction''] of
        None \<Rightarrow> None
      | Some remaining \<Rightarrow>
          let window = ToLower (firstString (Some bucket) [''window'']);
              label0 = firstNonEmptyString [firstString (Some bucket) [''displayName'', ''display_name''], limit_label];
              (label, secs) = (if window \<in> {''5h'', ''five-hour'', ''five_hour''} then (five_hours, 18000)
                               else if window \<in> {''weekly'', ''week''} then (weekly_label, 604800) else (label0, 0))
          in Some ((quota_row label (quotaResetAt V [firstString (Some bucket) [''resetTime'', ''reset_time'']]))
               \<lparr>qr_group := groupLabel, qr_remaining := Some (remainingPercent (fmul remaining (Fin 100))), qr_seconds := secs\<rparr>))"

definition antigravity_group_rows :: "value_env \<Rightarrow> int \<Rightarrow> hobject \<Rightarrow> quotaRow list" where
  "antigravity_group_rows V number m =
     (let label = firstNonEmptyString [firstString (Some m) [''displayName'', ''display_name''], [CHR 0xE9, CHR 0x99, CHR 0x90, CHR 0xE9, CHR 0xA2, CHR 0x9D, CHR 0xE7, CHR 0xBB, CHR 0x84, CHR 0x20] @ FormatInt number]
      in sort_key (\<lambda>row. quotaWindowOrder (qr_seconds row))
           (List.map_filter (antigravity_row V label) (objects_in (objectSlice (Some m) [''buckets'']))))"

fun antigravity_rows :: "value_env \<Rightarrow> int \<Rightarrow> hvalue list \<Rightarrow> quotaRow list" where
  "antigravity_rows V number [] = []"
| "antigravity_rows V number (HObj m # vs) = antigravity_group_rows V number m @ antigravity_rows V (number + 1) vs"
| "antigravity_rows V number (_ # vs) = antigravity_rows V (number + 1) vs"

fun antigravity_plan :: "quota_env \<Rightarrow> string \<Rightarrow> string \<Rightarrow> string list \<Rightarrow> string option" where
  "antigravity_plan Q callback token [] = None"
| "antigravity_plan Q callback token (url # urls) =
     (case upstream Q callback ''POST'' url token antigravity_headers
             (Some (HObj [(''metadata'', HObj [(''ideType'', HStr ''ANTIGRAVITY'')])])) of
        Inl _ \<Rightarrow> antigravity_plan Q callback token urls
      | Inr m0 \<Rightarrow>
          let m = (case objectMap (Some m0) [''body''] of Some b \<Rightarrow> b | None \<Rightarrow> m0);
              tier = (case objectMap (Some m) [''paidTier'', ''paid_tier''] of
                        Some t \<Rightarrow> Some t
                      | None \<Rightarrow> objectMap (Some m) [''currentTier'', ''current_tier''])
          in if tier = None then antigravity_plan Q callback token urls
             else Some (firstNonEmptyString [firstString tier [''name''], firstString tier [''description'']]))"

definition fetchAntigravityQuota ::
  "quota_env \<Rightarrow> string \<Rightarrow> string \<Rightarrow> string \<Rightarrow> authQuotaResponse \<Rightarrow> error option \<times> authQuotaResponse" where
  "fetchAntigravityQuota Q callback token projectID r =
     (let V = value_env.truncate Q
      in case antigravity_summary Q callback token (HObj [(''project'', HStr projectID)]) antigravity_summaries None None of
           (None, lastErr) \<Rightarrow> (lastErr, r)
         | (Some quota, _) \<Rightarrow>
             let r1 = r\<lparr>aq_quota := aq_quota r @ antigravity_rows V 1 (objectSlice (Some quota) [''groups''])\<rparr>
             in (None, case antigravity_plan Q callback token
                              [''https://daily-cloudcode-pa.googleapis.com/v1internal:loadCodeAssist'',
                               ''https://cloudcode-pa.googleapis.com/v1internal:loadCodeAssist''] of
                         None \<Rightarrow> r1
                       | Some plan \<Rightarrow> r1\<lparr>aq_plan := plan\<rparr>))"

end
