(* ===== verification/AuthFiles.thy ===== *)
theory AuthFiles
  imports AuthQuota
begin

text \<open>
  What a viewer sees of the credential files: the rest of \<^verbatim>\<open>internal/plugin/auth_files.go\<close> (the choice of the
  provider, \<open>listAuthFiles\<close>, \<open>authQuota\<close>), the answers of \<^verbatim>\<open>envelope.go\<close> and the access of
  \<^verbatim>\<open>view.go\<close> and \<^verbatim>\<open>account.go\<close>: an administrator sees every file, the holder of an API key those its
  routing rules allow. \<open>authQuota_ok\<close> shows that a file a viewer may not see cannot be told from one that does not exist.
\<close>

section \<open>The quota of one file\<close>

definition tier_key :: "string \<Rightarrow> bool" where
  "tier_key key \<longleftrightarrow> (let low = ToLower key in low = ''tier'' \<or> suffix ''/tier'' low \<or> suffix '':tier'' low)"

definition paidXAICredential :: "quota_env \<Rightarrow> hobject option \<Rightarrow> bool" where
  "paidXAICredential Q credential =
     (case split_on (CHR ''.'') (credentialToken credential) of
        _ # payload # _ \<Rightarrow>
          (case qe_claims Q payload of
             None \<Rightarrow> False
           | Some claims \<Rightarrow>
               list_ex (\<lambda>key. tier_key key \<and>
                          (case floatValue (value_env.truncate Q) (Some claims) [key] of None \<Rightarrow> False | Some tier \<Rightarrow> fle (Fin 1) tier))
                 (map fst claims))
      | _ \<Rightarrow> False)"

definition authFileRevision :: "value_env \<Rightarrow> hostAuthFile \<Rightarrow> string" where
  "authFileRevision V f = (if IsZero (haf_modtime f) then [] else ve_rfc3339nano V (haf_modtime f))"

definition authCategory :: "string \<Rightarrow> string" where
  "authCategory authType = ToLower (TrimSpace authType)"

definition authCategoryOrder :: "string \<Rightarrow> int" where
  "authCategoryOrder c =
     (if c = ''claude'' then 0 else if c = ''antigravity'' then 1 else if c = ''codex'' then 2
      else if c = ''xai'' then 3 else if c = ''kimi'' then 4 else 5)"

definition fetch_provider ::
  "quota_env \<Rightarrow> string \<Rightarrow> hostAuthFile \<Rightarrow> string \<Rightarrow> hobject option \<Rightarrow> string \<Rightarrow> authQuotaResponse \<Rightarrow> error option \<times> authQuotaResponse" where
  "fetch_provider Q callback f provider credential token r =
     (if provider = ''codex'' then
        let plan = credentialString credential [''plan_type'', ''planType''];
            r1 = (if plan \<noteq> [] then r\<lparr>aq_plan := normalizeCodexPlan plan\<rparr> else r)
        in fetchCodexQuota Q callback token
             (credentialString credential [''account_id'', ''accountId'', ''chatgpt_account_id'', ''chatgptAccountId'']) r1
      else if provider = ''claude'' then fetchClaudeQuota Q callback token r
      else if provider = ''kimi'' then fetchKimiQuota Q callback token r
      else if provider = ''xai'' then
        fetchXAIQuota Q callback token
          (credentialString credential [''user_id'', ''userId'', ''xai_user_id'', ''xaiUserId'', ''sub'', ''subject'']) r
      else if provider = ''antigravity'' then
        let project = firstNonEmptyString [haf_project_id f,
                        credentialString credential [''project_id'', ''projectId'', ''gemini_virtual_project'']]
        in if project = [] then (Some (Plain_Error ''the credential file has no project_id''), r)
           else fetchAntigravityQuota Q callback token project r
      else (None, r))"

definition fetchAuthQuota :: "quota_env \<Rightarrow> string \<Rightarrow> hostAuthFile \<Rightarrow> string \<Rightarrow> error + authQuotaResponse" where
  "fetchAuthQuota Q callback f provider =
     (case qe_auth Q (haf_auth_index f) of
        Inl e \<Rightarrow> Inl e
      | Inr credential \<Rightarrow>
          if credentialUsesAPIKey credential then Inl (Plain_Error ''API key credentials do not support this query'')
          else if credentialString credential [''proxy_url'', ''proxyUrl''] \<noteq> []
          then Inl (Plain_Error ''the query does not support a proxy of the credential file'')
          else
            let r = \<lparr>aq_revision = authFileRevision (value_env.truncate Q) f, aq_fetched = qe_now Q, aq_plan = [],
                     aq_reset_credits = None, aq_quota = []\<rparr>
            in if provider = ''xai'' \<and> paidXAICredential Q credential then Inr (r\<lparr>aq_plan := ''Paid''\<rparr>)
               else let token = credentialToken credential
                    in if token = [] then Inl (Plain_Error ''the credential file has no usable credential'')
                       else (case fetch_provider Q callback f provider credential token r of
                               (Some e, _) \<Rightarrow> Inl e
                             | (None, r') \<Rightarrow> Inr r'))"

section \<open>Answers\<close>

datatype 'a reply_body = Error_Body string string | Value_Body 'a

record 'a reply =
  rp_status :: int
  rp_headers :: "(string \<times> string) list"
  rp_body :: "'a reply_body"

text \<open>\<open>fault\<close> is the error of \<open>json.Marshal\<close>, if it cannot print the payload.\<close>

definition JSONResponse :: "('a \<Rightarrow> string option) \<Rightarrow> int \<Rightarrow> 'a \<Rightarrow> 'a reply" where
  "JSONResponse fault status payload =
     (let hs = [(''Content-Type'', ''application/json; charset=utf-8'')]
      in case fault payload of
           None \<Rightarrow> \<lparr>rp_status = status, rp_headers = hs, rp_body = Value_Body payload\<rparr>
         | Some m \<Rightarrow> \<lparr>rp_status = 500, rp_headers = hs, rp_body = Error_Body ''json_error'' (TrimSpace m)\<rparr>)"

definition JSONError :: "int \<Rightarrow> string \<Rightarrow> string \<Rightarrow> 'a reply" where
  "JSONError status code message =
     \<lparr>rp_status = status, rp_headers = [(''Content-Type'', ''application/json; charset=utf-8'')],
      rp_body = Error_Body (TrimSpace code) (TrimSpace message)\<rparr>"

definition private_headers :: "(string \<times> string) list" where
  "private_headers =
     [(''Cache-Control'', ''private, no-store''), (''Pragma'', ''no-cache''), (''Vary'', ''Authorization''),
      (''Referrer-Policy'', ''no-referrer''), (''X-Content-Type-Options'', ''nosniff'')]"

definition secureAPIKeyResponse :: "'a reply \<Rightarrow> 'a reply" where
  "secureAPIKeyResponse r = r\<lparr>rp_headers := fold (\<lambda>(k, v). set_header k v) private_headers (rp_headers r)\<rparr>"

definition apiKeyJSON :: "('a \<Rightarrow> string option) \<Rightarrow> int \<Rightarrow> 'a \<Rightarrow> 'a reply" where
  "apiKeyJSON fault status payload = secureAPIKeyResponse (JSONResponse fault status payload)"

definition apiKeyJSONError :: "int \<Rightarrow> string \<Rightarrow> string \<Rightarrow> 'a reply" where
  "apiKeyJSONError status code message = secureAPIKeyResponse (JSONError status code message)"

definition apiKeyUnauthorized :: "'a reply" where
  "apiKeyUnauthorized =
     (let r = apiKeyJSONError 401 ''unauthorized'' ''the API key is invalid''
      in r\<lparr>rp_headers := set_header ''WWW-Authenticate'' (''Bearer realm='' @ [CHR 0x22] @ ''cpa-key-billing-account'' @ [CHR 0x22]) (rp_headers r)\<rparr>)"

section \<open>Viewers\<close>

record viewAccess =
  va_api_key :: bool
  va_scope :: string
  va_tracked :: bool
  va_key :: "KeyView option"

definition administrator :: viewAccess where
  "administrator = \<lparr>va_api_key = False, va_scope = [], va_tracked = False, va_key = None\<rparr>"

text \<open>The values of the \<open>Authorization\<close> headers: exactly one, of the form \<open>Bearer\<close> and a key of at most 8192 bytes.\<close>

definition accountScope :: "string list \<Rightarrow> string option" where
  "accountScope authorization =
     (case authorization of
        [v] \<Rightarrow>
          (case Fields v of
             [scheme, key] \<Rightarrow>
               (if \<not> EqualFold scheme ''Bearer'' \<or> length key > 8192 then None
                else if CallerScope key = [] then None else Some (CallerScope key))
           | _ \<Rightarrow> None)
      | _ \<Rightarrow> None)"

definition apiKeyViewAccess :: "env \<Rightarrow> string list \<Rightarrow> Store \<Rightarrow> viewAccess option \<times> Store" where
  "apiKeyViewAccess E authorization s =
     (case accountScope authorization of
        None \<Rightarrow> (None, s)
      | Some scope \<Rightarrow>
          (case KeyViewForScope E scope s of
             (v, s') \<Rightarrow> (Some \<lparr>va_api_key = True, va_scope = scope, va_tracked = v \<noteq> None, va_key = v\<rparr>, s')))"

definition viewJSON :: "viewAccess \<Rightarrow> ('a \<Rightarrow> string option) \<Rightarrow> int \<Rightarrow> 'a \<Rightarrow> 'a reply" where
  "viewJSON access fault status payload =
     (if va_api_key access then apiKeyJSON fault status payload else JSONResponse fault status payload)"

definition viewJSONError :: "viewAccess \<Rightarrow> int \<Rightarrow> string \<Rightarrow> string \<Rightarrow> 'a reply" where
  "viewJSONError access status code message =
     (if va_api_key access then apiKeyJSONError status code message else JSONError status code message)"

section \<open>The list of files\<close>

record authFileView =
  afv_index :: string
  afv_name :: string
  afv_category :: string
  afv_email :: string
  afv_disabled :: bool
  afv_unavailable :: bool
  afv_supported :: bool
  afv_reason :: string
  afv_revision :: string

definition authQuotaAvailability :: "hostAuthFile \<Rightarrow> string \<Rightarrow> bool \<times> string" where
  "authQuotaAvailability f category =
     (if haf_disabled f then (False, ''the credential file is disabled'')
      else if haf_runtime_only f then (False, ''a runtime credential cannot be read'')
      else if authCategoryOrder category = 5 then (False, ''this kind of credential has no quota query'')
      else (True, []))"

definition is_api_key_account :: "hostAuthFile \<Rightarrow> bool" where
  "is_api_key_account f \<longleftrightarrow> EqualFold (TrimSpace (haf_account_type f)) ''api_key''"

definition auth_file_view :: "value_env \<Rightarrow> hostAuthFile \<Rightarrow> authFileView" where
  "auth_file_view V f =
     (let category = authCategory (haf_type f)
      in case authQuotaAvailability f category of
           (ok, reason) \<Rightarrow>
             \<lparr>afv_index = haf_auth_index f, afv_name = haf_name f, afv_category = category, afv_email = cleanText (haf_email f),
              afv_disabled = haf_disabled f, afv_unavailable = haf_unavailable f, afv_supported = ok, afv_reason = reason,
              afv_revision = authFileRevision V f\<rparr>)"

text \<open>What an API key may see: nothing while its rules are broken, and otherwise what they allow.\<close>

definition visible_file :: "RoutingDecision \<Rightarrow> hostAuthFile \<Rightarrow> bool" where
  "visible_file d f \<longleftrightarrow> rd_error d = [] \<and> (RestrictsCredentials d \<longrightarrow> routingAllowsAuthFile f d)"

definition visible_files :: "viewAccess \<Rightarrow> Store \<Rightarrow> hostAuthFile list \<Rightarrow> hostAuthFile list" where
  "visible_files access s files =
     (if va_api_key access then filter (visible_file (ResolveRouting s (va_scope access) [] [])) files else files)"

text \<open>
  The order of the table: kinds, the name of an unknown kind, the name and the identifier; sorting by the least key
  first and stably gives the order of the comparison function.
\<close>

definition sort_views :: "authFileView list \<Rightarrow> authFileView list" where
  "sort_views vs =
     sort_key (\<lambda>v. authCategoryOrder (afv_category v))
       (sort_key afv_category (sort_key (\<lambda>v. ToLower (afv_name v)) (sort_key afv_index vs)))"

definition listAuthFiles :: "value_env \<Rightarrow> error + hostAuthFile list \<Rightarrow> viewAccess \<Rightarrow> Store \<Rightarrow> error + authFileView list" where
  "listAuthFiles V host access s =
     (case host of
        Inl e \<Rightarrow> Inl e
      | Inr files \<Rightarrow>
          Inr (sort_views (map (auth_file_view V)
                 (filter (\<lambda>f. TrimSpace (haf_auth_index f) \<noteq> [] \<and> \<not> is_api_key_account f) (visible_files access s files)))))"

definition authFiles :: "value_env \<Rightarrow> error + hostAuthFile list \<Rightarrow> viewAccess \<Rightarrow> Store \<Rightarrow> authFileView list reply" where
  "authFiles V host access s =
     (if va_api_key access \<and> \<not> va_tracked access then apiKeyUnauthorized
      else case listAuthFiles V host access s of
             Inl e \<Rightarrow> viewJSONError access 502 ''host_unavailable'' (Error_msg e)
           | Inr views \<Rightarrow> viewJSON access (\<lambda>_. None) 200 views)"

section \<open>The quota of a file for a viewer\<close>

text \<open>JSON has no text for infinities and not-a-number.\<close>

definition row_numbers :: "quotaRow \<Rightarrow> f64 list" where
  "row_numbers row = List.map_filter (\<lambda>x. x) [qr_remaining row, qr_used row, qr_limit row]"

definition quota_fault :: "authQuotaResponse \<Rightarrow> string option" where
  "quota_fault r =
     (case filter (\<lambda>x. \<not> is_fin x) (concat (map row_numbers (aq_quota r))) of
        [] \<Rightarrow> None
      | x # _ \<Rightarrow> Some (''json: unsupported value: '' @ (if x = F_NaN then ''NaN'' else if x = F_Inf then ''+Inf'' else ''-Inf'')))"

definition no_such_file :: "viewAccess \<Rightarrow> 'a reply" where
  "no_such_file access = viewJSONError access 404 ''not_found'' ''the credential file does not exist''"

definition file_quota :: "quota_env \<Rightarrow> string \<Rightarrow> viewAccess \<Rightarrow> hostAuthFile \<Rightarrow> authQuotaResponse reply" where
  "file_quota Q callback access f =
     (if haf_disabled f then viewJSONError access 422 ''disabled'' ''the credential file is disabled''
      else if authCategoryOrder (authCategory (haf_type f)) = 5
      then viewJSONError access 422 ''unsupported'' ''this kind of credential has no quota query''
      else if haf_runtime_only f then viewJSONError access 422 ''unsupported'' ''a runtime credential cannot be read''
      else case fetchAuthQuota Q callback f (authCategory (haf_type f)) of
             Inl e \<Rightarrow> viewJSONError access 502 ''quota_failed'' (Error_msg e)
           | Inr r \<Rightarrow> viewJSON access quota_fault 200 r)"

definition authQuota ::
  "quota_env \<Rightarrow> error + hostAuthFile list \<Rightarrow> string \<Rightarrow> string \<Rightarrow> viewAccess \<Rightarrow> Store \<Rightarrow> authQuotaResponse reply" where
  "authQuota Q host callback index0 access s =
     (if va_api_key access \<and> \<not> va_tracked access then apiKeyUnauthorized
      else let index = TrimSpace index0
           in if index = [] \<or> length index > 512 then viewJSONError access 400 ''invalid'' ''the credential file identifier is invalid''
              else case host of
                     Inl e \<Rightarrow> viewJSONError access 502 ''host_unavailable'' (Error_msg e)
                   | Inr files \<Rightarrow>
                       (case find (\<lambda>f. haf_auth_index f = index) files of
                          None \<Rightarrow> no_such_file access
                        | Some f \<Rightarrow>
                            if is_api_key_account f then no_such_file access
                            else if va_api_key access \<and> \<not> visible_file (ResolveRouting s (va_scope access) [] []) f
                            then no_such_file access
                            else file_quota Q callback access f))"

section \<open>Hidden files\<close>

lemma visible_files_mem:
  "f \<in> set (visible_files access s files) \<longleftrightarrow>
     f \<in> set files \<and> (va_api_key access \<longrightarrow> visible_file (ResolveRouting s (va_scope access) [] []) f)"
  by (auto simp: visible_files_def)

lemma find_filter_distinct:
  assumes "distinct (map h xs)"
  shows "find (\<lambda>x. h x = k) (filter P xs) =
    (case find (\<lambda>x. h x = k) xs of None \<Rightarrow> None | Some x \<Rightarrow> if P x then Some x else None)"
  using assms
proof (induction xs)
  case (Cons x xs)
  have "find (\<lambda>y. h y = k) (filter P xs) = None" if "h x = k"
    using Cons.prems that by (auto simp: find_None_iff image_iff)
  then show ?case using Cons by simp
qed simp

lemma visible_files_idem [simp]: "visible_files access s (visible_files access s files) = visible_files access s files"
  by (simp add: visible_files_def)

lemma authQuota_visible:
  assumes "distinct (map haf_auth_index files)"
  shows "authQuota Q (Inr (visible_files access s files)) callback index access s = authQuota Q (Inr files) callback index access s"
proof -
  have "find (\<lambda>f. haf_auth_index f = k) (visible_files access s files) =
      (case find (\<lambda>f. haf_auth_index f = k) files of None \<Rightarrow> None
       | Some f \<Rightarrow> if va_api_key access \<longrightarrow> visible_file (ResolveRouting s (va_scope access) [] []) f then Some f else None)" for k
    using find_filter_distinct [OF assms, of k] by (auto simp: visible_files_def split: option.splits)
  then show ?thesis unfolding authQuota_def by (auto simp: Let_def split: option.splits)
qed

lemma listAuthFiles_visible:
  "listAuthFiles V (Inr (visible_files access s files)) access s = listAuthFiles V (Inr files) access s"
  by (simp add: listAuthFiles_def)

text \<open>C11: the holder of an API key cannot tell a credential file its routing rules forbid from one that does not exist:
  the list of files and the answer to every quota query are those of a host that has the allowed files only, so a
  forbidden file is neither named, nor read, nor sent to its provider.
\<close>

theorem forbidden_files_invisible:
  assumes "distinct (map haf_auth_index files)"
  shows "authQuota Q (Inr (visible_files access s files)) callback index access s = authQuota Q (Inr files) callback index access s \<and>
    authFiles (value_env.truncate Q) (Inr (visible_files access s files)) access s =
      authFiles (value_env.truncate Q) (Inr files) access s"
  using authQuota_visible [OF assms] by (simp add: authFiles_def listAuthFiles_visible)

section \<open>The list and the answers\<close>

lemma view_statuses [simp]:
  "rp_status (viewJSONError access status code message) = status"
  "rp_status (no_such_file access :: 'a reply) = 404"
  "rp_status (viewJSON access fault status payload) = (if fault payload = None then status else 500)"
  by (simp_all add: viewJSONError_def no_such_file_def viewJSON_def apiKeyJSONError_def apiKeyJSON_def secureAPIKeyResponse_def
        JSONError_def JSONResponse_def Let_def split: option.splits)

lemma file_quota_status:
  "rp_status (file_quota Q callback access f) \<in> {200, 422, 500, 502} \<and>
   (rp_status (file_quota Q callback access f) = 422 \<longleftrightarrow> \<not> fst (authQuotaAvailability f (authCategory (haf_type f))))"
  by (simp add: file_quota_def authQuotaAvailability_def split: sum.splits)

lemma sort_views_set [simp]: "set (sort_views vs) = set vs"
  by (simp add: sort_views_def)

lemma auth_file_view_simps [simp]:
  "afv_index (auth_file_view V f) = haf_auth_index f"
  "afv_supported (auth_file_view V f) = fst (authQuotaAvailability f (authCategory (haf_type f)))"
  by (simp_all add: auth_file_view_def Let_def split: prod.splits)

lemma listed_iff:
  assumes "listAuthFiles V (Inr files) access s = Inr views"
  shows "v \<in> set views \<longleftrightarrow>
    (\<exists>f \<in> set files. v = auth_file_view V f \<and> TrimSpace (haf_auth_index f) \<noteq> [] \<and> \<not> is_api_key_account f \<and>
       (va_api_key access \<longrightarrow> visible_file (ResolveRouting s (va_scope access) [] []) f))"
  using assms by (auto simp: listAuthFiles_def visible_files_mem)

lemma find_distinct_key:
  assumes "distinct (map h xs)" "x \<in> set xs"
  shows "find (\<lambda>y. h y = h x) xs = Some x"
  using assms by (induction xs) auto

text \<open>C38: the table of files and the answers agree: for a viewer with access, an identifier is listed exactly when its quota
  query is not answered with 404, and the entry says the quota can be queried exactly when the query goes to the provider
  instead of being refused with 422.
\<close>

theorem listed_iff_answered:
  assumes "distinct (map haf_auth_index files)" "va_api_key access \<longrightarrow> va_tracked access"
    "index \<noteq> []" "trimmed index" "length index \<le> 512" "listAuthFiles (value_env.truncate Q) (Inr files) access s = Inr views"
  shows "((\<exists>v \<in> set views. afv_index v = index) \<longleftrightarrow> rp_status (authQuota Q (Inr files) callback index access s) \<noteq> 404) \<and>
    (\<forall>v \<in> set views. afv_index v = index \<longrightarrow>
       (afv_supported v \<longleftrightarrow> rp_status (authQuota Q (Inr files) callback index access s) \<noteq> 422))"
proof -
  let ?ok = "\<lambda>f. \<not> is_api_key_account f \<and> (va_api_key access \<longrightarrow> visible_file (ResolveRouting s (va_scope access) [] []) f)"
  have t: "TrimSpace index = index" by (rule TrimSpace_id [OF assms(4)])
  have q: "authQuota Q (Inr files) callback index access s =
      (case find (\<lambda>f. haf_auth_index f = index) files of None \<Rightarrow> no_such_file access
       | Some f \<Rightarrow> if ?ok f then file_quota Q callback access f else no_such_file access)"
    using assms(2,3,5) t by (auto simp: authQuota_def Let_def split: option.splits)
  show ?thesis
  proof (cases "find (\<lambda>f. haf_auth_index f = index) files")
    case None
    then have "\<not> (\<exists>v \<in> set views. afv_index v = index)"
      using listed_iff [OF assms(6)] by (fastforce simp: find_None_iff)
    then show ?thesis using q None by simp
  next
    case (Some f)
    then have f: "f \<in> set files" "haf_auth_index f = index"
      by (auto simp: find_Some_iff)
    have only: "g = f" if "g \<in> set files" "haf_auth_index g = index" for g
      using find_distinct_key [OF assms(1) that(1)] that(2) Some by simp
    have ix: "v \<in> set views \<and> afv_index v = index \<longleftrightarrow> v = auth_file_view (value_env.truncate Q) f \<and> ?ok f" for v
    proof
    assume "v \<in> set views \<and> afv_index v = index"
    then obtain g where "g \<in> set files" "v = auth_file_view (value_env.truncate Q) g" "?ok g" "haf_auth_index g = index"
      unfolding listed_iff [OF assms(6)] by fastforce
    then show "v = auth_file_view (value_env.truncate Q) f \<and> ?ok f" using only by blast
  next
    assume v: "v = auth_file_view (value_env.truncate Q) f \<and> ?ok f"
    then have "\<exists>g \<in> set files. v = auth_file_view (value_env.truncate Q) g \<and> TrimSpace (haf_auth_index g) \<noteq> [] \<and>
        \<not> is_api_key_account g \<and> (va_api_key access \<longrightarrow> visible_file (ResolveRouting s (va_scope access) [] []) g)"
      by (intro bexI [OF _ f(1)] conjI) (simp_all add: f(2) t assms(3))
    then have "v \<in> set views" unfolding listed_iff [OF assms(6)] .
    then show "v \<in> set views \<and> afv_index v = index" using v f by simp
  qed
    have ixs: "(\<exists>v \<in> set views. afv_index v = index) \<longleftrightarrow> ?ok f" using ix by blast
    have "rp_status (file_quota Q callback access f) \<noteq> 404" using file_quota_status [of Q callback access f] by auto
    then have a: "rp_status (authQuota Q (Inr files) callback index access s) \<noteq> 404 \<longleftrightarrow> ?ok f" using q Some by simp
    have "afv_supported v \<longleftrightarrow> rp_status (authQuota Q (Inr files) callback index access s) \<noteq> 422"
      if "v \<in> set views" "afv_index v = index" for v
    proof -
      have "v = auth_file_view (value_env.truncate Q) f" "?ok f" using ix that by blast+
      then show ?thesis using q Some file_quota_status [of Q callback access f] by simp
    qed
    then show ?thesis using ixs a by blast
  qed
qed

section \<open>The rows of an answer\<close>

text \<open>A percentage lies between 0 and 100, unless the provider sent a text like NaN, which Go reads as a number.\<close>

fun percentage :: "f64 \<Rightarrow> bool" where
  "percentage (Fin x) \<longleftrightarrow> 0 \<le> x \<and> x \<le> 100"
| "percentage x \<longleftrightarrow> x = F_NaN"

definition row_ok :: "quotaRow \<Rightarrow> bool" where
  "row_ok row \<longleftrightarrow> (\<forall>p. qr_remaining row = Some p \<longrightarrow> percentage p)"

named_theorems row_rules "rows whose percentage is in range"

lemma percentage_remaining [simp]: "percentage (remainingPercent x)"
  by (cases x) (auto simp: remainingPercent_def fmin_def fmax_def)

lemma row_ok_simps [simp]:
  "row_ok (quota_row label reset)" "row_ok (row\<lparr>qr_reset := reset\<rparr>) = row_ok row" "row_ok (row\<lparr>qr_used := used\<rparr>) = row_ok row"
  "row_ok (row\<lparr>qr_limit := limit\<rparr>) = row_ok row" "row_ok (row\<lparr>qr_currency := cur\<rparr>) = row_ok row"
  "row_ok (row\<lparr>qr_group := label'\<rparr>) = row_ok row" "row_ok (row\<lparr>qr_seconds := n\<rparr>) = row_ok row"
  "row_ok (row\<lparr>qr_remaining := None\<rparr>)" "row_ok (row\<lparr>qr_remaining := Some p\<rparr>) = percentage p"
  by (simp_all add: row_ok_def quota_row_def)

lemma row_ok_map [simp]: "row_ok (row\<lparr>qr_remaining := map_option (\<lambda>p. remainingPercent (f p)) v\<rparr>)"
  by (cases v) simp_all

lemma row_ok_fill [row_rules]: "row_ok row \<Longrightarrow> row_ok (fillQuotaValues V m row)"
  by (simp add: fillQuotaValues_def Let_def split: option.splits)

lemma row_ok_codex [row_rules]: "row_ok (codex_row V fetched labelPrefix info w)"
  by (simp add: codex_row_def Let_def split: prod.splits option.splits if_splits)

lemma row_ok_kimi [row_rules]: "row_ok row \<Longrightarrow> row_ok (kimi_reset V fetched ms row)"
  by (simp add: kimi_reset_def split: option.splits)

lemma row_ok_kimi_rows [row_rules]:
  "row_ok (kimi_limit_row V fetched limit)" "row_ok (kimi_summary_row V fetched summary)"
  by (simp_all add: kimi_limit_row_def kimi_summary_row_def Let_def row_rules)

lemma row_ok_xai [row_rules]: "row_ok (xai_month_row V monthly limit used)" "row_ok (xai_demand_row V monthly cap used)"
  by (simp_all add: xai_month_row_def xai_demand_row_def left_percent_def Let_def split: option.splits)

lemma rows_ok_xai [row_rules]:
  "row \<in> set (xai_week_rows V c) \<Longrightarrow> row_ok row" "row \<in> set (xai_money_rows V c) \<Longrightarrow> row_ok row"
  "row \<in> set (xai_product_rows V c) \<Longrightarrow> row_ok row"
proof -
  show "row \<in> set (xai_week_rows V c) \<Longrightarrow> row_ok row" by (auto simp: xai_week_rows_def split: option.split_asm)
  show "row \<in> set (xai_money_rows V c) \<Longrightarrow> row_ok row"
    unfolding xai_money_rows_def Let_def
    by (cases "usdValue V c [''onDemandCap'', ''on_demand_cap'']") (auto simp: row_ok_xai split: if_split_asm)
  show "row \<in> set (xai_product_rows V c) \<Longrightarrow> row_ok row" by (auto simp: xai_product_rows_def)
qed

lemma row_ok_antigravity [row_rules]: "antigravity_row V label bucket = Some row \<Longrightarrow> row_ok row"
  by (auto simp: antigravity_row_def Let_def split: option.splits if_splits)

lemma rows_ok_group [row_rules]: "row \<in> set (antigravity_group_rows V n m) \<Longrightarrow> row_ok row"
  by (auto simp: antigravity_group_rows_def Let_def map_filter_def row_rules)

lemma rows_ok_antigravity [row_rules]: "row \<in> set (antigravity_rows V n vs) \<Longrightarrow> row_ok row"
  by (induction V n vs rule: antigravity_rows.induct) (auto simp: row_rules)

lemma rows_ok_claude [row_rules]:
  "claude_window_row V usage fable w = Some row \<Longrightarrow> row_ok row" "claude_extra_row V usage = Some row \<Longrightarrow> row_ok row"
  by (auto simp: claude_window_row_def claude_extra_row_def split: option.splits prod.splits if_splits)

lemma rows_ok_windows: "row \<in> set (List.map_filter (claude_window_row V usage fable) ws) \<Longrightarrow> row_ok row"
  by (induction ws) (auto simp: List.map_filter_simps rows_ok_claude split: option.split_asm)

section \<open>What a fetch keeps\<close>

text \<open>A fetch appends rows in range and may set the plan and the reset credits; revision and instant stay.\<close>

definition extends :: "authQuotaResponse \<Rightarrow> authQuotaResponse \<Rightarrow> bool" where
  "extends r r' \<longleftrightarrow> aq_revision r' = aq_revision r \<and> aq_fetched r' = aq_fetched r \<and>
     (\<exists>rows. aq_quota r' = aq_quota r @ rows \<and> (\<forall>row \<in> set rows. row_ok row))"

lemma extends_refl [simp]: "extends r r"
  by (simp add: extends_def)

lemma extends_trans [trans]: "extends r r' \<Longrightarrow> extends r' r'' \<Longrightarrow> extends r r''"
  unfolding extends_def by fastforce

lemma extends_plan [simp]:
  "extends r (r'\<lparr>aq_plan := plan\<rparr>) = extends r r'" "extends r (r'\<lparr>aq_reset_credits := n\<rparr>) = extends r r'"
  "extends (r\<lparr>aq_plan := plan\<rparr>) r' = extends r r'"
  by (simp_all add: extends_def)

lemma extends_rows [simp]: "(\<And>row. row \<in> set rows \<Longrightarrow> row_ok row) \<Longrightarrow> extends r (r\<lparr>aq_quota := aq_quota r @ rows\<rparr>)"
  by (auto simp: extends_def)

lemma extends_add: "row_ok row \<Longrightarrow> extends r (add_row row r)"
  by (simp add: add_row_def extends_def)

lemma extends_fold:
  "(\<And>x r. extends r (f x r)) \<Longrightarrow> extends r (fold f xs r)"
proof (induction xs arbitrary: r)
  case (Cons x xs)
  then show ?case by (simp add: extends_trans [of r "f x r"])
qed simp

lemma extends_codex: "extends r (appendCodexRateLimit V labelPrefix info r)"
  by (cases info) (auto simp: appendCodexRateLimit_def intro!: extends_fold extends_add row_rules split: prod.splits option.splits)

lemma extends_additional: "extends r (append_additional Q vs r)"
proof (induction Q vs r rule: append_additional.induct)
  case (2 Q m rest r)
  show ?case using extends_trans [OF extends_codex 2 [OF refl]] by (simp add: Let_def)
qed simp_all

lemma extends_fetchCodex: "fetchCodexQuota Q callback token account r = (None, r') \<Longrightarrow> extends r r'"
proof -
  assume a: "fetchCodexQuota Q callback token account r = (None, r')"
  have chain: "extends r (append_additional Q vs (appendCodexRateLimit V p2 i2 (appendCodexRateLimit V p1 i1 r1)))" if "extends r r1"
    for V p1 i1 p2 i2 vs r1
    by (rule extends_trans [OF extends_trans [OF extends_trans [OF that extends_codex] extends_codex] extends_additional])
  show ?thesis
    using a unfolding fetchCodexQuota_def Let_def by (clarsimp simp: chain split: sum.splits option.splits)
qed

lemma extends_fetchClaude: "fetchClaudeQuota Q callback token r = (None, r') \<Longrightarrow> extends r r'"
  unfolding fetchClaudeQuota_def Let_def
  by (auto intro!: extends_rows split: sum.split_asm option.split_asm)
    (erule rows_ok_windows rows_ok_claude(2))+

lemma extends_fetchKimi: "fetchKimiQuota Q callback token r = (None, r') \<Longrightarrow> extends r r'"
  unfolding fetchKimiQuota_def Let_def
  by (auto simp: row_ok_kimi_rows intro!: extends_rows split: sum.split_asm if_split_asm)

lemma extends_fetchXAI: "fetchXAIQuota Q callback token user r = (None, r') \<Longrightarrow> extends r r'"
  unfolding fetchXAIQuota_def Let_def
  by (auto intro!: extends_rows dest: rows_ok_xai split: sum.split_asm)

lemma extends_fetchAntigravity:
  "fetchAntigravityQuota Q callback token project r = (None, r') \<Longrightarrow> extends r r'"
  unfolding fetchAntigravityQuota_def Let_def
  by (auto simp del: antigravity_plan.simps antigravity_summary.simps intro!: extends_rows intro: rows_ok_antigravity
        split: option.splits prod.splits)

lemma extends_fetch: "fetch_provider Q callback f provider credential token r = (None, r') \<Longrightarrow> extends r r'"
  unfolding fetch_provider_def Let_def
  by (auto split: if_split_asm dest!: extends_fetchCodex extends_fetchClaude extends_fetchKimi extends_fetchXAI extends_fetchAntigravity)


section \<open>The records of a credential\<close>

text \<open>The object under a path of keys.\<close>

fun follow :: "hobject \<Rightarrow> string list \<Rightarrow> hobject option" where
  "follow m [] = Some m"
| "follow m (k # ks) = (case object_of (entry (Some m) k) of None \<Rightarrow> None | Some m' \<Rightarrow> follow m' ks)"

lemma length_concat_bound:
  "(\<And>x. x \<in> set xs \<Longrightarrow> length (f x) \<le> n) \<Longrightarrow> length (concat (map f xs)) \<le> length xs * n"
proof (induction xs)
  case (Cons x xs)
  then have "length (f x) \<le> n" "length (concat (map f xs)) \<le> length xs * n" by simp_all
  then show ?case by simp
qed simp

lemma visit_records_0: "visit_records 0 m = [m]"
  by simp

lemma visit_records_Suc:
  "visit_records (Suc k) m =
     m # concat (map (\<lambda>key. case object_of (entry (Some m) key) of None \<Rightarrow> [] | Some m' \<Rightarrow> visit_records k m') nested_keys)"
  by (rule trans [OF visit_records.simps]) (simp only: nat.case)

declare visit_records.simps [simp del] visit_records_0 [simp] visit_records_Suc [simp]

lemma set_case_option: "r \<in> set (case x of None \<Rightarrow> [] | Some m \<Rightarrow> f m) \<longleftrightarrow> (\<exists>m. x = Some m \<and> r \<in> set (f m))"
  by (cases x) auto

lemma visit_records_length_Suc:
  assumes "\<And>m. length (visit_records k m) \<le> n"
  shows "length (visit_records (Suc k) m) \<le> Suc (10 * n)"
proof -
  have "length (concat (map (\<lambda>key. case object_of (entry (Some m) key) of None \<Rightarrow> [] | Some m \<Rightarrow> visit_records k m) nested_keys))
      \<le> length nested_keys * n"
    using assms by (intro length_concat_bound) (simp split: option.splits)
  then show ?thesis by (simp add: nested_keys_def)
qed

lemma visit_records_mem:
  "r \<in> set (visit_records k m) \<longleftrightarrow> (\<exists>ks. length ks \<le> k \<and> set ks \<subseteq> set nested_keys \<and> follow m ks = Some r)"
proof (induction k arbitrary: m)
  case 0
  then show ?case by auto
next
  case (Suc k)
  have "r \<in> set (visit_records (Suc k) m) \<longleftrightarrow>
      r = m \<or> (\<exists>key \<in> set nested_keys. \<exists>m'. object_of (entry (Some m) key) = Some m' \<and> r \<in> set (visit_records k m'))"
    by (simp add: set_case_option) metis
  also have "\<dots> \<longleftrightarrow> (\<exists>ks. length ks \<le> Suc k \<and> set ks \<subseteq> set nested_keys \<and> follow m ks = Some r)" (is "?l \<longleftrightarrow> ?r")
  proof
    assume ?l
    then show ?r
    proof (elim disjE bexE exE conjE)
      assume "r = m" then show ?r by (intro exI [of _ "[]"]) simp
    next
      fix key m' assume a: "key \<in> set nested_keys" "object_of (entry (Some m) key) = Some m'" "r \<in> set (visit_records k m')"
      then obtain ks where "length ks \<le> k" "set ks \<subseteq> set nested_keys" "follow m' ks = Some r" using Suc.IH by blast
      then show ?r using a by (intro exI [of _ "key # ks"]) simp
    qed
  next
    assume ?r
    then obtain ks where ks: "length ks \<le> Suc k" "set ks \<subseteq> set nested_keys" "follow m ks = Some r" by blast
    show ?l
    proof (cases ks)
      case Nil
      then show ?l using ks by simp
    next
      case (Cons key ks')
      then obtain m' where m': "object_of (entry (Some m) key) = Some m'" "follow m' ks' = Some r"
        using ks(3) by (auto split: option.splits)
      then have "r \<in> set (visit_records k m')" using Suc.IH ks Cons by auto
      then show ?l using m' ks(2) Cons by auto
    qed
  qed
  finally show ?case .
qed

text \<open>C40: however deep and wide a credential is nested, looking through it ends after at most 111 records, which are exactly
  the objects reached by at most two of the known keys, the credential itself first.
\<close>

theorem credentialRecords_ends:
  "length (credentialRecords (Some m)) \<le> 111 \<and> hd (credentialRecords (Some m)) = m \<and>
   (r \<in> set (credentialRecords (Some m)) \<longleftrightarrow>
      (\<exists>ks. length ks \<le> 2 \<and> set ks \<subseteq> set nested_keys \<and> follow m ks = Some r))"
proof -
  have "length (visit_records 0 m) \<le> 1" for m by simp
  then have "length (visit_records (Suc 0) m) \<le> 11" for m using visit_records_length_Suc [of 0 1 m] by simp
  then have "length (visit_records (Suc (Suc 0)) m) \<le> 111" using visit_records_length_Suc [of "Suc 0" 11 m] by simp
  then have "length (visit_records 2 m) \<le> 111" by (simp only: numeral_2_eq_2)
  moreover have "hd (visit_records 2 m) = m" by (simp add: numeral_2_eq_2)
  ultimately show ?thesis using visit_records_mem [of r 2 m] by (simp only: credentialRecords_def option.simps)
qed

section \<open>Examples\<close>

definition sample_answer :: hobject where
  "sample_answer = [(''rate_limit'', HObj [(''limit_reached'', HBool True), (''primary_window'', HObj [(''limit_window_seconds'', HNum (Fin 18000))])])]"

definition sample_quota_env :: quota_env where
  "sample_quota_env = \<lparr>ve_parse_float = (\<lambda>_. None), ve_parse_time = (\<lambda>_. None), ve_rfc3339 = (\<lambda>_. []), ve_rfc3339nano = (\<lambda>_. []),
     qe_http = (\<lambda>_. Inr (Inr \<lparr>hp_status = 200, hp_body = ''x''\<rparr>)),
     qe_auth = (\<lambda>_. Inr (Some [(''access_token'', HStr ''t'')])), qe_decode = (\<lambda>_. Some sample_answer), qe_claims = (\<lambda>_. None),
     qe_status_text = (\<lambda>_. []), qe_now = time_of_unix 1700000000\<rparr>"

definition auth_file :: "string \<Rightarrow> string \<Rightarrow> hostAuthFile" where
  "auth_file index kind =
     \<lparr>haf_id = index, haf_auth_index = index, haf_name = index, haf_type = kind, haf_provider = kind, haf_label = [], haf_status = [],
      haf_source = ''file'', haf_path = [], haf_account = [], haf_disabled = False, haf_unavailable = False, haf_email = [],
      haf_project_id = [], haf_account_type = [], haf_runtime_only = False, haf_modtime = 0\<rparr>"

definition codex_only :: Store where
  "codex_only = new_store\<lparr>s_state := small_state\<lparr>st_keys := [(''ab'', bound_key\<lparr>ks_bindings :=
     no_bindings\<lparr>rb_rule := empty_rule\<lparr>rr_denied_credential_providers := [Selector ''auth-files'' ''claude'']\<rparr>\<rparr>\<rparr>)]\<rparr>\<rparr>"

definition key_viewer :: viewAccess where
  "key_viewer = \<lparr>va_api_key = True, va_scope = ''ab'', va_tracked = True, va_key = None\<rparr>"

definition two_files :: "hostAuthFile list" where
  "two_files = [auth_file ''f1'' ''claude'', auth_file ''f2'' ''codex'']"

lemma codex_only_routing: "ResolveRouting codex_only ''ab'' [] [] =
    \<lparr>rd_rule = empty_rule\<lparr>rr_denied_credential_providers := [Selector ''auth-files'' ''claude'']\<rparr>, rd_model = [], rd_error = []\<rparr>"
  by (simp add: ResolveRouting_def codex_only_def lookup_key_def normalizeScope_def TrimSpace_visible visible_def resolveRoutingState_def
      bound_key_def no_bindings_def merge_rule_def empty_rule_def tidy_strings_def tidy_selectors_def Let_def ResolveBillingModel_def
      small_state_def NewState_def ToLower_def lower_byte_def is_upper_def ModelWithoutThinkingSuffix_def)

lemma auth_file_visible:
  "TrimSpace i = i \<Longrightarrow> i \<noteq> [] \<Longrightarrow> kind \<in> {''claude'', ''codex''} \<Longrightarrow>
   visible_file (ResolveRouting codex_only ''ab'' [] []) (auth_file i kind) \<longleftrightarrow> kind = ''codex''"
  by (auto simp: codex_only_routing visible_file_def routingAllowsAuthFile_def credentialSourceFromHost_def routingAllowsCredential_def
      AllowsCredential_def containsRouteValue_def empty_rule_def Let_def normalized_selector_def denied_matches_def auth_file_def
      CredentialSourceAIProviders_def CredentialSourceAuthFiles_def RestrictsCredentials_def
      TrimSpace_visible visible_def ToLower_def lower_byte_def is_upper_def)

lemma two_files_visible: "visible_files key_viewer codex_only two_files = [auth_file ''f2'' ''codex'']"
  using auth_file_visible [of "''f1''" "''claude''"] auth_file_visible [of "''f2''" "''codex''"]
  by (simp add: visible_files_def key_viewer_def two_files_def TrimSpace_visible visible_def)

lemma two_files_distinct: "distinct (map haf_auth_index two_files)"
  by (simp add: two_files_def auth_file_def)

theorem forbidden_files_invisible_witness:
  "visible_files key_viewer codex_only two_files = [auth_file ''f2'' ''codex''] \<and>
   authQuota sample_quota_env (Inr [auth_file ''f2'' ''codex'']) [] ''f1'' key_viewer codex_only =
     authQuota sample_quota_env (Inr two_files) [] ''f1'' key_viewer codex_only"
  using forbidden_files_invisible [OF two_files_distinct, of sample_quota_env key_viewer codex_only "[]" "''f1''"] two_files_visible
  by simp

theorem listed_iff_answered_witness:
  "rp_status (authQuota sample_quota_env (Inr two_files) [] ''f2'' key_viewer codex_only) \<noteq> 404"
proof -
  have l: "listAuthFiles (value_env.truncate sample_quota_env) (Inr two_files) key_viewer codex_only =
      Inr (sort_views [auth_file_view (value_env.truncate sample_quota_env) (auth_file ''f2'' ''codex'')])"
    by (simp add: listAuthFiles_def two_files_visible is_api_key_account_def EqualFold_def auth_file_def TrimSpace_visible visible_def
        ToLower_def lower_byte_def is_upper_def)
  have "trimmed ''f2''" using trimmed_TrimSpace [of "''f2''"] by (simp add: TrimSpace_visible visible_def)
  then have "(\<exists>v \<in> set (sort_views [auth_file_view (value_env.truncate sample_quota_env) (auth_file ''f2'' ''codex'')]). afv_index v = ''f2'') \<longleftrightarrow>
      rp_status (authQuota sample_quota_env (Inr two_files) [] ''f2'' key_viewer codex_only) \<noteq> 404"
    using listed_iff_answered [OF two_files_distinct _ _ _ _ l, of "''f2''" "[]"] by (simp add: key_viewer_def)
  then show ?thesis by (simp add: auth_file_def)
qed

lemma no_header [simp]: "AList.update k v (set_header k' v' hs) \<noteq> []"
  by (simp add: set_header_def update_conv)

lemma sample_upstream: "get_request sample_quota_env callback url token headers = Inr sample_answer"
  by (simp add: get_request_def upstream_def sample_quota_env_def Let_def)

lemma sample_records: "credentialRecords (Some [(''access_token'', HStr ''t'')]) = [[(''access_token'', HStr ''t'')]]"
  by (simp add: credentialRecords_def numeral_2_eq_2 nested_keys_def entry_def)

lemma sample_credential:
  "credentialString (Some [(''access_token'', HStr ''t'')]) keys = (if ''access_token'' \<in> set keys then ''t'' else [])"
proof -
  have "firstString (Some [(''access_token'', HStr ''t'')]) keys = (if ''access_token'' \<in> set keys then ''t'' else [])"
    by (induction keys) (auto simp: firstString_def entry_def text_of_def TrimSpace_visible visible_def split: option.splits)
  then show ?thesis by (simp add: credentialString_def sample_records)
qed

lemma sample_fetch:
  "\<exists>r. fetchAuthQuota sample_quota_env [] (auth_file ''f2'' ''codex'') ''codex'' = Inr r \<and> map qr_remaining (aq_quota r) = [Some (Fin 0)]"
proof -
  have u: "\<not> credentialUsesAPIKey (Some [(''access_token'', HStr ''t'')])"
    by (simp add: credentialUsesAPIKey_def sample_credential sample_records boolValue_def entry_def bool_of_def)
  have w: "codex_windows V [(''limit_reached'', HBool True), (''primary_window'', HObj [(''limit_window_seconds'', HNum (Fin 18000))])] =
      [(True, Some [(''limit_window_seconds'', HNum (Fin 18000))], 18000), (False, None, 0)]" for V
    by (simp add: codex_windows_def Let_def objectMap_def entry_def camelKey_def upper_byte_def intValue_def floatValue_def trunc_int64_def
        in_int64_def codexWindowOrder_def codex_month_def)
  have a: "map qr_remaining (aq_quota (appendCodexRateLimit V p (objectMap (Some sample_answer) [''rate_limit'', ''rateLimit'']) r)) =
      map qr_remaining (aq_quota r) @ [Some (Fin 0)]" for V p r
    by (simp add: appendCodexRateLimit_def objectMap_def entry_def sample_answer_def w add_row_def codex_row_def Let_def floatValue_def
        boolValue_def bool_of_def quota_row_def remainingPercent_def fmin_def fmax_def)
  have n: "objectMap (Some sample_answer) [k1, k2] = None" if "k1 \<noteq> ''rate_limit''" "k2 \<noteq> ''rate_limit''" for k1 k2
    using that by (simp add: objectMap_def entry_def sample_answer_def)
  have o: "objectSlice (Some sample_answer) [''additional_rate_limits'', ''additionalRateLimits''] = []"
    "firstString (Some sample_answer) [''plan_type'', ''planType''] = []"
    by (simp_all add: objectSlice_def firstString_def entry_def sample_answer_def text_of_def)
  have none: "appendCodexRateLimit V p None r = r" for V p r by (simp add: appendCodexRateLimit_def)
  have n: "objectMap (Some sample_answer) [''code_review_rate_limit'', ''codeReviewRateLimit''] = None"
    "objectMap (Some sample_answer) [''rate_limit_reset_credits'', ''rateLimitResetCredits''] = None"
    by (simp_all add: n)
  have f: "\<exists>r'. fetchCodexQuota sample_quota_env cb tok acc r = (None, r') \<and>
      map qr_remaining (aq_quota r') = map qr_remaining (aq_quota r) @ [Some (Fin 0)]" for cb tok acc r
    unfolding fetchCodexQuota_def sample_upstream Let_def sum.case o n none append_additional.simps option.case
    by (rule exI, rule conjI, rule refl) (simp add: a)
  define credential where "credential = Some [(''access_token'', HStr ''t'')]"
  have q: "qe_auth sample_quota_env i = Inr credential" for i by (simp add: sample_quota_env_def credential_def)
  have c: "\<not> credentialUsesAPIKey credential" "credentialString credential [''proxy_url'', ''proxyUrl''] = []"
    "credentialToken credential = ''t''" "credentialString credential [''plan_type'', ''planType''] = []"
    using u by (simp_all add: sample_credential credentialToken_def credential_def)
  define r0 where "r0 = \<lparr>aq_revision = authFileRevision (value_env.truncate sample_quota_env) (auth_file ''f2'' ''codex''),
      aq_fetched = qe_now sample_quota_env, aq_plan = [], aq_reset_credits = None, aq_quota = []\<rparr>"
  define account where "account = credentialString credential [''account_id'', ''accountId'', ''chatgpt_account_id'', ''chatgptAccountId'']"
  obtain r' where r': "fetchCodexQuota sample_quota_env [] ''t'' account r0 = (None, r')" "map qr_remaining (aq_quota r') = [Some (Fin 0)]"
    using f [of "[]" "''t''" account r0] by (auto simp: r0_def)
  have "fetchAuthQuota sample_quota_env [] (auth_file ''f2'' ''codex'') ''codex'' = Inr r'"
    unfolding fetchAuthQuota_def q sum.case Let_def r0_def [symmetric]
    using c r'(1) by (simp add: fetch_provider_def account_def [symmetric])
  then show ?thesis using r'(2) by (intro exI conjI)
qed


end
