(* ===== verification/SharedLabels.thy ===== *)
theory SharedLabels
  imports Keeper AuthFiles
begin

text \<open>
  Labels shared with Keeper: \<^verbatim>\<open>internal/plugin/shared_labels.go\<close>. The plugin keeps a copy of Keeper's labels for display; it
  is refreshed and changed only inside management calls. The host's list of credential files, the exchanges with Keeper and
  the clock are arguments; each handler runs under the lock of the Keeper client, so it is one step.
\<close>

section \<open>The state\<close>

record keeperState =
  kst_client :: "keeper_env option"
  kst_last :: time
  kst_error :: string

datatype label_error = From_Keeper keeper_error | From_Store error

definition PublicError :: "label_error \<Rightarrow> int \<times> string" where
  "PublicError e = (case e of From_Keeper k \<Rightarrow> (keeper_status k, keeper_code k) | From_Store _ \<Rightarrow> (503, ''unavailable''))"

text \<open>Keeper's kinds of credentials: 1 for credential files, 2 for everything else.\<close>

definition keeperResolver :: "App \<Rightarrow> resolver" where
  "keeperResolver a authType authIndex =
     (case map_of (app_index a) authIndex of
        None \<Rightarrow> None
      | Some ref \<Rightarrow>
          (case map_of (app_credentials a) ref of
             None \<Rightarrow> None
           | Some v \<Rightarrow> if authType = (if cv_source v = CredentialSourceAuthFiles then 1 else 2) then Some ref else None))"

type_synonym 'r keeper_step = "exchanges \<Rightarrow> App \<Rightarrow> keeperState \<Rightarrow> 'r \<times> exchanges \<times> App \<times> keeperState"

definition refreshKeeper :: "env \<Rightarrow> error + hostAuthFile list \<Rightarrow> time \<Rightarrow> bool \<Rightarrow> label_error option keeper_step" where
  "refreshKeeper E files now force h a k =
     (case kst_client k of
        None \<Rightarrow> (None, h, a, k)
      | Some K \<Rightarrow>
          if \<not> force \<and> time_sub now (kst_last k) < seconds 30 then (None, h, a, k)
          else
            let k1 = k\<lparr>kst_last := now\<rparr>
            in case refreshCredentialInventory files a of
                 (Inl _, a1) \<Rightarrow>
                   (Some (From_Keeper (Keeper_Error ''inventory_unavailable'' 503)), h, a1, k1\<lparr>kst_error := ''inventory_unavailable''\<rparr>)
               | (Inr _, a1) \<Rightarrow>
                   (case snapshot K (keeperResolver a1) h of
                      (Inl e, h1) \<Rightarrow> (Some (From_Keeper e), h1, a1, k1\<lparr>kst_error := keeper_code e\<rparr>)
                    | (Inr labels, h1) \<Rightarrow>
                        (case CacheSharedLabels E (ke_instance K) labels (app_store a1) of
                           (Inl e, s) \<Rightarrow>
                             (Some (From_Store e), h1, set_store s a1, k1\<lparr>kst_error := snd (PublicError (From_Store e))\<rparr>)
                         | (Inr _, s) \<Rightarrow> (None, h1, set_store s a1, k1\<lparr>kst_error := []\<rparr>))))"

definition keeper_stale :: "time \<Rightarrow> keeperState \<Rightarrow> bool" where
  "keeper_stale now k \<longleftrightarrow> kst_error k \<noteq> [] \<or> time_sub now (kst_last k) > seconds 60"

record keeperStatusView =
  ksv_enabled :: bool
  ksv_last :: time
  ksv_error :: string
  ksv_stale :: bool
  ksv_instance :: "string option"
  ksv_ready :: "bool option"

definition keeperStatus :: "time \<Rightarrow> keeperState \<Rightarrow> keeperStatusView reply" where
  "keeperStatus now k =
     JSONResponse (\<lambda>_. None) 200
       \<lparr>ksv_enabled = (kst_client k \<noteq> None), ksv_last = kst_last k, ksv_error = kst_error k, ksv_stale = keeper_stale now k,
        ksv_instance = map_option ke_instance (kst_client k), ksv_ready = map_option (\<lambda>K. ke_password K \<noteq> []) (kst_client k)\<rparr>"

definition keeperAPIError :: "label_error \<Rightarrow> 'a reply" where
  "keeperAPIError e =
     (case PublicError e of
        (status, code) \<Rightarrow> JSONError status (''keeper_'' @ code) (''the update is not confirmed, refresh and check ('' @ code @ '')''))"

definition refreshKeeperAPI :: "env \<Rightarrow> error + hostAuthFile list \<Rightarrow> time \<Rightarrow> keeperStatusView reply keeper_step" where
  "refreshKeeperAPI E files now h a k =
     (case refreshKeeper E files now True h a k of
        (Some e, rest) \<Rightarrow> (keeperAPIError e, rest)
      | (None, h1, a1, k1) \<Rightarrow> (keeperStatus now k1, h1, a1, k1))"

record sharedLabelsView =
  slv_items :: "SharedLabel list"
  slv_enabled :: bool
  slv_stale :: bool
  slv_error :: string

definition cached_labels :: "keeperState \<Rightarrow> App \<Rightarrow> SharedLabel list" where
  "cached_labels k a = (case kst_client k of None \<Rightarrow> [] | Some K \<Rightarrow> CachedSharedLabels (ke_instance K) (s_state (app_store a)))"

definition sharedLabels :: "env \<Rightarrow> error + hostAuthFile list \<Rightarrow> time \<Rightarrow> sharedLabelsView reply keeper_step" where
  "sharedLabels E files now h a k =
     (case refreshKeeper E files now False h a k of
        (_, h1, a1, k1) \<Rightarrow>
          (JSONResponse (\<lambda>_. None) 200
             \<lparr>slv_items = cached_labels k1 a1, slv_enabled = (kst_client k1 \<noteq> None), slv_stale = keeper_stale now k1,
              slv_error = kst_error k1\<rparr>, h1, a1, k1))"

text \<open>A configured Keeper is authoritative, an empty label included.\<close>

definition sharedKeyLabel :: "keeperState \<Rightarrow> App \<Rightarrow> string \<Rightarrow> string \<Rightarrow> string" where
  "sharedKeyLabel k a scope local =
     (if kst_client k = None then local
      else case find (names ''downstream_key'' scope) (cached_labels k a) of None \<Rightarrow> [] | Some l \<Rightarrow> sl_value l)"

definition groupUsage :: "env \<Rightarrow> time \<Rightarrow> string \<Rightarrow> keeperState \<Rightarrow> App \<Rightarrow> GroupKeyUsage" where
  "groupUsage E now scope k a =
     (let view = GroupUsage E scope (app_store a)
      in view\<lparr>guk_label := sharedKeyLabel k a scope (guk_label view), guk_stale := kst_client k \<noteq> None \<and> keeper_stale now k\<rparr>)"

section \<open>Changing a label\<close>

definition updateSharedLabel ::
  "env \<Rightarrow> error + hostAuthFile list \<Rightarrow> time \<Rightarrow> string \<Rightarrow> string \<Rightarrow> string \<Rightarrow> string option \<Rightarrow> SharedLabel list reply keeper_step" where
  "updateSharedLabel E files now kind subject value expected h a k =
     (case kst_client k of
        None \<Rightarrow> (JSONError 409 ''keeper_disabled'' ''Keeper is not configured'', h, a, k)
      | Some K \<Rightarrow>
          (case refreshCredentialInventory files a of
             (Inl _, a1) \<Rightarrow> (JSONError 503 ''inventory_unavailable'' ''the list of credentials cannot be checked'', h, a1, k)
           | (Inr _, a1) \<Rightarrow>
               (case Update K kind subject value expected (keeperResolver a1) h of
                  (Inl e, h1) \<Rightarrow> (keeperAPIError (From_Keeper e), h1, a1, k\<lparr>kst_error := keeper_code e\<rparr>)
                | (Inr labels, h1) \<Rightarrow>
                    (case CacheSharedLabels E (ke_instance K) labels (app_store a1) of
                       (Inl _, s) \<Rightarrow>
                         (JSONError 503 ''keeper_write_outcome_unknown'' ''Keeper accepted the write, the local cache failed; refresh and check'',
                          h1, set_store s a1, k)
                     | (Inr _, s) \<Rightarrow>
                         (JSONResponse (\<lambda>_. None) 200 labels, h1, set_store s a1, k\<lparr>kst_last := now, kst_error := []\<rparr>)))))"

text \<open>The expected value must be given.\<close>

definition patchSharedLabel ::
  "env \<Rightarrow> error + hostAuthFile list \<Rightarrow> time \<Rightarrow> error + string \<times> string \<times> string \<times> string option \<Rightarrow> SharedLabel list reply keeper_step" where
  "patchSharedLabel E files now body h a k =
     (case body of
        Inl e \<Rightarrow> (JSONError (fst (errorResponse e)) (snd (errorResponse e)) (Error_msg e), h, a, k)
      | Inr (kind, subject, value, expected) \<Rightarrow>
          if expected = None then (JSONError 400 ''invalid'' ''expected_value is missing'', h, a, k)
          else updateSharedLabel E files now kind subject value expected h a k)"

section \<open>The cache\<close>

lemma refresh_store: "refreshCredentialInventory files a = (r, a') \<Longrightarrow> app_sys a' = app_sys a"
  by (auto simp: refreshCredentialInventory_def Let_def split: sum.split_asm prod.split_asm)

lemma label_key_inj:
  assumes "labels_ok K ls" "l \<in> set ls" "l' \<in> set ls" "SharedLabel_Key l = SharedLabel_Key l'"
  shows "l = l'"
proof -
  have "sl_instance l = sl_instance l'" "label_ok K l" "label_ok K l'" using assms(1-3) by (auto simp: labels_ok_def label_ok_def)
  then have "sl_kind l = sl_kind l'" "sl_subject l = sl_subject l'"
    using assms(4) by (auto simp: SharedLabel_Key_def label_ok_def)
  then show ?thesis
    using assms(1-3) inj_onD [of "\<lambda>l. (sl_kind l, sl_subject l)" "set ls" l l'] by (simp add: labels_ok_def distinct_map)
qed

lemma foldl_update_keeps:
  assumes "inj_on f (set ls)" "l \<in> set ls"
  shows "map_of (foldl (\<lambda>m l. AList.update (f l) l m) m ls) (f l) = Some l"
  using assms
proof (induction ls rule: rev_induct)
  case (snoc x ls)
  show ?case
  proof (cases "x = l")
    case False
    then have "f x \<noteq> f l" "l \<in> set ls" using snoc.prems by (auto simp: inj_on_def)
    then show ?thesis using snoc by (simp add: update_conv' inj_on_def)
  qed (simp add: update_conv')
qed simp

lemma CacheSharedLabels_shows:
  assumes "CacheSharedLabels E (ke_instance K) ls s = (Inr u, s')" "labels_ok K ls" "l \<in> set ls"
  shows "l \<in> set (CachedSharedLabels (ke_instance K) (s_state s'))"
proof -
  obtain cur where c: "cache_labels (ke_instance K) ls (s_state s) = Inr (u, cur, s_state s')"
    using edit_Inr [OF assms(1) [unfolded CacheSharedLabels_def]] by blast
  then have m: "gs_labels (st_grouped (s_state s')) = foldl (\<lambda>m l. AList.update (SharedLabel_Key l) l m)
      (filter (\<lambda>(k, l). \<not> sl_instance l = ke_instance K) (gs_labels (st_grouped (s_state s)))) ls"
    by (auto simp: cache_labels_def Let_def dest!: arg_cong [where f = "\<lambda>st. gs_labels (st_grouped st)"])
  have "inj_on SharedLabel_Key (set ls)" using label_key_inj [OF assms(2)] by (blast intro: inj_onI)
  then have "map_of (gs_labels (st_grouped (s_state s'))) (SharedLabel_Key l) = Some l"
    using foldl_update_keeps [OF _ assms(3), of SharedLabel_Key] m by simp
  then have "l \<in> snd ` set (gs_labels (st_grouped (s_state s')))" by (force dest: map_of_SomeD)
  moreover have "sl_instance l = ke_instance K" using assms(2,3) by (simp add: labels_ok_def label_ok_def)
  ultimately show ?thesis by (simp add: CachedSharedLabels_def)
qed

lemma Update_labels:
  assumes "Update K kind subject value expected resolve h = (Inr ls, h')"
  shows "labels_ok K ls"
  using assms
proof (cases rule: Update_cases)
  case (written labels l h1 raw h2 r3)
  then show ?thesis using snapshot_effect [OF written(6)] by blast
qed (auto elim: snapshot_effect)

section \<open>Changing a label\<close>

lemma JSONError_body [simp]: "rp_body (JSONError status code message) = Error_Body (TrimSpace code) (TrimSpace message)"
    "rp_status (JSONError status code message) = status"
  by (simp_all add: JSONError_def)

lemma outcome_unknown_trimmed: "TrimSpace (''keeper_'' @ outcome_unknown) = ''keeper_write_outcome_unknown''"
  by (simp add: outcome_unknown_def TrimSpace_visible visible_def)

text \<open>C0: a request to change a shared label sends at most one write that can take effect; when it is answered with 200 the
  write was accepted and the plugin shows the new label, and when it is answered with any other error than
  \<open>keeper_write_outcome_unknown\<close> no write took effect and the plugin shows the labels it showed before.\<close>

theorem patchSharedLabel_ok:
  assumes "patchSharedLabel E files now (Inr (kind, subject, value, expected)) h a k = (answer, h', a', k')" "kst_client k = Some K"
  shows "\<exists>new. h' = h @ new \<and> length (landed new) \<le> 1 \<and>
    (rp_status answer = 200 \<longrightarrow> landed new \<noteq> [] \<and> (\<exists>l \<in> set (cached_labels k' a'). names kind subject l \<and> sl_value l = TrimSpace value)) \<and>
    (\<forall>c m. rp_body answer = Error_Body c m \<and> c \<noteq> ''keeper_write_outcome_unknown'' \<longrightarrow>
       landed new = [] \<and> cached_labels k' a' = cached_labels k a)"
proof (cases "expected = None")
  case True
  then show ?thesis using assms by (intro exI [of _ "[]"]) (auto simp: patchSharedLabel_def)
next
  case False
  have p: "updateSharedLabel E files now kind subject value expected h a k = (answer, h', a', k')"
    using assms(1) False by (simp add: patchSharedLabel_def)
  obtain r1 a1 where f: "refreshCredentialInventory files a = (r1, a1)" by fastforce
  note sys = refresh_store [OF f]
  show ?thesis
  proof (cases r1)
    case (Inl e)
    then show ?thesis using p f assms(2) sys
      by (intro exI [of _ "[]"]) (auto simp: updateSharedLabel_def cached_labels_def)
  next
    case (Inr u)
    obtain r h1 where up: "Update K kind subject value expected (keeperResolver a1) h = (r, h1)" by fastforce
    obtain new where new: "h1 = h @ new" "length (landed new) \<le> 1"
      "\<And>e. r = Inl e \<Longrightarrow> keeper_code e \<noteq> outcome_unknown \<Longrightarrow> landed new = []"
      "\<And>ls. r = Inr ls \<Longrightarrow> landed new \<noteq> [] \<and> (\<exists>l' \<in> set ls. names kind subject l' \<and> sl_value l' = TrimSpace value)"
      using Update_effect [OF up] by blast
    show ?thesis
    proof (cases r)
      case (Inl e)
      then have s: "answer = keeperAPIError (From_Keeper e)" "h' = h1" "a' = a1" "k' = k\<lparr>kst_error := keeper_code e\<rparr>"
        using p f assms(2) Inr up by (auto simp: updateSharedLabel_def)
      have "keeper_code e \<noteq> outcome_unknown" if "rp_body answer = Error_Body c m" "c \<noteq> ''keeper_write_outcome_unknown''" for c m
        using that s(1) outcome_unknown_trimmed by (auto simp: keeperAPIError_def PublicError_def)
      moreover have "cached_labels k' a' = cached_labels k a" using s sys assms(2) by (simp add: cached_labels_def)
      moreover have "rp_status answer \<noteq> 200" using s(1) Update_status [of K kind subject "value" expected "keeperResolver a1" h e h1] up Inl
        by (auto simp: keeperAPIError_def PublicError_def error_status_def)
      ultimately show ?thesis using new(1-3) s(2) Inl by (intro exI [of _ new]) blast
    next
      case ls: (Inr ls)
      obtain r2 s2 where c: "CacheSharedLabels E (ke_instance K) ls (app_store a1) = (r2, s2)" by fastforce
      show ?thesis
      proof (cases r2)
        case (Inl e)
        then have "answer = JSONError 503 ''keeper_write_outcome_unknown'' ''Keeper accepted the write, the local cache failed; refresh and check''"
          "h' = h1" using p f assms(2) Inr up ls c by (auto simp: updateSharedLabel_def)
        then show ?thesis using new(1,2) by (intro exI [of _ new]) (simp add: TrimSpace_visible visible_def)
      next
        case stored: (Inr u')
        then have s: "rp_status answer = 200" "\<And>c m. rp_body answer \<noteq> Error_Body c m" "h' = h1" "app_store a' = s2" "kst_client k' = Some K"
          using p f assms(2) Inr up ls c by (auto simp: updateSharedLabel_def JSONResponse_def Let_def set_store_def)
        have "labels_ok K ls" using Update_labels up ls by simp
        then have "set ls \<subseteq> set (cached_labels k' a')"
          using CacheSharedLabels_shows [of E K ls "app_store a1" u' s2] c stored s(4,5) by (auto simp: cached_labels_def)
        then show ?thesis using new s ls by (intro exI [of _ new]) blast
      qed
    qed
  qed
qed

section \<open>An example\<close>

definition labelled_app :: App where
  "labelled_app = newApp\<lparr>app_index := [(''x'', ''ref'')],
     app_credentials := [(''ref'', \<lparr>cv_ref = ''ref'', cv_source = CredentialSourceAIProviders, cv_provider = [], cv_name = [], cv_status = [],
       cv_disabled = False, cv_unavailable = False\<rparr>)]\<rparr>"

definition labelled_state :: keeperState where
  "labelled_state = \<lparr>kst_client = Some sample_keeper, kst_last = 0, kst_error = []\<rparr>"

theorem patchSharedLabel_ok_witness:
  "\<exists>answer h' a' k'. patchSharedLabel calm (Inr []) 0 (Inr (''upstream_identity'', ''ref'', ''new'', Some ''old'')) [] labelled_app labelled_state =
       (answer, h', a', k') \<and> rp_status answer = 200 \<and> landed h' \<noteq> [] \<and>
     (\<exists>l \<in> set (cached_labels k' a'). names ''upstream_identity'' ''ref'' l \<and> sl_value l = ''new'')"
proof -
  have trims: "TrimSpace ''new'' = ''new''" by (simp add: TrimSpace_visible visible_def)
  define a1 where "a1 = snd (refreshCredentialInventory (Inr []) labelled_app)"
  have f: "refreshCredentialInventory (Inr []) labelled_app = (Inr (), a1)"
    by (simp add: a1_def refreshCredentialInventory_def Let_def)
  have "keeperResolver a1 2 ''x'' = Some ''ref''"
    by (simp add: keeperResolver_def a1_def refreshCredentialInventory_def Let_def labelled_app_def keep_configured_def has_key_def
        CredentialSourceAIProviders_def CredentialSourceAuthFiles_def)
  then obtain h' where u: "Update sample_keeper ''upstream_identity'' ''ref'' ''new'' (Some ''old'') (keeperResolver a1) [] = (Inr [shown_label ''new''], h')"
    using sample_update by blast
  obtain s2 where c: "CacheSharedLabels calm (ke_instance sample_keeper) [shown_label ''new''] (app_store a1) = (Inr (), s2)"
  proof -
    have "s_repo (app_store a1) = None"
      using refresh_store [OF f] by (simp add: labelled_app_def newApp_def new_system_def new_store_def)
    then show thesis using that by (auto simp: CacheSharedLabels_def editConfiguration_def cache_labels_def Let_def)
  qed
  obtain answer a' k' where p: "patchSharedLabel calm (Inr []) 0 (Inr (''upstream_identity'', ''ref'', ''new'', Some ''old'')) [] labelled_app labelled_state =
       (answer, h', a', k')" "rp_status answer = 200"
    using f u c by (auto simp: patchSharedLabel_def updateSharedLabel_def labelled_state_def JSONResponse_def Let_def)
  show ?thesis
    using patchSharedLabel_ok [OF p(1), of sample_keeper] p by (auto simp: labelled_state_def trims)
qed

end
