(* ===== verification/AdminHandlers.thy ===== *)
theory AdminHandlers
  imports SharedLabels
begin

text \<open>
  The management handlers of \<^verbatim>\<open>internal/plugin/admin.go\<close>: each decodes a request, calls operations of the store and
  answers. What \<open>decodeStrict\<close> gives is an argument. \<open>E i\<close> is the environment of the i-th operation of the store in a
  handler. A handler that stores references to credentials first makes sure that the new ones exist.
\<close>

section \<open>Answers\<close>

definition error_reply :: "error \<Rightarrow> 'a reply" where
  "error_reply e = JSONError (fst (errorResponse e)) (snd (errorResponse e)) (Error_msg e)"

definition shown :: "int \<Rightarrow> 'a \<Rightarrow> 'a reply" where
  "shown status payload = JSONResponse (\<lambda>_. None) status payload"

text \<open>The end of most handlers: a request that is no valid JSON changes nothing, an operation answers with its result.\<close>

definition store_reply :: "int \<Rightarrow> (error + 'a) \<times> Store \<Rightarrow> App \<Rightarrow> 'a reply \<times> App" where
  "store_reply status result a =
     (case result of (Inl e, s) \<Rightarrow> (error_reply e, set_store s a) | (Inr v, s) \<Rightarrow> (shown status v, set_store s a))"

definition handle_body :: "error + 'b \<Rightarrow> ('b \<Rightarrow> 'a reply \<times> App) \<Rightarrow> App \<Rightarrow> 'a reply \<times> App" where
  "handle_body body run a = (case body of Inl e \<Rightarrow> (error_reply e, a) | Inr b \<Rightarrow> run b)"

section \<open>Rows\<close>

record keyRow =
  kr_view :: KeyView
  kr_route_names :: "string smap"
  kr_labels :: "string smap"

record routeRow =
  rr_view :: RouteView
  rr_labels :: "string smap"

definition route_names :: "Store \<Rightarrow> string list \<Rightarrow> string smap" where
  "route_names s ids =
     fold (\<lambda>i m. case findRoute (st_routes (s_state s)) i of None \<Rightarrow> m | Some route \<Rightarrow> AList.update i (rte_name route) m) ids []"

definition key_row :: "keeperState \<Rightarrow> App \<Rightarrow> KeyView \<Rightarrow> keyRow" where
  "key_row k a v =
     \<lparr>kr_view = v\<lparr>kv_label := sharedKeyLabel k a (kv_scope v) (kv_label v)\<rparr>,
      kr_route_names = route_names (app_store a) (rb_route_ids (kv_bindings v)),
      kr_labels = credentialLabels (CredentialRefs (rb_rule (kv_bindings v))) a\<rparr>"

definition keyRows :: "(nat \<Rightarrow> env) \<Rightarrow> error + hostAuthFile list \<Rightarrow> time \<Rightarrow> keyRow list keeper_step" where
  "keyRows E files now h a k =
     (case refreshKeeper (E 0) files now False h a k of
        (_, h1, a1, k1) \<Rightarrow>
          (case KeyViews (E 1) (app_store a1) of
             (views, s) \<Rightarrow> let a2 = set_store s a1 in (map (key_row k1 a2) views, h1, a2, k1)))"

definition routeRows :: "App \<Rightarrow> routeRow list" where
  "routeRows a =
     map (\<lambda>v. \<lparr>rr_view = v, rr_labels = credentialLabels (CredentialRefs (rte_rule (rvw_route v))) a\<rparr>) (RouteViews (app_store a))"

section \<open>Plans\<close>

definition createPlan ::
  "(nat \<Rightarrow> env) \<Rightarrow> (nat \<Rightarrow> error + string) \<Rightarrow> error + Plan \<times> string list \<Rightarrow> App \<Rightarrow> Plan reply \<times> App" where
  "createPlan E rand_id body a =
     handle_body body (\<lambda>(plan, scopes). store_reply 201 (CreatePlanWithBindings (E 0) rand_id plan scopes (app_store a)) a) a"

definition updatePlan ::
  "(nat \<Rightarrow> env) \<Rightarrow> (nat \<Rightarrow> error + string) \<Rightarrow> error + PlanPatch \<times> string list option \<Rightarrow> App \<Rightarrow> Plan reply \<times> App" where
  "updatePlan E rand_id body a =
     handle_body body (\<lambda>(patch, scopes). store_reply 200 (UpdatePlanWithBindings (E 0) rand_id patch scopes (app_store a)) a) a"

definition deletePlan :: "(nat \<Rightarrow> env) \<Rightarrow> string \<Rightarrow> App \<Rightarrow> nat reply \<times> App" where
  "deletePlan E pid a = store_reply 200 (DeletePlan (E 0) (TrimSpace pid) (app_store a)) a"

section \<open>Routes\<close>

text \<open>References a rule already has need not exist any more; for new ones the inventory is read again.\<close>

definition new_refs :: "string list \<Rightarrow> string list \<Rightarrow> string list" where
  "new_refs refs existing =
     filter (\<lambda>ref. ToLower (TrimSpace ref) \<notin> set (map (\<lambda>e. ToLower (TrimSpace e)) existing)) refs"

definition validateNewCredentialRefs ::
  "error + hostAuthFile list \<Rightarrow> string list \<Rightarrow> string list \<Rightarrow> App \<Rightarrow> 'a reply option \<times> App" where
  "validateNewCredentialRefs files refs existing a =
     (if new_refs refs existing = [] then (None, a)
      else case refreshCredentialInventory files a of
             (Inl e, a1) \<Rightarrow> (Some (JSONError 502 ''host_unavailable'' (''loading the upstream credentials failed: '' @ Error_msg e)), a1)
           | (Inr _, a1) \<Rightarrow>
               let missing = missingCredentialRef (new_refs refs existing) a1
               in if missing \<noteq> [] then (Some (JSONError 400 ''invalid'' (''the upstream credential does not exist any more: '' @ missing)), a1)
                  else (None, a1))"

definition createRoute ::
  "(nat \<Rightarrow> env) \<Rightarrow> error + hostAuthFile list \<Rightarrow> error + string \<times> RouteRule \<times> string list \<Rightarrow> App \<Rightarrow> Route reply \<times> App" where
  "createRoute E files body a =
     handle_body body (\<lambda>(name, rule, scopes).
       case NormalizeRouteRule rule of
         Inl e \<Rightarrow> (error_reply e, a)
       | Inr rule \<Rightarrow>
           (case validateNewCredentialRefs files (CredentialRefs rule) [] a of
              (Some r, a1) \<Rightarrow> (r, a1)
            | (None, a1) \<Rightarrow>
                store_reply 201 (CreateRoute (E 0) \<lparr>rte_id = [], rte_name = name, rte_rule = rule\<rparr> scopes (app_store a1)) a1)) a"

definition route_refs :: "Store \<Rightarrow> string \<Rightarrow> string list" where
  "route_refs s rid = (case findRoute (st_routes (s_state s)) rid of None \<Rightarrow> [] | Some route \<Rightarrow> CredentialRefs (rte_rule route))"

definition updateRoute ::
  "(nat \<Rightarrow> env) \<Rightarrow> error + hostAuthFile list \<Rightarrow> error + RoutePatch \<times> string list option \<Rightarrow> App \<Rightarrow> Route reply \<times> App" where
  "updateRoute E files body a =
     handle_body body (\<lambda>(patch, scopes).
       case rpt_rule patch of
         None \<Rightarrow> store_reply 200 (UpdateRoute (E 0) patch scopes (app_store a)) a
       | Some rule0 \<Rightarrow>
           (case NormalizeRouteRule rule0 of
              Inl e \<Rightarrow> (error_reply e, a)
            | Inr rule \<Rightarrow>
                (case validateNewCredentialRefs files (CredentialRefs rule) (route_refs (app_store a) (rpt_id patch)) a of
                   (Some r, a1) \<Rightarrow> (r, a1)
                 | (None, a1) \<Rightarrow> store_reply 200 (UpdateRoute (E 0) (patch\<lparr>rpt_rule := Some rule\<rparr>) scopes (app_store a1)) a1))) a"

definition deleteRoute :: "(nat \<Rightarrow> env) \<Rightarrow> string \<Rightarrow> App \<Rightarrow> RouteDeleteResult reply \<times> App" where
  "deleteRoute E rid a = store_reply 200 (DeleteRoute (E 0) (TrimSpace rid) (app_store a)) a"

definition setKeyRoutes ::
  "(nat \<Rightarrow> env) \<Rightarrow> error + hostAuthFile list \<Rightarrow> error + string \<times> RouteBindings \<Rightarrow> App \<Rightarrow> unit reply \<times> App" where
  "setKeyRoutes E files body a =
     handle_body body (\<lambda>(scope, bindings).
       case NormalizeRouteBindings bindings of
         Inl e \<Rightarrow> (error_reply e, a)
       | Inr bindings \<Rightarrow>
           (case KeyViewForScope (E 0) scope (app_store a) of
              (view, s) \<Rightarrow>
                let a1 = set_store s a;
                    existing = (case view of None \<Rightarrow> [] | Some v \<Rightarrow> CredentialRefs (rb_rule (kv_bindings v)))
                in case validateNewCredentialRefs files (CredentialRefs (rb_rule bindings)) existing a1 of
                     (Some r, a2) \<Rightarrow> (r, a2)
                   | (None, a2) \<Rightarrow> store_reply 200 (SetKeyRoutes (E 1) scope bindings (app_store a2)) a2)) a"

section \<open>Keys\<close>

definition bindKey :: "(nat \<Rightarrow> env) \<Rightarrow> error + string \<times> string \<Rightarrow> App \<Rightarrow> unit reply \<times> App" where
  "bindKey E body a = handle_body body (\<lambda>(scope, pid). store_reply 200 (BindKey (E 0) scope pid (app_store a)) a) a"

definition unbindKey :: "(nat \<Rightarrow> env) \<Rightarrow> error + string \<Rightarrow> App \<Rightarrow> unit reply \<times> App" where
  "unbindKey E body a = handle_body body (\<lambda>scope. store_reply 200 (UnbindKey (E 0) scope (app_store a)) a) a"

definition resetKeys :: "(nat \<Rightarrow> env) \<Rightarrow> error + ResetRequest \<Rightarrow> App \<Rightarrow> ResetResult reply \<times> App" where
  "resetKeys E body a = handle_body body (\<lambda>req. store_reply 200 (ResetQuota (E 0) req (app_store a)) a) a"

definition setKeyConcurrency :: "(nat \<Rightarrow> env) \<Rightarrow> error + string \<times> int \<Rightarrow> App \<Rightarrow> unit reply \<times> App" where
  "setKeyConcurrency E body a =
     handle_body body (\<lambda>(scope, limit). store_reply 200 (SetConcurrencyLimit (E 0) scope limit (app_store a)) a) a"

text \<open>With a Keeper the label is Keeper's, and no expected value is asked for; otherwise it is the key's own.\<close>

definition labelKey ::
  "(nat \<Rightarrow> env) \<Rightarrow> error + hostAuthFile list \<Rightarrow> time \<Rightarrow> error + string \<times> string \<Rightarrow> (SharedLabel list reply + unit reply) keeper_step" where
  "labelKey E files now body h a k =
     (case body of
        Inl e \<Rightarrow> (Inr (error_reply e), h, a, k)
      | Inr (scope, label) \<Rightarrow>
          if kst_client k \<noteq> None
          then (case updateSharedLabel (E 0) files now ''downstream_key'' scope label None h a k of (r, rest) \<Rightarrow> (Inl r, rest))
          else (case store_reply 200 (SetLabel (E 0) scope label (app_store a)) a of (r, a1) \<Rightarrow> (Inr r, h, a1, k)))"

definition sync_message :: "SyncResult \<Rightarrow> string" where
  "sync_message r = ''the API keys of the proxy were synchronised: added '' @ FormatInt (int (sy_added r)) @ '', deleted '' @
     FormatInt (int (sy_deleted r))"

text \<open>The schedules of keys that are gone are dropped.\<close>

definition syncKeys :: "(nat \<Rightarrow> env) \<Rightarrow> error + string list \<times> bool \<Rightarrow> App \<Rightarrow> SyncResult reply \<times> App" where
  "syncKeys E body a =
     handle_body body (\<lambda>(keys, allowEmpty).
       case SyncKeys (E 0) keys allowEmpty (app_store a) of
         (Inl e, s) \<Rightarrow> (error_reply e, set_store s a)
       | (Inr r, s) \<Rightarrow>
           let s1 = (if sy_added r > 0 \<or> sy_deleted r > 0 then AddPluginLog PluginLogInfo (sync_message r) s else s)
           in case KeyViews (E 1) s1 of
                (views, s2) \<Rightarrow>
                  let live = map kv_scope (filter (\<lambda>v. IsZero (kv_deleted_at v)) views); a1 = set_store s2 a
                  in (shown 200 r, a1\<lparr>app_scheduler := prune live (app_scheduler a1)\<rparr>)) a"

end
