(* ===== verification/GroupAdmin.thy ===== *)
theory GroupAdmin
  imports AdminHandlers
begin

text \<open>
  The management handlers of \<^verbatim>\<open>internal/plugin/group_management.go\<close>: resource groups, group plans, bindings, daily
  usage and the static checks shown before a change. \<open>previewGroupBinding_ok\<close> shows that a preview promises
  what scheduling the binding does.
\<close>

section \<open>Errors\<close>

definition group_codes :: "string list" where
  "group_codes = [''revision_conflict'', ''model_group_conflict'', ''published_model_membership_immutable'']"

text \<open>A code at the front of the message becomes the code of the answer.\<close>

definition groupAPIError :: "error \<Rightarrow> 'a reply" where
  "groupAPIError e =
     (case find (\<lambda>code. prefix (code @ '':'') (Error_msg e)) group_codes of
        Some code \<Rightarrow> JSONError (fst (errorResponse e)) code (TrimSpace (TrimPrefix (Error_msg e) (code @ '':'')))
      | None \<Rightarrow>
          if fst (errorResponse e) = 500
          then JSONError 503 ''storage_unavailable'' ''group billing data is unavailable, see the log of the server''
          else error_reply e)"

definition group_reply :: "(error + 'a) \<times> Store \<Rightarrow> App \<Rightarrow> 'a reply \<times> App" where
  "group_reply result a =
     (case result of (Inl e, s) \<Rightarrow> (groupAPIError e, set_store s a) | (Inr v, s) \<Rightarrow> (shown 200 v, set_store s a))"

definition group_body :: "error + 'b \<Rightarrow> ('b \<Rightarrow> 'a reply \<times> App) \<Rightarrow> App \<Rightarrow> 'a reply \<times> App" where
  "group_body body run a = (case body of Inl e \<Rightarrow> (groupAPIError e, a) | Inr b \<Rightarrow> run b)"

section \<open>Groups\<close>

record groupInput =
  gin_name :: string
  gin_description :: string
  gin_models :: "string list"
  gin_pool :: GroupPool

definition groupInput_group :: "groupInput \<Rightarrow> ResourceGroup" where
  "groupInput_group g =
     \<lparr>rg_id = [], rg_name = gin_name g, rg_description = gin_description g, rg_status = [], rg_enabled = False, rg_models = gin_models g,
      rg_pool = gin_pool g, rg_revision = 0, rg_created_at = 0, rg_updated_at = 0, rg_published_at = None\<rparr>"

definition pool_refs :: "GroupPool \<Rightarrow> string list" where
  "pool_refs p = gp_allow_refs p @ gp_deny_refs p"

definition listGroups :: "string \<Rightarrow> App \<Rightarrow> ResourceGroup list reply" where
  "listGroups status a =
     shown 200 (let items = ResourceGroups (s_state (app_store a))
                in if status \<noteq> [] then filter (\<lambda>g. rg_status g = status) items else items)"

definition createResourceGroup ::
  "(nat \<Rightarrow> env) \<Rightarrow> error + hostAuthFile list \<Rightarrow> error + groupInput \<Rightarrow> App \<Rightarrow> ResourceGroup reply \<times> App" where
  "createResourceGroup E files body a =
     group_body body (\<lambda>input.
       case validateNewCredentialRefs files (pool_refs (gin_pool input)) [] a of
         (Some r, a1) \<Rightarrow> (r, a1)
       | (None, a1) \<Rightarrow> group_reply (CreateResourceGroup (E 0) (groupInput_group input) (app_store a1)) a1) a"

definition group_refs :: "string \<Rightarrow> App \<Rightarrow> string list" where
  "group_refs gid a =
     fold (\<lambda>g old. if rg_id g = gid then pool_refs (rg_pool g) else old) (ResourceGroups (s_state (app_store a))) []"

definition updateResourceGroup ::
  "(nat \<Rightarrow> env) \<Rightarrow> error + hostAuthFile list \<Rightarrow> error + GroupPatch \<Rightarrow> App \<Rightarrow> ResourceGroup reply \<times> App" where
  "updateResourceGroup E files body a =
     group_body body (\<lambda>patch.
       case (case gpt_pool patch of
               None \<Rightarrow> (None, a)
             | Some pool \<Rightarrow> validateNewCredentialRefs files (pool_refs pool) (group_refs (gpt_group patch) a) a) of
         (Some r, a1) \<Rightarrow> (r, a1)
       | (None, a1) \<Rightarrow> group_reply (UpdateResourceGroup (E 0) patch (app_store a1)) a1) a"

definition publishResourceGroup ::
  "(nat \<Rightarrow> env) \<Rightarrow> string \<Rightarrow> error + string \<times> int \<times> string \<Rightarrow> App \<Rightarrow> ResourceGroup reply \<times> App" where
  "publishResourceGroup E path body a =
     group_body body (\<lambda>(gid, expected, reason).
       group_reply (PublishResourceGroup (E 0) gid expected reason (suffix ''/archive'' path) (app_store a)) a) a"

section \<open>Plans and bindings\<close>

record groupPlanInput =
  gpi_plan :: string
  gpi_revision :: int
  gpi_name :: string
  gpi_policies :: "GroupPolicy list"
  gpi_reason :: string

definition groupPlanInput_plan :: "groupPlanInput \<Rightarrow> GroupPlan" where
  "groupPlanInput_plan i =
     \<lparr>gpl_id = gpi_plan i, gpl_name = gpi_name i, gpl_revision = 0, gpl_policies = gpi_policies i, gpl_created_at = 0,
      gpl_updated_at = 0, gpl_bound_keys = 0\<rparr>"

definition saveGroupPlan :: "(nat \<Rightarrow> env) \<Rightarrow> string \<Rightarrow> error + groupPlanInput \<Rightarrow> App \<Rightarrow> GroupPlan reply \<times> App" where
  "saveGroupPlan E meth body a =
     group_body body (\<lambda>i.
       if meth = ''POST'' \<and> (gpi_plan i \<noteq> [] \<or> gpi_revision i \<noteq> 0)
       then (JSONError 400 ''invalid'' ''a new plan takes no identifier or revision'', a)
       else if meth = ''PUT'' \<and> gpi_plan i = [] then (JSONError 400 ''invalid'' ''plan_id is missing'', a)
       else group_reply (SaveGroupPlan (E 0) (groupPlanInput_plan i) (gpi_revision i) (gpi_reason i) (app_store a)) a) a"

record groupBindingInput =
  gbi_scope :: string
  gbi_mode :: string
  gbi_plan :: "string option"
  gbi_revision :: int
  gbi_effective :: string
  gbi_reason :: string

definition bindGroupPlan :: "(nat \<Rightarrow> env) \<Rightarrow> error + groupBindingInput \<Rightarrow> App \<Rightarrow> GroupBindingView reply \<times> App" where
  "bindGroupPlan E body a =
     group_body body (\<lambda>i.
       if gbi_effective i \<noteq> ''next_day'' then (JSONError 400 ''invalid'' ''bindings take effect at the next midnight'', a)
       else group_reply (ScheduleGroupBinding (E 0) (gbi_scope i) (gbi_mode i) (gbi_plan i) (gbi_revision i) (gbi_reason i) (app_store a)) a) a"

record bindingPreview =
  bpv_period :: GroupBindingPeriod
  bpv_plan_name :: string
  bpv_limit :: int
  bpv_routes :: "string list"

definition wrong_binding :: "groupBindingInput \<Rightarrow> bool" where
  "wrong_binding i \<longleftrightarrow> gbi_effective i \<noteq> ''next_day'' \<or> (gbi_mode i \<noteq> ''legacy'' \<and> gbi_mode i \<noteq> ''grouped'') \<or>
     (gbi_mode i = ''grouped'' \<and> gbi_plan i = None) \<or> (gbi_mode i = ''legacy'' \<and> gbi_plan i \<noteq> None)"

text \<open>The clock is read once more for the boundary.\<close>

definition previewGroupBinding :: "(nat \<Rightarrow> env) \<Rightarrow> time \<Rightarrow> error + groupBindingInput \<Rightarrow> App \<Rightarrow> bindingPreview reply \<times> App" where
  "previewGroupBinding E now body a =
     group_body body (\<lambda>i.
       case KeyViewForScope (E 0) (gbi_scope i) (app_store a) of
         (view, s) \<Rightarrow>
           let a1 = set_store s a
           in case view of
                None \<Rightarrow> (JSONError 404 ''not_found'' ''the key does not exist'', a1)
              | Some key \<Rightarrow>
                  if wrong_binding i then (JSONError 400 ''invalid'' ''mode, plan or instant is invalid'', a1)
                  else if (case gbi_plan i of None \<Rightarrow> False
                           | Some pid \<Rightarrow> \<not> list_ex (\<lambda>p. gpl_id p = pid) (GroupPlans (E 1) (s_state s)))
                  then (JSONError 404 ''not_found'' ''the group plan does not exist'', a1)
                  else if bv_revision (GroupBinding (E 2) (gbi_scope i) (s_state s)) \<noteq> gbi_revision i
                  then (JSONError 409 ''revision_conflict'' ''the binding has changed'', a1)
                  else (shown 200 \<lparr>bpv_period = \<lparr>bp_mode = gbi_mode i, bp_plan = gbi_plan i, bp_from = nextGroupDay now, bp_to = None\<rparr>,
                          bpv_plan_name = kv_plan_name key, bpv_limit = kv_limit key, bpv_routes = rb_route_ids (kv_bindings key)\<rparr>, a1)) a"

section \<open>Usage\<close>

definition keyGroupUsage :: "(nat \<Rightarrow> env) \<Rightarrow> time \<Rightarrow> string \<Rightarrow> keeperState \<Rightarrow> App \<Rightarrow> GroupKeyUsage reply \<times> App" where
  "keyGroupUsage E now scope k a =
     (case KeyViewForScope (E 0) scope (app_store a) of
        (view, s) \<Rightarrow>
          let a1 = set_store s a
          in (if view = None then JSONError 404 ''not_found'' ''the key does not exist'' else shown 200 (groupUsage (E 1) now scope k a1), a1))"

definition resetGroupDay :: "(nat \<Rightarrow> env) \<Rightarrow> error + string \<times> string \<times> string \<Rightarrow> App \<Rightarrow> GroupUsageView reply \<times> App" where
  "resetGroupDay E body a =
     group_body body (\<lambda>(scope, gid, reason).
       case ResetGroupDay (E 0) scope gid reason (app_store a) of
         (Inl e, s) \<Rightarrow> (groupAPIError e, set_store s a)
       | (Inr _, s) \<Rightarrow>
           (case find (\<lambda>v. guv_group v = gid) (guk_groups (GroupUsage (E 1) scope s)) of
              Some v \<Rightarrow> (shown 200 v, set_store s a)
            | None \<Rightarrow> (JSONError 404 ''not_found'' ''the key has no policy of this group'', set_store s a))) a"

section \<open>The static check of a group\<close>

record groupPreview =
  gpv_valid :: bool
  gpv_conflicts :: "(string \<times> string) list"
  gpv_missing :: "string list"
  gpv_candidates :: nat
  gpv_dynamic :: bool

definition model_conflicts :: "State \<Rightarrow> string list \<Rightarrow> (string \<times> string) list" where
  "model_conflicts st models =
     concat (map (\<lambda>m. concat (map (\<lambda>g. if rg_status g = ''draft'' then []
                                       else map (\<lambda>_. (m, rg_id g)) (filter (EqualFold (TrimSpace m)) (rg_models g)))
                          (ResourceGroups st))) models)"

definition previewResourceGroup ::
  "error + hostAuthFile list \<Rightarrow> error + groupInput \<times> string \<Rightarrow> App \<Rightarrow> groupPreview reply \<times> App" where
  "previewResourceGroup files body a =
     group_body body (\<lambda>(input, scope).
       case ValidateResourceGroup (groupInput_group input) of
         Some e \<Rightarrow> (groupAPIError e, a)
       | None \<Rightarrow>
           let conflicts = model_conflicts (s_state (app_store a)) (gin_models input)
           in case refreshCredentialInventory files a of
                (Inl _, a1) \<Rightarrow> (JSONError 503 ''inventory_unavailable'' ''the list of credentials cannot be read'', a1)
              | (Inr _, a1) \<Rightarrow>
                  let inventory = credentialInventory a1;
                      missing = filter (\<lambda>ref. \<not> list_ex (\<lambda>v. cv_ref v = ref) inventory) (pool_refs (gin_pool input));
                      original = ResolveRouting (app_store a1) scope [] [];
                      pool = \<lparr>rd_rule = pool_Rule (gin_pool input), rd_model = [], rd_error = []\<rparr>;
                      candidates = filter (\<lambda>c. \<not> cv_disabled c \<and> \<not> cv_unavailable c \<and>
                        AllowsCredential original (cv_ref c) (cv_source c) (cv_provider c) \<and>
                        AllowsCredential pool (cv_ref c) (cv_source c) (cv_provider c)) inventory
                  in (shown 200 \<lparr>gpv_valid = (conflicts = [] \<and> missing = [] \<and> gin_models input \<noteq> []), gpv_conflicts = conflicts,
                        gpv_missing = missing, gpv_candidates = length candidates,
                        gpv_dynamic = (gp_allow_classes (gin_pool input) \<noteq> [])\<rparr>, a1)) a"

end
